(* ===== verification/Prelude.thy ===== *)
theory Prelude
  imports Main "HOL-Library.Word" "HOL-Library.Multiset"
begin

text \<open>
  Shared vocabulary of the development: names for Rust's machine integers, the
  saturating operations of the standard library, the collections of rewrite rules the
  component theories fill, and two interfaces that several components implement: a
  state machine with an invariant, and a codec.
\<close>

section \<open>Types and rule collections\<close>

type_synonym u8 = "8 word"
type_synonym u16 = "16 word"
type_synonym u32 = "32 word"
type_synonym u64 = "64 word"
type_synonym i16 = "16 word"
type_synonym i32 = "32 word"

text \<open>
  An instant is its distance from an arbitrary origin; instants and durations count
  nanoseconds, the resolution of \<open>std::time\<close>. Subtracting a later instant from an
  earlier one gives 0, as \<open>Instant::elapsed\<close> and \<open>saturating_sub\<close> do.
\<close>

type_synonym time = nat
type_synonym duration = nat

definition as_micros :: "duration \<Rightarrow> nat" where
  "as_micros d = d div 1000"

definition as_millis :: "duration \<Rightarrow> nat" where
  "as_millis d = d div 1000000"

named_theorems inv_simps \<open>unfolding rules of the component invariants\<close>
named_theorems op_defs \<open>definitions of the operations of a component\<close>
named_theorems str_simps \<open>evaluation rules for the scanners over strings\<close>

section \<open>Machine integers\<close>

text \<open>Rust's \<open>saturating_add\<close> on unsigned words.\<close>

definition saturating_add :: "'a::len word \<Rightarrow> 'a word \<Rightarrow> 'a word" where
  "saturating_add a b = (if unat a + unat b < 2 ^ LENGTH('a) then a + b else - 1)"

lemma unat_saturating_add:
  "unat (saturating_add a (b :: 'a::len word)) = min (unat a + unat b) (2 ^ LENGTH('a) - 1)"
proof (cases "unat a + unat b < 2 ^ LENGTH('a)")
  case True
  then show ?thesis by (simp add: saturating_add_def unat_word_ariths)
next
  case False
  then show ?thesis by (simp add: saturating_add_def unsigned_minus_1_eq_mask mask_eq_exp_minus_1)
qed

lemma saturating_add_ge: "a \<le> saturating_add a (b :: 'a::len word)"
proof -
  have "unat a < 2 ^ LENGTH('a)" by (rule unsigned_less)
  then have "unat a \<le> min (unat a + unat b) (2 ^ LENGTH('a) - 1)" by linarith
  then show ?thesis by (simp only: word_le_nat_alt unat_saturating_add)
qed

text \<open>A sum that does not wrap is no smaller than its first part: how the operation is evaluated.\<close>

lemma saturating_add_code [code]: "saturating_add a b = (if a + b < a then - 1 else a + (b :: 'a::len word))"
proof -
  have "a \<le> a + b \<longleftrightarrow> unat a + unat b < 2 ^ LENGTH('a)" by (rule no_olen_add_nat)
  then show ?thesis by (auto simp: saturating_add_def not_le)
qed

text \<open>Rust's \<open>saturating_sub\<close> on unsigned words.\<close>

definition saturating_sub :: "'a::len word \<Rightarrow> 'a word \<Rightarrow> 'a word" where
  "saturating_sub a b = (if b \<le> a then a - b else 0)"

lemma unat_saturating_sub: "unat (saturating_sub a (b :: 'a::len word)) = unat a - unat b"
  by (auto simp: saturating_sub_def unat_sub word_le_nat_alt)

section \<open>Numbers as text\<close>

text \<open>An unsigned number as \<open>format!\<close> writes it.\<close>

fun decimal :: "nat \<Rightarrow> string" where
  "decimal n = (if n < 10 then [char_of (48 + n)] else decimal (n div 10) @ [char_of (48 + n mod 10)])"

declare decimal.simps [simp del]

text \<open>A signed integer in decimal.\<close>

definition decimal_i32 :: "i32 \<Rightarrow> string" where
  "decimal_i32 w = (if w <s 0 then ''-'' @ decimal (nat (- sint w)) else decimal (unat w))"

text \<open>\<open>[T]::join\<close> on strings.\<close>

fun join :: "string \<Rightarrow> string list \<Rightarrow> string" where
  "join sep [] = []"
| "join sep [x] = x"
| "join sep (x # y # ys) = x @ sep @ join sep (y # ys)"

section \<open>First results\<close>

text \<open>
  The first element a function is defined on, as \<open>Iterator::find_map\<close>; also a loop whose
  body may return early, when \<open>Some\<close> is the early return.
\<close>

fun find_map :: "('a \<Rightarrow> 'b option) \<Rightarrow> 'a list \<Rightarrow> 'b option" where
  "find_map f [] = None"
| "find_map f (x # xs) = (case f x of Some y \<Rightarrow> Some y | None \<Rightarrow> find_map f xs)"

lemma find_map_None: "find_map f xs = None \<longleftrightarrow> (\<forall>x \<in> set xs. f x = None)"
  by (induction xs) (auto split: option.splits)

lemma find_map_Some: "find_map f xs = Some y \<Longrightarrow> \<exists>x \<in> set xs. f x = Some y"
  by (induction xs) (auto split: option.splits)

text \<open>A check followed by another, as the \<open>?\<close> operator chains them: the first error is the result.\<close>

definition or_else :: "'e option \<Rightarrow> 'e option \<Rightarrow> 'e option" where
  "or_else a b = (case a of Some e \<Rightarrow> Some e | None \<Rightarrow> b)"

lemma or_else_None [simp]: "or_else a b = None \<longleftrightarrow> a = None \<and> b = None"
  by (simp add: or_else_def split: option.split)

text \<open>
  A fallible step over a state and what follows it: the \<open>?\<close> operator in a function that
  changes its receiver. An error keeps the changes made before it.
\<close>

definition attempt :: "'s \<times> ('e + 'a) \<Rightarrow> ('s \<Rightarrow> 'a \<Rightarrow> 's \<times> ('e + 'b)) \<Rightarrow> 's \<times> ('e + 'b)" where
  "attempt r k = (case r of (s, Inl e) \<Rightarrow> (s, Inl e) | (s, Inr x) \<Rightarrow> k s x)"

lemma attempt_simps [simp]:
  "attempt (s, Inl e) k = (s, Inl e)"
  "attempt (s, Inr x) k = k s x"
  by (simp_all add: attempt_def)

lemma attempt_cases:
  assumes "attempt r k = (s', y)"
  obtains e where "r = (s', Inl e)" "y = Inl e" | s x where "r = (s, Inr x)" "k s x = (s', y)"
  using assms by (auto simp: attempt_def split: prod.splits sum.splits)

lemma attempt_Inr:
  "attempt r k = (s', Inr y) \<longleftrightarrow> (\<exists>s x. r = (s, Inr x) \<and> k s x = (s', Inr y))"
  by (auto simp: attempt_def split: prod.splits sum.splits)

lemma attempt_cong [fundef_cong]:
  "r = r' \<Longrightarrow> (\<And>s x. r' = (s, Inr x) \<Longrightarrow> k s x = k' s x) \<Longrightarrow> attempt r k = attempt r' k'"
  by (auto simp: attempt_def split: prod.splits sum.splits)

section \<open>State machines and their invariants\<close>

text \<open>
  A component with state is a start predicate and a step relation. Every state machine of
  the development gets its reachable states and its invariant rule from this interface.
\<close>

locale machine =
  fixes start :: "'s \<Rightarrow> bool"
    and step :: "'s \<Rightarrow> 's \<Rightarrow> bool"
    and inv :: "'s \<Rightarrow> bool"
  assumes start_inv: "start s \<Longrightarrow> inv s"
    and step_inv: "inv s \<Longrightarrow> step s t \<Longrightarrow> inv t"
begin

lemma steps_inv: "step\<^sup>*\<^sup>* s t \<Longrightarrow> inv s \<Longrightarrow> inv t"
  by (induction rule: rtranclp_induct) (auto intro: step_inv)

lemma reachable_inv: "start s \<Longrightarrow> step\<^sup>*\<^sup>* s t \<Longrightarrow> inv t"
  by (rule steps_inv [OF _ start_inv])

end

text \<open>
  A component whose steps are calls of operations. It is a machine, and a sequence of
  calls is a run of it.
\<close>

locale op_machine =
  fixes init :: "'s \<Rightarrow> bool"
    and act :: "'s \<Rightarrow> 'op \<Rightarrow> 's"
    and inv :: "'s \<Rightarrow> bool"
  assumes init_inv: "init s \<Longrightarrow> inv s"
    and act_inv: "inv s \<Longrightarrow> inv (act s x)"

sublocale op_machine \<subseteq> machine init "\<lambda>s t. \<exists>x. t = act s x" inv
  by unfold_locales (auto simp: init_inv act_inv)

context op_machine
begin

lemma foldl_steps: "(\<lambda>s t. \<exists>x. t = act s x)\<^sup>*\<^sup>* s (foldl act s xs)"
proof (induction xs rule: rev_induct)
  case (snoc x xs)
  show ?case by (rule rtranclp.rtrancl_into_rtrancl [OF snoc]) auto
qed simp

lemma run_inv: "init s \<Longrightarrow> inv (foldl act s xs)"
  by (rule reachable_inv [OF _ foldl_steps])

end

section \<open>Refinement\<close>

text \<open>
  A component implements an abstract one when, on the states of its invariant, abstraction
  commutes with every operation and the operation answers the same. Runs of the component
  are then runs of the specification.
\<close>

locale refinement = op_machine init act inv
  for init :: "'s \<Rightarrow> bool" and act :: "'s \<Rightarrow> 'op \<Rightarrow> 's" and inv :: "'s \<Rightarrow> bool" +
  fixes answer :: "'s \<Rightarrow> 'op \<Rightarrow> 'r"
    and abs :: "'s \<Rightarrow> 'a"
    and aact :: "'a \<Rightarrow> 'op \<Rightarrow> 'a"
    and aanswer :: "'a \<Rightarrow> 'op \<Rightarrow> 'r"
  assumes abs_act: "inv s \<Longrightarrow> abs (act s x) = aact (abs s) x"
    and abs_answer: "inv s \<Longrightarrow> answer s x = aanswer (abs s) x"
begin

lemma foldl_inv: "inv s \<Longrightarrow> inv (foldl act s xs)"
  by (rule steps_inv [OF foldl_steps])

lemma abs_run: "inv s \<Longrightarrow> abs (foldl act s xs) = foldl aact (abs s) xs"
proof (induction xs rule: rev_induct)
  case (snoc x xs)
  then show ?case by (simp add: abs_act foldl_inv)
qed simp

lemma run_refines:
  assumes "init s"
  shows "abs (foldl act s xs) = foldl aact (abs s) xs"
    and "answer (foldl act s xs) x = aanswer (foldl aact (abs s) xs) x"
  using assms init_inv abs_run [of s xs] abs_answer [of "foldl act s xs" x] foldl_inv [of s xs] by auto

end

section \<open>Codecs\<close>

text \<open>
  An encoding with a partial decoder that undoes it on the values in its domain.
  Encodings that satisfy this are injective there, so two different values never look
  alike on the wire.
\<close>

locale codec =
  fixes enc :: "'a \<Rightarrow> 'b"
    and dec :: "'b \<Rightarrow> 'a option"
    and dom :: "'a \<Rightarrow> bool"
  assumes dec_enc: "dom x \<Longrightarrow> dec (enc x) = Some x"
begin

lemma enc_inj: "dom x \<Longrightarrow> dom y \<Longrightarrow> enc x = enc y \<Longrightarrow> x = y"
  by (metis dec_enc option.inject)

lemma enc_inj_on: "inj_on enc {x. dom x}"
  by (auto intro: inj_onI enc_inj)

end

section \<open>Lists\<close>

lemma takeWhile_dropWhile_hd:
  "dropWhile P xs \<noteq> [] \<Longrightarrow> \<not> P (hd (dropWhile P xs))"
  by (rule hd_dropWhile)

lemma find_Some_in:
  "List.find P xs = Some x \<Longrightarrow> x \<in> set xs \<and> P x"
  by (induction xs) (auto split: if_splits)

end
