(* ===== verification/Flow.thy ===== *)
theory Flow
  imports Prelude
begin

text \<open>
  The release decision (\<open>havuz-proto/src/flow.rs\<close>) and the vocabulary it shares with the
  registry (\<open>PoolMode\<close> in \<open>havuz-registry/src/lib.rs\<close>, \<open>PinReason\<close> in
  \<open>havuz-registry/src/session.rs\<close>). A session folds what the wire shows into one question:
  may the backend go back on the shelf? The central result says what the fold computes in
  terms of the whole history of events, independently of the mutable fields.
\<close>

section \<open>Pool modes and pin reasons\<close>

datatype PoolMode = Session | Transaction | Statement

fun multiplexes :: "PoolMode \<Rightarrow> bool" where
  "multiplexes Transaction = True"
| "multiplexes Statement = True"
| "multiplexes Session = False"

fun mode_as_str :: "PoolMode \<Rightarrow> string" where
  "mode_as_str Session = ''session''"
| "mode_as_str Transaction = ''transaction''"
| "mode_as_str Statement = ''statement''"

datatype PinReason =
  SessionParameter | Listen | TempTable | AdvisoryLock | ServerSidePrepare
  | HoldableCursor | BulkTransfer | Replication | ProcedureState | Unclassified

fun pin_as_str :: "PinReason \<Rightarrow> string" where
  "pin_as_str SessionParameter = ''session_parameter''"
| "pin_as_str Listen = ''listen''"
| "pin_as_str TempTable = ''temp_table''"
| "pin_as_str AdvisoryLock = ''advisory_lock''"
| "pin_as_str ServerSidePrepare = ''server_side_prepare''"
| "pin_as_str HoldableCursor = ''holdable_cursor''"
| "pin_as_str BulkTransfer = ''bulk_transfer''"
| "pin_as_str Replication = ''replication''"
| "pin_as_str ProcedureState = ''procedure_state''"
| "pin_as_str Unclassified = ''unclassified''"

fun is_actionable :: "PinReason \<Rightarrow> bool" where
  "is_actionable Replication = False"
| "is_actionable Unclassified = False"
| "is_actionable _ = True"

definition ALL_reasons :: "PinReason list" where
  "ALL_reasons =
     [SessionParameter, Listen, TempTable, AdvisoryLock, ServerSidePrepare,
      HoldableCursor, BulkTransfer, Replication, ProcedureState, Unclassified]"

text \<open>The derived \<open>Ord\<close> of the Rust enum compares variants in the order of declaration.\<close>

fun reason_rank :: "PinReason \<Rightarrow> nat" where
  "reason_rank SessionParameter = 0"
| "reason_rank Listen = 1"
| "reason_rank TempTable = 2"
| "reason_rank AdvisoryLock = 3"
| "reason_rank ServerSidePrepare = 4"
| "reason_rank HoldableCursor = 5"
| "reason_rank BulkTransfer = 6"
| "reason_rank Replication = 7"
| "reason_rank ProcedureState = 8"
| "reason_rank Unclassified = 9"

lemma reason_rank_inj: "reason_rank a = reason_rank b \<Longrightarrow> a = b"
  by (cases a; cases b) simp_all

instantiation PinReason :: linorder
begin

definition less_eq_PinReason :: "PinReason \<Rightarrow> PinReason \<Rightarrow> bool" where
  "less_eq_PinReason a b \<longleftrightarrow> reason_rank a \<le> reason_rank b"

definition less_PinReason :: "PinReason \<Rightarrow> PinReason \<Rightarrow> bool" where
  "less_PinReason a b \<longleftrightarrow> reason_rank a < reason_rank b"

instance
  by standard (auto simp: less_eq_PinReason_def less_PinReason_def intro: reason_rank_inj)

end

lemma set_ALL_reasons: "set ALL_reasons = UNIV"
proof -
  have "r \<in> set ALL_reasons" for r by (cases r) (simp_all add: ALL_reasons_def)
  then show ?thesis by blast
qed

lemma distinct_ALL_reasons: "distinct ALL_reasons"
  by (simp add: ALL_reasons_def)

lemma sorted_ALL_reasons: "sorted ALL_reasons"
  by (simp add: ALL_reasons_def less_eq_PinReason_def)

lemma pin_as_str_inj: "pin_as_str a = pin_as_str b \<Longrightarrow> a = b"
  by (cases a; cases b) simp_all

section \<open>Folding wire observations into a release decision\<close>

datatype FlowEvent = Idle | InTransaction | MustPin PinReason | Streaming PinReason | Broken

record SessionState =
  ss_mode :: PoolMode
  ss_in_transaction :: bool
  ss_pin :: "PinReason option"
  ss_broken :: bool
  ss_exchanges :: u64

definition new_session :: "PoolMode \<Rightarrow> SessionState" where
  "new_session m =
     \<lparr>ss_mode = m, ss_in_transaction = False, ss_pin = None, ss_broken = False, ss_exchanges = 0\<rparr>"

text \<open>\<open>Option::get_or_insert\<close>: an existing value wins.\<close>

fun get_or_insert :: "'a option \<Rightarrow> 'a \<Rightarrow> 'a option" where
  "get_or_insert (Some a) b = Some a"
| "get_or_insert None b = Some b"

definition bump_exchanges :: "SessionState \<Rightarrow> SessionState" where
  "bump_exchanges s = s\<lparr>ss_exchanges := saturating_add (ss_exchanges s) 1\<rparr>"

fun observe :: "SessionState \<Rightarrow> FlowEvent \<Rightarrow> SessionState" where
  "observe s Idle = (bump_exchanges s)\<lparr>ss_in_transaction := False\<rparr>"
| "observe s InTransaction = (bump_exchanges s)\<lparr>ss_in_transaction := True\<rparr>"
| "observe s (MustPin r) = (bump_exchanges s)\<lparr>ss_pin := get_or_insert (ss_pin s) r\<rparr>"
| "observe s (Streaming r) = (bump_exchanges s)\<lparr>ss_pin := get_or_insert (ss_pin s) r\<rparr>"
| "observe s Broken = (bump_exchanges s)\<lparr>ss_broken := True\<rparr>"

definition is_releasable :: "SessionState \<Rightarrow> bool" where
  "is_releasable s =
     (if ss_broken s \<or> ss_pin s \<noteq> None then False
      else case ss_mode s of
        Session \<Rightarrow> False
      | Transaction \<Rightarrow> \<not> ss_in_transaction s
      | Statement \<Rightarrow> \<not> ss_in_transaction s)"

definition released :: "SessionState \<Rightarrow> SessionState" where
  "released s = s\<lparr>ss_in_transaction := False, ss_exchanges := 0\<rparr>"

definition reset_session :: "SessionState \<Rightarrow> SessionState" where
  "reset_session s = new_session (ss_mode s)"

lemmas session_defs [op_defs] =
  new_session_def bump_exchanges_def is_releasable_def released_def reset_session_def

subsection \<open>What a history says\<close>

text \<open>
  A session alternates observations with releases. The history is what happened, in
  order; the three readings below are defined from the history alone.
\<close>

datatype FlowOp = Observe FlowEvent | Release

fun flow_op :: "SessionState \<Rightarrow> FlowOp \<Rightarrow> SessionState" where
  "flow_op s (Observe e) = observe s e"
| "flow_op s Release = released s"

definition flow_run :: "PoolMode \<Rightarrow> FlowOp list \<Rightarrow> SessionState" where
  "flow_run m ops = foldl flow_op (new_session m) ops"

fun event_pin :: "FlowOp \<Rightarrow> PinReason option" where
  "event_pin (Observe (MustPin r)) = Some r"
| "event_pin (Observe (Streaming r)) = Some r"
| "event_pin _ = None"

text \<open>The first reason the session was ever given for keeping its backend.\<close>

fun first_pin :: "FlowOp list \<Rightarrow> PinReason option" where
  "first_pin [] = None"
| "first_pin (x # xs) = (case event_pin x of Some r \<Rightarrow> Some r | None \<Rightarrow> first_pin xs)"

text \<open>Whether a transaction is open at the end: only the last relevant entry counts.\<close>

fun txn_open :: "FlowOp list \<Rightarrow> bool" where
  "txn_open [] = False"
| "txn_open (x # xs) =
     (case x of
        Observe Idle \<Rightarrow> False
      | Release \<Rightarrow> False
      | Observe InTransaction \<Rightarrow> True
      | _ \<Rightarrow> txn_open xs)"

lemma flow_run_snoc: "flow_run m (ops @ [x]) = flow_op (flow_run m ops) x"
  by (simp add: flow_run_def)

lemma first_pin_snoc:
  "first_pin (ops @ [x]) = (case first_pin ops of Some r \<Rightarrow> Some r | None \<Rightarrow> event_pin x)"
  by (induction ops) (auto split: option.splits)

lemma flow_run_mode: "ss_mode (flow_run m ops) = m"
proof (induction ops rule: rev_induct)
  case Nil
  then show ?case by (simp add: flow_run_def new_session_def)
next
  case (snoc x ops)
  then show ?case
    by (cases x rule: event_pin.cases) (auto simp: flow_run_snoc session_defs)
qed

lemma flow_run_pin: "ss_pin (flow_run m ops) = first_pin ops"
proof (induction ops rule: rev_induct)
  case Nil
  then show ?case by (simp add: flow_run_def new_session_def)
next
  case (snoc x ops)
  then show ?case
    by (cases x rule: event_pin.cases; cases "first_pin ops")
      (auto simp: flow_run_snoc first_pin_snoc session_defs)
qed

lemma flow_run_broken: "ss_broken (flow_run m ops) \<longleftrightarrow> Observe Broken \<in> set ops"
proof (induction ops rule: rev_induct)
  case Nil
  then show ?case by (simp add: flow_run_def new_session_def)
next
  case (snoc x ops)
  then show ?case
    by (cases x rule: event_pin.cases) (auto simp: flow_run_snoc session_defs)
qed

lemma flow_run_txn: "ss_in_transaction (flow_run m ops) \<longleftrightarrow> txn_open (rev ops)"
proof (induction ops rule: rev_induct)
  case Nil
  then show ?case by (simp add: flow_run_def new_session_def)
next
  case (snoc x ops)
  then show ?case
    by (cases x rule: event_pin.cases) (auto simp: flow_run_snoc session_defs)
qed

lemma first_pin_None_iff: "first_pin ops = None \<longleftrightarrow> (\<forall>x \<in> set ops. event_pin x = None)"
  by (induction ops) (auto split: option.splits)

lemma observe_keeps_pin: "ss_pin s \<noteq> None \<Longrightarrow> ss_pin (observe s e) = ss_pin s"
  by (cases e) (auto simp: bump_exchanges_def)

lemma released_simps [simp]:
  "ss_pin (released s) = ss_pin s" "ss_broken (released s) = ss_broken s"
  "ss_mode (released s) = ss_mode s" "ss_in_transaction (released s) = False"
  by (simp_all add: released_def)

lemma is_releasableD:
  "is_releasable s \<Longrightarrow> \<not> ss_in_transaction s \<and> ss_pin s = None \<and> \<not> ss_broken s \<and> multiplexes (ss_mode s)"
  by (cases "ss_mode s") (auto simp: is_releasable_def split: if_splits)

subsection \<open>Properties\<close>

text \<open>
  The backend may be handed on exactly when the pool multiplexes, nothing in the whole
  history of the session pinned it or broke it, and no transaction is open: the running
  fields of \<open>SessionState\<close> decide what the history of events and releases says.
\<close>

theorem releasable_iff_history:
  "is_releasable (flow_run m ops) \<longleftrightarrow>
     multiplexes m \<and> first_pin ops = None \<and> Observe Broken \<notin> set ops \<and> \<not> txn_open (rev ops)"
  by (cases m) (auto simp: is_releasable_def flow_run_mode flow_run_pin flow_run_broken flow_run_txn)

end
