(* ===== verification/Rust_Str.thy ===== *)
theory Rust_Str
  imports Prelude
begin

text \<open>
  The parts of Rust's standard library for strings and byte slices that havuz uses. A
  \<open>str\<close> or \<open>[u8]\<close> is the list of its bytes (\<open>string\<close>, one \<open>char\<close> per byte), so that
  byte offsets, \<open>len\<close> and slicing mean what they mean in the source. White space is
  Unicode's \<open>White_Space\<close>, recognised in its UTF-8 encoding, as \<open>char::is_whitespace\<close>
  does; UTF-8 validation and its lossy repair follow \<open>core::str\<close>.
\<close>

section \<open>Bytes\<close>

abbreviation byte :: "char \<Rightarrow> nat" where
  "byte c \<equiv> of_char c"

definition is_ascii_upper :: "char \<Rightarrow> bool" where
  "is_ascii_upper c \<longleftrightarrow> 65 \<le> byte c \<and> byte c \<le> 90"

definition is_ascii_lower :: "char \<Rightarrow> bool" where
  "is_ascii_lower c \<longleftrightarrow> 97 \<le> byte c \<and> byte c \<le> 122"

definition is_ascii_digit :: "char \<Rightarrow> bool" where
  "is_ascii_digit c \<longleftrightarrow> 48 \<le> byte c \<and> byte c \<le> 57"

definition is_ascii_alphabetic :: "char \<Rightarrow> bool" where
  "is_ascii_alphabetic c \<longleftrightarrow> is_ascii_upper c \<or> is_ascii_lower c"

definition is_ascii_alphanumeric :: "char \<Rightarrow> bool" where
  "is_ascii_alphanumeric c \<longleftrightarrow> is_ascii_alphabetic c \<or> is_ascii_digit c"

definition upper_char :: "char \<Rightarrow> char" where
  "upper_char c = (if is_ascii_lower c then char_of (byte c - 32) else c)"

definition lower_char :: "char \<Rightarrow> char" where
  "lower_char c = (if is_ascii_upper c then char_of (byte c + 32) else c)"

definition to_ascii_uppercase :: "string \<Rightarrow> string" where
  "to_ascii_uppercase s = map upper_char s"

definition to_ascii_lowercase :: "string \<Rightarrow> string" where
  "to_ascii_lowercase s = map lower_char s"

definition eq_ignore_ascii_case :: "string \<Rightarrow> string \<Rightarrow> bool" where
  "eq_ignore_ascii_case a b \<longleftrightarrow> to_ascii_lowercase a = to_ascii_lowercase b"

lemmas ascii_defs =
  is_ascii_upper_def is_ascii_lower_def is_ascii_digit_def is_ascii_alphabetic_def
  is_ascii_alphanumeric_def

lemma byte_upper_char: "byte (upper_char c) = (if is_ascii_lower c then byte c - 32 else byte c)"
  by (auto simp: upper_char_def is_ascii_lower_def)

lemma byte_lower_char: "byte (lower_char c) = (if is_ascii_upper c then byte c + 32 else byte c)"
  by (simp add: lower_char_def is_ascii_upper_def)

lemma char_eq_byte: "c = d \<longleftrightarrow> byte c = byte d"
  by simp

lemma lower_upper_char: "lower_char (upper_char c) = lower_char c"
  by (auto simp: char_eq_byte byte_lower_char byte_upper_char ascii_defs del: of_char_eq_iff)

lemma upper_lower_char: "upper_char (lower_char c) = upper_char c"
  by (auto simp: char_eq_byte byte_lower_char byte_upper_char ascii_defs del: of_char_eq_iff)

lemma upper_upper_char: "upper_char (upper_char c) = upper_char c"
  by (auto simp: char_eq_byte byte_upper_char ascii_defs del: of_char_eq_iff)

lemma lower_lower_char: "lower_char (lower_char c) = lower_char c"
  by (auto simp: char_eq_byte byte_lower_char ascii_defs del: of_char_eq_iff)

lemma lower_of_upper: "to_ascii_lowercase (to_ascii_uppercase s) = to_ascii_lowercase s"
  by (simp add: to_ascii_lowercase_def to_ascii_uppercase_def lower_upper_char)

lemma upper_of_lower: "to_ascii_uppercase (to_ascii_lowercase s) = to_ascii_uppercase s"
  by (simp add: to_ascii_lowercase_def to_ascii_uppercase_def upper_lower_char)

lemma upper_upper: "to_ascii_uppercase (to_ascii_uppercase s) = to_ascii_uppercase s"
  by (simp add: to_ascii_uppercase_def upper_upper_char)

lemma lower_lower: "to_ascii_lowercase (to_ascii_lowercase s) = to_ascii_lowercase s"
  by (simp add: to_ascii_lowercase_def lower_lower_char)

lemma length_upper [simp]: "length (to_ascii_uppercase s) = length s"
  by (simp add: to_ascii_uppercase_def)

lemma length_lower [simp]: "length (to_ascii_lowercase s) = length s"
  by (simp add: to_ascii_lowercase_def)

lemma upper_eq_Nil [simp]: "to_ascii_uppercase s = [] \<longleftrightarrow> s = []"
  by (simp add: to_ascii_uppercase_def)

lemma eq_ignore_ascii_case_upper:
  "eq_ignore_ascii_case a b \<longleftrightarrow> to_ascii_uppercase a = to_ascii_uppercase b"
  by (metis eq_ignore_ascii_case_def lower_of_upper upper_of_lower)

section \<open>White space\<close>

text \<open>
  The number of bytes of the white-space character at the head of a string, 0 if its first
  character is not white space: U+0009 to U+000D and U+0020 take one byte; U+0085 and
  U+00A0 two; U+1680, U+2000 to U+200A, U+2028, U+2029, U+202F, U+205F and U+3000 three.
\<close>

definition ws1 :: "nat \<Rightarrow> bool" where
  "ws1 a \<longleftrightarrow> 9 \<le> a \<and> a \<le> 13 \<or> a = 32"

definition ws2 :: "nat \<Rightarrow> nat \<Rightarrow> bool" where
  "ws2 a b \<longleftrightarrow> a = 194 \<and> (b = 133 \<or> b = 160)"

definition ws3 :: "nat \<Rightarrow> nat \<Rightarrow> nat \<Rightarrow> bool" where
  "ws3 a b c \<longleftrightarrow>
     a = 225 \<and> b = 154 \<and> c = 128
     \<or> a = 226 \<and> b = 128 \<and> (128 \<le> c \<and> c \<le> 138 \<or> c = 168 \<or> c = 169 \<or> c = 175)
     \<or> a = 226 \<and> b = 129 \<and> c = 159
     \<or> a = 227 \<and> b = 128 \<and> c = 128"

fun ws_len :: "string \<Rightarrow> nat" where
  "ws_len [] = 0"
| "ws_len (a # s) =
     (if ws1 (byte a) then 1
      else case s of
        [] \<Rightarrow> 0
      | b # t \<Rightarrow>
          (if ws2 (byte a) (byte b) then 2
           else case t of
             [] \<Rightarrow> 0
           | c # _ \<Rightarrow> (if ws3 (byte a) (byte b) (byte c) then 3 else 0)))"

text \<open>The same for the character at the end, read from the reversed bytes.\<close>

fun ws_len_rev :: "string \<Rightarrow> nat" where
  "ws_len_rev [] = 0"
| "ws_len_rev (a # s) =
     (if ws1 (byte a) then 1
      else case s of
        [] \<Rightarrow> 0
      | b # t \<Rightarrow>
          (if ws2 (byte b) (byte a) then 2
           else case t of
             [] \<Rightarrow> 0
           | c # _ \<Rightarrow> (if ws3 (byte c) (byte b) (byte a) then 3 else 0)))"

lemma ws_len_le: "ws_len s \<le> length s"
  by (cases s) (auto split: list.splits)

lemma ws_len_rev_le: "ws_len_rev s \<le> length s"
  by (cases s) (auto split: list.splits)

function trim_start :: "string \<Rightarrow> string" where
  "trim_start s = (if ws_len s = 0 then s else trim_start (drop (ws_len s) s))"
  by pat_completeness auto
termination
proof (relation "measure length")
  fix s assume "ws_len s \<noteq> 0"
  then show "(drop (ws_len s) s, s) \<in> measure length"
    using ws_len_le [of s] by (cases s) auto
qed simp

function trim_end_rev :: "string \<Rightarrow> string" where
  "trim_end_rev s = (if ws_len_rev s = 0 then s else trim_end_rev (drop (ws_len_rev s) s))"
  by pat_completeness auto
termination
proof (relation "measure length")
  fix s assume "ws_len_rev s \<noteq> 0"
  then show "(drop (ws_len_rev s) s, s) \<in> measure length"
    using ws_len_rev_le [of s] by (cases s) auto
qed simp

declare trim_start.simps [simp del] trim_end_rev.simps [simp del]

definition trim_end :: "string \<Rightarrow> string" where
  "trim_end s = rev (trim_end_rev (rev s))"

definition trim :: "string \<Rightarrow> string" where
  "trim s = trim_end (trim_start s)"

lemma trim_start_Nil [simp]: "trim_start [] = []"
  by (simp add: trim_start.simps)

lemma ws_len_trim_start [simp]: "ws_len (trim_start s) = 0"
proof (induction s rule: trim_start.induct)
  case (1 s)
  then show ?case by (cases "ws_len s = 0") (simp_all add: trim_start.simps [of s])
qed

lemma trim_start_id: "ws_len s = 0 \<Longrightarrow> trim_start s = s"
  by (simp add: trim_start.simps)

lemma trim_start_idem [simp]: "trim_start (trim_start s) = trim_start s"
  by (simp add: trim_start_id)

lemma length_trim_start: "length (trim_start s) \<le> length s"
proof (induction s rule: trim_start.induct)
  case (1 s)
  then show ?case by (cases "ws_len s = 0") (auto simp: trim_start.simps [of s])
qed

lemma trim_start_suffix: "\<exists>p. s = p @ trim_start s"
proof (induction s rule: trim_start.induct)
  case (1 s)
  show ?case
  proof (cases "ws_len s = 0")
    case False
    with "1.IH" obtain p where "drop (ws_len s) s = p @ trim_start (drop (ws_len s) s)" by blast
    then have "s = (take (ws_len s) s @ p) @ trim_start (drop (ws_len s) s)"
      by (metis append_assoc append_take_drop_id)
    with False show ?thesis by (metis trim_start.simps)
  qed (simp add: trim_start_id)
qed

text \<open>
  A string that does not begin inside a character. Appending one does not change what is
  white space before it, which is how trimming at one end leaves the other end alone.
\<close>

definition non_cont :: "string \<Rightarrow> bool" where
  "non_cont t \<longleftrightarrow> (case t of [] \<Rightarrow> True | c # _ \<Rightarrow> byte c < 128 \<or> byte c \<ge> 192)"

lemma ws2_cont: "ws2 a b \<Longrightarrow> 192 \<le> a \<and> 128 \<le> b \<and> b < 192"
  by (auto simp: ws2_def)

lemma ws3_cont: "ws3 a b c \<Longrightarrow> 192 \<le> a \<and> 128 \<le> b \<and> b < 192 \<and> 128 \<le> c \<and> c < 192"
  by (auto simp: ws3_def)

lemma ws1_small: "ws1 a \<Longrightarrow> a < 128"
  by (auto simp: ws1_def)

lemma ws_len_append:
  assumes "x \<noteq> []" "non_cont t"
  shows "ws_len (x @ t) = ws_len x"
proof -
  consider a where "x = [a]" | a b where "x = [a, b]" | a b c y where "x = a # b # c # y"
    using assms(1) by (metis neq_Nil_conv)
  then show ?thesis
  proof cases
    case 1
    with assms(2) show ?thesis
      by (cases t) (auto simp: non_cont_def dest: ws2_cont ws3_cont split: list.split)
  next
    case 2
    with assms(2) show ?thesis by (cases t) (auto simp: non_cont_def dest: ws3_cont)
  qed simp
qed

lemma ws_len_rev_lead:
  assumes "ws_len_rev s \<noteq> 0"
  shows "non_cont (rev (take (ws_len_rev s) s) @ t) \<and> take (ws_len_rev s) s \<noteq> []"
proof -
  consider a where "s = [a]" | a b where "s = [a, b]" | a b c y where "s = a # b # c # y"
    using assms by (metis neq_Nil_conv ws_len_rev.simps(1))
  then show ?thesis
    using assms by cases (auto simp: non_cont_def numeral_2_eq_2 numeral_3_eq_3 dest: ws1_small ws2_cont ws3_cont split: if_splits)
qed

lemma trim_end_rev_split: "\<exists>t. rev s = rev (trim_end_rev s) @ t \<and> non_cont t"
proof (induction s rule: trim_end_rev.induct)
  case (1 s)
  show ?case
  proof (cases "ws_len_rev s = 0")
    case True
    then show ?thesis by (auto simp: trim_end_rev.simps [of s] non_cont_def)
  next
    case False
    with 1 obtain t where t: "rev (drop (ws_len_rev s) s) = rev (trim_end_rev (drop (ws_len_rev s) s)) @ t" "non_cont t"
      by blast
    let ?u = "rev (take (ws_len_rev s) s)"
    have "rev s = rev (drop (ws_len_rev s) s) @ ?u" by (metis append_take_drop_id rev_append)
    moreover have "non_cont (t @ ?u)"
      using t(2) ws_len_rev_lead [OF False, of "[]"] by (cases t) (auto simp: non_cont_def)
    ultimately show ?thesis using False t(1) by (auto simp: trim_end_rev.simps [of s])
  qed
qed

lemma trim_end_split: "\<exists>t. s = trim_end s @ t \<and> non_cont t"
  using trim_end_rev_split [of "rev s"] by (simp add: trim_end_def)

lemma trim_start_append:
  "trim_start x \<noteq> [] \<Longrightarrow> non_cont t \<Longrightarrow> trim_start (x @ t) = trim_start x @ t"
proof (induction x rule: trim_start.induct)
  case (1 x)
  show ?case
  proof (cases "ws_len x = 0")
    case True
    with 1 show ?thesis by (cases "x = []") (auto simp: trim_start.simps [of x] ws_len_append trim_start_id)
  next
    case False
    then have "x \<noteq> []" by auto
    then have "ws_len (x @ t) = ws_len x" using 1 by (simp add: ws_len_append)
    moreover have "drop (ws_len x) (x @ t) = drop (ws_len x) x @ t" using ws_len_le [of x] by simp
    ultimately show ?thesis using 1 False
      by (simp add: trim_start.simps [of x] trim_start.simps [of "x @ t"])
  qed
qed

text \<open>
  \<open>split_whitespace\<close>: the maximal runs without white space, the empty ones left out.
  The accumulator holds the current word, reversed.
\<close>

fun push_word :: "string \<Rightarrow> string list \<Rightarrow> string list" where
  "push_word [] ws = ws"
| "push_word w ws = rev w # ws"

function split_ws_aux :: "string \<Rightarrow> string \<Rightarrow> string list" where
  "split_ws_aux acc [] = push_word acc []"
| "split_ws_aux acc (c # s) =
     (if ws_len (c # s) = 0 then split_ws_aux (c # acc) s
      else push_word acc (split_ws_aux [] (drop (ws_len (c # s)) (c # s))))"
  by pat_completeness auto
termination by (relation "measure (\<lambda>(acc, s). length s)") auto

declare split_ws_aux.simps(2) [simp del]

definition split_whitespace :: "string \<Rightarrow> string list" where
  "split_whitespace s = split_ws_aux [] s"

lemma push_word_nonempty: "[] \<notin> set ws \<Longrightarrow> [] \<notin> set (push_word w ws)"
  by (cases w) auto

lemma split_whitespace_nonempty: "[] \<notin> set (split_whitespace s)"
proof -
  have "[] \<notin> set (split_ws_aux acc s)" for acc
  proof (induction acc s rule: split_ws_aux.induct)
    case (1 acc)
    then show ?case by (simp add: push_word_nonempty)
  next
    case (2 acc c s)
    then show ?case by (simp add: split_ws_aux.simps(2) push_word_nonempty)
  qed
  then show ?thesis by (simp add: split_whitespace_def)
qed

section \<open>Searching and splitting\<close>

fun strip_prefix :: "string \<Rightarrow> string \<Rightarrow> string option" where
  "strip_prefix [] s = Some s"
| "strip_prefix (p # ps) [] = None"
| "strip_prefix (p # ps) (c # s) = (if p = c then strip_prefix ps s else None)"

definition starts_with :: "string \<Rightarrow> string \<Rightarrow> bool" where
  "starts_with p s \<longleftrightarrow> strip_prefix p s \<noteq> None"

lemma strip_prefix_Some: "strip_prefix p s = Some t \<longleftrightarrow> s = p @ t"
  by (induction p s rule: strip_prefix.induct) auto

lemma starts_with_iff: "starts_with p s \<longleftrightarrow> (\<exists>t. s = p @ t)"
  by (simp add: starts_with_def strip_prefix_Some)

lemma length_strip_prefix: "strip_prefix p s = Some t \<Longrightarrow> length s = length p + length t"
  by (simp add: strip_prefix_Some)

text \<open>\<open>str::find\<close> of a substring, and \<open>contains\<close>.\<close>

fun find_sub :: "string \<Rightarrow> string \<Rightarrow> nat option" where
  "find_sub p [] = (if p = [] then Some 0 else None)"
| "find_sub p (c # s) =
     (if starts_with p (c # s) then Some 0 else map_option Suc (find_sub p s))"

definition contains :: "string \<Rightarrow> string \<Rightarrow> bool" where
  "contains s p \<longleftrightarrow> find_sub p s \<noteq> None"

lemma find_sub_Some: "find_sub p s = Some k \<Longrightarrow> k + length p \<le> length s \<and> starts_with p (drop k s)"
proof (induction p s arbitrary: k rule: find_sub.induct)
  case (1 p)
  then show ?case by (auto simp: starts_with_iff split: if_splits)
next
  case (2 p c s)
  show ?case
  proof (cases "starts_with p (c # s)")
    case True
    then obtain t where "c # s = p @ t" by (auto simp: starts_with_iff)
    then have "length p \<le> length (c # s)" by simp
    with True "2.prems" show ?thesis by simp
  next
    case False
    with "2.prems" obtain j where "find_sub p s = Some j" and "k = Suc j" by auto
    with "2.IH" [OF False] show ?thesis by simp
  qed
qed

lemma contains_iff: "contains s p \<longleftrightarrow> (\<exists>u v. s = u @ p @ v)"
proof
  assume "contains s p"
  then obtain k where k: "find_sub p s = Some k" by (auto simp: contains_def)
  from find_sub_Some [OF k] obtain v where "drop k s = p @ v" by (auto simp: starts_with_iff)
  then show "\<exists>u v. s = u @ p @ v" by (metis append_take_drop_id)
next
  assume "\<exists>u v. s = u @ p @ v"
  then obtain u v where "s = u @ p @ v" by blast
  moreover have "find_sub p (u @ p @ v) \<noteq> None"
  proof (induction u)
    case Nil
    then show ?case by (cases "p @ v") (auto simp: starts_with_iff, metis)
  qed (auto simp: starts_with_iff)
  ultimately show "contains s p" by (simp add: contains_def)
qed

text \<open>\<open>iter().position(|b| P b)\<close> and \<open>str::split_once\<close> at a byte.\<close>

fun position :: "('a \<Rightarrow> bool) \<Rightarrow> 'a list \<Rightarrow> nat option" where
  "position P [] = None"
| "position P (x # xs) = (if P x then Some 0 else map_option Suc (position P xs))"

lemma position_Some_iff:
  "position P xs = Some k \<longleftrightarrow> k < length xs \<and> P (xs ! k) \<and> (\<forall>j < k. \<not> P (xs ! j))"
proof (induction xs arbitrary: k)
  case (Cons x xs)
  then show ?case by (cases k) (auto simp: less_Suc_eq_0_disj split: if_splits)
qed simp

lemma position_None_iff: "position P xs = None \<longleftrightarrow> (\<forall>x \<in> set xs. \<not> P x)"
  by (induction xs) auto

lemma position_append_hit:
  "\<forall>x \<in> set xs. \<not> P x \<Longrightarrow> P y \<Longrightarrow> position P (xs @ y # ys) = Some (length xs)"
  by (induction xs) auto

text \<open>\<open>slice::split(|b| b = sep)\<close>: one part more than there are separators.\<close>

fun split_on :: "char \<Rightarrow> string \<Rightarrow> string list" where
  "split_on sep [] = [[]]"
| "split_on sep (c # s) =
     (if c = sep then [] # split_on sep s
      else case split_on sep s of [] \<Rightarrow> [[c]] | w # ws \<Rightarrow> (c # w) # ws)"

lemma split_on_nonempty [simp]: "split_on sep s \<noteq> []"
  by (cases s) (auto split: list.splits)

lemma split_on_append:
  "sep \<notin> set p \<Longrightarrow> split_on sep (p @ sep # s) = p # split_on sep s"
  by (induction p) auto

lemma split_on_no_sep: "sep \<notin> set p \<Longrightarrow> split_on sep p = [p]"
  by (induction p) auto

end
