(* ===== verification/Session_Rules.thy ===== *)
theory Session_Rules
  imports Flow Rust_Str
begin

text \<open>
  How a product's statements are judged by their leading words
  (\<open>havuz-registry/src/session.rs\<close>). The two loops of \<open>classify\<close> keep the longest rule that
  matches; the results say what they decide in terms of the rules alone: a statement is
  shareable exactly when a shareable rule matches and is longer than every matching pin.
\<close>

record PinRule =
  words :: string
  reason :: PinReason

record SessionRules =
  reset_query :: "string option"
  pins :: "PinRule list"
  shareable :: "string list"

definition OPAQUE :: SessionRules where
  "OPAQUE = \<lparr>reset_query = None, pins = [], shareable = []\<rparr>"

definition classifies :: "SessionRules \<Rightarrow> bool" where
  "classifies r \<longleftrightarrow> shareable r \<noteq> []"

section \<open>The head of a statement\<close>

definition is_syntax_char :: "char \<Rightarrow> bool" where
  "is_syntax_char c \<longleftrightarrow> c = CHR '';'' \<or> c = CHR ''('' \<or> c = CHR '')''"

text \<open>\<open>str::trim_matches\<close> on a character predicate.\<close>

definition trim_matches :: "(char \<Rightarrow> bool) \<Rightarrow> string \<Rightarrow> string" where
  "trim_matches P s = rev (dropWhile P (rev (dropWhile P s)))"

fun push_words :: "string \<Rightarrow> string list \<Rightarrow> string" where
  "push_words out [] = out"
| "push_words out (word # ws) =
     (let word = trim_matches is_syntax_char word in
      if word = [] then push_words out ws
      else push_words ((if out = [] then out else out @ '' '') @ to_ascii_uppercase word) ws)"

definition leading_words :: "string \<Rightarrow> string" where
  "leading_words sql =
     push_words [] (take 6 (split_whitespace (dropWhile (\<lambda>c. c = CHR ''('') (trim_start sql))))"

definition starts_with_words :: "string \<Rightarrow> string \<Rightarrow> bool" where
  "starts_with_words h ws =
     (case strip_prefix ws h of
        None \<Rightarrow> False
      | Some rest \<Rightarrow> rest = [] \<or> starts_with '' '' rest)"

section \<open>The verdict\<close>

type_synonym best_rule = "(nat \<times> PinReason option) option"

definition beats :: "nat \<Rightarrow> best_rule \<Rightarrow> bool" where
  "beats n best \<longleftrightarrow> (case best of None \<Rightarrow> True | Some (len, _) \<Rightarrow> n > len)"

fun best_pin :: "string \<Rightarrow> PinRule list \<Rightarrow> best_rule \<Rightarrow> best_rule" where
  "best_pin h [] best = best"
| "best_pin h (rule # rs) best =
     best_pin h rs
       (if starts_with_words h (words rule) \<and> beats (length (words rule)) best
        then Some (length (words rule), Some (reason rule)) else best)"

fun best_safe :: "string \<Rightarrow> string list \<Rightarrow> best_rule \<Rightarrow> best_rule" where
  "best_safe h [] best = best"
| "best_safe h (safe # rs) best =
     best_safe h rs
       (if starts_with_words h safe \<and> beats (length safe) best
        then Some (length safe, None) else best)"

definition classify_head :: "SessionRules \<Rightarrow> string \<Rightarrow> PinReason option" where
  "classify_head r h =
     (case best_safe h (shareable r) (best_pin h (pins r) None) of
        Some (_, verdict) \<Rightarrow> verdict
      | None \<Rightarrow> Some Unclassified)"

definition classify_sql :: "SessionRules \<Rightarrow> string \<Rightarrow> PinReason option" where
  "classify_sql r sql =
     (if \<not> classifies r then Some Unclassified else classify_head r (leading_words sql))"

section \<open>What the loops compute\<close>

text \<open>
  Both loops are one loop over candidate verdicts. Every rule that matches is a prefix of
  the same head, so two matching rules of the same length are the same words.
\<close>

fun best_of :: "(nat \<times> PinReason option) list \<Rightarrow> best_rule \<Rightarrow> best_rule" where
  "best_of [] best = best"
| "best_of ((n, v) # cs) best = best_of cs (if beats n best then Some (n, v) else best)"

definition pin_candidates :: "SessionRules \<Rightarrow> string \<Rightarrow> (nat \<times> PinReason option) list" where
  "pin_candidates r h =
     map (\<lambda>p. (length (words p), Some (reason p))) (filter (\<lambda>p. starts_with_words h (words p)) (pins r))"

definition safe_candidates :: "SessionRules \<Rightarrow> string \<Rightarrow> (nat \<times> PinReason option) list" where
  "safe_candidates r h = map (\<lambda>w. (length w, None)) (filter (starts_with_words h) (shareable r))"

lemma best_pin_best_of:
  "best_pin h rs b =
     best_of (map (\<lambda>p. (length (words p), Some (reason p))) (filter (\<lambda>p. starts_with_words h (words p)) rs)) b"
  by (induction rs arbitrary: b) auto

lemma best_safe_best_of:
  "best_safe h rs b = best_of (map (\<lambda>w. (length w, None)) (filter (starts_with_words h) rs)) b"
  by (induction rs arbitrary: b) auto

lemma best_of_append: "best_of (xs @ ys) b = best_of ys (best_of xs b)"
  by (induction xs b rule: best_of.induct) auto

lemma classify_head_best_of:
  "classify_head r h =
     (case best_of (pin_candidates r h @ safe_candidates r h) None of
        Some (_, v) \<Rightarrow> v | None \<Rightarrow> Some Unclassified)"
  by (simp add: classify_head_def best_of_append pin_candidates_def safe_candidates_def
      best_pin_best_of best_safe_best_of)

text \<open>The loop returns a longest candidate, and only a strictly longer one replaces another.\<close>

lemma best_of_spec:
  "best_of cs b = Some (m, v) \<Longrightarrow>
     (b = Some (m, v) \<or> ((m, v) \<in> set cs \<and> beats m b))
     \<and> (\<forall>(k, w) \<in> set cs. k \<le> m) \<and> (\<forall>k w. b = Some (k, w) \<longrightarrow> k \<le> m)"
proof (induction cs b rule: best_of.induct)
  case (2 n w cs best)
  then show ?case by (cases best) (fastforce simp: beats_def split: if_splits)+
qed simp

lemma best_of_None: "best_of cs b = None \<longleftrightarrow> cs = [] \<and> b = None"
proof -
  have "best_of cs (Some b) \<noteq> None" for cs b
    by (induction cs arbitrary: b) auto
  then show ?thesis by (cases cs; cases b) (auto simp: beats_def)
qed

lemma starts_with_words_prefix: "starts_with_words h w \<Longrightarrow> w = take (length w) h"
  by (auto simp: starts_with_words_def strip_prefix_Some split: option.splits)

lemma same_length_same_words:
  "starts_with_words h v \<Longrightarrow> starts_with_words h w \<Longrightarrow> length v = length w \<Longrightarrow> v = w"
  by (metis starts_with_words_prefix)

definition longest_pin :: "SessionRules \<Rightarrow> string \<Rightarrow> PinRule \<Rightarrow> bool" where
  "longest_pin r h p \<longleftrightarrow> p \<in> set (pins r) \<and> starts_with_words h (words p)
     \<and> (\<forall>q \<in> set (pins r). starts_with_words h (words q) \<longrightarrow> length (words q) \<le> length (words p))
     \<and> (\<forall>w \<in> set (shareable r). starts_with_words h w \<longrightarrow> length w \<le> length (words p))"

definition longest_safe :: "SessionRules \<Rightarrow> string \<Rightarrow> string \<Rightarrow> bool" where
  "longest_safe r h w \<longleftrightarrow> w \<in> set (shareable r) \<and> starts_with_words h w
     \<and> (\<forall>q \<in> set (pins r). starts_with_words h (words q) \<longrightarrow> length (words q) < length w)"

lemma classify_head_cases:
  obtains (no_rule) "classify_head r h = Some Unclassified"
      "\<forall>p \<in> set (pins r). \<not> starts_with_words h (words p)"
      "\<forall>w \<in> set (shareable r). \<not> starts_with_words h w"
  | (pin) p where "longest_pin r h p" "classify_head r h = Some (reason p)"
  | (safe) w where "longest_safe r h w" "classify_head r h = None"
proof (cases "best_of (safe_candidates r h) (best_of (pin_candidates r h) None)")
  case None
  then show ?thesis
    by (intro no_rule) (auto simp: best_of_None classify_head_best_of best_of_append
        pin_candidates_def safe_candidates_def filter_empty_conv)
next
  case (Some mv)
  obtain m v where mv: "mv = (m, v)" by force
  have verdict: "classify_head r h = v" using Some mv by (simp add: classify_head_best_of best_of_append)
  note spec = best_of_spec [OF Some [unfolded mv]]
  show ?thesis
  proof (cases "best_of (pin_candidates r h) None = Some (m, v)")
    case True
    note pin_spec = best_of_spec [OF True]
    then obtain p where p: "p \<in> set (pins r)" "starts_with_words h (words p)" "m = length (words p)"
      "v = Some (reason p)" by (auto simp: pin_candidates_def)
    with spec pin_spec have "longest_pin r h p"
      by (auto simp: longest_pin_def pin_candidates_def safe_candidates_def)
    with p verdict show ?thesis by (intro pin) auto
  next
    case False
    with spec have safe_won: "(m, v) \<in> set (safe_candidates r h)" "beats m (best_of (pin_candidates r h) None)"
      by auto
    then obtain w where w: "w \<in> set (shareable r)" "starts_with_words h w" "m = length w" "v = None"
      by (auto simp: safe_candidates_def)
    have "longest_safe r h w"
    proof (cases "best_of (pin_candidates r h) None")
      case None
      then show ?thesis using w
        by (auto simp: longest_safe_def best_of_None pin_candidates_def filter_empty_conv)
    next
      case (Some kw)
      with best_of_spec [of "pin_candidates r h" None "fst kw" "snd kw"] safe_won(2) w
      show ?thesis by (fastforce simp: longest_safe_def beats_def pin_candidates_def)
    qed
    with w verdict show ?thesis by (intro safe) auto
  qed
qed

text \<open>
  A statement leaves nothing behind, so its connection may be shared, exactly when the
  product classifies at all and some shareable rule matches the leading words and is
  longer than every pin rule that matches. No rule order enters, and a tie is a pin.
\<close>

theorem classify_shareable_iff:
  "classify_sql r sql = None \<longleftrightarrow> classifies r \<and> (\<exists>w. longest_safe r (leading_words sql) w)"
proof -
  have "classify_head r h = None \<longleftrightarrow> (\<exists>w. longest_safe r h w)" for h
    by (cases rule: classify_head_cases [of r h])
      (auto simp: longest_safe_def longest_pin_def, meson not_le)
  then show ?thesis by (simp add: classify_sql_def)
qed

text \<open>
  Every pin verdict is accounted for: the product does not classify, or nothing
  matched, or it is the reason of a longest matching pin rule that no shareable rule
  outranks.
\<close>

theorem classify_pin_reason:
  assumes "classify_sql r sql = Some p"
  shows "p = Unclassified \<and> (\<not> classifies r
           \<or> (\<forall>q \<in> set (pins r). \<not> starts_with_words (leading_words sql) (words q))
              \<and> (\<forall>w \<in> set (shareable r). \<not> starts_with_words (leading_words sql) w))
       \<or> (\<exists>q. longest_pin r (leading_words sql) q \<and> p = reason q)"
  using assms
  by (cases rule: classify_head_cases [of r "leading_words sql"])
    (auto simp: classify_sql_def split: if_splits)

definition example_rules :: SessionRules where
  "example_rules = \<lparr>reset_query = Some ''DISCARD ALL'',
     pins = [\<lparr>words = ''SET'', reason = SessionParameter\<rparr>],
     shareable = [''SET LOCAL'', ''SELECT'']\<rparr>"

theorem classify_pin_reason_witness:
  "classify_sql example_rules ''set role app'' = Some SessionParameter
   \<and> (\<exists>q. longest_pin example_rules (leading_words ''set role app'') q \<and> SessionParameter = reason q)"
proof -
  have c: "classify_sql example_rules ''set role app'' = Some SessionParameter" by code_simp
  show ?thesis using c classify_pin_reason [OF c] by simp
qed

end
