(* ===== verification/Btree.thy ===== *)
theory Btree
  imports Prelude "HOL-Library.Char_ord" "HOL-Library.List_Lexorder" "HOL-Library.Product_Lexorder"
begin

text \<open>
  \<open>BTreeMap\<close> as the list of its entries in the order it iterates in, which is key order.
  Strings compare by their bytes, as in Rust.
\<close>

type_synonym ('k, 'v) btree = "('k \<times> 'v) list"

fun btree_insert :: "'k::linorder \<Rightarrow> 'v \<Rightarrow> ('k, 'v) btree \<Rightarrow> ('k, 'v) btree" where
  "btree_insert k e [] = [(k, e)]"
| "btree_insert k e ((k', e') # es) =
     (if k < k' then (k, e) # (k', e') # es
      else if k = k' then (k, e) # es
      else (k', e') # btree_insert k e es)"

definition btree_remove :: "'k::linorder \<Rightarrow> ('k, 'v) btree \<Rightarrow> ('k, 'v) btree" where
  "btree_remove k es = filter (\<lambda>p. fst p \<noteq> k) es"

definition btree :: "('k::linorder, 'v) btree \<Rightarrow> bool" where
  "btree es \<longleftrightarrow> sorted (map fst es) \<and> distinct (map fst es)"

lemma btree_Nil [simp]: "btree []"
  by (simp add: btree_def)

lemma set_btree_insert: "fst ` set (btree_insert k e es) = insert k (fst ` set es)"
  by (induction k e es rule: btree_insert.induct) auto

lemma btree_insert [simp]: "btree es \<Longrightarrow> btree (btree_insert k e es)"
  unfolding btree_def
proof (induction k e es rule: btree_insert.induct)
  case (2 k e k' e' es)
  consider "k < k'" | "k = k'" | "k' < k" by fastforce
  then show ?case
  proof cases
    case 3
    with 2 have "sorted (map fst (btree_insert k e es)) \<and> distinct (map fst (btree_insert k e es))" by auto
    moreover have "set (map fst (btree_insert k e es)) = insert k (fst ` set es)"
      by (simp add: set_btree_insert)
    ultimately show ?thesis using 2 3 by auto
  qed (use 2 in force)+
qed simp

lemma btree_remove [simp]: "btree es \<Longrightarrow> btree (btree_remove k es)"
  by (simp add: btree_def btree_remove_def sorted_filter distinct_map_filter)

lemma map_of_btree_insert [simp]: "btree es \<Longrightarrow> map_of (btree_insert k e es) = (map_of es)(k \<mapsto> e)"
  unfolding btree_def by (induction k e es rule: btree_insert.induct) (auto simp: fun_eq_iff)

lemma map_of_btree_remove [simp]: "map_of (btree_remove k es) = (map_of es)(k := None)"
  unfolding btree_remove_def by (induction es) (auto simp: fun_eq_iff)

lemma length_btree_insert:
  "btree es \<Longrightarrow> length (btree_insert k e es) = (if map_of es k = None then Suc (length es) else length es)"
  unfolding btree_def
  by (induction k e es rule: btree_insert.induct) (force simp: map_of_eq_None_iff)+

lemma btree_lookup: "btree es \<Longrightarrow> map_of es k = Some v \<longleftrightarrow> (k, v) \<in> set es"
  by (simp add: btree_def)

lemma btree_values: "v \<in> snd ` set (btree_insert k e es) \<Longrightarrow> v = e \<or> v \<in> snd ` set es"
  by (induction k e es rule: btree_insert.induct) (auto split: if_splits)

lemma btree_filter: "btree m \<Longrightarrow> btree (filter P m)"
  by (simp add: btree_def sorted_filter distinct_map_filter)

lemma map_of_filter_key:
  "btree m \<Longrightarrow> map_of (filter (\<lambda>(k, v). P k v) m) k = (case map_of m k of Some v \<Rightarrow> if P k v then Some v else None | None \<Rightarrow> None)"
  unfolding btree_def by (induction m) (auto simp: map_of_eq_None_iff image_iff split: option.splits)

text \<open>A map has one representation.\<close>

lemma btree_eqI:
  assumes "btree xs" "btree ys" "map_of xs = map_of ys"
  shows "xs = ys"
proof -
  have "(k, v) \<in> set xs \<longleftrightarrow> (k, v) \<in> set ys" for k v
    using assms btree_lookup [of xs k v] btree_lookup [of ys k v] by simp
  then have eq: "set xs = set ys" by auto
  have "inj_on fst (set xs)" using assms(1) by (simp add: btree_def distinct_map)
  with eq assms(1,2) show ?thesis
    unfolding btree_def by (intro map_sorted_distinct_set_unique [of fst]) auto
qed

end
