(* ===== verification/Pins.thy ===== *)
theory Pins
  imports Flow Btree
begin

text \<open>
  The registry of pinned sessions (\<open>havuz-proto/src/pins.rs\<close>). Its map is kept as the list
  of entries in key order, which is the order a \<open>BTreeMap\<close> iterates in. The registry caps
  its detail at \<open>MAX_ENTRIES\<close>; the results say that the cap holds, that the totals stay
  exact in spite of it, and that what the detail misses is what \<open>dropped\<close> counts. The
  registry records whole calls: the lock of \<open>entries\<close> serialises them.
\<close>

definition MAX_ENTRIES :: nat where "MAX_ENTRIES = 1024"

text \<open>\<open>PinKey\<close> derives its order: user, then application, then reason.\<close>

type_synonym PinKey = "string \<times> string \<times> PinReason"

record PinEntry =
  pe_count :: u64
  first_seen :: time
  last_seen :: time

record PinRegistry =
  entries :: "(PinKey, PinEntry) btree"
  totals :: "u64 list"
  unpinned :: u64
  dropped :: u64

definition new_registry :: PinRegistry where
  "new_registry = \<lparr>entries = [], totals = replicate (length ALL_reasons) 0, unpinned = 0, dropped = 0\<rparr>"

fun index_of :: "'a \<Rightarrow> 'a list \<Rightarrow> nat" where
  "index_of x [] = 0"
| "index_of x (y # ys) = (if x = y then 0 else Suc (index_of x ys))"

definition reason_index :: "PinReason \<Rightarrow> nat" where
  "reason_index r = index_of r ALL_reasons"

definition record_pin :: "time \<Rightarrow> string \<Rightarrow> string option \<Rightarrow> PinReason \<Rightarrow> PinRegistry \<Rightarrow> PinRegistry" where
  "record_pin now user application r reg =
     (let i = reason_index r;
          reg = reg\<lparr>totals := (totals reg)[i := totals reg ! i + 1]\<rparr>;
          key = (user, case application of Some a \<Rightarrow> a | None \<Rightarrow> ''-'', r)
      in case map_of (entries reg) key of
           Some e \<Rightarrow>
             reg\<lparr>entries := btree_insert key (e\<lparr>pe_count := pe_count e + 1, last_seen := now\<rparr>) (entries reg)\<rparr>
         | None \<Rightarrow>
             if length (entries reg) \<ge> MAX_ENTRIES then reg\<lparr>dropped := dropped reg + 1\<rparr>
             else reg\<lparr>entries :=
               btree_insert key \<lparr>pe_count = 1, first_seen = now, last_seen = now\<rparr> (entries reg)\<rparr>)"

definition record_clean :: "PinRegistry \<Rightarrow> PinRegistry" where
  "record_clean reg = reg\<lparr>unpinned := unpinned reg + 1\<rparr>"

definition total_for :: "PinRegistry \<Rightarrow> PinReason \<Rightarrow> u64" where
  "total_for reg r = totals reg ! reason_index r"

definition pinned_total :: "PinRegistry \<Rightarrow> u64" where
  "pinned_total reg = sum_list (totals reg)"

text \<open>\<open>pin_rate\<close> up to its last step, the division of the two counts as floats.\<close>

definition pin_rate :: "PinRegistry \<Rightarrow> (u64 \<times> u64) option" where
  "pin_rate reg =
     (let pinned = pinned_total reg; total = pinned + unpinned reg
      in if total > 0 then Some (pinned, total) else None)"

record PinOffender =
  po_user :: string
  po_application :: string
  po_reason :: PinReason
  po_actionable :: bool
  po_count :: u64
  first_seen_secs_ago :: nat
  last_seen_secs_ago :: nat

record PinReport =
  pinned_sessions :: u64
  clean_sessions :: u64
  pr_pin_rate :: "(u64 \<times> u64) option"
  by_reason :: "(PinReason \<times> u64) list"
  offenders :: "PinOffender list"
  truncated :: bool

definition offender :: "time \<Rightarrow> PinKey \<times> PinEntry \<Rightarrow> PinOffender" where
  "offender now = (\<lambda>((user, app, r), e).
     \<lparr>po_user = user, po_application = app, po_reason = r, po_actionable = is_actionable r,
      po_count = pe_count e, first_seen_secs_ago = (now - first_seen e) div 10 ^ 9,
      last_seen_secs_ago = (now - last_seen e) div 10 ^ 9\<rparr>)"

text \<open>Loudest first, then by user: a stable sort by the complement of the count.\<close>

definition offender_key :: "PinOffender \<Rightarrow> nat \<times> string" where
  "offender_key po = (2 ^ 64 - unat (po_count po), po_user po)"

definition report :: "time \<Rightarrow> PinRegistry \<Rightarrow> PinReport" where
  "report now reg =
     \<lparr>pinned_sessions = pinned_total reg, clean_sessions = unpinned reg, pr_pin_rate = pin_rate reg,
      by_reason = map (\<lambda>r. (r, total_for reg r)) ALL_reasons,
      offenders = sort_key offender_key (map (offender now) (entries reg)),
      truncated = (dropped reg > 0)\<rparr>"

definition reset_registry :: "PinRegistry \<Rightarrow> PinRegistry" where
  "reset_registry reg =
     \<lparr>entries = [], totals = map (\<lambda>_. 0) (totals reg), unpinned = 0, dropped = 0\<rparr>"

section \<open>The map\<close>

definition detail :: "(PinKey \<times> PinEntry) list \<Rightarrow> u64" where
  "detail es = sum_list (map (pe_count \<circ> snd) es)"

lemma detail_btree_insert:
  "btree es \<Longrightarrow>
   detail (btree_insert k e es) = detail es + pe_count e - (case map_of es k of Some e' \<Rightarrow> pe_count e' | None \<Rightarrow> 0)"
  unfolding btree_def
proof (induction k e es rule: btree_insert.induct)
  case (2 k e k' e' es)
  have "k < k' \<Longrightarrow> map_of es k = None" using 2 by (force simp: map_of_eq_None_iff)
  with 2 show ?case by (auto simp: detail_def)
qed (simp add: detail_def)

section \<open>The registry through its life\<close>

datatype PinOp = RecordPin time string "string option" PinReason | RecordClean | Reset

fun pin_apply :: "PinRegistry \<Rightarrow> PinOp \<Rightarrow> PinRegistry" where
  "pin_apply reg (RecordPin now u a r) = record_pin now u a r reg"
| "pin_apply reg RecordClean = record_clean reg"
| "pin_apply reg Reset = reset_registry reg"

definition pin_run :: "PinOp list \<Rightarrow> PinRegistry" where
  "pin_run ops = foldl pin_apply new_registry ops"

text \<open>What happened since the last reset, and how often a session was pinned for \<open>r\<close>.\<close>

definition since_reset :: "PinOp list \<Rightarrow> PinOp list" where
  "since_reset ops = rev (takeWhile (\<lambda>op. op \<noteq> Reset) (rev ops))"

definition pinned_for :: "PinReason \<Rightarrow> PinOp list \<Rightarrow> nat" where
  "pinned_for r ops = length (filter (\<lambda>op. \<exists>now u a. op = RecordPin now u a r) ops)"

definition pins_inv :: "PinRegistry \<Rightarrow> bool" where
  "pins_inv reg \<longleftrightarrow> btree (entries reg)
     \<and> length (entries reg) \<le> MAX_ENTRIES
     \<and> length (totals reg) = length ALL_reasons
     \<and> pinned_total reg = detail (entries reg) + dropped reg"

lemma index_of_less: "x \<in> set xs \<Longrightarrow> index_of x xs < length xs"
  by (induction xs) auto

lemma nth_index_of: "x \<in> set xs \<Longrightarrow> xs ! index_of x xs = x"
  by (induction xs) auto

lemma reason_index_less [simp]: "reason_index r < length ALL_reasons"
  unfolding reason_index_def by (rule index_of_less) (simp add: set_ALL_reasons)

lemma reason_index_inj: "reason_index r = reason_index s \<Longrightarrow> r = s"
  unfolding reason_index_def by (metis UNIV_I nth_index_of set_ALL_reasons)

lemma sum_list_upd:
  "i < length xs \<Longrightarrow> sum_list (xs[i := xs ! i + 1]) = sum_list xs + (1 :: u64)"
  by (induction xs arbitrary: i) (auto split: nat.splits)

lemma record_pin_totals:
  "totals (record_pin now u a r reg) = (totals reg)[reason_index r := totals reg ! reason_index r + 1]"
  by (simp add: record_pin_def Let_def split: option.split)

lemma record_pin_inv: "pins_inv reg \<Longrightarrow> pins_inv (record_pin now u a r reg)"
  by (auto simp: pins_inv_def pinned_total_def record_pin_def Let_def sum_list_upd
      length_btree_insert detail_btree_insert split: option.splits)

lemma new_registry_inv: "pins_inv new_registry"
  by (simp add: pins_inv_def new_registry_def pinned_total_def detail_def sum_list_replicate)

lemma reset_registry_inv: "pins_inv reg \<Longrightarrow> pins_inv (reset_registry reg)"
  by (simp add: pins_inv_def reset_registry_def pinned_total_def detail_def map_replicate_const
      sum_list_replicate)

lemma pin_apply_inv: "pins_inv reg \<Longrightarrow> pins_inv (pin_apply reg op)"
  by (cases op) (auto simp: record_pin_inv reset_registry_inv, simp add: pins_inv_def record_clean_def pinned_total_def)

interpretation pins_life: op_machine "\<lambda>reg. reg = new_registry" pin_apply pins_inv
  by unfold_locales (simp_all add: new_registry_inv pin_apply_inv)

lemma pin_run_inv: "pins_inv (pin_run ops)"
  unfolding pin_run_def by (rule pins_life.run_inv [OF refl])

lemma pin_run_snoc: "pin_run (ops @ [op]) = pin_apply (pin_run ops) op"
  by (simp add: pin_run_def)

lemma since_reset_snoc:
  "since_reset (ops @ [op]) = (if op = Reset then [] else since_reset ops @ [op])"
  by (simp add: since_reset_def)

lemma total_for_run: "total_for (pin_run ops) r = word_of_nat (pinned_for r (since_reset ops))"
proof (induction ops rule: rev_induct)
  case Nil
  then show ?case
    by (simp add: pin_run_def total_for_def new_registry_def since_reset_def pinned_for_def)
next
  case (snoc op ops)
  have len: "length (totals (pin_run ops)) = length ALL_reasons"
    using pin_run_inv [of ops] by (simp add: pins_inv_def)
  show ?case
  proof (cases op)
    case (RecordPin now u a s)
    with snoc len show ?thesis
      by (auto simp: pin_run_snoc since_reset_snoc total_for_def record_pin_totals pinned_for_def
          nth_list_update dest: reason_index_inj)
  qed (use snoc len in \<open>simp_all add: pin_run_snoc since_reset_snoc total_for_def record_clean_def
      reset_registry_def pinned_for_def\<close>)
qed

text \<open>
  The pin registry never holds more than 1024 entries, however many distinct users,
  applications and reasons are recorded, and yet every per-reason total is exactly the
  number of sessions pinned for that reason since the last reset; the sessions missing
  from the detail are the ones \<open>dropped\<close> counts.
\<close>

theorem pin_totals_exact_under_cap:
  "length (entries (pin_run ops)) \<le> 1024
   \<and> total_for (pin_run ops) r = word_of_nat (pinned_for r (since_reset ops))
   \<and> pinned_total (pin_run ops) = detail (entries (pin_run ops)) + dropped (pin_run ops)"
  using pin_run_inv [of ops] by (simp add: pins_inv_def MAX_ENTRIES_def total_for_run)

text \<open>
  The report lists every entry exactly once, loudest first, and every reason, the ones
  at zero included.
\<close>

theorem report_sorted_complete:
  "mset (offenders (report now reg)) = mset (map (offender now) (entries reg))
   \<and> sorted_wrt (\<lambda>a b. unat (po_count b) \<le> unat (po_count a)) (offenders (report now reg))
   \<and> map fst (by_reason (report now reg)) = ALL_reasons"
proof -
  have le: "unat (po_count po) \<le> 2 ^ 64" for po
    using unsigned_less [of "po_count po", where 'a = nat] by simp
  have "sorted (map offender_key (offenders (report now reg)))" by (simp add: report_def)
  then have "sorted_wrt (\<lambda>a b. offender_key a \<le> offender_key b) (offenders (report now reg))"
    by (simp add: sorted_map)
  then have "sorted_wrt (\<lambda>a b. unat (po_count b) \<le> unat (po_count a)) (offenders (report now reg))"
  proof (rule sorted_wrt_mono_rel [rotated])
    fix a b :: PinOffender
    assume "offender_key a \<le> offender_key b"
    then have "2 ^ 64 - unat (po_count a) \<le> 2 ^ 64 - unat (po_count b)"
      by (auto simp: offender_key_def less_eq_prod_def)
    with le [of a] le [of b] show "unat (po_count b) \<le> unat (po_count a)" by simp
  qed
  then show ?thesis by (simp add: report_def comp_def)
qed

end
