(* ===== verification/Utf8.thy ===== *)
theory Utf8
  imports Rust_Str
begin

text \<open>
  UTF-8 as Rust's \<open>core::str\<close> reads it: \<open>from_utf8\<close> accepts a byte string or refuses it,
  \<open>from_utf8_lossy\<close> keeps the valid characters and replaces each maximal invalid part
  by U+FFFD. havuz applies the first to names and queries it must trust and the second to
  statement text it only inspects.
\<close>

section \<open>One character at the head of a byte string\<close>

definition byte_at :: "string \<Rightarrow> nat \<Rightarrow> nat" where
  "byte_at s i = (if i < length s then byte (s ! i) else 0)"

definition is_cont :: "nat \<Rightarrow> bool" where
  "is_cont b \<longleftrightarrow> 128 \<le> b \<and> b \<le> 191"

definition second3 :: "nat \<Rightarrow> nat \<Rightarrow> bool" where
  "second3 a b \<longleftrightarrow>
     a = 224 \<and> 160 \<le> b \<and> b \<le> 191 \<or> 225 \<le> a \<and> a \<le> 236 \<and> is_cont b
     \<or> a = 237 \<and> 128 \<le> b \<and> b \<le> 159 \<or> 238 \<le> a \<and> a \<le> 239 \<and> is_cont b"

definition second4 :: "nat \<Rightarrow> nat \<Rightarrow> bool" where
  "second4 a b \<longleftrightarrow>
     a = 240 \<and> 144 \<le> b \<and> b \<le> 191 \<or> 241 \<le> a \<and> a \<le> 243 \<and> is_cont b
     \<or> a = 244 \<and> 128 \<le> b \<and> b \<le> 143"

text \<open>
  How many bytes the next character takes and whether they form a valid one; an invalid
  part is as long as the prefix that could still have become a character.
\<close>

definition utf8_head :: "string \<Rightarrow> nat \<times> bool" where
  "utf8_head s =
     (let a = byte_at s 0; b = byte_at s 1; c = byte_at s 2; d = byte_at s 3 in
      if a < 128 then (1, True)
      else if 194 \<le> a \<and> a \<le> 223 then (if is_cont b then (2, True) else (1, False))
      else if 224 \<le> a \<and> a \<le> 239 then
        (if \<not> second3 a b then (1, False) else if is_cont c then (3, True) else (2, False))
      else if 240 \<le> a \<and> a \<le> 244 then
        (if \<not> second4 a b then (1, False)
         else if \<not> is_cont c then (2, False)
         else if is_cont d then (4, True) else (3, False))
      else (1, False))"

lemma utf8_head_pos: "0 < fst (utf8_head s)"
  by (auto simp: utf8_head_def Let_def)

function utf8_valid :: "string \<Rightarrow> bool" where
  "utf8_valid s =
     (if s = [] then True
      else if snd (utf8_head s) then utf8_valid (drop (fst (utf8_head s)) s) else False)"
  by pat_completeness auto
termination
proof (relation "measure length")
  fix s :: string assume "s \<noteq> []" and "snd (utf8_head s)"
  then show "(drop (fst (utf8_head s)) s, s) \<in> measure length"
    using utf8_head_pos [of s] by (cases s) auto
qed simp

definition replacement :: string where
  "replacement = [char_of (239::nat), char_of (191::nat), char_of (189::nat)]"

function from_utf8_lossy :: "string \<Rightarrow> string" where
  "from_utf8_lossy s =
     (if s = [] then []
      else (if snd (utf8_head s) then take (fst (utf8_head s)) s else replacement)
           @ from_utf8_lossy (drop (fst (utf8_head s)) s))"
  by pat_completeness auto
termination
proof (relation "measure length")
  fix s :: string assume "s \<noteq> []"
  then show "(drop (fst (utf8_head s)) s, s) \<in> measure length"
    using utf8_head_pos [of s] by (cases s) auto
qed simp

declare utf8_valid.simps [simp del] from_utf8_lossy.simps [simp del]

definition from_utf8 :: "string \<Rightarrow> string option" where
  "from_utf8 s = (if utf8_valid s then Some s else None)"

text \<open>\<open>String::push(b as char)\<close>: a byte read as a Latin-1 code point, encoded in UTF-8.\<close>

definition latin1_char :: "char \<Rightarrow> string" where
  "latin1_char c =
     (if byte c < 128 then [c]
      else [char_of (192 + byte c div 64), char_of (128 + byte c mod 64)])"

section \<open>Laws\<close>

lemma utf8_valid_Nil [simp]: "utf8_valid []"
  by (simp add: utf8_valid.simps)

lemma from_utf8_lossy_Nil [simp]: "from_utf8_lossy [] = []"
  by (simp add: from_utf8_lossy.simps)

text \<open>The four shapes of a valid character.\<close>

definition utf8_shape :: "string \<Rightarrow> nat \<Rightarrow> bool" where
  "utf8_shape s n \<longleftrightarrow>
     n = 1 \<and> byte_at s 0 < 128
     \<or> n = 2 \<and> 194 \<le> byte_at s 0 \<and> byte_at s 0 \<le> 223 \<and> is_cont (byte_at s 1)
     \<or> n = 3 \<and> 224 \<le> byte_at s 0 \<and> byte_at s 0 \<le> 239 \<and> second3 (byte_at s 0) (byte_at s 1)
         \<and> is_cont (byte_at s 2)
     \<or> n = 4 \<and> 240 \<le> byte_at s 0 \<and> byte_at s 0 \<le> 244 \<and> second4 (byte_at s 0) (byte_at s 1)
         \<and> is_cont (byte_at s 2) \<and> is_cont (byte_at s 3)"

lemma utf8_head_shape: "snd (utf8_head s) \<Longrightarrow> utf8_shape s (fst (utf8_head s))"
  by (simp add: utf8_head_def Let_def utf8_shape_def split: if_splits)

lemma utf8_shape_head: "utf8_shape s n \<Longrightarrow> utf8_head s = (n, True)"
  unfolding utf8_shape_def by (elim disjE conjE) (simp_all add: utf8_head_def Let_def)

lemma byte_at_cont: "is_cont (byte_at s i) \<Longrightarrow> i < length s"
  by (simp add: byte_at_def is_cont_def split: if_splits)

lemma utf8_shape_le: "s \<noteq> [] \<Longrightarrow> utf8_shape s n \<Longrightarrow> n \<le> length s"
  unfolding utf8_shape_def
  by (elim disjE conjE) (auto dest!: byte_at_cont simp: Suc_leI)

lemma utf8_head_le: "s \<noteq> [] \<Longrightarrow> snd (utf8_head s) \<Longrightarrow> fst (utf8_head s) \<le> length s"
  by (rule utf8_shape_le [OF _ utf8_head_shape])

lemma byte_at_take: "i < n \<Longrightarrow> n \<le> length s \<Longrightarrow> byte_at (take n s @ r) i = byte_at s i"
  by (simp add: byte_at_def nth_append)

lemma utf8_shape_take: "utf8_shape s n \<Longrightarrow> n \<le> length s \<Longrightarrow> utf8_shape (take n s @ r) n"
  unfolding utf8_shape_def by (elim disjE conjE) (simp_all add: byte_at_take)

lemma utf8_head_take:
  assumes "s \<noteq> []" and ok: "snd (utf8_head s)"
  shows "utf8_head (take (fst (utf8_head s)) s @ r) = (fst (utf8_head s), True)"
  by (intro utf8_shape_head utf8_shape_take utf8_head_shape [OF ok] utf8_head_le [OF assms])

lemma utf8_valid_char_append:
  assumes "s \<noteq> []" and "snd (utf8_head s)" and "utf8_valid r"
  shows "utf8_valid (take (fst (utf8_head s)) s @ r)"
proof -
  have "fst (utf8_head s) \<le> length s" using assms(1,2) by (rule utf8_head_le)
  then show ?thesis
    using assms utf8_head_take [OF assms(1,2), of r]
    by (subst utf8_valid.simps) simp
qed

lemma utf8_head_replacement: "utf8_head (replacement @ r) = (3, True)"
  by (simp add: replacement_def utf8_head_def Let_def byte_at_def second3_def is_cont_def nth_Cons')

lemma utf8_valid_replacement: "utf8_valid r \<Longrightarrow> utf8_valid (replacement @ r)"
  using utf8_head_replacement [of r]
  by (subst utf8_valid.simps) (simp add: replacement_def)

lemma utf8_valid_lossy: "utf8_valid (from_utf8_lossy s)"
proof (induction s rule: from_utf8_lossy.induct)
  case (1 s)
  show ?case
  proof (cases "s = []")
    case False
    let ?r = "from_utf8_lossy (drop (fst (utf8_head s)) s)"
    have IH: "utf8_valid ?r" using False by (rule "1.IH")
    show ?thesis
    proof (cases "snd (utf8_head s)")
      case True
      with False IH have "utf8_valid (take (fst (utf8_head s)) s @ ?r)"
        by (intro utf8_valid_char_append)
      with True False show ?thesis by (simp add: from_utf8_lossy.simps [of s])
    next
      case bad: False
      have "utf8_valid (replacement @ ?r)"
        using IH by (rule utf8_valid_replacement)
      with bad False show ?thesis by (simp add: from_utf8_lossy.simps [of s])
    qed
  qed simp
qed

lemma lossy_valid_id: "utf8_valid s \<Longrightarrow> from_utf8_lossy s = s"
proof (induction s rule: utf8_valid.induct)
  case (1 s)
  then show ?case
    by (cases "s = []")
      (auto simp: from_utf8_lossy.simps [of s] utf8_valid.simps [of s])
qed

lemma utf8_valid_ascii: "\<forall>c \<in> set s. byte c < 128 \<Longrightarrow> utf8_valid s"
  by (induction s) (auto simp: utf8_valid.simps [of "_ # _"] utf8_head_def byte_at_def)

lemma from_utf8_eq_Some: "from_utf8 s = Some t \<longleftrightarrow> utf8_valid s \<and> t = s"
  by (auto simp: from_utf8_def)

end
