(* ===== verification/Wire.thy ===== *)
theory Wire
  imports Utf8
begin

text \<open>
  PostgreSQL message framing (\<open>havuz-pg/src/protocol.rs\<close>): the untyped first packet, the
  typed messages after it, and the messages havuz composes itself. Integers are words of
  the width on the wire, big-endian; a socket that is read from is the string of the
  bytes still to come, and running out of them is the I/O error \<open>read_exact\<close> reports.
  Encoding followed by decoding is the identity on every packet and message havuz may
  send, and every length a peer announces is checked before a buffer of that size exists.
\<close>

section \<open>Integers on the wire\<close>

abbreviation NUL :: char where
  "NUL \<equiv> CHR 0x00"

definition put_i16 :: "i16 \<Rightarrow> string" where
  "put_i16 w = (let n = unat w in [char_of (n div 256), char_of (n mod 256)])"

definition put_i32 :: "i32 \<Rightarrow> string" where
  "put_i32 w =
     (let n = unat w in
      [char_of (n div 16777216), char_of (n div 65536 mod 256),
       char_of (n div 256 mod 256), char_of (n mod 256)])"

fun get_i32 :: "string \<Rightarrow> (i32 \<times> string) option" where
  "get_i32 (a # b # c # d # s) =
     Some (word_of_nat (byte a * 16777216 + byte b * 65536 + byte c * 256 + byte d), s)"
| "get_i32 _ = None"

lemma length_put_i32 [simp]: "length (put_i32 w) = 4"
  by (simp add: put_i32_def Let_def)

lemma length_put_i16 [simp]: "length (put_i16 w) = 2"
  by (simp add: put_i16_def Let_def)

lemma be32_sum:
  assumes "n < 4294967296"
  shows "n div 16777216 mod 256 * 16777216 + n div 65536 mod 256 * 65536
           + n div 256 mod 256 * 256 + n mod 256 = (n::nat)"
proof -
  define a b c where "a = n div 256" and "b = a div 256" and "c = b div 256"
  have abc: "n div 65536 = b" "n div 16777216 = c"
    by (simp_all add: a_def b_def c_def div_mult2_eq [symmetric])
  have "c < 256" using assms by (simp add: a_def b_def c_def div_mult2_eq [symmetric])
  moreover have "n = a * 256 + n mod 256" "a = b * 256 + a mod 256" "b = c * 256 + b mod 256"
    by (simp_all add: a_def b_def c_def)
  ultimately show ?thesis unfolding abc a_def [symmetric] by simp
qed

lemma get_put_i32 [simp]: "get_i32 (put_i32 w @ s) = Some (w, s)"
proof -
  have "unat w < 4294967296" using unsigned_less [of w] by simp
  then have "word_of_nat (unat w div 16777216 mod 256 * 16777216 + unat w div 65536 mod 256 * 65536
           + unat w div 256 mod 256 * 256 + unat w mod 256) = w"
    by (simp only: be32_sum) simp
  then show ?thesis by (simp add: put_i32_def Let_def)
qed

lemma get_i32_length: "get_i32 s = Some (w, t) \<Longrightarrow> length s = length t + 4"
  by (cases s rule: get_i32.cases) auto

lemma get_i32_None_iff: "get_i32 s = None \<longleftrightarrow> length s < 4"
  by (cases s rule: get_i32.cases) auto

section \<open>Errors and the first packet\<close>

definition PROTOCOL_VERSION_3 :: i32 where "PROTOCOL_VERSION_3 = 196608"
definition SSL_REQUEST_CODE :: i32 where "SSL_REQUEST_CODE = 80877103"
definition CANCEL_REQUEST_CODE :: i32 where "CANCEL_REQUEST_CODE = 80877102"
definition GSSENC_REQUEST_CODE :: i32 where "GSSENC_REQUEST_CODE = 80877104"
definition MAX_STARTUP_LEN :: nat where "MAX_STARTUP_LEN = 10000"
definition MAX_MESSAGE_LEN :: nat where "MAX_MESSAGE_LEN = 64 * 1024 * 1024"

lemmas wire_consts =
  PROTOCOL_VERSION_3_def SSL_REQUEST_CODE_def CANCEL_REQUEST_CODE_def GSSENC_REQUEST_CODE_def

datatype ProtocolError =
  Io
  | BadLength i32
  | TooLarge nat nat
  | UnsupportedVersion i32 i32
  | MalformedStartup string
  | MissingParameter string
  | Truncated
  | NotUtf8

text \<open>The text of an error, given that of the I/O error.\<close>

fun protocol_text :: "string \<Rightarrow> ProtocolError \<Rightarrow> string" where
  "protocol_text io Io = ''io: '' @ io"
| "protocol_text io (BadLength n) = ''packet length '' @ decimal_i32 n @ '' is invalid''"
| "protocol_text io (TooLarge len lim) = ''packet of '' @ decimal len @ '' bytes exceeds the '' @ decimal lim @ '' byte limit''"
| "protocol_text io (UnsupportedVersion major minor) =
     ''unsupported protocol version '' @ decimal_i32 major @ ''.'' @ decimal_i32 minor @ ''; havuz speaks 3.0''"
| "protocol_text io (MalformedStartup what) = ''malformed startup packet: '' @ what"
| "protocol_text io (MissingParameter p) =
     ''startup packet is missing the required '' @ [CHR 0x27] @ p @ [CHR 0x27] @ '' parameter''"
| "protocol_text io Truncated = ''message body is truncated''"
| "protocol_text io NotUtf8 = ''string is not valid utf-8''"

text \<open>The codes havuz raises on its own behalf (\<open>sqlstate\<close>).\<close>

definition INVALID_AUTHORIZATION :: string where "INVALID_AUTHORIZATION = ''28000''"
definition INVALID_PASSWORD :: string where "INVALID_PASSWORD = ''28P01''"
definition UNDEFINED_DATABASE :: string where "UNDEFINED_DATABASE = ''3D000''"
definition TOO_MANY_CONNECTIONS :: string where "TOO_MANY_CONNECTIONS = ''53300''"
definition CANNOT_CONNECT_NOW :: string where "CANNOT_CONNECT_NOW = ''57P03''"
definition PROTOCOL_VIOLATION :: string where "PROTOCOL_VIOLATION = ''08P01''"
definition ADMIN_SHUTDOWN :: string where "ADMIN_SHUTDOWN = ''57P01''"
definition INVALID_PARAMETER_VALUE :: string where "INVALID_PARAMETER_VALUE = ''22023''"
definition READ_ONLY_SQL_TRANSACTION :: string where "READ_ONLY_SQL_TRANSACTION = ''25006''"
definition IDLE_IN_TRANSACTION_SESSION_TIMEOUT :: string where "IDLE_IN_TRANSACTION_SESSION_TIMEOUT = ''25P03''"

datatype StartupPacket =
  Startup "(string \<times> string) list"
  | SslRequest
  | CancelRequest i32 i32
  | GssEncRequest

fun param :: "StartupPacket \<Rightarrow> string \<Rightarrow> string option" where
  "param (Startup params) key = map_option snd (List.find (\<lambda>(k, _). k = key) params)"
| "param _ key = None"

definition user :: "StartupPacket \<Rightarrow> ProtocolError + string" where
  "user p = (case param p ''user'' of Some u \<Rightarrow> Inr u | None \<Rightarrow> Inl (MissingParameter ''user''))"

definition database :: "StartupPacket \<Rightarrow> ProtocolError + string" where
  "database p = (case param p ''database'' of Some db \<Rightarrow> Inr db | None \<Rightarrow> user p)"

definition application_name :: "StartupPacket \<Rightarrow> string option" where
  "application_name p = param p ''application_name''"

fun encode_params :: "(string \<times> string) list \<Rightarrow> string" where
  "encode_params [] = []"
| "encode_params ((k, v) # ps) = k @ [NUL] @ v @ [NUL] @ encode_params ps"

text \<open>
  The length prefix is written last, over a placeholder, and counts itself; \<open>as i32\<close>
  truncates to the width of the word.
\<close>

fun encode_startup :: "StartupPacket \<Rightarrow> string" where
  "encode_startup (Startup params) =
     (let body = put_i32 PROTOCOL_VERSION_3 @ encode_params params @ [NUL]
      in put_i32 (word_of_nat (4 + length body)) @ body)"
| "encode_startup SslRequest = put_i32 8 @ put_i32 SSL_REQUEST_CODE"
| "encode_startup GssEncRequest = put_i32 8 @ put_i32 GSSENC_REQUEST_CODE"
| "encode_startup (CancelRequest pid key) =
     put_i32 16 @ put_i32 CANCEL_REQUEST_CODE @ put_i32 pid @ put_i32 key"

text \<open>The parts between zero bytes, taken in pairs until an empty key ends the list.\<close>

fun decode_params_parts :: "string list \<Rightarrow> ProtocolError + (string \<times> string) list" where
  "decode_params_parts [] = Inl (MalformedStartup ''missing terminator'')"
| "decode_params_parts (key # rest) =
     (if key = [] then Inr []
      else case rest of
        [] \<Rightarrow> Inl (MalformedStartup ''parameter without a value'')
      | v # rest' \<Rightarrow>
          (case from_utf8 key of None \<Rightarrow> Inl NotUtf8 | Some k \<Rightarrow>
           case from_utf8 v of None \<Rightarrow> Inl NotUtf8 | Some v' \<Rightarrow>
           case decode_params_parts rest' of Inl e \<Rightarrow> Inl e | Inr ps \<Rightarrow> Inr ((k, v') # ps)))"

definition decode_params :: "string \<Rightarrow> ProtocolError + (string \<times> string) list" where
  "decode_params body = decode_params_parts (split_on NUL body)"

definition decode_startup :: "string \<Rightarrow> ProtocolError + StartupPacket" where
  "decode_startup body =
     (case get_i32 body of
        None \<Rightarrow> Inl Truncated
      | Some (code, rest) \<Rightarrow>
          if code = SSL_REQUEST_CODE then Inr SslRequest
          else if code = GSSENC_REQUEST_CODE then Inr GssEncRequest
          else if code = CANCEL_REQUEST_CODE then
            (case get_i32 rest of
               None \<Rightarrow> Inl Truncated
             | Some (pid, rest') \<Rightarrow>
                 (case get_i32 rest' of
                    None \<Rightarrow> Inl Truncated
                  | Some (key, _) \<Rightarrow> Inr (CancelRequest pid key)))
          else if code = PROTOCOL_VERSION_3 then
            (case decode_params rest of
               Inl e \<Rightarrow> Inl e
             | Inr params \<Rightarrow>
                 if \<not> list_ex (\<lambda>(k, _). k = ''user'') params
                 then Inl (MissingParameter ''user'')
                 else Inr (Startup params))
          else Inl (UnsupportedVersion (signed_drop_bit 16 code) (and code 0xffff)))"

text \<open>\<open>StartupPacket::read\<close>: the packet and what is left on the socket.\<close>

definition read_startup :: "string \<Rightarrow> ProtocolError + StartupPacket \<times> string" where
  "read_startup io =
     (case get_i32 io of
        None \<Rightarrow> Inl Io
      | Some (len, rest) \<Rightarrow>
          if len <s 8 then Inl (BadLength len)
          else let body_len = unat len - 4 in
            if body_len > MAX_STARTUP_LEN then Inl (TooLarge body_len MAX_STARTUP_LEN)
            else if length rest < body_len then Inl Io
            else case decode_startup (take body_len rest) of
                Inl e \<Rightarrow> Inl e
              | Inr p \<Rightarrow> Inr (p, drop body_len rest))"

section \<open>Messages\<close>

record Message =
  tag :: char
  body :: string

definition msg :: "char \<Rightarrow> string \<Rightarrow> Message" where
  "msg t b = \<lparr>tag = t, body = b\<rparr>"

definition wire_len :: "Message \<Rightarrow> nat" where
  "wire_len m = 1 + 4 + length (body m)"

definition encode_msg :: "Message \<Rightarrow> string" where
  "encode_msg m = [tag m] @ put_i32 (word_of_nat (length (body m) + 4)) @ body m"

definition read_msg :: "string \<Rightarrow> ProtocolError + Message \<times> string" where
  "read_msg io =
     (case io of
        [] \<Rightarrow> Inl Io
      | t # io' \<Rightarrow>
          (case get_i32 io' of
             None \<Rightarrow> Inl Io
           | Some (len, rest) \<Rightarrow>
               if len <s 4 then Inl (BadLength len)
               else let body_len = unat len - 4 in
                 if body_len > MAX_MESSAGE_LEN then Inl (TooLarge body_len MAX_MESSAGE_LEN)
                 else if length rest < body_len then Inl Io
                 else Inr (msg t (take body_len rest), drop body_len rest)))"

datatype TransactionStatus = TIdle | TInTransaction | TFailed

fun as_byte :: "TransactionStatus \<Rightarrow> char" where
  "as_byte TIdle = CHR ''I''"
| "as_byte TInTransaction = CHR ''T''"
| "as_byte TFailed = CHR ''E''"

definition from_byte :: "char \<Rightarrow> TransactionStatus option" where
  "from_byte b =
     (if b = CHR ''I'' then Some TIdle
      else if b = CHR ''T'' then Some TInTransaction
      else if b = CHR ''E'' then Some TFailed
      else None)"

definition status_is_releasable :: "TransactionStatus \<Rightarrow> bool" where
  "status_is_releasable s = (s = TIdle)"

definition ready_for_query :: "TransactionStatus \<Rightarrow> Message" where
  "ready_for_query s = msg (CHR ''Z'') [as_byte s]"

definition transaction_status :: "Message \<Rightarrow> TransactionStatus option" where
  "transaction_status m =
     (case body m of
        [b] \<Rightarrow> if tag m = CHR ''Z'' then from_byte b else None
      | _ \<Rightarrow> None)"

subsection \<open>Messages havuz composes\<close>

definition authentication_ok :: Message where
  "authentication_ok = msg (CHR ''R'') (put_i32 0)"

definition authentication_cleartext :: Message where
  "authentication_cleartext = msg (CHR ''R'') (put_i32 3)"

definition authentication_sasl :: Message where
  "authentication_sasl = msg (CHR ''R'') (put_i32 10 @ ''SCRAM-SHA-256'' @ [NUL, NUL])"

definition authentication_sasl_continue :: "string \<Rightarrow> Message" where
  "authentication_sasl_continue d = msg (CHR ''R'') (put_i32 11 @ d)"

definition authentication_sasl_final :: "string \<Rightarrow> Message" where
  "authentication_sasl_final d = msg (CHR ''R'') (put_i32 12 @ d)"

definition parameter_status :: "string \<Rightarrow> string \<Rightarrow> Message" where
  "parameter_status name v = msg (CHR ''S'') (name @ [NUL] @ v @ [NUL])"

definition backend_key_data :: "i32 \<Rightarrow> i32 \<Rightarrow> Message" where
  "backend_key_data pid key = msg (CHR ''K'') (put_i32 pid @ put_i32 key)"

record FieldDescription =
  fd_name :: string
  fd_type_oid :: i32
  fd_type_size :: i16
  fd_type_modifier :: i32

definition row_description :: "FieldDescription list \<Rightarrow> Message" where
  "row_description fds =
     msg (CHR ''T'')
       (put_i16 (word_of_nat (length fds))
        @ concat (map (\<lambda>f. fd_name f @ [NUL] @ put_i32 0 @ put_i16 0 @ put_i32 (fd_type_oid f)
            @ put_i16 (fd_type_size f) @ put_i32 (fd_type_modifier f) @ put_i16 0) fds))"

definition data_row :: "string option list \<Rightarrow> Message" where
  "data_row vs =
     msg (CHR ''D'')
       (put_i16 (word_of_nat (length vs))
        @ concat (map (\<lambda>v. case v of
              Some bs \<Rightarrow> put_i32 (word_of_nat (length bs)) @ bs
            | None \<Rightarrow> put_i32 (- 1)) vs))"

definition command_complete :: "string \<Rightarrow> Message" where
  "command_complete t = msg (CHR ''C'') (t @ [NUL])"

definition empty_query_response :: Message where
  "empty_query_response = msg (CHR ''I'') []"

definition parameter_description :: "i32 list \<Rightarrow> Message" where
  "parameter_description oids =
     msg (CHR ''t'') (put_i16 (word_of_nat (length oids)) @ concat (map put_i32 oids))"

definition parse_complete :: Message where "parse_complete = msg (CHR ''1'') []"
definition bind_complete :: Message where "bind_complete = msg (CHR ''2'') []"
definition close_complete :: Message where "close_complete = msg (CHR ''3'') []"
definition no_data :: Message where "no_data = msg (CHR ''n'') []"
definition terminate_msg :: Message where "terminate_msg = msg (CHR ''X'') []"

definition error_response :: "string \<Rightarrow> string \<Rightarrow> string \<Rightarrow> Message" where
  "error_response severity code text =
     msg (CHR ''E'')
       (concat (map (\<lambda>(field, v). [field] @ v @ [NUL])
          [(CHR ''S'', severity), (CHR ''V'', severity), (CHR ''C'', code), (CHR ''M'', text)])
        @ [NUL])"

definition fatal :: "string \<Rightarrow> string \<Rightarrow> Message" where
  "fatal code text = error_response ''FATAL'' code text"

text \<open>The loop of \<open>error_fields\<close>: each round drops at least the terminator it found.\<close>

function error_fields_loop :: "string \<Rightarrow> (char \<times> string) list" where
  "error_fields_loop rest =
     (case position (\<lambda>b. b = NUL) rest of
        None \<Rightarrow> []
      | Some pos \<Rightarrow>
          if pos = 0 then []
          else (rest ! 0, from_utf8_lossy (take (pos - 1) (drop 1 rest)))
               # error_fields_loop (drop (pos + 1) rest))"
  by pat_completeness auto
termination
  by (relation "measure length") (auto simp: position_Some_iff)

declare error_fields_loop.simps [simp del]

definition error_fields :: "Message \<Rightarrow> (char \<times> string) list" where
  "error_fields m = error_fields_loop (body m)"

section \<open>Laws\<close>

lemma be_digit: "d < 256 \<Longrightarrow> (x * 256 + d) div 256 = x \<and> (x * 256 + d) mod 256 = (d::nat)"
  by simp

lemma be32_digits:
  assumes "a < 256" "b < 256" "c < 256" "d < 256"
  defines "n \<equiv> a * 16777216 + b * 65536 + c * 256 + (d::nat)"
  shows "n < 4294967296" "n div 16777216 = a" "n div 65536 mod 256 = b"
    "n div 256 mod 256 = c" "n mod 256 = d"
proof -
  have n: "n = ((a * 256 + b) * 256 + c) * 256 + d" by (simp add: n_def)
  have 1: "n div 256 = (a * 256 + b) * 256 + c" "n mod 256 = d"
    unfolding n by (rule be_digit [THEN conjunct1, OF assms(4)], rule be_digit [THEN conjunct2, OF assms(4)])
  have 2: "n div 256 div 256 = a * 256 + b" "n div 256 mod 256 = c"
    unfolding 1(1) by (rule be_digit [THEN conjunct1, OF assms(3)], rule be_digit [THEN conjunct2, OF assms(3)])
  have 3: "n div 256 div 256 div 256 = a" "n div 256 div 256 mod 256 = b"
    unfolding 2(1) by (rule be_digit [THEN conjunct1, OF assms(2)], rule be_digit [THEN conjunct2, OF assms(2)])
  have "n div 65536 = n div 256 div 256" "n div 16777216 = n div 256 div 256 div 256"
    by (simp_all add: div_mult2_eq [symmetric])
  with 1 2 3 show "n div 16777216 = a" "n div 65536 mod 256 = b"
    "n div 256 mod 256 = c" "n mod 256 = d" by simp_all
  show "n < 4294967296" using assms(1-4) by (simp add: n_def)
qed

lemma put_get_i32: "get_i32 s = Some (w, t) \<Longrightarrow> s = put_i32 w @ t"
proof (cases s rule: get_i32.cases)
  case (1 a b c d r)
  let ?n = "byte a * 16777216 + byte b * 65536 + byte c * 256 + byte d"
  note n = be32_digits [of "byte a" "byte b" "byte c" "byte d", simplified]
  have un: "unat (word_of_nat ?n :: i32) = ?n" using n(1) by (subst unat_of_nat) simp
  assume "get_i32 s = Some (w, t)"
  with 1 have "w = word_of_nat ?n" and "t = r" by simp_all
  with 1 n un show ?thesis by (simp only: put_i32_def Let_def) simp
qed simp_all

lemma unat_small: "n < 2147483648 \<Longrightarrow> unat (word_of_nat n :: i32) = n"
  by (subst unat_of_nat) simp

lemma sless_small:
  "n < 2147483648 \<Longrightarrow> k < 2147483648 \<Longrightarrow>
     (word_of_nat n :: i32) <s word_of_nat k \<longleftrightarrow> n < k"
  by (simp add: word_sless_alt sint_uint take_bit_eq_mod signed_take_bit_int_eq_self
      uint_nat unat_of_nat)

subsection \<open>Startup packets\<close>

definition param_ok :: "string \<times> string \<Rightarrow> bool" where
  "param_ok kv \<longleftrightarrow>
     fst kv \<noteq> [] \<and> NUL \<notin> set (fst kv) \<and> NUL \<notin> set (snd kv)
     \<and> utf8_valid (fst kv) \<and> utf8_valid (snd kv)"

text \<open>The packets a peer can send: well-formed parameters with a user, and within the limit.\<close>

fun startup_ok :: "StartupPacket \<Rightarrow> bool" where
  "startup_ok (Startup ps) \<longleftrightarrow>
     list_all param_ok ps \<and> ''user'' \<in> fst ` set ps
     \<and> 5 + length (encode_params ps) \<le> MAX_STARTUP_LEN"
| "startup_ok _ \<longleftrightarrow> True"

lemma decode_encode_params:
  "list_all param_ok ps \<Longrightarrow> decode_params (encode_params ps @ [NUL]) = Inr ps"
  unfolding decode_params_def
proof (induction ps)
  case Nil
  then show ?case by simp
next
  case (Cons kv ps)
  obtain k v where kv: "kv = (k, v)" by force
  with Cons.prems have ok: "k \<noteq> []" "NUL \<notin> set k" "NUL \<notin> set v" "utf8_valid k" "utf8_valid v"
    by (simp_all add: param_ok_def)
  have "split_on NUL (encode_params (kv # ps) @ [NUL])
      = k # v # split_on NUL (encode_params ps @ [NUL])"
    using ok by (simp add: kv split_on_append)
  with Cons ok show ?case by (simp add: kv from_utf8_def)
qed

lemma decode_encode_startup:
  "startup_ok p \<Longrightarrow> \<exists>b. encode_startup p = put_i32 (word_of_nat (4 + length b)) @ b
     \<and> 4 \<le> length b \<and> length b \<le> MAX_STARTUP_LEN \<and> decode_startup b = Inr p"
proof (cases p)
  case (Startup ps)
  assume "startup_ok p"
  with Startup have ok: "list_all param_ok ps" "''user'' \<in> fst ` set ps"
    "5 + length (encode_params ps) \<le> MAX_STARTUP_LEN" by simp_all
  let ?b = "put_i32 PROTOCOL_VERSION_3 @ encode_params ps @ [NUL]"
  have "list_ex (\<lambda>(k, _). k = ''user'') ps" using ok(2) by (auto simp: list_ex_iff)
  then have "decode_startup ?b = Inr p"
    using Startup decode_encode_params [OF ok(1)] by (simp add: decode_startup_def wire_consts)
  with Startup ok(3) show ?thesis by (intro exI [of _ ?b]) (simp add: Let_def)
next
  case SslRequest
  then show ?thesis
    by (intro exI [of _ "put_i32 SSL_REQUEST_CODE"])
      (simp add: decode_startup_def MAX_STARTUP_LEN_def get_put_i32 [of _ "[]", simplified])
next
  case (CancelRequest pid key)
  then show ?thesis
    by (intro exI [of _ "put_i32 CANCEL_REQUEST_CODE @ put_i32 pid @ put_i32 key"])
      (simp add: decode_startup_def MAX_STARTUP_LEN_def wire_consts get_put_i32 [of _ "[]", simplified])
next
  case GssEncRequest
  then show ?thesis
    by (intro exI [of _ "put_i32 GSSENC_REQUEST_CODE"])
      (simp add: decode_startup_def MAX_STARTUP_LEN_def wire_consts get_put_i32 [of _ "[]", simplified])
qed

text \<open>
  Every startup packet havuz can write is read back unchanged, and the reader leaves the
  bytes after it on the socket.
\<close>

lemma read_encode_startup:
  assumes "startup_ok p"
  shows "read_startup (encode_startup p @ rest) = Inr (p, rest)"
proof -
  from decode_encode_startup [OF assms] obtain b where
    b: "encode_startup p = put_i32 (word_of_nat (4 + length b)) @ b"
    "4 \<le> length b" "length b \<le> MAX_STARTUP_LEN" "decode_startup b = Inr p" by blast
  let ?w = "word_of_nat (4 + length b) :: i32"
  from b(3) have small: "4 + length b < 2147483648" by (simp add: MAX_STARTUP_LEN_def)
  then have "\<not> ?w <s 8" using b(2) sless_small [of "4 + length b" 8] by simp
  moreover have "unat ?w = 4 + length b" using small by (rule unat_small)
  ultimately show ?thesis using b by (simp add: read_startup_def)
qed

subsection \<open>Messages\<close>

lemma read_encode_msg:
  assumes "length (body m) \<le> MAX_MESSAGE_LEN"
  shows "read_msg (encode_msg m @ rest) = Inr (m, rest)"
proof -
  let ?w = "word_of_nat (length (body m) + 4) :: i32"
  from assms have small: "length (body m) + 4 < 2147483648" by (simp add: MAX_MESSAGE_LEN_def)
  then have "\<not> ?w <s 4" using sless_small [of "length (body m) + 4" 4] by simp
  moreover have "unat ?w = length (body m) + 4" using small by (rule unat_small)
  ultimately show ?thesis using assms
    by (cases m) (simp add: read_msg_def encode_msg_def msg_def)
qed

text \<open>
  What the reader accepts it accounts for byte by byte: the message it returns re-encodes
  to exactly the bytes it consumed, and its body respects the limit.
\<close>

lemma read_msg_exact:
  assumes "read_msg io = Inr (m, rest)"
  shows "io = encode_msg m @ rest \<and> length (body m) \<le> MAX_MESSAGE_LEN"
proof -
  from assms obtain t io' len r where io: "io = t # io'" "get_i32 io' = Some (len, r)"
    and ok: "\<not> len <s 4" "unat len - 4 \<le> MAX_MESSAGE_LEN" "unat len - 4 \<le> length r"
    and m: "m = msg t (take (unat len - 4) r)" "rest = drop (unat len - 4) r"
    by (auto simp: read_msg_def Let_def split: list.splits option.splits if_splits prod.splits)
  from put_get_i32 [OF io(2)] have io': "io' = put_i32 len @ r" .
  have "4 \<le> unat len"
  proof (rule ccontr)
    assume "\<not> 4 \<le> unat len"
    then have "(word_of_nat (unat len) :: i32) <s word_of_nat 4"
      by (subst sless_small) simp_all
    with ok(1) show False by simp
  qed
  then have "word_of_nat (length (body m) + 4) = len" using m ok(3) by (simp add: msg_def)
  with io(1) io' m ok show ?thesis by (simp add: encode_msg_def msg_def)
qed

lemma from_as_byte: "from_byte (as_byte s) = Some s"
  by (cases s) (simp_all add: from_byte_def)

interpretation status_byte: codec as_byte from_byte "\<lambda>_. True"
  by unfold_locales (rule from_as_byte)

lemma transaction_status_ready: "transaction_status (ready_for_query s) = Some s"
  by (simp add: transaction_status_def ready_for_query_def msg_def from_as_byte)

lemma transaction_status_tag: "transaction_status m = Some s \<Longrightarrow> m = ready_for_query s"
  by (cases m) (auto simp: transaction_status_def ready_for_query_def msg_def from_byte_def
      split: list.splits if_splits)

interpretation startup_codec: codec encode_startup
  "\<lambda>s. case read_startup s of Inl _ \<Rightarrow> None | Inr (p, _) \<Rightarrow> Some p" startup_ok
  using read_encode_startup [of _ "[]"] by unfold_locales simp

interpretation message_codec: codec encode_msg
  "\<lambda>s. case read_msg s of Inl _ \<Rightarrow> None | Inr (m, _) \<Rightarrow> Some m"
  "\<lambda>m. length (body m) \<le> MAX_MESSAGE_LEN"
  using read_encode_msg [of _ "[]"] by unfold_locales simp

subsection \<open>Error responses\<close>

definition text_ok :: "string \<Rightarrow> bool" where
  "text_ok s \<longleftrightarrow> NUL \<notin> set s \<and> utf8_valid s"

lemma error_fields_loop_field:
  assumes "text_ok v" and "f \<noteq> NUL"
  shows "error_fields_loop ([f] @ v @ [NUL] @ rest) = (f, v) # error_fields_loop rest"
proof -
  have "\<forall>x \<in> set (f # v). \<not> x = NUL" using assms by (auto simp: text_ok_def)
  from position_append_hit [OF this, of NUL rest]
  have "position (\<lambda>b. b = NUL) (f # v @ NUL # rest) = Some (Suc (length v))" by simp
  then show ?thesis
    using assms by (simp add: error_fields_loop.simps [of "f # v @ NUL # rest"]
        lossy_valid_id text_ok_def)
qed

text \<open>
  Every error havuz composes is read back field by field: the severity, its
  non-localised copy, the SQLSTATE code and the message, in that order and complete.
\<close>

theorem error_fields_error_response:
  assumes "text_ok severity" "text_ok code" "text_ok text"
  shows "error_fields (error_response severity code text) =
    [(CHR ''S'', severity), (CHR ''V'', severity), (CHR ''C'', code), (CHR ''M'', text)]"
proof -
  have "error_fields_loop [NUL] = []" by (simp add: error_fields_loop.simps)
  then show ?thesis
    using error_fields_loop_field [OF assms(1), of "CHR ''S''"] error_fields_loop_field [OF assms(1), of "CHR ''V''"]
      error_fields_loop_field [OF assms(2), of "CHR ''C''"] error_fields_loop_field [OF assms(3), of "CHR ''M''"]
    by (simp add: error_fields_def error_response_def msg_def)
qed

theorem error_fields_error_response_witness:
  "error_fields (error_response ''ERROR'' ''25006'' ''read-only'') =
    [(CHR ''S'', ''ERROR''), (CHR ''V'', ''ERROR''), (CHR ''C'', ''25006''), (CHR ''M'', ''read-only'')]"
proof (rule error_fields_error_response)
  show "text_ok ''ERROR''" "text_ok ''25006''" "text_ok ''read-only''" by code_simp+
qed

text \<open>
  C39. Message framing is exact in both directions: the reader returns a message and leaves
  the rest of the socket exactly when the socket holds the message's encoding followed by
  that rest and the body is within the limit. So no reply is ever split or glued.
\<close>

theorem message_framing_exact:
  "read_msg io = Inr (m, rest) \<longleftrightarrow> io = encode_msg m @ rest \<and> length (body m) \<le> MAX_MESSAGE_LEN"
  using read_msg_exact read_encode_msg by blast

text \<open>
  Every startup packet within the limits (an encryption request, a cancellation, or a
  startup message with well-formed parameters that name a user) is read back unchanged, and
  the reader takes not one byte more.
\<close>

theorem startup_packet_roundtrip:
  assumes "startup_ok p"
  shows "read_startup (encode_startup p @ rest) = Inr (p, rest)"
  using assms by (rule read_encode_startup)

theorem startup_packet_roundtrip_witness:
  "read_startup (encode_startup (Startup [(''user'', ''app''), (''database'', ''db'')]) @ ''more'')
     = Inr (Startup [(''user'', ''app''), (''database'', ''db'')], ''more'')"
  by (rule startup_packet_roundtrip) code_simp

end
