(* ===== verification/Proto.thy ===== *)
theory Proto
  imports Prelude
begin

text \<open>
  What crosses the protocol boundary (\<open>havuz-proto/src/error.rs\<close>, \<open>conn.rs\<close>): the errors
  with their retry classification and metric labels, and the outcome of cleaning a
  backend.
\<close>

datatype ErrorKind =
  ConnectionRefused | ConnectionReset | ConnectionAborted | BrokenPipe | TimedOut | OtherIo

datatype ProtoError =
  PIo ErrorKind
  | PProtocol string
  | PAuth string
  | PNoRoute string
  | PBackend string
  | PPoolExhausted string u64
  | PTooManyConnections string
  | PTimeout u64
  | PTls string
  | PShuttingDown
  | PUnsupported string

fun is_retryable :: "ProtoError \<Rightarrow> bool" where
  "is_retryable (PIo k) = (k \<noteq> OtherIo)"
| "is_retryable (PBackend _) = True"
| "is_retryable (PTimeout _) = True"
| "is_retryable _ = False"

fun proto_kind :: "ProtoError \<Rightarrow> string" where
  "proto_kind (PIo _) = ''io''"
| "proto_kind (PProtocol _) = ''protocol''"
| "proto_kind (PAuth _) = ''auth''"
| "proto_kind (PNoRoute _) = ''no_route''"
| "proto_kind (PBackend _) = ''backend''"
| "proto_kind (PPoolExhausted _ _) = ''pool_exhausted''"
| "proto_kind (PTooManyConnections _) = ''too_many_connections''"
| "proto_kind (PTimeout _) = ''timeout''"
| "proto_kind (PTls _) = ''tls''"
| "proto_kind PShuttingDown = ''shutting_down''"
| "proto_kind (PUnsupported _) = ''unsupported''"

text \<open>
  The text of an error. What the standard library prints for an I/O error is the argument
  \<open>io_text\<close>.
\<close>

fun proto_text :: "(ErrorKind \<Rightarrow> string) \<Rightarrow> ProtoError \<Rightarrow> string" where
  "proto_text io_text (PIo k) = ''io: '' @ io_text k"
| "proto_text io_text (PProtocol s) = ''protocol violation: '' @ s"
| "proto_text io_text (PAuth s) = ''authentication failed: '' @ s"
| "proto_text io_text (PNoRoute s) = ''no route: '' @ s"
| "proto_text io_text (PBackend s) = ''backend unavailable: '' @ s"
| "proto_text io_text (PPoolExhausted p w) =
     ''pool '' @ [CHR 0x27] @ p @ [CHR 0x27] @ '' exhausted: no backend available within '' @ decimal (unat w) @ ''ms''"
| "proto_text io_text (PTooManyConnections s) = ''connection limit reached for '' @ s"
| "proto_text io_text (PTimeout ms) = ''timed out after '' @ decimal (unat ms) @ ''ms''"
| "proto_text io_text (PTls s) = ''tls: '' @ s"
| "proto_text io_text PShuttingDown = ''shutting down''"
| "proto_text io_text (PUnsupported s) = s @ '' is not implemented yet''"

datatype ResetOutcome = AlreadyClean | Cleaned | Discard

end
