(* ===== verification/Counters.thy ===== *)
theory Counters
  imports Prelude
begin

text \<open>
  Pool statistics (\<open>havuz-pool/src/counters.rs\<close>). Every counter is an \<open>AtomicU64\<close>, so
  additions and subtractions wrap at 64 bits; the snapshot and the merge of snapshots
  use the same arithmetic. The ratios the dashboard prints are floating point and are
  left out.
\<close>

record Counters =
  c_active :: u64
  c_idle :: u64
  c_waiting :: u64
  c_created_total :: u64
  c_closed_total :: u64
  c_checkout_total :: u64
  c_timeout_total :: u64
  c_connect_error_total :: u64
  c_discarded_total :: u64
  c_unclean_total :: u64
  c_wait_micros_total :: u64
  c_wait_samples :: u64
  c_wait_micros_max :: u64

definition zero_counters :: Counters where
  "zero_counters =
     \<lparr>c_active = 0, c_idle = 0, c_waiting = 0, c_created_total = 0, c_closed_total = 0,
      c_checkout_total = 0, c_timeout_total = 0, c_connect_error_total = 0,
      c_discarded_total = 0, c_unclean_total = 0, c_wait_micros_total = 0,
      c_wait_samples = 0, c_wait_micros_max = 0\<rparr>"

definition record_wait :: "u64 \<Rightarrow> Counters \<Rightarrow> Counters" where
  "record_wait micros c =
     c\<lparr>c_wait_micros_total := c_wait_micros_total c + micros,
       c_wait_samples := c_wait_samples c + 1,
       c_wait_micros_max := max (c_wait_micros_max c) micros\<rparr>"

record WaitStats =
  w_samples :: u64
  w_mean_micros :: u64
  w_max_micros :: u64

record PoolSnapshot =
  sn_name :: string
  sn_status :: string
  sn_active :: u64
  sn_idle :: u64
  sn_open :: u64
  sn_waiting :: u64
  sn_max_size :: u32
  sn_max_client_connections :: u32
  sn_created_total :: u64
  sn_closed_total :: u64
  sn_checkout_total :: u64
  sn_timeout_total :: u64
  sn_connect_error_total :: u64
  sn_discarded_total :: u64
  sn_unclean_total :: u64
  sn_wait :: WaitStats

definition counters_snapshot :: "Counters \<Rightarrow> string \<Rightarrow> u32 \<Rightarrow> u32 \<Rightarrow> string \<Rightarrow> PoolSnapshot" where
  "counters_snapshot c name max_size max_clients status =
     \<lparr>sn_name = name, sn_status = status,
      sn_active = c_active c, sn_idle = c_idle c, sn_open = c_active c + c_idle c,
      sn_waiting = c_waiting c, sn_max_size = max_size,
      sn_max_client_connections = max_clients,
      sn_created_total = c_created_total c, sn_closed_total = c_closed_total c,
      sn_checkout_total = c_checkout_total c, sn_timeout_total = c_timeout_total c,
      sn_connect_error_total = c_connect_error_total c,
      sn_discarded_total = c_discarded_total c, sn_unclean_total = c_unclean_total c,
      sn_wait = \<lparr>w_samples = c_wait_samples c,
        w_mean_micros = (if c_wait_samples c = 0 then 0
                         else c_wait_micros_total c div c_wait_samples c),
        w_max_micros = c_wait_micros_max c\<rparr>\<rparr>"

definition is_exhausted :: "PoolSnapshot \<Rightarrow> bool" where
  "is_exhausted s \<longleftrightarrow> sn_waiting s > 0 \<and> sn_active s \<ge> ucast (sn_max_size s)"

definition merge_wait :: "WaitStats \<Rightarrow> WaitStats \<Rightarrow> WaitStats" where
  "merge_wait a b =
     (let total_micros = w_mean_micros a * w_samples a + w_mean_micros b * w_samples b;
          samples = w_samples a + w_samples b
      in \<lparr>w_samples = samples,
          w_mean_micros = (if samples = 0 then 0 else total_micros div samples),
          w_max_micros = max (w_max_micros a) (w_max_micros b)\<rparr>)"

definition snapshot_merge :: "PoolSnapshot \<Rightarrow> PoolSnapshot \<Rightarrow> PoolSnapshot" where
  "snapshot_merge a b =
     a\<lparr>sn_active := sn_active a + sn_active b,
       sn_idle := sn_idle a + sn_idle b,
       sn_open := sn_open a + sn_open b,
       sn_waiting := sn_waiting a + sn_waiting b,
       sn_created_total := sn_created_total a + sn_created_total b,
       sn_closed_total := sn_closed_total a + sn_closed_total b,
       sn_checkout_total := sn_checkout_total a + sn_checkout_total b,
       sn_timeout_total := sn_timeout_total a + sn_timeout_total b,
       sn_connect_error_total := sn_connect_error_total a + sn_connect_error_total b,
       sn_discarded_total := sn_discarded_total a + sn_discarded_total b,
       sn_unclean_total := sn_unclean_total a + sn_unclean_total b,
       sn_max_size := saturating_add (sn_max_size a) (sn_max_size b),
       sn_wait := merge_wait (sn_wait a) (sn_wait b)\<rparr>"

text \<open>A snapshot is coherent when its total is the sum of its parts; merging keeps it so.\<close>

definition snapshot_ok :: "PoolSnapshot \<Rightarrow> bool" where
  "snapshot_ok s \<longleftrightarrow> sn_open s = sn_active s + sn_idle s"

lemma snapshot_ok_counters: "snapshot_ok (counters_snapshot c n m k st)"
  by (simp add: snapshot_ok_def counters_snapshot_def)

lemma snapshot_ok_merge: "snapshot_ok a \<Longrightarrow> snapshot_ok b \<Longrightarrow> snapshot_ok (snapshot_merge a b)"
  by (simp add: snapshot_ok_def snapshot_merge_def)

text \<open>
  The merged mean weighs each side by its samples: while the sums fit in 64 bits it lies
  between the two means, whichever side has more samples.
\<close>

lemma weighted_mean_bounds:
  fixes m n :: nat
  assumes "0 < m + n"
  shows "min a b \<le> (a * m + b * n) div (m + n)" and "(a * m + b * n) div (m + n) \<le> max a b"
proof -
  have "min a b * (m + n) \<le> a * m + b * n"
    by (simp add: add_mult_distrib2 add_mono)
  then show "min a b \<le> (a * m + b * n) div (m + n)"
    using assms by (simp add: less_eq_div_iff_mult_less_eq)
  have "a * m + b * n \<le> max a b * (m + n)"
    by (simp add: add_mult_distrib2 add_mono)
  then show "(a * m + b * n) div (m + n) \<le> max a b"
    using assms by (metis div_le_mono nonzero_mult_div_cancel_right not_gr_zero)
qed

end
