(* ===== verification/Pool.thy ===== *)
theory Pool
  imports Counters Proto
begin

text \<open>
  The pool engine (\<open>havuz-pool/src/pool.rs\<close>). Every stretch of an operation between two
  suspension points or two touches of shared state is one definition (\<open>acq_enter\<close>,
  \<open>acq_pop\<close>, \<open>drop_push\<close>, ...); the operations of the source are their compositions. The
  same definitions are the moves of the concurrent machine of \<open>Pool_Concurrent\<close>, so what
  is proved there about interleavings is about this code. Atomic additions to different
  statistics counters in a row are taken together.
\<close>

section \<open>State\<close>

datatype PoolStatus = Active | Paused | Draining | Closed

fun status_as_str :: "PoolStatus \<Rightarrow> string" where
  "status_as_str Active = ''active''"
| "status_as_str Paused = ''paused''"
| "status_as_str Draining = ''draining''"
| "status_as_str Closed = ''closed''"

definition status_from_u8 :: "u8 \<Rightarrow> PoolStatus" where
  "status_from_u8 v =
     (if v = 0 then Active else if v = 1 then Paused else if v = 2 then Draining else Closed)"

fun status_as_u8 :: "PoolStatus \<Rightarrow> u8" where
  "status_as_u8 Active = 0"
| "status_as_u8 Paused = 1"
| "status_as_u8 Draining = 2"
| "status_as_u8 Closed = 3"

lemma status_from_as_u8 [simp]: "status_from_u8 (status_as_u8 s) = s"
  by (cases s) (simp_all add: status_from_u8_def)

interpretation status_code: codec status_as_u8 "\<lambda>v. Some (status_from_u8 v)" "\<lambda>_. True"
  by unfold_locales simp

datatype PoolError =
  Timeout string u64
  | Unavailable string string
  | Connect string ProtoError

fun pool_error_kind :: "PoolError \<Rightarrow> string" where
  "pool_error_kind (Timeout _ _) = ''timeout''"
| "pool_error_kind (Unavailable _ _) = ''unavailable''"
| "pool_error_kind (Connect _ _) = ''connect''"

fun pool_error_text :: "(ErrorKind \<Rightarrow> string) \<Rightarrow> PoolError \<Rightarrow> string" where
  "pool_error_text io_text (Timeout pool waited_ms) =
     ''pool '' @ [CHR 0x27] @ pool @ [CHR 0x27] @ '' exhausted: waited '' @ decimal (unat waited_ms) @ ''ms for a backend''"
| "pool_error_text io_text (Unavailable pool status) = ''pool '' @ [CHR 0x27] @ pool @ [CHR 0x27] @ '' is '' @ status"
| "pool_error_text io_text (Connect pool source) =
     ''pool '' @ [CHR 0x27] @ pool @ [CHR 0x27] @ '': cannot open backend connection: '' @ proto_text io_text source"

record PoolLimits =
  max_size :: u32
  min_idle :: u32
  max_client_connections :: u32
  queue_timeout :: duration
  connect_timeout :: duration
  idle_timeout :: duration
  max_lifetime :: duration
  idle_in_transaction_timeout :: duration

text \<open>
  A backend connection as the pool sees it: when it was opened and what \<open>is_broken\<close>
  answers now. The identifier tells connections apart.
\<close>

record Conn =
  conn_id :: nat
  opened_at :: time
  is_broken :: bool

record Slot =
  slot_conn :: Conn
  idle_since :: time

text \<open>
  \<open>p_permits\<close> are the free permits of the semaphore and \<open>p_sem_closed\<close> whether it was
  closed; \<open>p_closer\<close> are the connections handed to the task that closes them.
\<close>

record PoolState =
  p_name :: string
  p_limits :: PoolLimits
  p_permits :: nat
  p_sem_closed :: bool
  p_idle :: "Slot list"
  p_counters :: Counters
  p_status :: u8
  p_closer :: "Conn list"

definition new_pool :: "string \<Rightarrow> PoolLimits \<Rightarrow> PoolState" where
  "new_pool name lim =
     \<lparr>p_name = name, p_limits = lim, p_permits = unat (max_size lim), p_sem_closed = False,
      p_idle = [], p_counters = zero_counters, p_status = status_as_u8 Active,
      p_closer = []\<rparr>"

definition pool_status :: "PoolState \<Rightarrow> PoolStatus" where
  "pool_status st = status_from_u8 (p_status st)"

definition count :: "(Counters \<Rightarrow> Counters) \<Rightarrow> PoolState \<Rightarrow> PoolState" where
  "count f st = st\<lparr>p_counters := f (p_counters st)\<rparr>"

definition retire :: "Conn \<Rightarrow> PoolState \<Rightarrow> PoolState" where
  "retire conn st =
     (count (\<lambda>c. c\<lparr>c_closed_total := c_closed_total c + 1\<rparr>) st)\<lparr>p_closer := p_closer st @ [conn]\<rparr>"

definition is_expired :: "PoolState \<Rightarrow> time \<Rightarrow> Conn \<Rightarrow> bool" where
  "is_expired st now conn \<longleftrightarrow>
     max_lifetime (p_limits st) \<noteq> 0 \<and> now - opened_at conn \<ge> max_lifetime (p_limits st)"

definition pool_snapshot :: "PoolState \<Rightarrow> PoolSnapshot" where
  "pool_snapshot st =
     counters_snapshot (p_counters st) (p_name st) (max_size (p_limits st))
       (max_client_connections (p_limits st)) (status_as_str (pool_status st))"

section \<open>Taking a backend\<close>

subsection \<open>The stretches of \<open>acquire\<close>\<close>

definition acq_enter :: "PoolState \<Rightarrow> PoolError + PoolState" where
  "acq_enter st =
     (if pool_status st \<noteq> Active
      then Inl (Unavailable (p_name st) (status_as_str (pool_status st)))
      else Inr (count (\<lambda>c. c\<lparr>c_waiting := c_waiting c + 1\<rparr>) st))"

text \<open>The three ways the wait for a permit ends, and its cancellation; all drop the guard.\<close>

definition leave_wait :: "PoolState \<Rightarrow> PoolState" where
  "leave_wait st = count (\<lambda>c. c\<lparr>c_waiting := c_waiting c - 1\<rparr>) st"

definition acq_permit :: "duration \<Rightarrow> PoolState \<Rightarrow> PoolState" where
  "acq_permit waited st =
     (let st = leave_wait st
      in count (record_wait (word_of_nat (as_micros waited))) (st\<lparr>p_permits := p_permits st - 1\<rparr>))"

definition acq_timeout :: "duration \<Rightarrow> PoolState \<Rightarrow> PoolState" where
  "acq_timeout waited st =
     count (record_wait (word_of_nat (as_micros waited)))
       (count (\<lambda>c. c\<lparr>c_timeout_total := c_timeout_total c + 1\<rparr>) (leave_wait st))"

text \<open>One round of the reuse loop: the pop under the lock, then the verdict on the slot.\<close>

definition acq_pop :: "PoolState \<Rightarrow> (Slot \<times> PoolState) option" where
  "acq_pop st = (case p_idle st of [] \<Rightarrow> None | s # rest \<Rightarrow> Some (s, st\<lparr>p_idle := rest\<rparr>))"

definition unfit :: "PoolState \<Rightarrow> time \<Rightarrow> Conn \<Rightarrow> bool" where
  "unfit st now conn \<longleftrightarrow> is_broken conn \<or> is_expired st now conn"

definition checkout_conn :: "PoolState \<Rightarrow> PoolState" where
  "checkout_conn st =
     count (\<lambda>c. c\<lparr>c_active := c_active c + 1, c_checkout_total := c_checkout_total c + 1\<rparr>) st"

definition acq_settle :: "time \<Rightarrow> Slot \<Rightarrow> PoolState \<Rightarrow> Conn option \<times> PoolState" where
  "acq_settle now s st =
     (let st = count (\<lambda>c. c\<lparr>c_idle := c_idle c - 1\<rparr>) st in
      if unfit st now (slot_conn s)
      then (None, retire (slot_conn s)
              (count (\<lambda>c. c\<lparr>c_discarded_total := c_discarded_total c + 1\<rparr>) st))
      else (Some (slot_conn s), checkout_conn st))"

definition release_permit :: "PoolState \<Rightarrow> PoolState" where
  "release_permit st = st\<lparr>p_permits := p_permits st + 1\<rparr>"

definition connected :: "PoolState \<Rightarrow> PoolState" where
  "connected st =
     checkout_conn (count (\<lambda>c. c\<lparr>c_created_total := c_created_total c + 1\<rparr>) st)"

definition connect_failed :: "PoolState \<Rightarrow> PoolState" where
  "connect_failed st =
     release_permit (count (\<lambda>c. c\<lparr>c_connect_error_total := c_connect_error_total c + 1\<rparr>) st)"

subsection \<open>\<open>acquire\<close>\<close>

text \<open>
  The answers of the world during one \<open>acquire\<close> that is not interleaved with anything
  else: the clock, how long the wait took, and how opening a connection ends.
\<close>

datatype ConnectResult = ConnectOk Conn | ConnectErr ProtoError | ConnectTimeout

record AcquireEnv =
  env_now :: time
  env_waited :: duration
  env_connect :: ConnectResult

text \<open>The reuse loop; each round removes a slot from the queue.\<close>

function reuse_loop :: "time \<Rightarrow> PoolState \<Rightarrow> Conn option \<times> PoolState" where
  "reuse_loop now st =
     (case acq_pop st of
        None \<Rightarrow> (None, st)
      | Some (s, st1) \<Rightarrow>
          (case acq_settle now s st1 of
             (Some conn, st2) \<Rightarrow> (Some conn, st2)
           | (None, st2) \<Rightarrow> reuse_loop now st2))"
  by pat_completeness auto
termination
  by (relation "measure (\<lambda>(now, st). length (p_idle st))")
    (auto simp: acq_pop_def acq_settle_def retire_def count_def Let_def split: list.splits if_splits)

declare reuse_loop.simps [simp del]

text \<open>
  With nothing running beside it, \<open>acquire\<close> gets its permit at once when one is free,
  and otherwise waits out \<open>queue_timeout\<close>.
\<close>

definition acquire :: "AcquireEnv \<Rightarrow> PoolState \<Rightarrow> (PoolError + Conn) \<times> PoolState" where
  "acquire env st =
     (case acq_enter st of
        Inl e \<Rightarrow> (Inl e, st)
      | Inr st1 \<Rightarrow>
          if p_sem_closed st1 then (Inl (Unavailable (p_name st) ''closed''), leave_wait st1)
          else if p_permits st1 = 0 then
            (Inl (Timeout (p_name st) (word_of_nat (as_millis (env_waited env)))),
             acq_timeout (env_waited env) st1)
          else
            (case reuse_loop (env_now env) (acq_permit (env_waited env) st1) of
               (Some conn, st2) \<Rightarrow> (Inr conn, st2)
             | (None, st2) \<Rightarrow>
                 (case env_connect env of
                    ConnectOk conn \<Rightarrow> (Inr conn, connected st2)
                  | ConnectErr e \<Rightarrow> (Inl (Connect (p_name st) e), connect_failed st2)
                  | ConnectTimeout \<Rightarrow>
                      (Inl (Connect (p_name st)
                         (PTimeout (word_of_nat (as_millis (connect_timeout (p_limits st)))))),
                       connect_failed st2))))"

section \<open>Giving a backend back\<close>

record Checkout =
  co_conn :: Conn
  co_discard :: bool

definition checkout_discard :: "Checkout \<Rightarrow> Checkout" where
  "checkout_discard co = co\<lparr>co_discard := True\<rparr>"

text \<open>\<open>Checkout::recycle\<close>; a reset that fails is a reset that refused.\<close>

definition recycle :: "(ProtoError + ResetOutcome) \<Rightarrow> Checkout \<Rightarrow> PoolState
    \<Rightarrow> ResetOutcome \<times> Checkout \<times> PoolState" where
  "recycle answer co st =
     (let outcome = (case answer of Inr r \<Rightarrow> r | Inl _ \<Rightarrow> Discard) in
      if outcome = Discard
      then (outcome, checkout_discard co,
            count (\<lambda>c. c\<lparr>c_unclean_total := c_unclean_total c + 1\<rparr>) st)
      else (outcome, co, st))"

text \<open>
  \<open>Drop for Checkout\<close> up to the push: either the connection is retired (\<open>None\<close>) or it is
  on its way to the idle queue. The permit is a field of the checkout and is given back
  after \<open>drop\<close> has run.
\<close>

definition drop_begin :: "time \<Rightarrow> Checkout \<Rightarrow> PoolState \<Rightarrow> Conn option \<times> PoolState" where
  "drop_begin now co st =
     (let conn = co_conn co;
          st1 = count (\<lambda>c. c\<lparr>c_active := c_active c - 1\<rparr>) st;
          bad = (co_discard co \<or> is_broken conn \<or> is_expired st1 now conn);
          draining = (pool_status st1 = Draining \<or> pool_status st1 = Closed)
      in if bad \<or> draining
         then (None, retire conn
                 (if bad then count (\<lambda>c. c\<lparr>c_discarded_total := c_discarded_total c + 1\<rparr>) st1
                  else st1))
         else (Some conn, count (\<lambda>c. c\<lparr>c_idle := c_idle c + 1\<rparr>) st1))"

definition drop_push :: "time \<Rightarrow> Conn \<Rightarrow> PoolState \<Rightarrow> PoolState" where
  "drop_push now conn st = st\<lparr>p_idle := p_idle st @ [\<lparr>slot_conn = conn, idle_since = now\<rparr>]\<rparr>"

definition drop_checkout :: "time \<Rightarrow> Checkout \<Rightarrow> PoolState \<Rightarrow> PoolState" where
  "drop_checkout now co st =
     (case drop_begin now co st of
        (None, st1) \<Rightarrow> release_permit st1
      | (Some conn, st1) \<Rightarrow> release_permit (drop_push now conn st1))"

section \<open>Warm-up, status changes, reaping\<close>

fun warmup_loop :: "AcquireEnv list \<Rightarrow> Conn list \<Rightarrow> PoolState \<Rightarrow> (PoolError + Conn list) \<times> Conn list \<times> PoolState" where
  "warmup_loop [] held st = (Inr held, held, st)"
| "warmup_loop (e # es) held st =
     (case acquire e st of
        (Inl err, st1) \<Rightarrow> (Inl err, held, st1)
      | (Inr conn, st1) \<Rightarrow> warmup_loop es (held @ [conn]) st1)"

definition drop_all :: "time \<Rightarrow> Conn list \<Rightarrow> PoolState \<Rightarrow> PoolState" where
  "drop_all now held st =
     foldl (\<lambda>st conn. drop_checkout now \<lparr>co_conn = conn, co_discard = False\<rparr> st) st held"

text \<open>
  \<open>warmup\<close> holds \<open>min_idle\<close> checkouts at once and then lets go of all of them; \<open>envs i\<close>
  is what the world answers to the \<open>i\<close>-th. A failure drops the ones held so far.
\<close>

definition warmup :: "(nat \<Rightarrow> AcquireEnv) \<Rightarrow> time \<Rightarrow> PoolState \<Rightarrow> (PoolError + nat) \<times> PoolState" where
  "warmup envs now st =
     (case warmup_loop (map envs [0..<unat (min_idle (p_limits st))]) [] st of
        (Inl e, held, st1) \<Rightarrow> (Inl e, drop_all now held st1)
      | (Inr held, _, st1) \<Rightarrow> (Inr (length held), drop_all now held st1))"

definition set_status :: "PoolStatus \<Rightarrow> PoolState \<Rightarrow> PoolState" where
  "set_status s st = st\<lparr>p_status := status_as_u8 s\<rparr>"

definition pause :: "PoolState \<Rightarrow> PoolState" where
  "pause st = set_status Paused st"

definition resume :: "PoolState \<Rightarrow> PoolState" where
  "resume st = set_status Active st"

text \<open>The part of \<open>close_idle\<close> under the lock: the slots beyond \<open>keep\<close>, from the back.\<close>

definition close_idle_take :: "nat \<Rightarrow> PoolState \<Rightarrow> Conn list \<times> PoolState" where
  "close_idle_take keep st =
     (rev (map slot_conn (drop keep (p_idle st))), st\<lparr>p_idle := take keep (p_idle st)\<rparr>)"

definition retire_all :: "Conn list \<Rightarrow> PoolState \<Rightarrow> PoolState" where
  "retire_all conns st = foldl (\<lambda>st conn. retire conn st) st conns"

definition close_idle_finish :: "Conn list \<Rightarrow> PoolState \<Rightarrow> PoolState" where
  "close_idle_finish conns st =
     retire_all conns (count (\<lambda>c. c\<lparr>c_idle := c_idle c - word_of_nat (length conns)\<rparr>) st)"

definition close_idle :: "nat \<Rightarrow> PoolState \<Rightarrow> nat \<times> PoolState" where
  "close_idle keep st =
     (case close_idle_take keep st of (conns, st1) \<Rightarrow> (length conns, close_idle_finish conns st1))"

definition drain :: "PoolState \<Rightarrow> nat \<times> PoolState" where
  "drain st = close_idle 0 (set_status Draining st)"

definition close_sem :: "PoolState \<Rightarrow> PoolState" where
  "close_sem st = st\<lparr>p_sem_closed := True\<rparr>"

definition close_pool :: "PoolState \<Rightarrow> PoolState" where
  "close_pool st = snd (close_idle 0 (close_sem (set_status Closed st)))"

text \<open>
  The scan of \<open>reap\<close> under the lock: unusable connections go regardless, idle ones while
  the budget above \<open>min_idle\<close> lasts. Returns the retired connections and the kept slots.
\<close>

fun reap_scan :: "PoolState \<Rightarrow> time \<Rightarrow> nat \<Rightarrow> Slot list \<Rightarrow> Conn list \<times> Slot list" where
  "reap_scan st now budget [] = ([], [])"
| "reap_scan st now budget (s # ss) =
     (if unfit st now (slot_conn s) then
        (case reap_scan st now budget ss of (ret, kept) \<Rightarrow> (slot_conn s # ret, kept))
      else if idle_timeout (p_limits st) \<noteq> 0 \<and> now - idle_since s \<ge> idle_timeout (p_limits st)
              \<and> budget > 0 then
        (case reap_scan st now (budget - 1) ss of (ret, kept) \<Rightarrow> (slot_conn s # ret, kept))
      else
        (case reap_scan st now budget ss of (ret, kept) \<Rightarrow> (ret, s # kept)))"

definition reap_take :: "time \<Rightarrow> PoolState \<Rightarrow> Conn list \<times> PoolState" where
  "reap_take now st =
     (case reap_scan st now (length (p_idle st) - unat (min_idle (p_limits st))) (p_idle st) of
        (ret, kept) \<Rightarrow> (ret, st\<lparr>p_idle := kept\<rparr>))"

definition reap_finish :: "Conn list \<Rightarrow> PoolState \<Rightarrow> PoolState" where
  "reap_finish conns st =
     (if length conns > 0 then
        retire_all conns
          (count (\<lambda>c. c\<lparr>c_idle := c_idle c - word_of_nat (length conns),
                        c_discarded_total := c_discarded_total c + word_of_nat (length conns)\<rparr>) st)
      else st)"

definition reap :: "time \<Rightarrow> PoolState \<Rightarrow> nat \<times> PoolState" where
  "reap now st =
     (case reap_take now st of (conns, st1) \<Rightarrow> (length conns, reap_finish conns st1))"

text \<open>One tick of the reaper task: it stops for good once the pool is closed.\<close>

definition reaper_tick :: "time \<Rightarrow> PoolState \<Rightarrow> PoolState option" where
  "reaper_tick now st = (if pool_status st = Closed then None else Some (snd (reap now st)))"

lemmas pool_defs [op_defs] =
  count_def retire_def leave_wait_def acq_permit_def acq_timeout_def acq_settle_def
  checkout_conn_def connected_def connect_failed_def release_permit_def drop_begin_def
  drop_push_def set_status_def close_sem_def record_wait_def

section \<open>What the operations do to each part of the state\<close>

lemma count_simps [simp]:
  "p_name (count f st) = p_name st" "p_limits (count f st) = p_limits st"
  "p_permits (count f st) = p_permits st" "p_sem_closed (count f st) = p_sem_closed st"
  "p_idle (count f st) = p_idle st" "p_status (count f st) = p_status st"
  "p_closer (count f st) = p_closer st" "p_counters (count f st) = f (p_counters st)"
  by (simp_all add: count_def)

lemma retire_simps [simp]:
  "p_name (retire c st) = p_name st" "p_limits (retire c st) = p_limits st"
  "p_permits (retire c st) = p_permits st" "p_sem_closed (retire c st) = p_sem_closed st"
  "p_idle (retire c st) = p_idle st" "p_status (retire c st) = p_status st"
  "p_closer (retire c st) = p_closer st @ [c]"
  "p_counters (retire c st) =
     (p_counters st)\<lparr>c_closed_total := c_closed_total (p_counters st) + 1\<rparr>"
  by (simp_all add: retire_def)

lemma retire_all_simps [simp]:
  "p_limits (retire_all cs st) = p_limits st" "p_permits (retire_all cs st) = p_permits st"
  "p_sem_closed (retire_all cs st) = p_sem_closed st" "p_idle (retire_all cs st) = p_idle st"
  "p_status (retire_all cs st) = p_status st" "p_closer (retire_all cs st) = p_closer st @ cs"
  "p_counters (retire_all cs st) =
     (p_counters st)\<lparr>c_closed_total := c_closed_total (p_counters st) + word_of_nat (length cs)\<rparr>"
  unfolding retire_all_def by (induction cs arbitrary: st) (simp_all add: ac_simps)

lemma is_expired_cong: "p_limits st = p_limits st' \<Longrightarrow> is_expired st now c = is_expired st' now c"
  by (simp add: is_expired_def)

lemma unfit_cong: "p_limits st = p_limits st' \<Longrightarrow> unfit st now c = unfit st' now c"
  by (simp add: unfit_def is_expired_def)

lemma unfit_count [simp]: "unfit (count f st) now c = unfit st now c"
  by (rule unfit_cong) simp

lemma pool_status_cong: "p_status st = p_status st' \<Longrightarrow> pool_status st = pool_status st'"
  by (simp add: pool_status_def)

section \<open>Reuse\<close>

text \<open>
  What the reuse loop leaves of the queue: it passes over the unfit slots at the front,
  retires them, and takes the first fit one.
\<close>

lemma acq_settle_unfit:
  assumes "unfit st now (slot_conn s)"
  shows "\<exists>st'. acq_settle now s st = (None, st') \<and> p_idle st' = p_idle st
     \<and> p_limits st' = p_limits st \<and> p_closer st' = p_closer st @ [slot_conn s]
     \<and> p_permits st' = p_permits st \<and> p_status st' = p_status st"
  using assms by (simp add: acq_settle_def Let_def)

lemma acq_settle_fit:
  assumes "\<not> unfit st now (slot_conn s)"
  shows "\<exists>st'. acq_settle now s st = (Some (slot_conn s), st') \<and> p_idle st' = p_idle st
     \<and> p_limits st' = p_limits st \<and> p_closer st' = p_closer st
     \<and> p_permits st' = p_permits st \<and> p_status st' = p_status st"
  using assms by (simp add: acq_settle_def Let_def checkout_conn_def)

text \<open>
  Reuse is first come, first served among the fit: the loop hands out the first idle
  connection that is neither broken nor past its lifetime, retires exactly the ones before
  it, leaves the ones after it alone, and touches no permit.
\<close>

theorem reuse_loop_first_fit:
  "(let bad = takeWhile (\<lambda>s. unfit st now (slot_conn s)) (p_idle st);
        rest = dropWhile (\<lambda>s. unfit st now (slot_conn s)) (p_idle st);
        (r, st') = reuse_loop now st
    in r = (case rest of [] \<Rightarrow> None | s # _ \<Rightarrow> Some (slot_conn s))
       \<and> p_idle st' = tl rest
       \<and> p_closer st' = p_closer st @ map slot_conn bad
       \<and> p_permits st' = p_permits st)"
proof (induction now st rule: reuse_loop.induct)
  case (1 now st)
  show ?case
  proof (cases "p_idle st")
    case Nil
    then show ?thesis by (simp add: reuse_loop.simps [of now st] acq_pop_def)
  next
    case (Cons s rest)
    define st1 where "st1 = st\<lparr>p_idle := rest\<rparr>"
    have pop: "acq_pop st = Some (s, st1)" by (simp add: acq_pop_def Cons st1_def)
    have lim: "unfit st1 now c = unfit st now c" for c by (rule unfit_cong) (simp add: st1_def)
    show ?thesis
    proof (cases "unfit st now (slot_conn s)")
      case False
      with lim obtain st' where "acq_settle now s st1 = (Some (slot_conn s), st')"
        "p_idle st' = rest" "p_closer st' = p_closer st" "p_permits st' = p_permits st"
        using acq_settle_fit [of st1 now s] by (auto simp: st1_def)
      then show ?thesis
        using False by (simp add: reuse_loop.simps [of now st] pop Cons)
    next
      case True
      with lim obtain st' where st': "acq_settle now s st1 = (None, st')" "p_idle st' = rest"
        "p_limits st' = p_limits st" "p_closer st' = p_closer st @ [slot_conn s]"
        "p_permits st' = p_permits st"
        using acq_settle_unfit [of st1 now s] by (auto simp: st1_def)
      have eq: "unfit st' now c = unfit st now c" for c by (rule unfit_cong) (simp add: st'(3))
      from "1.IH" [OF pop refl st'(1) [symmetric] refl] True st'
      show ?thesis
        by (simp add: reuse_loop.simps [of now st] pop Cons eq Let_def split: prod.splits)
    qed
  qed
qed

section \<open>Reaping\<close>

lemma reap_scan_mset:
  "reap_scan st now b ss = (ret, kept) \<Longrightarrow>
     mset ret + mset (map slot_conn kept) = mset (map slot_conn ss)"
  by (induction ss arbitrary: b ret kept) (auto split: if_splits prod.splits)

lemma reap_scan_fit:
  "reap_scan st now b ss = (ret, kept) \<Longrightarrow>
     set kept \<subseteq> set ss \<and> (\<forall>s \<in> set kept. \<not> unfit st now (slot_conn s))"
  by (induction ss arbitrary: b ret kept) (fastforce split: if_splits prod.splits)+

text \<open>The scan gives up at most its budget of fit connections.\<close>

lemma reap_scan_budget:
  "reap_scan st now b ss = (ret, kept) \<Longrightarrow>
     length (filter (\<lambda>s. \<not> unfit st now (slot_conn s)) ss) \<le> length kept + b"
proof (induction ss arbitrary: b ret kept)
  case (Cons s ss)
  show ?case
  proof (cases "unfit st now (slot_conn s)")
    case True
    with Cons show ?thesis by (auto split: prod.splits)
  next
    case False
    with Cons.prems Cons.IH show ?thesis by (fastforce split: if_splits prod.splits)
  qed
qed simp

text \<open>
  Reaping neither loses nor invents a connection, keeps only fit ones in the queue, and,
  when no idle connection is broken or too old, keeps at least \<open>min_idle\<close> of them.
\<close>

theorem reap_partition:
  assumes "reap now st = (k, st')"
  shows "\<exists>ret. k = length ret \<and> p_closer st' = p_closer st @ ret
    \<and> mset ret + mset (map slot_conn (p_idle st')) = mset (map slot_conn (p_idle st))
    \<and> (\<forall>s \<in> set (p_idle st'). \<not> unfit st now (slot_conn s))
    \<and> ((\<forall>s \<in> set (p_idle st). \<not> unfit st now (slot_conn s)) \<longrightarrow>
         min (length (p_idle st)) (unat (min_idle (p_limits st))) \<le> length (p_idle st'))"
proof -
  let ?b = "length (p_idle st) - unat (min_idle (p_limits st))"
  obtain ret kept where scan: "reap_scan st now ?b (p_idle st) = (ret, kept)" by force
  have st': "k = length ret" "p_idle st' = kept" "p_closer st' = p_closer st @ ret"
    using assms scan by (auto simp: reap_def reap_take_def reap_finish_def split: if_splits)
  have "min (length (p_idle st)) (unat (min_idle (p_limits st))) \<le> length kept"
    if "\<forall>s \<in> set (p_idle st). \<not> unfit st now (slot_conn s)"
    using reap_scan_budget [OF scan] that by (simp add: filter_id_conv [THEN iffD2])
  with st' reap_scan_mset [OF scan] reap_scan_fit [OF scan] show ?thesis by auto
qed

definition reap_example :: PoolState where
  "reap_example =
     (new_pool ''app'' \<lparr>max_size = 3, min_idle = 1, max_client_connections = 9, queue_timeout = 1,
         connect_timeout = 1, idle_timeout = 5, max_lifetime = 0, idle_in_transaction_timeout = 0\<rparr>)
       \<lparr>p_idle := [\<lparr>slot_conn = \<lparr>conn_id = 1, opened_at = 0, is_broken = False\<rparr>, idle_since = 0\<rparr>,
                 \<lparr>slot_conn = \<lparr>conn_id = 2, opened_at = 0, is_broken = False\<rparr>, idle_since = 0\<rparr>]\<rparr>"

theorem reap_partition_witness:
  "fst (reap 9 reap_example) = 1 \<and> 1 \<le> length (p_idle (snd (reap 9 reap_example)))"
proof -
  have "fst (reap 9 reap_example) = 1"
    by (simp add: reap_def reap_take_def reap_finish_def reap_example_def new_pool_def unfit_def is_expired_def)
  moreover have "\<forall>s \<in> set (p_idle reap_example). \<not> unfit reap_example 9 (slot_conn s)"
    "min (length (p_idle reap_example)) (unat (min_idle (p_limits reap_example))) = 1"
    by (simp_all add: reap_example_def new_pool_def unfit_def is_expired_def)
  ultimately show ?thesis using reap_partition [of 9 reap_example, OF prod.collapse [symmetric]] by auto
qed

text \<open>
  The budget above \<open>min_idle\<close> counts the unfit connections too: with one broken and one
  healthy idle connection and \<open>min_idle\<close> one, both are gone after one tick.
\<close>

lemma reap_can_go_below_min_idle:
  "let p = reap_example\<lparr>p_idle := (p_idle reap_example)[0 := \<lparr>slot_conn = \<lparr>conn_id = 1, opened_at = 0, is_broken = True\<rparr>, idle_since = 0\<rparr>]\<rparr>
   in p_idle (snd (reap 9 p)) = [] \<and> unat (min_idle (p_limits p)) = 1"
  by (simp add: reap_def reap_take_def reap_finish_def reap_example_def new_pool_def unfit_def is_expired_def Let_def)

end
