(* ===== verification/Pool_Concurrent.thy ===== *)
theory Pool_Concurrent
  imports Pool
begin

text \<open>
  The pool under concurrency. Any number of tasks run \<open>acquire\<close>, hold a checkout, drop it,
  reap, drain or close, interleaved at every point where the source suspends or touches
  the queue, the semaphore or the status; a task is where it stands in its operation. An
  acquiring task may also be cancelled where it awaits, which is what the waiting guard is
  for. The invariant accounts for every permit and every connection, and gives the
  pooler's central promise: it never holds more than \<open>max_size\<close> connections against the
  database, whatever the interleaving.
\<close>

section \<open>Tasks\<close>

datatype Task =
  Waiting              \<comment> \<open>registered as waiting, no permit yet\<close>
  | Permitted          \<comment> \<open>holds a permit, about to look at the idle queue\<close>
  | Popped Slot        \<comment> \<open>took a slot, has not judged it yet\<close>
  | Connecting         \<comment> \<open>found the queue empty, is opening a connection\<close>
  | Held Checkout      \<comment> \<open>the checkout is with a client\<close>
  | Returning Conn     \<comment> \<open>decided to pool the connection, has not pushed it yet\<close>
  | Releasing          \<comment> \<open>done with the connection, the permit still to be dropped\<close>
  | ReapRetiring "Conn list"   \<comment> \<open>took connections out of the queue while reaping\<close>
  | CloseRetiring "Conn list"  \<comment> \<open>the same in \<open>close_idle\<close>\<close>

record Sys =
  pool :: PoolState
  tasks :: "Task multiset"

definition init_sys :: "string \<Rightarrow> PoolLimits \<Rightarrow> Sys" where
  "init_sys name lim = \<lparr>pool = new_pool name lim, tasks = {#}\<rparr>"

definition pool_start :: "Sys \<Rightarrow> bool" where
  "pool_start s \<longleftrightarrow> (\<exists>name lim. s = init_sys name lim)"

text \<open>A connection the world has broken.\<close>

definition break_conn :: "Conn \<Rightarrow> Conn" where
  "break_conn c = c\<lparr>is_broken := True\<rparr>"

inductive pool_step :: "Sys \<Rightarrow> Sys \<Rightarrow> bool" where
  enter: "acq_enter p = Inr p' \<Longrightarrow>
    pool_step \<lparr>pool = p, tasks = M\<rparr> \<lparr>pool = p', tasks = add_mset Waiting M\<rparr>"
| permit: "p_permits p > 0 \<Longrightarrow> \<not> p_sem_closed p \<Longrightarrow>
    pool_step \<lparr>pool = p, tasks = add_mset Waiting M\<rparr>
      \<lparr>pool = acq_permit waited p, tasks = add_mset Permitted M\<rparr>"
| sem_closed: "p_sem_closed p \<Longrightarrow>
    pool_step \<lparr>pool = p, tasks = add_mset Waiting M\<rparr> \<lparr>pool = leave_wait p, tasks = M\<rparr>"
| wait_timeout:
   "pool_step \<lparr>pool = p, tasks = add_mset Waiting M\<rparr> \<lparr>pool = acq_timeout waited p, tasks = M\<rparr>"
| wait_cancelled:
   "pool_step \<lparr>pool = p, tasks = add_mset Waiting M\<rparr> \<lparr>pool = leave_wait p, tasks = M\<rparr>"
| pop: "acq_pop p = Some (s, p') \<Longrightarrow>
    pool_step \<lparr>pool = p, tasks = add_mset Permitted M\<rparr> \<lparr>pool = p', tasks = add_mset (Popped s) M\<rparr>"
| pop_empty: "acq_pop p = None \<Longrightarrow>
    pool_step \<lparr>pool = p, tasks = add_mset Permitted M\<rparr> \<lparr>pool = p, tasks = add_mset Connecting M\<rparr>"
| settle_fit: "acq_settle now s p = (Some c, p') \<Longrightarrow>
    pool_step \<lparr>pool = p, tasks = add_mset (Popped s) M\<rparr>
      \<lparr>pool = p', tasks = add_mset (Held \<lparr>co_conn = c, co_discard = False\<rparr>) M\<rparr>"
| settle_unfit: "acq_settle now s p = (None, p') \<Longrightarrow>
    pool_step \<lparr>pool = p, tasks = add_mset (Popped s) M\<rparr> \<lparr>pool = p', tasks = add_mset Permitted M\<rparr>"
| connect_ok:
   "pool_step \<lparr>pool = p, tasks = add_mset Connecting M\<rparr>
      \<lparr>pool = connected p, tasks = add_mset (Held \<lparr>co_conn = c, co_discard = False\<rparr>) M\<rparr>"
| connect_err:
   "pool_step \<lparr>pool = p, tasks = add_mset Connecting M\<rparr> \<lparr>pool = connect_failed p, tasks = M\<rparr>"
| connect_cancelled:
   "pool_step \<lparr>pool = p, tasks = add_mset Connecting M\<rparr> \<lparr>pool = release_permit p, tasks = M\<rparr>"
| discard:
   "pool_step \<lparr>pool = p, tasks = add_mset (Held co) M\<rparr>
      \<lparr>pool = p, tasks = add_mset (Held (checkout_discard co)) M\<rparr>"
| recycle: "recycle answer co p = (r, co', p') \<Longrightarrow>
    pool_step \<lparr>pool = p, tasks = add_mset (Held co) M\<rparr> \<lparr>pool = p', tasks = add_mset (Held co') M\<rparr>"
| drop_keep: "drop_begin now co p = (Some c, p') \<Longrightarrow>
    pool_step \<lparr>pool = p, tasks = add_mset (Held co) M\<rparr> \<lparr>pool = p', tasks = add_mset (Returning c) M\<rparr>"
| drop_retire: "drop_begin now co p = (None, p') \<Longrightarrow>
    pool_step \<lparr>pool = p, tasks = add_mset (Held co) M\<rparr> \<lparr>pool = p', tasks = add_mset Releasing M\<rparr>"
| push:
   "pool_step \<lparr>pool = p, tasks = add_mset (Returning c) M\<rparr>
      \<lparr>pool = drop_push now c p, tasks = add_mset Releasing M\<rparr>"
| release:
   "pool_step \<lparr>pool = p, tasks = add_mset Releasing M\<rparr> \<lparr>pool = release_permit p, tasks = M\<rparr>"
| reap_begin: "pool_status p \<noteq> Closed \<Longrightarrow> reap_take now p = (cs, p') \<Longrightarrow>
    pool_step \<lparr>pool = p, tasks = M\<rparr> \<lparr>pool = p', tasks = add_mset (ReapRetiring cs) M\<rparr>"
| reap_end:
   "pool_step \<lparr>pool = p, tasks = add_mset (ReapRetiring cs) M\<rparr> \<lparr>pool = reap_finish cs p, tasks = M\<rparr>"
| set_paused: "pool_step \<lparr>pool = p, tasks = M\<rparr> \<lparr>pool = pause p, tasks = M\<rparr>"
| set_active: "pool_step \<lparr>pool = p, tasks = M\<rparr> \<lparr>pool = resume p, tasks = M\<rparr>"
| drain_begin: "close_idle_take 0 (set_status Draining p) = (cs, p') \<Longrightarrow>
    pool_step \<lparr>pool = p, tasks = M\<rparr> \<lparr>pool = p', tasks = add_mset (CloseRetiring cs) M\<rparr>"
| close_begin: "close_idle_take 0 (close_sem (set_status Closed p)) = (cs, p') \<Longrightarrow>
    pool_step \<lparr>pool = p, tasks = M\<rparr> \<lparr>pool = p', tasks = add_mset (CloseRetiring cs) M\<rparr>"
| close_end:
   "pool_step \<lparr>pool = p, tasks = add_mset (CloseRetiring cs) M\<rparr>
      \<lparr>pool = close_idle_finish cs p, tasks = M\<rparr>"
| break_held:
   "pool_step \<lparr>pool = p, tasks = add_mset (Held co) M\<rparr>
      \<lparr>pool = p, tasks = add_mset (Held (co\<lparr>co_conn := break_conn (co_conn co)\<rparr>)) M\<rparr>"
| break_idle: "i < length (p_idle p) \<Longrightarrow> s = p_idle p ! i \<Longrightarrow>
    pool_step \<lparr>pool = p, tasks = M\<rparr>
      \<lparr>pool = p\<lparr>p_idle := (p_idle p)[i := s\<lparr>slot_conn := break_conn (slot_conn s)\<rparr>]\<rparr>, tasks = M\<rparr>"

section \<open>Accounting\<close>

text \<open>What each task stands for: permits, live connections, and contributions to the gauges.\<close>

fun permits_of :: "Task \<Rightarrow> nat" where
  "permits_of Waiting = 0"
| "permits_of (ReapRetiring _) = 0"
| "permits_of (CloseRetiring _) = 0"
| "permits_of _ = 1"

text \<open>Connections counted against the database: open ones, and the one being opened.\<close>

fun conns_of :: "Task \<Rightarrow> nat" where
  "conns_of (Popped _) = 1"
| "conns_of Connecting = 1"
| "conns_of (Held _) = 1"
| "conns_of (Returning _) = 1"
| "conns_of _ = 0"

text \<open>Connections out of the queue that the idle gauge still counts, or already counts.\<close>

fun idle_lag_of :: "Task \<Rightarrow> nat" where
  "idle_lag_of (Popped _) = 1"
| "idle_lag_of (Returning _) = 1"
| "idle_lag_of (ReapRetiring cs) = length cs"
| "idle_lag_of (CloseRetiring cs) = length cs"
| "idle_lag_of _ = 0"

fun held_of :: "Task \<Rightarrow> nat" where
  "held_of (Held _) = 1"
| "held_of _ = 0"

fun waiting_of :: "Task \<Rightarrow> nat" where
  "waiting_of Waiting = 1"
| "waiting_of _ = 0"

text \<open>A retirement that has begun, but is not in the closing counter yet.\<close>

fun retiring_of :: "Task \<Rightarrow> nat" where
  "retiring_of (ReapRetiring cs) = length cs"
| "retiring_of (CloseRetiring cs) = length cs"
| "retiring_of _ = 0"

definition total :: "(Task \<Rightarrow> nat) \<Rightarrow> Task multiset \<Rightarrow> nat" where
  "total f M = (\<Sum>t \<in># M. f t)"

lemma total_simps [simp]: "total f {#} = 0" "total f (add_mset t M) = f t + total f M"
  by (simp_all add: total_def)

text \<open>
  The invariant: permits are conserved; a task works on at most the connection its permit
  entitles it to, and live connections fit in \<open>max_size\<close>; the gauges say what the tasks
  and the queue hold; and every connection ever opened is closed, idle or with a task.
\<close>

definition sys_max :: "Sys \<Rightarrow> nat" where
  "sys_max s = unat (max_size (p_limits (pool s)))"

definition live :: "Sys \<Rightarrow> nat" where
  "live s = length (p_idle (pool s)) + total conns_of (tasks s)"

definition permits_inv :: "Sys \<Rightarrow> bool" where
  "permits_inv s \<longleftrightarrow> p_permits (pool s) + total permits_of (tasks s) = sys_max s"

definition live_inv :: "Sys \<Rightarrow> bool" where
  "live_inv s \<longleftrightarrow> live s \<le> sys_max s"

definition gauges_inv :: "Sys \<Rightarrow> bool" where
  "gauges_inv s \<longleftrightarrow>
     c_active (p_counters (pool s)) = word_of_nat (total held_of (tasks s))
     \<and> c_waiting (p_counters (pool s)) = word_of_nat (total waiting_of (tasks s))
     \<and> c_idle (p_counters (pool s))
         = word_of_nat (length (p_idle (pool s)) + total idle_lag_of (tasks s))"

definition ledger_inv :: "Sys \<Rightarrow> bool" where
  "ledger_inv s \<longleftrightarrow>
     c_created_total (p_counters (pool s))
       = c_closed_total (p_counters (pool s))
         + word_of_nat (length (p_idle (pool s)) + total held_of (tasks s)
             + total idle_lag_of (tasks s))
     \<and> c_closed_total (p_counters (pool s)) = word_of_nat (length (p_closer (pool s)))"

definition pool_inv :: "Sys \<Rightarrow> bool" where
  "pool_inv s \<longleftrightarrow> permits_inv s \<and> live_inv s \<and> gauges_inv s \<and> ledger_inv s"

lemmas pool_inv_defs [inv_simps] =
  permits_inv_def live_inv_def gauges_inv_def ledger_inv_def live_def sys_max_def

lemma conns_le_permits: "total conns_of M \<le> total permits_of M"
proof (induction M)
  case (add t M)
  moreover have "conns_of t \<le> permits_of t" by (cases t) simp_all
  ultimately show ?case by simp
qed simp

subsection \<open>What the moves change\<close>

lemma reap_take_length: "reap_take now p = (cs, p') \<Longrightarrow> length cs + length (p_idle p') = length (p_idle p)"
  by (auto simp: reap_take_def split: prod.splits dest!: reap_scan_mset
      dest: arg_cong [where f = size])

lemma reap_take_frame:
  "reap_take now p = (cs, p') \<Longrightarrow>
     p_permits p' = p_permits p \<and> p_limits p' = p_limits p \<and> p_counters p' = p_counters p
     \<and> p_closer p' = p_closer p \<and> length (p_idle p) = length cs + length (p_idle p')"
  using reap_take_length [of now p cs p'] by (auto simp: reap_take_def split: prod.splits)

lemma close_idle_take_all: "close_idle_take 0 p = (cs, p') \<Longrightarrow>
    p' = p\<lparr>p_idle := []\<rparr> \<and> length cs = length (p_idle p)"
  by (auto simp: close_idle_take_def)

lemmas step_simps =
  pool_inv_defs pool_defs Let_def acq_enter_def acq_pop_def recycle_def checkout_discard_def
  pause_def resume_def reap_finish_def close_idle_finish_def

lemma pool_step_permits: "pool_step s t \<Longrightarrow> permits_inv s \<Longrightarrow> permits_inv t"
  by (induction rule: pool_step.induct)
    (auto simp: step_simps dest!: reap_take_frame close_idle_take_all
      split: if_splits list.splits prod.splits)

lemma pool_step_live: "pool_step s t \<Longrightarrow> permits_inv s \<Longrightarrow> live_inv s \<Longrightarrow> live_inv t"
proof (induction rule: pool_step.induct)
  case (pop_empty p M)
  then have "p_idle p = []" by (simp add: acq_pop_def split: list.splits)
  with pop_empty conns_le_permits [of M] show ?case by (simp add: pool_inv_defs)
qed (auto simp: step_simps dest!: reap_take_frame close_idle_take_all
      split: if_splits list.splits prod.splits)

lemma pool_step_gauges: "pool_step s t \<Longrightarrow> gauges_inv s \<Longrightarrow> gauges_inv t"
  by (induction rule: pool_step.induct)
    (auto simp: step_simps dest!: reap_take_frame close_idle_take_all
      split: if_splits list.splits prod.splits)

lemma pool_step_ledger: "pool_step s t \<Longrightarrow> ledger_inv s \<Longrightarrow> ledger_inv t"
  by (induction rule: pool_step.induct)
    (auto simp: step_simps dest!: reap_take_frame close_idle_take_all
      split: if_splits list.splits prod.splits)

lemma pool_start_inv: "pool_start s \<Longrightarrow> pool_inv s"
  by (auto simp: pool_start_def init_sys_def new_pool_def zero_counters_def pool_inv_def pool_inv_defs)

interpretation pool_sys: machine pool_start pool_step pool_inv
proof
  fix s t
  show "pool_start s \<Longrightarrow> pool_inv s" by (rule pool_start_inv)
  show "pool_inv s \<Longrightarrow> pool_step s t \<Longrightarrow> pool_inv t"
    by (auto simp: pool_inv_def intro: pool_step_permits pool_step_live pool_step_gauges pool_step_ledger)
qed

lemma pool_step_limits: "pool_step s t \<Longrightarrow> p_limits (pool t) = p_limits (pool s)"
  by (induction rule: pool_step.induct)
    (auto simp: step_simps dest!: reap_take_frame close_idle_take_all
      split: if_splits list.splits prod.splits)

lemma steps_limits: "pool_step\<^sup>*\<^sup>* s t \<Longrightarrow> p_limits (pool t) = p_limits (pool s)"
  by (induction rule: rtranclp_induct) (simp_all add: pool_step_limits)

section \<open>The operations of the source are runs of the machine\<close>

lemma step_trans: "pool_step s t \<Longrightarrow> pool_step\<^sup>*\<^sup>* t u \<Longrightarrow> pool_step\<^sup>*\<^sup>* s u"
  by (rule converse_rtranclp_into_rtranclp)

lemma reuse_loop_runs:
  "reuse_loop now p = (r, p') \<Longrightarrow>
     pool_step\<^sup>*\<^sup>* \<lparr>pool = p, tasks = add_mset Permitted M\<rparr>
       \<lparr>pool = p', tasks = add_mset (case r of Some c \<Rightarrow> Held \<lparr>co_conn = c, co_discard = False\<rparr>
          | None \<Rightarrow> Connecting) M\<rparr>"
proof (induction now p arbitrary: r p' rule: reuse_loop.induct)
  case (1 now p)
  show ?case
  proof (cases "acq_pop p")
    case None
    with "1.prems" have "r = None" "p' = p" by (simp_all add: reuse_loop.simps [of now p])
    with None show ?thesis by (auto intro: pool_step.pop_empty)
  next
    case (Some sp)
    obtain s p1 where sp: "sp = (s, p1)" by force
    obtain r1 p2 where settle: "acq_settle now s p1 = (r1, p2)" by force
    from Some sp have popped: "pool_step \<lparr>pool = p, tasks = add_mset Permitted M\<rparr>
        \<lparr>pool = p1, tasks = add_mset (Popped s) M\<rparr>" by (auto intro: pool_step.pop)
    show ?thesis
    proof (cases r1)
      case None
      with Some sp settle "1.prems" have "reuse_loop now p2 = (r, p')"
        by (simp add: reuse_loop.simps [of now p])
      with "1.IH" [OF Some sp [symmetric] settle [symmetric] None] have
        run: "pool_step\<^sup>*\<^sup>* \<lparr>pool = p2, tasks = add_mset Permitted M\<rparr> \<lparr>pool = p', tasks =
          add_mset (case r of Some c \<Rightarrow> Held \<lparr>co_conn = c, co_discard = False\<rparr> | None \<Rightarrow> Connecting) M\<rparr>"
        by blast
      from settle None have "pool_step \<lparr>pool = p1, tasks = add_mset (Popped s) M\<rparr>
          \<lparr>pool = p2, tasks = add_mset Permitted M\<rparr>" by (auto intro: pool_step.settle_unfit)
      with popped run show ?thesis by (blast intro: step_trans)
    next
      case (Some c)
      with \<open>acq_pop p = Some sp\<close> sp settle "1.prems" have "r = Some c" "p' = p2"
        by (simp_all add: reuse_loop.simps [of now p])
      moreover from settle Some have "pool_step \<lparr>pool = p1, tasks = add_mset (Popped s) M\<rparr>
          \<lparr>pool = p2, tasks = add_mset (Held \<lparr>co_conn = c, co_discard = False\<rparr>) M\<rparr>"
        by (auto intro: pool_step.settle_fit)
      ultimately show ?thesis using popped by (auto intro: step_trans)
    qed
  qed
qed

text \<open>
  An \<open>acquire\<close> that meets no interference is a run of the machine: on success it ends with
  the checkout held, on every error path with nothing held and the same other tasks.
\<close>

lemma acquire_runs:
  assumes "acquire env p = (r, p')"
  shows "pool_step\<^sup>*\<^sup>* \<lparr>pool = p, tasks = M\<rparr>
    \<lparr>pool = p', tasks = (case r of Inr c \<Rightarrow> add_mset (Held \<lparr>co_conn = c, co_discard = False\<rparr>) M | Inl _ \<Rightarrow> M)\<rparr>"
proof (cases "acq_enter p")
  case (Inl e)
  with assms show ?thesis by (auto simp: acquire_def)
next
  case (Inr p1)
  then have entered: "pool_step \<lparr>pool = p, tasks = M\<rparr> \<lparr>pool = p1, tasks = add_mset Waiting M\<rparr>"
    by (rule pool_step.enter)
  show ?thesis
  proof (cases "p_sem_closed p1 \<or> p_permits p1 = 0")
    case True
    then have "pool_step \<lparr>pool = p1, tasks = add_mset Waiting M\<rparr> \<lparr>pool = p', tasks = M\<rparr>"
      and "\<exists>e. r = Inl e"
      using Inr assms
      by (auto simp: acquire_def split: if_splits
          intro: pool_step.sem_closed pool_step.wait_timeout)
    with step_trans [OF entered r_into_rtranclp] show ?thesis by auto
  next
    case False
    let ?p2 = "acq_permit (env_waited env) p1"
    from False have permit: "pool_step \<lparr>pool = p1, tasks = add_mset Waiting M\<rparr>
        \<lparr>pool = ?p2, tasks = add_mset Permitted M\<rparr>" by (auto intro: pool_step.permit)
    obtain r1 p3 where loop: "reuse_loop (env_now env) ?p2 = (r1, p3)" by force
    note run = step_trans [OF entered step_trans [OF permit reuse_loop_runs [OF loop]]]
    show ?thesis
    proof (cases r1)
      case (Some c)
      with False Inr loop assms run show ?thesis by (auto simp: acquire_def)
    next
      case None
      have "pool_step \<lparr>pool = p3, tasks = add_mset Connecting M\<rparr>
        \<lparr>pool = p', tasks = (case r of Inr c \<Rightarrow> add_mset (Held \<lparr>co_conn = c, co_discard = False\<rparr>) M | Inl _ \<Rightarrow> M)\<rparr>"
        using None False Inr loop assms
        by (auto simp: acquire_def split: ConnectResult.splits
            intro: pool_step.connect_ok pool_step.connect_err)
      with run None show ?thesis by (auto intro: rtranclp.rtrancl_into_rtrancl)
    qed
  qed
qed

lemma drop_checkout_runs:
  "pool_step\<^sup>*\<^sup>* \<lparr>pool = p, tasks = add_mset (Held co) M\<rparr> \<lparr>pool = drop_checkout now co p, tasks = M\<rparr>"
proof -
  obtain r p1 where db: "drop_begin now co p = (r, p1)" by force
  show ?thesis
  proof (cases r)
    case None
    with db have "pool_step \<lparr>pool = p, tasks = add_mset (Held co) M\<rparr> \<lparr>pool = p1, tasks = add_mset Releasing M\<rparr>"
      by (auto intro: pool_step.drop_retire)
    from step_trans [OF this r_into_rtranclp, OF pool_step.release] None db show ?thesis
      by (simp add: drop_checkout_def)
  next
    case (Some c)
    with db have "pool_step \<lparr>pool = p, tasks = add_mset (Held co) M\<rparr> \<lparr>pool = p1, tasks = add_mset (Returning c) M\<rparr>"
      by (auto intro: pool_step.drop_keep)
    moreover have "pool_step\<^sup>*\<^sup>* \<lparr>pool = p1, tasks = add_mset (Returning c) M\<rparr>
        \<lparr>pool = release_permit (drop_push now c p1), tasks = M\<rparr>"
      by (blast intro: step_trans pool_step.push pool_step.release)
    ultimately show ?thesis using Some db by (auto simp: drop_checkout_def intro: step_trans)
  qed
qed

lemma reap_runs:
  assumes "reaper_tick now p = Some p'"
  shows "pool_step\<^sup>*\<^sup>* \<lparr>pool = p, tasks = M\<rparr> \<lparr>pool = p', tasks = M\<rparr>"
proof -
  obtain cs p1 where t: "reap_take now p = (cs, p1)" by force
  from assms have open_pool: "pool_status p \<noteq> Closed" and p': "p' = reap_finish cs p1"
    by (auto simp: reaper_tick_def reap_def t split: if_splits)
  show ?thesis unfolding p'
    by (rule step_trans [OF pool_step.reap_begin [OF open_pool t]])
      (blast intro: pool_step.reap_end)
qed

lemma drain_runs: "pool_step\<^sup>*\<^sup>* \<lparr>pool = p, tasks = M\<rparr> \<lparr>pool = snd (drain p), tasks = M\<rparr>"
proof -
  obtain cs p1 where t: "close_idle_take 0 (set_status Draining p) = (cs, p1)" by force
  then have d: "snd (drain p) = close_idle_finish cs p1" by (simp add: drain_def close_idle_def)
  show ?thesis unfolding d
    by (rule step_trans [OF pool_step.drain_begin [OF t]]) (blast intro: pool_step.close_end)
qed

lemma close_runs: "pool_step\<^sup>*\<^sup>* \<lparr>pool = p, tasks = M\<rparr> \<lparr>pool = close_pool p, tasks = M\<rparr>"
proof -
  obtain cs p1 where t: "close_idle_take 0 (close_sem (set_status Closed p)) = (cs, p1)" by force
  then have d: "close_pool p = close_idle_finish cs p1" by (simp add: close_pool_def close_idle_def)
  show ?thesis unfolding d
    by (rule step_trans [OF pool_step.close_begin [OF t]]) (blast intro: pool_step.close_end)
qed

section \<open>A pool in use\<close>

text \<open>A pool of two backends, with one checked out, and given back.\<close>

definition example_limits :: PoolLimits where
  "example_limits = \<lparr>max_size = 2, min_idle = 1, max_client_connections = 100,
     queue_timeout = 5000000000, connect_timeout = 5000000000, idle_timeout = 600000000000,
     max_lifetime = 1800000000000, idle_in_transaction_timeout = 0\<rparr>"

definition example_conn :: Conn where
  "example_conn = \<lparr>conn_id = 1, opened_at = 7, is_broken = False\<rparr>"


definition example_env :: AcquireEnv where
  "example_env = \<lparr>env_now = 7, env_waited = 3000, env_connect = ConnectOk example_conn\<rparr>"

definition example_pool :: PoolState where
  "example_pool = connected (acq_permit 3000
     (count (\<lambda>c. c\<lparr>c_waiting := c_waiting c + 1\<rparr>) (new_pool ''app'' example_limits)))"

lemma example_acquire:
  "acquire example_env (new_pool ''app'' example_limits) = (Inr example_conn, example_pool)"
  by (simp add: acquire_def acq_enter_def pool_status_def status_from_u8_def new_pool_def reuse_loop.simps
     acq_pop_def example_env_def example_limits_def acq_permit_def example_pool_def leave_wait_def)

definition example_held :: Sys where
  "example_held = \<lparr>pool = example_pool,
     tasks = {#Held \<lparr>co_conn = example_conn, co_discard = False\<rparr>#}\<rparr>"

lemma example_held_reachable: "pool_step\<^sup>*\<^sup>* (init_sys ''app'' example_limits) example_held"
  using acquire_runs [OF example_acquire, of "{#}"]
  by (simp add: init_sys_def example_held_def)

definition example_idle :: Sys where
  "example_idle =
     \<lparr>pool = drop_checkout 9 \<lparr>co_conn = example_conn, co_discard = False\<rparr> example_pool, tasks = {#}\<rparr>"

lemma example_idle_reachable: "pool_step\<^sup>*\<^sup>* (init_sys ''app'' example_limits) example_idle"
  using rtranclp_trans [OF example_held_reachable, of example_idle]
    drop_checkout_runs [of example_pool "\<lparr>co_conn = example_conn, co_discard = False\<rparr>" "{#}" 9]
  by (simp add: example_idle_def) (simp add: example_held_def)


lemmas example_pool_simps =
  example_pool_def connected_def checkout_conn_def acq_permit_def Let_def leave_wait_def
  new_pool_def release_permit_def pool_status_def status_from_u8_def example_limits_def
  example_conn_def is_expired_def

section \<open>What the pool promises\<close>

text \<open>
  C1. Whatever tasks do and however they interleave (acquiring, cancelled, recycling,
  dropping, reaping, draining, closing, connections breaking), the connections the pool
  has open or is opening never number more than its \<open>max_size\<close>, and the free permits are
  exactly the ones no task holds.
\<close>

theorem never_over_max_size:
  assumes "pool_step\<^sup>*\<^sup>* (init_sys name lim) t"
  shows "live t \<le> unat (max_size lim)
    \<and> p_permits (pool t) + total permits_of (tasks t) = unat (max_size lim)"
proof -
  have "pool_inv t" by (rule pool_sys.reachable_inv [OF _ assms]) (auto simp: pool_start_def)
  moreover have "p_limits (pool t) = lim" using steps_limits [OF assms] by (simp add: init_sys_def new_pool_def)
  ultimately show ?thesis by (simp add: pool_inv_def pool_inv_defs)
qed

theorem never_over_max_size_witness: "live example_held = 1 \<and> live example_held \<le> 2"
proof -
  have "live example_held \<le> unat (max_size example_limits)"
    using never_over_max_size [OF example_held_reachable] by simp
  then show ?thesis by (simp add: live_def example_held_def example_pool_simps)
qed

text \<open>
  When no task is inside an operation, the books balance: every permit is free again,
  no gauge is off (\<open>active\<close> and \<open>waiting\<close> are zero, \<open>idle\<close> is the length of the queue),
  and every connection ever opened is either in the queue or was handed to the closer.
\<close>

theorem quiescent_pool:
  assumes "pool_step\<^sup>*\<^sup>* (init_sys name lim) t" and "tasks t = {#}"
  shows "p_permits (pool t) = unat (max_size lim)
    \<and> c_active (p_counters (pool t)) = 0
    \<and> c_waiting (p_counters (pool t)) = 0
    \<and> c_idle (p_counters (pool t)) = word_of_nat (length (p_idle (pool t)))
    \<and> c_created_total (p_counters (pool t))
        = word_of_nat (length (p_closer (pool t)) + length (p_idle (pool t)))"
proof -
  have "pool_inv t" by (rule pool_sys.reachable_inv [OF _ assms(1)]) (auto simp: pool_start_def)
  moreover have "p_limits (pool t) = lim" using steps_limits [OF assms(1)] by (simp add: init_sys_def new_pool_def)
  ultimately show ?thesis using assms(2) by (simp add: pool_inv_def pool_inv_defs)
qed

theorem quiescent_pool_witness:
  "p_permits (pool example_idle) = 2 \<and> length (p_idle (pool example_idle)) = 1
   \<and> c_active (p_counters (pool example_idle)) = 0"
proof -
  have "p_permits (pool example_idle) = unat (max_size example_limits)"
    "c_active (p_counters (pool example_idle)) = 0"
    using quiescent_pool [OF example_idle_reachable] by (simp_all add: example_idle_def)
  moreover have "length (p_idle (pool example_idle)) = 1"
    by (simp add: example_idle_def drop_checkout_def drop_begin_def drop_push_def example_pool_simps)
  ultimately show ?thesis by (simp add: example_limits_def)
qed

text \<open>
  A checkout that read the status before \<open>close\<close> pushes its connection after
  \<open>close_idle\<close> took the queue: the pool ends closed, with no task left, and still holds an
  idle connection, which the reaper, having stopped, never retires.
\<close>

theorem close_can_leave_an_idle_connection:
  "\<exists>t. pool_step\<^sup>*\<^sup>* (init_sys ''app'' example_limits) t \<and> tasks t = {#}
     \<and> pool_status (pool t) = Closed \<and> length (p_idle (pool t)) = 1
     \<and> (\<forall>now. reaper_tick now (pool t) = None)"
proof -
  define co where "co = \<lparr>co_conn = example_conn, co_discard = False\<rparr>"
  define p1 where "p1 = snd (drop_begin 9 co example_pool)"
  define p2 where "p2 = close_pool p1"
  define p3 where "p3 = release_permit (drop_push 9 example_conn p2)"
  have db: "drop_begin 9 co example_pool = (Some example_conn, p1)"
    by (simp add: p1_def co_def drop_begin_def example_pool_simps)
  have "pool_step example_held \<lparr>pool = p1, tasks = {#Returning example_conn#}\<rparr>"
    using pool_step.drop_keep [OF db, of "{#}"] by (simp add: example_held_def co_def)
  moreover have "pool_step\<^sup>*\<^sup>* \<lparr>pool = p1, tasks = {#Returning example_conn#}\<rparr>
      \<lparr>pool = p2, tasks = {#Returning example_conn#}\<rparr>"
    unfolding p2_def by (rule close_runs)
  moreover have "pool_step \<lparr>pool = p2, tasks = {#Returning example_conn#}\<rparr>
      \<lparr>pool = drop_push 9 example_conn p2, tasks = {#Releasing#}\<rparr>"
    by (rule pool_step.push)
  moreover have "pool_step \<lparr>pool = drop_push 9 example_conn p2, tasks = {#Releasing#}\<rparr>
      \<lparr>pool = p3, tasks = {#}\<rparr>"
    unfolding p3_def by (rule pool_step.release)
  ultimately have run: "pool_step\<^sup>*\<^sup>* (init_sys ''app'' example_limits) \<lparr>pool = p3, tasks = {#}\<rparr>"
    using example_held_reachable by (meson rtranclp.rtrancl_into_rtrancl rtranclp_trans)
  have p2: "p_idle p2 = []" "p_status p2 = 3"
    by (simp_all add: p2_def close_pool_def close_idle_def close_idle_take_def close_idle_finish_def
        close_sem_def set_status_def)
  then have "pool_status p3 = Closed" "length (p_idle p3) = 1"
    by (simp_all add: p3_def drop_push_def release_permit_def pool_status_def status_from_u8_def)
  with run show ?thesis
    by (intro exI [of _ "\<lparr>pool = p3, tasks = {#}\<rparr>"]) (simp add: reaper_tick_def)
qed

end
