(* ===== verification/Breaker.thy ===== *)
theory Breaker
  imports Prelude "HOL-Library.Sublist" "HOL-Library.Multiset"
begin

text \<open>
  The circuit breaker in front of each target (\<open>havuz-pool/src/breaker.rs\<close>). First its
  operations as calls that run one at a time, with the contract a router relies on as a
  locale; then the calls of \<open>allows\<close> split at their atomic accesses, where two tasks can
  both be admitted while the breaker moves to half-open.
\<close>

section \<open>State and operations\<close>

datatype BreakerState = BClosed | BOpen | BHalfOpen

fun breaker_as_str :: "BreakerState \<Rightarrow> string" where
  "breaker_as_str BClosed = ''closed''"
| "breaker_as_str BOpen = ''open''"
| "breaker_as_str BHalfOpen = ''half_open''"

record BreakerConfig =
  failure_threshold :: u32
  success_threshold :: u32
  cooldown :: duration

definition default_config :: BreakerConfig where
  "default_config = \<lparr>failure_threshold = 3, success_threshold = 2, cooldown = 10 * 10 ^ 9\<rparr>"

text \<open>\<open>elapsed\<close> below is the time since \<open>epoch\<close>, the moment the breaker was made.\<close>

record CircuitBreaker =
  config :: BreakerConfig
  b_state :: u32
  consecutive_failures :: u32
  consecutive_successes :: u32
  opened_at_micros :: u64
  probe_in_flight :: bool
  failures_total :: u64
  trips_total :: u64
  rejected_total :: u64

definition new_breaker :: "BreakerConfig \<Rightarrow> CircuitBreaker" where
  "new_breaker cfg =
     \<lparr>config = cfg, b_state = 0, consecutive_failures = 0, consecutive_successes = 0,
      opened_at_micros = 0, probe_in_flight = False, failures_total = 0, trips_total = 0,
      rejected_total = 0\<rparr>"

definition breaker_state :: "CircuitBreaker \<Rightarrow> BreakerState" where
  "breaker_state b = (if b_state b = 0 then BClosed else if b_state b = 1 then BOpen else BHalfOpen)"

definition cooldown_elapsed :: "duration \<Rightarrow> CircuitBreaker \<Rightarrow> bool" where
  "cooldown_elapsed elapsed b \<longleftrightarrow> elapsed - unat (opened_at_micros b) * 1000 \<ge> cooldown (config b)"

definition allows :: "duration \<Rightarrow> CircuitBreaker \<Rightarrow> bool \<times> CircuitBreaker" where
  "allows elapsed b =
     (case breaker_state b of
        BClosed \<Rightarrow> (True, b)
      | BHalfOpen \<Rightarrow>
          if \<not> probe_in_flight b then (True, b\<lparr>probe_in_flight := True\<rparr>) else (False, b)
      | BOpen \<Rightarrow>
          if cooldown_elapsed elapsed b \<and> b_state b = 1
          then (True, b\<lparr>b_state := 2, consecutive_successes := 0, probe_in_flight := True\<rparr>)
          else (False, b\<lparr>rejected_total := rejected_total b + 1\<rparr>))"

definition record_success :: "CircuitBreaker \<Rightarrow> CircuitBreaker" where
  "record_success b =
     (let b = b\<lparr>consecutive_failures := 0, probe_in_flight := False\<rparr> in
      if breaker_state b = BHalfOpen then
        (let successes = consecutive_successes b + 1;
             b = b\<lparr>consecutive_successes := successes\<rparr>
         in if successes \<ge> success_threshold (config b)
            then b\<lparr>b_state := 0, consecutive_successes := 0\<rparr> else b)
      else b)"

definition trip :: "duration \<Rightarrow> CircuitBreaker \<Rightarrow> CircuitBreaker" where
  "trip elapsed b =
     (let was_closed = (b_state b \<noteq> 1);
          b = b\<lparr>b_state := 1, opened_at_micros := word_of_nat (as_micros elapsed), consecutive_failures := 0\<rparr>
      in if was_closed then b\<lparr>trips_total := trips_total b + 1\<rparr> else b)"

definition record_failure :: "duration \<Rightarrow> CircuitBreaker \<Rightarrow> CircuitBreaker" where
  "record_failure elapsed b =
     (let b = b\<lparr>failures_total := failures_total b + 1, consecutive_successes := 0, probe_in_flight := False\<rparr> in
      if breaker_state b = BHalfOpen then trip elapsed b
      else
        (let failures = consecutive_failures b + 1;
             b = b\<lparr>consecutive_failures := failures\<rparr>
         in if failures \<ge> failure_threshold (config b) then trip elapsed b else b))"

definition reset_breaker :: "CircuitBreaker \<Rightarrow> CircuitBreaker" where
  "reset_breaker b =
     b\<lparr>b_state := 0, consecutive_failures := 0, consecutive_successes := 0, probe_in_flight := False\<rparr>"

record BreakerSnapshot =
  snap_state :: BreakerState
  snap_failures_total :: u64
  snap_trips_total :: u64
  snap_rejected_total :: u64

definition breaker_snapshot :: "CircuitBreaker \<Rightarrow> BreakerSnapshot" where
  "breaker_snapshot b =
     \<lparr>snap_state = breaker_state b, snap_failures_total = failures_total b,
      snap_trips_total = trips_total b, snap_rejected_total = rejected_total b\<rparr>"

lemmas breaker_defs [op_defs] =
  allows_def record_success_def record_failure_def trip_def reset_breaker_def breaker_state_def

section \<open>Invariant\<close>

text \<open>
  The counters stay under their thresholds (a threshold of zero acts as one), so neither
  ever wraps; successes are only counted while half-open; and no probe is out while the
  breaker is open.
\<close>

definition below :: "u32 \<Rightarrow> u32 \<Rightarrow> bool" where
  "below x t \<longleftrightarrow> unat x < max 1 (unat t)"

lemma below_zero [simp]: "below 0 t"
  by (simp add: below_def less_max_iff_disj)

lemma below_incr: "\<not> t \<le> x + 1 \<Longrightarrow> below (x + 1) t"
  by (simp add: below_def word_le_nat_alt less_max_iff_disj)

lemma below_unat_incr: "below x t \<Longrightarrow> unat (x + 1) = unat x + 1"
  using unsigned_less [of t, where 'a = nat]
  by (auto simp: below_def less_max_iff_disj unat_word_ariths)

definition breaker_inv :: "CircuitBreaker \<Rightarrow> bool" where
  "breaker_inv b \<longleftrightarrow>
     b_state b \<in> {0, 1, 2}
     \<and> below (consecutive_failures b) (failure_threshold (config b))
     \<and> below (consecutive_successes b) (success_threshold (config b))
     \<and> (b_state b \<noteq> 2 \<longrightarrow> consecutive_successes b = 0 \<and> \<not> probe_in_flight b)"

datatype BreakerOp = Allow duration | Success | Failure duration | ResetOp

fun breaker_apply :: "CircuitBreaker \<Rightarrow> BreakerOp \<Rightarrow> CircuitBreaker" where
  "breaker_apply b (Allow t) = snd (allows t b)"
| "breaker_apply b Success = record_success b"
| "breaker_apply b (Failure t) = record_failure t b"
| "breaker_apply b ResetOp = reset_breaker b"

lemma new_breaker_inv: "breaker_inv (new_breaker cfg)"
  by (simp add: breaker_inv_def new_breaker_def)

lemma breaker_apply_inv: "breaker_inv b \<Longrightarrow> breaker_inv (breaker_apply b op)"
  by (cases op) (auto simp: breaker_inv_def breaker_defs Let_def intro: below_incr below_incr [of _ 0, simplified])

interpretation breaker_life: op_machine "\<lambda>b. \<exists>cfg. b = new_breaker cfg" breaker_apply breaker_inv
  by unfold_locales (auto simp: new_breaker_inv breaker_apply_inv)

section \<open>Tripping\<close>

text \<open>What a target's answers look like: a success, or a failure at some time.\<close>

type_synonym outcome = "duration option"

fun record_outcome :: "CircuitBreaker \<Rightarrow> outcome \<Rightarrow> CircuitBreaker" where
  "record_outcome b None = record_success b"
| "record_outcome b (Some t) = record_failure t b"

definition record_all :: "BreakerConfig \<Rightarrow> outcome list \<Rightarrow> CircuitBreaker" where
  "record_all cfg rs = foldl record_outcome (new_breaker cfg) rs"

definition failed :: "outcome \<Rightarrow> bool" where
  "failed r \<longleftrightarrow> r \<noteq> None"

definition trailing_failures :: "outcome list \<Rightarrow> nat" where
  "trailing_failures rs = length (takeWhile failed (rev rs))"

definition run_of_failures :: "nat \<Rightarrow> outcome list \<Rightarrow> bool" where
  "run_of_failures n rs \<longleftrightarrow> (\<exists>fs. sublist fs rs \<and> length fs = n \<and> list_all failed fs)"

lemma trailing_snoc: "trailing_failures (rs @ [r]) = (if failed r then Suc (trailing_failures rs) else 0)"
  by (simp add: trailing_failures_def)

lemma trailing_suffix:
  "n \<le> trailing_failures rs \<longleftrightarrow> (\<exists>fs. suffix fs rs \<and> length fs = n \<and> list_all failed fs)"
proof
  assume n: "n \<le> trailing_failures rs"
  let ?fs = "rev (take n (takeWhile failed (rev rs)))"
  have "prefix (take n (takeWhile failed (rev rs))) (rev rs)"
    by (meson prefix_order.trans take_is_prefix takeWhile_is_prefix)
  then have "suffix ?fs rs" by (simp add: suffix_to_prefix)
  moreover have "list_all failed ?fs"
    by (auto simp: list_all_iff dest!: in_set_takeD set_takeWhileD)
  ultimately show "\<exists>fs. suffix fs rs \<and> length fs = n \<and> list_all failed fs"
    using n by (intro exI [of _ ?fs]) (simp add: trailing_failures_def)
next
  assume "\<exists>fs. suffix fs rs \<and> length fs = n \<and> list_all failed fs"
  then obtain fs ps where "rs = ps @ fs" "length fs = n" "list_all failed fs" by (auto simp: suffix_def)
  then show "n \<le> trailing_failures rs"
    using takeWhile_append2 [of "rev fs" failed "rev ps"] by (simp add: trailing_failures_def list_all_iff)
qed

lemma run_of_failures_snoc:
  "n > 0 \<Longrightarrow> run_of_failures n (rs @ [r]) \<longleftrightarrow> run_of_failures n rs \<or> n \<le> trailing_failures (rs @ [r])"
  unfolding trailing_suffix run_of_failures_def
  by (auto simp: sublist_snoc)

lemma record_open: "b_state b = 1 \<Longrightarrow> b_state (record_outcome b r) = 1"
  by (cases r) (auto simp: breaker_defs Let_def)

lemma record_config [simp]: "config (record_outcome b r) = config b"
  by (cases r) (auto simp: breaker_defs Let_def)

lemma record_all_snoc: "record_all cfg (rs @ [r]) = record_outcome (record_all cfg rs) r"
  by (simp add: record_all_def)

lemma record_all_config [simp]: "config (record_all cfg rs) = cfg"
proof (induction rs rule: rev_induct)
  case Nil
  then show ?case by (simp add: record_all_def new_breaker_def)
next
  case (snoc r rs)
  then show ?case unfolding record_all_snoc by simp
qed

lemma trailing_run: "n \<le> trailing_failures rs \<Longrightarrow> run_of_failures n rs"
  unfolding trailing_suffix run_of_failures_def by (blast intro: suffix_imp_sublist)

lemma record_success_closed:
  "b_state b = 0 \<Longrightarrow> b_state (record_success b) = 0 \<and> consecutive_failures (record_success b) = 0"
  by (simp add: breaker_defs Let_def)

lemma record_failure_closed:
  "b_state b = 0 \<Longrightarrow>
   (if failure_threshold (config b) \<le> consecutive_failures b + 1 then b_state (record_failure t b) = 1
    else b_state (record_failure t b) = 0
         \<and> consecutive_failures (record_failure t b) = consecutive_failures b + 1)"
  by (simp add: breaker_defs Let_def)

lemma record_all_state:
  defines "N cfg \<equiv> max 1 (unat (failure_threshold cfg))"
  shows "if run_of_failures (N cfg) rs then b_state (record_all cfg rs) = 1
     else b_state (record_all cfg rs) = 0
          \<and> unat (consecutive_failures (record_all cfg rs)) = trailing_failures rs"
proof (induction rs rule: rev_induct)
  case Nil
  have "\<not> run_of_failures (N cfg) []" by (auto simp: run_of_failures_def N_def)
  then show ?case by (simp add: record_all_def new_breaker_def trailing_failures_def)
next
  case (snoc r rs)
  let ?b = "record_all cfg rs"
  have N: "N cfg > 0" by (simp add: N_def)
  show ?case
  proof (cases "run_of_failures (N cfg) rs")
    case True
    with snoc show ?thesis by (simp add: run_of_failures_snoc [OF N] record_all_snoc record_open)
  next
    case False
    with snoc have b: "b_state ?b = 0" "unat (consecutive_failures ?b) = trailing_failures rs" by auto
    have "trailing_failures rs < N cfg"
      using False trailing_run [of "N cfg" rs] by (metis not_le)
    then have "below (consecutive_failures ?b) (failure_threshold cfg)"
      by (simp add: below_def b N_def)
    then have incr: "unat (consecutive_failures ?b + 1) = Suc (trailing_failures rs)"
      using b by (simp add: below_unat_incr)
    have reach: "failure_threshold cfg \<le> consecutive_failures ?b + 1 \<longleftrightarrow> N cfg \<le> Suc (trailing_failures rs)"
      unfolding word_le_nat_alt incr by (simp add: N_def)
    show ?thesis
    proof (cases r)
      case None
      with record_success_closed [OF b(1)] False N show ?thesis
        unfolding run_of_failures_snoc [OF N] record_all_snoc trailing_snoc by (simp add: failed_def)
    next
      case (Some t)
      with record_failure_closed [OF b(1), of t] False reach incr show ?thesis
        unfolding run_of_failures_snoc [OF N] record_all_snoc trailing_snoc
        by (simp add: failed_def split: if_splits)
    qed
  qed
qed

text \<open>
  Starting closed, and as long as nothing asks for admission in between, the breaker is
  open exactly when its target has failed \<open>failure_threshold\<close> times in a row at some point;
  otherwise it is closed. Isolated failures, however many, never open it.
\<close>

theorem breaker_opens_iff_run_of_failures:
  "breaker_state (record_all cfg rs) =
     (if run_of_failures (max 1 (unat (failure_threshold cfg))) rs then BOpen else BClosed)"
  using record_all_state [of cfg rs] by (auto simp: breaker_state_def split: if_splits)

section \<open>Admission\<close>

text \<open>
  What a router relies on: a gate that is not open to everyone lets at most one caller
  through, and that caller holds the slot until a result is recorded.
\<close>

locale gate =
  fixes ask :: "duration \<Rightarrow> 's \<Rightarrow> bool \<times> 's"
    and free_flow :: "'s \<Rightarrow> bool"
    and slot_taken :: "'s \<Rightarrow> bool"
  assumes ask_free: "free_flow s \<Longrightarrow> ask t s = (True, s)"
    and ask_taken: "slot_taken s \<Longrightarrow> ask t s = (False, s)"
    and ask_takes: "\<not> free_flow s \<Longrightarrow> ask t s = (True, s') \<Longrightarrow> slot_taken s'"
    and ask_refused: "\<not> free_flow s \<Longrightarrow> ask t s = (False, s') \<Longrightarrow> \<not> free_flow s'"
begin

fun ask_all :: "duration list \<Rightarrow> 's \<Rightarrow> nat \<times> 's" where
  "ask_all [] s = (0, s)"
| "ask_all (t # ts) s =
     (case ask t s of (ok, s') \<Rightarrow> case ask_all ts s' of (n, s'') \<Rightarrow> ((if ok then Suc n else n), s''))"

lemma taken_admits_none: "slot_taken s \<Longrightarrow> ask_all ts s = (0, s)"
  by (induction ts) (simp_all add: ask_taken)

lemma admits_at_most_one: "\<not> free_flow s \<Longrightarrow> fst (ask_all ts s) \<le> 1"
proof (induction ts arbitrary: s)
  case (Cons t ts)
  obtain ok s' where a: "ask t s = (ok, s')" by force
  show ?case
  proof (cases ok)
    case True
    with a Cons.prems have "slot_taken s'" by (auto intro: ask_takes)
    with a True show ?thesis by (simp add: taken_admits_none)
  next
    case False
    with a have "\<not> free_flow s'" by (intro ask_refused [OF Cons.prems]) simp
    with a False Cons.IH [of s'] show ?thesis by (simp split: prod.splits)
  qed
qed simp

lemma free_admits_all: "free_flow s \<Longrightarrow> ask_all ts s = (length ts, s)"
  by (induction ts) (simp_all add: ask_free)

end

definition breaker_taken :: "CircuitBreaker \<Rightarrow> bool" where
  "breaker_taken b \<longleftrightarrow> breaker_state b = BHalfOpen \<and> probe_in_flight b"

interpretation breaker_gate: gate allows "\<lambda>b. breaker_state b = BClosed" breaker_taken
  by unfold_locales
    (auto simp: allows_def breaker_taken_def breaker_state_def split: BreakerState.splits if_splits)

text \<open>How many of a burst of calls of \<open>allows\<close> are admitted.\<close>

fun admitted :: "duration list \<Rightarrow> CircuitBreaker \<Rightarrow> nat" where
  "admitted [] b = 0"
| "admitted (t # ts) b = (case allows t b of (ok, b') \<Rightarrow> (if ok then 1 else 0) + admitted ts b')"

lemma admitted_ask_all: "admitted ts b = fst (breaker_gate.ask_all ts b)"
  by (induction ts arbitrary: b) (simp_all split: prod.splits)

lemma allows_early:
  "breaker_state b = BOpen \<Longrightarrow> \<not> cooldown_elapsed t b \<Longrightarrow>
   allows t b = (False, b\<lparr>rejected_total := rejected_total b + 1\<rparr>)"
  by (simp add: allows_def)

lemma admitted_early:
  "breaker_state b = BOpen \<Longrightarrow> \<forall>t \<in> set ts. \<not> cooldown_elapsed t b \<Longrightarrow> admitted ts b = 0"
proof (induction ts arbitrary: b)
  case (Cons t ts)
  then have "admitted ts (b\<lparr>rejected_total := rejected_total b + 1\<rparr>) = 0"
    by (intro Cons.IH) (auto simp: breaker_state_def cooldown_elapsed_def split: if_splits)
  with Cons.prems show ?case by (simp add: allows_early)
qed simp

text \<open>
  Without a result recorded in between, a burst of requests for admission is let
  through entirely by a closed breaker, not at all by an open one before its cooldown has
  passed, and otherwise at most one of them gets in.
\<close>

theorem breaker_admission:
  "admitted ts b \<le> (if breaker_state b = BClosed then length ts
      else if breaker_state b = BOpen \<and> (\<forall>t \<in> set ts. \<not> cooldown_elapsed t b) then 0 else 1)
   \<and> (breaker_state b = BClosed \<longrightarrow> admitted ts b = length ts)"
  using breaker_gate.admits_at_most_one [of b ts] breaker_gate.free_admits_all [of b ts]
    admitted_early [of b ts]
  by (simp add: admitted_ask_all)

theorem breaker_admission_witness:
  "admitted [0, 1, 2] (new_breaker default_config) = 3"
proof -
  have "breaker_state (new_breaker default_config) = BClosed"
    by (simp add: breaker_state_def new_breaker_def)
  then show ?thesis using breaker_admission [of "[0, 1, 2]" "new_breaker default_config"] by simp
qed

lemma record_success_half_open:
  "b_state b = 2 \<Longrightarrow>
   (if success_threshold (config b) \<le> consecutive_successes b + 1 then b_state (record_success b) = 0
    else b_state (record_success b) = 2 \<and> config (record_success b) = config b
         \<and> consecutive_successes (record_success b) = consecutive_successes b + 1)"
  by (simp add: breaker_defs Let_def)

lemma half_open_successes:
  assumes "b_state b = 2" "n < max 1 (unat (success_threshold (config b)))"
    "unat (consecutive_successes b) = 0"
  shows "b_state ((record_success ^^ n) b) = 2 \<and> config ((record_success ^^ n) b) = config b
    \<and> unat (consecutive_successes ((record_success ^^ n) b)) = n"
  using assms(2)
proof (induction n)
  case (Suc n)
  let ?b = "(record_success ^^ n) b"
  from Suc have IH: "b_state ?b = 2" "config ?b = config b" "unat (consecutive_successes ?b) = n"
    by auto
  have "below (consecutive_successes ?b) (success_threshold (config b))"
    using Suc.prems IH by (simp add: below_def)
  then have incr: "unat (consecutive_successes ?b + 1) = Suc n" using IH by (simp add: below_unat_incr)
  then have "\<not> success_threshold (config b) \<le> consecutive_successes ?b + 1"
    using Suc.prems unfolding word_le_nat_alt incr by auto
  with record_success_half_open [OF IH(1)] IH(2) incr show ?case by simp
qed (use assms in simp)

lemma success_closes:
  assumes "b_state b = 2" "unat (consecutive_successes b) = 0"
  shows "b_state ((record_success ^^ max 1 (unat (success_threshold (config b)))) b) = 0"
proof -
  obtain k where k: "max 1 (unat (success_threshold (config b))) = Suc k"
    by (metis Suc_pred less_max_iff_disj zero_less_one)
  let ?b = "(record_success ^^ k) b"
  have b: "b_state ?b = 2" "config ?b = config b" "unat (consecutive_successes ?b) = k"
    using half_open_successes [OF assms(1) _ assms(2), of k] k by simp_all
  then have "below (consecutive_successes ?b) (success_threshold (config b))"
    unfolding below_def k by simp
  then have "unat (consecutive_successes ?b + 1) = Suc k" using b by (simp add: below_unat_incr)
  with k have "success_threshold (config b) \<le> consecutive_successes ?b + 1"
    unfolding word_le_nat_alt by linarith
  with record_success_half_open [OF b(1)] b(2) have "b_state (record_success ?b) = 0" by simp
  then show ?thesis unfolding k by simp
qed

text \<open>
  Recovery and relapse: a tripped breaker whose cooldown has passed admits the next
  request; from there \<open>success_threshold\<close> successes in a row close it, and one failure
  before that opens it again and starts a new cooldown.
\<close>

theorem breaker_recovers:
  assumes "breaker_state b = BOpen" and "cooldown_elapsed t b"
  defines "N \<equiv> max 1 (unat (success_threshold (config b)))"
  shows "fst (allows t b)
    \<and> breaker_state ((record_success ^^ N) (snd (allows t b))) = BClosed
    \<and> (\<forall>n < N. breaker_state ((record_success ^^ n) (snd (allows t b))) = BHalfOpen
        \<and> (let b' = record_failure u ((record_success ^^ n) (snd (allows t b)))
           in breaker_state b' = BOpen \<and> opened_at_micros b' = word_of_nat (as_micros u)))"
proof -
  let ?b = "snd (allows t b)"
  have st: "b_state b = 1" using assms(1) by (auto simp: breaker_state_def split: if_splits)
  then have b: "b_state ?b = 2" "config ?b = config b" "unat (consecutive_successes ?b) = 0" "fst (allows t b)"
    using assms(2) by (simp_all add: allows_def breaker_state_def)
  have "breaker_state ((record_success ^^ N) ?b) = BClosed"
    using success_closes [OF b(1,3)] unfolding b(2) N_def by (simp add: breaker_state_def)
  moreover have "breaker_state ((record_success ^^ n) ?b) = BHalfOpen
      \<and> (let b' = record_failure u ((record_success ^^ n) ?b)
         in breaker_state b' = BOpen \<and> opened_at_micros b' = word_of_nat (as_micros u))" if "n < N" for n
  proof -
    have "b_state ((record_success ^^ n) ?b) = 2"
      using half_open_successes [OF b(1) _ b(3), of n] that unfolding b(2) N_def by simp
    then show ?thesis by (simp add: breaker_state_def record_failure_def trip_def Let_def)
  qed
  ultimately show ?thesis using b by simp
qed

definition tripped_breaker :: CircuitBreaker where
  "tripped_breaker = (new_breaker default_config)\<lparr>b_state := 1\<rparr>"

theorem breaker_recovers_witness:
  "fst (allows (11 * 10 ^ 9) tripped_breaker)
   \<and> breaker_state ((record_success ^^ 2) (snd (allows (11 * 10 ^ 9) tripped_breaker))) = BClosed"
proof -
  have "breaker_state tripped_breaker = BOpen" "cooldown_elapsed (11 * 10 ^ 9) tripped_breaker"
    by (simp_all add: tripped_breaker_def breaker_state_def cooldown_elapsed_def new_breaker_def default_config_def)
  moreover have "max 1 (unat (success_threshold (config tripped_breaker))) = 2"
    by (simp add: tripped_breaker_def new_breaker_def default_config_def)
  ultimately show ?thesis
    using breaker_recovers [of tripped_breaker "11 * 10 ^ 9"] by simp
qed

section \<open>The atomic accesses of \<open>allows\<close>\<close>

text \<open>
  Tasks calling \<open>allows\<close> on an open breaker whose cooldown has passed, split where the
  source touches an atomic: the load of the state, the exchange of the state from open to
  half-open, the store of the probe flag, and the exchange of the probe flag.
\<close>

datatype AskPc =
  AskStart        \<comment> \<open>has not loaded the state\<close>
  | AskOpen       \<comment> \<open>loaded open and found the cooldown elapsed\<close>
  | AskHalf       \<comment> \<open>loaded half-open\<close>
  | AskStore      \<comment> \<open>exchanged open for half-open, has not stored the probe flag\<close>
  | AskMover      \<comment> \<open>admitted after moving the breaker to half-open\<close>
  | AskProbe      \<comment> \<open>admitted by taking the probe flag\<close>
  | AskRefused

record Race =
  race_half :: bool
  race_probe :: bool
  race_tasks :: "AskPc multiset"

definition race_start :: "nat \<Rightarrow> Race" where
  "race_start n = \<lparr>race_half = False, race_probe = False, race_tasks = replicate_mset n AskStart\<rparr>"

inductive race_step :: "Race \<Rightarrow> Race \<Rightarrow> bool" where
  load_open: "race_step \<lparr>race_half = False, race_probe = p, race_tasks = add_mset AskStart M\<rparr>
     \<lparr>race_half = False, race_probe = p, race_tasks = add_mset AskOpen M\<rparr>"
| load_half: "race_step \<lparr>race_half = True, race_probe = p, race_tasks = add_mset AskStart M\<rparr>
     \<lparr>race_half = True, race_probe = p, race_tasks = add_mset AskHalf M\<rparr>"
| cas_won: "race_step \<lparr>race_half = False, race_probe = p, race_tasks = add_mset AskOpen M\<rparr>
     \<lparr>race_half = True, race_probe = p, race_tasks = add_mset AskStore M\<rparr>"
| cas_lost: "race_step \<lparr>race_half = True, race_probe = p, race_tasks = add_mset AskOpen M\<rparr>
     \<lparr>race_half = True, race_probe = p, race_tasks = add_mset AskRefused M\<rparr>"
| store: "race_step \<lparr>race_half = h, race_probe = p, race_tasks = add_mset AskStore M\<rparr>
     \<lparr>race_half = h, race_probe = True, race_tasks = add_mset AskMover M\<rparr>"
| probe_won: "race_step \<lparr>race_half = h, race_probe = False, race_tasks = add_mset AskHalf M\<rparr>
     \<lparr>race_half = h, race_probe = True, race_tasks = add_mset AskProbe M\<rparr>"
| probe_lost: "race_step \<lparr>race_half = h, race_probe = True, race_tasks = add_mset AskHalf M\<rparr>
     \<lparr>race_half = h, race_probe = True, race_tasks = add_mset AskRefused M\<rparr>"

definition race_admitted :: "Race \<Rightarrow> nat" where
  "race_admitted s = count (race_tasks s) AskMover + count (race_tasks s) AskProbe"

definition race_inv :: "Race \<Rightarrow> bool" where
  "race_inv s \<longleftrightarrow>
     count (race_tasks s) AskStore + count (race_tasks s) AskMover = (if race_half s then 1 else 0)
     \<and> count (race_tasks s) AskProbe \<le> (if race_probe s then 1 else 0)"

interpretation race_sys: machine "\<lambda>s. \<exists>n. s = race_start n" race_step race_inv
proof
  fix s t assume "race_inv s" "race_step s t"
  from this(2,1) show "race_inv t"
    by (induction rule: race_step.induct) (auto simp: race_inv_def split: if_splits)
qed (auto simp: race_start_def race_inv_def)

text \<open>
  Taken apart, the move to half-open and the probe slot are two steps, and two of the
  tasks that ask at that moment can both be admitted; but never more than two, whatever
  the number of tasks and the interleaving.
\<close>

theorem half_open_admits_at_most_two:
  "(\<forall>n s. race_step\<^sup>*\<^sup>* (race_start n) s \<longrightarrow> race_admitted s \<le> 2)
   \<and> (\<exists>s. race_step\<^sup>*\<^sup>* (race_start 2) s \<and> race_admitted s = 2)"
proof -
  have "race_admitted s \<le> 2" if "race_step\<^sup>*\<^sup>* (race_start n) s" for n s
  proof -
    have "race_inv s" by (rule race_sys.reachable_inv [OF _ that]) blast
    then show ?thesis by (auto simp: race_inv_def race_admitted_def split: if_splits)
  qed
  moreover have "race_step\<^sup>*\<^sup>* (race_start 2)
      \<lparr>race_half = True, race_probe = True, race_tasks = {#AskMover, AskProbe#}\<rparr>"
  proof -
    have "race_step (race_start 2)
        \<lparr>race_half = False, race_probe = False, race_tasks = {#AskOpen, AskStart#}\<rparr>"
      using load_open [of False "{#AskStart#}"] by (simp add: race_start_def numeral_2_eq_2)
    moreover have "race_step \<lparr>race_half = False, race_probe = False, race_tasks = {#AskOpen, AskStart#}\<rparr>
        \<lparr>race_half = True, race_probe = False, race_tasks = {#AskStore, AskStart#}\<rparr>"
      by (rule cas_won)
    moreover have "race_step \<lparr>race_half = True, race_probe = False, race_tasks = {#AskStore, AskStart#}\<rparr>
        \<lparr>race_half = True, race_probe = False, race_tasks = {#AskStore, AskHalf#}\<rparr>"
      using load_half [of False "{#AskStore#}"] by (simp add: add_mset_commute)
    moreover have "race_step \<lparr>race_half = True, race_probe = False, race_tasks = {#AskStore, AskHalf#}\<rparr>
        \<lparr>race_half = True, race_probe = True, race_tasks = {#AskStore, AskProbe#}\<rparr>"
      using probe_won [of True "{#AskStore#}"] by (simp add: add_mset_commute)
    moreover have "race_step \<lparr>race_half = True, race_probe = True, race_tasks = {#AskStore, AskProbe#}\<rparr>
        \<lparr>race_half = True, race_probe = True, race_tasks = {#AskMover, AskProbe#}\<rparr>"
      by (rule store)
    ultimately show ?thesis by (meson converse_rtranclp_into_rtranclp rtranclp.rtrancl_refl)
  qed
  ultimately show ?thesis by (force simp: race_admitted_def)
qed

theorem half_open_admits_at_most_two_witness:
  "race_admitted (race_start 3) \<le> 2 \<and> (\<exists>s. race_step\<^sup>*\<^sup>* (race_start 2) s \<and> race_admitted s = 2)"
  using half_open_admits_at_most_two by (meson rtranclp.rtrancl_refl)

end
