(* ===== verification/Sql_Scan.thy ===== *)
theory Sql_Scan
  imports Rust_Str Utf8 "HOL-Library.Sublist"
begin

text \<open>
  The lexical scans of \<open>havuz-pg/src/classify.rs\<close>: splitting a payload into statements,
  removing literals and comments, and reading the leading words. The source walks an index
  over the bytes; here each arm of its \<open>match\<close> is the function that gives the bytes left
  after the construct it skips, so that \<open>i\<close> is the length already consumed.
\<close>

abbreviation squote :: char where "squote \<equiv> CHR 0x27"
abbreviation dquote :: char where "dquote \<equiv> CHR 0x22"
abbreviation backslash :: char where "backslash \<equiv> CHR 0x5C"
abbreviation newline :: char where "newline \<equiv> CHR 0x0A"

section \<open>Skipping one construct\<close>

text \<open>After the opening quote: past the closing one. A backslash skips the next byte.\<close>

fun quoted_rest :: "char \<Rightarrow> string \<Rightarrow> string" where
  "quoted_rest q [] = []"
| "quoted_rest q [c] = []"
| "quoted_rest q (c # d # s) =
     (if c = backslash then quoted_rest q s
      else if c = q then (if d = q then quoted_rest q s else d # s)
      else quoted_rest q (d # s))"

definition is_tag_char :: "char \<Rightarrow> bool" where
  "is_tag_char c \<longleftrightarrow> is_ascii_alphanumeric c \<or> c = CHR ''_''"

definition dollar_tag_len :: "string \<Rightarrow> nat option" where
  "dollar_tag_len s =
     (case s of
        [] \<Rightarrow> None
      | c # r \<Rightarrow>
          if c \<noteq> CHR ''$'' then None
          else let i = 1 + length (takeWhile is_tag_char r) in
               case dropWhile is_tag_char r of
                 [] \<Rightarrow> None
               | d # _ \<Rightarrow> if d = CHR ''$'' then Some (i + 1) else None)"

text \<open>After the opening tag: past the next occurrence of the tag.\<close>

fun dollar_rest :: "string \<Rightarrow> string \<Rightarrow> string" where
  "dollar_rest tag [] = []"
| "dollar_rest tag (c # s) =
     (if starts_with tag (c # s) then drop (length tag) (c # s) else dollar_rest tag s)"

text \<open>After the opening of a block comment, \<open>depth\<close> comments deep.\<close>

fun block_rest :: "nat \<Rightarrow> string \<Rightarrow> string" where
  "block_rest 0 s = s"
| "block_rest depth [] = []"
| "block_rest depth [c] = []"
| "block_rest (Suc depth) (c # d # s) =
     (if c = CHR ''/'' \<and> d = CHR ''*'' then block_rest (Suc (Suc depth)) s
      else if c = CHR ''*'' \<and> d = CHR ''/'' then block_rest depth s
      else block_rest (Suc depth) (d # s))"

definition line_rest :: "string \<Rightarrow> string" where
  "line_rest s = dropWhile (\<lambda>c. c \<noteq> newline) s"

text \<open>What is left after the construct that starts the input: the arms of the \<open>match\<close>.\<close>

datatype Arm = Quoted | Dollar nat | LineComment | BlockComment | Plain

fun arm :: "string \<Rightarrow> Arm" where
  "arm [] = Plain"
| "arm (c # s) =
     (if c = squote \<or> c = dquote then Quoted
      else if c = CHR ''$'' then (case dollar_tag_len (c # s) of Some n \<Rightarrow> Dollar n | None \<Rightarrow> Plain)
      else if c = CHR ''-'' \<and> take 1 s = ''-'' then LineComment
      else if c = CHR ''/'' \<and> take 1 s = ''*'' then BlockComment
      else Plain)"

fun token_rest :: "string \<Rightarrow> string" where
  "token_rest [] = []"
| "token_rest (c # s) =
     (case arm (c # s) of
        Quoted \<Rightarrow> quoted_rest c s
      | Dollar n \<Rightarrow> dollar_rest (take n (c # s)) (drop n (c # s))
      | LineComment \<Rightarrow> line_rest (c # s)
      | BlockComment \<Rightarrow> block_rest 1 (drop 1 s)
      | Plain \<Rightarrow> s)"

lemma length_quoted_rest: "length (quoted_rest q s) \<le> length s"
  by (induction q s rule: quoted_rest.induct) auto

lemma length_dollar_rest: "length (dollar_rest tag s) \<le> length s"
  by (induction tag s rule: dollar_rest.induct) auto

lemma length_block_rest: "length (block_rest d s) \<le> length s"
  by (induction d s rule: block_rest.induct) auto

lemma dollar_tag_len_bounds:
  "dollar_tag_len s = Some n \<Longrightarrow> 2 \<le> n \<and> n \<le> length s"
proof -
  assume n: "dollar_tag_len s = Some n"
  then obtain c r where s: "s = c # r" by (auto simp: dollar_tag_len_def split: list.splits)
  have "length (takeWhile is_tag_char r) + length (dropWhile is_tag_char r) = length r"
    by (metis length_append takeWhile_dropWhile_id)
  with n s show ?thesis by (auto simp: dollar_tag_len_def Let_def split: list.splits if_splits)
qed

lemma length_token_rest: "length (token_rest (c # s)) < Suc (length s)"
proof (cases "arm (c # s)")
  case (Dollar n)
  then have "2 \<le> n" using dollar_tag_len_bounds [of "c # s" n] by (auto split: if_splits option.splits)
  moreover have "length (token_rest (c # s)) \<le> length (drop n (c # s))"
    using Dollar length_dollar_rest [of "take n (c # s)" "drop n (c # s)"] by (simp del: arm.simps)
  ultimately show ?thesis by auto
next
  case LineComment
  then have "c \<noteq> newline" by (auto split: if_splits option.splits)
  with LineComment show ?thesis
    by (simp add: line_rest_def length_dropWhile_le le_imp_less_Suc del: arm.simps)
next
  case BlockComment
  then show ?thesis using length_block_rest [of 1 "drop 1 s"] by (simp del: arm.simps)
qed (auto simp: length_quoted_rest le_imp_less_Suc simp del: arm.simps)

section \<open>Splitting into statements\<close>

text \<open>The bytes between \<open>start\<close> and \<open>i\<close> are the first argument.\<close>

function split_from :: "string \<Rightarrow> string \<Rightarrow> string list" where
  "split_from cur [] = (if cur = [] then [] else [cur])"
| "split_from cur (c # s) =
     (if c = CHR '';'' then cur # split_from [] s
      else let r = token_rest (c # s)
           in split_from (cur @ take (length (c # s) - length r) (c # s)) r)"
  by pat_completeness auto
termination
  by (relation "measure (\<lambda>(cur, s). length s)") (auto simp: length_token_rest simp del: token_rest.simps)

declare split_from.simps(2) [simp del] token_rest.simps(2) [simp del]

definition split_statements :: "string \<Rightarrow> string list" where
  "split_statements sql = split_from [] sql"

section \<open>Removing literals and comments\<close>

function strip_literals :: "string \<Rightarrow> string" where
  "strip_literals [] = []"
| "strip_literals (c # s) =
     (if arm (c # s) = Plain then latin1_char c @ strip_literals s
      else CHR '' '' # strip_literals (token_rest (c # s)))"
  by pat_completeness auto
termination
  by (relation "measure length") (auto simp: length_token_rest simp del: arm.simps)

declare strip_literals.simps(2) [simp del]

section \<open>The head of a statement\<close>

function strip_noise :: "string \<Rightarrow> string" where
  "strip_noise s =
     (case strip_prefix ''--'' s of
        Some after \<Rightarrow>
          strip_noise (trim_start (case position (\<lambda>c. c = newline) after of
             Some at \<Rightarrow> drop (at + 1) after | None \<Rightarrow> []))
      | None \<Rightarrow>
          (case strip_prefix ''/*'' s of
             Some after \<Rightarrow>
               (case find_sub ''*/'' after of
                  Some at \<Rightarrow> strip_noise (trim_start (drop (at + 2) after))
                | None \<Rightarrow> [])
           | None \<Rightarrow> s))"
  by pat_completeness auto
termination
proof (relation "measure length")
  fix s after
  assume "strip_prefix ''--'' s = Some after"
  then have "s = ''--'' @ after" by (simp add: strip_prefix_Some)
  then show "(trim_start (case position (\<lambda>c. c = newline) after of
      Some at \<Rightarrow> drop (at + 1) after | None \<Rightarrow> []), s) \<in> measure length"
    by (auto split: option.split intro: le_less_trans [OF length_trim_start])
next
  fix s after at
  assume "strip_prefix ''/*'' s = Some after"
  then have "s = ''/*'' @ after" by (simp add: strip_prefix_Some)
  then show "(trim_start (drop (at + 2) after), s) \<in> measure length"
    using length_trim_start [of "drop (at + 2) after"] by simp
qed simp

declare strip_noise.simps [simp del]

definition strip_leading_noise :: "string \<Rightarrow> string" where
  "strip_leading_noise sql = strip_noise (trim_start sql)"

definition first_words :: "string \<Rightarrow> nat \<Rightarrow> string" where
  "first_words sql n = to_ascii_uppercase (join '' '' (take n (split_whitespace sql)))"

section \<open>Splitting loses nothing\<close>

lemma quoted_rest_suffix: "suffix (quoted_rest q s) s"
  by (induction q s rule: quoted_rest.induct) (auto simp: suffix_Cons)

lemma dollar_rest_suffix: "suffix (dollar_rest tag s) s"
proof (induction tag s rule: dollar_rest.induct)
  case (2 tag c s)
  then show ?case using suffix_drop [of "length tag" "c # s"] by (auto simp: suffix_Cons)
qed simp

lemma block_rest_suffix: "suffix (block_rest d s) s"
  by (induction d s rule: block_rest.induct) (auto simp: suffix_Cons)

lemma token_rest_suffix: "suffix (token_rest s) s"
proof (cases s)
  case (Cons c t)
  have "suffix (dollar_rest tag (drop n s)) s" for tag n
    by (meson dollar_rest_suffix suffix_drop suffix_order.trans)
  moreover have "suffix (block_rest 1 (drop 1 t)) (c # t)"
    by (metis block_rest_suffix drop_Suc_Cons suffix_drop suffix_order.trans)
  ultimately show ?thesis
    using Cons by (auto simp: token_rest.simps line_rest_def suffix_dropWhile suffix_Cons quoted_rest_suffix
        simp del: arm.simps split: Arm.split)
qed simp

lemma take_suffix: "suffix r s \<Longrightarrow> take (length s - length r) s @ r = s"
  by (auto simp: suffix_def)

lemma join_Cons: "xs \<noteq> [] \<Longrightarrow> join sep (x # xs) = x @ sep @ join sep xs"
  by (cases xs) auto

text \<open>The statements, joined by semicolons, are the payload up to one final semicolon.\<close>

lemma split_from_join:
  "\<exists>tail \<in> {[], '';''}. cur @ s = join '';'' (split_from cur s) @ tail"
proof (induction cur s rule: split_from.induct)
  case (2 cur c s)
  show ?case
  proof (cases "c = CHR '';''")
    case True
    with 2 obtain tail where t: "tail \<in> {[], '';''}" "s = join '';'' (split_from [] s) @ tail" by auto
    show ?thesis
    proof (cases "split_from [] s = []")
      case True
      then have "s = []" using t by (cases s) (auto simp: split_from.simps(2) Let_def split: if_splits)
      with \<open>c = CHR '';''\<close> show ?thesis by (simp add: split_from.simps(2))
    next
      case False
      with t \<open>c = CHR '';''\<close> show ?thesis by (auto simp: split_from.simps(2) join_Cons)
    qed
  next
    case False
    with 2 take_suffix [OF token_rest_suffix [of "c # s"]] show ?thesis
      by (simp add: split_from.simps(2) Let_def)
  qed
qed auto

section \<open>Splitting is stable\<close>

text \<open>
  A construct that ends before a semicolon ends at the same place when the semicolon and
  what follows it are not there.
\<close>

lemma quoted_rest_before:
  "q \<noteq> CHR '';'' \<Longrightarrow> quoted_rest q (x @ CHR '';'' # y) = r @ CHR '';'' # y \<Longrightarrow> quoted_rest q x = r"
proof (induction q x arbitrary: r rule: quoted_rest.induct)
  case (1 q)
  then show ?case using length_quoted_rest [of q y] by (cases y) (auto split: if_splits)
next
  case (2 q c)
  show ?case
  proof (cases "c = backslash")
    case True
    with 2 length_quoted_rest [of q y] show ?thesis by (auto dest: arg_cong [of _ _ length])
  next
    case False
    have "length (quoted_rest q (CHR '';'' # y)) \<le> length y"
      using 2(1) length_quoted_rest [of q y] by (cases y) auto
    with 2 False show ?thesis by (auto split: if_splits dest: arg_cong [of _ _ length])
  qed
next
  case (3 q c d s)
  then show ?case by (auto split: if_splits)
qed

lemma block_rest_semicolon: "length (block_rest (Suc d) (CHR '';'' # y)) \<le> length y"
  using length_block_rest [of "Suc d" y] by (cases y) auto

lemma block_rest_before:
  "block_rest d (x @ CHR '';'' # y) = r @ CHR '';'' # y \<Longrightarrow> block_rest d x = r"
proof (induction d x arbitrary: r rule: block_rest.induct)
  case (2 d)
  then show ?case using block_rest_semicolon [of d y] by (auto dest: arg_cong [of _ _ length])
next
  case (3 d c)
  then show ?case using block_rest_semicolon [of d y] by (auto dest: arg_cong [of _ _ length])
next
  case (4 depth c d s)
  then show ?case by (auto split: if_splits)
qed simp

lemma strip_prefix_before:
  "CHR '';'' \<notin> set tag \<Longrightarrow> starts_with tag (x @ CHR '';'' # y) \<longleftrightarrow> starts_with tag x"
proof (induction tag arbitrary: x)
  case (Cons a tag)
  then show ?case by (cases x) (auto simp: starts_with_def)
qed (simp add: starts_with_def)

lemma dollar_rest_before:
  "CHR '';'' \<notin> set tag \<Longrightarrow> tag \<noteq> [] \<Longrightarrow>
   dollar_rest tag (x @ CHR '';'' # y) = r @ CHR '';'' # y \<Longrightarrow> dollar_rest tag x = r"
proof (induction tag x arbitrary: r rule: dollar_rest.induct)
  case (1 tag)
  then have "\<not> starts_with tag (CHR '';'' # y)" by (cases tag) (auto simp: starts_with_def)
  with 1 length_dollar_rest [of tag y] show ?case by (auto dest: arg_cong [of _ _ length])
next
  case (2 tag c s)
  show ?case
  proof (cases "starts_with tag (c # s)")
    case True
    then obtain t where "c # s = tag @ t" by (auto simp: starts_with_iff)
    then have "length tag \<le> length (c # s)" by (metis length_append le_add1)
    with 2 True strip_prefix_before [of tag "c # s" y] drop_append [of "length tag" "c # s" "CHR '';'' # y"]
    show ?thesis by simp
  next
    case False
    with 2 strip_prefix_before [of tag "c # s" y] show ?thesis by simp
  qed
qed

lemma dollar_tag_len_before: "dollar_tag_len (c # x @ CHR '';'' # y) = dollar_tag_len (c # x)"
proof -
  have semi: "\<not> is_tag_char (CHR '';'')" by (simp add: is_tag_char_def ascii_defs)
  show ?thesis
  proof (cases "\<forall>d \<in> set x. is_tag_char d")
    case True
    then have "takeWhile is_tag_char (x @ CHR '';'' # y) = x" "dropWhile is_tag_char (x @ CHR '';'' # y) = CHR '';'' # y"
      "dropWhile is_tag_char x = []"
      using semi by (simp_all add: takeWhile_append2 dropWhile_append2)
    then show ?thesis unfolding dollar_tag_len_def list.case Let_def by (simp only:) simp
  next
    case False
    then obtain d where d: "d \<in> set x" "\<not> is_tag_char d" by blast
    then have "dropWhile is_tag_char x \<noteq> []" by (auto simp: dropWhile_eq_Nil_conv)
    with d show ?thesis
      by (auto simp: dollar_tag_len_def takeWhile_append1 dropWhile_append1 Let_def split: list.splits)
  qed
qed

lemma dollar_tag_chars: "dollar_tag_len s = Some n \<Longrightarrow> CHR '';'' \<notin> set (take n s) \<and> take n s \<noteq> []"
proof -
  assume n: "dollar_tag_len s = Some n"
  then obtain r t where s: "s = CHR ''$'' # takeWhile is_tag_char r @ CHR ''$'' # t"
      and "n = length (takeWhile is_tag_char r) + 2"
    by (auto simp: dollar_tag_len_def Let_def split: list.splits if_splits)
      (metis takeWhile_dropWhile_id)
  then have "take n s = CHR ''$'' # takeWhile is_tag_char r @ ''$''" by simp
  moreover have "CHR '';'' \<notin> set (takeWhile is_tag_char r)"
    by (auto dest!: set_takeWhileD simp: is_tag_char_def ascii_defs)
  ultimately show ?thesis by auto
qed

lemma arm_before: "arm (c # x @ CHR '';'' # y) = arm (c # x)"
  by (cases x) (simp_all add: dollar_tag_len_before [of _ "[]", simplified] dollar_tag_len_before [of _ "_ # _", simplified])

lemma line_rest_before: "line_rest (x @ CHR '';'' # y) = r @ CHR '';'' # y \<Longrightarrow> line_rest x = r"
proof (induction x arbitrary: r)
  case Nil
  have "length (line_rest y) \<le> length y" by (simp add: line_rest_def length_dropWhile_le)
  with Nil show ?case by (auto simp: line_rest_def dest: arg_cong [of _ _ length])
next
  case (Cons c x)
  then show ?case by (auto simp: line_rest_def split: if_splits)
qed

lemma token_rest_before:
  assumes "token_rest (c # x @ CHR '';'' # y) = r @ CHR '';'' # y" and "c \<noteq> CHR '';''"
  shows "token_rest (c # x) = r"
proof (cases "arm (c # x)")
  case (Dollar n)
  then have n: "dollar_tag_len (c # x) = Some n" by (auto split: if_splits option.splits)
  note tag = dollar_tag_chars [OF n] dollar_tag_len_bounds [OF n]
  have "take n ((c # x) @ CHR '';'' # y) = take n (c # x)"
    "drop n ((c # x) @ CHR '';'' # y) = drop n (c # x) @ CHR '';'' # y"
    using tag unfolding take_append drop_append by simp_all
  with assms Dollar tag dollar_rest_before [of "take n (c # x)" "drop n (c # x)" y r] show ?thesis
    by (simp add: token_rest.simps arm_before del: arm.simps)
next
  case BlockComment
  then obtain x' where x: "x = CHR ''*'' # x'" by (cases x) (auto split: if_splits option.splits)
  have "block_rest 1 (x' @ CHR '';'' # y) = r @ CHR '';'' # y"
    using assms(1) BlockComment unfolding token_rest.simps arm_before by (simp add: x)
  then have "block_rest 1 x' = r" by (rule block_rest_before)
  with BlockComment show ?thesis by (simp add: token_rest.simps x del: arm.simps)
qed (use assms in \<open>auto simp: token_rest.simps arm_before simp del: arm.simps
    dest: quoted_rest_before line_rest_before [of "c # x", simplified]\<close>)

text \<open>
  One round of the scan that does not meet a semicolon. A text is one statement when the
  scan gets to its end this way.
\<close>

definition scan1 :: "string \<Rightarrow> string \<Rightarrow> bool" where
  "scan1 s t \<longleftrightarrow> s \<noteq> [] \<and> hd s \<noteq> CHR '';'' \<and> t = token_rest s"

lemma scan1_cut:
  assumes "scan1 s (x @ CHR '';'' # y)"
  shows "\<exists>x'. s = x' @ CHR '';'' # y \<and> scan1 x' x"
proof -
  obtain c s' where s: "s = c # s'" "c \<noteq> CHR '';''" "token_rest (c # s') = x @ CHR '';'' # y"
    using assms unfolding scan1_def by (metis list.collapse)
  obtain u where u: "c # s' = u @ token_rest (c # s')"
    using token_rest_suffix [of "c # s'"] unfolding suffix_def by blast
  have "u \<noteq> []"
  proof
    assume "u = []"
    with u length_token_rest [of c s'] show False by (metis append_Nil length_Cons less_irrefl)
  qed
  then obtain u' where u': "u = c # u'" "s' = (u' @ x) @ CHR '';'' # y"
    using u unfolding s(3) by (cases u) simp_all
  have "token_rest (c # u' @ x) = x"
    by (rule token_rest_before [OF _ s(2)]) (use s(3) u'(2) in simp)
  with s(1,2) u' show ?thesis by (intro exI [of _ "c # u' @ x"]) (simp add: scan1_def)
qed

lemma scans_cut: "scan1\<^sup>*\<^sup>* s (CHR '';'' # y) \<Longrightarrow> \<exists>x. s = x @ CHR '';'' # y \<and> scan1\<^sup>*\<^sup>* x []"
proof (induction rule: converse_rtranclp_induct)
  case (step s t)
  then obtain x where x: "t = x @ CHR '';'' # y" "scan1\<^sup>*\<^sup>* x []" by blast
  with step(1) scan1_cut obtain x' where "s = x' @ CHR '';'' # y" "scan1 x' x" by blast
  moreover from this x have "scan1\<^sup>*\<^sup>* x' []" by (meson converse_rtranclp_into_rtranclp)
  ultimately show ?case by blast
qed simp

lemma split_from_statements:
  "scan1\<^sup>*\<^sup>* (cur @ s) s \<Longrightarrow> st \<in> set (split_from cur s) \<Longrightarrow> scan1\<^sup>*\<^sup>* st []"
proof (induction cur s rule: split_from.induct)
  case (1 cur)
  then show ?case by (auto split: if_splits)
next
  case (2 cur c s)
  let ?r = "token_rest (c # s)" and ?w = "cur @ c # s"
  let ?cur' = "cur @ take (length (c # s) - length ?r) (c # s)"
  show ?case
  proof (cases "c = CHR '';''")
    case True
    have "scan1\<^sup>*\<^sup>* cur []"
      using scans_cut [of ?w s] 2(3) True by auto
    with 2 True show ?thesis by (auto simp: split_from.simps(2))
  next
    case False
    have w: "?cur' @ ?r = ?w" using take_suffix [OF token_rest_suffix [of "c # s"]] by simp
    have "scan1 (c # s) ?r" using False by (simp add: scan1_def)
    with 2(3) have "scan1\<^sup>*\<^sup>* ?w ?r" by (rule rtranclp.rtrancl_into_rtrancl)
    with False 2(2) [OF False refl] 2(4) w show ?thesis by (simp add: split_from.simps(2) Let_def)
  qed
qed

lemma statement_whole: "scan1\<^sup>*\<^sup>* s [] \<Longrightarrow> split_from cur s = (if cur @ s = [] then [] else [cur @ s])"
proof (induction arbitrary: cur rule: converse_rtranclp_induct)
  case (step s t)
  then obtain c s' where s: "s = c # s'" "c \<noteq> CHR '';''" "t = token_rest (c # s')"
    by (cases s) (auto simp: scan1_def)
  let ?p = "take (length (c # s') - length t) (c # s')"
  have w: "?p @ t = c # s'"
    unfolding s(3) by (rule take_suffix [OF token_rest_suffix])
  have "split_from cur s = split_from (cur @ ?p) t" using s by (simp add: split_from.simps(2) Let_def)
  also have "\<dots> = (if (cur @ ?p) @ t = [] then [] else [(cur @ ?p) @ t])" by (rule step.IH)
  also have "(cur @ ?p) @ t = cur @ s" using w s(1) by (simp only: append_assoc)
  finally show ?case .
qed simp

lemma split_statements_stable: "st \<in> set (split_statements sql) \<Longrightarrow> st \<noteq> [] \<Longrightarrow> split_statements st = [st]"
  using split_from_statements [of "[]" sql st] statement_whole [of st "[]"]
  by (simp add: split_statements_def)

text \<open>
  Splitting a payload into statements loses nothing and invents nothing: joined by
  semicolons again, the statements are the payload, up to one semicolon at its end; and
  each statement is really one, splitting it again gives it back whole.
\<close>

theorem split_statements_partition:
  "(\<exists>tail \<in> {[], '';''}. sql = join '';'' (split_statements sql) @ tail)
   \<and> (\<forall>st \<in> set (split_statements sql). st \<noteq> [] \<longrightarrow> split_statements st = [st])"
  using split_from_join [of "[]" sql] split_statements_stable [of _ sql]
  by (auto simp: split_statements_def)

theorem split_statements_partition_witness:
  "split_statements ''a; b'' = [''a'', '' b''] \<and> split_statements '' b'' = ['' b'']"
proof -
  have s: "split_statements ''a; b'' = [''a'', '' b'']" by code_simp
  then show ?thesis using split_statements_partition [of "''a; b''"] by simp
qed

section \<open>Leading noise is removed once and for all\<close>

lemma strip_noise_fixed:
  "ws_len s = 0 \<Longrightarrow> ws_len (strip_noise s) = 0 \<and> strip_noise (strip_noise s) = strip_noise s"
proof (induction s rule: strip_noise.induct)
  case (1 s)
  then show ?case
    by (cases "strip_prefix ''--'' s"; cases "strip_prefix ''/*'' s")
      (auto simp: strip_noise.simps [of s] strip_noise.simps [of "[]"] split: option.splits)
qed

lemma strip_leading_noise_idem: "strip_leading_noise (strip_leading_noise s) = strip_leading_noise s"
  using strip_noise_fixed [of "trim_start s"]
  by (simp add: strip_leading_noise_def trim_start_id)

end
