(* ===== verification/Params.thy ===== *)
theory Params
  imports Flow Btree Sql_Scan
begin

text \<open>
  Session parameters, tracked and replayed (\<open>havuz-pg/src/params.rs\<close>). The results are the
  three the module rests on: what a client tracks is what its own statements say when they
  are read again; the delta sent at checkout brings a backend from the parameters it has to
  exactly the ones the client wants; and a read-only session stays read-only as long as
  every statement passes \<open>defeats_read_only\<close>.
\<close>

section \<open>Reading a statement\<close>

datatype SetAction =
  Track string string
  | ResetParam string
  | ResetAll
  | Pin PinReason
  | NoAction

definition NOT_A_PARAMETER :: "string list" where
  "NOT_A_PARAMETER = [''user'', ''database'', ''replication'', ''options'', ''client_encoding'']"

definition READ_ONLY_GUC :: string where
  "READ_ONLY_GUC = ''default_transaction_read_only''"

text \<open>The word up to white space, an equals sign or a comma, and the rest.\<close>

fun break_word :: "string \<Rightarrow> string \<times> string" where
  "break_word [] = ([], [])"
| "break_word (c # s) =
     (if ws_len (c # s) > 0 \<or> c = CHR ''='' \<or> c = CHR '','' then ([], c # s)
      else case break_word s of (w, r) \<Rightarrow> (c # w, r))"

definition take_word :: "string \<Rightarrow> string \<times> string" where
  "take_word input = break_word (trim_start input)"

definition strip_semicolon :: "string \<Rightarrow> string" where
  "strip_semicolon s = (if s \<noteq> [] \<and> last s = CHR '';'' then butlast s else s)"

definition is_identifier :: "string \<Rightarrow> bool" where
  "is_identifier part =
     (case part of
        [] \<Rightarrow> False
      | c # s \<Rightarrow> (is_ascii_alphabetic c \<or> c = CHR ''_'')
          \<and> list_all (\<lambda>c. is_ascii_alphanumeric c \<or> c = CHR ''_'' \<or> c = CHR ''$'') s)"

definition is_parameter_name :: "string \<Rightarrow> bool" where
  "is_parameter_name name =
     (case split_on (CHR ''.'') name of
        [first] \<Rightarrow> is_identifier first
      | [first, second] \<Rightarrow> is_identifier first \<and> is_identifier second
      | _ \<Rightarrow> False)"

fun placeholder_in :: "string \<Rightarrow> bool" where
  "placeholder_in (c # d # s) \<longleftrightarrow> c = CHR ''$'' \<and> is_ascii_digit d \<or> placeholder_in (d # s)"
| "placeholder_in _ \<longleftrightarrow> False"

definition has_placeholder :: "string \<Rightarrow> bool" where
  "has_placeholder value = placeholder_in (strip_literals value)"

definition track :: "string \<Rightarrow> string \<Rightarrow> SetAction" where
  "track statement name = Track (to_ascii_lowercase name) (trim statement)"

abbreviation pin_param :: SetAction where
  "pin_param \<equiv> Pin SessionParameter"

text \<open>The tail of \<open>classify_set_body\<close>, for a plain parameter name.\<close>

definition classify_assignment :: "string \<Rightarrow> string \<Rightarrow> string \<Rightarrow> SetAction" where
  "classify_assignment statement first after_first =
     (if \<not> is_parameter_name first then pin_param
      else
        let after = trim_start after_first;
            val = (case strip_prefix ''='' after of
                     Some v \<Rightarrow> Some v
                   | None \<Rightarrow> (case take_word after of (to_word, v) \<Rightarrow>
                       if eq_ignore_ascii_case to_word ''TO'' then Some v else None))
        in case val of
             None \<Rightarrow> pin_param
           | Some v \<Rightarrow>
               let v = trim v in
               if v = [] then pin_param
               else if has_placeholder v then pin_param
               else if eq_ignore_ascii_case v ''DEFAULT'' then ResetParam (to_ascii_lowercase first)
               else track statement (to_ascii_lowercase first))"

lemma break_word_append: "break_word s = (w, r) \<Longrightarrow> s = w @ r"
  by (induction s arbitrary: w) (auto split: if_splits prod.splits)

lemma length_take_word: "take_word s = (w, r) \<Longrightarrow> length w + length r \<le> length s"
  using break_word_append [of "trim_start s" w r] length_trim_start [of s]
  by (auto simp: take_word_def)

text \<open>
  \<open>SET SESSION x = 1\<close> is \<open>SET x = 1\<close>: the one arm of the match that recurses. All other
  arms are in \<open>classify_set_word\<close>.
\<close>

definition session_prefix :: "string \<Rightarrow> string \<Rightarrow> bool" where
  "session_prefix first after_first =
     (to_ascii_uppercase first = ''SESSION''
      \<and> to_ascii_uppercase (fst (take_word after_first)) \<notin> {''AUTHORIZATION'', ''CHARACTERISTICS''})"

lemma session_prefix_shorter:
  "session_prefix first after_first \<Longrightarrow> (first, after_first) = take_word rest \<Longrightarrow>
   length after_first < length rest"
  using length_take_word [of rest first after_first] length_upper [of first]
  by (simp add: session_prefix_def)

definition classify_set_word :: "string \<Rightarrow> string \<Rightarrow> string \<Rightarrow> SetAction" where
  "classify_set_word statement first after_first =
     (let upper = to_ascii_uppercase first;
          second = fst (take_word after_first)
      in
      if upper = ''LOCAL'' \<or> upper = ''TRANSACTION'' then NoAction
      else if upper = ''ROLE'' then pin_param
      else if upper = ''CONSTRAINTS'' then pin_param
      else if upper = ''SESSION'' then pin_param
      else if upper = ''TIME'' \<and> eq_ignore_ascii_case second ''ZONE'' then track statement ''timezone''
      else if upper = ''NAMES'' then track statement ''client_encoding''
      else if upper = ''SCHEMA'' then track statement ''search_path''
      else if upper = ''XML'' \<and> eq_ignore_ascii_case second ''OPTION'' then track statement ''xmloption''
      else classify_assignment statement first after_first)"

function classify_set_body :: "string \<Rightarrow> string \<Rightarrow> SetAction" where
  "classify_set_body statement rest =
     (case take_word rest of (first, after_first) \<Rightarrow>
        if session_prefix first after_first then classify_set_body statement after_first
        else classify_set_word statement first after_first)"
  by pat_completeness auto
termination
  by (relation "measure (\<lambda>(statement, rest). length rest)") (auto dest: session_prefix_shorter)

declare classify_set_body.simps [simp del]

definition classify_reset_body :: "string \<Rightarrow> SetAction" where
  "classify_reset_body rest =
     (case take_word rest of (first, after_first) \<Rightarrow>
      let upper = to_ascii_uppercase first in
      if upper = ''ALL'' then ResetAll
      else if upper = ''ROLE'' then ResetParam ''role''
      else if upper = ''SESSION'' then ResetParam ''session_authorization''
      else if upper = ''TIME'' then
        (if eq_ignore_ascii_case (fst (take_word after_first)) ''ZONE''
         then ResetParam ''timezone'' else pin_param)
      else if is_parameter_name first then ResetParam (to_ascii_lowercase first)
      else pin_param)"

definition classify_normalized :: "string \<Rightarrow> SetAction" where
  "classify_normalized n =
     (if n = [] then NoAction
      else case take_word n of (keyword, rest) \<Rightarrow>
        if to_ascii_uppercase keyword = ''SET'' then classify_set_body n rest
        else if to_ascii_uppercase keyword = ''RESET'' then classify_reset_body rest
        else NoAction)"

definition set_normal_form :: "string \<Rightarrow> string" where
  "set_normal_form statement =
     trim_end (strip_semicolon (trim_end (strip_leading_noise statement)))"

definition classify_set :: "string \<Rightarrow> SetAction" where
  "classify_set statement = classify_normalized (set_normal_form statement)"

definition undoes_the_batch :: "string \<Rightarrow> bool" where
  "undoes_the_batch statement =
     (let first = fst (take_word (strip_leading_noise statement))
      in eq_ignore_ascii_case first ''ROLLBACK'' \<or> eq_ignore_ascii_case first ''ABORT'')"

definition actions_for_sql :: "string \<Rightarrow> SetAction list" where
  "actions_for_sql sql =
     (let statements = split_statements sql;
          actions = filter (\<lambda>a. a \<noteq> NoAction) (map classify_set statements)
      in if actions = [] then []
         else if list_ex undoes_the_batch statements then [pin_param]
         else actions)"

section \<open>Statements that would undo read-only\<close>

fun adjacent_words :: "string \<Rightarrow> string \<Rightarrow> string list \<Rightarrow> bool" where
  "adjacent_words a b (x # y # ws) \<longleftrightarrow> x = a \<and> y = b \<or> adjacent_words a b (y # ws)"
| "adjacent_words a b _ \<longleftrightarrow> False"

definition mentions_read_write :: "string \<Rightarrow> bool" where
  "mentions_read_write statement =
     adjacent_words ''READ'' ''WRITE''
       (split_whitespace (to_ascii_uppercase (strip_literals statement)))"

definition statement_defeats_read_only :: "string \<Rightarrow> bool" where
  "statement_defeats_read_only statement =
     (let normalized = strip_leading_noise statement;
          (keyword, rest) = take_word normalized;
          kw = to_ascii_uppercase keyword
      in if kw = ''SET'' \<or> kw = ''RESET'' then
           (case classify_set normalized of
              Track name _ \<Rightarrow> name = READ_ONLY_GUC
            | ResetParam name \<Rightarrow> name = READ_ONLY_GUC
            | ResetAll \<Rightarrow> True
            | _ \<Rightarrow> mentions_read_write normalized)
         else if kw = ''BEGIN'' then mentions_read_write normalized
         else if kw = ''START'' then
           eq_ignore_ascii_case (fst (take_word rest)) ''TRANSACTION'' \<and> mentions_read_write normalized
         else False)"

definition defeats_read_only :: "string \<Rightarrow> bool" where
  "defeats_read_only sql = list_ex statement_defeats_read_only (split_statements sql)"

section \<open>What a client wants\<close>

record ClientParams =
  desired :: "(string, string) btree"
  pending :: "SetAction list"

definition new_params :: ClientParams where
  "new_params = \<lparr>desired = [], pending = []\<rparr>"

definition double_quotes :: "string \<Rightarrow> string" where
  "double_quotes v = concat (map (\<lambda>c. if c = squote then [squote, squote] else [c]) v)"

definition seed_statement :: "string \<Rightarrow> string \<Rightarrow> string" where
  "seed_statement name val = ''SET '' @ name @ '' = '' @ [squote] @ double_quotes val @ [squote]"

definition seed :: "string \<Rightarrow> string \<Rightarrow> ClientParams \<Rightarrow> ClientParams" where
  "seed key val cp =
     (if \<not> is_parameter_name key then cp
      else let name = to_ascii_lowercase key
           in cp\<lparr>desired := btree_insert name (seed_statement name val) (desired cp)\<rparr>)"

definition enforce_read_only :: "ClientParams \<Rightarrow> ClientParams" where
  "enforce_read_only cp =
     cp\<lparr>desired := btree_insert READ_ONLY_GUC (''SET '' @ READ_ONLY_GUC @ '' = '' @ [squote] @ ''on'' @ [squote])
          (desired cp)\<rparr>"

text \<open>\<open>split_options\<close>; a backslash takes the next byte as it is.\<close>

function split_options_from :: "string \<Rightarrow> string \<Rightarrow> string list" where
  "split_options_from current [] = (if current = [] then [] else [current])"
| "split_options_from current (c # s) =
     (if c = backslash then
        (case s of [] \<Rightarrow> split_options_from current [] | e # s' \<Rightarrow> split_options_from (current @ [e]) s')
      else if ws_len (c # s) > 0 then
        (if current = [] then [] else [current]) @ split_options_from [] (drop (ws_len (c # s)) (c # s))
      else split_options_from (current @ [c]) s)"
  by pat_completeness auto
termination by (relation "measure (\<lambda>(current, s). length s)") auto

definition split_options :: "string \<Rightarrow> string list" where
  "split_options options = split_options_from [] options"

definition split_once :: "char \<Rightarrow> string \<Rightarrow> (string \<times> string) option" where
  "split_once sep s =
     (case position (\<lambda>c. c = sep) s of None \<Rightarrow> None | Some i \<Rightarrow> Some (take i s, drop (i + 1) s))"

definition option_pair :: "string \<Rightarrow> (string \<times> string) list" where
  "option_pair assignment =
     (case split_once (CHR ''='') assignment of
        None \<Rightarrow> [] | Some (k, v) \<Rightarrow> [(trim k, trim v)])"

fun parse_option_tokens :: "string list \<Rightarrow> (string \<times> string) list" where
  "parse_option_tokens [] = []"
| "parse_option_tokens (token # ts) =
     (if token = ''-c'' then
        (case ts of [] \<Rightarrow> [] | next # ts' \<Rightarrow> option_pair next @ parse_option_tokens ts')
      else case strip_prefix ''-c'' token of
        Some rest \<Rightarrow> option_pair rest @ parse_option_tokens ts
      | None \<Rightarrow>
          (case strip_prefix ''--'' token of
             Some rest \<Rightarrow> option_pair rest @ parse_option_tokens ts
           | None \<Rightarrow> parse_option_tokens ts))"

definition parse_options :: "string \<Rightarrow> (string \<times> string) list" where
  "parse_options options = parse_option_tokens (split_options options)"

definition startup_pairs :: "string \<times> string \<Rightarrow> (string \<times> string) list" where
  "startup_pairs = (\<lambda>(key, val).
     if eq_ignore_ascii_case key ''options'' then parse_options val
     else if list_ex (eq_ignore_ascii_case key) NOT_A_PARAMETER then []
     else [(key, val)])"

definition from_startup :: "(string \<times> string) list \<Rightarrow> ClientParams" where
  "from_startup params =
     foldl (\<lambda>cp (key, val). seed key val cp) new_params (concat (map startup_pairs params))"

definition stage :: "SetAction \<Rightarrow> ClientParams \<Rightarrow> ClientParams" where
  "stage action cp = (if action = NoAction then cp else cp\<lparr>pending := pending cp @ [action]\<rparr>)"

definition has_pending :: "ClientParams \<Rightarrow> bool" where
  "has_pending cp \<longleftrightarrow> pending cp \<noteq> []"

fun believe :: "(string, string) btree \<Rightarrow> SetAction \<Rightarrow> (string, string) btree" where
  "believe d (Track name statement) = btree_insert name statement d"
| "believe d (ResetParam name) = btree_remove name d"
| "believe d ResetAll = []"
| "believe d (Pin _) = d"
| "believe d NoAction = d"

definition commit_pending :: "ClientParams \<Rightarrow> ClientParams" where
  "commit_pending cp = cp\<lparr>desired := foldl believe (desired cp) (pending cp), pending := []\<rparr>"

definition discard_pending :: "ClientParams \<Rightarrow> ClientParams" where
  "discard_pending cp = cp\<lparr>pending := []\<rparr>"

definition delta :: "ClientParams \<Rightarrow> (string, string) btree \<Rightarrow> string list" where
  "delta cp applied =
     map (\<lambda>(name, _). ''RESET '' @ name)
       (filter (\<lambda>(name, _). map_of (desired cp) name = None) applied)
     @ map snd (filter (\<lambda>(name, statement). map_of applied name \<noteq> Some statement) (desired cp))"

section \<open>Words and normal forms\<close>

lemma break_word_rest: "break_word x = (w, r) \<Longrightarrow> r \<noteq> [] \<Longrightarrow> non_cont t \<Longrightarrow> break_word (x @ t) = (w, r @ t)"
proof (induction x arbitrary: w)
  case (Cons c x)
  have "ws_len ((c # x) @ t) = ws_len (c # x)" using Cons.prems by (intro ws_len_append) auto
  with Cons show ?case by (auto split: if_splits prod.splits)
qed simp

lemma take_word_append:
  "take_word x = (w, r) \<Longrightarrow> r \<noteq> [] \<Longrightarrow> non_cont t \<Longrightarrow> take_word (x @ t) = (w, r @ t)"
  using break_word_append [of "trim_start x" w r] break_word_rest [of "trim_start x" w r t]
  by (auto simp: take_word_def trim_start_append)

lemma strip_semicolon_split: "\<exists>t. s = strip_semicolon s @ t \<and> (t = [] \<or> t = '';'')"
  unfolding strip_semicolon_def by (metis append_Nil2 append_butlast_last_id)

lemma set_normal_form_split: "\<exists>t. strip_leading_noise s = set_normal_form s @ t \<and> non_cont t"
proof -
  let ?n = "strip_leading_noise s"
  obtain t1 where 1: "?n = trim_end ?n @ t1" "non_cont t1" using trim_end_split by blast
  obtain t2 where 2: "trim_end ?n = strip_semicolon (trim_end ?n) @ t2" "t2 = [] \<or> t2 = '';''"
    using strip_semicolon_split by blast
  obtain t3 where 3: "strip_semicolon (trim_end ?n) = set_normal_form s @ t3" "non_cont t3"
    using trim_end_split unfolding set_normal_form_def by blast
  have "?n = set_normal_form s @ t3 @ t2 @ t1" using 1(1) 2(1) 3(1) by (metis append_assoc)
  moreover have "non_cont (t3 @ t2 @ t1)"
    using 1(2) 2(2) 3(2) by (cases t3) (auto simp: non_cont_def)
  ultimately show ?thesis by blast
qed
lemma classify_set_noise: "classify_set (strip_leading_noise s) = classify_set s"
  by (simp add: classify_set_def set_normal_form_def strip_leading_noise_idem)

lemma take_word_Nil [simp]: "take_word [] = ([], [])"
  by (simp add: take_word_def)

lemma not_parameter_name_Nil [simp]: "\<not> is_parameter_name []"
  by (simp add: is_parameter_name_def is_identifier_def)

text \<open>The actions that change what a client wants.\<close>

fun touches :: "string \<Rightarrow> SetAction \<Rightarrow> bool" where
  "touches name (Track n _) \<longleftrightarrow> n = name"
| "touches name (ResetParam n) \<longleftrightarrow> n = name"
| "touches name ResetAll \<longleftrightarrow> True"
| "touches name _ \<longleftrightarrow> False"

lemma touches_keyword:
  assumes "touches name (classify_normalized n)"
  shows "\<exists>kw rest. take_word n = (kw, rest) \<and> rest \<noteq> [] \<and> to_ascii_uppercase kw \<in> {''SET'', ''RESET''}"
proof -
  obtain kw rest where tw: "take_word n = (kw, rest)" by force
  have "\<not> touches name (classify_set_body n [])" "\<not> touches name (classify_reset_body [])"
    by (simp_all add: classify_set_body.simps [of _ "[]"] session_prefix_def classify_set_word_def
        classify_assignment_def classify_reset_body_def Let_def to_ascii_uppercase_def)
  with assms tw show ?thesis by (auto simp: classify_normalized_def split: if_splits)
qed

lemma touching_statement_defeats:
  assumes "touches READ_ONLY_GUC (classify_set s)"
  shows "statement_defeats_read_only s"
proof -
  obtain kw rest where tw: "take_word (set_normal_form s) = (kw, rest)" "rest \<noteq> []"
      "to_ascii_uppercase kw \<in> {''SET'', ''RESET''}"
    using touches_keyword assms unfolding classify_set_def by blast
  obtain t where "strip_leading_noise s = set_normal_form s @ t" "non_cont t"
    using set_normal_form_split by blast
  with tw have "take_word (strip_leading_noise s) = (kw, rest @ t)" by (simp add: take_word_append)
  with tw(3) assms show ?thesis
    by (cases "classify_set s") (auto simp: statement_defeats_read_only_def classify_set_noise)
qed

lemma touching_action_defeats:
  "a \<in> set (actions_for_sql sql) \<Longrightarrow> touches READ_ONLY_GUC a \<Longrightarrow> defeats_read_only sql"
  by (auto simp: actions_for_sql_def defeats_read_only_def list_ex_iff Let_def split: if_splits
      intro: touching_statement_defeats)

section \<open>Staging, believing, forgetting\<close>

lemma btree_believe [simp]: "btree d \<Longrightarrow> btree (believe d a)"
  by (cases a) auto

lemma believe_untouched: "btree d \<Longrightarrow> \<not> touches name a \<Longrightarrow> map_of (believe d a) name = map_of d name"
  by (cases a) auto

lemma believe_all_untouched:
  "btree d \<Longrightarrow> \<forall>a \<in> set as. \<not> touches name a \<Longrightarrow>
   btree (foldl believe d as) \<and> map_of (foldl believe d as) name = map_of d name"
  by (induction as arbitrary: d) (simp_all add: believe_untouched)

definition stage_all :: "SetAction list \<Rightarrow> ClientParams \<Rightarrow> ClientParams" where
  "stage_all as cp = foldl (\<lambda>cp a. stage a cp) cp as"

lemma stage_all_simps [simp]:
  "desired (stage_all as cp) = desired cp"
  "pending (stage_all as cp) = pending cp @ filter (\<lambda>a. a \<noteq> NoAction) as"
  unfolding stage_all_def by (induction as arbitrary: cp) (simp_all add: stage_def)

text \<open>
  One exchange of a session as it bears on parameters: the message is refused outright when
  it would defeat read-only; otherwise its actions are staged, and believed or forgotten
  according to whether the server reported an error.
\<close>

definition read_only_exchange :: "ClientParams \<Rightarrow> string \<times> bool \<Rightarrow> ClientParams" where
  "read_only_exchange cp = (\<lambda>(sql, ok).
     if defeats_read_only sql then cp
     else let cp = stage_all (actions_for_sql sql) cp
          in if ok then commit_pending cp else discard_pending cp)"

definition read_only_inv :: "ClientParams \<Rightarrow> bool" where
  "read_only_inv cp \<longleftrightarrow> btree (desired cp) \<and> pending cp = []
     \<and> map_of (desired cp) READ_ONLY_GUC = Some (''SET '' @ READ_ONLY_GUC @ '' = '' @ [squote] @ ''on'' @ [squote])"

lemma read_only_exchange_inv: "read_only_inv cp \<Longrightarrow> read_only_inv (read_only_exchange cp x)"
proof -
  obtain sql ok where x: "x = (sql, ok)" by force
  assume inv: "read_only_inv cp"
  show ?thesis
  proof (cases "defeats_read_only sql")
    case False
    then have "\<forall>a \<in> set (actions_for_sql sql). \<not> touches READ_ONLY_GUC a"
      using touching_action_defeats by blast
    with inv x False show ?thesis
      using believe_all_untouched [of "desired cp" "filter (\<lambda>a. a \<noteq> NoAction) (actions_for_sql sql)" READ_ONLY_GUC]
      by (simp add: read_only_inv_def read_only_exchange_def commit_pending_def discard_pending_def Let_def)
  qed (use inv x in \<open>simp add: read_only_exchange_def\<close>)
qed

lemma btree_seed [simp]: "btree (desired cp) \<Longrightarrow> btree (desired (seed k v cp))"
  by (simp add: seed_def Let_def)

lemma pending_seed [simp]: "pending (seed k v cp) = pending cp"
  by (simp add: seed_def Let_def)

lemma from_startup_btree: "btree (desired (from_startup params)) \<and> pending (from_startup params) = []"
proof -
  have "btree (desired (foldl (\<lambda>cp (k, v). seed k v cp) cp xs)) \<and> pending (foldl (\<lambda>cp (k, v). seed k v cp) cp xs) = []"
    if "btree (desired cp)" "pending cp = []" for cp xs
    using that by (induction xs arbitrary: cp) (auto split: prod.splits)
  then show ?thesis by (simp add: from_startup_def new_params_def)
qed

interpretation read_only_life: op_machine "\<lambda>cp. \<exists>ps. cp = enforce_read_only (from_startup ps)"
    read_only_exchange read_only_inv
  by unfold_locales
    (auto simp: read_only_exchange_inv, auto simp: read_only_inv_def enforce_read_only_def from_startup_btree)

text \<open>
  A session that havuz made read-only stays read-only: whatever its startup packet
  asks for, and whatever statements it sends in whatever batches, with the server accepting
  or refusing each, the parameters replayed on every backend it touches keep
  \<open>default_transaction_read_only\<close> on.
\<close>

theorem read_only_is_kept:
  "map_of (desired (foldl read_only_exchange (enforce_read_only (from_startup params)) exchanges))
     ''default_transaction_read_only'' = Some (''SET default_transaction_read_only = '' @ [squote] @ ''on'' @ [squote])"
proof -
  have "read_only_inv (foldl read_only_exchange (enforce_read_only (from_startup params)) exchanges)"
    by (rule read_only_life.run_inv) blast
  then show ?thesis by (simp add: read_only_inv_def READ_ONLY_GUC_def)
qed

section \<open>Replay\<close>

lemma ws_len_rev_trim_end: "ws_len_rev (trim_end_rev s) = 0"
proof (induction s rule: trim_end_rev.induct)
  case (1 s)
  then show ?case by (cases "ws_len_rev s = 0") (simp_all add: trim_end_rev.simps [of s])
qed

lemma trim_end_idem: "trim_end (trim_end s) = trim_end s"
  using ws_len_rev_trim_end [of "rev s"] by (simp add: trim_end_def trim_end_rev.simps [of "trim_end_rev _"])

lemma ws_len_normal_form: "ws_len (set_normal_form s) = 0"
proof (cases "set_normal_form s = []")
  case False
  obtain t where t: "strip_leading_noise s = set_normal_form s @ t" "non_cont t"
    using set_normal_form_split by blast
  have "ws_len (strip_leading_noise s) = 0"
    using strip_noise_fixed [of "trim_start s"] by (simp add: strip_leading_noise_def)
  with t False show ?thesis by (simp add: ws_len_append)
qed simp

lemma trim_normal_form: "trim (set_normal_form s) = set_normal_form s"
  by (simp add: trim_def trim_start_id ws_len_normal_form) (simp add: set_normal_form_def trim_end_idem)

lemma classify_set_body_track:
  "classify_set_body statement rest = Track n st \<Longrightarrow> st = trim statement"
proof (induction statement rest rule: classify_set_body.induct)
  case (1 statement rest)
  obtain first after where tw: "take_word rest = (first, after)" by force
  with 1 show ?case
    by (cases "session_prefix first after")
      (auto simp: classify_set_body.simps [of statement rest] classify_set_word_def track_def
        classify_assignment_def Let_def split: if_splits option.splits)
qed

lemma classify_reset_body_no_track: "classify_reset_body rest \<noteq> Track n st"
  by (auto simp: classify_reset_body_def Let_def split: prod.splits)

lemma track_shape:
  assumes "classify_set s = Track n st"
  shows "st = set_normal_form s"
  using assms by (auto simp: classify_set_def classify_normalized_def trim_normal_form classify_reset_body_no_track
      split: if_splits prod.splits dest!: classify_set_body_track)

lemma strip_noise_plain:
  "ws_len (c # u) = 0 \<Longrightarrow> c \<noteq> CHR ''-'' \<Longrightarrow> c \<noteq> CHR ''/'' \<Longrightarrow> strip_leading_noise (c # u) = c # u"
  unfolding strip_leading_noise_def by (simp add: trim_start_id strip_noise.simps [of "c # u"] del: ws_len.simps)

lemma strip_noise_word:
  assumes "take_word n = (kw, rest)" "ws_len n = 0" "to_ascii_uppercase kw = ''SET''"
  shows "strip_leading_noise n = n"
proof -
  have n: "n = kw @ rest" using assms(1,2) break_word_append [of n kw rest]
    by (simp add: take_word_def trim_start_id)
  obtain c k where kw: "kw = c # k" using assms(3) by (cases kw) (auto simp: to_ascii_uppercase_def)
  then have "upper_char c = CHR ''S''" using assms(3) by (simp add: to_ascii_uppercase_def)
  then have "c \<noteq> CHR ''-''" "c \<noteq> CHR ''/''" by (auto simp: upper_char_def is_ascii_lower_def)
  then show ?thesis using assms(2) unfolding n kw append_Cons by (rule strip_noise_plain [rotated])
qed

lemma track_replays:
  assumes "classify_set s = Track n st" and "last st \<noteq> CHR '';''"
  shows "classify_set st = Track n st"
proof -
  have st: "st = set_normal_form s" by (rule track_shape [OF assms(1)])
  obtain kw rest where tw: "take_word st = (kw, rest)" by force
  have "to_ascii_uppercase kw = ''SET''"
    using assms(1) tw classify_reset_body_no_track
    by (auto simp: st classify_set_def classify_normalized_def split: if_splits)
  then have "strip_leading_noise st = st"
    using strip_noise_word [OF tw] ws_len_normal_form st by simp
  moreover have "trim_end st = st" by (simp add: st set_normal_form_def trim_end_idem)
  ultimately have "set_normal_form st = st"
    using assms(2) by (simp add: set_normal_form_def strip_semicolon_def)
  with assms(1) st show ?thesis by (simp add: classify_set_def)
qed

definition is_name_char :: "char \<Rightarrow> bool" where
  "is_name_char c \<longleftrightarrow> is_ascii_alphanumeric c \<or> c = CHR ''_'' \<or> c = CHR ''$'' \<or> c = CHR ''.''"

lemma is_identifier_chars: "is_identifier p \<Longrightarrow> p \<noteq> [] \<and> (\<forall>c \<in> set p. is_name_char c)"
  by (cases p) (auto simp: is_identifier_def is_name_char_def is_ascii_alphanumeric_def list_all_iff)

lemma split_on_chars: "set s \<subseteq> insert sep (\<Union> (set ` set (split_on sep s)))"
proof (induction sep s rule: split_on.induct)
  case (2 sep c s)
  then show ?case by (cases "split_on sep s") auto
qed simp

lemma parameter_name_chars:
  assumes "is_parameter_name n"
  shows "n \<noteq> [] \<and> (\<forall>c \<in> set n. is_name_char c)"
proof -
  have ids: "\<forall>p \<in> set (split_on (CHR ''.'') n). is_identifier p"
    using assms by (auto simp: is_parameter_name_def split: list.splits)
  then have "\<forall>p \<in> set (split_on (CHR ''.'') n). \<forall>c \<in> set p. is_name_char c"
    using is_identifier_chars by blast
  moreover have "is_name_char (CHR ''.'')" by (simp add: is_name_char_def)
  moreover have "n \<noteq> []" using assms by auto
  ultimately show ?thesis using split_on_chars [of n "CHR ''.''"] by blast
qed

lemma name_char_plain:
  "is_name_char c \<Longrightarrow> byte c < 128 \<and> \<not> ws1 (byte c) \<and> c \<noteq> CHR ''='' \<and> c \<noteq> CHR '','' \<and> c \<noteq> CHR '';''"
  by (auto simp: is_name_char_def ascii_defs ws1_def)

lemma ws_len_name: "is_name_char c \<Longrightarrow> ws_len (c # s) = 0"
  by (cases s) (auto dest!: name_char_plain dest: ws2_cont ws3_cont split: list.split)

lemma break_word_name: "\<forall>c \<in> set n. is_name_char c \<Longrightarrow> break_word n = (n, [])"
  by (induction n) (auto simp: ws_len_name dest: name_char_plain simp del: ws_len.simps)

lemma trim_end_id: "ws_len_rev (rev s) = 0 \<Longrightarrow> trim_end s = s"
  by (simp add: trim_end_def trim_end_rev.simps [of "rev s"])

lemma ws_len_rev_name: "is_name_char c \<Longrightarrow> ws_len_rev (c # s) = 0"
  by (cases s) (auto dest!: name_char_plain dest: ws2_cont ws3_cont split: list.split)

lemma trim_end_name: "is_name_char c \<Longrightarrow> trim_end (s @ [c]) = s @ [c]"
  by (rule trim_end_id) (simp add: ws_len_rev_name del: ws_len_rev.simps)

lemma reset_normal_form:
  assumes "is_parameter_name n"
  shows "set_normal_form (''RESET '' @ n) = ''RESET '' @ n"
proof -
  obtain m c where n: "n = m @ [c]" "is_name_char c"
    using parameter_name_chars [OF assms] by (cases n rule: rev_cases) auto
  have "is_name_char (CHR ''R'')" by (simp add: is_name_char_def ascii_defs)
  then have "strip_leading_noise (''RESET '' @ n) = ''RESET '' @ n"
    using strip_noise_plain [OF ws_len_name, of "CHR ''R''" "''ESET '' @ n"] by simp
  moreover have "trim_end (''RESET '' @ n) = ''RESET '' @ n"
    using trim_end_name [OF n(2), of "''RESET '' @ m"] n(1) by simp
  moreover have "strip_semicolon (''RESET '' @ n) = ''RESET '' @ n"
    using name_char_plain [OF n(2)] n(1) by (simp add: strip_semicolon_def)
  ultimately show ?thesis unfolding set_normal_form_def by (simp only:)
qed

lemma trim_start_space: "trim_start (CHR '' '' # s) = trim_start s"
  by (subst trim_start.simps) (simp add: ws1_def)

lemma take_word_plain:
  "ws_len s = 0 \<Longrightarrow> take_word s = break_word s"
  by (simp add: take_word_def trim_start_id)

lemma reset_replays:
  assumes "is_parameter_name n" "to_ascii_lowercase n = n" "n \<notin> {''all'', ''role'', ''session'', ''time''}"
  shows "classify_set (''RESET '' @ n) = ResetParam n"
proof -
  note n = parameter_name_chars [OF assms(1)]
  have tw: "take_word (CHR '' '' # n) = (n, [])"
    using n ws_len_name [of "hd n" "tl n"] break_word_name [of n]
    by (simp add: take_word_def trim_start_space trim_start_id)
  have kw: "take_word (''RESET '' @ n) = (''RESET'', '' '' @ n)"
    by (simp add: take_word_plain ws1_def ws2_def ws3_def split: list.split)
  have "to_ascii_uppercase n \<noteq> to_ascii_uppercase m" if "to_ascii_lowercase m = m" "n \<noteq> m" for m
    using that assms(2) by (metis lower_of_upper)
  moreover have "to_ascii_lowercase ''all'' = ''all''" "to_ascii_uppercase ''all'' = ''ALL''"
    "to_ascii_lowercase ''role'' = ''role''" "to_ascii_uppercase ''role'' = ''ROLE''"
    "to_ascii_lowercase ''session'' = ''session''" "to_ascii_uppercase ''session'' = ''SESSION''"
    "to_ascii_lowercase ''time'' = ''time''" "to_ascii_uppercase ''time'' = ''TIME''" by code_simp+
  ultimately have "to_ascii_uppercase n \<notin> {''ALL'', ''ROLE'', ''SESSION'', ''TIME''}"
    using assms(3) by (metis insertE insertI1 insertI2 singletonD)
  moreover have "to_ascii_uppercase ''RESET'' = ''RESET''" by code_simp
  ultimately show ?thesis
    unfolding classify_set_def reset_normal_form [OF assms(1)] classify_normalized_def kw
    by (simp add: classify_reset_body_def tw assms(1,2))
qed

subsection \<open>Synchronising a backend\<close>

text \<open>
  What the delta needs of whatever runs it: a statement tracked under a name puts itself in
  force for that name and touches no other, and \<open>RESET\<close> of a name takes it away.
\<close>

locale param_sync =
  fixes exec :: "'g \<Rightarrow> string \<Rightarrow> 'g"
    and in_force :: "'g \<Rightarrow> string \<Rightarrow> string option"
    and sets :: "string \<Rightarrow> string \<Rightarrow> bool"
    and resettable :: "string \<Rightarrow> bool"
  assumes exec_set: "sets name st \<Longrightarrow> in_force (exec g st) = (in_force g)(name \<mapsto> st)"
    and exec_reset: "resettable name \<Longrightarrow> in_force (exec g (''RESET '' @ name)) = (in_force g)(name := None)"
begin

lemma run_resets:
  "\<forall>(n, _) \<in> set xs. resettable n \<Longrightarrow>
   in_force (foldl exec g (map (\<lambda>(n, _). ''RESET '' @ n) xs)) = (\<lambda>n. if n \<in> fst ` set xs then None else in_force g n)"
  by (induction xs arbitrary: g) (auto simp: exec_reset fun_eq_iff simp del: append_Cons)

lemma run_sets:
  "\<forall>(n, st) \<in> set xs. sets n st \<Longrightarrow> distinct (map fst xs) \<Longrightarrow>
   in_force (foldl exec g (map snd xs)) = in_force g ++ map_of xs"
proof (induction xs arbitrary: g)
  case (Cons x xs)
  then have "map_of xs (fst x) = None" by (simp add: map_of_eq_None_iff)
  with Cons show ?case
    by (auto simp: exec_set fun_eq_iff map_add_def split: option.splits prod.splits)
qed simp

lemma run_delta:
  assumes "btree (desired cp)" "btree applied" "in_force g = map_of applied"
    and "\<forall>(n, st) \<in> set (desired cp). sets n st" and "\<forall>(n, st) \<in> set applied. resettable n"
  shows "in_force (foldl exec g (delta cp applied)) = map_of (desired cp)"
proof
  fix n
  let ?gone = "filter (\<lambda>(n, _). map_of (desired cp) n = None) applied"
  let ?new = "filter (\<lambda>(n, st). map_of applied n \<noteq> Some st) (desired cp)"
  have d: "distinct (map fst ?new)" using assms(1) by (simp add: btree_def distinct_map_filter)
  have g: "fst ` set ?gone = {n. map_of (desired cp) n = None \<and> map_of applied n \<noteq> None}"
    using assms(2) by (force simp: btree_lookup [symmetric] map_of_eq_None_iff image_iff)
  have new: "map_of ?new n = (if map_of applied n = map_of (desired cp) n then None else map_of (desired cp) n)"
  proof (cases "map_of ?new n")
    case None
    then have "\<And>st. (n, st) \<in> set (desired cp) \<Longrightarrow> map_of applied n = Some st"
      by (auto simp: map_of_eq_None_iff image_iff)
    then have "map_of (desired cp) n = Some a \<Longrightarrow> map_of applied n = Some a" for a
      by (simp add: map_of_SomeD)
    with None show ?thesis by (cases "map_of (desired cp) n") auto
  next
    case (Some st)
    then have "(n, st) \<in> set (desired cp)" "map_of applied n \<noteq> Some st"
      by (auto dest: map_of_SomeD)
    with Some assms(1) show ?thesis by (auto simp: btree_lookup [symmetric])
  qed
  have "in_force (foldl exec g (delta cp applied)) =
      (\<lambda>n. if n \<in> fst ` set ?gone then None else in_force g n) ++ map_of ?new"
    unfolding delta_def foldl_append
    using assms(4,5) d run_sets [of ?new] run_resets [of ?gone g] by auto
  then show "in_force (foldl exec g (delta cp applied)) n = map_of (desired cp) n"
    unfolding g by (simp add: map_add_def new assms(3) split: option.splits)
qed

end

text \<open>
  The reader of the pooler itself meets the contract: it reads back the statements it
  generates the way it meant them.
\<close>

definition read_back :: "(string \<rightharpoonup> string) \<Rightarrow> string \<Rightarrow> (string \<rightharpoonup> string)" where
  "read_back g st =
     (case classify_set st of
        Track n s \<Rightarrow> g(n \<mapsto> s)
      | ResetParam n \<Rightarrow> g(n := None)
      | ResetAll \<Rightarrow> Map.empty
      | _ \<Rightarrow> g)"

interpretation own_reading: param_sync read_back "\<lambda>g. g" "\<lambda>n st. classify_set st = Track n st"
    "\<lambda>n. classify_set (''RESET '' @ n) = ResetParam n"
  by unfold_locales (simp_all add: read_back_def)

text \<open>
  Replay is verbatim: a statement the pooler tracks is, read again, the same statement
  under the same name, and the reset it would generate for that name is read as a reset of
  that name. (Names that double as keywords of \<open>RESET\<close> are the exception.)
\<close>

theorem tracked_statement_replays:
  assumes "classify_set s = Track n st" and "last st \<noteq> CHR '';''"
    and "is_parameter_name n" and "to_ascii_lowercase n = n"
    and "n \<notin> {''all'', ''role'', ''session'', ''time''}"
  shows "classify_set st = Track n st \<and> classify_set (''RESET '' @ n) = ResetParam n"
  using track_replays [OF assms(1,2)] reset_replays [OF assms(3-5)] by blast

theorem tracked_statement_replays_witness:
  "classify_set ''set Search_Path TO app'' = Track ''search_path'' ''set Search_Path TO app''
   \<and> classify_set ''RESET search_path'' = ResetParam ''search_path''"
proof -
  have c: "classify_set ''set Search_Path TO app;'' = Track ''search_path'' ''set Search_Path TO app''"
    and i: "is_parameter_name ''search_path''" "to_ascii_lowercase ''search_path'' = ''search_path''"
    by code_simp+
  show ?thesis using tracked_statement_replays [OF c _ i] by simp
qed

text \<open>
  The delta sent at checkout is right: run on a backend that has exactly the
  parameters in \<open>applied\<close>, it leaves the backend with exactly the ones the client wants,
  neither one too many from the previous client nor one missing.
\<close>

theorem delta_synchronises:
  assumes "btree (desired cp)" and "btree applied"
    and "\<forall>(n, st) \<in> set (desired cp). classify_set st = Track n st"
    and "\<forall>(n, st) \<in> set applied. classify_set (''RESET '' @ n) = ResetParam n"
  shows "foldl read_back (map_of applied) (delta cp applied) = map_of (desired cp)"
  using own_reading.run_delta [OF assms(1,2) refl assms(3,4)] .

theorem delta_synchronises_witness:
  "foldl read_back (map_of [(''a'', ''SET a = 1''), (''b'', ''SET b = 2'')])
     (delta \<lparr>desired = [(''b'', ''SET b = 3''), (''c'', ''SET c = 4'')], pending = []\<rparr>
        [(''a'', ''SET a = 1''), (''b'', ''SET b = 2'')])
   = map_of [(''b'', ''SET b = 3''), (''c'', ''SET c = 4'')]"
proof -
  have s: "classify_set ''SET b = 3'' = Track ''b'' ''SET b = 3''" "classify_set ''SET c = 4'' = Track ''c'' ''SET c = 4''"
    "classify_set (''RESET a'') = ResetParam ''a''" "classify_set (''RESET b'') = ResetParam ''b''"
    by code_simp+
  show ?thesis
    using delta_synchronises [of "\<lparr>desired = [(''b'', ''SET b = 3''), (''c'', ''SET c = 4'')], pending = []\<rparr>"
        "[(''a'', ''SET a = 1''), (''b'', ''SET b = 2'')]"] s
    by (simp add: btree_def less_eq_char_def)
qed

section \<open>Quoting\<close>

text \<open>How SQL reads a quoted literal after its opening quote: the value and what follows.\<close>

fun read_literal :: "string \<Rightarrow> (string \<times> string) option" where
  "read_literal [] = None"
| "read_literal [c] = (if c = squote then Some ([], []) else None)"
| "read_literal (c # d # s) =
     (if c = squote then
        (if d = squote then map_option (\<lambda>(v, r). (squote # v, r)) (read_literal s) else Some ([], d # s))
      else map_option (\<lambda>(v, r). (c # v, r)) (read_literal (d # s)))"

lemma read_double_quotes: "read_literal (double_quotes v @ [squote]) = Some (v, [])"
proof (induction v)
  case (Cons c v)
  obtain d u where "double_quotes v @ [squote] = d # u" by (cases "double_quotes v @ [squote]") auto
  with Cons show ?case by (auto simp: double_quotes_def)
qed (simp add: double_quotes_def)

text \<open>
  A value from the startup packet cannot break out of the statement composed for it:
  read as an SQL literal, what follows the assignment is exactly the client's value, and
  nothing is left after it.
\<close>

theorem seeded_value_is_one_literal:
  "\<exists>lit. seed_statement name v = ''SET '' @ name @ '' = '' @ [squote] @ lit \<and> read_literal lit = Some (v, [])"
  by (rule exI [of _ "double_quotes v @ [squote]"]) (simp add: seed_statement_def read_double_quotes)

end
