(* ===== verification/Classify.thy ===== *)
theory Classify
  imports Params Wire
begin

text \<open>
  What a client message costs (\<open>havuz-pg/src/classify.rs\<close>): whether it pins the backend to
  its client, and whether a replica may serve it. The results say that a batch is judged by
  its statements one by one, that every ambiguity of routing resolves to the primary, and,
  as concrete inputs, which spellings the keyword scan does not recognise.
\<close>

section \<open>Pinning\<close>

datatype ClientIntent = Terminate | SyncPoint | Pipelined | Pins PinReason | Ordinary

definition parse_message_sql :: "string \<Rightarrow> string option" where
  "parse_message_sql bs =
     (case split_on (CHR 0x00) bs of
        _ # sql # _ \<Rightarrow> Some (from_utf8_lossy sql)
      | _ \<Rightarrow> None)"

definition text_body :: "string \<Rightarrow> string" where
  "text_body bs =
     (let end_at = (case position (\<lambda>c. c = CHR 0x00) bs of Some i \<Rightarrow> i | None \<Rightarrow> length bs)
      in from_utf8_lossy (take end_at bs))"

text \<open>The loop over the occurrences of \<open>pg_advisory_\<close>; each round starts after the last.\<close>

definition advisory :: string where "advisory = ''pg_advisory_''"

lemma length_advisory [simp]: "length advisory = 12"
  by (simp add: advisory_def)

function mentions_lock_from :: "string \<Rightarrow> bool" where
  "mentions_lock_from lower =
     (case find_sub advisory lower of
        None \<Rightarrow> False
      | Some at \<Rightarrow>
          let rest = drop at lower in
          if \<not> starts_with ''pg_advisory_xact_'' rest \<and> \<not> starts_with ''pg_advisory_unlock'' rest
          then True
          else mentions_lock_from (drop 12 rest))"
  by pat_completeness auto
termination
proof (relation "measure length")
  fix lower at rest
  assume "find_sub advisory lower = Some at" "rest = drop at lower"
  then show "(drop 12 rest, lower) \<in> measure length"
    using find_sub_Some [of advisory lower at] by auto
qed simp

declare mentions_lock_from.simps [simp del]

definition mentions_session_advisory_lock :: "string \<Rightarrow> bool" where
  "mentions_session_advisory_lock sql = mentions_lock_from (to_ascii_lowercase sql)"

definition word_at :: "string list \<Rightarrow> nat \<Rightarrow> string option" where
  "word_at ws i = (if i < length ws then Some (ws ! i) else None)"

definition statement_pin_reason :: "string \<Rightarrow> PinReason option" where
  "statement_pin_reason statement =
     (let normalized = strip_leading_noise statement in
      if normalized = [] then None
      else
        let ws = split_whitespace (first_words normalized 4);
            w = word_at ws
        in
        if w 0 = Some ''SET'' \<or> w 0 = Some ''RESET'' then
          (case classify_set normalized of Pin r \<Rightarrow> Some r | _ \<Rightarrow> None)
        else if w 0 = Some ''LISTEN'' \<or> w 0 = Some ''UNLISTEN'' then Some Listen
        else if w 0 = Some ''CREATE'' then
          (if w 1 = Some ''TEMP'' \<or> w 1 = Some ''TEMPORARY'' then Some TempTable
           else if w 1 = Some ''GLOBAL'' \<and> (w 2 = Some ''TEMP'' \<or> w 2 = Some ''TEMPORARY'') then Some TempTable
           else if w 1 = Some ''LOCAL'' \<and> (w 2 = Some ''TEMP'' \<or> w 2 = Some ''TEMPORARY'') then Some TempTable
           else None)
        else if w 0 = Some ''PREPARE'' then Some ServerSidePrepare
        else if w 0 = Some ''DEALLOCATE'' then Some ServerSidePrepare
        else if w 0 = Some ''DECLARE'' then
          (if contains (to_ascii_uppercase normalized) ''WITH HOLD'' then Some HoldableCursor else None)
        else if w 0 = Some ''COPY'' then Some BulkTransfer
        else if w 0 = Some ''START'' \<and> w 1 = Some ''REPLICATION'' then Some Replication
        else if mentions_session_advisory_lock normalized then Some AdvisoryLock
        else None)"

definition sql_pin_reason :: "string \<Rightarrow> PinReason option" where
  "sql_pin_reason sql = find_map statement_pin_reason (split_statements sql)"

definition classify_message :: "Message \<Rightarrow> ClientIntent" where
  "classify_message m =
     (let t = tag m in
      if t = CHR ''X'' then Terminate
      else if t = CHR ''Q'' then
        (case sql_pin_reason (text_body (body m)) of Some r \<Rightarrow> Pins r | None \<Rightarrow> SyncPoint)
      else if t = CHR ''P'' then
        (case Option.bind (parse_message_sql (body m)) sql_pin_reason of
           Some r \<Rightarrow> Pins r | None \<Rightarrow> Pipelined)
      else if t = CHR ''S'' then SyncPoint
      else if t = CHR ''H'' then Pipelined
      else if t \<in> {CHR ''B'', CHR ''D'', CHR ''E'', CHR ''C''} then Pipelined
      else if t \<in> {CHR ''d'', CHR ''c'', CHR ''f''} then Pins BulkTransfer
      else if t = CHR ''F'' then SyncPoint
      else Ordinary)"

section \<open>Routing\<close>

datatype RouteIntent = Read | Write

fun route_as_str :: "RouteIntent \<Rightarrow> string" where
  "route_as_str Read = ''read''"
| "route_as_str Write = ''write''"

definition opens_transaction :: "string \<Rightarrow> bool" where
  "opens_transaction sql =
     (let normalized = to_ascii_uppercase (strip_literals (strip_leading_noise sql));
          w = word_at (split_whitespace normalized)
      in w 0 = Some ''BEGIN'' \<or> (w 0 = Some ''START'' \<and> w 1 = Some ''TRANSACTION''))"

definition starts_read_only_transaction :: "string \<Rightarrow> bool" where
  "starts_read_only_transaction sql =
     (let normalized = to_ascii_uppercase (strip_literals (strip_leading_noise sql))
      in opens_transaction sql \<and> contains normalized ''READ ONLY'')"

definition read_keywords :: "string list" where
  "read_keywords = [''SELECT'', ''WITH'', ''SHOW'', ''EXPLAIN'', ''TABLE'', ''VALUES'', ''FETCH'']"

definition lock_markers :: "string list" where
  "lock_markers = [''FOR UPDATE'', ''FOR NO KEY UPDATE'', ''FOR SHARE'', ''FOR KEY SHARE'']"

definition write_markers :: "string list" where
  "write_markers = [''NEXTVAL('', ''SETVAL('', ''PG_ADVISORY'', ''SELECT INTO'', '' INTO '']"

definition cte_markers :: "string list" where
  "cte_markers = [''INSERT '', ''UPDATE '', ''DELETE '', ''MERGE '']"

definition statement_route_intent :: "string \<Rightarrow> bool \<Rightarrow> RouteIntent" where
  "statement_route_intent statement session_read_only =
     (let normalized = strip_leading_noise statement in
      if trim normalized = [] then Read
      else if opens_transaction normalized then
        (if session_read_only \<or> starts_read_only_transaction normalized then Read else Write)
      else
        let first = first_words normalized 1 in
        if first \<notin> set read_keywords then Write
        else
          let scannable = to_ascii_uppercase (strip_literals normalized) in
          if list_ex (contains scannable) lock_markers then Write
          else if list_ex (contains scannable) write_markers then Write
          else if first = ''WITH'' \<and> list_ex (contains scannable) cte_markers then Write
          else if first = ''EXPLAIN'' \<and> contains scannable ''ANALYZE'' then Write
          else Read)"

definition substantive :: "string \<Rightarrow> bool" where
  "substantive s \<longleftrightarrow> trim (strip_leading_noise s) \<noteq> []"

definition route_intent :: "string \<Rightarrow> bool \<Rightarrow> RouteIntent" where
  "route_intent sql session_read_only =
     (let statements = filter substantive (split_statements sql) in
      if statements = [] then Write
      else if list_ex (\<lambda>s. statement_route_intent s session_read_only = Write) statements then Write
      else Read)"

section \<open>A batch is its statements\<close>

lemma split_Nil [simp]: "split_statements [] = []"
  by (simp add: split_statements_def)

lemma strip_leading_noise_Nil [simp]: "strip_leading_noise [] = []"
  by (simp add: strip_leading_noise_def strip_noise.simps)

lemma sql_pin_reason_statement:
  "st \<in> set (split_statements sql) \<Longrightarrow> sql_pin_reason st = statement_pin_reason st"
  using split_statements_stable [of st sql]
  by (cases "st = []") (auto simp: sql_pin_reason_def statement_pin_reason_def split: option.splits)

lemma route_intent_statement:
  assumes "st \<in> set (split_statements sql)" and "substantive st"
  shows "route_intent st ro = statement_route_intent st ro"
proof -
  have "st \<noteq> []" using assms(2) by (auto simp: substantive_def trim_def trim_end_def trim_end_rev.simps [of "[]"])
  then have "split_statements st = [st]" using assms(1) by (rule split_statements_stable [rotated])
  with assms(2) show ?thesis
    by (cases "statement_route_intent st ro") (simp_all add: route_intent_def Let_def)
qed

text \<open>
  A simple query pins its backend exactly when one of its statements, sent alone,
  would: batching neither hides a pinning statement nor makes a harmless one pin.
\<close>

theorem batch_pins_iff_statement_pins:
  "sql_pin_reason sql \<noteq> None \<longleftrightarrow> (\<exists>st \<in> set (split_statements sql). sql_pin_reason st \<noteq> None)"
proof -
  have "sql_pin_reason sql = None \<longleftrightarrow> (\<forall>st \<in> set (split_statements sql). statement_pin_reason st = None)"
    by (simp add: sql_pin_reason_def find_map_None)
  also have "\<dots> \<longleftrightarrow> (\<forall>st \<in> set (split_statements sql). sql_pin_reason st = None)"
    using sql_pin_reason_statement by auto
  finally show ?thesis by auto
qed

text \<open>
  A batch may go to a replica exactly when it has a statement that says something and
  every such statement, sent alone, may go to a replica. An empty or commented-out payload
  goes to the primary.
\<close>

theorem batch_is_read_iff_statements_are:
  "route_intent sql ro = Read \<longleftrightarrow>
     (\<exists>st \<in> set (split_statements sql). substantive st)
     \<and> (\<forall>st \<in> set (split_statements sql). substantive st \<longrightarrow> route_intent st ro = Read)"
proof -
  have not_write: "i \<noteq> Write \<longleftrightarrow> i = Read" for i by (cases i) auto
  have "route_intent sql ro = Read \<longleftrightarrow> (\<exists>st \<in> set (split_statements sql). substantive st)
     \<and> (\<forall>st \<in> set (split_statements sql). substantive st \<longrightarrow> statement_route_intent st ro = Read)"
    by (auto simp: route_intent_def Let_def list_ex_iff filter_empty_conv not_write [symmetric])
  also have "\<dots> \<longleftrightarrow> (\<exists>st \<in> set (split_statements sql). substantive st)
     \<and> (\<forall>st \<in> set (split_statements sql). substantive st \<longrightarrow> route_intent st ro = Read)"
    using route_intent_statement by auto
  finally show ?thesis .
qed

theorem batch_is_read_iff_statements_are_witness:
  "route_intent ''SELECT 1; -- done'' False = Read"
proof -
  have "split_statements ''SELECT 1; -- done'' = [''SELECT 1'', '' -- done'']" by code_simp
  moreover have "substantive ''SELECT 1''" "\<not> substantive '' -- done''" "route_intent ''SELECT 1'' False = Read"
    by code_simp+
  ultimately show ?thesis using batch_is_read_iff_statements_are [of "''SELECT 1; -- done''" False] by simp
qed

lemma statement_read_only_mono:
  "statement_route_intent st False = Read \<Longrightarrow> statement_route_intent st True = Read"
  by (simp add: statement_route_intent_def Let_def split: if_splits)

lemma statement_read_only_opener:
  "statement_route_intent st False \<noteq> statement_route_intent st True \<Longrightarrow> opens_transaction st"
  by (auto simp: statement_route_intent_def opens_transaction_def strip_leading_noise_idem Let_def split: if_splits)

text \<open>
  That the session cannot write only ever changes the answer in one direction, from
  the primary to a replica, and only for a batch with a statement that opens a transaction.
\<close>

theorem read_only_session_only_relaxes_openers:
  "(route_intent sql False = Read \<longrightarrow> route_intent sql True = Read)
   \<and> (route_intent sql False \<noteq> route_intent sql True \<longrightarrow>
        (\<exists>st \<in> set (split_statements sql). opens_transaction st))"
proof -
  have w: "i = Write \<longleftrightarrow> i \<noteq> Read" for i by (cases i) auto
  have "route_intent sql False = Read \<Longrightarrow> route_intent sql True = Read"
    by (auto simp: route_intent_def Let_def list_ex_iff w statement_read_only_mono split: if_splits)
  moreover have "route_intent sql False = route_intent sql True"
    if "\<forall>st \<in> set (split_statements sql). \<not> opens_transaction st"
  proof -
    have "\<forall>st \<in> set (split_statements sql). statement_route_intent st False = statement_route_intent st True"
      using that statement_read_only_opener by blast
    then show ?thesis by (simp add: route_intent_def Let_def list_ex_iff cong: conj_cong)
  qed
  ultimately show ?thesis by blast
qed

theorem read_only_session_only_relaxes_openers_witness:
  "route_intent ''SELECT 1'' True = Read"
proof -
  have "route_intent ''SELECT 1'' False = Read" by code_simp
  then show ?thesis using read_only_session_only_relaxes_openers [of "''SELECT 1''"] by blast
qed

section \<open>Spellings the keyword scan does not see\<close>

text \<open>
  A data-modifying CTE with a line break after its verb counts as a read, since the markers
  want a space there.
\<close>

lemma multiline_cte_counts_as_read:
  "route_intent (''WITH d AS (DELETE'' @ [newline] @ ''FROM t RETURNING *) SELECT * FROM d'') False = Read"
  by code_simp

text \<open>Two spaces, and a row lock or a holdable cursor is not recognised.\<close>

lemma double_space_lock_counts_as_read: "route_intent ''SELECT * FROM t FOR  UPDATE'' False = Read"
  by code_simp

lemma double_space_hold_does_not_pin:
  "sql_pin_reason ''DECLARE c CURSOR WITH  HOLD FOR SELECT 1'' = None"
  by code_simp

text \<open>Temporary objects made by statements that do not begin with \<open>CREATE TEMP\<close>.\<close>

lemma temp_view_does_not_pin: "sql_pin_reason ''CREATE OR REPLACE TEMP VIEW v AS SELECT 1'' = None"
  by code_simp

lemma select_into_temp_does_not_pin: "sql_pin_reason ''SELECT 1 INTO TEMP t'' = None"
  by code_simp

text \<open>
  With standard-conforming strings a backslash is an ordinary character, but the scan lets
  it escape the closing quote, and what follows is taken for part of the literal.
\<close>

lemma backslash_hides_statement:
  "sql_pin_reason ([CHR ''S'', CHR ''E'', CHR ''L'', CHR ''E'', CHR ''C'', CHR ''T'', CHR '' '', squote, backslash, squote]
     @ ''; LISTEN c; SELECT '' @ [squote, squote]) = None"
  by code_simp

text \<open>Comments nest in SQL, but not in the search for the leading keyword.\<close>

lemma nested_comment_hides_listen: "sql_pin_reason ''/* /* */ */ LISTEN c'' = None"
  by code_simp

text \<open>Ways past \<open>defeats_read_only\<close>.\<close>

lemma read_write_with_comma_passes:
  "\<not> defeats_read_only ''BEGIN READ WRITE, ISOLATION LEVEL SERIALIZABLE''"
  by code_simp

lemma set_transaction_read_only_off_passes: "\<not> defeats_read_only ''SET transaction_read_only = off''"
  by code_simp

text \<open>\<open>SET ROLE\<close> pins, on purpose; the same change under its parameter name is replayed.\<close>

lemma session_authorization_is_replayed:
  "classify_set ''SET session_authorization = bob''
     = Track ''session_authorization'' ''SET session_authorization = bob''"
  by code_simp

lemma startup_role_is_replayed:
  "map_of (desired (from_startup [(''role'', ''admin'')])) ''role''
     = Some (''SET role = '' @ [squote] @ ''admin'' @ [squote])"
  by code_simp

text \<open>
  A batch that rolls back in the middle is not tracked, because its effect on the parameters
  is not clear from its text, but it is not pinned either: the second \<open>SET\<close> stays on the
  backend.
\<close>

lemma rollback_batch_neither_pins_nor_tracks:
  "sql_pin_reason ''BEGIN; SET a TO 1; ROLLBACK; SET b TO 2'' = None
   \<and> actions_for_sql ''BEGIN; SET a TO 1; ROLLBACK; SET b TO 2'' = [pin_param]"
  by code_simp

end
