(* ===== verification/Prepared.thy ===== *)
theory Prepared
  imports Wire Proto
begin

text \<open>
  Prepared statement rewriting (\<open>havuz-pg/src/prepared.rs\<close>). SHA-256 comes from a library
  and is the parameter \<open>digest\<close>; the only thing assumed of it, where it is assumed, is that
  it does not collide on the statements in play. A client's names and a backend's cache are
  the state. The results: rewriting replaces exactly the statement name of a message; the
  cache is bounded and evicts its oldest entry; and the global name determines the
  statement's text and parameter types.
\<close>

definition MAX_STATEMENTS_PER_BACKEND :: nat where
  "MAX_STATEMENTS_PER_BACKEND = 256"

definition UNNAMED :: string where "UNNAMED = []"

datatype PreparedError = PMalformed string string | UnknownStatement string

fun prepared_error_text :: "PreparedError \<Rightarrow> string" where
  "prepared_error_text (PMalformed m d) = ''malformed '' @ m @ '' message: '' @ d"
| "prepared_error_text (UnknownStatement n) =
     ''client bound to unknown prepared statement '' @ [CHR 0x27] @ n @ [CHR 0x27]"

record PreparedStatement =
  global_name_of :: string
  parse_message :: string
  stmt_sql :: string

datatype Rewrite =
  Unchanged
  | Replace Message
  | ReplayThen string string Message       \<comment> \<open>the \<open>Parse\<close> body, the global name, the message\<close>
  | RewriteParse string Message
  | CloseStatement string string Message

section \<open>Message bodies\<close>

text \<open>A null-terminated string: its bytes and what follows the terminator.\<close>

definition cstring :: "string \<Rightarrow> (string \<times> string) option" where
  "cstring bs = (case position (\<lambda>c. c = NUL) bs of None \<Rightarrow> None | Some i \<Rightarrow> Some (take i bs, drop (i + 1) bs))"

definition decode_parse :: "string \<Rightarrow> PreparedError + string \<times> string \<times> string" where
  "decode_parse bs =
     (case cstring bs of
        None \<Rightarrow> Inl (PMalformed ''Parse'' ''no statement name'')
      | Some (name, r) \<Rightarrow>
          (case cstring r of
             None \<Rightarrow> Inl (PMalformed ''Parse'' ''no query text'')
           | Some (sql, types) \<Rightarrow>
               if \<not> utf8_valid name then Inl (PMalformed ''Parse'' ''name is not utf-8'')
               else if \<not> utf8_valid sql then Inl (PMalformed ''Parse'' ''query is not utf-8'')
               else Inr (name, sql, types)))"

definition build_parse :: "string \<Rightarrow> string \<Rightarrow> string \<Rightarrow> string" where
  "build_parse name sql types = name @ [NUL] @ sql @ [NUL] @ types"

definition bind_statement_name :: "string \<Rightarrow> PreparedError + string" where
  "bind_statement_name bs =
     (case cstring bs of
        None \<Rightarrow> Inl (PMalformed ''Bind'' ''no portal name'')
      | Some (portal, r) \<Rightarrow>
          (case cstring r of
             None \<Rightarrow> Inl (PMalformed ''Bind'' ''no statement name'')
           | Some (name, _) \<Rightarrow>
               if utf8_valid name then Inr name else Inl (PMalformed ''Bind'' ''name is not utf-8'')))"

definition describe_target :: "string \<Rightarrow> PreparedError + char \<times> string" where
  "describe_target bs =
     (case bs of
        [] \<Rightarrow> Inl (PMalformed ''Describe/Close'' ''empty body'')
      | kind # r \<Rightarrow>
          (case cstring r of
             None \<Rightarrow> Inl (PMalformed ''Describe/Close'' ''unterminated name'')
           | Some (name, _) \<Rightarrow>
               if utf8_valid name then Inr (kind, name)
               else Inl (PMalformed ''Describe/Close'' ''name is not utf-8'')))"

text \<open>Past \<open>index\<close> strings: the bytes skipped and the rest.\<close>

fun skip_cstrings :: "nat \<Rightarrow> string \<Rightarrow> (string \<times> string) option" where
  "skip_cstrings 0 bs = Some ([], bs)"
| "skip_cstrings (Suc n) bs =
     (case cstring bs of
        None \<Rightarrow> None
      | Some (s, r) \<Rightarrow> map_option (\<lambda>(p, r'). (s @ [NUL] @ p, r')) (skip_cstrings n r))"

definition replace_cstring :: "string \<Rightarrow> nat \<Rightarrow> string \<Rightarrow> PreparedError + string" where
  "replace_cstring bs index new =
     (let prefix_len =
            (if index = 0 \<and> bs \<noteq> [] \<and> (hd bs = CHR ''S'' \<or> hd bs = CHR ''P'') \<and> length bs > 1
             then 1 else 0);
          err = Inl (PMalformed ''message'' ''unterminated string'')
      in case skip_cstrings index (drop prefix_len bs) of
           None \<Rightarrow> err
         | Some (skipped, r) \<Rightarrow>
             (case cstring r of
                None \<Rightarrow> err
              | Some (_, rest) \<Rightarrow>
                  Inr (take prefix_len bs @ skipped @ new @ [NUL] @ rest)))"

section \<open>Global names\<close>

definition hex_digit :: "nat \<Rightarrow> char" where
  "hex_digit n = (if n < 10 then char_of (48 + n) else char_of (87 + n))"

definition hex_byte :: "u8 \<Rightarrow> string" where
  "hex_byte b = [hex_digit (unat b div 16), hex_digit (unat b mod 16)]"

definition preimage :: "string \<Rightarrow> string \<Rightarrow> string" where
  "preimage sql types = sql @ [NUL] @ types"

definition global_name :: "(string \<Rightarrow> u8 list) \<Rightarrow> string \<Rightarrow> string \<Rightarrow> string" where
  "global_name digest sql types =
     ''havuz_'' @ concat (map hex_byte (take 16 (digest (preimage sql types))))"

section \<open>A backend's cache\<close>

record BackendStatements =
  present :: "string set"
  order :: "string list"

definition new_backend_statements :: BackendStatements where
  "new_backend_statements = \<lparr>present = {}, order = []\<rparr>"

definition has_statement :: "BackendStatements \<Rightarrow> string \<Rightarrow> bool" where
  "has_statement b name \<longleftrightarrow> name \<in> present b"

definition insert_statement :: "string \<Rightarrow> BackendStatements \<Rightarrow> string option \<times> BackendStatements" where
  "insert_statement name b =
     (if name \<in> present b then (None, b)
      else
        let (evicted, b) =
              (if card (present b) \<ge> MAX_STATEMENTS_PER_BACKEND then
                 (case order b of
                    [] \<Rightarrow> (None, b)
                  | old # rest \<Rightarrow> (Some old, \<lparr>present = present b - {old}, order = rest\<rparr>))
               else (None, b))
        in (evicted, \<lparr>present = insert name (present b), order = order b @ [name]\<rparr>))"

definition remove_statement :: "string \<Rightarrow> BackendStatements \<Rightarrow> BackendStatements" where
  "remove_statement name b =
     (if name \<in> present b
      then \<lparr>present = present b - {name}, order = filter (\<lambda>n. n \<noteq> name) (order b)\<rparr>
      else b)"

definition clear_statements :: "BackendStatements \<Rightarrow> BackendStatements" where
  "clear_statements b = \<lparr>present = {}, order = []\<rparr>"

section \<open>A client's names\<close>

type_synonym ClientStatements = "string \<rightharpoonup> PreparedStatement"

definition on_parse :: "(string \<Rightarrow> u8 list) \<Rightarrow> Message \<Rightarrow> ClientStatements
    \<Rightarrow> (PreparedError + Rewrite) \<times> ClientStatements" where
  "on_parse digest m cs =
     (case decode_parse (body m) of
        Inl e \<Rightarrow> (Inl e, cs)
      | Inr (name, sql, types) \<Rightarrow>
          if name = UNNAMED then (Inr Unchanged, cs)
          else
            let g = global_name digest sql types;
                p = build_parse g sql types
            in (Inr (RewriteParse g (msg (CHR ''P'') p)),
                cs(name \<mapsto> \<lparr>global_name_of = g, parse_message = p, stmt_sql = sql\<rparr>)))"

definition redirect :: "ClientStatements \<Rightarrow> Message \<Rightarrow> string \<Rightarrow> nat \<Rightarrow> BackendStatements
    \<Rightarrow> PreparedError + Rewrite" where
  "redirect cs m client_name field_index backend =
     (if client_name = UNNAMED then Inr Unchanged
      else case cs client_name of
        None \<Rightarrow> Inl (UnknownStatement client_name)
      | Some st \<Rightarrow>
          (case replace_cstring (body m) field_index (global_name_of st) of
             Inl e \<Rightarrow> Inl e
           | Inr b \<Rightarrow>
               if has_statement backend (global_name_of st) then Inr (Replace (msg (tag m) b))
               else Inr (ReplayThen (parse_message st) (global_name_of st) (msg (tag m) b))))"

definition on_bind :: "ClientStatements \<Rightarrow> Message \<Rightarrow> BackendStatements \<Rightarrow> PreparedError + Rewrite" where
  "on_bind cs m backend =
     (case bind_statement_name (body m) of
        Inl e \<Rightarrow> Inl e
      | Inr name \<Rightarrow> redirect cs m name 1 backend)"

definition on_describe_or_close :: "ClientStatements \<Rightarrow> Message \<Rightarrow> BackendStatements \<Rightarrow> PreparedError + Rewrite" where
  "on_describe_or_close cs m backend =
     (case describe_target (body m) of
        Inl e \<Rightarrow> Inl e
      | Inr (kind, name) \<Rightarrow>
          if kind \<noteq> CHR ''S'' then Inr Unchanged
          else
            (case redirect cs m name 0 backend of
               Inl e \<Rightarrow> Inl e
             | Inr rewritten \<Rightarrow>
                 if tag m = CHR ''C'' then
                   (case cs name of
                      None \<Rightarrow> Inr rewritten
                    | Some st \<Rightarrow>
                        (case rewritten of
                           Replace m' \<Rightarrow> Inr (CloseStatement (global_name_of st) name m')
                         | ReplayThen _ _ m' \<Rightarrow> Inr (CloseStatement (global_name_of st) name m')
                         | Unchanged \<Rightarrow> Inr (CloseStatement (global_name_of st) name m)
                         | other \<Rightarrow> Inr other))
                 else Inr rewritten))"

definition forget_statement :: "string \<Rightarrow> ClientStatements \<Rightarrow> ClientStatements" where
  "forget_statement client_name cs = cs(client_name := None)"

section \<open>Strings on the wire\<close>

lemma cstring_encoded: "NUL \<notin> set s \<Longrightarrow> cstring (s @ NUL # r) = Some (s, r)"
  using position_append_hit [of s "\<lambda>c. c = NUL" NUL r] by (force simp: cstring_def)

lemma cstring_Some: "cstring bs = Some (s, r) \<longleftrightarrow> bs = s @ NUL # r \<and> NUL \<notin> set s"
proof
  assume "cstring bs = Some (s, r)"
  then obtain i where i: "position (\<lambda>c. c = NUL) bs = Some i" "s = take i bs" "r = drop (i + 1) bs"
    by (auto simp: cstring_def split: option.splits)
  then have at: "i < length bs" "bs ! i = NUL" "\<forall>j < i. bs ! j \<noteq> NUL" by (auto simp: position_Some_iff)
  have "bs = s @ NUL # r" using id_take_nth_drop [OF at(1)] at(2) i(2,3) by simp
  moreover have "NUL \<notin> set s" using at(1,3) i(2) by (auto simp: in_set_conv_nth)
  ultimately show "bs = s @ NUL # r \<and> NUL \<notin> set s" ..
qed (simp add: cstring_encoded)

lemma redirect_bind_body:
  assumes "bind_statement_name bs = Inr name"
  obtains portal rest where "bs = portal @ NUL # name @ NUL # rest" "NUL \<notin> set portal" "NUL \<notin> set name"
    "utf8_valid name" "\<And>g. replace_cstring bs 1 g = Inr (portal @ NUL # g @ NUL # rest)"
proof -
  obtain portal r rest where "cstring bs = Some (portal, r)" "cstring r = Some (name, rest)" "utf8_valid name"
    using assms by (auto simp: bind_statement_name_def split: option.splits if_splits)
  then show ?thesis
    by (intro that [of portal rest]) (auto simp: cstring_Some replace_cstring_def cstring_encoded)
qed

lemma redirect_describe_body:
  assumes "describe_target bs = Inr (CHR ''S'', name)"
  obtains rest where "bs = CHR ''S'' # name @ NUL # rest" "NUL \<notin> set name" "utf8_valid name"
    "\<And>g. replace_cstring bs 0 g = Inr (CHR ''S'' # g @ NUL # rest)"
proof -
  obtain r rest where "bs = CHR ''S'' # r" "cstring r = Some (name, rest)" "utf8_valid name"
    using assms by (auto simp: describe_target_def split: list.splits option.splits if_splits)
  then show ?thesis
    by (intro that [of rest]) (auto simp: cstring_Some replace_cstring_def cstring_encoded)
qed

section \<open>Global names determine statements\<close>

lemma hex_digit_inj: "m < 16 \<Longrightarrow> n < 16 \<Longrightarrow> hex_digit m = hex_digit n \<Longrightarrow> m = n"
proof -
  assume "m < 16" "n < 16" "hex_digit m = hex_digit n"
  moreover have "of_char (hex_digit k) = (if k < 10 then 48 + k else 87 + k)" if "k < 16" for k :: nat
    using that by (simp add: hex_digit_def)
  ultimately have "(if m < 10 then 48 + m else 87 + m) = (if n < 10 then 48 + n else 87 + n)" by metis
  with \<open>m < 16\<close> \<open>n < 16\<close> show "m = n" by (simp split: if_splits)
qed

lemma hex_byte_inj: "hex_byte a = hex_byte b \<Longrightarrow> a = b"
proof -
  assume h: "hex_byte a = hex_byte b"
  have lt: "unat c div 16 < 16" "unat c mod 16 < 16" for c :: u8
    using unsigned_less [of c, where 'a = nat] by (auto simp: less_mult_imp_div_less)
  have "unat a div 16 = unat b div 16" "unat a mod 16 = unat b mod 16"
    using h lt by (auto simp: hex_byte_def intro: hex_digit_inj)
  then have "unat a = unat b" by (metis div_mult_mod_eq)
  then show "a = b" by (rule unsigned_word_eqI)
qed

lemma hex_bytes_inj: "concat (map hex_byte xs) = concat (map hex_byte ys) \<Longrightarrow> xs = ys"
proof (induction xs arbitrary: ys)
  case Nil
  then show ?case by (cases ys) (auto simp: hex_byte_def)
next
  case (Cons x xs)
  then obtain y ys' where ys: "ys = y # ys'" by (cases ys) (auto simp: hex_byte_def)
  have "length (hex_byte x) = length (hex_byte y)" by (simp add: hex_byte_def)
  with Cons ys show ?case by (auto intro: hex_byte_inj)
qed

lemma hex_byte_chars: "c \<in> set (hex_byte b) \<Longrightarrow> is_ascii_alphanumeric c"
proof -
  have "is_ascii_alphanumeric (hex_digit n)" if "n < 16" for n
    using that by (auto simp: hex_digit_def ascii_defs)
  moreover have "unat b div 16 < 16"
    using unsigned_less [of b, where 'a = nat] by (auto simp: less_mult_imp_div_less)
  ultimately show "c \<in> set (hex_byte b) \<Longrightarrow> is_ascii_alphanumeric c" by (auto simp: hex_byte_def)
qed

lemma global_name_chars: "c \<in> set (global_name digest sql types) \<Longrightarrow> is_ascii_alphanumeric c \<or> c = CHR ''_''"
  by (auto simp: global_name_def dest: hex_byte_chars) (auto simp: ascii_defs)

lemma word_char_ascii:
  assumes "is_ascii_alphanumeric c \<or> c = CHR ''_''"
  shows "0 < byte c \<and> byte c < 128"
  using assms by (auto simp: ascii_defs)

lemma global_name_bytes: "c \<in> set (global_name digest sql types) \<Longrightarrow> 0 < byte c \<and> byte c < 128"
  by (rule word_char_ascii [OF global_name_chars])

lemma global_name_plain [simp]: "NUL \<notin> set (global_name digest sql types)" "global_name digest sql types \<noteq> []"
    "utf8_valid (global_name digest sql types)"
proof -
  show "NUL \<notin> set (global_name digest sql types)"
  proof
    assume "NUL \<in> set (global_name digest sql types)"
    from global_name_bytes [OF this] show False by simp
  qed
  show "utf8_valid (global_name digest sql types)"
    by (rule utf8_valid_ascii) (simp add: global_name_bytes)
qed (simp add: global_name_def)

lemma preimage_inj:
  assumes "NUL \<notin> set a" "NUL \<notin> set b" "preimage a s = preimage b t"
  shows "a = b \<and> s = t"
proof -
  have "a @ NUL # s = b @ NUL # t" using assms(3) unfolding preimage_def append_Cons append_Nil .
  then have "Some (a, s) = Some (b, t)"
    using cstring_encoded [OF assms(1), of s] cstring_encoded [OF assms(2), of t] by (simp only:)
  then show ?thesis by simp
qed

text \<open>
  Two statements share a global name only when they are the same statement: the same
  text and the same parameter types, provided the first sixteen bytes of the digest do not
  collide on the two.
\<close>

theorem global_name_determines_statement:
  assumes "global_name digest sql1 types1 = global_name digest sql2 types2"
    and "NUL \<notin> set sql1" and "NUL \<notin> set sql2"
    and no_collision: "take 16 (digest (preimage sql1 types1)) = take 16 (digest (preimage sql2 types2))
      \<longrightarrow> preimage sql1 types1 = preimage sql2 types2"
  shows "sql1 = sql2 \<and> types1 = types2"
proof -
  have "take 16 (digest (preimage sql1 types1)) = take 16 (digest (preimage sql2 types2))"
    using assms(1) by (auto simp: global_name_def intro: hex_bytes_inj)
  then show ?thesis using assms(2,3) no_collision preimage_inj by blast
qed

definition example_digest :: "string \<Rightarrow> u8 list" where
  "example_digest s = map (word_of_nat \<circ> of_char) s"

theorem global_name_determines_statement_witness:
  "global_name example_digest ''SELECT 1'' [] \<noteq> global_name example_digest ''SELECT 2'' []"
proof
  assume "global_name example_digest ''SELECT 1'' [] = global_name example_digest ''SELECT 2'' []"
  then have "''SELECT 1'' = ''SELECT 2'' \<and> ([] :: string) = []"
  proof (rule global_name_determines_statement)
    show "take 16 (example_digest (preimage ''SELECT 1'' [])) = take 16 (example_digest (preimage ''SELECT 2'' []))
        \<longrightarrow> preimage ''SELECT 1'' [] = preimage ''SELECT 2'' []" by code_simp
  qed simp_all
  then show False by simp
qed

section \<open>The cache\<close>

text \<open>
  What the relay relies on in a backend's cache, and the lemmas it needs: a cache that
  agrees with the names the server holds keeps agreeing when the relay makes the server
  parse a statement (closing the evicted one) and when it closes one.
\<close>

locale stmt_cache =
  fixes has :: "'c \<Rightarrow> string \<Rightarrow> bool"
    and ins :: "string \<Rightarrow> 'c \<Rightarrow> string option \<times> 'c"
    and rem :: "string \<Rightarrow> 'c \<Rightarrow> 'c"
    and inv :: "'c \<Rightarrow> bool"
  assumes ins_inv: "inv c \<Longrightarrow> inv (snd (ins n c))"
    and rem_inv: "inv c \<Longrightarrow> inv (rem n c)"
    and has_ins: "inv c \<Longrightarrow> ins n c = (ev, c') \<Longrightarrow> has c' m \<longleftrightarrow> m = n \<or> (has c m \<and> ev \<noteq> Some m)"
    and ins_evicts: "inv c \<Longrightarrow> ins n c = (Some e, c') \<Longrightarrow> has c e \<and> e \<noteq> n"
    and has_rem: "inv c \<Longrightarrow> has (rem n c) m \<longleftrightarrow> has c m \<and> m \<noteq> n"
begin

definition agrees :: "'c \<Rightarrow> string set \<Rightarrow> bool" where
  "agrees c T \<longleftrightarrow> inv c \<and> (\<forall>n. has c n \<longleftrightarrow> n \<in> T)"

lemma agrees_parse:
  assumes "agrees c T" and "ins n c = (ev, c')"
  shows "agrees c' (insert n (T - set_option ev))"
proof -
  have inv: "inv c" "inv c'" using assms ins_inv [of c n] by (auto simp: agrees_def)
  have "n \<notin> set_option ev" using ins_evicts [OF inv(1)] assms(2) by (cases ev) auto
  moreover have "has c' m \<longleftrightarrow> m = n \<or> (m \<in> T \<and> m \<notin> set_option ev)" for m
    using has_ins [OF inv(1) assms(2), of m] assms(1) by (auto simp: agrees_def)
  ultimately show ?thesis using inv by (auto simp: agrees_def)
qed

lemma agrees_close: "agrees c T \<Longrightarrow> agrees (rem n c) (T - {n})"
  by (auto simp: agrees_def rem_inv has_rem)

end

definition cache_inv :: "BackendStatements \<Rightarrow> bool" where
  "cache_inv b \<longleftrightarrow> present b = set (order b) \<and> distinct (order b) \<and> length (order b) \<le> MAX_STATEMENTS_PER_BACKEND"

lemma cache_card: "cache_inv b \<Longrightarrow> card (present b) = length (order b)"
  by (simp add: cache_inv_def distinct_card)

text \<open>What \<open>insert\<close> does, in terms of the order alone.\<close>

lemma insert_statement_order:
  assumes "cache_inv b"
  shows "insert_statement n b =
    (if n \<in> set (order b) then (None, b)
     else if length (order b) < MAX_STATEMENTS_PER_BACKEND
       then (None, \<lparr>present = insert n (present b), order = order b @ [n]\<rparr>)
     else (Some (hd (order b)), \<lparr>present = insert n (present b - {hd (order b)}), order = tl (order b) @ [n]\<rparr>))"
proof -
  have "present b = set (order b)" using assms by (simp add: cache_inv_def)
  moreover have "order b \<noteq> []" if "\<not> length (order b) < MAX_STATEMENTS_PER_BACKEND"
    using that by (auto simp: MAX_STATEMENTS_PER_BACKEND_def)
  moreover have "0 < MAX_STATEMENTS_PER_BACKEND" by (simp add: MAX_STATEMENTS_PER_BACKEND_def)
  ultimately show ?thesis
    using cache_card [OF assms] by (auto simp: insert_statement_def Let_def split: list.splits)
qed

lemma insert_statement_inv: "cache_inv b \<Longrightarrow> cache_inv (snd (insert_statement n b))"
proof -
  assume inv: "cache_inv b"
  show ?thesis
  proof (cases "order b")
    case Nil
    with inv show ?thesis
      by (simp add: insert_statement_order) (simp add: cache_inv_def MAX_STATEMENTS_PER_BACKEND_def)
  next
    case (Cons o1 os)
    with inv show ?thesis
      by (auto simp: insert_statement_order) (auto simp: cache_inv_def)
  qed
qed

lemma remove_statement_inv: "cache_inv b \<Longrightarrow> cache_inv (remove_statement n b)"
  by (auto simp: cache_inv_def remove_statement_def intro: le_trans [OF length_filter_le])

lemma insert_statement_cases:
  assumes "cache_inv c"
  obtains (present) "n \<in> present c" "insert_statement n c = (None, c)"
  | (room) "n \<notin> present c" "insert_statement n c = (None, \<lparr>present = insert n (present c), order = order c @ [n]\<rparr>)"
  | (full) e where "n \<notin> present c" "e \<in> present c"
      "insert_statement n c = (Some e, \<lparr>present = insert n (present c - {e}), order = tl (order c) @ [n]\<rparr>)"
proof -
  have p: "present c = set (order c)" using assms by (simp add: cache_inv_def)
  have "hd (order c) \<in> set (order c)" if "\<not> length (order c) < MAX_STATEMENTS_PER_BACKEND"
    using that by (cases "order c") (simp_all add: MAX_STATEMENTS_PER_BACKEND_def)
  note hd_in = this
  consider "n \<in> set (order c)" | "n \<notin> set (order c)" "length (order c) < MAX_STATEMENTS_PER_BACKEND"
    | "n \<notin> set (order c)" "\<not> length (order c) < MAX_STATEMENTS_PER_BACKEND" by blast
  then show ?thesis
  proof cases
    case 1
    then show ?thesis by (intro that(1)) (simp_all add: insert_statement_order [OF assms] p)
  next
    case 2
    then show ?thesis by (intro that(2)) (simp_all add: insert_statement_order [OF assms] p)
  next
    case 3
    then show ?thesis by (intro that(3) [of "hd (order c)"]) (simp_all add: insert_statement_order [OF assms] p hd_in)
  qed
qed

lemma has_inserted:
  assumes "cache_inv c" "insert_statement n c = (ev, c')"
  shows "has_statement c' m \<longleftrightarrow> m = n \<or> (has_statement c m \<and> ev \<noteq> Some m)"
  using assms(1) by (cases rule: insert_statement_cases [where n = n]) (use assms(2) in \<open>auto simp: has_statement_def\<close>)

lemma evicted_was_held:
  assumes "cache_inv c" "insert_statement n c = (Some e, c')"
  shows "has_statement c e \<and> e \<noteq> n"
  using assms(1) by (cases rule: insert_statement_cases [where n = n]) (use assms(2) in \<open>auto simp: has_statement_def\<close>)

interpretation backend_cache: stmt_cache has_statement insert_statement remove_statement cache_inv
  by unfold_locales
    (auto simp: insert_statement_inv remove_statement_inv has_inserted evicted_was_held,
      auto simp: has_statement_def remove_statement_def split: if_splits)

datatype CacheOp = CacheInsert string | CacheRemove string | CacheClear

fun cache_apply :: "BackendStatements \<Rightarrow> CacheOp \<Rightarrow> BackendStatements" where
  "cache_apply b (CacheInsert n) = snd (insert_statement n b)"
| "cache_apply b (CacheRemove n) = remove_statement n b"
| "cache_apply b CacheClear = clear_statements b"

interpretation cache_life: op_machine "\<lambda>b. b = new_backend_statements" cache_apply cache_inv
proof
  fix b op
  show "b = new_backend_statements \<Longrightarrow> cache_inv b" by (simp add: cache_inv_def new_backend_statements_def)
  show "cache_inv b \<Longrightarrow> cache_inv (cache_apply b op)"
    by (cases op) (simp_all add: insert_statement_inv remove_statement_inv,
        simp add: cache_inv_def clear_statements_def)
qed


text \<open>
  Rewriting a \<open>Bind\<close> touches nothing but the statement name: the portal and the
  parameters after it are the client's, byte for byte, and the name now there is the global
  one of the statement the client parsed under its own.
\<close>

theorem bind_rewrite_replaces_only_the_name:
  assumes "bind_statement_name (body m) = Inr name" and "name \<noteq> []" and "cs name = Some st"
  shows "\<exists>portal rest. body m = portal @ NUL # name @ NUL # rest
    \<and> on_bind cs m backend =
        Inr (let m' = msg (tag m) (portal @ NUL # global_name_of st @ NUL # rest) in
             if global_name_of st \<in> present backend then Replace m'
             else ReplayThen (parse_message st) (global_name_of st) m')"
proof -
  obtain portal rest where b: "body m = portal @ NUL # name @ NUL # rest"
      "\<And>g. replace_cstring (body m) 1 g = Inr (portal @ NUL # g @ NUL # rest)"
    using redirect_bind_body [OF assms(1)] by metis
  have "on_bind cs m backend = redirect cs m name 1 backend" by (simp add: on_bind_def assms(1))
  also have "\<dots> = Inr (let m' = msg (tag m) (portal @ NUL # global_name_of st @ NUL # rest) in
             if global_name_of st \<in> present backend then Replace m'
             else ReplayThen (parse_message st) (global_name_of st) m')"
    using assms(2,3) b(2) by (simp add: redirect_def UNNAMED_def has_statement_def)
  finally show ?thesis using b(1) by blast
qed

definition example_statement :: PreparedStatement where
  "example_statement = \<lparr>global_name_of = ''havuz_0a'', parse_message = [], stmt_sql = ''SELECT 1''\<rparr>"

theorem bind_rewrite_replaces_only_the_name_witness:
  "\<exists>portal rest. ''p'' @ NUL # ''s1'' @ NUL # ''xyz'' = portal @ NUL # ''s1'' @ NUL # rest
    \<and> on_bind [''s1'' \<mapsto> example_statement] \<lparr>tag = CHR ''B'', body = ''p'' @ NUL # ''s1'' @ NUL # ''xyz''\<rparr>
        \<lparr>present = {''havuz_0a''}, order = [''havuz_0a'']\<rparr>
      = Inr (Replace (msg (CHR ''B'') (portal @ NUL # ''havuz_0a'' @ NUL # rest)))"
proof -
  let ?m = "\<lparr>tag = CHR ''B'', body = ''p'' @ NUL # ''s1'' @ NUL # ''xyz''\<rparr>"
  have "bind_statement_name (body ?m) = Inr ''s1''" by code_simp
  from bind_rewrite_replaces_only_the_name [OF this, of "[''s1'' \<mapsto> example_statement]" example_statement
      "\<lparr>present = {''havuz_0a''}, order = [''havuz_0a'']\<rparr>"]
  show ?thesis by (simp add: example_statement_def)
qed

end
