(* ===== verification/Routing.thy ===== *)
theory Routing
  imports Breaker Classify
begin

text \<open>
  Choosing a target (\<open>havuz-pg/src/routing.rs\<close>), and how health probes move a replica in and
  out of rotation (\<open>havuz-pg/src/health.rs\<close>, \<open>apply_to_replica\<close>). The results are the
  module's three rules, that a replica is only ever chosen when its lag is known and within
  bounds and its breaker admits it, and that the weighted round-robin is exactly
  proportional. The times are read from one clock; a breaker counts from its own epoch.
\<close>

section \<open>State\<close>

datatype PrimaryReason = SplitDisabled | WriteStatement | ReadAfterWrite | TransactionPinned | NoReplicaAvailable

fun primary_as_str :: "PrimaryReason \<Rightarrow> string" where
  "primary_as_str SplitDisabled = ''split_disabled''"
| "primary_as_str WriteStatement = ''write''"
| "primary_as_str ReadAfterWrite = ''read_after_write''"
| "primary_as_str TransactionPinned = ''transaction_pinned''"
| "primary_as_str NoReplicaAvailable = ''no_replica_available''"

definition ALL_primary :: "PrimaryReason list" where
  "ALL_primary = [SplitDisabled, WriteStatement, ReadAfterWrite, TransactionPinned, NoReplicaAvailable]"

fun primary_index :: "PrimaryReason \<Rightarrow> nat" where
  "primary_index SplitDisabled = 0"
| "primary_index WriteStatement = 1"
| "primary_index ReadAfterWrite = 2"
| "primary_index TransactionPinned = 3"
| "primary_index NoReplicaAvailable = 4"

lemma primary_index_position: "position (\<lambda>r. r = x) ALL_primary = Some (primary_index x)"
  by (cases x) (simp_all add: ALL_primary_def)

datatype Route = Primary PrimaryReason | Replica nat

record RoutingConfig =
  read_write_split :: bool
  sticky_after_write :: duration
  max_replica_lag :: "duration option"
  health_interval :: duration
  rc_failure_threshold :: u32
  recovery_cooldown :: duration

definition LAG_UNKNOWN :: u64 where "LAG_UNKNOWN = - 1"

record ReplicaState =
  label :: string
  weight :: u32
  breaker :: CircuitBreaker
  epoch :: time
  lag_millis :: u64

definition new_replica :: "time \<Rightarrow> string \<Rightarrow> u32 \<Rightarrow> BreakerConfig \<Rightarrow> ReplicaState" where
  "new_replica now lbl w cfg =
     \<lparr>label = lbl, weight = max w 1, breaker = new_breaker cfg, epoch = now, lag_millis = LAG_UNKNOWN\<rparr>"

definition set_lag :: "duration option \<Rightarrow> ReplicaState \<Rightarrow> ReplicaState" where
  "set_lag lag r =
     r\<lparr>lag_millis := (case lag of Some d \<Rightarrow> word_of_nat (as_millis d) | None \<Rightarrow> LAG_UNKNOWN)\<rparr>"

definition lag :: "ReplicaState \<Rightarrow> duration option" where
  "lag r = (if lag_millis r = LAG_UNKNOWN then None else Some (unat (lag_millis r) * 10 ^ 6))"

definition lag_ok :: "duration option \<Rightarrow> ReplicaState \<Rightarrow> bool" where
  "lag_ok max_lag r =
     (case max_lag of
        None \<Rightarrow> True
      | Some limit \<Rightarrow> (case lag r of None \<Rightarrow> False | Some l \<Rightarrow> \<not> l > limit))"

definition is_eligible :: "time \<Rightarrow> duration option \<Rightarrow> ReplicaState \<Rightarrow> bool \<times> ReplicaState" where
  "is_eligible now max_lag r =
     (if \<not> lag_ok max_lag r then (False, r)
      else case allows (now - epoch r) (breaker r) of (ok, b) \<Rightarrow> (ok, r\<lparr>breaker := b\<rparr>))"

record SessionRouting =
  last_write :: "time option"
  transaction_route :: "Route option"

definition new_routing :: SessionRouting where
  "new_routing = \<lparr>last_write = None, transaction_route = None\<rparr>"

definition note_write :: "time \<Rightarrow> SessionRouting \<Rightarrow> SessionRouting" where
  "note_write now s = s\<lparr>last_write := Some now\<rparr>"

definition is_sticky :: "time \<Rightarrow> duration \<Rightarrow> SessionRouting \<Rightarrow> bool" where
  "is_sticky now window s =
     (if window = 0 then False
      else case last_write s of None \<Rightarrow> False | Some at \<Rightarrow> now - at < window)"

definition begin_transaction :: "Route \<Rightarrow> SessionRouting \<Rightarrow> SessionRouting" where
  "begin_transaction route s = s\<lparr>transaction_route := Some route\<rparr>"

definition end_transaction :: "SessionRouting \<Rightarrow> SessionRouting" where
  "end_transaction s = s\<lparr>transaction_route := None\<rparr>"

record RoutingStats =
  to_primary :: u64
  to_replica :: u64
  primary_reasons :: "u64 list"

definition zero_stats :: RoutingStats where
  "zero_stats = \<lparr>to_primary = 0, to_replica = 0, primary_reasons = replicate 5 0\<rparr>"

fun record_route :: "Route \<Rightarrow> RoutingStats \<Rightarrow> RoutingStats" where
  "record_route (Primary r) st =
     st\<lparr>to_primary := to_primary st + 1,
        primary_reasons := (primary_reasons st)[primary_index r := primary_reasons st ! primary_index r + 1]\<rparr>"
| "record_route (Replica _) st = st\<lparr>to_replica := to_replica st + 1\<rparr>"

record Router =
  rt_config :: RoutingConfig
  replicas :: "ReplicaState list"
  cursor :: u64
  rt_stats :: RoutingStats

definition new_router :: "RoutingConfig \<Rightarrow> ReplicaState list \<Rightarrow> Router" where
  "new_router cfg rs = \<lparr>rt_config = cfg, replicas = rs, cursor = 0, rt_stats = zero_stats\<rparr>"

section \<open>Choosing\<close>

text \<open>Every replica is asked, in order; asking may take the probe slot of its breaker.\<close>

fun ask_replicas :: "time \<Rightarrow> duration option \<Rightarrow> nat \<Rightarrow> ReplicaState list
    \<Rightarrow> (nat \<times> u32) list \<times> ReplicaState list" where
  "ask_replicas now max_lag i [] = ([], [])"
| "ask_replicas now max_lag i (r # rs) =
     (case is_eligible now max_lag r of (ok, r') \<Rightarrow>
      case ask_replicas now max_lag (Suc i) rs of (es, rs') \<Rightarrow>
        ((if ok then (i, weight r) # es else es), r' # rs'))"

text \<open>The loop over the eligible replicas with its running total.\<close>

fun pick_at :: "nat \<Rightarrow> nat \<Rightarrow> (nat \<times> u32) list \<Rightarrow> nat option" where
  "pick_at pos acc [] = None"
| "pick_at pos acc ((i, w) # es) =
     (let acc = acc + unat w in if pos < acc then Some i else pick_at pos acc es)"

definition total_weight :: "(nat \<times> u32) list \<Rightarrow> nat" where
  "total_weight es = sum_list (map (unat \<circ> snd) es)"

definition pick_replica :: "time \<Rightarrow> Router \<Rightarrow> nat option \<times> Router" where
  "pick_replica now rt =
     (case ask_replicas now (max_replica_lag (rt_config rt)) 0 (replicas rt) of (es, rs) \<Rightarrow>
        if es = [] then (None, rt\<lparr>replicas := rs\<rparr>)
        else (pick_at (unat (cursor rt) mod total_weight es) 0 es,
              rt\<lparr>replicas := rs, cursor := cursor rt + 1\<rparr>))"

definition decide :: "time \<Rightarrow> RouteIntent \<Rightarrow> SessionRouting \<Rightarrow> Router \<Rightarrow> Route \<times> SessionRouting \<times> Router" where
  "decide now intent s rt =
     (let s' = (if intent = Write then note_write now s else s) in
      case transaction_route s of
        Some existing \<Rightarrow>
          ((case existing of Primary _ \<Rightarrow> Primary TransactionPinned | Replica i \<Rightarrow> Replica i), s', rt)
      | None \<Rightarrow>
          if \<not> read_write_split (rt_config rt) \<or> replicas rt = [] then (Primary SplitDisabled, s', rt)
          else if intent = Write then (Primary WriteStatement, s', rt)
          else if is_sticky now (sticky_after_write (rt_config rt)) s then (Primary ReadAfterWrite, s, rt)
          else (case pick_replica now rt of
                  (Some i, rt') \<Rightarrow> (Replica i, s, rt')
                | (None, rt') \<Rightarrow> (Primary NoReplicaAvailable, s, rt')))"

definition choose_route :: "time \<Rightarrow> RouteIntent \<Rightarrow> SessionRouting \<Rightarrow> Router \<Rightarrow> Route \<times> SessionRouting \<times> Router" where
  "choose_route now intent s rt =
     (case decide now intent s rt of (route, s', rt') \<Rightarrow>
        (route, s', rt'\<lparr>rt_stats := record_route route (rt_stats rt')\<rparr>))"

definition record_result :: "time \<Rightarrow> Route \<Rightarrow> bool \<Rightarrow> Router \<Rightarrow> Router" where
  "record_result now route success rt =
     (case route of
        Primary _ \<Rightarrow> rt
      | Replica i \<Rightarrow>
          if i < length (replicas rt) then
            let r = replicas rt ! i;
                b = (if success then record_success (breaker r)
                     else record_failure (now - epoch r) (breaker r))
            in rt\<lparr>replicas := (replicas rt)[i := r\<lparr>breaker := b\<rparr>]\<rparr>
          else rt)"

section \<open>Health probes\<close>

datatype ProbeResult = Healthy bool "duration option" | ProbeFailed string

fun apply_to_replica :: "time \<Rightarrow> ProbeResult \<Rightarrow> ReplicaState \<Rightarrow> ReplicaState" where
  "apply_to_replica now (Healthy in_recovery l) r =
     (let r = set_lag l r in r\<lparr>breaker := record_success (breaker r)\<rparr>)"
| "apply_to_replica now (ProbeFailed e) r =
     (let r = set_lag None r in r\<lparr>breaker := record_failure (now - epoch r) (breaker r)\<rparr>)"

section \<open>The rules\<close>

lemma ask_replicas_length: "length (snd (ask_replicas now l i rs)) = length rs"
proof (induction rs arbitrary: i)
  case (Cons r rs)
  obtain es rs' where "ask_replicas now l (Suc i) rs = (es, rs')" by force
  with Cons.IH [of "Suc i"] show ?case by (simp split: prod.splits)
qed simp

lemma ask_replicas_eligible:
  "(k, w) \<in> set (fst (ask_replicas now l i rs)) \<Longrightarrow>
   i \<le> k \<and> k < i + length rs \<and> w = weight (rs ! (k - i)) \<and> fst (is_eligible now l (rs ! (k - i)))"
proof (induction rs arbitrary: i)
  case (Cons r rs)
  obtain ok r' where e: "is_eligible now l r = (ok, r')" by force
  obtain es rs' where a: "ask_replicas now l (Suc i) rs = (es, rs')" by force
  show ?case
  proof (cases "(k, w) \<in> set es")
    case True
    with Cons.IH [of "Suc i"] a have
      "Suc i \<le> k \<and> k < Suc i + length rs \<and> w = weight (rs ! (k - Suc i)) \<and> fst (is_eligible now l (rs ! (k - Suc i)))"
      by simp
    then show ?thesis by (auto simp: nth_Cons' Suc_diff_le)
  next
    case False
    with Cons.prems e a show ?thesis by (auto split: if_splits)
  qed
qed simp

lemma pick_at_in: "pick_at pos acc es = Some i \<Longrightarrow> i \<in> fst ` set es"
  by (induction pos acc es rule: pick_at.induct) (auto simp: Let_def split: if_splits)

lemma pick_replica_eligible:
  assumes "pick_replica now rt = (Some i, rt')"
  shows "i < length (replicas rt) \<and> fst (is_eligible now (max_replica_lag (rt_config rt)) (replicas rt ! i))"
proof -
  obtain es rs where a: "ask_replicas now (max_replica_lag (rt_config rt)) 0 (replicas rt) = (es, rs)" by force
  with assms have "i \<in> fst ` set es" by (auto simp: pick_replica_def dest: pick_at_in split: if_splits)
  then show ?thesis using ask_replicas_eligible [of i _ now "max_replica_lag (rt_config rt)" 0 "replicas rt"] a
    by auto
qed


text \<open>
  A transaction never changes its target: while one is open every statement goes where
  it started, whatever its intent and whatever happened to the replicas; and a read within
  the sticky window of the session's own write goes to the primary.
\<close>

theorem transaction_and_sticky_routes:
  "(\<forall>route. transaction_route s = Some route \<longrightarrow>
      (case (route, fst (choose_route now intent s rt)) of
         (Primary _, Primary _) \<Rightarrow> True | (Replica i, Replica j) \<Rightarrow> i = j | _ \<Rightarrow> False))
   \<and> (\<forall>at. transaction_route s = None \<and> last_write s = Some at \<and> now - at < sticky_after_write (rt_config rt)
        \<longrightarrow> (\<exists>r. fst (choose_route now intent s rt) = Primary r))"
  by (auto simp: choose_route_def decide_def is_sticky_def Let_def split: option.splits Route.splits prod.splits)

definition example_router :: Router where
  "example_router =
     new_router \<lparr>read_write_split = True, sticky_after_write = 10 * 10 ^ 9, max_replica_lag = Some (5 * 10 ^ 9),
         health_interval = 5 * 10 ^ 9, rc_failure_threshold = 3, recovery_cooldown = 10 * 10 ^ 9\<rparr>
       [set_lag (Some 0) (new_replica 0 ''r1'' 2 default_config), set_lag (Some 0) (new_replica 0 ''r2'' 1 default_config)]"

lemmas example_router_simps =
  example_router_def new_router_def new_replica_def set_lag_def LAG_UNKNOWN_def new_breaker_def
  choose_route_def decide_def pick_replica_def is_eligible_def lag_ok_def lag_def as_millis_def
  allows_def breaker_state_def new_routing_def is_sticky_def total_weight_def Let_def


theorem transaction_and_sticky_routes_witness:
  "\<exists>r. fst (choose_route 5 Read (note_write 3 new_routing) example_router) = Primary r"
  using transaction_and_sticky_routes [of "note_write 3 new_routing" 5 Read example_router]
  by (simp add: note_write_def new_routing_def example_router_def new_router_def)

section \<open>Weighted round-robin\<close>

text \<open>The positions of one cycle, each replica repeated as often as its weight.\<close>

definition slots :: "(nat \<times> u32) list \<Rightarrow> nat list" where
  "slots es = concat (map (\<lambda>(i, w). replicate (unat w) i) es)"

lemma length_slots: "length (slots es) = total_weight es"
  by (induction es) (auto simp: slots_def total_weight_def)

lemma pick_at_slots:
  "pick_at (acc + pos) acc es = (if pos < total_weight es then Some (slots es ! pos) else None)"
proof (induction es arbitrary: acc pos)
  case Nil
  then show ?case by (simp add: total_weight_def)
next
  case (Cons e es)
  obtain i w where e: "e = (i, w)" by force
  show ?case
  proof (cases "pos < unat w")
    case True
    then show ?thesis by (simp add: e slots_def total_weight_def nth_append)
  next
    case False
    with Cons [of "acc + unat w" "pos - unat w"] show ?thesis
      by (auto simp: e slots_def total_weight_def nth_append Let_def)
  qed
qed

lemma count_list_replicate: "count_list (replicate n a) b = (if a = b then n else 0)"
  by (induction n) auto

lemma count_slots: "distinct (map fst es) \<Longrightarrow> (i, w) \<in> set es \<Longrightarrow> count_list (slots es) i = unat w"
proof (induction es)
  case (Cons e es)
  have none: "i \<notin> fst ` set xs \<Longrightarrow> count_list (slots xs) i = 0" for xs
    by (induction xs) (auto simp: slots_def count_list_0_iff)
  show ?case
  proof (cases "e = (i, w)")
    case True
    with Cons.prems none [of es] show ?thesis by (auto simp: slots_def count_list_append count_list_replicate)
  next
    case False
    with Cons have "fst e \<noteq> i" by (force simp: image_iff)
    with False Cons show ?thesis
      by (cases e) (auto simp: slots_def count_list_append count_list_replicate)
  qed
qed simp

lemma ask_replicas_distinct: "distinct (map fst (fst (ask_replicas now l i rs)))"
proof (induction rs arbitrary: i)
  case (Cons r rs)
  obtain ok r' where e: "is_eligible now l r = (ok, r')" by force
  obtain es rs' where a: "ask_replicas now l (Suc i) rs = (es, rs')" by force
  have "i \<notin> fst ` set es" using ask_replicas_eligible [of _ _ now l "Suc i" rs] a by force
  with Cons.IH [of "Suc i"] a e show ?case by simp
qed simp

text \<open>
  The round-robin is exactly proportional: over one full cycle of the cursor, which is
  as many picks as the eligible weights add up to, every eligible replica is picked exactly
  as often as its weight says, and nothing else is ever picked.
\<close>

theorem round_robin_is_proportional:
  assumes "fst (ask_replicas now l 0 rs) = es" and "(i, w) \<in> set es"
  shows "length (filter (\<lambda>c. pick_at (c mod total_weight es) 0 es = Some i) [k * total_weight es ..< (k + 1) * total_weight es])
    = unat w"
proof -
  let ?W = "total_weight es"
  have d: "distinct (map fst es)" using ask_replicas_distinct assms(1) by metis
  have cyc: "[k * ?W ..< (k + 1) * ?W] = map (\<lambda>p. p + k * ?W) [0..<?W]"
    using map_add_upt [of "k * ?W" ?W] by (simp add: add.commute)
  have "pick_at ((p + k * ?W) mod ?W) 0 es = Some (slots es ! p)" if "p < ?W" for p
    using pick_at_slots [of 0 p es] that by simp
  then have "length (filter (\<lambda>c. pick_at (c mod ?W) 0 es = Some i) [k * ?W ..< (k + 1) * ?W])
      = length (filter (\<lambda>p. slots es ! p = i) [0..<?W])"
    unfolding cyc filter_map length_map by (intro arg_cong [where f = length] filter_cong) auto
  also have "\<dots> = length (filter (\<lambda>x. x = i) (map ((!) (slots es)) [0..<?W]))"
    by (simp add: filter_map comp_def)
  also have "map ((!) (slots es)) [0..<?W] = slots es" by (simp add: length_slots [symmetric] map_nth)
  also have "length (filter (\<lambda>x. x = i) (slots es)) = count_list (slots es) i"
    unfolding count_list_eq_length_filter by (intro arg_cong [where f = length] filter_cong) auto
  finally show ?thesis using count_slots [OF d assms(2)] by simp
qed

theorem round_robin_is_proportional_witness:
  "length (filter (\<lambda>c. pick_at (c mod 3) 0 [(0, 2), (1, 1)] = Some 0) [0 ..< 3]) = 2"
proof -
  have a: "fst (ask_replicas 3 None 0 (replicas example_router)) = [(0, 2), (1, 1)]"
    by (simp add: example_router_simps)
  from round_robin_is_proportional [OF a, of 0 2 0] show ?thesis by (simp add: total_weight_def)
qed

text \<open>
  Asking every replica takes the half-open probe slot of each, also of the ones not
  picked, and only a recorded result gives it back: a second choice finds it taken.
\<close>

definition half_open_router :: Router where
  "half_open_router = example_router\<lparr>replicas := map (\<lambda>r. r\<lparr>breaker := (breaker r)\<lparr>b_state := 2\<rparr>\<rparr>) (replicas example_router)\<rparr>"

lemma choosing_one_replica_takes_every_probe_slot:
  "fst (choose_route 3 Read new_routing half_open_router) = Replica 0
   \<and> map (probe_in_flight \<circ> breaker) (replicas (snd (snd (choose_route 3 Read new_routing half_open_router)))) = [True, True]"
  by (simp add: half_open_router_def example_router_simps)

section \<open>Health\<close>

text \<open>
  A failed probe takes a replica out of rotation at once when a lag limit is set,
  without waiting for its breaker to trip, and it stays out until a probe measures its lag
  again.
\<close>

theorem failed_probe_makes_ineligible:
  "fst (is_eligible now (Some limit) (apply_to_replica t (ProbeFailed e) r)) = False
   \<and> fst (is_eligible now (Some limit) (apply_to_replica t (Healthy rec None) r)) = False"
  by (simp add: is_eligible_def lag_ok_def lag_def set_lag_def Let_def)

section \<open>Statistics\<close>

definition stats_inv :: "RoutingStats \<Rightarrow> bool" where
  "stats_inv st \<longleftrightarrow> length (primary_reasons st) = 5 \<and> to_primary st = sum_list (primary_reasons st)"

lemma primary_index_less: "primary_index r < 5"
  by (cases r) simp_all

lemma sum_list_bump:
  "i < length xs \<Longrightarrow> sum_list (xs[i := xs ! i + 1]) = sum_list xs + (1 :: u64)"
  by (induction xs arbitrary: i) (auto split: nat.splits)

lemma record_route_inv: "stats_inv st \<Longrightarrow> stats_inv (record_route route st)"
  using primary_index_less by (cases route) (auto simp: stats_inv_def sum_list_bump)

interpretation routing_stats: op_machine "\<lambda>st. st = zero_stats" "\<lambda>st route. record_route route st" stats_inv
  by unfold_locales (auto simp: record_route_inv, simp add: stats_inv_def zero_stats_def sum_list_replicate)

end
