(* ===== verification/Cancel.thy ===== *)
theory Cancel
  imports Wire
begin

text \<open>
  Query cancellation (\<open>havuz-pg/src/cancel.rs\<close>). The registry maps the keys havuz hands out
  to the backend each session holds at the moment. The machine below lets sessions open,
  borrow, give back and end in any order; the result is that a key reaches exactly the
  backend its own session holds, or nothing. The random secrets are inputs; what tells
  live sessions apart is the counter, so the result asks that no session outlives a whole
  round of it, 2147483647 newer sessions.
\<close>

record CancelTarget =
  ct_host :: string
  ct_port :: u16
  backend_pid :: i32
  backend_secret :: i32

type_synonym CancelKey = "i32 \<times> i32"

record CancelRegistry =
  entries :: "CancelKey \<rightharpoonup> CancelTarget option"
  next_id :: i32

definition new_cancel_registry :: CancelRegistry where
  "new_cancel_registry = \<lparr>entries = Map.empty, next_id = 1\<rparr>"

text \<open>\<open>next.wrapping_add(1).max(1)\<close> on a signed word.\<close>

definition bump_id :: "i32 \<Rightarrow> i32" where
  "bump_id n = (let m = n + 1 in if sint m < 1 then 1 else m)"

definition scope :: "i32 \<Rightarrow> CancelRegistry \<Rightarrow> CancelKey \<times> CancelRegistry" where
  "scope secret reg =
     (let key = (next_id reg, secret)
      in (key, reg\<lparr>next_id := bump_id (next_id reg), entries := (entries reg)(key \<mapsto> None)\<rparr>))"

definition retarget :: "CancelKey \<Rightarrow> CancelTarget option \<Rightarrow> CancelRegistry \<Rightarrow> CancelRegistry" where
  "retarget key target reg =
     (case entries reg key of
        None \<Rightarrow> reg
      | Some _ \<Rightarrow> reg\<lparr>entries := (entries reg)(key \<mapsto> target)\<rparr>)"

definition unregister :: "CancelKey \<Rightarrow> CancelRegistry \<Rightarrow> CancelRegistry" where
  "unregister key reg = reg\<lparr>entries := (entries reg)(key := None)\<rparr>"

definition lookup :: "CancelKey \<Rightarrow> CancelRegistry \<Rightarrow> CancelTarget option" where
  "lookup key reg = (case entries reg key of None \<Rightarrow> None | Some t \<Rightarrow> t)"

text \<open>The packet \<open>deliver\<close> writes, and what the hook answers when there is nothing to cancel.\<close>

definition cancel_packet :: "CancelTarget \<Rightarrow> StartupPacket" where
  "cancel_packet t = CancelRequest (backend_pid t) (backend_secret t)"

definition cancel :: "CancelKey \<Rightarrow> CancelRegistry \<Rightarrow> string + StartupPacket" where
  "cancel key reg =
     (case lookup key reg of
        None \<Rightarrow> Inl ''this session is not running a query right now''
      | Some t \<Rightarrow> Inr (cancel_packet t))"

section \<open>Identifiers\<close>

definition ROUND :: nat where "ROUND = 2147483647"

definition nth_id :: "nat \<Rightarrow> i32" where
  "nth_id n = word_of_nat (n mod ROUND + 1)"

lemma nth_id_bound: "n mod ROUND + 1 < 2 ^ 31"
proof -
  have "n mod ROUND < ROUND" by (rule mod_less_divisor) (simp add: ROUND_def)
  then show ?thesis by (simp add: ROUND_def)
qed

lemma sint_small: "k < 2 ^ 31 \<Longrightarrow> sint (word_of_nat k :: i32) = int k"
proof -
  assume "k < 2 ^ 31"
  then have "signed_take_bit 31 (int k) = int k" by (intro signed_take_bit_int_eq_self) auto
  then show ?thesis using signed_of_int [where 'b = 32 and 'a = int, of "int k"] by simp
qed

lemma bump_nth_id: "bump_id (nth_id n) = nth_id (Suc n)"
proof (cases "n mod ROUND + 2 < 2 ^ 31")
  case True
  then have "Suc n mod ROUND = n mod ROUND + 1" by (simp add: mod_Suc ROUND_def)
  moreover have "nth_id n + 1 = word_of_nat (n mod ROUND + 2)" by (simp add: nth_id_def)
  moreover have "sint (word_of_nat (n mod ROUND + 2) :: i32) = int (n mod ROUND + 2)"
    using True by (rule sint_small)
  ultimately show ?thesis by (simp add: bump_id_def nth_id_def)
next
  case False
  then have n: "n mod ROUND = ROUND - 1" using nth_id_bound [of n] by (simp add: ROUND_def)
  then have "Suc n mod ROUND = 0" by (simp add: mod_Suc ROUND_def)
  moreover have "nth_id n + 1 = - 2147483648" unfolding nth_id_def n by (simp add: ROUND_def)
  moreover have "sint (- 2147483648 :: i32) < 1" by simp
  ultimately have "bump_id (nth_id n) = 1" unfolding bump_id_def Let_def by (simp only: if_True)
  with \<open>Suc n mod ROUND = 0\<close> show ?thesis by (simp add: nth_id_def)
qed

lemma nth_id_inj:
  assumes "nth_id m = nth_id n"
  shows "m mod ROUND = n mod ROUND"
proof -
  have "int (m mod ROUND + 1) = int (n mod ROUND + 1)"
    using assms sint_small [OF nth_id_bound [of m]] sint_small [OF nth_id_bound [of n]] by (simp only: nth_id_def)
  then show ?thesis by simp
qed

section \<open>Sessions\<close>

text \<open>
  A live session: its sequence number, its key, and the backend it holds. \<open>opened\<close> counts
  the sessions opened so far.
\<close>

record LiveSession =
  seq :: nat
  ls_key :: CancelKey
  holds :: "CancelTarget option"

record CancelSys =
  registry :: CancelRegistry
  live_sessions :: "LiveSession list"
  opened :: nat

definition cancel_start :: "CancelSys \<Rightarrow> bool" where
  "cancel_start s \<longleftrightarrow> s = \<lparr>registry = new_cancel_registry, live_sessions = [], opened = 0\<rparr>"

inductive cancel_step :: "CancelSys \<Rightarrow> CancelSys \<Rightarrow> bool" where
  open_session: "scope secret reg = (key, reg') \<Longrightarrow> \<forall>l \<in> set ls. n - seq l < ROUND \<Longrightarrow>
    cancel_step \<lparr>registry = reg, live_sessions = ls, opened = n\<rparr>
      \<lparr>registry = reg', live_sessions = \<lparr>seq = n, ls_key = key, holds = None\<rparr> # ls, opened = Suc n\<rparr>"
| borrow_or_return: "i < length ls \<Longrightarrow>
    cancel_step \<lparr>registry = reg, live_sessions = ls, opened = n\<rparr>
      \<lparr>registry = retarget (ls_key (ls ! i)) target reg, live_sessions = ls[i := (ls ! i)\<lparr>holds := target\<rparr>], opened = n\<rparr>"
| end_session: "ls = xs @ l # ys \<Longrightarrow>
    cancel_step \<lparr>registry = reg, live_sessions = ls, opened = n\<rparr>
      \<lparr>registry = unregister (ls_key l) reg, live_sessions = xs @ ys, opened = n\<rparr>"

definition cancel_inv :: "CancelSys \<Rightarrow> bool" where
  "cancel_inv s \<longleftrightarrow>
     next_id (registry s) = nth_id (opened s)
     \<and> (\<forall>l \<in> set (live_sessions s). seq l < opened s \<and> fst (ls_key l) = nth_id (seq l))
     \<and> distinct (map ls_key (live_sessions s))
     \<and> entries (registry s) = map_of (map (\<lambda>l. (ls_key l, holds l)) (live_sessions s))"

lemma fresh_key:
  assumes "\<forall>l \<in> set ls. seq l < n \<and> fst (ls_key l) = nth_id (seq l)"
    and "\<forall>l \<in> set ls. n - seq l < ROUND"
  shows "(nth_id n, secret) \<notin> ls_key ` set ls"
proof
  assume "(nth_id n, secret) \<in> ls_key ` set ls"
  then obtain l where l: "l \<in> set ls" "fst (ls_key l) = nth_id n" by (metis fst_conv imageE)
  with assms have lt: "seq l < n" "n - seq l < ROUND" and "nth_id (seq l) = nth_id n" by auto
  then have "seq l mod ROUND = n mod ROUND" by (intro nth_id_inj)
  then have "ROUND dvd n - seq l" using lt(1) by (metis less_imp_le_nat mod_eq_dvd_iff_nat)
  with lt show False by (auto dest: dvd_imp_le)
qed

lemma map_of_key_upd:
  assumes "distinct (map ls_key ls)" "i < length ls"
  shows "map_of (map (\<lambda>l. (ls_key l, holds l)) (ls[i := (ls ! i)\<lparr>holds := t\<rparr>]))
    = (map_of (map (\<lambda>l. (ls_key l, holds l)) ls))(ls_key (ls ! i) \<mapsto> t)"
  using assms
proof (induction ls arbitrary: i)
  case (Cons l ls)
  show ?case
  proof (cases i)
    case (Suc j)
    with Cons.prems have "ls ! j \<in> set ls" "ls_key l \<notin> ls_key ` set ls" by simp_all
    then have "ls_key (ls ! j) \<noteq> ls_key l" by (metis imageI)
    moreover have "map_of (map (\<lambda>l. (ls_key l, holds l)) (ls[j := (ls ! j)\<lparr>holds := t\<rparr>]))
        = (map_of (map (\<lambda>l. (ls_key l, holds l)) ls))(ls_key (ls ! j) \<mapsto> t)"
      using Cons.prems Suc by (intro Cons.IH) simp_all
    ultimately show ?thesis using Suc by (simp add: fun_upd_def) auto
  qed (auto simp: fun_upd_def)
qed simp

lemma map_of_key_del:
  assumes "distinct (map ls_key (xs @ l # ys))"
  shows "map_of (map (\<lambda>l. (ls_key l, holds l)) (xs @ ys))
    = (map_of (map (\<lambda>l. (ls_key l, holds l)) (xs @ l # ys)))(ls_key l := None)"
  using assms by (induction xs) (auto simp: fun_eq_iff map_of_eq_None_iff)

lemma cancel_step_inv: "cancel_step s t \<Longrightarrow> cancel_inv s \<Longrightarrow> cancel_inv t"
proof (induction rule: cancel_step.induct)
  case (open_session secret reg key reg' ls n)
  then have key: "key = (nth_id n, secret)" and reg': "next_id reg' = nth_id (Suc n)"
      "entries reg' = (entries reg)(key \<mapsto> None)"
    by (auto simp: scope_def cancel_inv_def Let_def bump_nth_id)
  have "key \<notin> ls_key ` set ls"
    using open_session fresh_key [of ls n secret] key by (auto simp: cancel_inv_def)
  with open_session(3) key reg' show ?case by (auto simp: cancel_inv_def less_Suc_eq)
next
  case (borrow_or_return i ls reg n target)
  let ?k = "ls_key (ls ! i)"
  have "ls ! i \<in> set ls" using borrow_or_return(1) by simp
  then have "?k \<in> fst ` set (map (\<lambda>l. (ls_key l, holds l)) ls)" by force
  then have "entries reg ?k \<noteq> None"
    using borrow_or_return(2) by (simp add: cancel_inv_def map_of_eq_None_iff)
  then have e: "entries (retarget ?k target reg) = (entries reg)(?k \<mapsto> target)"
    "next_id (retarget ?k target reg) = next_id reg"
    by (auto simp: retarget_def split: option.splits)
  have "map ls_key (ls[i := (ls ! i)\<lparr>holds := target\<rparr>]) = map ls_key ls"
    using borrow_or_return(1) list_update_id [of "map ls_key ls" i] by (simp add: map_update)
  moreover have "\<forall>l \<in> set (ls[i := (ls ! i)\<lparr>holds := target\<rparr>]). seq l < n \<and> fst (ls_key l) = nth_id (seq l)"
    using borrow_or_return by (auto simp: cancel_inv_def dest!: set_update_subset_insert [THEN subsetD])
  ultimately show ?case
    using borrow_or_return e map_of_key_upd [of ls i target] by (simp add: cancel_inv_def)
next
  case (end_session ls xs l ys reg n)
  then show ?case
    using map_of_key_del [of xs l ys] by (auto simp: cancel_inv_def unregister_def)
qed

interpretation cancel_sys: machine cancel_start cancel_step cancel_inv
  by unfold_locales (auto intro: cancel_step_inv,
      simp add: cancel_start_def cancel_inv_def new_cancel_registry_def nth_id_def)

text \<open>
  A cancellation reaches the right backend or none: however sessions come, go, borrow
  and return backends, the key of a live session looks up exactly the backend that session
  holds at that moment, nothing when it holds none, and a key of no live session looks up
  nothing. So a late \<open>Ctrl-C\<close> never lands on whoever borrowed the backend next.
\<close>

theorem cancel_hits_own_backend_or_nothing:
  assumes "cancel_step\<^sup>*\<^sup>* \<lparr>registry = new_cancel_registry, live_sessions = [], opened = 0\<rparr> s"
  shows "(\<forall>l \<in> set (live_sessions s). lookup (ls_key l) (registry s) = holds l)
    \<and> (\<forall>key. key \<notin> ls_key ` set (live_sessions s) \<longrightarrow> lookup key (registry s) = None)"
proof -
  have inv: "cancel_inv s" by (rule cancel_sys.reachable_inv [OF _ assms]) (simp add: cancel_start_def)
  then have "distinct (map fst (map (\<lambda>l. (ls_key l, holds l)) (live_sessions s)))"
    by (simp add: cancel_inv_def comp_def)
  then have "entries (registry s) (ls_key l) = Some (holds l)" if "l \<in> set (live_sessions s)" for l
    using inv that by (auto simp: cancel_inv_def intro: map_of_is_SomeI)
  moreover have "entries (registry s) key = None" if "key \<notin> ls_key ` set (live_sessions s)" for key
    using inv that by (force simp: cancel_inv_def map_of_eq_None_iff)
  ultimately show ?thesis by (simp add: lookup_def)
qed

definition example_target :: CancelTarget where
  "example_target = \<lparr>ct_host = ''db'', ct_port = 5432, backend_pid = 77, backend_secret = 5\<rparr>"

theorem cancel_hits_own_backend_or_nothing_witness:
  "lookup (1, 9) (retarget (1, 9) (Some example_target) (snd (scope 9 new_cancel_registry))) = Some example_target"
proof -
  let ?reg = "snd (scope 9 new_cancel_registry)"
  let ?l = "\<lparr>seq = 0, ls_key = (1, 9), holds = None\<rparr>"
  have "scope 9 new_cancel_registry = ((1, 9), ?reg)" by (simp add: scope_def new_cancel_registry_def Let_def)
  then have "cancel_step \<lparr>registry = new_cancel_registry, live_sessions = [], opened = 0\<rparr>
      \<lparr>registry = ?reg, live_sessions = [?l], opened = Suc 0\<rparr>"
    by (rule cancel_step.open_session) simp
  moreover have "cancel_step \<lparr>registry = ?reg, live_sessions = [?l], opened = Suc 0\<rparr>
      \<lparr>registry = retarget (1, 9) (Some example_target) ?reg, live_sessions = [?l\<lparr>holds := Some example_target\<rparr>], opened = Suc 0\<rparr>"
    using cancel_step.borrow_or_return [of 0 "[?l]" ?reg "Suc 0" "Some example_target"] by simp
  ultimately have "cancel_step\<^sup>*\<^sup>* \<lparr>registry = new_cancel_registry, live_sessions = [], opened = 0\<rparr>
      \<lparr>registry = retarget (1, 9) (Some example_target) ?reg, live_sessions = [?l\<lparr>holds := Some example_target\<rparr>], opened = Suc 0\<rparr>"
    by (meson converse_rtranclp_into_rtranclp rtranclp.rtrancl_refl)
  from cancel_hits_own_backend_or_nothing [OF this] show ?thesis by simp
qed

end
