(* ===== verification/Backend.thy ===== *)
theory Backend
  imports Params Prepared Cancel
begin

text \<open>
  A live connection to PostgreSQL (\<open>havuz-pg/src/backend.rs\<close>): what havuz remembers about
  it, and the short conversations it holds on it while no client is attached. The socket is
  an oracle: \<open>io_reads\<close> lists what the coming reads will yield, a message or the text of the
  error, and is followed by the end of the stream; \<open>io_faults\<close> lists the fate of the coming
  writes and flushes, which succeed once the list is used up. Every statement below is for
  all oracles, that is for every server. \<open>io_log\<close> records what went over the wire.
\<close>

datatype Io = Sent Message | Got Message

record PgBackend =
  pb_opened_at :: time
  pb_host :: string
  pb_port :: u16
  pb_pid :: "u32 option"
  pb_secret :: "i32 option"
  pb_parameters :: "(string \<times> string) list"
  pb_broken :: bool
  supports_discard_all :: bool
  pb_statements :: BackendStatements
  applied_params :: "(string, string) btree"
  io_reads :: "(string + Message) list"
  io_faults :: "string option list"
  io_log :: "Io list"

section \<open>The socket\<close>

definition read_io :: "PgBackend \<Rightarrow> (string + Message) \<times> PgBackend" where
  "read_io b =
     (case io_reads b of
        [] \<Rightarrow> (Inl ''unexpected end of file'', b)
      | Inl e # rs \<Rightarrow> (Inl e, b\<lparr>io_reads := rs\<rparr>)
      | Inr m # rs \<Rightarrow> (Inr m, b\<lparr>io_reads := rs, io_log := io_log b @ [Got m]\<rparr>))"

definition next_fault :: "string option list \<Rightarrow> string option \<times> string option list" where
  "next_fault fs = (case fs of [] \<Rightarrow> (None, []) | f # fs' \<Rightarrow> (f, fs'))"

text \<open>\<open>write_all\<close> of one encoded message; a write that fails leaves nothing usable behind.\<close>

definition write_io :: "Message \<Rightarrow> PgBackend \<Rightarrow> string option \<times> PgBackend" where
  "write_io m b =
     (case next_fault (io_faults b) of
        (None, fs) \<Rightarrow> (None, b\<lparr>io_faults := fs, io_log := io_log b @ [Sent m]\<rparr>)
      | (Some e, fs) \<Rightarrow> (Some e, b\<lparr>io_faults := fs\<rparr>))"

definition flush_io :: "PgBackend \<Rightarrow> string option \<times> PgBackend" where
  "flush_io b = (case next_fault (io_faults b) of (f, fs) \<Rightarrow> (f, b\<lparr>io_faults := fs\<rparr>))"

text \<open>\<open>Message::write\<close>: write, then flush.\<close>

definition send_io :: "Message \<Rightarrow> PgBackend \<Rightarrow> string option \<times> PgBackend" where
  "send_io m b =
     (case write_io m b of
        (Some e, b) \<Rightarrow> (Some e, b)
      | (None, b) \<Rightarrow> flush_io b)"

lemma read_io_shorter: "read_io b = (Inr m, b') \<Longrightarrow> length (io_reads b') < length (io_reads b)"
  by (auto simp: read_io_def split: list.splits sum.splits)

lemma read_io_Inl_le: "read_io b = (r, b') \<Longrightarrow> length (io_reads b') \<le> length (io_reads b)"
  by (auto simp: read_io_def split: list.splits sum.splits)

section \<open>Accessors\<close>

definition set_applied_params :: "(string, string) btree \<Rightarrow> PgBackend \<Rightarrow> PgBackend" where
  "set_applied_params ps b = b\<lparr>applied_params := ps\<rparr>"

definition mark_broken :: "PgBackend \<Rightarrow> PgBackend" where
  "mark_broken b = b\<lparr>pb_broken := True\<rparr>"

definition cancel_target :: "PgBackend \<Rightarrow> CancelTarget option" where
  "cancel_target b =
     (case (pb_pid b, pb_secret b) of
        (Some pid, Some secret) \<Rightarrow>
          Some \<lparr>ct_host = pb_host b, ct_port = pb_port b, backend_pid = pid, backend_secret = secret\<rparr>
      | _ \<Rightarrow> None)"

lemma cancel_target_updates [simp]:
  "cancel_target (b\<lparr>io_faults := fs\<rparr>) = cancel_target b"
  "cancel_target (b\<lparr>io_log := l\<rparr>) = cancel_target b"
  "cancel_target (b\<lparr>pb_statements := s\<rparr>) = cancel_target b"
  "cancel_target (b\<lparr>applied_params := ps\<rparr>) = cancel_target b"
  by (simp_all add: cancel_target_def split: option.splits)

section \<open>Conversations\<close>

definition query_message :: "string \<Rightarrow> Message" where
  "query_message sql = msg (CHR ''Q'') (sql @ [NUL])"

text \<open>The \<open>M\<close> field of an error response.\<close>

definition error_detail :: "string \<Rightarrow> Message \<Rightarrow> string" where
  "error_detail fallback m =
     (case List.find (\<lambda>(f, _). f = CHR ''M'') (error_fields m) of Some (_, v) \<Rightarrow> v | None \<Rightarrow> fallback)"

definition be_nat :: "string \<Rightarrow> nat" where
  "be_nat bs = foldl (\<lambda>n c. n * 256 + of_char c) 0 bs"

definition first_column :: "string \<Rightarrow> string option" where
  "first_column bs =
     (if length bs < 6 then None
      else if (word_of_nat (be_nat (take 2 bs)) :: i16) <s 1 then None
      else
        let len = (word_of_nat (be_nat (take 4 (drop 2 bs))) :: i32) in
        if len <s 0 then None
        else if 6 + unat len > length bs then None
        else Some (from_utf8_lossy (take (unat len) (drop 6 bs))))"

text \<open>Draining after an error: until \<open>ReadyForQuery\<close> or a read that fails.\<close>

function drain_to_ready :: "PgBackend \<Rightarrow> PgBackend" where
  "drain_to_ready b =
     (case read_io b of
        (Inl _, b') \<Rightarrow> b'
      | (Inr m, b') \<Rightarrow> if tag m = CHR ''Z'' then b' else drain_to_ready b')"
  by pat_completeness auto
termination
  by (relation "measure (length \<circ> io_reads)") (auto dest: read_io_shorter [OF sym])

function query_scalar_loop :: "string option option \<Rightarrow> PgBackend \<Rightarrow> (ProtoError + string option) \<times> PgBackend" where
  "query_scalar_loop val b =
     (case read_io b of
        (Inl e, b') \<Rightarrow> (Inl (PBackend (''reading query result: '' @ e)), mark_broken b')
      | (Inr m, b') \<Rightarrow>
          if tag m = CHR ''D'' \<and> val = None then query_scalar_loop (Some (first_column (body m))) b'
          else if tag m = CHR ''E'' then (Inl (PBackend (error_detail ''query failed'' m)), drain_to_ready b')
          else if tag m = CHR ''Z'' then (Inr (Option.bind val id), b')
          else query_scalar_loop val b')"
  by pat_completeness auto
termination
  by (relation "measure (length \<circ> io_reads \<circ> snd)") (auto dest: read_io_shorter [OF sym])

definition query_scalar :: "string \<Rightarrow> PgBackend \<Rightarrow> (ProtoError + string option) \<times> PgBackend" where
  "query_scalar sql b =
     (if pb_broken b then (Inl (PBackend ''connection is broken''), b)
      else case send_io (query_message sql) b of
        (Some e, b') \<Rightarrow> (Inl (PBackend (''sending query: '' @ e)), mark_broken b')
      | (None, b') \<Rightarrow> query_scalar_loop None b')"

function simple_query_loop :: "PgBackend \<Rightarrow> PgBackend" where
  "simple_query_loop b =
     (case read_io b of
        (Inl _, b') \<Rightarrow> mark_broken b'
      | (Inr m, b') \<Rightarrow>
          if tag m = CHR ''Z'' then b'
          else if tag m = CHR ''E'' then mark_broken b'
          else simple_query_loop b')"
  by pat_completeness auto
termination
  by (relation "measure (length \<circ> io_reads)") (auto dest: read_io_shorter [OF sym])

definition simple_query :: "string \<Rightarrow> PgBackend \<Rightarrow> PgBackend" where
  "simple_query sql b =
     (if pb_broken b then b
      else case send_io (query_message sql) b of
        (Some _, b') \<Rightarrow> mark_broken b'
      | (None, b') \<Rightarrow> simple_query_loop b')"

definition reset_backend :: "PgBackend \<Rightarrow> ResetOutcome \<times> PgBackend" where
  "reset_backend b =
     (if pb_broken b then (Discard, b)
      else
        let b = simple_query ''ROLLBACK'' b;
            b = simple_query (if supports_discard_all b then ''DISCARD ALL'' else ''RESET ALL'') b;
            b = b\<lparr>pb_statements := clear_statements (pb_statements b), applied_params := []\<rparr>
        in (if pb_broken b then Discard else Cleaned, b))"

declare drain_to_ready.simps [simp del] query_scalar_loop.simps [simp del] simple_query_loop.simps [simp del]

section \<open>What a conversation leaves behind\<close>

text \<open>Reading changes nothing but the position in the stream and the log.\<close>

definition heard_with :: "Message list \<Rightarrow> PgBackend \<Rightarrow> PgBackend \<Rightarrow> bool" where
  "heard_with ms b b' \<longleftrightarrow> b'\<lparr>io_reads := []\<rparr> = b\<lparr>io_reads := [], io_log := io_log b @ map Got ms\<rparr>"

definition heard :: "PgBackend \<Rightarrow> PgBackend \<Rightarrow> bool" where
  "heard b b' \<longleftrightarrow> (\<exists>ms. heard_with ms b b')"

lemma heard_with_Nil [simp]: "heard_with [] b b"
  by (cases b) (simp add: heard_with_def)

lemma heard_with_log: "heard_with ms b b' \<Longrightarrow> io_log b' = io_log b @ map Got ms"
  unfolding heard_with_def by (drule arg_cong [where f = io_log]) simp

lemma heard_with_trans:
  assumes "heard_with ms a b" "heard_with ns b c"
  shows "heard_with (ms @ ns) a c"
proof -
  have "c\<lparr>io_reads := []\<rparr> = (b\<lparr>io_reads := []\<rparr>)\<lparr>io_log := io_log b @ map Got ns\<rparr>"
    using assms(2) by (simp add: heard_with_def)
  also have "\<dots> = (a\<lparr>io_reads := [], io_log := io_log a @ map Got ms\<rparr>)\<lparr>io_log := io_log b @ map Got ns\<rparr>"
    using assms(1) by (simp only: heard_with_def)
  finally show ?thesis using heard_with_log [OF assms(1)] by (simp add: heard_with_def)
qed

lemma heard_refl [simp]: "heard b b"
  unfolding heard_def by (rule exI, rule heard_with_Nil)

lemma heard_trans: "heard a b \<Longrightarrow> heard b c \<Longrightarrow> heard a c"
  unfolding heard_def by (blast intro: heard_with_trans)

lemma heard_keeps:
  assumes "heard b b'"
  shows "cancel_target b' = cancel_target b" "applied_params b' = applied_params b"
    "pb_statements b' = pb_statements b" "pb_broken b' = pb_broken b" "io_faults b' = io_faults b"
    "pb_pid b' = pb_pid b" "supports_discard_all b' = supports_discard_all b"
proof -
  obtain ms where h: "b'\<lparr>io_reads := []\<rparr> = b\<lparr>io_reads := [], io_log := io_log b @ map Got ms\<rparr>"
    using assms by (auto simp: heard_def heard_with_def)
  note field = arg_cong [OF h]
  show "applied_params b' = applied_params b" using field [of applied_params] by simp
  show "pb_statements b' = pb_statements b" using field [of pb_statements] by simp
  show "pb_broken b' = pb_broken b" using field [of pb_broken] by simp
  show "io_faults b' = io_faults b" using field [of io_faults] by simp
  show pid: "pb_pid b' = pb_pid b" using field [of pb_pid] by simp
  show "supports_discard_all b' = supports_discard_all b" using field [of supports_discard_all] by simp
  have "pb_secret b' = pb_secret b" using field [of pb_secret] by simp
  moreover have "pb_host b' = pb_host b" using field [of pb_host] by simp
  moreover have "pb_port b' = pb_port b" using field [of pb_port] by simp
  ultimately show "cancel_target b' = cancel_target b" using pid by (simp only: cancel_target_def)
qed

lemma heard_log: "heard b b' \<Longrightarrow> \<exists>ms. io_log b' = io_log b @ map Got ms"
  by (auto simp: heard_def dest: heard_with_log)

lemma read_io_heard_with: "read_io b = (Inr m, b') \<Longrightarrow> heard_with [m] b b'"
  by (auto simp: heard_with_def read_io_def split: list.splits sum.splits)

lemma heard_read: "read_io b = (x, b') \<Longrightarrow> heard b b'"
proof (cases x)
  case (Inl e)
  assume "read_io b = (x, b')"
  with Inl have "heard_with [] b b'"
    by (auto simp: heard_with_def read_io_def split: list.splits sum.splits)
  then show ?thesis unfolding heard_def by blast
next
  case (Inr m)
  assume "read_io b = (x, b')"
  with Inr show ?thesis unfolding heard_def by (blast dest: read_io_heard_with)
qed

text \<open>
  A loop over reads: each round ends with what the read left, or goes on from there with
  another accumulator.
\<close>

lemma heard_loop:
  fixes out :: "'a \<Rightarrow> PgBackend \<Rightarrow> PgBackend"
  assumes round: "\<And>a b x c. read_io b = (x, c) \<Longrightarrow> out a b = c \<or> (\<exists>m a'. x = Inr m \<and> out a b = out a' c)"
  shows "heard b (out a b)"
proof (induction "length (io_reads b)" arbitrary: a b rule: less_induct)
  case less
  obtain x c where r: "read_io b = (x, c)" by force
  then have h: "heard b c" by (rule heard_read)
  from round [OF r, of a] show ?case
  proof
    assume "out a b = c"
    with h show ?thesis by simp
  next
    assume "\<exists>m a'. x = Inr m \<and> out a b = out a' c"
    then obtain m a' where "x = Inr m" "out a b = out a' c" by blast
    with less [of c a'] r h show ?thesis by (auto dest: read_io_shorter intro: heard_trans)
  qed
qed

lemma read_io_log: "read_io b = (Inr m, b') \<Longrightarrow> io_log b' = io_log b @ [Got m]"
  by (auto simp: read_io_def split: list.splits sum.splits)

lemma write_io_cases:
  assumes "write_io m b = (f, b')"
  obtains fs where "f = None" "b' = b\<lparr>io_faults := fs, io_log := io_log b @ [Sent m]\<rparr>"
    | e fs where "f = Some e" "b' = b\<lparr>io_faults := fs\<rparr>"
  using assms by (auto simp: write_io_def split: prod.splits option.splits)

lemma flush_io_faults: "flush_io b = (f, b') \<Longrightarrow> \<exists>fs. b' = b\<lparr>io_faults := fs\<rparr>"
  by (auto simp: flush_io_def split: prod.splits)

lemma send_io_cases:
  assumes "send_io m b = (f, b')"
  obtains fs where "b' = b\<lparr>io_faults := fs, io_log := io_log b @ [Sent m]\<rparr>"
    | e fs where "f = Some e" "b' = b\<lparr>io_faults := fs\<rparr>"
proof -
  obtain g c where w: "write_io m b = (g, c)" by force
  then show ?thesis
  proof (cases rule: write_io_cases)
    case (1 fs)
    then obtain gs where "b' = c\<lparr>io_faults := gs\<rparr>"
      using assms w flush_io_faults [of c] by (auto simp: send_io_def)
    with 1 show ?thesis by (intro that(1) [of gs]) simp
  next
    case (2 e fs)
    with assms w show ?thesis by (intro that(2) [of e fs]) (auto simp: send_io_def)
  qed
qed

section \<open>Resetting\<close>

definition ends_ready :: "PgBackend \<Rightarrow> bool" where
  "ends_ready b \<longleftrightarrow> (\<exists>log m. io_log b = log @ [Got m] \<and> tag m = CHR ''Z'')"

lemma simple_query_loop_ready:
  "\<not> pb_broken (simple_query_loop b) \<Longrightarrow>
   ends_ready (simple_query_loop b)
   \<and> (\<exists>ms. heard_with ms b (simple_query_loop b) \<and> list_all (\<lambda>m. tag m \<noteq> CHR ''E'') ms)"
proof (induction b rule: simple_query_loop.induct)
  case (1 b)
  obtain x b' where r: "read_io b = (x, b')" by force
  show ?case
  proof (cases x)
    case (Inl e)
    with 1 r show ?thesis by (simp add: simple_query_loop.simps [of b] mark_broken_def)
  next
    case (Inr m)
    have h: "heard_with [m] b b'" and log: "io_log b' = io_log b @ [Got m]"
      using r Inr by (auto intro: read_io_heard_with read_io_log)
    consider "tag m = CHR ''Z''" | "tag m = CHR ''E''" | "tag m \<noteq> CHR ''Z''" "tag m \<noteq> CHR ''E''" by blast
    then show ?thesis
    proof cases
      case 1
      then have "simple_query_loop b = b'" using r Inr by (simp add: simple_query_loop.simps [of b])
      with h log 1 show ?thesis by (auto simp: ends_ready_def intro!: exI [of _ "[m]"])
    next
      case 2
      with "1.prems" r Inr show ?thesis by (simp add: simple_query_loop.simps [of b] mark_broken_def)
    next
      case 3
      then have eq: "simple_query_loop b = simple_query_loop b'" using r Inr by (simp add: simple_query_loop.simps [of b])
      with "1.IH" [OF r [symmetric] Inr] 3 "1.prems" obtain ms where
        "ends_ready (simple_query_loop b')" "heard_with ms b' (simple_query_loop b')"
        "list_all (\<lambda>m. tag m \<noteq> CHR ''E'') ms" by auto
      with eq 3 heard_with_trans [OF h] show ?thesis by (auto intro!: exI [of _ "m # ms"])
    qed
  qed
qed

lemma simple_query_broken: "pb_broken b \<Longrightarrow> simple_query sql b = b"
  by (simp add: simple_query_def)

text \<open>A query that does not break the connection was sent, answered to its end, and answered without an error.\<close>

lemma simple_query_ready:
  assumes "\<not> pb_broken (simple_query sql b)"
  obtains ms where "io_log (simple_query sql b) = io_log b @ Sent (query_message sql) # map Got ms"
    "list_all (\<lambda>m. tag m \<noteq> CHR ''E'') ms" "ends_ready (simple_query sql b)"
    "supports_discard_all (simple_query sql b) = supports_discard_all b"
    "cancel_target (simple_query sql b) = cancel_target b" "\<not> pb_broken b"
proof -
  have nb: "\<not> pb_broken b" using assms by (auto simp: simple_query_def)
  obtain f b1 where s: "send_io (query_message sql) b = (f, b1)" by force
  have f: "f = None" using assms nb s by (auto simp: simple_query_def mark_broken_def split: option.splits)
  with s have "\<exists>fs. b1 = b\<lparr>io_faults := fs, io_log := io_log b @ [Sent (query_message sql)]\<rparr>"
    by (auto elim: send_io_cases)
  then obtain fs where b1: "b1 = b\<lparr>io_faults := fs, io_log := io_log b @ [Sent (query_message sql)]\<rparr>" ..
  have eq: "simple_query sql b = simple_query_loop b1" using nb s f by (simp add: simple_query_def)
  with simple_query_loop_ready [of b1] assms obtain ms where
    ms: "heard_with ms b1 (simple_query sql b)" "list_all (\<lambda>m. tag m \<noteq> CHR ''E'') ms" "ends_ready (simple_query sql b)"
    by auto
  then have h: "heard b1 (simple_query sql b)" unfolding heard_def by blast
  have "io_log (simple_query sql b) = io_log b1 @ map Got ms" using ms(1) by (rule heard_with_log)
  moreover have "cancel_target b1 = cancel_target b"
    unfolding b1 cancel_target_def by (simp split: option.splits)
  ultimately show ?thesis using that [of ms] ms nb heard_keeps [OF h] by (simp add: b1)
qed

text \<open>
  A backend that a reset declares clean was sent a rollback and then a discard of its session
  state, each on its own, and the server answered both to the end and without an error; and
  havuz then believes nothing about its parameters or its prepared statements.
\<close>

theorem reset_cleans:
  assumes "reset_backend b = (Cleaned, b')"
  shows "\<exists>ms ns. io_log b' = io_log b @ Sent (query_message ''ROLLBACK'') # map Got ms
           @ Sent (query_message (if supports_discard_all b then ''DISCARD ALL'' else ''RESET ALL'')) # map Got ns
         \<and> list_all (\<lambda>m. tag m \<noteq> CHR ''E'') (ms @ ns)
         \<and> ends_ready b' \<and> present (pb_statements b') = {} \<and> applied_params b' = [] \<and> \<not> pb_broken b'"
proof -
  define b1 where "b1 = simple_query ''ROLLBACK'' b"
  define sql where "sql = (if supports_discard_all b1 then ''DISCARD ALL'' else ''RESET ALL'')"
  define b2 where "b2 = simple_query sql b1"
  have b': "b' = b2\<lparr>pb_statements := clear_statements (pb_statements b2), applied_params := []\<rparr>" "\<not> pb_broken b2"
    using assms by (auto simp: reset_backend_def Let_def b1_def b2_def sql_def split: if_splits)
  from b'(2) obtain ns where ns: "io_log b2 = io_log b1 @ Sent (query_message sql) # map Got ns"
    "list_all (\<lambda>m. tag m \<noteq> CHR ''E'') ns" "ends_ready b2" "\<not> pb_broken b1"
    unfolding b2_def by (auto elim: simple_query_ready)
  from ns(4) obtain ms where ms: "io_log b1 = io_log b @ Sent (query_message ''ROLLBACK'') # map Got ms"
    "list_all (\<lambda>m. tag m \<noteq> CHR ''E'') ms" "supports_discard_all b1 = supports_discard_all b"
    unfolding b1_def by (auto elim: simple_query_ready)
  have log: "io_log b' = io_log b @ Sent (query_message ''ROLLBACK'') # map Got ms @ Sent (query_message sql) # map Got ns"
    using b'(1) ns(1) ms(1) by simp
  have "ends_ready b'" using ns(3) b'(1) by (simp add: ends_ready_def)
  with log b' ns(2) ms(2,3) show ?thesis
    by (intro exI [of _ ms] exI [of _ ns]) (simp add: sql_def clear_statements_def)
qed

definition resettable :: PgBackend where
  "resettable =
     \<lparr>pb_opened_at = 0, pb_host = ''db'', pb_port = 5432, pb_pid = Some 42, pb_secret = Some 9, pb_parameters = [],
      pb_broken = False, supports_discard_all = True, pb_statements = new_backend_statements, applied_params = [],
      io_reads = [Inr (command_complete ''ROLLBACK''), Inr (ready_for_query TIdle),
                  Inr (command_complete ''DISCARD ALL''), Inr (ready_for_query TIdle)],
      io_faults = [], io_log = []\<rparr>"

theorem reset_cleans_witness:
  "\<exists>b'. reset_backend resettable = (Cleaned, b') \<and> ends_ready b' \<and> applied_params b' = []"
proof -
  have "fst (reset_backend resettable) = Cleaned" by code_simp
  then obtain b' where "reset_backend resettable = (Cleaned, b')" by (metis prod.collapse)
  with reset_cleans [OF this] show ?thesis by blast
qed

end
