(* ===== verification/Holders.thy ===== *)
theory Holders
  imports Flow Btree
begin

text \<open>
  Who holds a backend without running a query (\<open>havuz-control/src/holders.rs\<close>). One entry
  per session at most, keyed by the session's number; the entry goes when its handle is
  dropped. The clocks are arguments.
\<close>

record TraceContext =
  tc_pool :: string
  tc_user :: string
  tc_application :: "string option"
  tc_client_addr :: string

record BackendHolder =
  bh_id :: u64
  bh_since_ms :: int
  bh_elapsed_us :: u64
  bh_pool :: string
  bh_user :: string
  bh_application :: "string option"
  bh_client_addr :: string
  bh_mode :: string
  bh_reason :: string
  bh_pin_reason :: "string option"
  bh_target :: "string option"
  bh_backend_pid :: "u32 option"

record HolderEntry =
  he_public :: BackendHolder
  he_since :: time

record HolderRegistry =
  hr_next_id :: u64
  hr_entries :: "(u64, HolderEntry) btree"

record HolderHandle =
  hh_id :: u64
  hh_context :: TraceContext
  hh_mode :: PoolMode

definition new_holder_registry :: HolderRegistry where
  "new_holder_registry = \<lparr>hr_next_id = 1, hr_entries = []\<rparr>"

definition holder_session :: "TraceContext \<Rightarrow> PoolMode \<Rightarrow> HolderRegistry \<Rightarrow> HolderHandle \<times> HolderRegistry" where
  "holder_session context mode reg =
     (\<lparr>hh_id = hr_next_id reg, hh_context = context, hh_mode = mode\<rparr>, reg\<lparr>hr_next_id := hr_next_id reg + 1\<rparr>)"

text \<open>Longest first; the sort is stable.\<close>

definition holder_snapshot :: "time \<Rightarrow> HolderRegistry \<Rightarrow> BackendHolder list" where
  "holder_snapshot now reg =
     sort_key (\<lambda>h. 2 ^ 64 - unat (bh_elapsed_us h))
       (map (\<lambda>(_, e). (he_public e)\<lparr>bh_elapsed_us := word_of_nat (as_micros (now - he_since e))\<rparr>)
         (hr_entries reg))"

definition holder_label :: "BackendHolder \<Rightarrow> string" where
  "holder_label h =
     (case bh_pin_reason h of Some pin \<Rightarrow> bh_reason h @ '':'' @ pin | None \<Rightarrow> bh_reason h)"

definition count_label :: "(string, nat) btree \<Rightarrow> string \<Rightarrow> (string, nat) btree" where
  "count_label counts l =
     btree_insert l ((case map_of counts l of Some n \<Rightarrow> n | None \<Rightarrow> 0) + 1) counts"

definition hint_counts :: "string \<Rightarrow> HolderRegistry \<Rightarrow> (string, nat) btree" where
  "hint_counts pool reg =
     foldl count_label []
       (map holder_label
         (filter (\<lambda>h. bh_pool h = pool \<and> bh_reason h \<noteq> ''startup_wait'')
           (map (\<lambda>(_, e). he_public e) (hr_entries reg))))"

definition timeout_hint :: "string \<Rightarrow> HolderRegistry \<Rightarrow> string" where
  "timeout_hint pool reg =
     (let counts = hint_counts pool reg in
      if counts = [] then ''no idle holder was observed; active queries may be using every backend slot''
      else ''backend slots are held without a running query (''
           @ join '', '' (map (\<lambda>(reason, n). reason @ ''='' @ decimal n) counts)
           @ ''); see Query Trace > Backend holders'')"

definition holder_set :: "time \<Rightarrow> int \<Rightarrow> HolderHandle \<Rightarrow> string \<Rightarrow> PinReason option \<Rightarrow> string option
    \<Rightarrow> u32 option \<Rightarrow> HolderRegistry \<Rightarrow> HolderRegistry" where
  "holder_set now now_ms h reason pin target pid reg =
     reg\<lparr>hr_entries := btree_insert (hh_id h)
       \<lparr>he_public =
          \<lparr>bh_id = hh_id h, bh_since_ms = now_ms, bh_elapsed_us = 0, bh_pool = tc_pool (hh_context h),
           bh_user = tc_user (hh_context h), bh_application = tc_application (hh_context h),
           bh_client_addr = tc_client_addr (hh_context h), bh_mode = mode_as_str (hh_mode h),
           bh_reason = reason, bh_pin_reason = map_option pin_as_str pin, bh_target = target,
           bh_backend_pid = pid\<rparr>,
        he_since = now\<rparr> (hr_entries reg)\<rparr>"

definition holder_clear :: "u64 \<Rightarrow> HolderRegistry \<Rightarrow> HolderRegistry" where
  "holder_clear i reg = reg\<lparr>hr_entries := btree_remove i (hr_entries reg)\<rparr>"

definition waiting_for_startup :: "time \<Rightarrow> int \<Rightarrow> HolderHandle \<Rightarrow> HolderRegistry \<Rightarrow> HolderRegistry" where
  "waiting_for_startup now ms h reg = holder_set now ms h ''startup_wait'' None None None reg"

definition session_reserved :: "time \<Rightarrow> int \<Rightarrow> HolderHandle \<Rightarrow> string \<Rightarrow> u32 option \<Rightarrow> HolderRegistry \<Rightarrow> HolderRegistry" where
  "session_reserved now ms h target pid reg = holder_set now ms h ''session_mode'' None (Some target) pid reg"

definition idle_in_transaction_holder :: "time \<Rightarrow> int \<Rightarrow> HolderHandle \<Rightarrow> string \<Rightarrow> u32 option \<Rightarrow> HolderRegistry \<Rightarrow> HolderRegistry" where
  "idle_in_transaction_holder now ms h target pid reg =
     holder_set now ms h ''idle_in_transaction'' None (Some target) pid reg"

definition pinned_holder :: "time \<Rightarrow> int \<Rightarrow> HolderHandle \<Rightarrow> PinReason \<Rightarrow> string \<Rightarrow> u32 option \<Rightarrow> HolderRegistry \<Rightarrow> HolderRegistry" where
  "pinned_holder now ms h reason target pid reg =
     holder_set now ms h ''pinned'' (Some reason) (Some target) pid reg"

definition drop_handle :: "HolderHandle \<Rightarrow> HolderRegistry \<Rightarrow> HolderRegistry" where
  "drop_handle h reg = holder_clear (hh_id h) reg"

end
