(* ===== verification/Txn.thy ===== *)
theory Txn
  imports Backend Routing Pool Holders
begin

text \<open>
  The transaction-mode relay (\<open>havuz-pg/src/txn.rs\<close>) over the components it calls: the
  session flow, parameters, prepared statements, routing, cancellation and holders. One
  iteration of its loop is \<open>relay_step\<close>; the client is the list of what the select at the
  head of the loop will see. The client's socket, the pools and the clock are oracles in the
  way of \<open>Backend\<close>. Query tracing only observes and is left out.
\<close>

section \<open>State\<close>

record RelayStats =
  to_client :: u64
  to_backend :: u64
  client_terminated :: bool
  backend_closed :: bool
  kicked :: bool

definition zero_relay_stats :: RelayStats where
  "zero_relay_stats =
     \<lparr>to_client = 0, to_backend = 0, client_terminated = False, backend_closed = False, kicked = False\<rparr>"

datatype ReadOnlyReason = RoPool | RoUser

record SessionPolicy =
  read_only :: "ReadOnlyReason option"
  idle_in_transaction :: duration
  cancel_scope :: "CancelKey option"

text \<open>
  A borrowed connection: where it came from, and whether its drop will close it. The
  relay gives it back by dropping it.
\<close>

record PgCheckout =
  co_backend :: PgBackend
  co_discard :: bool
  co_pool :: "nat option"                  \<comment> \<open>a replica's pool, or the primary's\<close>

record Client =
  cl_faults :: "string option list"
  cl_log :: "Message list"

record PoolGroup =
  pg_name :: string
  pg_primary_label :: string

text \<open>What does not change during a session: its policy, its pools, and the parameters of the model.\<close>

record Relay_Env =
  policy :: SessionPolicy
  pool_group :: PoolGroup
  holder :: "HolderHandle option"
  digest :: "string \<Rightarrow> u8 list"
  io_text :: "ErrorKind \<Rightarrow> string"
  clock :: "nat \<Rightarrow> time"
  wall_ms :: "nat \<Rightarrow> int"

record Relay =
  held :: "PgCheckout option"
  stats :: RelayStats
  exchanges :: u64
  checkouts :: u64
  on_replica :: u64
  param_syncs :: u64
  client_statements :: ClientStatements
  routing :: SessionRouting
  current_route :: Route
  exchange :: "Message list"
  flow :: SessionState
  params :: ClientParams
  router :: Router
  cancels :: CancelRegistry
  holders :: HolderRegistry
  client :: Client
  acquires :: "(PoolError + PgBackend) list"
  ticks :: nat
  given_back :: "PgCheckout list"

datatype ClientEvent = Kicked | IdleElapsed | Received Message | ReadFailed

datatype Ctl = Go | Continue | Break | Return ProtoError

section \<open>The client's socket\<close>

definition write_client :: "Message \<Rightarrow> Client \<Rightarrow> string option \<times> Client" where
  "write_client m c =
     (case next_fault (cl_faults c) of
        (None, fs) \<Rightarrow> (None, c\<lparr>cl_faults := fs, cl_log := cl_log c @ [m]\<rparr>)
      | (Some e, fs) \<Rightarrow> (Some e, c\<lparr>cl_faults := fs\<rparr>))"

definition flush_client :: "Client \<Rightarrow> string option \<times> Client" where
  "flush_client c = (case next_fault (cl_faults c) of (f, fs) \<Rightarrow> (f, c\<lparr>cl_faults := fs\<rparr>))"

text \<open>\<open>let _ = message.write(client)\<close>: the outcome is ignored.\<close>

definition tell :: "Message \<Rightarrow> Relay \<Rightarrow> Relay" where
  "tell m r =
     r\<lparr>client := (case write_client m (client r) of
                   (Some _, c) \<Rightarrow> c
                 | (None, c) \<Rightarrow> snd (flush_client c))\<rparr>"

section \<open>What a message says\<close>

definition param_sql :: "Message \<Rightarrow> string option" where
  "param_sql m =
     (if tag m = CHR ''Q'' then Some (text_body (body m))
      else if tag m = CHR ''P'' then parse_message_sql (body m)
      else None)"

definition second_cstring :: "string \<Rightarrow> string option" where
  "second_cstring bs = (case split_on NUL bs of _ # s # _ \<Rightarrow> Some (from_utf8_lossy s) | _ \<Rightarrow> None)"

definition message_intent :: "Message \<Rightarrow> ClientStatements \<Rightarrow> bool \<Rightarrow> RouteIntent" where
  "message_intent m cs ro =
     (if tag m = CHR ''Q'' then route_intent (text_body (body m)) ro
      else if tag m = CHR ''P'' then
        (case second_cstring (body m) of Some sql \<Rightarrow> route_intent sql ro | None \<Rightarrow> Write)
      else if tag m = CHR ''B'' then
        (case second_cstring (body m) of
           Some name \<Rightarrow> (case cs name of Some st \<Rightarrow> route_intent (stmt_sql st) ro | None \<Rightarrow> Write)
         | None \<Rightarrow> Write)
      else Write)"

definition trace_sql :: "Message \<Rightarrow> ClientStatements \<Rightarrow> string option" where
  "trace_sql m cs =
     (if tag m = CHR ''Q'' then Some (text_body (body m))
      else if tag m = CHR ''P'' then second_cstring (body m)
      else if tag m = CHR ''B'' then
        Option.bind (second_cstring (body m)) (\<lambda>name. map_option stmt_sql (cs name))
      else None)"

section \<open>Parameters\<close>

definition stage_unless_pin :: "ClientParams \<Rightarrow> SetAction \<Rightarrow> ClientParams" where
  "stage_unless_pin ps a = (case a of Pin _ \<Rightarrow> ps | _ \<Rightarrow> stage a ps)"

definition stage_params :: "string \<Rightarrow> ClientParams \<times> SessionState \<Rightarrow> ClientParams \<times> SessionState" where
  "stage_params sql = (\<lambda>(ps, st).
     let actions = actions_for_sql sql in
     if actions = [] then (ps, st)
     else if ss_in_transaction st then (ps, observe st (MustPin SessionParameter))
     else (foldl stage_unless_pin ps actions, st))"

definition settle_params :: "bool \<Rightarrow> ClientParams \<times> PgBackend \<Rightarrow> ClientParams \<times> PgBackend" where
  "settle_params errored = (\<lambda>(ps, b).
     if \<not> has_pending ps then (ps, b)
     else if errored then (discard_pending ps, b)
     else let ps = commit_pending ps in (ps, set_applied_params (desired ps) b))"

datatype ParamSync = InStep | Applied | Refused string

function sync_params_loop :: "string option \<Rightarrow> PgBackend \<Rightarrow> (string + string option) \<times> PgBackend" where
  "sync_params_loop failure b =
     (case read_io b of
        (Inl e, b') \<Rightarrow> (Inl e, b')
      | (Inr m, b') \<Rightarrow>
          if tag m = CHR ''Z'' then (Inr failure, b')
          else if tag m = CHR ''E'' then
            sync_params_loop (Some (error_detail ''backend rejected the parameter'' m)) b'
          else sync_params_loop failure b')"
  by pat_completeness auto
termination
  by (relation "measure (length \<circ> io_reads \<circ> snd)") (auto dest: read_io_shorter [OF sym])

definition sync_error :: "string \<Rightarrow> ProtoError" where
  "sync_error e = PBackend (''applying session parameters: '' @ e)"

definition sync_params :: "ClientParams \<Rightarrow> PgBackend \<Rightarrow> (ProtoError + ParamSync) \<times> PgBackend" where
  "sync_params ps b =
     (let sqls = delta ps (applied_params b) in
      if sqls = [] then (Inr InStep, b)
      else
        let sql = join ''; '' sqls in
        case send_io (query_message sql) b of
          (Some e, b) \<Rightarrow> (Inl (sync_error e), b)
        | (None, b) \<Rightarrow>
            (case sync_params_loop None b of
               (Inl e, b) \<Rightarrow> (Inl (sync_error e), b)
             | (Inr (Some detail), b) \<Rightarrow> (Inr (Refused (detail @ '' (while running: '' @ sql @ '')'')), b)
             | (Inr None, b) \<Rightarrow> (Inr Applied, set_applied_params (desired ps) b)))"

section \<open>Prepared statements\<close>

definition rewrite_prepared :: "(string \<Rightarrow> u8 list) \<Rightarrow> Message \<Rightarrow> BackendStatements \<Rightarrow> ClientStatements
    \<Rightarrow> (ProtoError + Rewrite) \<times> ClientStatements" where
  "rewrite_prepared dg m bs cs =
     (let lift = (\<lambda>res. case res of Inl e \<Rightarrow> Inl (PProtocol (prepared_error_text e)) | Inr rw \<Rightarrow> Inr rw) in
      if tag m = CHR ''P'' then (case on_parse dg m cs of (res, cs') \<Rightarrow> (lift res, cs'))
      else if tag m = CHR ''B'' then (lift (on_bind cs m bs), cs)
      else if tag m = CHR ''D'' \<or> tag m = CHR ''C'' then (lift (on_describe_or_close cs m bs), cs)
      else (Inr Unchanged, cs))"

text \<open>Two writes and a flush, under one error text.\<close>

definition write_pair :: "Message \<Rightarrow> Message \<Rightarrow> PgBackend \<Rightarrow> string option \<times> PgBackend" where
  "write_pair m1 m2 b =
     (case write_io m1 b of
        (Some e, b) \<Rightarrow> (Some e, b)
      | (None, b) \<Rightarrow> send_io m2 b)"

definition flush_message :: Message where "flush_message = msg (CHR ''H'') []"

function close_statement_loop :: "PgBackend \<Rightarrow> ProtoError option \<times> PgBackend" where
  "close_statement_loop b =
     (case read_io b of
        (Inl e, b') \<Rightarrow> (Some (PBackend (''closing statement: '' @ e)), b')
      | (Inr m, b') \<Rightarrow>
          if tag m = CHR ''3'' \<or> tag m = CHR ''E'' then (None, b') else close_statement_loop b')"
  by pat_completeness auto
termination
  by (relation "measure (length \<circ> io_reads)") (auto dest: read_io_shorter [OF sym])

definition close_message :: "string \<Rightarrow> Message" where
  "close_message name = msg (CHR ''C'') ([CHR ''S''] @ name @ [NUL])"

definition close_statement :: "string \<Rightarrow> PgBackend \<Rightarrow> ProtoError option \<times> PgBackend" where
  "close_statement name b =
     (case write_pair (close_message name) flush_message b of
        (Some e, b) \<Rightarrow> (Some (PBackend (''closing statement: '' @ e)), b)
      | (None, b) \<Rightarrow> close_statement_loop b)"

function replay_parse_loop :: "PgBackend \<Rightarrow> ProtoError option \<times> PgBackend" where
  "replay_parse_loop b =
     (case read_io b of
        (Inl e, b') \<Rightarrow> (Some (PBackend (''reading Parse reply: '' @ e)), b')
      | (Inr m, b') \<Rightarrow>
          if tag m = CHR ''1'' then (None, b')
          else if tag m = CHR ''E'' then
            (Some (PProtocol (''backend rejected replayed statement: '' @ error_detail ''prepare failed'' m)), b')
          else replay_parse_loop b')"
  by pat_completeness auto
termination
  by (relation "measure (length \<circ> io_reads)") (auto dest: read_io_shorter [OF sym])

definition replay_parse :: "string \<Rightarrow> string \<Rightarrow> PgBackend \<Rightarrow> ProtoError option \<times> PgBackend" where
  "replay_parse parse name b =
     (case write_io (msg (CHR ''P'') parse) b of
        (Some e, b) \<Rightarrow> (Some (PBackend (''replaying Parse: '' @ e)), b)
      | (None, b) \<Rightarrow>
          (case send_io flush_message b of
             (Some e, b) \<Rightarrow> (Some (PBackend (''flushing Parse: '' @ e)), b)
           | (None, b) \<Rightarrow>
               (case replay_parse_loop b of
                  (Some e, b) \<Rightarrow> (Some e, b)
                | (None, b) \<Rightarrow>
                    (case insert_statement name (pb_statements b) of
                       (None, bs) \<Rightarrow> (None, b\<lparr>pb_statements := bs\<rparr>)
                     | (Some evicted, bs) \<Rightarrow> close_statement evicted (b\<lparr>pb_statements := bs\<rparr>)))))"

section \<open>Copying the answer\<close>

record ExchangeEnd =
  end_status :: TransactionStatus
  errored :: bool

type_synonym Pump = "(ProtoError + ExchangeEnd) \<times> PgBackend \<times> Client \<times> RelayStats"

text \<open>Flushing what the client is owed, then the end of the exchange.\<close>

definition pump_end :: "ExchangeEnd \<Rightarrow> PgBackend \<Rightarrow> Client \<Rightarrow> RelayStats \<Rightarrow> Pump" where
  "pump_end e b c st =
     (case flush_client c of
        (Some _, c) \<Rightarrow> (Inl (PIo OtherIo), b, c, st)
      | (None, c) \<Rightarrow> (Inr e, b, c, st))"

function pump_until_ready :: "bool \<Rightarrow> PgBackend \<Rightarrow> Client \<Rightarrow> RelayStats \<Rightarrow> Pump" where
  "pump_until_ready err b c st =
     (case read_io b of
        (Inl e, b') \<Rightarrow> (Inl (PBackend (''reading from backend: '' @ e)), b', c, st)
      | (Inr m, b') \<Rightarrow>
          let err' = (err \<or> tag m = CHR ''E'') in
          (case write_client m c of
             (Some _, c') \<Rightarrow> (Inl (PIo OtherIo), b', c', st)
           | (None, c') \<Rightarrow>
               let st' = st\<lparr>to_client := to_client st + word_of_nat (wire_len m)\<rparr> in
               (case transaction_status m of
                  Some s \<Rightarrow> pump_end \<lparr>end_status = s, errored = err'\<rparr> b' c' st'
                | None \<Rightarrow>
                    if tag m = CHR ''G'' \<or> tag m = CHR ''W''
                    then pump_end \<lparr>end_status = TInTransaction, errored = err'\<rparr> b' c' st'
                    else pump_until_ready err' b' c' st')))"
  by pat_completeness auto
termination
  by (relation "measure (\<lambda>(_, b, _, _). length (io_reads b))") (auto dest: read_io_shorter [OF sym])

declare sync_params_loop.simps [simp del] close_statement_loop.simps [simp del]
  replay_parse_loop.simps [simp del] pump_until_ready.simps [simp del]

end
