(* ===== verification/Txn_Relay.thy ===== *)
theory Txn_Relay
  imports Txn
begin

text \<open>
  The loop of \<open>transaction_relay_inner\<close> (\<open>havuz-pg/src/txn.rs\<close>), cut at its phases: refuse,
  borrow, rewrite, forward, answer, replay on the primary, release. A phase says with \<open>Ctl\<close>
  how the iteration goes on; \<open>Return\<close> leaves the function, which drops what is held.
\<close>

section \<open>Small steps\<close>

definition now :: "Relay_Env \<Rightarrow> Relay \<Rightarrow> time" where
  "now E r = clock E (ticks r)"

definition tick :: "Relay \<Rightarrow> Relay" where
  "tick r = r\<lparr>ticks := Suc (ticks r)\<rparr>"

definition note_result :: "Relay_Env \<Rightarrow> bool \<Rightarrow> Relay \<Rightarrow> Relay" where
  "note_result E ok r = (tick r)\<lparr>router := record_result (now E r) (current_route r) ok (router r)\<rparr>"

definition retarget_cancel :: "CancelKey option \<Rightarrow> PgCheckout option \<Rightarrow> CancelRegistry \<Rightarrow> CancelRegistry" where
  "retarget_cancel sc co reg =
     (case sc of
        None \<Rightarrow> reg
      | Some key \<Rightarrow> retarget key (Option.bind co (cancel_target \<circ> co_backend)) reg)"

definition retarget_to :: "Relay_Env \<Rightarrow> PgCheckout option \<Rightarrow> Relay \<Rightarrow> Relay" where
  "retarget_to E co r = r\<lparr>cancels := retarget_cancel (cancel_scope (policy E)) co (cancels r)\<rparr>"

text \<open>Dropping a checkout hands the connection to its pool.\<close>

definition give_back :: "PgCheckout \<Rightarrow> Relay \<Rightarrow> Relay" where
  "give_back co r = r\<lparr>given_back := given_back r @ [co]\<rparr>"

definition discard :: "PgCheckout \<Rightarrow> PgCheckout" where
  "discard co = co\<lparr>co_discard := True\<rparr>"

definition drop_held :: "Relay \<Rightarrow> Relay" where
  "drop_held r = (case held r of None \<Rightarrow> r | Some co \<Rightarrow> give_back co (r\<lparr>held := None\<rparr>))"

definition is_replica :: "Route \<Rightarrow> bool" where
  "is_replica route = (case route of Replica _ \<Rightarrow> True | Primary _ \<Rightarrow> False)"

definition pool_for :: "Router \<Rightarrow> Route \<Rightarrow> nat option" where
  "pool_for rt route =
     (case route of Primary _ \<Rightarrow> None | Replica i \<Rightarrow> if i < length (replicas rt) then Some i else None)"

definition target_label :: "Relay_Env \<Rightarrow> Router \<Rightarrow> Route \<Rightarrow> string" where
  "target_label E rt route =
     (let primary = ''primary/'' @ pg_primary_label (pool_group E) in
      case route of
        Primary _ \<Rightarrow> primary
      | Replica i \<Rightarrow> if i < length (replicas rt) then ''replica/'' @ label (replicas rt ! i) else primary)"

text \<open>\<open>Pool::acquire\<close>, whose result the pool decides; a pool with no more answers is closed.\<close>

definition acquire_from :: "Relay_Env \<Rightarrow> nat option \<Rightarrow> Relay \<Rightarrow> (PoolError + PgCheckout) \<times> Relay" where
  "acquire_from E pool r =
     (case acquires r of
        [] \<Rightarrow> (Inl (Unavailable (pg_name (pool_group E)) ''closed''), r)
      | Inl e # as \<Rightarrow> (Inl e, r\<lparr>acquires := as\<rparr>)
      | Inr b # as \<Rightarrow> (Inr \<lparr>co_backend = b, co_discard = False, co_pool = pool\<rparr>, r\<lparr>acquires := as\<rparr>))"

definition update_holder :: "Relay_Env \<Rightarrow> PgCheckout \<Rightarrow> Relay \<Rightarrow> Relay" where
  "update_holder E co r =
     (case holder E of
        None \<Rightarrow> r
      | Some h \<Rightarrow>
          let target = target_label E (router r) (current_route r);
              pid = pb_pid (co_backend co);
              t = now E r; ms = wall_ms E (ticks r);
              reg = holders r
          in (tick r)\<lparr>holders :=
               (case ss_pin (flow r) of
                  Some reason \<Rightarrow> pinned_holder t ms h reason target pid reg
                | None \<Rightarrow>
                    if ss_in_transaction (flow r) then idle_in_transaction_holder t ms h target pid reg
                    else holder_clear (hh_id h) reg)\<rparr>)"

section \<open>Before a backend is needed\<close>

definition read_only_detail :: "Relay_Env \<Rightarrow> ReadOnlyReason \<Rightarrow> string" where
  "read_only_detail E reason =
     (case reason of
        RoPool \<Rightarrow> ''pool '' @ [CHR 0x22] @ pg_name (pool_group E) @ [CHR 0x22]
                  @ '' is read-only; the session cannot be made writable''
      | RoUser \<Rightarrow> ''this user is read-only; the session cannot be made writable'')"

definition refuse_read_only :: "Relay_Env \<Rightarrow> Message \<Rightarrow> Relay \<Rightarrow> Relay option" where
  "refuse_read_only E m r =
     (case (read_only (policy E), param_sql m) of
        (Some reason, Some sql) \<Rightarrow>
          if defeats_read_only sql then
            Some (tell (ready_for_query (if ss_in_transaction (flow r) then TFailed else TIdle))
                   (tell (error_response ''ERROR'' READ_ONLY_SQL_TRANSACTION (read_only_detail E reason)) r))
          else None
      | _ \<Rightarrow> None)"

definition begin_message :: "Relay_Env \<Rightarrow> Message \<Rightarrow> Relay \<Rightarrow> Relay" where
  "begin_message E m r =
     (let r = (if held r \<noteq> None
               then (case holder E of Some h \<Rightarrow> r\<lparr>holders := holder_clear (hh_id h) (holders r)\<rparr> | None \<Rightarrow> r)
               else r);
          r = (case classify_message m of Pins reason \<Rightarrow> r\<lparr>flow := observe (flow r) (MustPin reason)\<rparr> | _ \<Rightarrow> r);
          r = (case param_sql m of
                 Some sql \<Rightarrow> (case stage_params sql (params r, flow r) of (ps, st) \<Rightarrow> r\<lparr>params := ps, flow := st\<rparr>)
               | None \<Rightarrow> r)
      in r\<lparr>exchange := exchange r @ [m]\<rparr>)"

section \<open>Borrowing\<close>

text \<open>
  \<open>sync_params\<close> on a checkout that is not held yet. Only the first borrow of an exchange
  blames the route for an I/O failure.
\<close>

definition carry_params :: "Relay_Env \<Rightarrow> bool \<Rightarrow> PgCheckout \<Rightarrow> Relay \<Rightarrow> (ProtoError + PgCheckout) \<times> Relay" where
  "carry_params E blame co r =
     (case sync_params (params r) (co_backend co) of
        (Inr InStep, b) \<Rightarrow> (Inr (co\<lparr>co_backend := b\<rparr>), r)
      | (Inr Applied, b) \<Rightarrow> (Inr (co\<lparr>co_backend := b\<rparr>), r\<lparr>param_syncs := param_syncs r + 1\<rparr>)
      | (Inr (Refused detail), b) \<Rightarrow>
          let text = ''cannot apply session parameters: '' @ detail
          in (Inl (PBackend text), give_back (co\<lparr>co_backend := b\<rparr>) (tell (fatal INVALID_PARAMETER_VALUE text) r))
      | (Inl e, b) \<Rightarrow>
          let r = (if blame then note_result E False r else r)
          in (Inl e, give_back (discard (co\<lparr>co_backend := b\<rparr>))
                       (tell (fatal CANNOT_CONNECT_NOW (proto_text (io_text E) e)) r)))"

definition acquire_for_route :: "Relay_Env \<Rightarrow> Relay \<Rightarrow> (PoolError + PgCheckout) \<times> Relay" where
  "acquire_for_route E r =
     (case acquire_from E (pool_for (router r) (current_route r)) r of
        (Inr co, r) \<Rightarrow> (Inr co, r)
      | (Inl e, r) \<Rightarrow>
          (case current_route r of
             Replica _ \<Rightarrow>
               acquire_from E None ((note_result E False r)\<lparr>current_route := Primary NoReplicaAvailable\<rparr>)
           | Primary _ \<Rightarrow> (Inl e, r)))"

definition acquire_failed :: "Relay_Env \<Rightarrow> PoolError \<Rightarrow> Relay \<Rightarrow> Ctl \<times> Relay" where
  "acquire_failed E e r =
     (let r = note_result E False r;
          timeout = (case e of Timeout _ _ \<Rightarrow> True | _ \<Rightarrow> False);
          code = (if timeout then TOO_MANY_CONNECTIONS else CANNOT_CONNECT_NOW);
          text = pool_error_text (io_text E) e
                 @ (if timeout then ''; '' @ (case holder E of
                      Some h \<Rightarrow> timeout_hint (tc_pool (hh_context h)) (holders r) | None \<Rightarrow> [])
                    else [])
      in (Return (PBackend text), tell (fatal code text) r))"

definition borrow :: "Relay_Env \<Rightarrow> Message \<Rightarrow> Relay \<Rightarrow> Ctl \<times> Relay" where
  "borrow E m r =
     (if held r \<noteq> None then (Go, r)
      else
        case choose_route (now E r) (message_intent m (client_statements r) (read_only (policy E) \<noteq> None))
               (routing r) (router r) of (route, s, rt) \<Rightarrow>
        case acquire_for_route E ((tick r)\<lparr>current_route := route, routing := s, router := rt\<rparr>) of
          (Inl e, r) \<Rightarrow> acquire_failed E e r
        | (Inr co, r) \<Rightarrow>
            let r = r\<lparr>checkouts := checkouts r + 1,
                      on_replica := (case current_route r of Replica _ \<Rightarrow> on_replica r + 1 | _ \<Rightarrow> on_replica r)\<rparr>
            in (case carry_params E True co r of
                  (Inl e, r) \<Rightarrow> (Return e, r)
                | (Inr co, r) \<Rightarrow> (Go, retarget_to E (Some co) (r\<lparr>held := Some co\<rparr>))))"

section \<open>Rewriting\<close>

datatype Outgoing = Forward Message | Refuse ProtoError | Fail ProtoError | FailTold ProtoError

text \<open>
  A name the backend already holds is closed before it is parsed again. The replay on the
  primary does not close what its own insertions evict.
\<close>

definition free_name :: "string \<Rightarrow> PgBackend \<Rightarrow> ProtoError option \<times> PgBackend" where
  "free_name g b =
     (if has_statement (pb_statements b) g then
        (case close_statement g b of
           (Some e, b) \<Rightarrow> (Some e, b)
         | (None, b) \<Rightarrow> (None, b\<lparr>pb_statements := remove_statement g (pb_statements b)\<rparr>))
      else (None, b))"

definition remember_name :: "bool \<Rightarrow> string \<Rightarrow> PgBackend \<Rightarrow> PgBackend" where
  "remember_name close_evicted g b =
     (case insert_statement g (pb_statements b) of
        (ev, bs) \<Rightarrow>
          let b = b\<lparr>pb_statements := bs\<rparr>
          in (case ev of
                Some old \<Rightarrow> if close_evicted then snd (close_statement old b) else b
              | None \<Rightarrow> b))"

definition outgoing :: "Relay_Env \<Rightarrow> bool \<Rightarrow> Message \<Rightarrow> PgBackend \<Rightarrow> ClientStatements
    \<Rightarrow> Outgoing \<times> PgBackend \<times> ClientStatements" where
  "outgoing E close_evicted m b cs =
     (case rewrite_prepared (digest E) m (pb_statements b) cs of
        (Inl e, cs) \<Rightarrow> (Refuse e, b, cs)
      | (Inr Unchanged, cs) \<Rightarrow> (Forward m, b, cs)
      | (Inr (Replace m'), cs) \<Rightarrow> (Forward m', b, cs)
      | (Inr (RewriteParse g m'), cs) \<Rightarrow>
          (case free_name g b of
             (Some e, b) \<Rightarrow> (Fail e, b, cs)
           | (None, b) \<Rightarrow> (Forward m', remember_name close_evicted g b, cs))
      | (Inr (CloseStatement g n m'), cs) \<Rightarrow>
          (Forward m', b\<lparr>pb_statements := remove_statement g (pb_statements b)\<rparr>, forget_statement n cs)
      | (Inr (ReplayThen p g m'), cs) \<Rightarrow>
          (case replay_parse p g b of
             (Some e, b) \<Rightarrow> (FailTold e, b, cs)
           | (None, b) \<Rightarrow> (Forward m', b, cs)))"

section \<open>The answer\<close>

definition finish_exchange :: "Relay_Env \<Rightarrow> ExchangeEnd \<Rightarrow> PgCheckout \<Rightarrow> Relay \<Rightarrow> PgCheckout \<times> Relay" where
  "finish_exchange E e co r =
     (let r = note_result E True (r\<lparr>exchanges := exchanges r + 1\<rparr>);
          r = (if end_status e = TIdle
               then r\<lparr>flow := observe (flow r) Idle, routing := end_transaction (routing r)\<rparr>
               else r\<lparr>flow := observe (flow r) InTransaction,
                      routing := begin_transaction (current_route r) (routing r)\<rparr>)
      in case settle_params (errored e) (params r, co_backend co) of
           (ps, b) \<Rightarrow>
             let co = co\<lparr>co_backend := b\<rparr>
             in (co, update_holder E co (r\<lparr>params := ps\<rparr>)))"

text \<open>After an exchange: forget its messages, and give the backend back if the session allows.\<close>

definition release :: "Relay_Env \<Rightarrow> PgCheckout \<Rightarrow> Relay \<Rightarrow> Relay" where
  "release E co r =
     (let r = r\<lparr>exchange := [], held := Some co\<rparr>;
          r = (if is_releasable (flow r) then drop_held (r\<lparr>flow := released (flow r)\<rparr>) else r)
      in retarget_to E (held r) r)"

fun replay_exchange :: "Relay_Env \<Rightarrow> Message list \<Rightarrow> PgBackend \<Rightarrow> ClientStatements
    \<Rightarrow> ProtoError option \<times> PgBackend \<times> ClientStatements" where
  "replay_exchange E [] b cs =
     (case flush_io b of
        (Some e, b) \<Rightarrow> (Some (PBackend (''replaying exchange: '' @ e)), b, cs)
      | (None, b) \<Rightarrow> (None, b, cs))"
| "replay_exchange E (m # ms) b cs =
     (case outgoing E False m b cs of
        (Forward m', b, cs) \<Rightarrow>
          (case write_io m' b of
             (Some e, b) \<Rightarrow> (Some (PBackend (''replaying exchange: '' @ e)), b, cs)
           | (None, b) \<Rightarrow> replay_exchange E ms b cs)
      | (Refuse e, b, cs) \<Rightarrow> (Some e, b, cs)
      | (Fail e, b, cs) \<Rightarrow> (Some e, b, cs)
      | (FailTold e, b, cs) \<Rightarrow> (Some e, b, cs))"

definition retry_on_primary :: "Relay_Env \<Rightarrow> Relay \<Rightarrow> Ctl \<times> Relay" where
  "retry_on_primary E r =
     (case acquire_from E None (r\<lparr>current_route := Primary NoReplicaAvailable\<rparr>) of
        (Inl e, r) \<Rightarrow>
          let text = pool_error_text (io_text E) e
          in (Return (PBackend text), tell (fatal CANNOT_CONNECT_NOW text) r)
      | (Inr co, r) \<Rightarrow>
          let r = retarget_to E (Some co) (r\<lparr>checkouts := checkouts r + 1\<rparr>) in
          (case carry_params E False co r of
             (Inl e, r) \<Rightarrow> (Return e, r)
           | (Inr co, r) \<Rightarrow>
               (case replay_exchange E (exchange r) (co_backend co) (client_statements r) of
                  (Some e, b, cs) \<Rightarrow>
                    (Return e, give_back (co\<lparr>co_backend := b\<rparr>) (r\<lparr>client_statements := cs\<rparr>))
                | (None, b, cs) \<Rightarrow>
                    let r = r\<lparr>client_statements := cs\<rparr> in
                    (case pump_until_ready False b (client r) (stats r) of
                       (Inr e, b, c, st) \<Rightarrow>
                         (case finish_exchange E e (co\<lparr>co_backend := b\<rparr>) (r\<lparr>client := c, stats := st\<rparr>) of
                            (co, r) \<Rightarrow> (Continue, release E co r))
                     | (Inl e, b, c, st) \<Rightarrow>
                         let r = r\<lparr>client := c, stats := st\<lparr>backend_closed := True\<rparr>\<rparr>
                         in (Return e, give_back (discard (co\<lparr>co_backend := b\<rparr>))
                              (tell (fatal CANNOT_CONNECT_NOW ''backend connection lost'') r))))))"

definition answer_failed :: "Relay_Env \<Rightarrow> ProtoError \<Rightarrow> bool \<Rightarrow> PgCheckout \<Rightarrow> Relay \<Rightarrow> Ctl \<times> Relay" where
  "answer_failed E e nothing_sent co r =
     (let r = note_result E False r;
          r = retarget_to E None (give_back (discard co) (r\<lparr>held := None\<rparr>))
      in if is_replica (current_route r) \<and> nothing_sent then retry_on_primary E r
         else (Return e, tell (fatal CANNOT_CONNECT_NOW ''backend connection lost'')
                (r\<lparr>stats := (stats r)\<lparr>backend_closed := True\<rparr>\<rparr>)))"

definition expects_reply :: "Message \<Rightarrow> bool" where
  "expects_reply m \<longleftrightarrow>
     (case classify_message m of SyncPoint \<Rightarrow> True | Pins _ \<Rightarrow> tag m = CHR ''Q'' | _ \<Rightarrow> False)"

definition answer :: "Relay_Env \<Rightarrow> PgCheckout \<Rightarrow> Relay \<Rightarrow> Ctl \<times> Relay" where
  "answer E co r =
     (case flush_io (co_backend co) of
        (Some e, b) \<Rightarrow>
          (Return (PBackend (''flushing to backend: '' @ e)), r\<lparr>held := Some (discard (co\<lparr>co_backend := b\<rparr>))\<rparr>)
      | (None, b) \<Rightarrow>
          (case pump_until_ready False b (client r) (stats r) of
             (Inr e, b, c, st) \<Rightarrow>
               (case finish_exchange E e (co\<lparr>co_backend := b\<rparr>) (r\<lparr>client := c, stats := st\<rparr>) of
                  (co, r) \<Rightarrow> (Continue, release E co r))
           | (Inl e, b, c, st) \<Rightarrow>
               answer_failed E e (to_client st = to_client (stats r)) (co\<lparr>co_backend := b\<rparr>)
                 (r\<lparr>client := c, stats := st\<rparr>)))"

section \<open>Forwarding\<close>

definition forward :: "Relay_Env \<Rightarrow> Message \<Rightarrow> Message \<Rightarrow> PgCheckout \<Rightarrow> Relay \<Rightarrow> Ctl \<times> Relay" where
  "forward E m m' co r =
     (case write_io m' (co_backend co) of
        (Some e, b) \<Rightarrow>
          let r = retarget_to E None (give_back (discard (co\<lparr>co_backend := b\<rparr>)) (r\<lparr>held := None\<rparr>));
              r = note_result E False r
          in (case current_route r of
                Replica _ \<Rightarrow> (Continue, r)
              | Primary _ \<Rightarrow>
                  (Return (PBackend (''forwarding to backend: '' @ e)),
                   tell (fatal CANNOT_CONNECT_NOW ''backend connection lost'') r))
      | (None, b) \<Rightarrow>
          let co = co\<lparr>co_backend := b\<rparr>;
              r = r\<lparr>held := Some co, stats := (stats r)\<lparr>to_backend := to_backend (stats r) + word_of_nat (wire_len m')\<rparr>\<rparr>
          in if expects_reply m then answer E co r else (Continue, r))"

definition relay_exchange :: "Relay_Env \<Rightarrow> Message \<Rightarrow> PgCheckout \<Rightarrow> Relay \<Rightarrow> Ctl \<times> Relay" where
  "relay_exchange E m co r =
     (case outgoing E True m (co_backend co) (client_statements r) of
        (out, b, cs) \<Rightarrow>
          let co = co\<lparr>co_backend := b\<rparr>;
              r = r\<lparr>held := Some co, client_statements := cs\<rparr>
          in (case out of
                Forward m' \<Rightarrow> forward E m m' co r
              | Refuse e \<Rightarrow>
                  (Continue, tell (ready_for_query TFailed)
                     (tell (error_response ''ERROR'' PROTOCOL_VIOLATION (proto_text (io_text E) e)) r))
              | Fail e \<Rightarrow> (Return e, r\<lparr>held := Some (discard co)\<rparr>)
              | FailTold e \<Rightarrow>
                  (Return e, tell (fatal PROTOCOL_VIOLATION (proto_text (io_text E) e))
                     (r\<lparr>held := Some (discard co)\<rparr>))))"

section \<open>The loop\<close>

definition relay_message :: "Relay_Env \<Rightarrow> Message \<Rightarrow> Relay \<Rightarrow> Ctl \<times> Relay" where
  "relay_message E m r =
     (case refuse_read_only E m r of
        Some r \<Rightarrow> (Continue, r)
      | None \<Rightarrow>
          if classify_message m = Terminate then (Break, r\<lparr>stats := (stats r)\<lparr>client_terminated := True\<rparr>\<rparr>)
          else
            (case borrow E m (begin_message E m r) of
               (Go, r) \<Rightarrow> (case held r of Some co \<Rightarrow> relay_exchange E m co r | None \<Rightarrow> (Continue, r))
             | (ctl, r) \<Rightarrow> (ctl, r)))"

text \<open>An idle timer that is not armed is not seen by the select.\<close>

definition relay_step :: "Relay_Env \<Rightarrow> ClientEvent \<Rightarrow> Relay \<Rightarrow> Ctl \<times> Relay" where
  "relay_step E ev r =
     (case ev of
        Kicked \<Rightarrow> (Break, tell (fatal ADMIN_SHUTDOWN ''terminating connection due to administrator command'') r)
      | IdleElapsed \<Rightarrow>
          if idle_in_transaction (policy E) \<noteq> 0 \<and> ss_in_transaction (flow r)
          then (Break, tell (fatal IDLE_IN_TRANSACTION_SESSION_TIMEOUT
                   ''terminating connection due to idle-in-transaction timeout'') r)
          else (Continue, r)
      | ReadFailed \<Rightarrow> (Break, r)
      | Received m \<Rightarrow> relay_message E m r)"

fun relay_loop :: "Relay_Env \<Rightarrow> ClientEvent list \<Rightarrow> Relay \<Rightarrow> Ctl \<times> Relay" where
  "relay_loop E [] r = (Break, r)"
| "relay_loop E (ev # evs) r =
     (case relay_step E ev r of
        (Continue, r) \<Rightarrow> relay_loop E evs r
      | (ctl, r) \<Rightarrow> (ctl, r))"

record TxnOutcome =
  out_stats :: RelayStats
  out_exchanges :: u64
  out_pinned :: "PinReason option"
  out_checkouts :: u64
  out_to_replica :: u64
  out_param_syncs :: u64

definition relay_end :: "Relay_Env \<Rightarrow> Relay \<Rightarrow> Relay" where
  "relay_end E r =
     (let r = retarget_to E None r in
      case held r of
        None \<Rightarrow> r
      | Some co \<Rightarrow>
          let r = r\<lparr>held := None\<rparr> in
          if ss_pin (flow r) \<noteq> None \<or> ss_in_transaction (flow r)
          then (case reset_backend (co_backend co) of
                  (out, b) \<Rightarrow>
                    let co = co\<lparr>co_backend := b\<rparr>
                    in give_back (if out = Discard then discard co else co) r)
          else give_back co r)"

definition transaction_relay :: "Relay_Env \<Rightarrow> ClientEvent list \<Rightarrow> Relay \<Rightarrow> (ProtoError + TxnOutcome) \<times> Relay" where
  "transaction_relay E evs r =
     (case relay_loop E evs r of
        (Return e, r) \<Rightarrow> (Inl e, drop_held r)
      | (_, r) \<Rightarrow>
          let r = relay_end E r
          in (Inr \<lparr>out_stats = stats r, out_exchanges = exchanges r, out_pinned = ss_pin (flow r),
                   out_checkouts = checkouts r, out_to_replica = on_replica r, out_param_syncs = param_syncs r\<rparr>, r))"

text \<open>The locals as the function starts, around the state it borrows.\<close>

definition new_relay :: "SessionState \<Rightarrow> ClientParams \<Rightarrow> Router \<Rightarrow> CancelRegistry \<Rightarrow> HolderRegistry \<Rightarrow> Client
    \<Rightarrow> (PoolError + PgBackend) list \<Rightarrow> Relay" where
  "new_relay st ps rt reg hs c as =
     \<lparr>held = None, stats = zero_relay_stats, exchanges = 0, checkouts = 0, on_replica = 0, param_syncs = 0,
      client_statements = Map.empty, routing = new_routing, current_route = Primary SplitDisabled,
      exchange = [], flow = st, params = ps, router = rt, cancels = reg, holders = hs, client = c,
      acquires = as, ticks = 0, given_back = []\<rparr>"

end
