(* ===== verification/Txn_Statements.thy ===== *)
theory Txn_Statements
  imports Txn_Relay
begin

text \<open>
  Prepared statements on one connection. Replaying the log of a connection gives the names
  the server has been told to prepare and not told to forget. The cache of a connection
  never claims more than that, so the relay never binds or describes a statement on a
  backend that was not sent its \<open>Parse\<close>.
\<close>

section \<open>The names a log leaves prepared\<close>

fun parsed_step :: "string set \<Rightarrow> Io \<Rightarrow> string set" where
  "parsed_step S (Got m) = S"
| "parsed_step S (Sent m) =
     (if tag m = CHR ''P'' then
        (case cstring (body m) of Some (n, _) \<Rightarrow> insert n S | None \<Rightarrow> S)
      else if tag m = CHR ''C'' then
        (case body m of
           k # r \<Rightarrow> if k = CHR ''S'' then (case cstring r of Some (n, _) \<Rightarrow> S - {n} | None \<Rightarrow> S) else S
         | [] \<Rightarrow> S)
      else S)"

definition parsed :: "Io list \<Rightarrow> string set" where
  "parsed log = foldl parsed_step {} log"

text \<open>The statement a \<open>Bind\<close> or a \<open>Describe\<close> refers to.\<close>

definition refers_to :: "Message \<Rightarrow> string option" where
  "refers_to m =
     (if tag m = CHR ''B'' then (case bind_statement_name (body m) of Inr n \<Rightarrow> Some n | Inl _ \<Rightarrow> None)
      else if tag m = CHR ''D'' then
        (case describe_target (body m) of Inr (k, n) \<Rightarrow> if k = CHR ''S'' then Some n else None | Inl _ \<Rightarrow> None)
      else None)"

fun resolved :: "string set \<Rightarrow> Io \<Rightarrow> bool" where
  "resolved S (Got m) \<longleftrightarrow> True"
| "resolved S (Sent m) \<longleftrightarrow> (case refers_to m of Some n \<Rightarrow> n = [] \<or> n \<in> S | None \<Rightarrow> True)"

text \<open>Every reference in the log is to the unnamed statement or to one that is prepared at that point.\<close>

fun log_ok :: "string set \<Rightarrow> Io list \<Rightarrow> bool" where
  "log_ok S [] \<longleftrightarrow> True"
| "log_ok S (x # xs) \<longleftrightarrow> resolved S x \<and> log_ok (parsed_step S x) xs"

lemma parsed_simps [simp]:
  "parsed [] = {}" "parsed (log @ [x]) = parsed_step (parsed log) x"
  by (simp_all add: parsed_def)

lemma log_ok_append: "log_ok S (xs @ ys) \<longleftrightarrow> log_ok S xs \<and> log_ok (foldl parsed_step S xs) ys"
  by (induction xs arbitrary: S) auto

lemma log_ok_snoc [simp]: "log_ok {} (log @ [x]) \<longleftrightarrow> log_ok {} log \<and> resolved (parsed log) x"
  by (simp add: log_ok_append parsed_def)

lemma parsed_got [simp]: "parsed (log @ map Got ms) = parsed log"
  by (induction ms rule: rev_induct) (simp_all flip: append_assoc)

lemma log_ok_got [simp]: "log_ok {} (log @ map Got ms) = log_ok {} log"
  by (induction ms rule: rev_induct) (simp_all flip: append_assoc)

section \<open>A connection whose cache can be trusted\<close>

definition plain :: "string \<Rightarrow> bool" where
  "plain n \<longleftrightarrow> n \<noteq> [] \<and> NUL \<notin> set n"

text \<open>\<open>S\<close> is what will be prepared once the message in hand has been written.\<close>

definition trusts :: "string set \<Rightarrow> PgBackend \<Rightarrow> bool" where
  "trusts S b \<longleftrightarrow> cache_inv (pb_statements b) \<and> (\<forall>n \<in> present (pb_statements b). plain n)
     \<and> present (pb_statements b) \<subseteq> S \<and> log_ok {} (io_log b)"

definition backend_ok :: "PgBackend \<Rightarrow> bool" where
  "backend_ok b \<longleftrightarrow> trusts (parsed (io_log b)) b"

lemma trusts_mono: "trusts S b \<Longrightarrow> S \<subseteq> T \<Longrightarrow> trusts T b"
  by (auto simp: trusts_def)

lemma trusts_heard: "heard b b' \<Longrightarrow> trusts S b' = trusts S b"
  using heard_keeps(3) [of b b'] heard_log [of b b'] by (auto simp: trusts_def)

lemma parsed_heard: "heard b b' \<Longrightarrow> parsed (io_log b') = parsed (io_log b)"
  using heard_log [of b b'] by auto

lemma trusts_faults [simp]: "trusts S (b\<lparr>io_faults := fs\<rparr>) = trusts S b"
  by (simp add: trusts_def)

lemma trusts_sent:
  "trusts S (b\<lparr>io_faults := fs, io_log := io_log b @ [Sent m]\<rparr>) \<longleftrightarrow> trusts S b \<and> resolved (parsed (io_log b)) (Sent m)"
  by (auto simp: trusts_def)

lemma backend_ok_heard: "heard b b' \<Longrightarrow> backend_ok b' = backend_ok b"
  by (simp add: backend_ok_def trusts_heard parsed_heard)

section \<open>The relay's own exchanges\<close>

lemma close_statement_loop_heard: "heard b (snd (close_statement_loop b))"
proof (rule heard_loop [where out = "\<lambda>_::unit. snd \<circ> close_statement_loop" and a = "()", simplified])
  fix b x c assume "read_io b = (x, c)"
  then show "snd (close_statement_loop b) = c \<or> (\<exists>m. x = Inr m) \<and> snd (close_statement_loop b) = snd (close_statement_loop c)"
    by (cases x) (auto simp: close_statement_loop.simps [of b])
qed

lemma replay_parse_loop_heard: "heard b (snd (replay_parse_loop b))"
proof (rule heard_loop [where out = "\<lambda>_::unit. snd \<circ> replay_parse_loop" and a = "()", simplified])
  fix b x c assume "read_io b = (x, c)"
  then show "snd (replay_parse_loop b) = c \<or> (\<exists>m. x = Inr m) \<and> snd (replay_parse_loop b) = snd (replay_parse_loop c)"
    by (cases x) (auto simp: replay_parse_loop.simps [of b])
qed

lemma sync_params_loop_heard: "heard b (snd (sync_params_loop a b))"
proof (rule heard_loop [where out = "\<lambda>a. snd \<circ> sync_params_loop a", simplified])
  fix a b x c assume "read_io b = (x, c)"
  then show "snd (sync_params_loop a b) = c
      \<or> (\<exists>m. x = Inr m) \<and> (\<exists>a'. snd (sync_params_loop a b) = snd (sync_params_loop a' c))"
    by (cases x) (auto simp: sync_params_loop.simps [of a b])
qed

lemma pump_end_backend: "fst (snd (pump_end e b c st)) = b"
  by (simp add: pump_end_def split: prod.splits option.splits)

definition pump_out :: "bool \<times> Client \<times> RelayStats \<Rightarrow> PgBackend \<Rightarrow> PgBackend" where
  "pump_out a b = (case a of (err, c, st) \<Rightarrow> fst (snd (pump_until_ready err b c st)))"

lemma pump_heard: "heard b (fst (snd (pump_until_ready err b c st)))"
proof -
  have "heard b (pump_out (err, c, st) b)"
  proof (rule heard_loop [where out = pump_out])
    fix a :: "bool \<times> Client \<times> RelayStats" and b x d
    assume r: "read_io b = (x, d)"
    obtain err c st where a: "a = (err, c, st)" by (cases a)
    show "pump_out a b = d \<or> (\<exists>m a'. x = Inr m \<and> pump_out a b = pump_out a' d)"
    proof (cases x)
      case (Inl e)
      with r a show ?thesis by (simp add: pump_out_def pump_until_ready.simps [of err b])
    next
      case (Inr m)
      let ?err = "err \<or> tag m = CHR ''E''" and ?st = "st\<lparr>to_client := to_client st + word_of_nat (wire_len m)\<rparr>"
      obtain f c' where w: "write_client m c = (f, c')" by force
      have "pump_out a b = d \<or> pump_out a b = pump_out (?err, c', ?st) d"
        unfolding a pump_out_def using r Inr w
        by (simp add: pump_until_ready.simps [of err b] pump_end_backend Let_def split: option.splits)
      then show ?thesis using Inr by blast
    qed
  qed
  then show ?thesis by (simp add: pump_out_def)
qed

text \<open>Anything but the log and the socket is left alone.\<close>

definition talked :: "PgBackend \<Rightarrow> PgBackend \<Rightarrow> bool" where
  "talked b b' \<longleftrightarrow> cancel_target b' = cancel_target b \<and> applied_params b' = applied_params b"

lemma talked_refl [simp]: "talked b b"
  by (simp add: talked_def)

lemma talked_trans: "talked a b \<Longrightarrow> talked b c \<Longrightarrow> talked a c"
  by (simp add: talked_def)

lemma talked_heard: "heard b b' \<Longrightarrow> talked b b'"
  by (simp add: talked_def heard_keeps)

lemma talked_statements [simp]: "talked b (b'\<lparr>pb_statements := s\<rparr>) = talked b b'"
  by (simp add: talked_def)

lemma talked_write: "write_io m b = (f, b') \<Longrightarrow> talked b b'"
  by (erule write_io_cases) (simp_all add: talked_def)

lemma talked_flush: "flush_io b = (f, b') \<Longrightarrow> talked b b'"
  by (drule flush_io_faults) (auto simp: talked_def)

lemma talked_send: "send_io m b = (f, b') \<Longrightarrow> talked b b'"
  by (erule send_io_cases) (simp_all add: talked_def)

lemma refers_to_none [simp]:
  "tag m \<noteq> CHR ''B'' \<Longrightarrow> tag m \<noteq> CHR ''D'' \<Longrightarrow> refers_to m = None"
  by (simp add: refers_to_def)

lemma parsed_step_other [simp]:
  "tag m \<noteq> CHR ''P'' \<Longrightarrow> tag m \<noteq> CHR ''C'' \<Longrightarrow> parsed_step S (Sent m) = S"
  by simp

lemma tag_msg [simp]: "tag (msg t bs) = t" "body (msg t bs) = bs"
  by (simp_all add: msg_def)

lemma parsed_step_close:
  assumes "NUL \<notin> set n"
  shows "parsed_step S (Sent (msg (CHR ''C'') (CHR ''S'' # n @ NUL # r))) = S - {n}"
  using cstring_encoded [OF assms, of r] by simp

lemma parsed_step_parse:
  assumes "NUL \<notin> set n"
  shows "parsed_step S (Sent (msg (CHR ''P'') (n @ NUL # r))) = insert n S"
  using cstring_encoded [OF assms, of r] by simp

declare parsed_step.simps(2) [simp del]

lemma write_io_trusts:
  assumes "write_io m b = (f, b')" and "trusts S b" and "resolved (parsed (io_log b)) (Sent m)"
  shows "trusts S b' \<and> pb_statements b' = pb_statements b
    \<and> parsed (io_log b') = (if f = None then parsed_step (parsed (io_log b)) (Sent m) else parsed (io_log b))"
  using assms(1) by (rule write_io_cases) (use assms(2,3) in \<open>simp_all add: trusts_sent\<close>)

lemma flush_io_trusts:
  assumes "flush_io b = (f, b')" and "trusts S b"
  shows "trusts S b' \<and> pb_statements b' = pb_statements b \<and> parsed (io_log b') = parsed (io_log b)"
  using flush_io_faults [OF assms(1)] assms(2) by auto

lemma send_io_trusts:
  assumes "send_io m b = (f, b')" and "trusts S b" and "refers_to m = None"
    and "\<And>T. parsed_step T (Sent m) = T"
  shows "trusts S b' \<and> pb_statements b' = pb_statements b \<and> parsed (io_log b') = parsed (io_log b)"
  using assms(1) by (rule send_io_cases) (use assms in \<open>simp_all add: trusts_sent\<close>)

lemma close_statement_trusts:
  assumes c: "close_statement n b = (f, b')" and t: "trusts S b" and n: "NUL \<notin> set n"
  shows "trusts S b' \<and> pb_statements b' = pb_statements b \<and> parsed (io_log b) - {n} \<subseteq> parsed (io_log b')"
    (is "?P b'")
proof -
  obtain g b1 where w: "write_io (close_message n) b = (g, b1)" by force
  have s: "parsed_step T (Sent (close_message n)) = T - {n}" for T
    using parsed_step_close [OF n, of T "[]"] by (simp add: close_message_def)
  have 1: "trusts S b1 \<and> pb_statements b1 = pb_statements b \<and> parsed (io_log b) - {n} \<subseteq> parsed (io_log b1)"
  proof -
    have "resolved (parsed (io_log b)) (Sent (close_message n))" by (simp add: close_message_def)
    from write_io_trusts [OF w t this] show ?thesis by (auto simp: s split: if_splits)
  qed
  show ?thesis
  proof (cases g)
    case (Some e)
    with c w 1 show ?thesis by (simp add: close_statement_def write_pair_def)
  next
    case None
    obtain h b2 where w2: "send_io flush_message b1 = (h, b2)" by force
    have 2: "?P b2"
      using send_io_trusts [OF w2, of S] 1 by (auto simp: flush_message_def)
    show ?thesis
    proof (cases h)
      case (Some e)
      with c w None w2 2 show ?thesis by (simp add: close_statement_def write_pair_def)
    next
      case (None)
      with c w \<open>g = None\<close> w2 have "b' = snd (close_statement_loop b2)"
        by (simp add: close_statement_def write_pair_def)
      then have "heard b2 b'" using close_statement_loop_heard by simp
      with 2 show ?thesis by (simp add: trusts_heard parsed_heard heard_keeps(3))
    qed
  qed
qed

lemma close_statement_talked: "close_statement n b = (f, b') \<Longrightarrow> talked b b'"
proof -
  assume c: "close_statement n b = (f, b')"
  obtain g b1 where w: "write_io (close_message n) b = (g, b1)" by force
  obtain h b2 where w2: "send_io flush_message b1 = (h, b2)" by force
  have "talked b b1" "talked b1 b2" using w w2 by (blast intro: talked_write talked_send)+
  moreover have "talked b2 (snd (close_statement_loop b2))"
    by (rule talked_heard [OF close_statement_loop_heard])
  ultimately show ?thesis
    using c w w2 by (auto simp: close_statement_def write_pair_def split: option.splits intro: talked_trans)
qed

section \<open>Preparing a statement\<close>

lemma inserted_trusts:
  assumes "trusts S b" and "plain g" and "insert_statement g (pb_statements b) = (ev, bs)"
  shows "trusts (insert g (S - set_option ev)) (b\<lparr>pb_statements := bs\<rparr>)"
    and "\<And>old. ev = Some old \<Longrightarrow> NUL \<notin> set old \<and> old \<noteq> g"
    and "g \<in> present bs"
proof -
  have inv: "cache_inv (pb_statements b)" "cache_inv bs"
    using assms insert_statement_inv [of "pb_statements b" g] by (auto simp: trusts_def)
  note has = backend_cache.has_ins [OF inv(1) assms(3), unfolded has_statement_def]
  note ev = backend_cache.ins_evicts [OF inv(1), of g, unfolded has_statement_def]
  show "\<And>old. ev = Some old \<Longrightarrow> NUL \<notin> set old \<and> old \<noteq> g"
    using ev assms(1,3) by (force simp: trusts_def plain_def)
  show "g \<in> present bs" using has by blast
  show "trusts (insert g (S - set_option ev)) (b\<lparr>pb_statements := bs\<rparr>)"
    using assms(1,2) inv has by (auto simp: trusts_def)
qed

lemma replay_parse_trusts:
  assumes r: "replay_parse (build_parse g sql types) g b = (None, b')" and ok: "backend_ok b" and g: "plain g"
  shows "backend_ok b' \<and> g \<in> parsed (io_log b')"
proof -
  obtain f b1 where w: "write_io (msg (CHR ''P'') (build_parse g sql types)) b = (f, b1)" by force
  with r have f: "f = None" by (auto simp: replay_parse_def split: option.splits)
  have step: "parsed_step T (Sent (msg (CHR ''P'') (build_parse g sql types))) = insert g T" for T
    using parsed_step_parse [of g T "sql @ NUL # types"] g by (simp add: build_parse_def plain_def)
  have 1: "trusts (parsed (io_log b)) b1" "parsed (io_log b1) = insert g (parsed (io_log b))"
    using write_io_trusts [OF w, of "parsed (io_log b)"] ok f by (auto simp: backend_ok_def step)
  obtain h b2 where s: "send_io flush_message b1 = (h, b2)" by force
  with r w f have h: "h = None" by (auto simp: replay_parse_def split: option.splits)
  have 2: "trusts (parsed (io_log b)) b2" "parsed (io_log b2) = insert g (parsed (io_log b))"
    using send_io_trusts [OF s 1(1)] 1(2) by (auto simp: flush_message_def)
  obtain k b3 where l: "replay_parse_loop b2 = (k, b3)" by force
  with r w f s h have k: "k = None" by (auto simp: replay_parse_def split: option.splits)
  have "heard b2 b3" using replay_parse_loop_heard [of b2] l by simp
  with 2 have 3: "trusts (parsed (io_log b)) b3" "parsed (io_log b3) = insert g (parsed (io_log b))"
    by (simp_all add: trusts_heard parsed_heard)
  obtain ev bs where i: "insert_statement g (pb_statements b3) = (ev, bs)" by force
  note ins = inserted_trusts [OF 3(1) g i]
  show ?thesis
  proof (cases ev)
    case None
    with r w f s h l k i have "b' = b3\<lparr>pb_statements := bs\<rparr>" by (simp add: replay_parse_def)
    with ins(1) 3(2) None show ?thesis by (simp add: backend_ok_def)
  next
    case (Some old)
    with r w f s h l k i have c: "close_statement old (b3\<lparr>pb_statements := bs\<rparr>) = (None, b')"
      by (simp add: replay_parse_def)
    from close_statement_trusts [OF c ins(1)] ins(2) Some 3(2) show ?thesis
      by (auto simp: backend_ok_def elim!: trusts_mono)
  qed
qed

lemma replay_parse_talked:
  assumes "replay_parse p g b = (f, b')"
  shows "talked b b'"
proof -
  obtain f1 b1 where w: "write_io (msg (CHR ''P'') p) b = (f1, b1)" by force
  obtain f2 b2 where s: "send_io flush_message b1 = (f2, b2)" by force
  obtain f3 b3 where l: "replay_parse_loop b2 = (f3, b3)" by force
  obtain ev bs where i: "insert_statement g (pb_statements b3) = (ev, bs)" by force
  have "talked b b1" "talked b1 b2" using w s by (blast intro: talked_write talked_send)+
  moreover have "talked b2 b3" using talked_heard [OF replay_parse_loop_heard [of b2]] l by simp
  ultimately have 3: "talked b b1" "talked b b2" "talked b b3" by (blast intro: talked_trans)+
  have closed: "talked b (snd (close_statement old (b3\<lparr>pb_statements := bs\<rparr>)))" for old
  proof -
    have "talked (b3\<lparr>pb_statements := bs\<rparr>) (snd (close_statement old (b3\<lparr>pb_statements := bs\<rparr>)))"
      by (rule close_statement_talked [OF prod.collapse [symmetric]])
    moreover have "talked b (b3\<lparr>pb_statements := bs\<rparr>)" using 3 by simp
    ultimately show ?thesis by (rule talked_trans [rotated])
  qed
  show ?thesis
  proof (cases f1)
    case None
    show ?thesis
    proof (cases f2)
      case None
      show ?thesis
      proof (cases f3)
        case None
        have r: "(case ev of None \<Rightarrow> (None, b3\<lparr>pb_statements := bs\<rparr>) | Some old \<Rightarrow> close_statement old (b3\<lparr>pb_statements := bs\<rparr>)) = (f, b')"
          using assms \<open>f1 = None\<close> \<open>f2 = None\<close> None by (simp add: replay_parse_def w s l i)
        show ?thesis
        proof (cases ev)
          case (Some old)
          with r have "snd (close_statement old (b3\<lparr>pb_statements := bs\<rparr>)) = b'" by simp
          with closed [of old] show ?thesis by simp
        qed (use r 3 in auto)
      qed (use assms \<open>f1 = None\<close> \<open>f2 = None\<close> 3 in \<open>simp add: replay_parse_def w s l\<close>)
    qed (use assms \<open>f1 = None\<close> 3 in \<open>simp add: replay_parse_def w s\<close>)
  qed (use assms 3 in \<open>simp add: replay_parse_def w\<close>)
qed

section \<open>What rewriting promises\<close>

text \<open>The client's registry holds statements under their global names only.\<close>

definition statement_ok :: "(string \<Rightarrow> u8 list) \<Rightarrow> PreparedStatement \<Rightarrow> bool" where
  "statement_ok dg st \<longleftrightarrow> (\<exists>sql types. st =
     \<lparr>global_name_of = global_name dg sql types, parse_message = build_parse (global_name dg sql types) sql types,
      stmt_sql = sql\<rparr>)"

definition cs_ok :: "(string \<Rightarrow> u8 list) \<Rightarrow> ClientStatements \<Rightarrow> bool" where
  "cs_ok dg cs \<longleftrightarrow> cs [] = None \<and> (\<forall>n st. cs n = Some st \<longrightarrow> statement_ok dg st)"

lemma cs_ok_empty [simp]: "cs_ok dg Map.empty"
  by (simp add: cs_ok_def)

lemma cs_ok_forget [simp]: "cs_ok dg cs \<Longrightarrow> cs_ok dg (forget_statement n cs)"
  by (simp add: cs_ok_def forget_statement_def)

lemma cs_ok_Some: "cs_ok dg cs \<Longrightarrow> cs n = Some st \<Longrightarrow> n \<noteq> [] \<and> statement_ok dg st"
  by (auto simp: cs_ok_def)

lemma statement_ok_plain:
  "statement_ok dg st \<Longrightarrow> plain (global_name_of st) \<and> utf8_valid (global_name_of st)
   \<and> (\<exists>sql types. parse_message st = build_parse (global_name_of st) sql types)"
  by (fastforce simp: statement_ok_def plain_def)

fun rewrite_spec :: "string set \<Rightarrow> Message \<Rightarrow> Rewrite \<Rightarrow> bool" where
  "rewrite_spec P m Unchanged \<longleftrightarrow>
     (\<forall>S. resolved S (Sent m)) \<and> (\<forall>S. S - {[]} \<subseteq> parsed_step S (Sent m))"
| "rewrite_spec P m (Replace m') \<longleftrightarrow>
     (\<exists>g \<in> P. refers_to m' = Some g) \<and> (\<forall>S. parsed_step S (Sent m') = S)"
| "rewrite_spec P m (ReplayThen p g m') \<longleftrightarrow>
     plain g \<and> (\<exists>sql types. p = build_parse g sql types) \<and> refers_to m' = Some g
     \<and> (\<forall>S. parsed_step S (Sent m') = S)"
| "rewrite_spec P m (RewriteParse g m') \<longleftrightarrow>
     plain g \<and> refers_to m' = None \<and> (\<forall>S. parsed_step S (Sent m') = insert g S)"
| "rewrite_spec P m (CloseStatement g n m') \<longleftrightarrow>
     refers_to m' = None \<and> (\<forall>S. parsed_step S (Sent m') = S - {g})"

lemma on_parse_spec:
  assumes "on_parse dg m cs = (Inr rw, cs')" and "tag m = CHR ''P''" and "cs_ok dg cs"
  shows "cs_ok dg cs' \<and> rewrite_spec P m rw"
proof -
  obtain name sql types where d: "decode_parse (body m) = Inr (name, sql, types)"
    using assms(1) by (auto simp: on_parse_def split: sum.splits)
  show ?thesis
  proof (cases "name = UNNAMED")
    case True
    with d obtain r where "cstring (body m) = Some ([], r)"
      by (auto simp: decode_parse_def UNNAMED_def split: option.splits if_splits)
    with assms True d show ?thesis
      by (auto simp: on_parse_def parsed_step.simps(2))
  next
    case False
    let ?g = "global_name dg sql types"
    have "parsed_step S (Sent (msg (CHR ''P'') (build_parse ?g sql types))) = insert ?g S" for S
      using parsed_step_parse [of ?g S "sql @ NUL # types"] by (simp add: build_parse_def)
    moreover have "cs_ok dg (cs(name \<mapsto> \<lparr>global_name_of = ?g, parse_message = build_parse ?g sql types, stmt_sql = sql\<rparr>))"
      using assms(3) False by (auto simp: cs_ok_def statement_ok_def UNNAMED_def)
    ultimately show ?thesis using assms(1) d False by (auto simp: on_parse_def Let_def plain_def)
  qed
qed

lemma redirect_cases:
  assumes "redirect cs m name i backend = Inr rw" and "cs_ok dg cs"
  obtains "name = []" "rw = Unchanged"
  | st b where "name \<noteq> []" "cs name = Some st" "statement_ok dg st" "replace_cstring (body m) i (global_name_of st) = Inr b"
      "rw = (if global_name_of st \<in> present backend then Replace (msg (tag m) b)
             else ReplayThen (parse_message st) (global_name_of st) (msg (tag m) b))"
  using assms cs_ok_Some [OF assms(2)]
  by (auto simp: redirect_def UNNAMED_def has_statement_def split: if_splits option.splits sum.splits)

lemma redirected_spec:
  assumes "statement_ok dg st" and "refers_to m' = Some (global_name_of st)" and "tag m' \<notin> {CHR ''P'', CHR ''C''}"
  shows "rewrite_spec (present bs) m
    (if global_name_of st \<in> present bs then Replace m' else ReplayThen (parse_message st) (global_name_of st) m')"
  using statement_ok_plain [OF assms(1)] assms(2,3) by auto

lemma on_bind_spec:
  assumes "on_bind cs m bs = Inr rw" and t: "tag m = CHR ''B''" and ok: "cs_ok dg cs"
  shows "rewrite_spec (present bs) m rw"
proof -
  obtain name where n: "bind_statement_name (body m) = Inr name" and r: "redirect cs m name 1 bs = Inr rw"
    using assms(1) by (auto simp: on_bind_def split: sum.splits)
  from r ok show ?thesis
  proof (cases rule: redirect_cases)
    case 1
    with n t show ?thesis by (simp add: refers_to_def)
  next
    case (2 st b)
    obtain portal rest where "b = portal @ NUL # global_name_of st @ NUL # rest" "NUL \<notin> set portal"
      using redirect_bind_body [OF n] 2(4) by (metis sum.inject(2))
    moreover have "NUL \<notin> set (global_name_of st)" "utf8_valid (global_name_of st)"
      using statement_ok_plain [OF 2(3)] by (auto simp: plain_def)
    ultimately have "bind_statement_name b = Inr (global_name_of st)"
      by (simp add: bind_statement_name_def cstring_encoded)
    then have "refers_to (msg (tag m) b) = Some (global_name_of st)" using t by (simp add: refers_to_def)
    from redirected_spec [OF 2(3) this, of bs m] t show ?thesis unfolding 2(5) by simp
  qed
qed

lemma replaced_describe:
  assumes "describe_target (body m) = Inr (CHR ''S'', name)" and "statement_ok dg st"
    and "replace_cstring (body m) 0 (global_name_of st) = Inr b"
  shows "describe_target b = Inr (CHR ''S'', global_name_of st)"
    and "parsed_step S (Sent (msg (CHR ''C'') b)) = S - {global_name_of st}"
proof -
  obtain rest where b: "b = CHR ''S'' # global_name_of st @ NUL # rest"
    using redirect_describe_body [OF assms(1)] assms(3) by (metis sum.inject(2))
  have g: "NUL \<notin> set (global_name_of st)" "utf8_valid (global_name_of st)"
    using statement_ok_plain [OF assms(2)] by (auto simp: plain_def)
  show "describe_target b = Inr (CHR ''S'', global_name_of st)"
    using g by (simp add: b describe_target_def cstring_encoded)
  show "parsed_step S (Sent (msg (CHR ''C'') b)) = S - {global_name_of st}"
    using parsed_step_close [OF g(1)] by (simp add: b)
qed

lemma describe_or_close_spec:
  assumes "on_describe_or_close cs m bs = Inr rw" and t: "tag m = CHR ''D'' \<or> tag m = CHR ''C''" and ok: "cs_ok dg cs"
  shows "rewrite_spec (present bs) m rw"
proof -
  obtain k name where d: "describe_target (body m) = Inr (k, name)"
    using assms(1) by (auto simp: on_describe_or_close_def split: sum.splits)
  have C: "parsed_step S (Sent m) = (if k = CHR ''S'' then S - {name} else S)" if "tag m = CHR ''C''" for S
    using d that by (auto simp: describe_target_def parsed_step.simps(2) split: list.splits option.splits if_splits)
  show ?thesis
  proof (cases "k = CHR ''S''")
    case False
    with assms(1) d have "rw = Unchanged" by (simp add: on_describe_or_close_def)
    with False t d C show ?thesis by (auto simp: refers_to_def)
  next
    case True
    then obtain rw' where r: "redirect cs m name 0 bs = Inr rw'"
      using assms(1) d by (auto simp: on_describe_or_close_def split: sum.splits)
    from r ok show ?thesis
    proof (cases rule: redirect_cases)
      case 1
      have "cs name = None" using 1 ok by (simp add: cs_ok_def)
      then have "rw = Unchanged" using assms(1) d True r 1
        by (simp add: on_describe_or_close_def split: if_splits)
      with 1 True t d C show ?thesis by (auto simp: refers_to_def)
    next
      case (2 st b)
      note b = replaced_describe [OF d [unfolded True] 2(3,4)]
      show ?thesis
      proof (cases "tag m = CHR ''C''")
        case True': True
        then have "rw = CloseStatement (global_name_of st) name (msg (CHR ''C'') b)"
          using assms(1) d True r 2 by (auto simp: on_describe_or_close_def split: if_splits)
        with b(2) show ?thesis by simp
      next
        case False
        then have D: "tag m = CHR ''D''" using t by simp
        have "refers_to (msg (tag m) b) = Some (global_name_of st)" using b(1) D by (simp add: refers_to_def)
        from redirected_spec [OF 2(3) this, of bs m] D have "rewrite_spec (present bs) m rw'" unfolding 2(5) by simp
        moreover have "rw = rw'" using assms(1) d True r False by (simp add: on_describe_or_close_def)
        ultimately show ?thesis by simp
      qed
    qed
  qed
qed

lemma rewrite_prepared_spec:
  assumes "rewrite_prepared dg m bs cs = (Inr rw, cs')" and "cs_ok dg cs"
  shows "cs_ok dg cs' \<and> rewrite_spec (present bs) m rw"
proof -
  consider "tag m = CHR ''P''" | "tag m = CHR ''B''" | "tag m = CHR ''D'' \<or> tag m = CHR ''C''"
    | "tag m \<notin> {CHR ''P'', CHR ''B'', CHR ''D'', CHR ''C''}" by blast
  then show ?thesis
  proof cases
    case 1
    then obtain "on_parse dg m cs = (Inr rw, cs')"
      using assms(1) by (auto simp: rewrite_prepared_def Let_def split: prod.splits sum.splits)
    then show ?thesis using 1 assms(2) by (rule on_parse_spec)
  next
    case 2
    then have "on_bind cs m bs = Inr rw" "cs' = cs"
      using assms(1) by (auto simp: rewrite_prepared_def Let_def split: sum.splits)
    then show ?thesis using on_bind_spec 2 assms(2) by simp
  next
    case 3
    then have "on_describe_or_close cs m bs = Inr rw" "cs' = cs"
      using assms(1) by (auto simp: rewrite_prepared_def Let_def split: sum.splits)
    then show ?thesis using describe_or_close_spec 3 assms(2) by simp
  next
    case 4
    with assms show ?thesis by (auto simp: rewrite_prepared_def)
  qed
qed

section \<open>What is about to be sent\<close>

lemma free_name_ok:
  assumes "free_name g b = (f, b')" and ok: "backend_ok b" and "plain g"
  shows "talked b b' \<and> (f = None \<longrightarrow> backend_ok b')"
proof (cases "g \<in> present (pb_statements b)")
  case True
  obtain h c where c: "close_statement g b = (h, c)" by force
  have t: "trusts (parsed (io_log b)) c" "pb_statements c = pb_statements b" "parsed (io_log b) - {g} \<subseteq> parsed (io_log c)"
    using close_statement_trusts [OF c, of "parsed (io_log b)"] assms by (auto simp: backend_ok_def plain_def)
  show ?thesis
  proof (cases h)
    case None
    with assms(1) True c have b': "b' = c\<lparr>pb_statements := remove_statement g (pb_statements c)\<rparr>" and "f = None"
      by (simp_all add: free_name_def has_statement_def)
    have "present (remove_statement g (pb_statements c)) = present (pb_statements c) - {g}"
      by (auto simp: remove_statement_def)
    with t b' have "backend_ok b'" by (auto simp: backend_ok_def trusts_def remove_statement_inv)
    with b' close_statement_talked [OF c] show ?thesis by simp
  qed (use assms(1) True c close_statement_talked [OF c] in \<open>auto simp: free_name_def has_statement_def\<close>)
qed (use assms in \<open>simp add: free_name_def has_statement_def\<close>)

lemma remember_name_ok:
  assumes ok: "backend_ok b" and g: "plain g"
  shows "talked b (remember_name ce g b)
    \<and> trusts (insert g (parsed (io_log (remember_name ce g b)))) (remember_name ce g b)"
proof -
  obtain ev bs where i: "insert_statement g (pb_statements b) = (ev, bs)" by force
  let ?b = "b\<lparr>pb_statements := bs\<rparr>"
  note ins = inserted_trusts [OF ok [unfolded backend_ok_def] g i]
  show ?thesis
  proof (cases "\<exists>old. ev = Some old \<and> ce")
    case True
    then obtain old where e: "ev = Some old" ce by blast
    obtain f c where c: "close_statement old ?b = (f, c)" by force
    have "remember_name ce g b = c" using e c by (simp add: remember_name_def i)
    moreover have "trusts (insert g (parsed (io_log c))) c"
      using close_statement_trusts [OF c ins(1)] ins(2) e by (auto elim!: trusts_mono)
    ultimately show ?thesis using close_statement_talked [OF c] by (simp add: talked_def)
  next
    case False
    then have "remember_name ce g b = ?b" by (cases ev) (auto simp: remember_name_def i)
    then show ?thesis using ins(1) by (auto elim!: trusts_mono)
  qed
qed

lemma outgoing_ok:
  assumes out: "outgoing E ce m b cs = (Forward m', b', cs')" and ok: "backend_ok b" and cs: "cs_ok (digest E) cs"
  shows "cs_ok (digest E) cs' \<and> talked b b' \<and> resolved (parsed (io_log b')) (Sent m')
    \<and> trusts (parsed_step (parsed (io_log b')) (Sent m')) b'"
proof -
  obtain res cs1 where rw: "rewrite_prepared (digest E) m (pb_statements b) cs = (res, cs1)" by force
  have "\<exists>r. res = Inr r" using out rw by (cases res) (auto simp: outgoing_def)
  then obtain r where r: "res = Inr r" ..
  have cs1: "cs_ok (digest E) cs1" and spec: "rewrite_spec (present (pb_statements b)) m r"
    using rewrite_prepared_spec [OF rw [unfolded r] cs] by auto
  have t: "trusts (parsed (io_log b)) b" and sub: "present (pb_statements b) \<subseteq> parsed (io_log b)"
    and named: "[] \<notin> present (pb_statements b)"
    using ok by (auto simp: backend_ok_def trusts_def plain_def)
  show ?thesis
  proof (cases r)
    case Unchanged
    then have e: "m' = m" "b' = b" "cs' = cs1" using out rw r by (auto simp: outgoing_def)
    have "present (pb_statements b) \<subseteq> parsed_step (parsed (io_log b)) (Sent m)"
      using spec Unchanged sub named by auto
    with e spec Unchanged cs1 t show ?thesis by (simp add: trusts_def)
  next
    case (Replace m1)
    then have "m' = m1" "b' = b" "cs' = cs1" using out rw r by (auto simp: outgoing_def)
    with spec Replace cs1 t sub show ?thesis by auto
  next
    case (ReplayThen p g m1)
    obtain f b1 where rp: "replay_parse p g b = (f, b1)" by force
    then have e: "f = None" "m' = m1" "b' = b1" "cs' = cs1"
      using out rw r ReplayThen by (auto simp: outgoing_def split: option.splits)
    then have "backend_ok b1 \<and> g \<in> parsed (io_log b1)"
      using replay_parse_trusts rp ok spec ReplayThen by auto
    with e spec ReplayThen cs1 replay_parse_talked [OF rp] show ?thesis by (auto simp: backend_ok_def)
  next
    case (RewriteParse g m1)
    obtain f b1 where fr: "free_name g b = (f, b1)" by force
    then have e: "f = None" "m' = m1" "b' = remember_name ce g b1" "cs' = cs1"
      using out rw r RewriteParse by (auto simp: outgoing_def split: option.splits)
    have g: "plain g" using spec RewriteParse by simp
    from free_name_ok [OF fr ok g] e have "talked b b1" "backend_ok b1" by auto
    with remember_name_ok [OF this(2) g, of ce] e spec RewriteParse cs1 show ?thesis
      by (auto intro: talked_trans)
  next
    case (CloseStatement g n m1)
    then have e: "m' = m1" "b' = b\<lparr>pb_statements := remove_statement g (pb_statements b)\<rparr>" "cs' = forget_statement n cs1"
      using out rw r by (auto simp: outgoing_def)
    have "present (remove_statement g (pb_statements b)) = present (pb_statements b) - {g}"
      by (auto simp: remove_statement_def)
    with t e spec CloseStatement cs1 show ?thesis by (auto simp: trusts_def remove_statement_inv)
  qed
qed

lemma outgoing_frame:
  assumes out: "outgoing E ce m b cs = (o', b', cs')" and ok: "backend_ok b" and cs: "cs_ok (digest E) cs"
  shows "talked b b' \<and> (\<forall>e. o' = Refuse e \<longrightarrow> b' = b \<and> cs_ok (digest E) cs')"
proof -
  obtain res cs1 where rw: "rewrite_prepared (digest E) m (pb_statements b) cs = (res, cs1)" by force
  show ?thesis
  proof (cases res)
    case (Inl e)
    then have "cs1 = cs \<or> tag m = CHR ''P''" using rw by (auto simp: rewrite_prepared_def Let_def split: if_splits)
    moreover have "cs1 = cs" if "tag m = CHR ''P''"
      using rw that Inl by (auto simp: rewrite_prepared_def on_parse_def Let_def split: sum.splits if_splits prod.splits)
    ultimately show ?thesis using out rw Inl cs by (auto simp: outgoing_def)
  next
    case (Inr r)
    have spec: "rewrite_spec (present (pb_statements b)) m r"
      using rewrite_prepared_spec [OF rw [unfolded Inr] cs] by auto
    show ?thesis
    proof (cases r)
      case (RewriteParse g m1)
      obtain f b1 where fr: "free_name g b = (f, b1)" by force
      have g: "plain g" using spec RewriteParse by simp
      note ok1 = free_name_ok [OF fr ok g]
      show ?thesis
      proof (cases f)
        case None
        with ok1 remember_name_ok [of b1 g ce] g have "talked b (remember_name ce g b1)" by (auto intro: talked_trans)
        with None out rw Inr RewriteParse fr show ?thesis by (auto simp: outgoing_def)
      qed (use ok1 out rw Inr RewriteParse fr in \<open>auto simp: outgoing_def\<close>)
    next
      case (ReplayThen p g m1)
      obtain f b1 where rp: "replay_parse p g b = (f, b1)" by force
      from replay_parse_talked [OF this] show ?thesis
        using out rw Inr ReplayThen rp by (auto simp: outgoing_def split: option.splits)
    qed (use out rw Inr in \<open>auto simp: outgoing_def\<close>)
  qed
qed

text \<open>Once the message is out, the connection can be trusted as it stands.\<close>

lemma sent_ok:
  assumes "outgoing E ce m b cs = (Forward m', b1, cs')" and "backend_ok b" and "cs_ok (digest E) cs"
    and w: "write_io m' b1 = (None, b2)"
  shows "backend_ok b2 \<and> talked b b2 \<and> cs_ok (digest E) cs'"
proof -
  note o = outgoing_ok [OF assms(1-3)]
  with write_io_trusts [OF w, of "parsed_step (parsed (io_log b1)) (Sent m')"] have "backend_ok b2"
    by (simp add: backend_ok_def)
  with o talked_write [OF w] show ?thesis by (auto intro: talked_trans)
qed

lemma replay_exchange_ok:
  "replay_exchange E ms b cs = (None, b', cs') \<Longrightarrow> backend_ok b \<Longrightarrow> cs_ok (digest E) cs \<Longrightarrow>
   backend_ok b' \<and> talked b b' \<and> cs_ok (digest E) cs'"
proof (induction ms arbitrary: b cs)
  case Nil
  then have f: "flush_io b = (None, b')" "cs' = cs" by (auto split: prod.splits option.splits)
  with flush_io_trusts [OF f(1), of "parsed (io_log b)"] talked_flush [OF f(1)] Nil show ?case
    by (simp add: backend_ok_def)
next
  case (Cons m ms)
  obtain o1 b1 cs1 where o: "outgoing E False m b cs = (o1, b1, cs1)" by (metis prod_cases3)
  then obtain m' where m: "o1 = Forward m'" using Cons.prems(1) by (cases o1) auto
  obtain f b2 where w: "write_io m' b1 = (f, b2)" by force
  then have f: "f = None" "replay_exchange E ms b2 cs1 = (None, b', cs')" using Cons.prems(1) o m by (auto split: option.splits)
  from sent_ok [OF o [unfolded m] Cons.prems(2,3) w [unfolded f]] Cons.IH [OF f(2)] show ?case
    by (auto intro: talked_trans)
qed

end
