(* ===== verification/Txn_Safety.thy ===== *)
theory Txn_Safety
  imports Txn_Statements
begin

text \<open>
  What a session in transaction mode guarantees between two client messages, whatever its
  client, the pools and the servers do: the invariant of the loop, and the properties read
  off from it.
\<close>

section \<open>The invariant\<close>

definition READ_ONLY_ON :: string where
  "READ_ONLY_ON = ''SET '' @ READ_ONLY_GUC @ '' = '' @ [squote] @ ''on'' @ [squote]"

definition params_ok :: "Relay_Env \<Rightarrow> ClientParams \<Rightarrow> bool" where
  "params_ok E ps \<longleftrightarrow> btree (desired ps) \<and>
     (read_only (policy E) \<noteq> None \<longrightarrow>
        map_of (desired ps) READ_ONLY_GUC = Some READ_ONLY_ON \<and> (\<forall>a \<in> set (pending ps). \<not> touches READ_ONLY_GUC a))"

text \<open>The server's last word was that it is ready and that no transaction is open.\<close>

definition settled :: "PgBackend \<Rightarrow> bool" where
  "settled b \<longleftrightarrow> (\<exists>log m. io_log b = log @ [Got m] \<and> transaction_status m = Some TIdle)"

definition returned_ok :: "PgCheckout \<Rightarrow> bool" where
  "returned_ok co \<longleftrightarrow> co_discard co \<or> (settled (co_backend co) \<and> backend_ok (co_backend co))"

definition registered :: "Relay_Env \<Rightarrow> CancelRegistry \<Rightarrow> bool" where
  "registered E reg \<longleftrightarrow> (\<forall>key. cancel_scope (policy E) = Some key \<longrightarrow> entries reg key \<noteq> None)"

text \<open>The relay runs in a mode that shares backends, and never calls a session broken.\<close>

definition flow_ok :: "SessionState \<Rightarrow> bool" where
  "flow_ok st \<longleftrightarrow> ss_mode st \<noteq> Session \<and> \<not> ss_broken st"

definition base_inv :: "Relay_Env \<Rightarrow> Relay \<Rightarrow> bool" where
  "base_inv E r \<longleftrightarrow> flow_ok (flow r) \<and> params_ok E (params r) \<and> cs_ok (digest E) (client_statements r)
     \<and> registered E (cancels r) \<and> list_all returned_ok (given_back r)
     \<and> (\<forall>b. Inr b \<in> set (acquires r) \<longrightarrow> backend_ok b)"

text \<open>In step: the backend has the parameters the client wants, and its cache can be trusted.\<close>

definition held_ok :: "ClientParams \<Rightarrow> PgCheckout \<Rightarrow> bool" where
  "held_ok ps co \<longleftrightarrow> \<not> co_discard co \<and> backend_ok (co_backend co)
     \<and> map_of (applied_params (co_backend co)) = map_of (desired ps)"

definition cancel_ok :: "Relay_Env \<Rightarrow> PgCheckout option \<Rightarrow> CancelRegistry \<Rightarrow> bool" where
  "cancel_ok E ho reg \<longleftrightarrow> (\<forall>key. cancel_scope (policy E) = Some key \<longrightarrow>
     entries reg key = Some (Option.bind ho (cancel_target \<circ> co_backend)))"

definition relay_inv :: "Relay_Env \<Rightarrow> Relay \<Rightarrow> bool" where
  "relay_inv E r \<longleftrightarrow> base_inv E r \<and> cancel_ok E (held r) (cancels r)
     \<and> (\<forall>co. held r = Some co \<longrightarrow> held_ok (params r) co \<and> (exchange r \<noteq> [] \<or> \<not> is_releasable (flow r)))"

section \<open>Frames\<close>

text \<open>Telling the client, asking the router and updating the holders touch nothing the invariant sees.\<close>

definition core :: "Relay \<Rightarrow> PgCheckout option \<times> ClientStatements \<times> Message list \<times> SessionState \<times> ClientParams
    \<times> CancelRegistry \<times> (PoolError + PgBackend) list \<times> PgCheckout list" where
  "core r = (held r, client_statements r, exchange r, flow r, params r, cancels r, acquires r, given_back r)"

lemma core_inv: "core r = core r' \<Longrightarrow> base_inv E r = base_inv E r' \<and> relay_inv E r = relay_inv E r'"
  by (simp add: core_def base_inv_def relay_inv_def)

lemma core_frame [simp]:
  "core (tell m r) = core r" "core (tick r) = core r" "core (note_result E ok r) = core r"
  "core (update_holder E co r) = core r" "core (r\<lparr>stats := st\<rparr>) = core r" "core (r\<lparr>client := c\<rparr>) = core r"
  "core (r\<lparr>checkouts := n\<rparr>) = core r" "core (r\<lparr>on_replica := n\<rparr>) = core r" "core (r\<lparr>exchanges := n\<rparr>) = core r"
  "core (r\<lparr>param_syncs := n\<rparr>) = core r" "core (r\<lparr>routing := s\<rparr>) = core r" "core (r\<lparr>router := rt\<rparr>) = core r"
  "core (r\<lparr>current_route := route\<rparr>) = core r" "core (r\<lparr>holders := hs\<rparr>) = core r"
  by (simp_all add: core_def tell_def tick_def note_result_def update_holder_def Let_def split: option.splits)

lemma core_fields:
  assumes "core r = core r'"
  shows "held r = held r'" "client_statements r = client_statements r'" "exchange r = exchange r'"
    "flow r = flow r'" "params r = params r'" "cancels r = cancels r'" "acquires r = acquires r'"
    "given_back r = given_back r'"
  using assms by (simp_all add: core_def)

lemmas frame_fields [simp] = core_frame [THEN core_fields(1)] core_frame [THEN core_fields(2)]
  core_frame [THEN core_fields(3)] core_frame [THEN core_fields(4)] core_frame [THEN core_fields(5)]
  core_frame [THEN core_fields(6)] core_frame [THEN core_fields(7)] core_frame [THEN core_fields(8)]

lemma flow_ok_observed [simp]:
  "flow_ok (bump_exchanges st) = flow_ok st" "flow_ok (st\<lparr>ss_pin := p\<rparr>) = flow_ok st"
  "flow_ok (st\<lparr>ss_in_transaction := t\<rparr>) = flow_ok st"
  by (simp_all add: flow_ok_def bump_exchanges_def)

lemma flow_ok_released [simp]: "flow_ok (released st) = flow_ok st"
  by (simp add: flow_ok_def released_def)

lemma base_inv_cong:
  "flow r = flow r' \<Longrightarrow> params r = params r' \<Longrightarrow> client_statements r = client_statements r' \<Longrightarrow> cancels r = cancels r' \<Longrightarrow>
   acquires r = acquires r' \<Longrightarrow> given_back r = given_back r' \<Longrightarrow> base_inv E r = base_inv E r'"
  by (simp add: base_inv_def)

lemma base_frame [simp]:
  "base_inv E (r\<lparr>held := ho\<rparr>) = base_inv E r" "base_inv E (r\<lparr>exchange := ex\<rparr>) = base_inv E r"
  "flow_ok st = flow_ok (flow r) \<Longrightarrow> base_inv E (r\<lparr>flow := st\<rparr>) = base_inv E r"
  by (simp_all add: base_inv_def)

lemmas core_base [simp] = core_frame [THEN core_inv, THEN conjunct1]

lemma base_give_back: "base_inv E (give_back co r) \<longleftrightarrow> base_inv E r \<and> returned_ok co"
  by (auto simp: base_inv_def give_back_def)

lemma returned_discarded [simp]: "returned_ok (discard co)"
  by (simp add: returned_ok_def discard_def)

lemma retarget_cancel_ok:
  assumes "registered E reg"
  shows "cancel_ok E ho (retarget_cancel (cancel_scope (policy E)) ho reg)
    \<and> registered E (retarget_cancel (cancel_scope (policy E)) ho reg)"
  using assms by (auto simp: cancel_ok_def registered_def retarget_cancel_def retarget_def split: option.splits)

lemma retarget_to_ok:
  assumes "base_inv E r"
  shows "base_inv E (retarget_to E ho r)" "cancel_ok E ho (cancels (retarget_to E ho r))"
  using assms retarget_cancel_ok [of E "cancels r" ho] by (auto simp: base_inv_def retarget_to_def)

lemma retarget_to_fields [simp]:
  "held (retarget_to E ho r) = held r" "params (retarget_to E ho r) = params r"
  "exchange (retarget_to E ho r) = exchange r" "flow (retarget_to E ho r) = flow r"
  "client_statements (retarget_to E ho r) = client_statements r" "current_route (retarget_to E ho r) = current_route r"
  by (simp_all add: retarget_to_def)

lemma give_back_fields [simp]:
  "held (give_back co r) = held r" "params (give_back co r) = params r" "exchange (give_back co r) = exchange r"
  "flow (give_back co r) = flow r" "current_route (give_back co r) = current_route r"
  "cancels (give_back co r) = cancels r"
  by (simp_all add: give_back_def)

lemma held_ok_talked:
  "held_ok ps co \<Longrightarrow> talked (co_backend co) b \<Longrightarrow> backend_ok b \<Longrightarrow> held_ok ps (co\<lparr>co_backend := b\<rparr>)"
  by (simp add: held_ok_def talked_def)

section \<open>Reading an answer\<close>

lemma pump_end_Inr: "pump_end e b c st = (Inr e', b', c', st') \<Longrightarrow> e' = e \<and> b' = b"
  by (auto simp: pump_end_def split: prod.splits option.splits)

lemma pump_settled:
  "pump_until_ready err b c st = (Inr e, b', c', st') \<Longrightarrow> end_status e = TIdle \<Longrightarrow> settled b'"
proof (induction err b c st rule: pump_until_ready.induct)
  case (1 err b c st)
  obtain x d where r: "read_io b = (x, d)" by force
  with "1.prems"(1) obtain m where x: "x = Inr m" by (cases x) (auto simp: pump_until_ready.simps [of err b])
  let ?err = "err \<or> tag m = CHR ''E''" and ?st = "st\<lparr>to_client := to_client st + word_of_nat (wire_len m)\<rparr>"
  obtain f cl where w: "write_client m c = (f, cl)" by force
  with "1.prems"(1) r x have f: "f = None" by (cases f) (auto simp: pump_until_ready.simps [of err b] Let_def)
  have log: "io_log d = io_log b @ [Got m]" using read_io_log r x by simp
  show ?case
  proof (cases "transaction_status m")
    case (Some s)
    then have "pump_end \<lparr>end_status = s, errored = ?err\<rparr> d cl ?st = (Inr e, b', c', st')"
      using "1.prems"(1) r x w f by (simp add: pump_until_ready.simps [of err b] Let_def)
    with log Some "1.prems"(2) show ?thesis by (auto simp: settled_def dest!: pump_end_Inr)
  next
    case None
    show ?thesis
    proof (cases "tag m = CHR ''G'' \<or> tag m = CHR ''W''")
      case True
      then have "pump_end \<lparr>end_status = TInTransaction, errored = ?err\<rparr> d cl ?st = (Inr e, b', c', st')"
        using "1.prems"(1) r x w f None by (simp add: pump_until_ready.simps [of err b] Let_def)
      with "1.prems"(2) show ?thesis by (auto dest!: pump_end_Inr)
    next
      case False
      then have "pump_until_ready ?err d cl ?st = (Inr e, b', c', st')"
        using "1.prems"(1) r x w f None by (simp add: pump_until_ready.simps [of err b] Let_def)
      from "1.IH" [OF r [symmetric] x refl w [symmetric] f refl None False this "1.prems"(2)] show ?thesis .
    qed
  qed
qed

section \<open>Parameters\<close>

lemma delta_Nil: "delta ps applied = [] \<Longrightarrow> map_of applied = map_of (desired ps)"
proof
  fix n
  assume d: "delta ps applied = []"
  then have a: "\<forall>(n, s) \<in> set applied. map_of (desired ps) n \<noteq> None"
    and b: "\<forall>(n, s) \<in> set (desired ps). map_of applied n = Some s"
    by (auto simp: delta_def filter_empty_conv)
  show "map_of applied n = map_of (desired ps) n"
  proof (cases "map_of (desired ps) n")
    case None
    with a have "n \<notin> fst ` set applied" by force
    then have "map_of applied n = None" by (simp add: map_of_eq_None_iff)
    with None show ?thesis by simp
  next
    case (Some s)
    from map_of_SomeD [OF this] b Some show ?thesis by fastforce
  qed
qed

lemma backend_ok_applied [simp]: "backend_ok (set_applied_params ps b) = backend_ok b"
  by (simp add: set_applied_params_def backend_ok_def trusts_def)

lemma applied_set [simp]: "applied_params (set_applied_params ps b) = ps"
  by (simp add: set_applied_params_def)

lemma settled_applied [simp]: "settled (set_applied_params ps b) = settled b"
  by (simp add: set_applied_params_def settled_def)

lemma sync_params_ok:
  assumes s: "sync_params ps b = (Inr x, b')" and ok: "backend_ok b" and x: "x = InStep \<or> x = Applied"
  shows "backend_ok b' \<and> map_of (applied_params b') = map_of (desired ps)"
proof (cases "delta ps (applied_params b) = []")
  case True
  with s ok show ?thesis by (auto simp: sync_params_def dest: delta_Nil)
next
  case False
  let ?q = "query_message (join ''; '' (delta ps (applied_params b)))"
  obtain f b1 where q: "send_io ?q b = (f, b1)" by force
  obtain y b2 where l: "sync_params_loop None b1 = (y, b2)" by force
  have e: "f = None" "y = Inr None" "b' = set_applied_params (desired ps) b2"
    using s x q l False by (auto simp: sync_params_def Let_def split: option.splits sum.splits)
  have "backend_ok b1"
    using send_io_trusts [OF q, of "parsed (io_log b)"] ok by (auto simp: backend_ok_def query_message_def)
  moreover have "heard b1 b2" using sync_params_loop_heard [of b1 None] l by simp
  ultimately have "backend_ok b2" by (simp add: backend_ok_heard)
  with e show ?thesis by simp
qed

lemma btree_believe_all: "btree d \<Longrightarrow> btree (foldl believe d as)"
  by (induction as arbitrary: d) simp_all

lemma believe_params_ok:
  assumes "params_ok E ps"
  shows "params_ok E (commit_pending ps)" "params_ok E (discard_pending ps)"
  using assms believe_all_untouched [of "desired ps" "pending ps" READ_ONLY_GUC]
  by (auto simp: btree_believe_all params_ok_def commit_pending_def discard_pending_def)

lemma stage_unless_pin_fields:
  "desired (foldl stage_unless_pin ps as) = desired ps \<and>
   set (pending (foldl stage_unless_pin ps as)) \<subseteq> set (pending ps) \<union> set as"
proof (induction as arbitrary: ps)
  case (Cons a as)
  have "desired (stage_unless_pin ps a) = desired ps" "set (pending (stage_unless_pin ps a)) \<subseteq> insert a (set (pending ps))"
    by (cases a; auto simp: stage_unless_pin_def stage_def)+
  with Cons [of "stage_unless_pin ps a"] show ?case by auto
qed simp

lemma stage_params_ok:
  assumes "params_ok E ps" and "read_only (policy E) \<noteq> None \<longrightarrow> \<not> defeats_read_only sql"
    and "stage_params sql (ps, st) = (ps', st')"
  shows "params_ok E ps' \<and> desired ps' = desired ps \<and> flow_ok st' = flow_ok st"
proof -
  have "\<forall>a \<in> set (actions_for_sql sql). \<not> touches READ_ONLY_GUC a" if "read_only (policy E) \<noteq> None"
    using that assms(2) touching_action_defeats by blast
  then show ?thesis
    using assms(1,3) stage_unless_pin_fields [of ps "actions_for_sql sql"]
    by (auto simp: params_ok_def stage_params_def Let_def split: if_splits)
qed

section \<open>The phases keep it\<close>

lemma begin_message_fields:
  "held (begin_message E m r) = held r" "client_statements (begin_message E m r) = client_statements r"
  "cancels (begin_message E m r) = cancels r" "acquires (begin_message E m r) = acquires r"
  "given_back (begin_message E m r) = given_back r" "exchange (begin_message E m r) = exchange r @ [m]"
  by (simp_all add: begin_message_def Let_def split: option.splits ClientIntent.splits prod.splits)

lemma begin_message_params:
  "\<exists>st. flow_ok st = flow_ok (flow r) \<and>
     (case param_sql m of
        Some sql \<Rightarrow> stage_params sql (params r, st) = (params (begin_message E m r), flow (begin_message E m r))
      | None \<Rightarrow> params (begin_message E m r) = params r \<and> flow (begin_message E m r) = st)"
proof -
  let ?st = "case classify_message m of Pins reason \<Rightarrow> observe (flow r) (MustPin reason) | _ \<Rightarrow> flow r"
  have "flow_ok ?st = flow_ok (flow r)" by (simp split: ClientIntent.splits)
  then show ?thesis
    by (intro exI [of _ ?st], cases "param_sql m"; cases "held r"; cases "holder E"; cases "classify_message m")
      (simp_all add: begin_message_def Let_def split: prod.splits)
qed

lemma begin_message_inv:
  assumes inv: "relay_inv E r" and "refuse_read_only E m r = None"
  shows "relay_inv E (begin_message E m r) \<and> exchange (begin_message E m r) \<noteq> []"
proof -
  have ok: "read_only (policy E) \<noteq> None \<longrightarrow> \<not> defeats_read_only sql" if "param_sql m = Some sql" for sql
    using assms(2) that by (auto simp: refuse_read_only_def split: if_splits)
  have p: "params_ok E (params r)" "flow_ok (flow r)" using inv by (simp_all add: relay_inv_def base_inv_def)
  obtain st where st: "flow_ok st = flow_ok (flow r)"
    "case param_sql m of
        Some sql \<Rightarrow> stage_params sql (params r, st) = (params (begin_message E m r), flow (begin_message E m r))
      | None \<Rightarrow> params (begin_message E m r) = params r \<and> flow (begin_message E m r) = st"
    using begin_message_params by blast
  have "params_ok E (params (begin_message E m r)) \<and> desired (params (begin_message E m r)) = desired (params r)
      \<and> flow_ok (flow (begin_message E m r))"
    using st stage_params_ok [OF p(1)] ok p by (cases "param_sql m") auto
  with inv show ?thesis by (auto simp: relay_inv_def base_inv_def begin_message_fields held_ok_def)
qed

lemma acquire_from_ok:
  assumes "acquire_from E pool r = (Inr co, r')" and "base_inv E r"
  shows "base_inv E r' \<and> backend_ok (co_backend co) \<and> \<not> co_discard co \<and> held r' = held r \<and> params r' = params r
    \<and> exchange r' = exchange r \<and> flow r' = flow r \<and> client_statements r' = client_statements r"
  using assms by (auto simp: acquire_from_def base_inv_def split: list.splits sum.splits)

lemma acquire_from_failed:
  assumes "acquire_from E pool r = (Inl e, r')" and "base_inv E r"
  shows "base_inv E r' \<and> held r' = held r \<and> params r' = params r \<and> exchange r' = exchange r \<and> flow r' = flow r
    \<and> client_statements r' = client_statements r"
  using assms by (auto simp: acquire_from_def base_inv_def split: list.splits sum.splits)

lemma acquire_for_route_ok:
  assumes a: "acquire_for_route E r = (Inr co, r')" and inv: "base_inv E r"
  shows "base_inv E r' \<and> backend_ok (co_backend co) \<and> \<not> co_discard co \<and> held r' = held r \<and> params r' = params r
    \<and> exchange r' = exchange r \<and> flow r' = flow r \<and> client_statements r' = client_statements r"
proof -
  obtain x r1 where 1: "acquire_from E (pool_for (router r) (current_route r)) r = (x, r1)" by force
  show ?thesis
  proof (cases x)
    case (Inr co1)
    with 1 a acquire_from_ok [OF _ inv] show ?thesis by (auto simp: acquire_for_route_def)
  next
    case (Inl e)
    note f = acquire_from_failed [OF 1 [unfolded Inl] inv]
    let ?r2 = "(note_result E False r1)\<lparr>current_route := Primary NoReplicaAvailable\<rparr>"
    have 2: "acquire_from E None ?r2 = (Inr co, r')"
      using a 1 Inl by (auto simp: acquire_for_route_def split: Route.splits)
    have "base_inv E ?r2" using f by simp
    from acquire_from_ok [OF 2 this] f show ?thesis by simp
  qed
qed

lemma carry_params_ok:
  assumes c: "carry_params E blame co r = (Inr co', r')" and inv: "base_inv E r"
    and "backend_ok (co_backend co)" "\<not> co_discard co"
  shows "base_inv E r' \<and> held_ok (params r') co' \<and> core r' = core r"
proof -
  obtain x b where s: "sync_params (params r) (co_backend co) = (x, b)" by force
  then obtain y where y: "x = Inr y" "y = InStep \<or> y = Applied"
    using c by (cases x) (auto simp: carry_params_def Let_def split: ParamSync.splits)
  note ok = sync_params_ok [OF s [unfolded y(1)] assms(3) y(2)]
  have "co' = co\<lparr>co_backend := b\<rparr>" "core r' = core r" using c s y by (auto simp: carry_params_def)
  moreover have "params r' = params r" using core_fields(5) calculation(2) by blast
  ultimately show ?thesis using ok inv assms(4) core_inv [of r' r E] by (simp add: held_ok_def)
qed

lemma borrow_ok:
  assumes b: "borrow E m r = (Go, r')" and inv: "relay_inv E r" and ex: "exchange r \<noteq> []"
  shows "relay_inv E r' \<and> exchange r' \<noteq> [] \<and> held r' \<noteq> None"
proof (cases "held r")
  case (Some co)
  with b inv ex show ?thesis by (simp add: borrow_def)
next
  case None
  obtain route s rt where ch: "choose_route (now E r) (message_intent m (client_statements r) (read_only (policy E) \<noteq> None))
      (routing r) (router r) = (route, s, rt)" by (metis prod_cases3)
  let ?r1 = "(tick r)\<lparr>current_route := route, routing := s, router := rt\<rparr>"
  obtain x r2 where a: "acquire_for_route E ?r1 = (x, r2)" by force
  obtain co where x: "x = Inr co"
    using b None ch a by (cases x) (auto simp: borrow_def acquire_failed_def Let_def)
  have base: "base_inv E ?r1" using inv by (simp add: relay_inv_def)
  note 2 = acquire_for_route_ok [OF a [unfolded x] base]
  let ?r3 = "r2\<lparr>checkouts := checkouts r2 + 1,
      on_replica := (case current_route r2 of Replica _ \<Rightarrow> on_replica r2 + 1 | _ \<Rightarrow> on_replica r2)\<rparr>"
  obtain y r4 where c: "carry_params E True co ?r3 = (y, r4)" by force
  obtain co' where y: "y = Inr co'"
    using b None ch a x c by (cases y) (auto simp: borrow_def Let_def)
  have "base_inv E ?r3" using 2 by simp
  note 4 = carry_params_ok [OF c [unfolded y] this] 
  have r': "r' = retarget_to E (Some co') (r4\<lparr>held := Some co'\<rparr>)"
    using b None ch a x c y by (simp add: borrow_def Let_def)
  have "base_inv E r4" "held_ok (params r4) co'" "core r4 = core ?r3" using 4 2 by auto
  moreover have "exchange r4 \<noteq> []" using core_fields(3) [OF calculation(3)] 2 ex by simp
  ultimately show ?thesis
    using retarget_to_ok [of E "r4\<lparr>held := Some co'\<rparr>" "Some co'"] by (simp add: relay_inv_def r')
qed

lemma drop_held_Some: "held r = Some co \<Longrightarrow> drop_held r = give_back co (r\<lparr>held := None\<rparr>)"
  by (simp add: drop_held_def)

lemma release_inv:
  assumes "base_inv E r" and "held_ok (params r) co" and "is_releasable (flow r) \<longrightarrow> settled (co_backend co)"
  shows "relay_inv E (release E co r)"
proof (cases "is_releasable (flow r)")
  case True
  let ?r = "give_back co (r\<lparr>exchange := [], flow := released (flow r), held := None\<rparr>)"
  have "base_inv E ?r" using assms True by (simp add: base_give_back returned_ok_def held_ok_def)
  moreover have "release E co r = retarget_to E None ?r"
    using True by (simp add: release_def Let_def drop_held_Some)
  ultimately show ?thesis using retarget_to_ok [of E ?r None] by (simp add: relay_inv_def)
next
  case False
  let ?r = "r\<lparr>exchange := [], held := Some co\<rparr>"
  have "release E co r = retarget_to E (Some co) ?r" using False by (simp add: release_def Let_def)
  moreover have "base_inv E ?r" using assms(1) by simp
  ultimately show ?thesis using retarget_to_ok [of E ?r "Some co"] False assms(2) by (simp add: relay_inv_def)
qed

lemma finish_exchange_ok:
  assumes f: "finish_exchange E e co r = (co', r')" and inv: "base_inv E r" and h: "held_ok (params r) co"
    and set: "end_status e = TIdle \<longrightarrow> settled (co_backend co)"
  shows "base_inv E r' \<and> held_ok (params r') co' \<and> (is_releasable (flow r') \<longrightarrow> settled (co_backend co'))"
proof -
  define r1 where "r1 = note_result E True (r\<lparr>exchanges := exchanges r + 1\<rparr>)"
  define r2 where "r2 = (if end_status e = TIdle
      then r1\<lparr>flow := observe (flow r1) Idle, routing := end_transaction (routing r1)\<rparr>
      else r1\<lparr>flow := observe (flow r1) InTransaction, routing := begin_transaction (current_route r1) (routing r1)\<rparr>)"
  obtain ps b where s: "settle_params (errored e) (params r2, co_backend co) = (ps, b)" by force
  have r1: "base_inv E r1" "params r1 = params r" unfolding r1_def using inv by simp_all
  have r2: "base_inv E r2" "params r2 = params r" using r1 by (simp_all add: r2_def)
  have rel: "is_releasable (flow r2) \<longrightarrow> end_status e = TIdle"
    by (auto simp: r2_def is_releasable_def bump_exchanges_def split: PoolMode.splits)
  have e': "co' = co\<lparr>co_backend := b\<rparr>" "r' = update_holder E co' (r2\<lparr>params := ps\<rparr>)"
    using f s unfolding finish_exchange_def r1_def [symmetric] Let_def r2_def [symmetric] by auto
  have "params_ok E ps"
    using s r2 believe_params_ok [of E "params r2"]
    by (auto simp: settle_params_def base_inv_def Let_def split: if_splits)
  then have "base_inv E r'" using r2(1) by (simp add: e' base_inv_def)
  moreover have "held_ok ps co'"
    using s h r2(2) by (auto simp: settle_params_def held_ok_def e' discard_pending_def Let_def split: if_splits)
  moreover have "settled b = settled (co_backend co)"
    using s by (auto simp: settle_params_def Let_def split: if_splits)
  ultimately show ?thesis using rel set by (auto simp: e')
qed

lemma answered_inv:
  assumes p: "pump_until_ready False b c st = (Inr e, b', c', st')"
    and f: "finish_exchange E e (co\<lparr>co_backend := b'\<rparr>) r = (co', r')"
    and inv: "base_inv E r" and h: "held_ok (params r) (co\<lparr>co_backend := b\<rparr>)"
  shows "relay_inv E (release E co' r')"
proof -
  have "heard b b'" using pump_heard [of b False c st] p by simp
  then have "held_ok (params r) (co\<lparr>co_backend := b'\<rparr>)"
    using h by (simp add: held_ok_def backend_ok_heard heard_keeps)
  from finish_exchange_ok [OF f inv this] pump_settled [OF p] show ?thesis
    by (auto intro: release_inv)
qed

lemma retry_inv:
  assumes r: "retry_on_primary E r = (Continue, r')" and inv: "base_inv E r"
  shows "relay_inv E r'"
proof -
  let ?r0 = "r\<lparr>current_route := Primary NoReplicaAvailable\<rparr>"
  obtain x r1 where a: "acquire_from E None ?r0 = (x, r1)" by force
  obtain co where x: "x = Inr co" using r a by (cases x) (auto simp: retry_on_primary_def Let_def)
  have 1: "base_inv E r1" "backend_ok (co_backend co)" "\<not> co_discard co"
    using acquire_from_ok [OF a [unfolded x]] inv by auto
  define r2 where "r2 = retarget_to E (Some co) (r1\<lparr>checkouts := checkouts r1 + 1\<rparr>)"
  have 2: "base_inv E r2" unfolding r2_def using 1 by (simp add: retarget_to_ok)
  obtain y r3 where c: "carry_params E False co r2 = (y, r3)" by force
  obtain co3 where y: "y = Inr co3"
    using r a x c by (cases y) (auto simp: retry_on_primary_def Let_def r2_def)
  have 3: "base_inv E r3" "held_ok (params r3) co3" using carry_params_ok [OF c [unfolded y] 2 1(2,3)] by auto
  obtain z b cs where rp: "replay_exchange E (exchange r3) (co_backend co3) (client_statements r3) = (z, b, cs)"
    by (metis prod_cases3)
  have z: "z = None" using r a x c y rp by (cases z) (auto simp: retry_on_primary_def Let_def r2_def)
  let ?r4 = "r3\<lparr>client_statements := cs\<rparr>"
  have 4: "base_inv E ?r4" "held_ok (params ?r4) (co3\<lparr>co_backend := b\<rparr>)"
    using replay_exchange_ok [OF rp [unfolded z]] 3 by (auto simp: base_inv_def held_ok_def talked_def)
  obtain w b5 cl st where p: "pump_until_ready False b (client r3) (stats r3) = (w, b5, cl, st)" by (metis prod_cases4)
  obtain e where w: "w = Inr e"
    using r a x c y rp z p by (cases w) (auto simp: retry_on_primary_def Let_def r2_def)
  obtain co6 r6 where f: "finish_exchange E e (co3\<lparr>co_backend := b5\<rparr>) (?r4\<lparr>client := cl, stats := st\<rparr>) = (co6, r6)" by force
  have "r' = release E co6 r6"
    using r a x c y rp z p w f by (simp add: retry_on_primary_def Let_def r2_def)
  then show ?thesis using answered_inv [OF p [unfolded w] f] 4 by simp
qed

lemma answer_inv:
  assumes a: "answer E co r = (Continue, r')" and inv: "base_inv E r" and h: "held_ok (params r) co"
  shows "relay_inv E r'"
proof -
  obtain f b where fl: "flush_io (co_backend co) = (f, b)" by force
  have f: "f = None" using a fl by (cases f) (auto simp: answer_def)
  have b: "held_ok (params r) (co\<lparr>co_backend := b\<rparr>)"
    using flush_io_trusts [OF fl] talked_flush [OF fl] h by (auto simp: held_ok_def talked_def backend_ok_def)
  obtain w b1 cl st where p: "pump_until_ready False b (client r) (stats r) = (w, b1, cl, st)" by (metis prod_cases4)
  let ?r = "r\<lparr>client := cl, stats := st\<rparr>"
  have base: "base_inv E ?r" using inv by simp
  show ?thesis
  proof (cases w)
    case (Inr e)
    obtain co1 r1 where fe: "finish_exchange E e (co\<lparr>co_backend := b1\<rparr>) ?r = (co1, r1)" by force
    have "r' = release E co1 r1" using a fl f p Inr fe by (simp add: answer_def)
    then show ?thesis using answered_inv [OF p [unfolded Inr] fe base] b by simp
  next
    case (Inl e)
    let ?r1 = "retarget_to E None (give_back (discard (co\<lparr>co_backend := b1\<rparr>)) ((note_result E False ?r)\<lparr>held := None\<rparr>))"
    have "base_inv E ?r1" by (rule retarget_to_ok) (use base in \<open>simp add: base_give_back\<close>)
    moreover have "retry_on_primary E ?r1 = (Continue, r')"
      using a fl f p Inl by (auto simp: answer_def answer_failed_def Let_def split: if_splits)
    ultimately show ?thesis by (rule retry_inv [rotated])
  qed
qed

lemma forward_inv:
  assumes fw: "forward E m m' co r = (Continue, r')" and inv: "base_inv E r" and ex: "exchange r \<noteq> []"
    and can: "cancel_ok E (Some co) (cancels r)"
    and h: "\<And>b. write_io m' (co_backend co) = (None, b) \<Longrightarrow> held_ok (params r) (co\<lparr>co_backend := b\<rparr>)"
  shows "relay_inv E r'"
proof -
  obtain f b where w: "write_io m' (co_backend co) = (f, b)" by force
  show ?thesis
  proof (cases f)
    case (Some e)
    let ?r1 = "retarget_to E None (give_back (discard (co\<lparr>co_backend := b\<rparr>)) (r\<lparr>held := None\<rparr>))"
    have "r' = note_result E False ?r1"
      using fw w Some by (auto simp: forward_def Let_def split: Route.splits)
    moreover have "base_inv E ?r1" "cancel_ok E None (cancels ?r1)"
      by (rule retarget_to_ok, use inv in \<open>simp add: base_give_back\<close>)+
    ultimately show ?thesis by (simp add: relay_inv_def)
  next
    case None
    let ?co = "co\<lparr>co_backend := b\<rparr>"
    let ?r1 = "r\<lparr>held := Some ?co, stats := (stats r)\<lparr>to_backend := to_backend (stats r) + word_of_nat (wire_len m')\<rparr>\<rparr>"
    have ok: "held_ok (params r) ?co" using h w None by simp
    have base: "base_inv E ?r1" using inv by simp
    show ?thesis
    proof (cases "expects_reply m")
      case True
      then have "answer E ?co ?r1 = (Continue, r')" using fw w None by (simp add: forward_def Let_def)
      from answer_inv [OF this base] ok show ?thesis by simp
    next
      case False
      then have "r' = ?r1" using fw w None by (simp add: forward_def Let_def)
      moreover have "cancel_target b = cancel_target (co_backend co)" using talked_write [OF w] by (simp add: talked_def)
      ultimately show ?thesis using base ok ex can by (simp add: relay_inv_def cancel_ok_def)
    qed
  qed
qed

lemma relay_exchange_inv:
  assumes x: "relay_exchange E m co r = (Continue, r')" and inv: "relay_inv E r" and "held r = Some co" and ex: "exchange r \<noteq> []"
  shows "relay_inv E r'"
proof -
  have base: "base_inv E r" and can: "cancel_ok E (Some co) (cancels r)" and h: "held_ok (params r) co"
    using inv assms(3) by (simp_all add: relay_inv_def)
  have ok: "backend_ok (co_backend co)" "cs_ok (digest E) (client_statements r)"
    using base h by (simp_all add: base_inv_def held_ok_def)
  obtain o1 b cs where o: "outgoing E True m (co_backend co) (client_statements r) = (o1, b, cs)" by (metis prod_cases3)
  let ?co = "co\<lparr>co_backend := b\<rparr>"
  let ?r = "r\<lparr>held := Some ?co, client_statements := cs\<rparr>"
  note fr = outgoing_frame [OF o ok]
  have can': "cancel_ok E (Some ?co) (cancels r)" using can fr by (simp add: cancel_ok_def talked_def)
  show ?thesis
  proof (cases o1)
    case (Forward m')
    have f: "forward E m m' ?co ?r = (Continue, r')" using x o Forward by (simp add: relay_exchange_def Let_def)
    have "cs_ok (digest E) cs" using outgoing_ok [OF o [unfolded Forward] ok] by simp
    then have "base_inv E ?r" using base by (simp add: base_inv_def)
    moreover have "held_ok (params r) (?co\<lparr>co_backend := b2\<rparr>)" if "write_io m' b = (None, b2)" for b2
      using sent_ok [OF o [unfolded Forward] ok that] h by (simp add: held_ok_def talked_def)
    ultimately show ?thesis using forward_inv [OF f] ex can' by simp
  next
    case (Refuse e)
    then have "relay_inv E ?r" using fr base can' h ex by (auto simp: relay_inv_def base_inv_def)
    moreover have "core r' = core ?r" using x o Refuse by (auto simp: relay_exchange_def)
    ultimately show ?thesis using core_inv by blast
  qed (use x o in \<open>simp_all add: relay_exchange_def\<close>)
qed

lemma borrow_ctl: "fst (borrow E m r) \<noteq> Continue"
  by (simp add: borrow_def acquire_failed_def Let_def split: prod.splits sum.splits)

lemma refuse_core: "refuse_read_only E m r = Some r1 \<Longrightarrow> core r1 = core r"
  by (auto simp: refuse_read_only_def split: option.splits if_splits)

lemma relay_message_inv:
  assumes x: "relay_message E m r = (Continue, r')" and inv: "relay_inv E r"
  shows "relay_inv E r'"
proof (cases "refuse_read_only E m r")
  case (Some r1)
  with x have "r' = r1" by (simp add: relay_message_def)
  with refuse_core [OF Some] core_inv [of r1 r E] inv show ?thesis by simp
next
  case None
  note 1 = begin_message_inv [OF inv None]
  obtain c r1 where b: "borrow E m (begin_message E m r) = (c, r1)" by force
  have "c \<noteq> Continue" using borrow_ctl [of E m "begin_message E m r"] b by simp
  then have c: "c = Go" using x None b by (cases c) (simp_all add: relay_message_def split: if_splits)
  have 2: "relay_inv E r1" "exchange r1 \<noteq> []" "held r1 \<noteq> None" using borrow_ok [OF b [unfolded c]] 1 by blast+
  then obtain co where co: "held r1 = Some co" by blast
  have "relay_exchange E m co r1 = (Continue, r')"
    using x None b c co by (simp add: relay_message_def split: if_splits)
  then show ?thesis using 2(1) co 2(2) by (rule relay_exchange_inv)
qed

lemma relay_step_inv: "relay_step E ev r = (Continue, r') \<Longrightarrow> relay_inv E r \<Longrightarrow> relay_inv E r'"
  by (cases ev) (auto simp: relay_step_def relay_message_inv split: if_splits)

text \<open>A session starts without a backend, with a registered cancellation key and trustworthy pools.\<close>

definition relay_start :: "Relay_Env \<Rightarrow> Relay \<Rightarrow> bool" where
  "relay_start E r \<longleftrightarrow> held r = None \<and> exchange r = [] \<and> given_back r = [] \<and> client_statements r = Map.empty
     \<and> flow_ok (flow r) \<and> params_ok E (params r) \<and> cancel_ok E None (cancels r)
     \<and> (\<forall>b. Inr b \<in> set (acquires r) \<longrightarrow> backend_ok b)"

lemma relay_start_inv: "relay_start E r \<Longrightarrow> relay_inv E r"
  by (auto simp: relay_start_def relay_inv_def base_inv_def registered_def cancel_ok_def)

interpretation relay_life: machine "relay_start E" "\<lambda>r r'. \<exists>ev. relay_step E ev r = (Continue, r')" "relay_inv E" for E
  by unfold_locales (auto intro: relay_start_inv relay_step_inv)

end
