(* ===== verification/Txn_Properties.thy ===== *)
theory Txn_Properties
  imports Txn_Safety
begin

text \<open>
  The properties of a session in transaction mode, read off from the invariant of
  \<open>Txn_Safety\<close>, and runs of the relay on concrete clients and servers.
\<close>

section \<open>Runs\<close>

text \<open>The session after some events, as long as it goes on.\<close>

fun relay_run :: "Relay_Env \<Rightarrow> ClientEvent list \<Rightarrow> Relay \<Rightarrow> Relay option" where
  "relay_run E [] r = Some r"
| "relay_run E (ev # evs) r = (case relay_step E ev r of (Continue, r') \<Rightarrow> relay_run E evs r' | _ \<Rightarrow> None)"

lemma relay_run_steps:
  "relay_run E evs r = Some r' \<Longrightarrow> (\<lambda>r r'. \<exists>ev. relay_step E ev r = (Continue, r'))\<^sup>*\<^sup>* r r'"
proof (induction evs arbitrary: r)
  case (Cons ev evs)
  obtain c r1 where s: "relay_step E ev r = (c, r1)" by force
  with Cons.prems have "c = Continue" "relay_run E evs r1 = Some r'" by (cases c; simp)+
  then have "\<exists>ev. relay_step E ev r = (Continue, r1)" "relay_run E evs r1 = Some r'" using s by auto
  from this(1) Cons.IH [OF this(2)] show ?case by (rule converse_rtranclp_into_rtranclp)
qed simp

lemma session_inv: "relay_start E r0 \<Longrightarrow> relay_run E evs r0 = Some r \<Longrightarrow> relay_inv E r"
  by (rule relay_life.reachable_inv [OF _ relay_run_steps])

section \<open>A client and a server to run\<close>

definition plain_policy :: SessionPolicy where
  "plain_policy = \<lparr>read_only = Some RoUser, idle_in_transaction = 0, cancel_scope = Some (1, 7)\<rparr>"

definition example_env :: Relay_Env where
  "example_env =
     \<lparr>policy = plain_policy, pool_group = \<lparr>pg_name = ''app'', pg_primary_label = ''db:5432''\<rparr>, holder = None,
      digest = example_digest, io_text = (\<lambda>_. ''''), clock = (\<lambda>n. n), wall_ms = (\<lambda>_. 0)\<rparr>"

definition example_backend :: "(string + Message) list \<Rightarrow> PgBackend" where
  "example_backend reads =
     \<lparr>pb_opened_at = 0, pb_host = ''db'', pb_port = 5432, pb_pid = Some 42, pb_secret = Some 9, pb_parameters = [],
      pb_broken = False, supports_discard_all = True, pb_statements = new_backend_statements, applied_params = [],
      io_reads = reads, io_faults = [], io_log = []\<rparr>"

definition sole_router :: Router where
  "sole_router = new_router
     \<lparr>read_write_split = False, sticky_after_write = 0, max_replica_lag = None, health_interval = 0,
      rc_failure_threshold = 1, recovery_cooldown = 0\<rparr> []"

definition example_relay :: "(PoolError + PgBackend) list \<Rightarrow> Relay" where
  "example_relay backends =
     new_relay (new_session Transaction) (enforce_read_only new_params) sole_router
       \<lparr>entries = [(1, 7) \<mapsto> None], next_id = 2\<rparr> new_holder_registry \<lparr>cl_faults = [], cl_log = []\<rparr> backends"

definition ready :: "TransactionStatus \<Rightarrow> string + Message" where
  "ready s = Inr (ready_for_query s)"

definition example_replies :: "(string + Message) list" where
  "example_replies = [Inr (command_complete ''SET''), ready TIdle, Inr (command_complete ''BEGIN''), ready TInTransaction]"

definition example_events :: "ClientEvent list" where
  "example_events = [Received (query_message ''BEGIN'')]"

lemma example_start: "relay_start example_env (example_relay [Inr (example_backend rs)])"
  by (auto simp: relay_start_def example_relay_def new_relay_def flow_ok_def new_session_def params_ok_def
      enforce_read_only_def new_params_def READ_ONLY_ON_def cancel_ok_def example_env_def plain_policy_def
      backend_ok_def trusts_def example_backend_def new_backend_statements_def cache_inv_def btree_def)

lemma example_run:
  obtains r co where
    "relay_run example_env example_events (example_relay [Inr (example_backend example_replies)]) = Some r"
    "held r = Some co" "length (io_log (co_backend co)) = 6"
proof -
  have "case relay_run example_env example_events (example_relay [Inr (example_backend example_replies)]) of
      Some r \<Rightarrow> (case held r of Some co \<Rightarrow> length (io_log (co_backend co)) = 6 | None \<Rightarrow> False)
    | None \<Rightarrow> False" by code_simp
  then show ?thesis using that by (auto split: option.splits)
qed

definition commit_replies :: "(string + Message) list" where
  "commit_replies = example_replies @ [Inr (command_complete ''COMMIT''), ready TIdle]"

definition commit_events :: "ClientEvent list" where
  "commit_events = example_events @ [Received (query_message ''COMMIT'')]"

lemma commit_run:
  obtains r where "relay_run example_env commit_events (example_relay [Inr (example_backend commit_replies)]) = Some r"
    "exchange r = []" "is_releasable (flow r)" "length (given_back r) = 1"
proof -
  have "case relay_run example_env commit_events (example_relay [Inr (example_backend commit_replies)]) of
      Some r \<Rightarrow> exchange r = [] \<and> is_releasable (flow r) \<and> length (given_back r) = 1
    | None \<Rightarrow> False" by code_simp
  then show ?thesis using that by (auto split: option.splits)
qed

section \<open>Sharing\<close>



text \<open>
  C3. While a session goes on, a backend goes back to its pool only closed, or after the server's
  last word on it was \<open>ReadyForQuery\<close> with no transaction open.
\<close>

theorem returned_only_when_ready:
  assumes "relay_start E r0" and "relay_run E evs r0 = Some r" and "co \<in> set (given_back r)"
  shows "co_discard co \<or>
    (\<exists>log m. io_log (co_backend co) = log @ [Got m] \<and> transaction_status m = Some TIdle)"
  using session_inv [OF assms(1,2)] assms(3)
  by (auto simp: relay_inv_def base_inv_def list_all_iff returned_ok_def settled_def)

theorem returned_only_when_ready_witness:
  "\<exists>r. relay_run example_env commit_events (example_relay [Inr (example_backend commit_replies)]) = Some r
     \<and> (\<exists>co \<in> set (given_back r). co_discard co \<or>
          (\<exists>log m. io_log (co_backend co) = log @ [Got m] \<and> transaction_status m = Some TIdle))"
proof -
  obtain r where r: "relay_run example_env commit_events (example_relay [Inr (example_backend commit_replies)]) = Some r"
    "length (given_back r) = 1" by (rule commit_run)
  then obtain co where "co \<in> set (given_back r)" by (cases "given_back r") auto
  with returned_only_when_ready [OF example_start r(1)] r(1) show ?thesis by blast
qed

section \<open>Parameters, cancellation, statements\<close>



text \<open>
  Between two messages, the session's cancellation key finds the backend the session holds, and
  nothing when it holds none.
\<close>

theorem cancel_key_follows_the_backend:
  assumes "relay_start E r0" and "relay_run E evs r0 = Some r" and "cancel_scope (policy E) = Some key"
  shows "lookup key (cancels r) = Option.bind (held r) (cancel_target \<circ> co_backend)"
  using session_inv [OF assms(1,2)] assms(3) by (simp add: relay_inv_def cancel_ok_def lookup_def)

theorem cancel_key_follows_the_backend_witness:
  "\<exists>r co. relay_run example_env example_events (example_relay [Inr (example_backend example_replies)]) = Some r
     \<and> held r = Some co \<and> lookup (1, 7) (cancels r) = cancel_target (co_backend co)"
proof -
  obtain r co where r: "relay_run example_env example_events (example_relay [Inr (example_backend example_replies)]) = Some r"
    "held r = Some co" by (rule example_run)
  moreover have "cancel_scope (policy example_env) = Some (1, 7)" by (simp add: example_env_def plain_policy_def)
  ultimately show ?thesis using cancel_key_follows_the_backend [OF example_start r(1)] by auto
qed


definition parse_events :: "ClientEvent list" where
  "parse_events =
     [Received (msg (CHR ''P'') (''s1'' @ NUL # ''SELECT 1'' @ [NUL])),
      Received (msg (CHR ''B'') (NUL # ''s1'' @ [NUL]))]"

lemma parse_run:
  obtains r co before m n where
    "relay_run example_env parse_events (example_relay [Inr (example_backend example_replies)]) = Some r"
    "held r = Some co" "io_log (co_backend co) = before @ [Sent m]" "refers_to m = Some n" "n \<noteq> []"
proof -
  have "case relay_run example_env parse_events (example_relay [Inr (example_backend example_replies)]) of
      Some r \<Rightarrow> (case held r of
          Some co \<Rightarrow> (case io_log (co_backend co) of
              [x1, x2, x3, x4, Sent m] \<Rightarrow> (case refers_to m of Some n \<Rightarrow> n \<noteq> [] | None \<Rightarrow> False)
            | _ \<Rightarrow> False)
        | None \<Rightarrow> False)
    | None \<Rightarrow> False" by code_simp
  then obtain r co x1 x2 x3 x4 m n where
    "relay_run example_env parse_events (example_relay [Inr (example_backend example_replies)]) = Some r"
    "held r = Some co" "io_log (co_backend co) = [x1, x2, x3, x4, Sent m]" "refers_to m = Some n" "n \<noteq> []"
    by (auto split: option.splits list.splits Io.splits)
  then show ?thesis by (intro that [of r co "[x1, x2, x3, x4]" m n]) simp_all
qed


section \<open>The end of a session\<close>

definition proceeds :: "Ctl \<times> Relay \<Rightarrow> bool" where
  "proceeds x \<longleftrightarrow> (case fst x of Continue \<Rightarrow> True | Return _ \<Rightarrow> True | _ \<Rightarrow> False)"

lemma proceeds_simps [simp]: "proceeds (Continue, r)" "proceeds (Return e, r)"
  by (simp_all add: proceeds_def)

lemma retry_proceeds: "proceeds (retry_on_primary E r)"
  unfolding retry_on_primary_def Let_def by (intro allI impI conjI | simp split: prod.split sum.split option.split)+

lemma answer_proceeds: "proceeds (answer E co r)"
  unfolding answer_def answer_failed_def Let_def
  by (intro allI impI conjI | simp add: retry_proceeds split: prod.split sum.split option.split)+

lemma forward_proceeds: "proceeds (forward E m m' co r)"
  unfolding forward_def Let_def
  by (intro allI impI conjI | simp add: answer_proceeds split: prod.split option.split Route.split)+

lemma relay_exchange_proceeds: "proceeds (relay_exchange E m co r)"
  unfolding relay_exchange_def Let_def
  by (intro allI impI conjI | simp add: forward_proceeds split: prod.split Outgoing.split)+

lemma borrow_go_or_return: "fst (borrow E m r) = Go \<or> (\<exists>e. fst (borrow E m r) = Return e)"
  by (simp add: borrow_def acquire_failed_def Let_def split: prod.splits sum.splits)

text \<open>An iteration goes on, ends the session without touching what it holds, or fails.\<close>

lemma relay_step_ctl:
  assumes "relay_step E ev r = (c, r')"
  shows "c = Continue \<or> (\<exists>e. c = Return e) \<or> (c = Break \<and> core r' = core r)"
proof (cases ev)
  case (Received m)
  then have x: "relay_message E m r = (c, r')" using assms by (simp add: relay_step_def)
  obtain d r1 where b: "borrow E m (begin_message E m r) = (d, r1)" by force
  have d: "d = Go \<or> (\<exists>e. d = Return e)" using borrow_go_or_return [of E m "begin_message E m r"] b by simp
  show ?thesis
  proof (cases "refuse_read_only E m r = None \<and> classify_message m \<noteq> Terminate \<and> d = Go")
    case True
    show ?thesis
    proof (cases "held r1")
      case (Some co)
      with x b True have "relay_exchange E m co r1 = (c, r')" by (simp add: relay_message_def)
      then show ?thesis using relay_exchange_proceeds [of E m co r1] by (cases c) (simp_all add: proceeds_def)
    qed (use x b True in \<open>simp add: relay_message_def\<close>)
  qed (use x b d in \<open>auto simp: relay_message_def split: option.splits if_splits\<close>)
qed (use assms in \<open>auto simp: relay_step_def split: if_splits\<close>)

lemma relay_loop_inv:
  "relay_loop E evs r = (c, r') \<Longrightarrow> relay_inv E r \<Longrightarrow> (\<exists>e. c = Return e) \<or> relay_inv E r'"
proof (induction evs arbitrary: r)
  case (Cons ev evs)
  obtain d r1 where s: "relay_step E ev r = (d, r1)" by force
  consider "d = Continue" | e where "d = Return e" | "d = Break" "core r1 = core r"
    using relay_step_ctl [OF s] by blast
  then show ?case
  proof cases
    case 1
    with Cons s relay_step_inv [of E ev r r1] show ?thesis by simp
  next
    case 3
    with Cons.prems s core_inv [of r1 r E] show ?thesis by simp
  qed (use Cons.prems s in auto)
qed simp

lemma reset_parked:
  assumes "reset_backend b = (out, b')" and "out \<noteq> Discard"
  shows "ends_ready b'"
proof -
  define b1 where "b1 = simple_query ''ROLLBACK'' b"
  define b2 where "b2 = simple_query (if supports_discard_all b1 then ''DISCARD ALL'' else ''RESET ALL'') b1"
  have b': "io_log b' = io_log b2" "\<not> pb_broken b2"
    using assms by (auto simp: reset_backend_def Let_def b1_def [symmetric] b2_def [symmetric] split: if_splits)
  from b'(2) have "ends_ready b2" unfolding b2_def by (rule simple_query_ready)
  with b'(1) show ?thesis by (simp add: ends_ready_def)
qed

lemma status_tag: "transaction_status m = Some s \<Longrightarrow> tag m = CHR ''Z''"
  by (simp add: transaction_status_def split: list.splits if_splits)

lemma settled_ends_ready: "settled b \<Longrightarrow> ends_ready b"
  unfolding settled_def ends_ready_def using status_tag by blast

text \<open>
  C28. When a session ends in order, it holds no backend and its key cancels nothing, and each
  backend it used is closed or has been read up to a \<open>ReadyForQuery\<close>, except one: the backend
  of a client that left before the messages it had sent were answered.
\<close>

theorem session_end_leaves_backends_ready:
  assumes "relay_start E r0" and t: "transaction_relay E evs r0 = (Inr outcome, r')"
  shows "held r' = None
    \<and> (\<forall>key. cancel_scope (policy E) = Some key \<longrightarrow> lookup key (cancels r') = None)
    \<and> (\<forall>co \<in> set (given_back r'). co_discard co \<or> ends_ready (co_backend co)
          \<or> (exchange r' \<noteq> [] \<and> co = last (given_back r')))"
proof -
  obtain c r where l: "relay_loop E evs r0 = (c, r)" by force
  then have r': "r' = relay_end E r" and c: "\<And>e. c \<noteq> Return e"
    using t by (auto simp: transaction_relay_def Let_def split: Ctl.splits)
  have inv: "relay_inv E r" using relay_loop_inv [OF l relay_start_inv [OF assms(1)]] c by blast
  define r1 where "r1 = retarget_to E None r"
  have base: "base_inv E r1" "cancel_ok E None (cancels r1)" "held r1 = held r" "exchange r1 = exchange r" "flow r1 = flow r"
    using inv retarget_to_ok [of E r None] by (simp_all add: r1_def relay_inv_def)
  have ok: "co_discard co \<or> ends_ready (co_backend co)" if "co \<in> set (given_back r1)" for co
    using base(1) that settled_ends_ready by (auto simp: base_inv_def list_all_iff returned_ok_def)
  have look: "lookup key reg = None" if "cancel_ok E None reg" "cancel_scope (policy E) = Some key" for key reg
    using that by (simp add: cancel_ok_def lookup_def)
  show ?thesis
  proof (cases "held r")
    case None
    then have "r' = r1" using r' base(3) by (simp add: relay_end_def r1_def [symmetric])
    then show ?thesis using None base ok look by auto
  next
    case (Some co)
    obtain out b where rs: "reset_backend (co_backend co) = (out, b)" by force
    let ?clean = "ss_pin (flow r) \<noteq> None \<or> ss_in_transaction (flow r)"
    let ?co = "if ?clean then (if out = Discard then discard (co\<lparr>co_backend := b\<rparr>) else co\<lparr>co_backend := b\<rparr>) else co"
    have e: "r' = give_back ?co (r1\<lparr>held := None\<rparr>)"
      using r' Some base(3,5) rs by (simp add: relay_end_def r1_def [symmetric] Let_def)
    have "co_discard ?co \<or> ends_ready (co_backend ?co) \<or> exchange r' \<noteq> []"
    proof (cases ?clean)
      case True
      then show ?thesis using reset_parked [OF rs] by (auto simp: discard_def)
    next
      case False
      moreover have "flow_ok (flow r)" using inv by (simp add: relay_inv_def base_inv_def)
      ultimately have "is_releasable (flow r)" by (auto simp: flow_ok_def is_releasable_def split: PoolMode.splits)
      then show ?thesis using inv Some base(4) by (simp add: relay_inv_def e)
    qed
    then show ?thesis using e ok base(2) look by (auto simp: give_back_def)
  qed
qed

theorem session_end_leaves_backends_ready_witness:
  "\<exists>outcome r'. transaction_relay example_env commit_events (example_relay [Inr (example_backend commit_replies)])
       = (Inr outcome, r') \<and> held r' = None \<and> lookup (1, 7) (cancels r') = None"
proof -
  have "case transaction_relay example_env commit_events (example_relay [Inr (example_backend commit_replies)]) of
      (Inr _, _) \<Rightarrow> True | (Inl _, _) \<Rightarrow> False" by code_simp
  then obtain outcome r' where
    t: "transaction_relay example_env commit_events (example_relay [Inr (example_backend commit_replies)]) = (Inr outcome, r')"
    by (auto split: prod.splits sum.splits)
  moreover have "cancel_scope (policy example_env) = Some (1, 7)" by (simp add: example_env_def plain_policy_def)
  ultimately show ?thesis using session_end_leaves_backends_ready [OF example_start t] by blast
qed

section \<open>The answer\<close>

text \<open>
  An answer the server gives in full reaches the client: every message up to \<open>ReadyForQuery\<close>
  is passed on unchanged and in order, nothing after it is read, and the exchange ends with the
  status the server reported, marked as failed when one of the messages was an error.
\<close>

theorem answer_is_passed_on:
  assumes "io_reads b = map Inr ms @ Inr z # rest"
    and "\<forall>m \<in> set ms. transaction_status m = None \<and> tag m \<noteq> CHR ''G'' \<and> tag m \<noteq> CHR ''W''"
    and "transaction_status z = Some s" and "cl_faults c = []"
  shows "\<exists>st'. pump_until_ready err b c st =
    (Inr \<lparr>end_status = s, errored = err \<or> (\<exists>m \<in> set ms. tag m = CHR ''E'')\<rparr>,
     b\<lparr>io_reads := rest, io_log := io_log b @ map Got (ms @ [z])\<rparr>,
     c\<lparr>cl_log := cl_log c @ ms @ [z]\<rparr>, st')"
  using assms
proof (induction ms arbitrary: err b c st)
  case Nil
  have "tag z = CHR ''Z''" using Nil.prems(3) by (rule status_tag)
  with Nil show ?case
    by (simp add: pump_until_ready.simps [of err b] read_io_def write_client_def next_fault_def pump_end_def
        flush_client_def Let_def)
next
  case (Cons m ms)
  let ?b = "b\<lparr>io_reads := map Inr ms @ Inr z # rest, io_log := io_log b @ [Got m]\<rparr>"
  let ?c = "c\<lparr>cl_log := cl_log c @ [m]\<rparr>"
  obtain cl where c: "c = \<lparr>cl_faults = [], cl_log = cl\<rparr>" using Cons.prems(4) by (cases c) auto
  have "pump_until_ready err b c st
      = pump_until_ready (err \<or> tag m = CHR ''E'') ?b ?c (st\<lparr>to_client := to_client st + word_of_nat (wire_len m)\<rparr>)"
    using Cons.prems
    by (simp add: c pump_until_ready.simps [of err b] read_io_def write_client_def next_fault_def Let_def)
  then show ?case
    using Cons.IH [of ?b ?c "err \<or> tag m = CHR ''E''" "st\<lparr>to_client := to_client st + word_of_nat (wire_len m)\<rparr>"]
      Cons.prems by (auto simp: disj_assoc)
qed

theorem answer_is_passed_on_witness:
  "\<exists>st'. pump_until_ready False (example_backend [Inr (command_complete ''BEGIN''), Inr (ready_for_query TInTransaction)])
      \<lparr>cl_faults = [], cl_log = []\<rparr> zero_relay_stats =
    (Inr \<lparr>end_status = TInTransaction, errored = False\<rparr>,
     (example_backend [])\<lparr>io_log := [Got (command_complete ''BEGIN''), Got (ready_for_query TInTransaction)]\<rparr>,
     \<lparr>cl_faults = [], cl_log = [command_complete ''BEGIN'', ready_for_query TInTransaction]\<rparr>, st')"
proof -
  have "transaction_status (command_complete ''BEGIN'') = None" "transaction_status (ready_for_query TInTransaction) = Some TInTransaction"
    "tag (command_complete ''BEGIN'') = CHR ''C''" by code_simp+
  with answer_is_passed_on [of "example_backend [Inr (command_complete ''BEGIN''), Inr (ready_for_query TInTransaction)]"
      "[command_complete ''BEGIN'']" "ready_for_query TInTransaction" "[]" TInTransaction "\<lparr>cl_faults = [], cl_log = []\<rparr>" False zero_relay_stats]
  show ?thesis by (simp add: example_backend_def)
qed

section \<open>Where the relay falls short\<close>

text \<open>
  The end of a \<open>COPY\<close> upload is forwarded but its answer is not fetched: after \<open>CopyDone\<close> or
  \<open>CopyFail\<close> the relay reads nothing from the server, writes nothing to the client, and goes back
  to waiting for the client, which by the protocol is waiting for that answer.
\<close>

theorem copy_done_is_not_answered:
  assumes "tag m = CHR ''c'' \<or> tag m = CHR ''f''" and "held r = Some co" and "io_faults (co_backend co) = []"
  shows "\<exists>r' co'. relay_message E m r = (Continue, r') \<and> client r' = client r \<and> held r' = Some co'
    \<and> io_reads (co_backend co') = io_reads (co_backend co)
    \<and> io_log (co_backend co') = io_log (co_backend co) @ [Sent m]"
proof -
  let ?r = "begin_message E m r"
  have k: "classify_message m = Pins BulkTransfer" "param_sql m = None" "\<not> expects_reply m"
    using assms(1) by (auto simp: classify_message_def param_sql_def expects_reply_def Let_def)
  then have "refuse_read_only E m r = None" by (simp add: refuse_read_only_def split: option.splits)
  moreover have "borrow E m ?r = (Go, ?r)" "held ?r = Some co" using assms(2) by (simp_all add: borrow_def begin_message_fields)
  moreover have "client ?r = client r"
    by (simp add: begin_message_def Let_def k split: option.splits)
  moreover have "outgoing E True m (co_backend co) cs = (Forward m, co_backend co, cs)" for cs
    using assms(1) by (auto simp: outgoing_def rewrite_prepared_def)
  moreover have "write_io m (co_backend co) = (None, (co_backend co)\<lparr>io_log := io_log (co_backend co) @ [Sent m]\<rparr>)"
    using assms(3) by (simp add: write_io_def next_fault_def)
  ultimately show ?thesis using k
    by (simp add: relay_message_def relay_exchange_def forward_def Let_def)
qed

theorem copy_done_is_not_answered_witness:
  "\<exists>r'. relay_message example_env (msg (CHR ''c'') [])
      ((example_relay [])\<lparr>held := Some \<lparr>co_backend = example_backend [ready TIdle], co_discard = False, co_pool = None\<rparr>\<rparr>)
     = (Continue, r') \<and> cl_log (client r') = []"
proof -
  let ?r = "(example_relay [])\<lparr>held := Some \<lparr>co_backend = example_backend [ready TIdle], co_discard = False, co_pool = None\<rparr>\<rparr>"
  have "held ?r = Some \<lparr>co_backend = example_backend [ready TIdle], co_discard = False, co_pool = None\<rparr>" by simp
  from copy_done_is_not_answered [of "msg (CHR ''c'') []", OF _ this, of example_env]
  obtain r' where "relay_message example_env (msg (CHR ''c'') []) ?r = (Continue, r')" "client r' = client ?r"
    by (auto simp: example_backend_def)
  then show ?thesis by (intro exI [of _ r']) (simp add: example_relay_def new_relay_def)
qed

text \<open>
  A replica that dies while it answers has its exchange replayed on the primary. When that
  replay fails, the primary's connection goes back to its pool without being closed,
  although a query has been written to it whose answer was never read.
\<close>

definition split_router :: Router where
  "split_router = new_router
     \<lparr>read_write_split = True, sticky_after_write = 0, max_replica_lag = None, health_interval = 0,
      rc_failure_threshold = 1, recovery_cooldown = 0\<rparr>
     [new_replica 0 ''replica:5432'' 1 \<lparr>failure_threshold = 3, success_threshold = 2, cooldown = 10\<rparr>]"

definition dying_replica :: PgBackend where
  "dying_replica = example_backend [Inr (command_complete ''SET''), ready TIdle]"

definition failing_primary :: PgBackend where
  "failing_primary =
     (example_backend [Inr (command_complete ''SET''), ready TIdle])\<lparr>io_faults := [None, None, None, Some ''broken pipe'']\<rparr>"

definition split_relay :: Relay where
  "split_relay = (example_relay [Inr dying_replica, Inr failing_primary])\<lparr>router := split_router\<rparr>"

definition unread :: "PgCheckout \<Rightarrow> bool" where
  "unread co \<longleftrightarrow> \<not> co_discard co \<and>
     (case rev (io_log (co_backend co)) of Sent m # _ \<Rightarrow> expects_reply m | _ \<Rightarrow> False)"

lemma failed_replay_returns_an_unread_backend:
  "case transaction_relay example_env [Received (query_message ''SELECT 1'')] split_relay of
     (Inl e, r) \<Rightarrow> list_ex unread (given_back r)
   | _ \<Rightarrow> False"
  by code_simp

text \<open>
  A client that leaves in the middle of a pipeline, outside a transaction and unpinned, leaves
  a backend behind that goes back to its pool with the messages it was sent unanswered.
\<close>

lemma leaving_mid_pipeline_returns_an_unanswered_backend:
  "case transaction_relay example_env (parse_events @ [Received terminate_msg])
          (example_relay [Inr (example_backend example_replies)]) of
     (Inr outcome, r) \<Rightarrow> (case given_back r of
         [co] \<Rightarrow> \<not> co_discard co \<and> (case rev (io_log (co_backend co)) of Sent m # _ \<Rightarrow> tag m = CHR ''B'' | _ \<Rightarrow> False)
       | _ \<Rightarrow> False)
   | _ \<Rightarrow> False"
  by code_simp

end
