(* ===== verification/Registry.thy ===== *)
theory Registry
  imports Session_Rules Btree
begin

text \<open>
  The registry of database families (\<open>havuz-registry\<close>): descriptors, profiles and form
  fields as data, with what is looked up in them. Labels, help texts and placeholders are
  presentation and left out. The results: every family is described consistently, no
  profile may share backends without rules that say which statements are safe, and the
  duration grammar accepts exactly what it should.
\<close>

section \<open>JSON values\<close>

text \<open>What \<open>serde_json\<close> hands over; a number that is not an integer is kept as its text.\<close>

datatype Json = JNull | JBool bool | JInt int | JFloat string | JString string | JOther

fun json_str :: "Json \<Rightarrow> string option" where
  "json_str (JString s) = Some s"
| "json_str _ = None"

fun json_bool :: "Json \<Rightarrow> bool option" where
  "json_bool (JBool b) = Some b"
| "json_bool _ = None"

fun json_i64 :: "Json \<Rightarrow> int option" where
  "json_i64 (JInt n) = (if - (2 ^ 63) \<le> n \<and> n < 2 ^ 63 then Some n else None)"
| "json_i64 _ = None"

section \<open>Numbers and durations in text\<close>

definition digit_val :: "char \<Rightarrow> int" where
  "digit_val c = int (byte c) - 48"

definition digits_val :: "string \<Rightarrow> int" where
  "digits_val s = foldl (\<lambda>n c. n * 10 + digit_val c) 0 s"

definition U64_MAX :: int where
  "U64_MAX = 18446744073709551615"

definition U16_MAX :: int where
  "U16_MAX = 65535"

text \<open>\<open>str::parse\<close> for an unsigned type with the given largest value: an optional plus sign, then digits.\<close>

definition parse_unsigned :: "int \<Rightarrow> string \<Rightarrow> int option" where
  "parse_unsigned limit s =
     (let ds = (case s of c # r \<Rightarrow> if c = CHR ''+'' then r else s | [] \<Rightarrow> s)
      in if ds \<noteq> [] \<and> list_all is_ascii_digit ds \<and> digits_val ds \<le> limit then Some (digits_val ds) else None)"

definition checked_mul_u64 :: "int \<Rightarrow> int \<Rightarrow> int option" where
  "checked_mul_u64 a b = (if a * b \<le> U64_MAX then Some (a * b) else None)"

definition duration_unit :: "string \<Rightarrow> int option" where
  "duration_unit u =
     (if u = ''ms'' then Some 1
      else if u = ''s'' \<or> u = ''sec'' then Some 1000
      else if u = ''m'' \<or> u = ''min'' then Some 60000
      else if u = ''h'' \<or> u = ''hr'' then Some 3600000
      else if u = ''d'' then Some 86400000
      else None)"

text \<open>The result is in milliseconds.\<close>

definition parse_duration :: "string \<Rightarrow> int option" where
  "parse_duration input =
     (let s = trim input in
      if s = [] then None
      else case position is_ascii_alphabetic s of
        None \<Rightarrow> None
      | Some i \<Rightarrow>
          (case parse_unsigned U64_MAX (trim (take i s)) of
             None \<Rightarrow> None
           | Some n \<Rightarrow>
               (case duration_unit (trim (drop i s)) of
                  None \<Rightarrow> None
                | Some f \<Rightarrow> checked_mul_u64 n f)))"

section \<open>Form fields\<close>

datatype FieldKind = Text | Password | FBool | Integer int int | Select "string list" | Duration

datatype FieldRole = RHost | RPort | RDatabase | RUser | RPassword

record ConfigField =
  cf_name :: string
  cf_kind :: FieldKind
  cf_required :: bool
  cf_default :: "string option"
  cf_secret :: bool
  cf_role :: "FieldRole option"

datatype FieldError =
  FMissing string
  | WrongType string string
  | OutOfRange string int int int
  | NotAllowed string string
  | BadDuration string string

definition optional :: "ConfigField \<Rightarrow> ConfigField" where
  "optional f = f\<lparr>cf_required := False\<rparr>"

definition missing_check :: "ConfigField \<Rightarrow> FieldError option" where
  "missing_check f = (if cf_required f \<and> cf_default f = None then Some (FMissing (cf_name f)) else None)"

definition validate_field :: "ConfigField \<Rightarrow> Json option \<Rightarrow> FieldError option" where
  "validate_field f v =
     (case v of
        None \<Rightarrow> missing_check f
      | Some JNull \<Rightarrow> missing_check f
      | Some j \<Rightarrow>
          (let text_check =
                 (case json_str j of
                    None \<Rightarrow> Some (WrongType (cf_name f) ''string'')
                  | Some s \<Rightarrow> if cf_required f \<and> s = [] then Some (FMissing (cf_name f)) else None)
           in case cf_kind f of
             Text \<Rightarrow> text_check
           | Password \<Rightarrow> text_check
           | FBool \<Rightarrow> (case json_bool j of None \<Rightarrow> Some (WrongType (cf_name f) ''boolean'') | Some _ \<Rightarrow> None)
           | Integer lo hi \<Rightarrow>
               (case json_i64 j of
                  None \<Rightarrow> Some (WrongType (cf_name f) ''integer'')
                | Some n \<Rightarrow> if n < lo \<or> n > hi then Some (OutOfRange (cf_name f) lo hi n) else None)
           | Select options \<Rightarrow>
               (case json_str j of
                  None \<Rightarrow> Some (WrongType (cf_name f) ''string'')
                | Some s \<Rightarrow> if s \<in> set options then None else Some (NotAllowed (cf_name f) s))
           | Duration \<Rightarrow>
               (case json_str j of
                  None \<Rightarrow> Some (WrongType (cf_name f) ''duration string'')
                | Some s \<Rightarrow> if parse_duration s \<noteq> None then None else Some (BadDuration (cf_name f) s))))"

section \<open>Families\<close>

datatype Maturity = Stable | Beta | Experimental | Planned

definition is_usable :: "Maturity \<Rightarrow> bool" where
  "is_usable m \<longleftrightarrow> m \<noteq> Planned"

record Capabilities =
  cap_tls :: bool
  cap_scram_sha256 :: bool
  cap_md5_auth :: bool
  cap_per_user_auth :: bool
  cap_prepared_statements :: bool
  cap_read_only_sessions :: bool
  cap_cancel_request :: bool
  cap_bulk_copy :: bool
  cap_reports_transaction_status :: bool
  cap_listen_notify :: bool
  cap_advisory_locks :: bool
  cap_classifies_statements :: bool

definition NO_CAPABILITIES :: Capabilities where
  "NO_CAPABILITIES =
     \<lparr>cap_tls = False, cap_scram_sha256 = False, cap_md5_auth = False, cap_per_user_auth = False,
      cap_prepared_statements = False, cap_read_only_sessions = False, cap_cancel_request = False,
      cap_bulk_copy = False, cap_reports_transaction_status = False, cap_listen_notify = False,
      cap_advisory_locks = False, cap_classifies_statements = False\<rparr>"

record Quirks =
  q_discard_all :: bool
  q_advisory_locks :: bool
  q_listen_notify :: bool
  q_prepared_statements :: bool
  q_max_pool_mode :: PoolMode
  q_session :: SessionRules

record DriverProfile =
  dp_id :: string
  dp_maturity :: Maturity
  dp_default_port :: "u16 option"
  dp_quirks :: Quirks

record FamilyDescriptor =
  fd_id :: string
  fd_maturity :: Maturity
  fd_default_port :: u16
  fd_capabilities :: Capabilities
  fd_pool_modes :: "PoolMode list"
  fd_default_pool_mode :: PoolMode
  fd_profiles :: "DriverProfile list"
  fd_config_fields :: "ConfigField list"

definition POSTGRES_QUIRKS :: Quirks where
  "POSTGRES_QUIRKS =
     \<lparr>q_discard_all = True, q_advisory_locks = True, q_listen_notify = True, q_prepared_statements = True,
      q_max_pool_mode = Transaction, q_session = OPAQUE\<rparr>"

subsection \<open>PostgreSQL\<close>

definition POSTGRES_PROFILES :: "DriverProfile list" where
  "POSTGRES_PROFILES =
     [\<lparr>dp_id = ''postgres'', dp_maturity = Beta, dp_default_port = None, dp_quirks = POSTGRES_QUIRKS\<rparr>,
      \<lparr>dp_id = ''cockroachdb'', dp_maturity = Experimental, dp_default_port = Some 26257, dp_quirks =
        \<lparr>q_discard_all = True, q_advisory_locks = False, q_listen_notify = False, q_prepared_statements = True,
         q_max_pool_mode = Transaction, q_session = OPAQUE\<rparr>\<rparr>,
      \<lparr>dp_id = ''redshift'', dp_maturity = Experimental, dp_default_port = Some 5439, dp_quirks =
        \<lparr>q_discard_all = False, q_advisory_locks = False, q_listen_notify = False, q_prepared_statements = True,
         q_max_pool_mode = Transaction, q_session = OPAQUE\<rparr>\<rparr>,
      \<lparr>dp_id = ''yugabytedb'', dp_maturity = Experimental, dp_default_port = None, dp_quirks =
        \<lparr>q_discard_all = True, q_advisory_locks = True, q_listen_notify = False, q_prepared_statements = True,
         q_max_pool_mode = Transaction, q_session = OPAQUE\<rparr>\<rparr>,
      \<lparr>dp_id = ''opengauss'', dp_maturity = Experimental, dp_default_port = None, dp_quirks =
        \<lparr>q_discard_all = True, q_advisory_locks = True, q_listen_notify = False, q_prepared_statements = True,
         q_max_pool_mode = Session, q_session = OPAQUE\<rparr>\<rparr>]"

definition SSL_MODES :: "string list" where
  "SSL_MODES = [''disable'', ''prefer'', ''require'', ''verify-ca'', ''verify-full'']"

definition text_field :: "string \<Rightarrow> bool \<Rightarrow> string option \<Rightarrow> FieldRole option \<Rightarrow> ConfigField" where
  "text_field name req dflt role =
     \<lparr>cf_name = name, cf_kind = Text, cf_required = req, cf_default = dflt, cf_secret = False, cf_role = role\<rparr>"

definition password_field :: ConfigField where
  "password_field =
     \<lparr>cf_name = ''password'', cf_kind = Password, cf_required = False, cf_default = None, cf_secret = True,
      cf_role = Some RPassword\<rparr>"

definition POSTGRES_FIELDS :: "ConfigField list" where
  "POSTGRES_FIELDS =
     [text_field ''host'' True None (Some RHost),
      (text_field ''port'' True (Some ''5432'') (Some RPort))\<lparr>cf_kind := Integer 1 65535\<rparr>,
      text_field ''database'' True None (Some RDatabase),
      text_field ''username'' True None (Some RUser),
      password_field,
      (text_field ''sslmode'' False (Some ''prefer'') None)\<lparr>cf_kind := Select SSL_MODES\<rparr>,
      text_field ''ssl_root_cert'' False None None,
      (text_field ''connect_timeout'' False (Some ''5s'') None)\<lparr>cf_kind := Duration\<rparr>]"

definition POSTGRES :: FamilyDescriptor where
  "POSTGRES =
     \<lparr>fd_id = ''postgres'', fd_maturity = Beta, fd_default_port = 5432,
      fd_capabilities =
        \<lparr>cap_tls = True, cap_scram_sha256 = True, cap_md5_auth = True, cap_per_user_auth = True,
         cap_prepared_statements = True, cap_read_only_sessions = True, cap_cancel_request = True,
         cap_bulk_copy = True, cap_reports_transaction_status = True, cap_listen_notify = True,
         cap_advisory_locks = True, cap_classifies_statements = True\<rparr>,
      fd_pool_modes = [Session, Transaction, Statement], fd_default_pool_mode = Transaction,
      fd_profiles = POSTGRES_PROFILES, fd_config_fields = POSTGRES_FIELDS\<rparr>"

subsection \<open>JDBC\<close>

definition rule :: "string \<Rightarrow> PinReason \<Rightarrow> PinRule" where
  "rule ws r = \<lparr>words = ws, reason = r\<rparr>"

definition POSTGRESQL_RULES :: SessionRules where
  "POSTGRESQL_RULES =
     \<lparr>reset_query = Some ''DISCARD ALL'',
      pins = [rule ''SET'' SessionParameter, rule ''RESET'' SessionParameter, rule ''LISTEN'' Listen,
        rule ''UNLISTEN'' Listen, rule ''CREATE TEMP'' TempTable, rule ''CREATE TEMPORARY'' TempTable,
        rule ''CREATE LOCAL TEMP'' TempTable, rule ''CREATE LOCAL TEMPORARY'' TempTable,
        rule ''CREATE GLOBAL TEMP'' TempTable, rule ''CREATE GLOBAL TEMPORARY'' TempTable,
        rule ''PREPARE'' ServerSidePrepare, rule ''DEALLOCATE'' ServerSidePrepare,
        rule ''DECLARE'' HoldableCursor, rule ''COPY'' BulkTransfer],
      shareable = [''SELECT'', ''INSERT'', ''UPDATE'', ''DELETE'', ''MERGE'', ''WITH'', ''VALUES'', ''TABLE'', ''SHOW'',
        ''EXPLAIN'', ''ANALYZE'', ''CALL'', ''SAVEPOINT'', ''RELEASE'', ''ROLLBACK'', ''COMMIT'', ''BEGIN'', ''START'',
        ''END'', ''ABORT'', ''SET LOCAL'', ''SET TRANSACTION'', ''SET CONSTRAINTS'']\<rparr>"

definition ORACLE_RULES :: SessionRules where
  "ORACLE_RULES =
     \<lparr>reset_query = Some ''BEGIN DBMS_SESSION.MODIFY_PACKAGE_STATE(DBMS_SESSION.REINITIALIZE); END;'',
      pins = [rule ''ALTER SESSION'' SessionParameter, rule ''SET ROLE'' SessionParameter,
        rule ''CREATE GLOBAL TEMPORARY'' TempTable, rule ''CREATE PRIVATE TEMPORARY'' TempTable,
        rule ''DECLARE'' ProcedureState],
      shareable = [''SELECT'', ''INSERT'', ''UPDATE'', ''DELETE'', ''MERGE'', ''WITH'', ''SAVEPOINT'', ''COMMIT'', ''ROLLBACK'']\<rparr>"

definition DB2_RULES :: SessionRules where
  "DB2_RULES =
     \<lparr>reset_query = None,
      pins = [rule ''SET CURRENT'' SessionParameter, rule ''SET SCHEMA'' SessionParameter, rule ''SET PATH'' SessionParameter,
        rule ''SET SESSION'' SessionParameter, rule ''DECLARE GLOBAL TEMPORARY'' TempTable, rule ''BEGIN'' ProcedureState],
      shareable = [''SELECT'', ''INSERT'', ''UPDATE'', ''DELETE'', ''MERGE'', ''WITH'', ''VALUES'', ''SAVEPOINT'', ''COMMIT'', ''ROLLBACK'']\<rparr>"

definition JDBC_PROFILES :: "DriverProfile list" where
  "JDBC_PROFILES =
     [\<lparr>dp_id = ''generic'', dp_maturity = Experimental, dp_default_port = None, dp_quirks =
        \<lparr>q_discard_all = False, q_advisory_locks = False, q_listen_notify = False, q_prepared_statements = True,
         q_max_pool_mode = Session, q_session = OPAQUE\<rparr>\<rparr>,
      \<lparr>dp_id = ''postgresql'', dp_maturity = Experimental, dp_default_port = None, dp_quirks =
        \<lparr>q_discard_all = True, q_advisory_locks = True, q_listen_notify = True, q_prepared_statements = True,
         q_max_pool_mode = Transaction, q_session = POSTGRESQL_RULES\<rparr>\<rparr>,
      \<lparr>dp_id = ''oracle'', dp_maturity = Experimental, dp_default_port = Some 1521, dp_quirks =
        \<lparr>q_discard_all = False, q_advisory_locks = True, q_listen_notify = False, q_prepared_statements = True,
         q_max_pool_mode = Session, q_session = ORACLE_RULES\<rparr>\<rparr>,
      \<lparr>dp_id = ''db2'', dp_maturity = Experimental, dp_default_port = Some 50000, dp_quirks =
        \<lparr>q_discard_all = False, q_advisory_locks = False, q_listen_notify = False, q_prepared_statements = True,
         q_max_pool_mode = Session, q_session = DB2_RULES\<rparr>\<rparr>]"

definition JDBC_FIELDS :: "ConfigField list" where
  "JDBC_FIELDS =
     [text_field ''url'' True None (Some RHost),
      text_field ''driver_class'' False None None,
      text_field ''driver_paths'' True None None,
      text_field ''username'' True None (Some RUser),
      password_field,
      text_field ''reset_query'' False None None,
      text_field ''agent_jar'' False None None,
      text_field ''java'' False (Some ''java'') None,
      (text_field ''connect_timeout'' False (Some ''10s'') None)\<lparr>cf_kind := Duration\<rparr>]"

definition JDBC :: FamilyDescriptor where
  "JDBC =
     \<lparr>fd_id = ''jdbc'', fd_maturity = Experimental, fd_default_port = 0,
      fd_capabilities = NO_CAPABILITIES\<lparr>cap_tls := True, cap_scram_sha256 := True, cap_prepared_statements := True,
        cap_reports_transaction_status := True\<rparr>,
      fd_pool_modes = [Session, Transaction], fd_default_pool_mode = Session,
      fd_profiles = JDBC_PROFILES, fd_config_fields = JDBC_FIELDS\<rparr>"

subsection \<open>Planned families and lookup\<close>

definition planned :: "string \<Rightarrow> u16 \<Rightarrow> bool \<Rightarrow> FamilyDescriptor" where
  "planned fid port prepared =
     \<lparr>fd_id = fid, fd_maturity = Planned, fd_default_port = port, fd_capabilities = NO_CAPABILITIES,
      fd_pool_modes = [Session], fd_default_pool_mode = Session,
      fd_profiles = [\<lparr>dp_id = fid, dp_maturity = Planned, dp_default_port = None, dp_quirks =
        \<lparr>q_discard_all = False, q_advisory_locks = False, q_listen_notify = False, q_prepared_statements = prepared,
         q_max_pool_mode = Session, q_session = OPAQUE\<rparr>\<rparr>],
      fd_config_fields = []\<rparr>"

definition FAMILIES :: "FamilyDescriptor list" where
  "FAMILIES = [POSTGRES, JDBC, planned ''mysql'' 3306 True, planned ''redis'' 6379 False]"

definition usable_families :: "FamilyDescriptor list" where
  "usable_families = filter (\<lambda>f. is_usable (fd_maturity f)) FAMILIES"

definition family :: "string \<Rightarrow> FamilyDescriptor option" where
  "family fid = List.find (\<lambda>f. fd_id f = fid) FAMILIES"

definition profile_of :: "FamilyDescriptor \<Rightarrow> string \<Rightarrow> DriverProfile option" where
  "profile_of f pid = List.find (\<lambda>p. dp_id p = pid) (fd_profiles f)"

text \<open>Every family declares a profile, so the \<open>expect\<close> on the first one never fires.\<close>

definition default_profile :: "FamilyDescriptor \<Rightarrow> DriverProfile" where
  "default_profile f = hd (fd_profiles f)"

definition port_for :: "FamilyDescriptor \<Rightarrow> string option \<Rightarrow> u16" where
  "port_for f pid =
     (case Option.bind (Option.bind pid (profile_of f)) dp_default_port of
        Some p \<Rightarrow> p | None \<Rightarrow> fd_default_port f)"

definition field_for :: "FamilyDescriptor \<Rightarrow> FieldRole \<Rightarrow> ConfigField option" where
  "field_for f role = List.find (\<lambda>c. cf_role c = Some role) (fd_config_fields f)"

definition secret_fields :: "FamilyDescriptor \<Rightarrow> string list" where
  "secret_fields f = map cf_name (filter cf_secret (fd_config_fields f))"

definition int_text :: "int \<Rightarrow> string" where
  "int_text n = (if n < 0 then ''-'' @ decimal (nat (- n)) else decimal (nat n))"

record Connection =
  cn_host :: string
  cn_port :: u16
  cn_database :: string
  cn_user :: string
  cn_password :: "string option"

definition role_text :: "FamilyDescriptor \<Rightarrow> (string, Json) btree \<Rightarrow> FieldRole \<Rightarrow> string option" where
  "role_text f settings role =
     (case field_for f role of
        None \<Rightarrow> None
      | Some fld \<Rightarrow>
          (case map_of settings (cf_name fld) of
             Some (JString s) \<Rightarrow> Some s
           | Some (JInt n) \<Rightarrow> Some (int_text n)
           | Some (JFloat t) \<Rightarrow> Some t
           | _ \<Rightarrow> cf_default fld))"

definition or_empty :: "string option \<Rightarrow> string" where
  "or_empty s = (case s of Some t \<Rightarrow> t | None \<Rightarrow> [])"

definition connection_of :: "FamilyDescriptor \<Rightarrow> (string, Json) btree \<Rightarrow> Connection" where
  "connection_of f settings =
     (let txt = role_text f settings in
      \<lparr>cn_host = or_empty (txt RHost),
       cn_port = (case Option.bind (txt RPort) (parse_unsigned U16_MAX) of Some p \<Rightarrow> word_of_int p | None \<Rightarrow> fd_default_port f),
       cn_database = or_empty (txt RDatabase),
       cn_user = or_empty (txt RUser),
       cn_password = (case txt RPassword of Some p \<Rightarrow> if p = [] then None else Some p | None \<Rightarrow> None)\<rparr>)"

datatype RegistryError =
  RUnknownFamily string | RUnknownProfile string string | RNotImplemented string | RUnsupportedPoolMode string string

definition resolve_profile :: "string \<Rightarrow> string option \<Rightarrow> RegistryError + FamilyDescriptor \<times> DriverProfile" where
  "resolve_profile fid pid =
     (case family fid of
        None \<Rightarrow> Inl (RUnknownFamily fid)
      | Some f \<Rightarrow>
          if \<not> is_usable (fd_maturity f) then Inl (RNotImplemented fid)
          else (case pid of
              None \<Rightarrow> Inr (f, default_profile f)
            | Some p \<Rightarrow> (case profile_of f p of Some d \<Rightarrow> Inr (f, d) | None \<Rightarrow> Inl (RUnknownProfile fid p))))"

section \<open>The registry is consistent\<close>

fun mode_rank :: "PoolMode \<Rightarrow> nat" where
  "mode_rank Session = 0"
| "mode_rank Transaction = 1"
| "mode_rank Statement = 2"

definition profile_consistent :: "FamilyDescriptor \<Rightarrow> DriverProfile \<Rightarrow> bool" where
  "profile_consistent f p \<longleftrightarrow>
     q_max_pool_mode (dp_quirks p) \<in> set (fd_pool_modes f)
     \<and> (multiplexes (q_max_pool_mode (dp_quirks p)) \<longrightarrow>
          cap_classifies_statements (fd_capabilities f) \<or> classifies (q_session (dp_quirks p)))"

definition family_consistent :: "FamilyDescriptor \<Rightarrow> bool" where
  "family_consistent f \<longleftrightarrow>
     fd_profiles f \<noteq> [] \<and> distinct (map dp_id (fd_profiles f)) \<and> distinct (map cf_name (fd_config_fields f))
     \<and> fd_default_pool_mode f \<in> set (fd_pool_modes f)
     \<and> mode_rank (fd_default_pool_mode f) \<le> mode_rank (q_max_pool_mode (dp_quirks (default_profile f)))
     \<and> list_all (profile_consistent f) (fd_profiles f)
     \<and> list_all (\<lambda>c. cf_secret c = (cf_kind c = Password)) (fd_config_fields f)
     \<and> list_all (\<lambda>c. cf_default c = None \<or>
          validate_field c (map_option (\<lambda>d. case cf_kind c of Integer _ _ \<Rightarrow> JInt (digits_val d) | _ \<Rightarrow> JString d)
            (cf_default c)) = None) (fd_config_fields f)"


lemma families_consistent: "list_all family_consistent FAMILIES"
  by code_simp

lemma family_found: "family fid = Some f \<Longrightarrow> f \<in> set FAMILIES \<and> fd_id f = fid \<and> family_consistent f"
  using find_Some_in families_consistent unfolding family_def list_all_iff by fastforce

lemma default_profile_in: "family_consistent f \<Longrightarrow> default_profile f \<in> set (fd_profiles f)"
  by (simp add: family_consistent_def default_profile_def)

lemma profile_of_in: "profile_of f pid = Some p \<Longrightarrow> p \<in> set (fd_profiles f) \<and> dp_id p = pid"
  unfolding profile_of_def by (rule find_Some_in)

lemma profile_safe: "family_consistent f \<Longrightarrow> p \<in> set (fd_profiles f) \<Longrightarrow> profile_consistent f p"
  by (simp add: family_consistent_def list_all_iff)

lemma profile_unique:
  "family_consistent f \<Longrightarrow> p \<in> set (fd_profiles f) \<Longrightarrow> profile_of f (dp_id p) = Some p"
proof -
  assume f: "family_consistent f" and p: "p \<in> set (fd_profiles f)"
  then have "inj_on dp_id (set (fd_profiles f))" by (simp add: family_consistent_def distinct_map)
  moreover obtain q where q: "profile_of f (dp_id p) = Some q"
    using p unfolding profile_of_def by (cases "List.find (\<lambda>q. dp_id q = dp_id p) (fd_profiles f)") (auto simp: find_None_iff)
  ultimately show ?thesis using profile_of_in [OF q] p by (auto dest: inj_onD)
qed

text \<open>
  Every profile the registry hands out belongs to the family that was asked for, a
  family with a driver, and is the one its id names. Its strongest pool mode is one the
  family offers, and where that mode shares backends between clients, statements are
  classified, by the family's driver or by the rules of the profile.
\<close>

theorem resolved_profile_is_safe:
  assumes "resolve_profile fid pid = Inr (f, p)"
  shows "fd_id f = fid \<and> is_usable (fd_maturity f) \<and> profile_of f (dp_id p) = Some p
    \<and> (pid = None \<longrightarrow> p = default_profile f) \<and> (\<forall>i. pid = Some i \<longrightarrow> dp_id p = i)
    \<and> profile_consistent f p"
proof -
  from assms obtain fam: "family fid = Some f" and use: "is_usable (fd_maturity f)"
    and which: "(pid = None \<and> p = default_profile f) \<or> (\<exists>i. pid = Some i \<and> profile_of f i = Some p)"
    by (auto simp: resolve_profile_def split: option.splits if_splits)
  note f = family_found [OF fam]
  from which f have "p \<in> set (fd_profiles f)" using default_profile_in profile_of_in by blast
  with f use which show ?thesis using profile_unique profile_safe profile_of_in by fastforce
qed

theorem resolved_profile_is_safe_witness:
  "profile_consistent JDBC (JDBC_PROFILES ! 1) \<and> multiplexes (q_max_pool_mode (dp_quirks (JDBC_PROFILES ! 1)))
   \<and> \<not> cap_classifies_statements (fd_capabilities JDBC)"
proof -
  have "resolve_profile ''jdbc'' (Some ''postgresql'') = Inr (JDBC, JDBC_PROFILES ! 1)" by code_simp
  from resolved_profile_is_safe [OF this] have "profile_consistent JDBC (JDBC_PROFILES ! 1)" by blast
  moreover have "multiplexes (q_max_pool_mode (dp_quirks (JDBC_PROFILES ! 1)))
      \<and> \<not> cap_classifies_statements (fd_capabilities JDBC)" by code_simp
  ultimately show ?thesis by blast
qed

section \<open>Durations\<close>

lemma digits_val_snoc: "digits_val (s @ [c]) = digits_val s * 10 + digit_val c"
  by (simp add: digits_val_def)

lemma decimal_digit: "n < 10 \<Longrightarrow> is_ascii_digit (char_of (48 + n)) \<and> digit_val (char_of (48 + n)) = int n"
  by (simp add: is_ascii_digit_def digit_val_def)

lemma decimal_digits: "decimal n \<noteq> [] \<and> list_all is_ascii_digit (decimal n) \<and> digits_val (decimal n) = int n"
proof (induction n rule: decimal.induct)
  case (1 n)
  then show ?case
    using decimal_digit [of "n mod 10"] decimal_digit [of n] digits_val_snoc [of "[]"]
    by (cases "n < 10") (simp_all add: decimal.simps [of n] digits_val_snoc digits_val_def zdiv_int zmod_int)
qed

lemma parse_unsigned_decimal:
  "parse_unsigned limit (decimal n) = (if int n \<le> limit then Some (int n) else None)"
proof -
  have "is_ascii_digit d \<Longrightarrow> d \<noteq> CHR ''+''" for d by (auto simp: ascii_defs)
  then show ?thesis using decimal_digits [of n] by (cases "decimal n") (auto simp: parse_unsigned_def Let_def)
qed

lemma alnum_ends:
  assumes "is_ascii_alphanumeric c"
  shows "ws_len (c # s) = 0" and "ws_len_rev (c # s) = 0"
  using assms by (auto simp: ascii_defs ws1_def dest!: ws2_cont ws3_cont split: list.split)

lemma trim_alnum: "s \<noteq> [] \<Longrightarrow> list_all is_ascii_alphanumeric s \<Longrightarrow> trim s = s"
proof -
  assume s: "s \<noteq> []" "list_all is_ascii_alphanumeric s"
  then obtain a t where a: "s = a # t" by (cases s) auto
  from s obtain b r where b: "rev s = b # r" by (cases "rev s") auto
  have "is_ascii_alphanumeric a" using s a by simp
  moreover have "is_ascii_alphanumeric b" using s b by (metis list_all_iff list.set_intros(1) set_rev)
  ultimately have "ws_len s = 0" "ws_len_rev (rev s) = 0" by (simp_all only: a b [unfolded a] alnum_ends)
  then show ?thesis by (simp add: trim_def trim_start_id trim_end_def trim_end_rev.simps [of "rev s"])
qed

lemma duration_unit_shape:
  assumes "duration_unit u = Some f"
  shows "u \<noteq> [] \<and> list_all is_ascii_alphabetic u \<and> 1 \<le> f"
proof -
  have "list_all (\<lambda>u. u \<noteq> [] \<and> list_all is_ascii_alphabetic u)
      [''ms'', ''s'', ''sec'', ''m'', ''min'', ''h'', ''hr'', ''d'']" by code_simp
  moreover have "u \<in> set [''ms'', ''s'', ''sec'', ''m'', ''min'', ''h'', ''hr'', ''d''] \<and> 1 \<le> f"
    using assms by (simp add: duration_unit_def split: if_splits) blast+
  ultimately show ?thesis unfolding list_all_iff by blast
qed

text \<open>
  A number followed by a unit is read as that many milliseconds, for every unit and
  every number, and is refused exactly when the product does not fit 64 bits: an
  oversized limit is an error and never a wrapped one.
\<close>

theorem duration_text_roundtrip:
  assumes "duration_unit u = Some f"
  shows "parse_duration (decimal n @ u) = (if int n * f \<le> U64_MAX then Some (int n * f) else None)"
proof -
  note u = duration_unit_shape [OF assms] and d = decimal_digits [of n]
  have digit: "is_ascii_digit c \<Longrightarrow> \<not> is_ascii_alphabetic c" for c by (auto simp: ascii_defs)
  have alnum: "list_all is_ascii_alphanumeric (decimal n)" "list_all is_ascii_alphanumeric u"
    using u d by (auto simp: list_all_iff is_ascii_alphanumeric_def)
  have "position is_ascii_alphabetic (decimal n @ u) = Some (length (decimal n))"
    using u d digit by (cases u) (auto simp: list_all_iff intro!: position_append_hit)
  moreover have "int n \<le> int n * f" using u by (simp add: mult_le_cancel_left1)
  ultimately show ?thesis
    using u d alnum assms by (simp add: parse_duration_def Let_def trim_alnum checked_mul_u64_def parse_unsigned_decimal)
qed

theorem duration_text_roundtrip_witness:
  "parse_duration (decimal 5 @ ''min'') = Some 300000 \<and> parse_duration (decimal 18446744073709551615 @ ''s'') = None"
proof -
  have "duration_unit ''min'' = Some 60000" "duration_unit ''s'' = Some 1000" by (simp_all add: duration_unit_def)
  from this [THEN duration_text_roundtrip] show ?thesis by (simp add: U64_MAX_def)
qed

end
