(* ===== verification/Secrets.thy ===== *)
theory Secrets
  imports Btree Rust_Str Utf8
begin

text \<open>
  The secret store and the master key (\<open>havuz-secrets/src/store.rs\<close>, \<open>key.rs\<close>). AES-256-GCM,
  SHA-256 and base64 come from libraries: they are the fields of a record that every
  operation takes, and what is relied on is stated where it is used. Bytes are characters.
  The random nonce of a seal is an argument. The results: what is put is what is got, a
  sealed value opens in its own slot only, and rotation re-seals every entry or fails
  without touching the store.
\<close>

section \<open>Libraries\<close>

record Crypto =
  aes_encrypt :: "string \<Rightarrow> string \<Rightarrow> string \<Rightarrow> string \<Rightarrow> string option"  \<comment> \<open>key, nonce, associated data, message\<close>
  aes_decrypt :: "string \<Rightarrow> string \<Rightarrow> string \<Rightarrow> string \<Rightarrow> string option"  \<comment> \<open>key, nonce, associated data, ciphertext\<close>
  sha256 :: "string \<Rightarrow> string"
  b64_encode :: "string \<Rightarrow> string"
  b64_decode :: "string \<Rightarrow> string + string"                                  \<comment> \<open>the error, or the bytes\<close>
  hmac_sha256 :: "string \<Rightarrow> string \<Rightarrow> string"
  saslprep :: "string \<Rightarrow> string option"

text \<open>Decryption undoes encryption.\<close>

definition aead_opens :: "Crypto \<Rightarrow> bool" where
  "aead_opens c \<longleftrightarrow> (\<forall>k n a m ct. aes_encrypt c k n a m = Some ct \<longrightarrow> aes_decrypt c k n a ct = Some m)"

text \<open>A ciphertext opens only under the associated data it was made with.\<close>

definition aead_binds :: "Crypto \<Rightarrow> bool" where
  "aead_binds c \<longleftrightarrow> (\<forall>k n a m ct a' m'. aes_encrypt c k n a m = Some ct \<longrightarrow> aes_decrypt c k n a' ct = Some m' \<longrightarrow> a' = a)"

section \<open>Master keys\<close>

definition NONCE_LEN :: nat where "NONCE_LEN = 12"
definition KEY_LEN :: nat where "KEY_LEN = 32"

datatype MasterKeyError = KMissing | BadLength nat | BadEncoding string | SealFailed | OpenFailed

type_synonym MasterKey = string

definition key_from_base64 :: "Crypto \<Rightarrow> string \<Rightarrow> MasterKeyError + MasterKey" where
  "key_from_base64 c encoded =
     (case b64_decode c (trim encoded) of
        Inl e \<Rightarrow> Inl (BadEncoding e)
      | Inr bs \<Rightarrow> if length bs = KEY_LEN then Inr bs else Inl (BadLength (length bs)))"

definition key_from_env :: "Crypto \<Rightarrow> string option \<Rightarrow> MasterKeyError + MasterKey" where
  "key_from_env c var = (case var of None \<Rightarrow> Inl KMissing | Some raw \<Rightarrow> key_from_base64 c raw)"

definition key_to_base64 :: "Crypto \<Rightarrow> MasterKey \<Rightarrow> string" where
  "key_to_base64 c k = b64_encode c k"

definition hex_nibble :: "nat \<Rightarrow> char" where
  "hex_nibble n = ''0123456789abcdef'' ! n"

definition hex :: "string \<Rightarrow> string" where
  "hex bs = concat (map (\<lambda>b. [hex_nibble (byte b div 16), hex_nibble (byte b mod 16)]) bs)"

definition key_id :: "Crypto \<Rightarrow> MasterKey \<Rightarrow> string" where
  "key_id c k = hex (take 6 (sha256 c (''havuz-master-key-id'' @ [CHR 0x00] @ k)))"

definition seal :: "Crypto \<Rightarrow> MasterKey \<Rightarrow> string \<Rightarrow> string \<Rightarrow> string \<Rightarrow> MasterKeyError + string \<times> string" where
  "seal c k nonce plaintext aad =
     (case aes_encrypt c k nonce aad plaintext of None \<Rightarrow> Inl SealFailed | Some ct \<Rightarrow> Inr (ct, nonce))"

definition open_sealed :: "Crypto \<Rightarrow> MasterKey \<Rightarrow> string \<Rightarrow> string \<Rightarrow> string \<Rightarrow> MasterKeyError + string" where
  "open_sealed c k ciphertext nonce aad =
     (case aes_decrypt c k nonce aad ciphertext of None \<Rightarrow> Inl OpenFailed | Some m \<Rightarrow> Inr m)"

section \<open>References\<close>

text \<open>Kind, owner and field; references compare by them in that order.\<close>

type_synonym SecretRef = "string \<times> string \<times> string"

definition as_key :: "SecretRef \<Rightarrow> string" where
  "as_key r = (case r of (kind, owner, field) \<Rightarrow> kind @ ''/'' @ owner @ ''/'' @ field)"

datatype StoreError =
  NotFound string
  | MalformedRef string
  | BadNonce string nat
  | NotUtf8 string
  | KeyError MasterKeyError

definition split_once :: "char \<Rightarrow> string \<Rightarrow> (string \<times> string) option" where
  "split_once sep s = (case position (\<lambda>c. c = sep) s of None \<Rightarrow> None | Some i \<Rightarrow> Some (take i s, drop (i + 1) s))"

text \<open>\<open>splitn(3, '/')\<close>: the third part keeps the slashes that are left.\<close>

definition ref_of_string :: "string \<Rightarrow> StoreError + SecretRef" where
  "ref_of_string value =
     (case split_once CHR ''/'' value of
        None \<Rightarrow> Inl (MalformedRef value)
      | Some (kind, r) \<Rightarrow>
          (case split_once CHR ''/'' r of
             None \<Rightarrow> Inl (MalformedRef value)
           | Some (owner, field) \<Rightarrow>
               if kind \<noteq> [] \<and> owner \<noteq> [] \<and> field \<noteq> [] then Inr (kind, owner, field) else Inl (MalformedRef value)))"

definition pool_backend_password :: "string \<Rightarrow> SecretRef" where
  "pool_backend_password pool = (''pool'', pool, ''backend_password'')"

definition user_verifier :: "string \<Rightarrow> SecretRef" where
  "user_verifier user = (''user'', user, ''scram_verifier'')"

section \<open>The store\<close>

record SealedSecret =
  ss_key_id :: string
  ss_nonce :: string
  ss_ciphertext :: string

type_synonym SecretStore = "(SecretRef, SealedSecret) btree"

definition put :: "Crypto \<Rightarrow> MasterKey \<Rightarrow> string \<Rightarrow> SecretRef \<Rightarrow> string \<Rightarrow> SecretStore \<Rightarrow> StoreError + SecretStore" where
  "put c k nonce r plaintext store =
     (case seal c k nonce plaintext (as_key r) of
        Inl e \<Rightarrow> Inl (KeyError e)
      | Inr (ct, n) \<Rightarrow> Inr (btree_insert r \<lparr>ss_key_id = key_id c k, ss_nonce = n, ss_ciphertext = ct\<rparr> store))"

definition get :: "Crypto \<Rightarrow> MasterKey \<Rightarrow> SecretRef \<Rightarrow> SecretStore \<Rightarrow> StoreError + string" where
  "get c k r store =
     (case map_of store r of
        None \<Rightarrow> Inl (NotFound (as_key r))
      | Some s \<Rightarrow>
          if length (ss_nonce s) \<noteq> NONCE_LEN then Inl (BadNonce (as_key r) (length (ss_nonce s)))
          else (case open_sealed c k (ss_ciphertext s) (ss_nonce s) (as_key r) of
              Inl e \<Rightarrow> Inl (KeyError e)
            | Inr bs \<Rightarrow> if utf8_valid bs then Inr bs else Inl (NotUtf8 (as_key r))))"

definition remove_secret :: "SecretRef \<Rightarrow> SecretStore \<Rightarrow> SecretStore \<times> bool" where
  "remove_secret r store = (btree_remove r store, map_of store r \<noteq> None)"

definition retain_owners :: "string \<Rightarrow> string list \<Rightarrow> SecretStore \<Rightarrow> SecretStore \<times> nat" where
  "retain_owners kind live store =
     (let kept = filter (\<lambda>((k, owner, _), _). k \<noteq> kind \<or> owner \<in> set live) store
      in (kept, length store - length kept))"

text \<open>The loop of \<open>rotate\<close> over the entries, building the new map; one nonce per entry.\<close>

fun rotate_loop ::
  "Crypto \<Rightarrow> MasterKey \<Rightarrow> MasterKey \<Rightarrow> (SecretRef \<Rightarrow> string) \<Rightarrow> SecretStore \<Rightarrow> SecretStore \<Rightarrow> SecretStore \<Rightarrow> StoreError + SecretStore"
where
  "rotate_loop c old new nonces store [] rotated = Inr rotated"
| "rotate_loop c old new nonces store ((r, _) # es) rotated =
     (case get c old r store of
        Inl e \<Rightarrow> Inl e
      | Inr plaintext \<Rightarrow>
          (case seal c new (nonces r) plaintext (as_key r) of
             Inl e \<Rightarrow> Inl (KeyError e)
           | Inr (ct, n) \<Rightarrow>
               rotate_loop c old new nonces store es
                 (btree_insert r \<lparr>ss_key_id = key_id c new, ss_nonce = n, ss_ciphertext = ct\<rparr> rotated)))"

text \<open>The store afterwards and the result.\<close>

definition rotate_secrets ::
  "Crypto \<Rightarrow> MasterKey \<Rightarrow> MasterKey \<Rightarrow> (SecretRef \<Rightarrow> string) \<Rightarrow> SecretStore \<Rightarrow> SecretStore \<times> (StoreError + nat)"
where
  "rotate_secrets c old new nonces store =
     (case rotate_loop c old new nonces store store [] of
        Inl e \<Rightarrow> (store, Inl e)
      | Inr rotated \<Rightarrow> (rotated, Inr (length rotated)))"

definition stale_refs :: "Crypto \<Rightarrow> MasterKey \<Rightarrow> SecretStore \<Rightarrow> SecretRef list" where
  "stale_refs c k store = map fst (filter (\<lambda>(_, s). ss_key_id s \<noteq> key_id c k) store)"

section \<open>References round-trip\<close>

definition plain_part :: "string \<Rightarrow> bool" where
  "plain_part s \<longleftrightarrow> s \<noteq> [] \<and> CHR ''/'' \<notin> set s"

definition plain_ref :: "SecretRef \<Rightarrow> bool" where
  "plain_ref r \<longleftrightarrow> (case r of (kind, owner, field) \<Rightarrow> plain_part kind \<and> plain_part owner \<and> field \<noteq> [])"

lemma split_once_append: "sep \<notin> set a \<Longrightarrow> split_once sep (a @ sep # b) = Some (a, b)"
  using position_append_hit [of a "\<lambda>c. c = sep" sep b] by (fastforce simp: split_once_def)

lemma ref_of_as_key: "plain_ref r \<Longrightarrow> ref_of_string (as_key r) = Inr r"
  by (cases r) (simp add: plain_ref_def plain_part_def as_key_def ref_of_string_def split_once_append)

interpretation secret_ref: codec as_key "\<lambda>s. case ref_of_string s of Inr r \<Rightarrow> Some r | Inl _ \<Rightarrow> None" plain_ref
  by unfold_locales (simp add: ref_of_as_key)

section \<open>What is put is what is got\<close>

lemma get_sealed:
  assumes "aead_opens c" "seal c k nonce m (as_key r) = Inr (ct, n)" "length nonce = NONCE_LEN" "utf8_valid m"
    and "map_of store r = Some \<lparr>ss_key_id = i, ss_nonce = n, ss_ciphertext = ct\<rparr>"
  shows "get c k r store = Inr m"
  using assms by (auto simp: get_def seal_def open_sealed_def aead_opens_def split: option.splits)

text \<open>
  A secret that was put is got back unchanged with the same key, every other entry is
  as it was, and moved to another slot the sealed value does not open: it is bound to its
  reference.
\<close>

theorem secret_roundtrip:
  assumes lib: "aead_opens c" "aead_binds c"
    and store: "btree store" and m: "utf8_valid m" "length nonce = NONCE_LEN"
    and put: "put c k nonce r m store = Inr store'"
  shows "get c k r store' = Inr m
    \<and> (\<forall>r'. r' \<noteq> r \<longrightarrow> map_of store' r' = map_of store r')
    \<and> (\<forall>r' s' b. plain_ref r \<and> plain_ref r' \<and> r' \<noteq> r \<and> map_of s' r' = map_of store' r \<longrightarrow> get c k r' s' \<noteq> Inr b)"
proof -
  from put obtain ct n where seal: "seal c k nonce m (as_key r) = Inr (ct, n)"
    and s': "store' = btree_insert r \<lparr>ss_key_id = key_id c k, ss_nonce = n, ss_ciphertext = ct\<rparr> store"
    by (auto simp: put_def split: sum.splits)
  have at: "map_of store' r = Some \<lparr>ss_key_id = key_id c k, ss_nonce = n, ss_ciphertext = ct\<rparr>"
    using store s' by simp
  have enc: "aes_encrypt c k nonce (as_key r) m = Some ct" "n = nonce"
    using seal by (auto simp: seal_def split: option.splits)
  have "get c k r' x \<noteq> Inr b" if "plain_ref r" "plain_ref r'" "r' \<noteq> r" "map_of x r' = map_of store' r" for r' x b
  proof -
    have "as_key r' \<noteq> as_key r" using that secret_ref.enc_inj by blast
    then have "aes_decrypt c k nonce (as_key r') ct = None"
      using lib(2) enc unfolding aead_binds_def by (metis not_None_eq)
    then show ?thesis using that at enc by (simp add: get_def open_sealed_def)
  qed
  then show ?thesis using get_sealed [OF lib(1) seal m(2,1) at] store s' by auto
qed

section \<open>Rotation\<close>

lemma rotate_loop_Inr:
  assumes "rotate_loop c old new nonces store es rotated = Inr out" "aead_opens c" "btree rotated"
    and "\<forall>r. length (nonces r) = NONCE_LEN"
  shows "btree out \<and> fst ` set out = fst ` set rotated \<union> fst ` set es
    \<and> (\<forall>r. r \<notin> fst ` set es \<longrightarrow> map_of out r = map_of rotated r)
    \<and> (\<forall>r \<in> fst ` set es. get c new r out = get c old r store \<and> (\<exists>m. get c old r store = Inr m)
        \<and> (\<exists>s. map_of out r = Some s \<and> ss_key_id s = key_id c new))"
  using assms
proof (induction c old new nonces store es rotated rule: rotate_loop.induct)
  case (2 c old new nonces store r uu es rotated)
  from 2(2) obtain m ct n where m: "get c old r store = Inr m"
    and seal: "seal c new (nonces r) m (as_key r) = Inr (ct, n)"
    by (auto split: sum.splits)
  let ?e = "\<lparr>ss_key_id = key_id c new, ss_nonce = n, ss_ciphertext = ct\<rparr>"
  let ?rot = "btree_insert r ?e rotated"
  have u: "utf8_valid m" using m by (auto simp: get_def split: option.splits sum.splits if_splits)
  have rec: "rotate_loop c old new nonces store es ?rot = Inr out" using 2(2) m seal by simp
  note IH = 2(1) [OF m seal refl rec 2(3) btree_insert [OF 2(4)] 2(5)]
  have keys: "fst ` set out = fst ` set rotated \<union> insert r (fst ` set es)"
    using IH by (auto simp: set_btree_insert)
  have here: "get c new r out = Inr m \<and> (\<exists>s. map_of out r = Some s \<and> ss_key_id s = key_id c new)"
  proof (cases "r \<in> fst ` set es")
    case True
    then show ?thesis using IH m by auto
  next
    case False
    then have "map_of out r = map_of ?rot r" using IH by blast
    then have "map_of out r = Some ?e" using 2(4) by simp
    then show ?thesis using get_sealed [OF 2(3) seal _ u] 2(5) by auto
  qed
  then show ?case using IH keys m 2(4) by auto
qed simp

lemma rotate_loop_succeeds:
  assumes "\<forall>r \<in> set (map fst es). \<exists>m. get c old r store = Inr m"
    and "\<forall>n a m. aes_encrypt c new n a m \<noteq> None"
  shows "\<exists>out. rotate_loop c old new nonces store es rotated = Inr out"
  using assms
proof (induction es arbitrary: rotated)
  case (Cons e es)
  obtain r s where e: "e = (r, s)" by (cases e)
  obtain m where m: "get c old r store = Inr m" using Cons.prems(1) e by auto
  obtain ct where "aes_encrypt c new (nonces r) (as_key r) m = Some ct" using Cons.prems(2) by blast
  then have "seal c new (nonces r) m (as_key r) = Inr (ct, nonces r)" by (simp add: seal_def)
  with m e Cons show ?case by simp
qed simp

lemma no_stale_refs:
  assumes "btree store" "\<forall>r \<in> fst ` set store. \<exists>s. map_of store r = Some s \<and> ss_key_id s = key_id c k"
  shows "stale_refs c k store = []"
proof -
  have "ss_key_id s = key_id c k" if "(r, s) \<in> set store" for r s
  proof -
    have "r \<in> fst ` set store" using that by (force simp: image_iff)
    moreover have "map_of store r = Some s" using btree_lookup assms(1) that by fast
    ultimately show ?thesis using assms(2) by fastforce
  qed
  then show ?thesis unfolding stale_refs_def by (auto simp: filter_empty_conv)
qed

text \<open>
  Rotation re-seals every entry under the new key with the same plaintext, adds and
  drops none, and leaves none stale; when it fails the store is untouched. It succeeds
  whenever every entry opens under the old key and the cipher does not refuse to seal.
\<close>

theorem rotation_keeps_every_secret:
  assumes lib: "aead_opens c" and store: "btree store" and nonces: "\<forall>r. length (nonces r) = NONCE_LEN"
    and rot: "rotate_secrets c old new nonces store = (store', res)"
  shows "(case res of
      Inl e \<Rightarrow> store' = store
    | Inr n \<Rightarrow> n = length store \<and> map fst store' = map fst store \<and> stale_refs c new store' = []
        \<and> (\<forall>r \<in> set (map fst store). \<exists>m. get c old r store = Inr m \<and> get c new r store' = Inr m))
    \<and> ((\<forall>r \<in> set (map fst store). \<exists>m. get c old r store = Inr m) \<and> (\<forall>n a m. aes_encrypt c new n a m \<noteq> None)
        \<longrightarrow> \<not> isl res)"
proof (cases "rotate_loop c old new nonces store store []")
  case (Inr out)
  note R = rotate_loop_Inr [OF Inr lib btree_Nil nonces]
  have out: "store' = out" "res = Inr (length out)" using rot Inr by (auto simp: rotate_secrets_def)
  have set: "fst ` set out = fst ` set store" using R by simp
  have keys: "map fst out = map fst store"
  proof (rule sorted_distinct_set_unique)
    show "set (map fst out) = set (map fst store)" using set by simp
  qed (use R store in \<open>simp_all add: btree_def\<close>)
  have "stale_refs c new out = []" using R set by (intro no_stale_refs) simp_all
  moreover have "length out = length store" using keys by (metis length_map)
  moreover have "\<forall>r \<in> set (map fst store). \<exists>m. get c old r store = Inr m \<and> get c new r out = Inr m"
    using R by (metis set_map)
  ultimately show ?thesis using keys out by simp
next
  case (Inl e)
  then have "store' = store" "res = Inl e" using rot by (simp_all add: rotate_secrets_def)
  moreover have "\<not> ((\<forall>r \<in> set (map fst store). \<exists>m. get c old r store = Inr m) \<and> (\<forall>n a m. aes_encrypt c new n a m \<noteq> None))"
    using rotate_loop_succeeds [of store c old store new nonces "[]"] Inl by force
  ultimately show ?thesis by simp
qed

section \<open>An instance\<close>

text \<open>
  A cipher that puts the key, the nonce and the associated data before the message, each
  with its length, and checks them on the way back.
\<close>

definition sized :: "string \<Rightarrow> string" where
  "sized s = replicate (length s) CHR ''x'' @ CHR '','' # s"

definition tagged :: "string \<Rightarrow> string \<Rightarrow> string \<Rightarrow> string" where
  "tagged k n a = sized k @ sized n @ sized a"

definition tag_cipher :: Crypto where
  "tag_cipher =
     \<lparr>aes_encrypt = (\<lambda>k n a m. Some (tagged k n a @ m)),
      aes_decrypt = (\<lambda>k n a ct.
        if take (length (tagged k n a)) ct = tagged k n a then Some (drop (length (tagged k n a)) ct) else None),
      sha256 = id, b64_encode = id, b64_decode = Inr, hmac_sha256 = (@), saslprep = Some\<rparr>"

lemma sized_prefix:
  assumes "sized a @ r = sized b @ t"
  shows "a = b"
proof -
  have *: "takeWhile (\<lambda>c. c = CHR ''x'') (sized s @ u) = replicate (length s) CHR ''x''" for s u
    unfolding sized_def append_assoc by (subst takeWhile_append2) auto
  have "replicate (length a) CHR ''x'' = replicate (length b) CHR ''x''" using * assms by metis
  then have "length a = length b" by (metis length_replicate)
  with assms show ?thesis by (simp add: sized_def)
qed

lemma tag_cipher_encrypt: "aes_encrypt tag_cipher k n a m = Some ct \<longleftrightarrow> ct = tagged k n a @ m"
  by (simp add: tag_cipher_def eq_commute)

lemma tag_cipher_decrypt:
  "aes_decrypt tag_cipher k n a ct =
     (if take (length (tagged k n a)) ct = tagged k n a then Some (drop (length (tagged k n a)) ct) else None)"
  by (simp add: tag_cipher_def)

lemma tagged_prefix:
  assumes "take (length (tagged k n a')) (tagged k n a @ m) = tagged k n a'"
  shows "a' = a"
proof -
  have "tagged k n a' @ drop (length (tagged k n a')) (tagged k n a @ m) = tagged k n a @ m"
    using assms by (metis append_take_drop_id)
  then show ?thesis unfolding tagged_def append_assoc same_append_eq by (rule sized_prefix)
qed

lemma tag_cipher_ok: "aead_opens tag_cipher" "aead_binds tag_cipher"
  unfolding aead_opens_def aead_binds_def tag_cipher_encrypt tag_cipher_decrypt
  by simp (metis tagged_prefix option.distinct(1))

definition example_store :: SecretStore where
  "example_store =
     [((''pool'', ''main'', ''backend_password''),
       \<lparr>ss_key_id = key_id tag_cipher ''k1'', ss_nonce = replicate 12 CHR ''n'',
        ss_ciphertext = tagged ''k1'' (replicate 12 CHR ''n'') ''pool/main/backend_password'' @ ''hunter2''\<rparr>)]"

lemma example_put:
  "put tag_cipher ''k1'' (replicate 12 CHR ''n'') (pool_backend_password ''main'') ''hunter2'' [] = Inr example_store"
  by code_simp

theorem secret_roundtrip_witness:
  "get tag_cipher ''k1'' (pool_backend_password ''main'') example_store = Inr ''hunter2''"
proof -
  have "utf8_valid ''hunter2''" by code_simp
  then show ?thesis using secret_roundtrip [OF tag_cipher_ok btree_Nil _ _ example_put] by (simp add: NONCE_LEN_def)
qed

theorem rotation_keeps_every_secret_witness:
  "get tag_cipher ''k2'' (pool_backend_password ''main'')
     (fst (rotate_secrets tag_cipher ''k1'' ''k2'' (\<lambda>_. replicate 12 CHR ''m'') example_store)) = Inr ''hunter2''"
proof -
  let ?r = "rotate_secrets tag_cipher ''k1'' ''k2'' (\<lambda>_. replicate 12 CHR ''m'') example_store"
  have b: "btree example_store" by (simp add: example_store_def btree_def)
  have n: "\<forall>r. length ((\<lambda>_::SecretRef. replicate 12 CHR ''m'') r) = NONCE_LEN" by (simp add: NONCE_LEN_def)
  have ok: "\<not> isl (snd ?r)" by code_simp
  have g: "get tag_cipher ''k1'' (pool_backend_password ''main'') example_store = Inr ''hunter2''" by code_simp
  have at: "pool_backend_password ''main'' \<in> set (map fst example_store)"
    by (simp add: example_store_def pool_backend_password_def)
  obtain n where "snd ?r = Inr n" using ok by (cases "snd ?r") auto
  then have "?r = (fst ?r, Inr n)" by (metis prod.collapse)
  from rotation_keeps_every_secret [OF tag_cipher_ok(1) b n this] at
  obtain m where "get tag_cipher ''k1'' (pool_backend_password ''main'') example_store = Inr m"
    "get tag_cipher ''k2'' (pool_backend_password ''main'') (fst ?r) = Inr m" by fastforce
  with g show ?thesis by simp
qed

end
