(* ===== verification/Config.thy ===== *)
theory Config
  imports Registry Pool Routing Secrets
begin

text \<open>
  The configuration document (\<open>havuz-core/src/state.rs\<close>): pools, users, what makes a
  document valid, the listeners it asks for and the warnings it gets. \<open>fan_in\<close>, a floating
  point ratio shown in the dashboard, is left out, and so are the descriptions, which
  nothing reads. The results: in a valid document every name a client may send on a port
  reaches one pool, a port speaks one protocol, and every pool can be run as configured.
\<close>

section \<open>Pools and users\<close>

datatype TargetRole = RolePrimary | RoleReplica

record Target =
  t_host :: string
  t_port :: u16
  t_role :: TargetRole
  t_weight :: u32

definition new_target :: "string \<Rightarrow> u16 \<Rightarrow> Target" where
  "new_target host port = \<lparr>t_host = host, t_port = port, t_role = RolePrimary, t_weight = 1\<rparr>"

definition address :: "Target \<Rightarrow> string" where
  "address t = t_host t @ '':'' @ decimal (unat (t_port t))"

datatype BackendAuth = Shared | PerUser | Passthrough

fun is_per_user :: "BackendAuth \<Rightarrow> bool" where
  "is_per_user Shared = False"
| "is_per_user PerUser = True"
| "is_per_user Passthrough = True"

definition is_passthrough :: "BackendAuth \<Rightarrow> bool" where
  "is_passthrough a \<longleftrightarrow> a = Passthrough"

fun auth_as_str :: "BackendAuth \<Rightarrow> string" where
  "auth_as_str Shared = ''shared''"
| "auth_as_str PerUser = ''per_user''"
| "auth_as_str Passthrough = ''passthrough''"

datatype TraceLevel = TraceOff | TraceStatements | TraceFull

definition trace_is_off :: "TraceLevel \<Rightarrow> bool" where
  "trace_is_off l \<longleftrightarrow> l = TraceOff"

definition captures_results :: "TraceLevel \<Rightarrow> bool" where
  "captures_results l \<longleftrightarrow> l = TraceFull"

fun trace_as_str :: "TraceLevel \<Rightarrow> string" where
  "trace_as_str TraceOff = ''off''"
| "trace_as_str TraceStatements = ''statements''"
| "trace_as_str TraceFull = ''full''"

text \<open>Durations here count nanoseconds, as everywhere in the development.\<close>

definition secs :: "nat \<Rightarrow> duration" where
  "secs n = n * 1000000000"

definition default_routing :: RoutingConfig where
  "default_routing =
     \<lparr>read_write_split = False, sticky_after_write = secs 10, max_replica_lag = Some (secs 5),
      health_interval = secs 5, rc_failure_threshold = 3, recovery_cooldown = secs 10\<rparr>"

definition default_limits :: PoolLimits where
  "default_limits =
     \<lparr>max_size = 10, min_idle = 0, max_client_connections = 100, queue_timeout = secs 5, connect_timeout = secs 5,
      idle_timeout = secs 600, max_lifetime = secs 1800, idle_in_transaction_timeout = 0\<rparr>"

record PoolConfig =
  pc_family :: string
  pc_profile :: "string option"
  pc_mode :: PoolMode
  pc_targets :: "Target list"
  pc_backend_user :: string
  pc_database :: string
  pc_listen_port :: u16
  pc_aliases :: "string list"
  pc_limits :: PoolLimits
  pc_settings :: "(string, Json) btree"
  pc_routing :: RoutingConfig
  pc_backend_auth :: BackendAuth
  pc_allow_password_without_tls :: bool
  pc_read_only :: bool
  pc_trace :: TraceLevel
  pc_disabled :: bool

record UserConfig =
  uc_pools :: "string list"
  uc_max_client_connections :: u32
  uc_own_backend_role :: bool
  uc_read_only :: bool
  uc_disabled :: bool

definition new_user :: "string list \<Rightarrow> UserConfig" where
  "new_user pools =
     \<lparr>uc_pools = pools, uc_max_client_connections = 0, uc_own_backend_role = False, uc_read_only = False,
      uc_disabled = False\<rparr>"

record State =
  st_version :: u32
  st_pools :: "(string, PoolConfig) btree"
  st_users :: "(string, UserConfig) btree"
  st_secrets :: SecretStore

definition STATE_VERSION :: u32 where
  "STATE_VERSION = 1"

definition default_state :: State where
  "default_state = \<lparr>st_version = STATE_VERSION, st_pools = [], st_users = [], st_secrets = []\<rparr>"

subsection \<open>What a pool offers\<close>

definition pool_profile :: "PoolConfig \<Rightarrow> DriverProfile option" where
  "pool_profile p =
     (case family (pc_family p) of
        None \<Rightarrow> None
      | Some f \<Rightarrow>
          Some (case pc_profile p of
              Some i \<Rightarrow> (case profile_of f i of Some d \<Rightarrow> d | None \<Rightarrow> default_profile f)
            | None \<Rightarrow> default_profile f))"

definition pool_reset_query :: "PoolConfig \<Rightarrow> string option" where
  "pool_reset_query p =
     (let configured =
            (case Option.bind (map_of (pc_settings p) ''reset_query'') json_str of
               Some s \<Rightarrow> if trim s = [] then None else Some (trim s)
             | None \<Rightarrow> None)
      in case configured of
           Some sql \<Rightarrow> Some sql
         | None \<Rightarrow> Option.bind (pool_profile p) (\<lambda>d. SessionRules.reset_query (q_session (dp_quirks d))))"

definition recycles :: "PoolConfig \<Rightarrow> bool" where
  "recycles p =
     (case family (pc_family p) of
        None \<Rightarrow> True
      | Some f \<Rightarrow>
          if \<not> list_ex (\<lambda>c. cf_name c = ''reset_query'') (fd_config_fields f) then True
          else pool_reset_query p \<noteq> None)"

definition backend_ceiling :: "PoolConfig \<Rightarrow> u32 option" where
  "backend_ceiling p = (if is_per_user (pc_backend_auth p) then None else Some (max_size (pc_limits p)))"

definition primary_target :: "PoolConfig \<Rightarrow> Target option" where
  "primary_target p =
     (case List.find (\<lambda>t. t_role t = RolePrimary) (pc_targets p) of
        Some t \<Rightarrow> Some t
      | None \<Rightarrow> (case pc_targets p of t # _ \<Rightarrow> Some t | [] \<Rightarrow> None))"

definition replica_targets :: "PoolConfig \<Rightarrow> Target list" where
  "replica_targets p = filter (\<lambda>t. t_role t = RoleReplica) (pc_targets p)"

section \<open>Validation\<close>

datatype StateError =
  UnsupportedVersion u32 u32
  | BadPoolName string
  | BadUserName string
  | UnknownFamily string string
  | UnknownProfile string string string
  | FamilyNotImplemented string string
  | PoolModeUnsupported string string string string
  | PoolModeTooAggressive string string string string
  | NoTargets string
  | MinIdleAboveMax string u32 u32
  | ZeroMaxSize string
  | ZeroListenPort string
  | MixedFamiliesOnPort string string string string u16
  | BadAliasName string string
  | AliasIsOwnPool string string
  | RoutableNameCollides string u16 string string
  | PerUserWarmup string
  | PerUserSplitWithoutProbe string
  | UnknownPoolGrant string string
  | NoGrants string

definition is_valid_name :: "string \<Rightarrow> bool" where
  "is_valid_name name \<longleftrightarrow>
     name \<noteq> [] \<and> length name \<le> 63
     \<and> list_all (\<lambda>c. is_ascii_alphanumeric c \<or> c = CHR ''_'' \<or> c = CHR ''-'') name
     \<and> is_ascii_alphanumeric (hd name)"

definition mode_check :: "PoolConfig \<Rightarrow> string \<Rightarrow> FamilyDescriptor \<Rightarrow> DriverProfile \<Rightarrow> StateError option" where
  "mode_check p name f d =
     (if pc_mode p \<notin> set (fd_pool_modes f)
      then Some (PoolModeUnsupported name (pc_family p) (mode_as_str (pc_mode p)) (join '', '' (map mode_as_str (fd_pool_modes f))))
      else if mode_rank (pc_mode p) > mode_rank (q_max_pool_mode (dp_quirks d))
      then Some (PoolModeTooAggressive name (dp_id d) (mode_as_str (pc_mode p)) (mode_as_str (q_max_pool_mode (dp_quirks d))))
      else None)"

definition limits_check :: "PoolConfig \<Rightarrow> string \<Rightarrow> StateError option" where
  "limits_check p name =
     (if pc_targets p = [] then Some (NoTargets name)
      else if max_size (pc_limits p) = 0 then Some (ZeroMaxSize name)
      else if min_idle (pc_limits p) > max_size (pc_limits p)
      then Some (MinIdleAboveMax name (min_idle (pc_limits p)) (max_size (pc_limits p)))
      else if is_per_user (pc_backend_auth p) then
        (if min_idle (pc_limits p) > 0 then Some (PerUserWarmup name)
         else if read_write_split (pc_routing p) \<and> pc_backend_user p = [] then Some (PerUserSplitWithoutProbe name)
         else None)
      else None)"

definition validate_pool :: "PoolConfig \<Rightarrow> string \<Rightarrow> StateError option" where
  "validate_pool p name =
     (case family (pc_family p) of
        None \<Rightarrow> Some (UnknownFamily name (pc_family p))
      | Some f \<Rightarrow>
          if fd_maturity f = Planned then Some (FamilyNotImplemented name (pc_family p))
          else (case (case pc_profile p of
                  Some i \<Rightarrow> (case profile_of f i of Some d \<Rightarrow> Inr d | None \<Rightarrow> Inl (UnknownProfile name (pc_family p) i))
                | None \<Rightarrow> Inr (default_profile f)) of
              Inl e \<Rightarrow> Some e
            | Inr d \<Rightarrow> or_else (mode_check p name f d) (limits_check p name)))"

subsection \<open>Listeners\<close>

text \<open>
  The first pass: ports are real, a port has one family, and every pool name is put into
  the table of names a client may send. The second pass adds the aliases.
\<close>

type_synonym routable = "(u16 \<times> string, string) btree"

fun claim_ports :: "(u16, string \<times> string) btree \<Rightarrow> routable \<Rightarrow> (string, PoolConfig) btree \<Rightarrow> StateError + routable" where
  "claim_ports ports rt [] = Inr rt"
| "claim_ports ports rt ((name, p) # ps) =
     (let port = pc_listen_port p in
      if port = 0 then Inl (ZeroListenPort name)
      else let (first, first_family) = (case map_of ports port of Some e \<Rightarrow> e | None \<Rightarrow> (name, pc_family p)) in
        if first_family \<noteq> pc_family p
        then Inl (MixedFamiliesOnPort first first_family name (pc_family p) port)
        else claim_ports (btree_insert port (first, first_family) ports) (btree_insert (port, name) name rt) ps)"

fun claim_aliases :: "string \<Rightarrow> u16 \<Rightarrow> routable \<Rightarrow> string list \<Rightarrow> StateError + routable" where
  "claim_aliases name port rt [] = Inr rt"
| "claim_aliases name port rt (a # as) =
     (if \<not> is_valid_name a then Inl (BadAliasName name a)
      else if a = name then Inl (AliasIsOwnPool name a)
      else case map_of rt (port, a) of
        Some other \<Rightarrow> Inl (RoutableNameCollides a port other name)
      | None \<Rightarrow> claim_aliases name port (btree_insert (port, a) name rt) as)"

fun claim_all_aliases :: "routable \<Rightarrow> (string, PoolConfig) btree \<Rightarrow> StateError + routable" where
  "claim_all_aliases rt [] = Inr rt"
| "claim_all_aliases rt ((name, p) # ps) =
     (case claim_aliases name (pc_listen_port p) rt (pc_aliases p) of
        Inl e \<Rightarrow> Inl e
      | Inr rt' \<Rightarrow> claim_all_aliases rt' ps)"

definition validate_listeners :: "State \<Rightarrow> StateError option" where
  "validate_listeners st =
     (case claim_ports [] [] (st_pools st) of
        Inl e \<Rightarrow> Some e
      | Inr rt \<Rightarrow> (case claim_all_aliases rt (st_pools st) of Inl e \<Rightarrow> Some e | Inr _ \<Rightarrow> None))"

definition validate_user :: "State \<Rightarrow> string \<Rightarrow> UserConfig \<Rightarrow> StateError option" where
  "validate_user st name u =
     (if \<not> is_valid_name name then Some (BadUserName name)
      else if uc_pools u = [] then Some (NoGrants name)
      else find_map (\<lambda>g. if map_of (st_pools st) g = None then Some (UnknownPoolGrant name g) else None) (uc_pools u))"

definition validate :: "State \<Rightarrow> StateError option" where
  "validate st =
     (if st_version st > STATE_VERSION then Some (UnsupportedVersion (st_version st) STATE_VERSION)
      else or_else (validate_listeners st)
        (or_else
          (find_map (\<lambda>(name, p). if \<not> is_valid_name name then Some (BadPoolName name) else validate_pool p name) (st_pools st))
          (find_map (\<lambda>(name, u). validate_user st name u) (st_users st))))"

section \<open>Listeners, warnings, grants\<close>

record Listener =
  ln_port :: u16
  ln_family :: string
  ln_pools :: "string list"
  ln_aliases :: "(string \<times> string) list"

definition sole_pool :: "Listener \<Rightarrow> string option" where
  "sole_pool l = (case ln_pools l of [only] \<Rightarrow> Some only | _ \<Rightarrow> None)"

definition add_to_listener :: "(u16, Listener) btree \<Rightarrow> string \<times> PoolConfig \<Rightarrow> (u16, Listener) btree" where
  "add_to_listener out = (\<lambda>(name, p).
     let l = (case map_of out (pc_listen_port p) of
                Some l \<Rightarrow> l
              | None \<Rightarrow> \<lparr>ln_port = pc_listen_port p, ln_family = pc_family p, ln_pools = [], ln_aliases = []\<rparr>)
     in btree_insert (pc_listen_port p)
          (l\<lparr>ln_pools := ln_pools l @ [name], ln_aliases := ln_aliases l @ map (\<lambda>a. (a, name)) (pc_aliases p)\<rparr>) out)"

definition enabled_pools :: "State \<Rightarrow> (string, PoolConfig) btree" where
  "enabled_pools st = filter (\<lambda>(_, p). \<not> pc_disabled p) (st_pools st)"

definition listeners :: "State \<Rightarrow> (u16, Listener) btree" where
  "listeners st =
     map (\<lambda>(port, l). (port, l\<lparr>ln_aliases := sort (ln_aliases l)\<rparr>)) (foldl add_to_listener [] (enabled_pools st))"

datatype Warning =
  SessionModeQueues string u32 u32
  | BackendsExceedClients string u32 u32
  | PoolWithoutUsers string
  | SplitWithoutReplicas string
  | IdleTimeoutInSessionMode string
  | ReadOnlyNotEnforced string bool "string list"
  | NoStickyWindow string
  | UsersWithoutBackendRole string "string list"
  | PasswordWithoutTls string
  | PassthroughPool string
  | PoolWithoutReset string

definition granted_users :: "(UserConfig \<Rightarrow> bool) \<Rightarrow> string \<Rightarrow> State \<Rightarrow> string list" where
  "granted_users ok name st = sort (map fst (filter (\<lambda>(_, u). ok u \<and> name \<in> set (uc_pools u)) (st_users st)))"

definition pool_warnings :: "State \<Rightarrow> string \<Rightarrow> PoolConfig \<Rightarrow> Warning list" where
  "pool_warnings st name p =
     (let clients = max_client_connections (pc_limits p);
          size = max_size (pc_limits p);
          shares = multiplexes (pc_mode p);
          auth = pc_backend_auth p;
          stranded = granted_users (\<lambda>u. \<not> uc_own_backend_role u) name st;
          readers = granted_users uc_read_only name st
      in (if \<not> shares \<and> clients > size then [SessionModeQueues name clients size] else [])
       @ (if clients < size then [BackendsExceedClients name clients size] else [])
       @ (if \<not> is_passthrough auth \<and> \<not> list_ex (\<lambda>(_, u). name \<in> set (uc_pools u)) (st_users st)
          then [PoolWithoutUsers name] else [])
       @ (if read_write_split (pc_routing p) \<and> replica_targets p = [] then [SplitWithoutReplicas name] else [])
       @ (if read_write_split (pc_routing p) \<and> sticky_after_write (pc_routing p) = 0 then [NoStickyWindow name] else [])
       @ (if is_per_user auth \<and> pc_allow_password_without_tls p then [PasswordWithoutTls name] else [])
       @ (if is_passthrough auth then [PassthroughPool name] else [])
       @ (if is_per_user auth \<and> pc_backend_user p = [] \<and> stranded \<noteq> [] then [UsersWithoutBackendRole name stranded] else [])
       @ (if \<not> shares \<and> idle_in_transaction_timeout (pc_limits p) \<noteq> 0 then [IdleTimeoutInSessionMode name] else [])
       @ (if \<not> shares then
            if pc_read_only p then [ReadOnlyNotEnforced name True []]
            else if readers \<noteq> [] then [ReadOnlyNotEnforced name False readers] else []
          else [])
       @ (if \<not> recycles p then [PoolWithoutReset name] else []))"

definition warnings :: "State \<Rightarrow> Warning list" where
  "warnings st = concat (map (\<lambda>(name, p). pool_warnings st name p) (st_pools st))"

definition pools_for_user :: "State \<Rightarrow> string \<Rightarrow> string list" where
  "pools_for_user st who =
     (case map_of (st_users st) who of
        None \<Rightarrow> []
      | Some u \<Rightarrow>
          if uc_disabled u then []
          else filter (\<lambda>g. case map_of (st_pools st) g of Some p \<Rightarrow> \<not> pc_disabled p | None \<Rightarrow> False) (uc_pools u))"


section \<open>A client's name\<close>

text \<open>
  The pools reachable through a listener (\<open>havuz-proto/src/family.rs\<close>, \<open>PoolRoute\<close>). A
  route without pools is a panic of the constructor: \<open>None\<close>.
\<close>

record PoolRoute =
  rt_pools :: "string list"
  rt_aliases :: "(string \<times> string) list"

definition with_aliases :: "string list \<Rightarrow> (string \<times> string) list \<Rightarrow> PoolRoute option" where
  "with_aliases pools als = (if pools = [] then None else Some \<lparr>rt_pools = pools, rt_aliases = als\<rparr>)"

definition sole :: "PoolRoute \<Rightarrow> string option" where
  "sole rt = (case rt_pools rt of [only] \<Rightarrow> Some only | _ \<Rightarrow> None)"

definition resolve :: "PoolRoute \<Rightarrow> string \<Rightarrow> string option" where
  "resolve rt asked =
     (case List.find (\<lambda>p. p = asked) (rt_pools rt) of
        Some p \<Rightarrow> Some p
      | None \<Rightarrow> map_option snd (List.find (\<lambda>(a, _). a = asked) (rt_aliases rt)))"

definition reachable :: "PoolRoute \<Rightarrow> string list" where
  "reachable rt = sort (rt_pools rt @ map fst (rt_aliases rt))"

section \<open>The tables of a valid document\<close>

abbreviation keys_of :: "('k, 'v) btree \<Rightarrow> 'k set" where
  "keys_of m \<equiv> fst ` set m"

definition name_key :: "string \<times> PoolConfig \<Rightarrow> u16 \<times> string" where
  "name_key e = (pc_listen_port (snd e), fst e)"

definition alias_keys :: "string \<times> PoolConfig \<Rightarrow> (u16 \<times> string) list" where
  "alias_keys e = map (Pair (pc_listen_port (snd e))) (pc_aliases (snd e))"

text \<open>The first pass: real ports, one family per port, and every pool name in the table.\<close>

lemma claim_ports_Inr:
  assumes "claim_ports ports rt ps = Inr rt'" "btree ports"
  shows "keys_of rt' = keys_of rt \<union> name_key ` set ps
    \<and> (\<forall>e \<in> set ps. pc_listen_port (snd e) \<noteq> 0
        \<and> (\<forall>f. map_of ports (pc_listen_port (snd e)) = Some f \<longrightarrow> snd f = pc_family (snd e)))
    \<and> (\<forall>d \<in> set ps. \<forall>e \<in> set ps. pc_listen_port (snd d) = pc_listen_port (snd e) \<longrightarrow> pc_family (snd d) = pc_family (snd e))"
  using assms
proof (induction ports rt ps rule: claim_ports.induct)
  case (2 ports rt name p ps)
  let ?port = "pc_listen_port p"
  let ?e = "case map_of ports ?port of Some e \<Rightarrow> e | None \<Rightarrow> (name, pc_family p)"
  obtain first ff where e: "?e = (first, ff)" by (cases ?e)
  have c: "?port \<noteq> 0" "\<not> ff \<noteq> pc_family p"
    "claim_ports (btree_insert ?port (first, ff) ports) (btree_insert (?port, name) name rt) ps = Inr rt'"
    using 2(2) e by (auto simp: Let_def split: if_splits)
  note IH = 2(1) [OF refl c(1) refl e [symmetric] c(2,3) btree_insert [OF 2(3)]]
  have keys: "keys_of rt' = keys_of rt \<union> name_key ` set ((name, p) # ps)"
    using conjunct1 [OF IH] by (auto simp: set_btree_insert name_key_def)
  have rest: "\<And>d. d \<in> set ps \<Longrightarrow> pc_listen_port (snd d) \<noteq> 0"
    "\<And>d f. d \<in> set ps \<Longrightarrow> map_of (btree_insert ?port (first, ff) ports) (pc_listen_port (snd d)) = Some f \<Longrightarrow>
      snd f = pc_family (snd d)"
    and pairs: "\<And>d e. d \<in> set ps \<Longrightarrow> e \<in> set ps \<Longrightarrow> pc_listen_port (snd d) = pc_listen_port (snd e) \<Longrightarrow>
      pc_family (snd d) = pc_family (snd e)"
    using IH by blast+
  have known: "snd f = pc_family p" if "map_of ports ?port = Some f" for f using that e c(2) by auto
  have fam: "pc_family (snd d) = pc_family p" if "d \<in> set ps" "pc_listen_port (snd d) = ?port" for d
    using rest(2) [OF that(1), of "(first, ff)"] that(2) c(2) 2(3) by simp
  have old: "snd f = pc_family (snd d)" if "d \<in> set ps" "map_of ports (pc_listen_port (snd d)) = Some f" for d f
    using rest(2) [OF that(1), of f] fam [OF that(1)] known [of f] that(2) 2(3)
    by (cases "pc_listen_port (snd d) = ?port") simp_all
  show ?case
  proof (intro conjI ballI allI impI)
    fix d e assume "d \<in> set ((name, p) # ps)" "e \<in> set ((name, p) # ps)" "pc_listen_port (snd d) = pc_listen_port (snd e)"
    then show "pc_family (snd d) = pc_family (snd e)" using pairs [of d e] fam [of d] fam [of e] by auto
  next
    fix d assume "d \<in> set ((name, p) # ps)"
    then show "pc_listen_port (snd d) \<noteq> 0" using rest(1) [of d] c(1) by auto
  next
    fix d f assume "d \<in> set ((name, p) # ps)" "map_of ports (pc_listen_port (snd d)) = Some f"
    then show "snd f = pc_family (snd d)" using old [of d f] known [of f] by auto
  qed (rule keys)
qed simp

text \<open>The second pass: no alias is taken twice on a port, nor takes a pool's name.\<close>

lemma claim_aliases_Inr:
  assumes "claim_aliases name port rt as = Inr rt'"
  shows "keys_of rt' = keys_of rt \<union> Pair port ` set as \<and> distinct as \<and> Pair port ` set as \<inter> keys_of rt = {}
    \<and> name \<notin> set as \<and> list_all is_valid_name as"
  using assms
proof (induction name port rt as rule: claim_aliases.induct)
  case (2 name port rt a as)
  then have a: "is_valid_name a" "a \<noteq> name" "map_of rt (port, a) = None"
    and rec: "claim_aliases name port (btree_insert (port, a) name rt) as = Inr rt'"
    by (auto split: if_splits option.splits)
  from 2(1) [OF _ a(2,3) rec] a(1) have IH:
    "keys_of rt' = insert (port, a) (keys_of rt) \<union> Pair port ` set as" "distinct as"
    "Pair port ` set as \<inter> insert (port, a) (keys_of rt) = {}" "name \<notin> set as" "list_all is_valid_name as"
    by (simp_all add: set_btree_insert)
  have "(port, a) \<notin> keys_of rt" using a(3) by (simp add: map_of_eq_None_iff)
  then show ?case using IH a by auto
qed simp

lemma claim_all_aliases_Inr:
  assumes "claim_all_aliases rt ps = Inr rt'"
  shows "distinct (concat (map alias_keys ps)) \<and> set (concat (map alias_keys ps)) \<inter> keys_of rt = {}
    \<and> keys_of rt' = keys_of rt \<union> set (concat (map alias_keys ps))
    \<and> (\<forall>e \<in> set ps. list_all is_valid_name (pc_aliases (snd e)))"
  using assms
proof (induction rt ps rule: claim_all_aliases.induct)
  case (2 rt name p ps)
  then obtain rt1 where c: "claim_aliases name (pc_listen_port p) rt (pc_aliases p) = Inr rt1"
    and rec: "claim_all_aliases rt1 ps = Inr rt'" by (auto split: sum.splits)
  note IH = 2(1) [OF c rec] and C = claim_aliases_Inr [OF c]
  have k: "set (alias_keys (name, p)) = Pair (pc_listen_port p) ` set (pc_aliases p)" by (simp add: alias_keys_def)
  have d: "distinct (alias_keys (name, p))" using C by (simp add: alias_keys_def distinct_map inj_on_def)
  show ?case using IH C k d by auto
qed simp

lemma validate_listeners_None:
  assumes "validate_listeners st = None"
  shows "distinct (concat (map alias_keys (st_pools st)))"
    and "set (concat (map alias_keys (st_pools st))) \<inter> name_key ` set (st_pools st) = {}"
    and "\<And>e. e \<in> set (st_pools st) \<Longrightarrow> pc_listen_port (snd e) \<noteq> 0"
    and "\<And>d e. d \<in> set (st_pools st) \<Longrightarrow> e \<in> set (st_pools st) \<Longrightarrow>
      pc_listen_port (snd d) = pc_listen_port (snd e) \<Longrightarrow> pc_family (snd d) = pc_family (snd e)"
proof -
  from assms obtain rt rt' where c: "claim_ports [] [] (st_pools st) = Inr rt"
    and a: "claim_all_aliases rt (st_pools st) = Inr rt'"
    by (auto simp: validate_listeners_def split: sum.splits)
  note C = claim_ports_Inr [OF c btree_Nil] and A = claim_all_aliases_Inr [OF a]
  show "distinct (concat (map alias_keys (st_pools st)))" using A by blast
  show "set (concat (map alias_keys (st_pools st))) \<inter> name_key ` set (st_pools st) = {}" using A C by simp
  show "pc_listen_port (snd e) \<noteq> 0" if "e \<in> set (st_pools st)" for e using C that by blast
  show "pc_family (snd d) = pc_family (snd e)"
    if "d \<in> set (st_pools st)" "e \<in> set (st_pools st)" "pc_listen_port (snd d) = pc_listen_port (snd e)" for d e
    using C that by blast
qed

lemma distinct_concat_map_unique:
  assumes "distinct (concat (map f xs))" "x \<in> set xs" "y \<in> set xs" "k \<in> set (f x)" "k \<in> set (f y)"
  shows "x = y"
  using assms by (induction xs) auto

text \<open>On a port, a name is answered by one pool.\<close>

lemma answering_pool_unique:
  assumes v: "validate_listeners st = None" and b: "btree (st_pools st)"
    and d: "d \<in> set (st_pools st)" "asked = fst d \<or> asked \<in> set (pc_aliases (snd d))"
    and e: "e \<in> set (st_pools st)" "asked = fst e \<or> asked \<in> set (pc_aliases (snd e))"
    and port: "pc_listen_port (snd d) = pc_listen_port (snd e)"
  shows "d = e"
proof -
  note V = validate_listeners_None [OF v]
  have name: "x = y" if "x \<in> set (st_pools st)" "y \<in> set (st_pools st)" "fst x = fst y" for x y
    using that b by (auto simp: btree_def distinct_map dest: inj_onD)
  have clash: False if "x \<in> set (st_pools st)" "y \<in> set (st_pools st)" "pc_listen_port (snd x) = pc_listen_port (snd y)"
    "fst x \<in> set (pc_aliases (snd y))" for x y
  proof -
    have "name_key x \<in> set (alias_keys y)" using that by (simp add: name_key_def alias_keys_def)
    then show False using V(2) that by auto
  qed
  have both: "d = e" if "asked \<in> set (pc_aliases (snd d))" "asked \<in> set (pc_aliases (snd e))"
    using distinct_concat_map_unique [OF V(1) d(1) e(1)] that port by (auto simp: alias_keys_def)
  show ?thesis using name clash both d e port by metis
qed

section \<open>The listeners\<close>

text \<open>The listener of a port is made of the enabled pools that declare it, in their order.\<close>

definition on_port :: "u16 \<Rightarrow> (string \<times> PoolConfig) list \<Rightarrow> (string \<times> PoolConfig) list" where
  "on_port port es = filter (\<lambda>e. pc_listen_port (snd e) = port) es"

definition alias_pairs :: "(string \<times> PoolConfig) list \<Rightarrow> (string \<times> string) list" where
  "alias_pairs es = concat (map (\<lambda>(name, p). map (\<lambda>a. (a, name)) (pc_aliases p)) es)"

definition gathered :: "(string \<times> PoolConfig) list \<Rightarrow> u16 \<Rightarrow> Listener option" where
  "gathered es port =
     (case on_port port es of
        [] \<Rightarrow> None
      | e # r \<Rightarrow> Some \<lparr>ln_port = port, ln_family = pc_family (snd e), ln_pools = map fst (e # r), ln_aliases = alias_pairs (e # r)\<rparr>)"

lemma gathered_snoc:
  "gathered (es @ [(name, p)]) port =
     (if pc_listen_port p \<noteq> port then gathered es port
      else Some (let l = (case gathered es port of Some l \<Rightarrow> l
            | None \<Rightarrow> \<lparr>ln_port = port, ln_family = pc_family p, ln_pools = [], ln_aliases = []\<rparr>)
        in l\<lparr>ln_pools := ln_pools l @ [name], ln_aliases := ln_aliases l @ map (\<lambda>a. (a, name)) (pc_aliases p)\<rparr>))"
  by (cases "on_port port es") (auto simp: gathered_def on_port_def alias_pairs_def)

lemma add_to_listener_gathered:
  assumes "btree out" "map_of out = gathered es"
  shows "btree (add_to_listener out e) \<and> map_of (add_to_listener out e) = gathered (es @ [e])"
proof (cases e)
  case (Pair name p)
  show ?thesis using assms unfolding Pair
    by (auto simp: add_to_listener_def Let_def fun_eq_iff gathered_snoc split: option.splits)
qed

lemma foldl_add_to_listener:
  "btree (foldl add_to_listener [] es) \<and> map_of (foldl add_to_listener [] es) = gathered es"
proof (induction es rule: rev_induct)
  case Nil
  then show ?case by (simp add: gathered_def on_port_def fun_eq_iff)
next
  case (snoc e es)
  then show ?case using add_to_listener_gathered [of "foldl add_to_listener [] es" es e] by simp
qed

lemma btree_map_values: "btree (map (\<lambda>(k, v). (k, f k v)) m) = btree m"
proof -
  have "map fst (map (\<lambda>(k, v). (k, f k v)) m) = map fst m" by (induction m) auto
  then show ?thesis by (simp only: btree_def)
qed

lemma map_of_map_values: "map_of (map (\<lambda>(k, v). (k, f v)) m) k = map_option f (map_of m k)"
  by (induction m) auto

lemma listeners_gathered:
  "btree (listeners st)"
  "map_of (listeners st) port =
     map_option (\<lambda>l. l\<lparr>ln_aliases := sort (ln_aliases l)\<rparr>) (gathered (enabled_pools st) port)"
  unfolding listeners_def using foldl_add_to_listener [of "enabled_pools st"]
  by (simp_all add: btree_map_values map_of_map_values)

lemma in_enabled_pools: "e \<in> set (enabled_pools st) \<longleftrightarrow> e \<in> set (st_pools st) \<and> \<not> pc_disabled (snd e)"
  by (cases e) (auto simp: enabled_pools_def)

lemma in_on_port: "e \<in> set (on_port port es) \<longleftrightarrow> e \<in> set es \<and> pc_listen_port (snd e) = port"
  by (auto simp: on_port_def)

lemma listener_SomeD:
  assumes "map_of (listeners st) port = Some l"
  shows "on_port port (enabled_pools st) \<noteq> []"
    and "ln_port l = port" "ln_family l = pc_family (snd (hd (on_port port (enabled_pools st))))"
    and "ln_pools l = map fst (on_port port (enabled_pools st))"
    and "ln_aliases l = sort (alias_pairs (on_port port (enabled_pools st)))"
  using assms by (auto simp: listeners_gathered gathered_def split: list.splits)

lemma listener_None: "map_of (listeners st) port = None \<longleftrightarrow> on_port port (enabled_pools st) = []"
  by (simp add: listeners_gathered gathered_def split: list.split)

lemma in_alias_pairs: "(a, n) \<in> set (alias_pairs es) \<longleftrightarrow> (\<exists>p. (n, p) \<in> set es \<and> a \<in> set (pc_aliases p))"
  by (auto simp: alias_pairs_def)

lemma validate_None:
  assumes "validate st = None"
  shows "validate_listeners st = None"
    and "\<And>name p. (name, p) \<in> set (st_pools st) \<Longrightarrow> is_valid_name name \<and> validate_pool p name = None"
    and "\<And>name u. (name, u) \<in> set (st_users st) \<Longrightarrow> validate_user st name u = None"
  using assms by (force simp: validate_def find_map_None split: if_splits)+

lemma listener_names: "set (map fst (on_port port es)) = {n. \<exists>p. (n, p) \<in> set es \<and> pc_listen_port p = port}"
  by (auto simp: on_port_def image_iff)

lemma listener_pools_sorted:
  assumes "btree (st_pools st)" "map_of (listeners st) port = Some l"
  shows "sorted (ln_pools l) \<and> distinct (ln_pools l)"
  using assms(1) listener_SomeD(4) [OF assms(2)]
  by (simp add: btree_def on_port_def enabled_pools_def sorted_filter distinct_map_filter)

lemma listener_family:
  assumes "validate_listeners st = None" "map_of (listeners st) port = Some l"
    and "e \<in> set (enabled_pools st)" "pc_listen_port (snd e) = port"
  shows "pc_family (snd e) = ln_family l"
proof -
  have "hd (on_port port (enabled_pools st)) \<in> set (on_port port (enabled_pools st))"
    using listener_SomeD(1) [OF assms(2)] by simp
  then show ?thesis
    using assms(3,4) listener_SomeD(3) [OF assms(2)] validate_listeners_None(4) [OF assms(1)]
    by (simp add: in_on_port in_enabled_pools)
qed

text \<open>
  In a valid document there is a listener for exactly the ports that an enabled pool
  declares, none of them port 0. It serves exactly the enabled pools of its port, in
  order and without repetition, all of the listener's family, and lists their aliases.
\<close>

theorem listener_table_well_formed:
  assumes "validate st = None" "btree (st_pools st)"
  shows "btree (listeners st) \<and> map_of (listeners st) 0 = None
    \<and> (\<forall>port. map_of (listeners st) port \<noteq> None \<longleftrightarrow> (\<exists>e \<in> set (enabled_pools st). pc_listen_port (snd e) = port))
    \<and> (\<forall>port l. map_of (listeners st) port = Some l \<longrightarrow>
        ln_port l = port \<and> sorted (ln_pools l) \<and> distinct (ln_pools l)
        \<and> (\<forall>name. name \<in> set (ln_pools l) \<longleftrightarrow> (\<exists>p. (name, p) \<in> set (enabled_pools st) \<and> pc_listen_port p = port))
        \<and> (\<forall>e \<in> set (enabled_pools st). pc_listen_port (snd e) = port \<longrightarrow> pc_family (snd e) = ln_family l)
        \<and> (\<forall>a name. (a, name) \<in> set (ln_aliases l) \<longleftrightarrow>
              (\<exists>p. (name, p) \<in> set (enabled_pools st) \<and> pc_listen_port p = port \<and> a \<in> set (pc_aliases p))))"
proof -
  note V = validate_listeners_None [OF validate_None(1) [OF assms(1)]]
  have dom: "map_of (listeners st) port \<noteq> None \<longleftrightarrow> (\<exists>e \<in> set (enabled_pools st). pc_listen_port (snd e) = port)" for port
    unfolding listener_None on_port_def filter_empty_conv by blast
  have zero: "map_of (listeners st) 0 = None" using dom [of 0] V(3) in_enabled_pools by blast
  show ?thesis
  proof (intro conjI allI impI)
    fix port l assume l: "map_of (listeners st) port = Some l"
    show "ln_port l = port" by (rule listener_SomeD(2) [OF l])
    show "sorted (ln_pools l)" "distinct (ln_pools l)" using listener_pools_sorted [OF assms(2) l] by simp_all
    show "name \<in> set (ln_pools l) \<longleftrightarrow> (\<exists>p. (name, p) \<in> set (enabled_pools st) \<and> pc_listen_port p = port)" for name
      unfolding listener_SomeD(4) [OF l] listener_names by simp
    show "\<forall>e \<in> set (enabled_pools st). pc_listen_port (snd e) = port \<longrightarrow> pc_family (snd e) = ln_family l"
      using listener_family [OF validate_None(1) [OF assms(1)] l] by blast
    show "(a, name) \<in> set (ln_aliases l) \<longleftrightarrow>
        (\<exists>p. (name, p) \<in> set (enabled_pools st) \<and> pc_listen_port p = port \<and> a \<in> set (pc_aliases p))" for a name
      unfolding listener_SomeD(5) [OF l] set_sort in_alias_pairs in_on_port by auto
  qed (use listeners_gathered(1) zero dom in blast)+
qed

text \<open>
  C25. A client that connects to a port of a valid document and sends a database name is
  taken to a pool exactly when that pool is enabled, declares the port, and has the name
  as its own or as an alias. So a name reaches at most one pool, and an alias never hides
  a pool. When the client need not send a name, the pool is the only enabled one there.
\<close>

theorem client_name_reaches_the_declaring_pool:
  assumes v: "validate st = None" and b: "btree (st_pools st)"
    and l: "map_of (listeners st) port = Some l" and rt: "with_aliases (ln_pools l) (ln_aliases l) = Some rt"
  shows "(resolve rt asked = Some pool \<longleftrightarrow>
      (\<exists>p. map_of (st_pools st) pool = Some p \<and> \<not> pc_disabled p \<and> pc_listen_port p = port
        \<and> (asked = pool \<or> asked \<in> set (pc_aliases p))))
    \<and> (sole rt = Some pool \<longleftrightarrow> {n. \<exists>p. map_of (st_pools st) n = Some p \<and> \<not> pc_disabled p \<and> pc_listen_port p = port} = {pool})"
proof -
  let ?es = "on_port port (enabled_pools st)"
  have rt': "rt_pools rt = map fst ?es" "rt_aliases rt = sort (alias_pairs ?es)"
    using rt listener_SomeD [OF l] by (auto simp: with_aliases_def split: if_splits)
  have es: "(n, p) \<in> set ?es \<longleftrightarrow> map_of (st_pools st) n = Some p \<and> \<not> pc_disabled p \<and> pc_listen_port p = port" for n p
    using btree_lookup [OF b] by (auto simp: in_on_port in_enabled_pools)
  have uniq: "n = m" if "(n, p) \<in> set ?es" "asked = n \<or> asked \<in> set (pc_aliases p)"
    "(m, q) \<in> set ?es" "asked = m \<or> asked \<in> set (pc_aliases q)" for n p m q
    using answering_pool_unique [OF validate_None(1) [OF v] b, of "(n, p)" asked "(m, q)"] that
    by (simp add: in_on_port in_enabled_pools)
  have "resolve rt asked = Some pool \<longleftrightarrow> (\<exists>p. (pool, p) \<in> set ?es \<and> (asked = pool \<or> asked \<in> set (pc_aliases p)))"
    (is "?L \<longleftrightarrow> ?R")
  proof
    assume ?L
    then consider "List.find (\<lambda>p. p = asked) (rt_pools rt) = Some pool"
      | a where "List.find (\<lambda>(a, _). a = asked) (rt_aliases rt) = Some (a, pool)"
      by (auto simp: resolve_def split: option.splits)
    then show ?R
    proof cases
      case 1
      from find_Some_in [OF this] show ?thesis using rt' by auto
    next
      case 2
      from find_Some_in [OF this] show ?thesis using rt' by (auto simp: in_alias_pairs)
    qed
  next
    assume ?R
    then obtain p where p: "(pool, p) \<in> set ?es" "asked = pool \<or> asked \<in> set (pc_aliases p)" by blast
    show ?L
    proof (cases "List.find (\<lambda>p. p = asked) (rt_pools rt)")
      case (Some n)
      then have "n = asked" "n \<in> set (rt_pools rt)" using find_Some_in by fast+
      then obtain q where "(n, q) \<in> set ?es" using rt' by auto
      then have "n = pool" using uniq [of n q pool p] p \<open>n = asked\<close> by blast
      then show ?thesis using Some by (simp add: resolve_def)
    next
      case None
      then have "asked \<noteq> pool" using p rt' by (force simp: find_None_iff)
      then have "(asked, pool) \<in> set (rt_aliases rt)" using p rt' by (auto simp: in_alias_pairs)
      then obtain x where x: "List.find (\<lambda>(a, _). a = asked) (rt_aliases rt) = Some x"
        by (cases "List.find (\<lambda>(a, _). a = asked) (rt_aliases rt)") (auto simp: find_None_iff)
      then obtain m where m: "x = (asked, m)" "(asked, m) \<in> set (rt_aliases rt)" using find_Some_in [OF x] by auto
      then obtain q where "(m, q) \<in> set ?es" "asked \<in> set (pc_aliases q)" using rt' by (auto simp: in_alias_pairs)
      then have "m = pool" using uniq p by blast
      then show ?thesis using None x m by (simp add: resolve_def)
    qed
  qed
  moreover have "sole rt = Some pool \<longleftrightarrow> set (rt_pools rt) = {pool}"
  proof -
    have "distinct (rt_pools rt)"
      using listener_pools_sorted [OF b l] listener_SomeD(4) [OF l] rt' by simp
    then show ?thesis by (cases "rt_pools rt" rule: remdups_adj.cases) (auto simp: sole_def)
  qed
  moreover have "set (rt_pools rt) = {n. \<exists>p. map_of (st_pools st) n = Some p \<and> \<not> pc_disabled p \<and> pc_listen_port p = port}"
    unfolding rt' using es by (force simp: image_iff)
  ultimately show ?thesis unfolding es by simp
qed

section \<open>A valid pool can be run\<close>

lemma multiplexes_mono: "mode_rank m \<le> mode_rank n \<Longrightarrow> multiplexes m \<Longrightarrow> multiplexes n"
  by (cases m; cases n) simp_all

text \<open>
  C38. Every pool of a valid document resolves to a family with a driver and a profile, asks
  for a mode both of them allow, and shares backends between clients only where statements
  are classified. It has a primary target, room for a connection, no more warm connections
  than it may open, and none when it connects as its clients; a split pool that does has an
  account to probe with.
\<close>

theorem valid_pool_can_run:
  assumes v: "validate st = None" and b: "btree (st_pools st)" and p: "map_of (st_pools st) name = Some p"
  shows "(\<exists>f d. resolve_profile (pc_family p) (pc_profile p) = Inr (f, d) \<and> pool_profile p = Some d
      \<and> pc_mode p \<in> set (fd_pool_modes f) \<and> mode_rank (pc_mode p) \<le> mode_rank (q_max_pool_mode (dp_quirks d))
      \<and> (multiplexes (pc_mode p) \<longrightarrow> cap_classifies_statements (fd_capabilities f) \<or> classifies (q_session (dp_quirks d))))
    \<and> is_valid_name name \<and> primary_target p \<noteq> None \<and> 0 < max_size (pc_limits p)
      \<and> min_idle (pc_limits p) \<le> max_size (pc_limits p)
      \<and> (is_per_user (pc_backend_auth p) \<longrightarrow> min_idle (pc_limits p) = 0 \<and> (read_write_split (pc_routing p) \<longrightarrow> pc_backend_user p \<noteq> []))"
proof -
  have in_pools: "(name, p) \<in> set (st_pools st)" using p by (rule map_of_SomeD)
  note vp = validate_None(2) [OF v in_pools]
  then obtain f where f: "family (pc_family p) = Some f" "fd_maturity f \<noteq> Planned"
    by (auto simp: validate_pool_def split: option.splits if_splits)
  then obtain d where d: "(case pc_profile p of None \<Rightarrow> d = default_profile f | Some i \<Rightarrow> profile_of f i = Some d)"
    and checks: "mode_check p name f d = None" "limits_check p name = None"
    using vp by (auto simp: validate_pool_def split: option.splits)
  have res: "resolve_profile (pc_family p) (pc_profile p) = Inr (f, d)"
    using f d by (auto simp: resolve_profile_def is_usable_def split: option.splits)
  have prof: "pool_profile p = Some d" using f d by (auto simp: pool_profile_def split: option.splits)
  have fc: "family_consistent f" using family_found [OF f(1)] by blast
  have "d \<in> set (fd_profiles f)"
    using d default_profile_in [OF fc] profile_of_in by (auto split: option.splits)
  then have "profile_consistent f d" by (rule profile_safe [OF fc])
  moreover have mode: "pc_mode p \<in> set (fd_pool_modes f)" "mode_rank (pc_mode p) \<le> mode_rank (q_max_pool_mode (dp_quirks d))"
    using checks(1) by (auto simp: mode_check_def split: if_splits)
  ultimately have "multiplexes (pc_mode p) \<longrightarrow> cap_classifies_statements (fd_capabilities f) \<or> classifies (q_session (dp_quirks d))"
    using multiplexes_mono profile_consistent_def by blast
  with res prof mode have runs: "\<exists>f d. resolve_profile (pc_family p) (pc_profile p) = Inr (f, d) \<and> pool_profile p = Some d
      \<and> pc_mode p \<in> set (fd_pool_modes f) \<and> mode_rank (pc_mode p) \<le> mode_rank (q_max_pool_mode (dp_quirks d))
      \<and> (multiplexes (pc_mode p) \<longrightarrow> cap_classifies_statements (fd_capabilities f) \<or> classifies (q_session (dp_quirks d)))"
    by blast
  have "primary_target p \<noteq> None"
    using checks(2) by (auto simp: limits_check_def primary_target_def split: option.splits list.splits if_splits)
  then have "is_valid_name name \<and> primary_target p \<noteq> None \<and> 0 < max_size (pc_limits p)
      \<and> min_idle (pc_limits p) \<le> max_size (pc_limits p)
      \<and> (is_per_user (pc_backend_auth p) \<longrightarrow> min_idle (pc_limits p) = 0 \<and> (read_write_split (pc_routing p) \<longrightarrow> pc_backend_user p \<noteq> []))"
    using vp checks(2) by (auto simp: limits_check_def word_gt_0 split: if_splits)
  with runs show ?thesis by (rule conjI)
qed

text \<open>
  A pool a user may connect to is one that the user was granted, exists and is enabled; a
  user of a valid document has at least one grant, and none to a pool that is not there.
\<close>

theorem grants_are_known:
  assumes "validate st = None" "btree (st_users st)" "map_of (st_users st) who = Some u"
  shows "uc_pools u \<noteq> [] \<and> (\<forall>g \<in> set (uc_pools u). map_of (st_pools st) g \<noteq> None)
    \<and> set (pools_for_user st who) =
        (if uc_disabled u then {} else {g \<in> set (uc_pools u). \<exists>p. map_of (st_pools st) g = Some p \<and> \<not> pc_disabled p})"
proof -
  have "validate_user st who u = None" using validate_None(3) [OF assms(1) map_of_SomeD [OF assms(3)]] .
  then have "uc_pools u \<noteq> []" "\<forall>g \<in> set (uc_pools u). map_of (st_pools st) g \<noteq> None"
    by (auto simp: validate_user_def find_map_None split: if_splits)
  then show ?thesis using assms(3) by (auto simp: pools_for_user_def split: option.splits)
qed

section \<open>An instance\<close>

text \<open>Two pools over one database on one port, told apart by their aliases, and one alone.\<close>

definition example_pool :: "PoolMode \<Rightarrow> u16 \<Rightarrow> string list \<Rightarrow> PoolConfig" where
  "example_pool mode port als =
     \<lparr>pc_family = ''postgres'', pc_profile = None, pc_mode = mode, pc_targets = [new_target ''db'' 5432],
      pc_backend_user = ''app'', pc_database = ''orders'', pc_listen_port = port, pc_aliases = als,
      pc_limits = 
        \<lparr>max_size = 10, min_idle = 0, max_client_connections = 100, queue_timeout = 5, connect_timeout = 5,
         idle_timeout = 60, max_lifetime = 90, idle_in_transaction_timeout = 0\<rparr>, pc_settings = [], pc_routing = 
        \<lparr>read_write_split = False, sticky_after_write = 10, max_replica_lag = Some 5, health_interval = 5,
         rc_failure_threshold = 3, recovery_cooldown = 10\<rparr>, pc_backend_auth = Shared,
      pc_allow_password_without_tls = False, pc_read_only = False, pc_trace = TraceStatements, pc_disabled = False\<rparr>"

definition example_config :: State where
  "example_config =
     \<lparr>st_version = 1,
      st_pools = [(''orders_ro'', example_pool Transaction 6432 [''orders_bi'']),
                  (''orders_rw'', example_pool Transaction 6432 [''orders'']),
                  (''reports'', example_pool Session 6433 [])],
      st_users = [(''svc'', new_user [''orders_rw'', ''reports''])], st_secrets = []\<rparr>"

lemma example_config_valid: "validate example_config = None" "btree (st_pools example_config)" "btree (st_users example_config)"
  by code_simp+

theorem listener_table_well_formed_witness:
  "map_of (listeners example_config) 0 = None \<and> map_of (listeners example_config) 6433 \<noteq> None"
proof -
  have "list_ex (\<lambda>e. pc_listen_port (snd e) = 6433) (enabled_pools example_config)" by code_simp
  then have "\<exists>e \<in> set (enabled_pools example_config). pc_listen_port (snd e) = 6433" by (simp only: list_ex_iff)
  then show ?thesis using listener_table_well_formed [OF example_config_valid(1,2)] by blast
qed

theorem client_name_reaches_the_declaring_pool_witness:
  "\<exists>rt. resolve rt ''orders'' = Some ''orders_rw'' \<and> resolve rt ''orders_bi'' = Some ''orders_ro''"
proof -
  have "map_of (listeners example_config) 6432 \<noteq> None" by code_simp
  then obtain l where l: "map_of (listeners example_config) 6432 = Some l" by blast
  have "ln_pools l \<noteq> []" using listener_SomeD(1,4) [OF l] by simp
  then obtain rt where rt: "with_aliases (ln_pools l) (ln_aliases l) = Some rt" by (simp add: with_aliases_def)
  note T = conjunct1 [OF client_name_reaches_the_declaring_pool [OF example_config_valid(1,2) l rt]]
  let ?p = "example_pool Transaction 6432"
  have at: "map_of (st_pools example_config) ''orders_rw'' = Some (?p [''orders''])"
    "map_of (st_pools example_config) ''orders_ro'' = Some (?p [''orders_bi''])" by (simp_all add: example_config_def)
  have p: "\<not> pc_disabled (?p as) \<and> pc_listen_port (?p as) = 6432 \<and> pc_aliases (?p as) = as" for as
    by (simp add: example_pool_def)
  have "resolve rt ''orders'' = Some ''orders_rw''" unfolding T using at(1) p [of "[''orders'']"] by simp
  moreover have "resolve rt ''orders_bi'' = Some ''orders_ro''" unfolding T using at(2) p [of "[''orders_bi'']"] by simp
  ultimately show ?thesis by blast
qed

theorem valid_pool_can_run_witness:
  "\<exists>f d. resolve_profile ''postgres'' None = Inr (f, d) \<and> cap_classifies_statements (fd_capabilities f) \<or> classifies (q_session (dp_quirks d))"
proof -
  let ?p = "example_pool Transaction 6432 [''orders'']"
  have "map_of (st_pools example_config) ''orders_rw'' = Some ?p" by (simp add: example_config_def)
  moreover have "pc_family ?p = ''postgres''" "pc_profile ?p = None" "multiplexes (pc_mode ?p)"
    by (simp_all add: example_pool_def)
  ultimately show ?thesis using valid_pool_can_run [OF example_config_valid(1,2)] by metis
qed

end
