(* ===== verification/Store.thy ===== *)
theory Store
  imports Config
begin

text \<open>
  The state store (\<open>havuz-core/src/store.rs\<close>): the published document, its revision, and the
  file behind it. Serialisation to JSON comes from a library: \<open>to_json\<close> and \<open>from_json\<close> are
  parameters. The file system keeps, for each file, whether its bytes have reached the
  disk, and the directory entries a crash may fall back to: a rename is atomic but not
  durable until the directory is written. The results: a change is published with a valid
  document or not at all, and a crash at any point of a write leaves the old document or
  the new one.
\<close>

section \<open>The file system\<close>

record File =
  f_data :: string
  f_synced :: bool
  f_private :: bool                     \<comment> \<open>mode 0600\<close>

text \<open>\<open>dk_before\<close> are the entries the state file had before renames that may not be durable yet.\<close>

record Disk =
  dk_path :: "File option"
  dk_before :: "File option list"
  dk_tmp :: "File option"

text \<open>
  The calls of \<open>write_atomic\<close>, in their order. A new file gets the mode the umask gives; a
  write to an existing file keeps its mode and truncates it. A failed write leaves bytes of
  which nothing is known: \<open>junk\<close>.
\<close>

datatype FileOp = WriteTmp string | ChmodTmp | OpenTmp | SyncTmp | RenameTmp

fun do_op :: "FileOp \<Rightarrow> Disk \<Rightarrow> Disk" where
  "do_op (WriteTmp bs) d =
     d\<lparr>dk_tmp := Some \<lparr>f_data = bs, f_synced = False,
        f_private = (case dk_tmp d of Some f \<Rightarrow> f_private f | None \<Rightarrow> False)\<rparr>\<rparr>"
| "do_op ChmodTmp d = d\<lparr>dk_tmp := map_option (\<lambda>f. f\<lparr>f_private := True\<rparr>) (dk_tmp d)\<rparr>"
| "do_op OpenTmp d = d"
| "do_op SyncTmp d = d\<lparr>dk_tmp := map_option (\<lambda>f. f\<lparr>f_synced := True\<rparr>) (dk_tmp d)\<rparr>"
| "do_op RenameTmp d = d\<lparr>dk_path := dk_tmp d, dk_before := dk_path d # dk_before d, dk_tmp := None\<rparr>"

fun failed_op :: "string \<Rightarrow> FileOp \<Rightarrow> Disk \<Rightarrow> Disk" where
  "failed_op junk (WriteTmp bs) d = do_op (WriteTmp junk) d"
| "failed_op junk _ d = d"

definition write_ops :: "string \<Rightarrow> FileOp list" where
  "write_ops json = [WriteTmp json, ChmodTmp, OpenTmp, SyncTmp, RenameTmp]"

text \<open>The calls run in order until one fails; \<open>ok\<close> says which succeed.\<close>

fun run_ops :: "string \<Rightarrow> (FileOp \<Rightarrow> bool) \<Rightarrow> FileOp list \<Rightarrow> Disk \<Rightarrow> Disk \<times> bool" where
  "run_ops junk ok [] d = (d, True)"
| "run_ops junk ok (x # xs) d = (if ok x then run_ops junk ok xs (do_op x d) else (failed_op junk x d, False))"

text \<open>What may be read as the state file after a crash: \<open>None\<close> is no file.\<close>

definition may_read :: "Disk \<Rightarrow> string option \<Rightarrow> bool" where
  "may_read d r = list_ex (\<lambda>e. case e of
       None \<Rightarrow> r = None
     | Some f \<Rightarrow> (if f_synced f then r = Some (f_data f) else r \<noteq> None)) (dk_path d # dk_before d)"

section \<open>The store\<close>

datatype StoreFailure = SCreateDir | SRead | SWrite | SParse | SInvalid StateError

record StateStore =
  so_ephemeral :: bool                  \<comment> \<open>no path: nothing is persisted\<close>
  so_current :: State
  so_revision :: u64
  so_disk :: Disk

definition wrap :: "bool \<Rightarrow> State \<Rightarrow> Disk \<Rightarrow> StateStore" where
  "wrap ephemeral st d = \<lparr>so_ephemeral = ephemeral, so_current = st, so_revision = 0, so_disk = d\<rparr>"

definition publish :: "StateStore \<Rightarrow> StateStore" where
  "publish s = s\<lparr>so_revision := so_revision s + 1\<rparr>"

definition checked :: "(string \<Rightarrow> State option) \<Rightarrow> string \<Rightarrow> StoreFailure + State" where
  "checked from_json bs =
     (case from_json bs of
        None \<Rightarrow> Inl SParse
      | Some st \<Rightarrow> (case validate st of Some e \<Rightarrow> Inl (SInvalid e) | None \<Rightarrow> Inr st))"

definition open_store :: "(string \<Rightarrow> State option) \<Rightarrow> bool \<Rightarrow> bool \<Rightarrow> Disk \<Rightarrow> StoreFailure + StateStore" where
  "open_store from_json dir_ok read_ok d =
     (if \<not> dir_ok then Inl SCreateDir
      else if \<not> read_ok then Inl SRead
      else case dk_path d of
        None \<Rightarrow> Inr (wrap False default_state d)
      | Some f \<Rightarrow> (case checked from_json (f_data f) of Inl e \<Rightarrow> Inl e | Inr st \<Rightarrow> Inr (wrap False st d)))"

definition write_atomic :: "(State \<Rightarrow> string) \<Rightarrow> string \<Rightarrow> (FileOp \<Rightarrow> bool) \<Rightarrow> State \<Rightarrow> Disk \<Rightarrow> Disk \<times> bool" where
  "write_atomic to_json junk ok st d = run_ops junk ok (write_ops (to_json st)) d"

definition update ::
  "(State \<Rightarrow> string) \<Rightarrow> string \<Rightarrow> (FileOp \<Rightarrow> bool) \<Rightarrow> (State \<Rightarrow> State \<times> 'a) \<Rightarrow> StateStore \<Rightarrow> StateStore \<times> (StoreFailure + 'a)"
where
  "update to_json junk ok mutate s =
     (let (next_state, outcome) = mutate (so_current s) in
      case validate next_state of
        Some e \<Rightarrow> (s, Inl (SInvalid e))
      | None \<Rightarrow>
          (let (d, wrote) = (if so_ephemeral s then (so_disk s, True) else write_atomic to_json junk ok next_state (so_disk s)) in
           if \<not> wrote then (s\<lparr>so_disk := d\<rparr>, Inl SWrite)
           else (publish (s\<lparr>so_disk := d, so_current := next_state\<rparr>), Inr outcome)))"

definition reload :: "(string \<Rightarrow> State option) \<Rightarrow> bool \<Rightarrow> StateStore \<Rightarrow> StateStore \<times> (StoreFailure + State)" where
  "reload from_json read_ok s =
     (case (if read_ok then dk_path (so_disk s) else None) of
        None \<Rightarrow> (s, Inl SRead)
      | Some f \<Rightarrow>
          (case checked from_json (f_data f) of
             Inl e \<Rightarrow> (s, Inl e)
           | Inr st \<Rightarrow> (publish (s\<lparr>so_current := st\<rparr>), Inr st)))"

section \<open>A write is all or nothing\<close>

lemma run_ops_cases:
  assumes "run_ops junk ok (write_ops json) d = (d', w)"
  shows "(w \<and> (\<forall>x \<in> set (write_ops json). ok x) \<and> dk_path d' = Some \<lparr>f_data = json, f_synced = True, f_private = True\<rparr>
        \<and> dk_before d' = dk_path d # dk_before d)
    \<or> (\<not> w \<and> (\<exists>x \<in> set (write_ops json). \<not> ok x) \<and> dk_path d' = dk_path d \<and> dk_before d' = dk_before d)"
  using assms by (auto simp: write_ops_def split: if_splits)

text \<open>
  C35. A change of the configuration is all or nothing. When it succeeds, the new document
  is valid, published under the next revision, and is what the state file holds, synced
  and readable by its owner only. When it fails, the published document, its revision and
  the state file are as they were. It succeeds whenever the new document is valid and no
  file operation fails.
\<close>

theorem update_is_all_or_nothing:
  assumes m: "mutate (so_current s) = (st', out)" and u: "update to_json junk ok mutate s = (s', res)"
  shows "(case res of
      Inr r \<Rightarrow> r = out \<and> validate st' = None \<and> so_current s' = st' \<and> so_revision s' = so_revision s + 1
        \<and> (\<not> so_ephemeral s \<longrightarrow> dk_path (so_disk s') = Some \<lparr>f_data = to_json st', f_synced = True, f_private = True\<rparr>)
    | Inl e \<Rightarrow> so_current s' = so_current s \<and> so_revision s' = so_revision s
        \<and> dk_path (so_disk s') = dk_path (so_disk s) \<and> dk_before (so_disk s') = dk_before (so_disk s))
    \<and> (\<not> isl res \<longleftrightarrow> validate st' = None \<and> (so_ephemeral s \<or> (\<forall>x \<in> set (write_ops (to_json st')). ok x)))"
proof -
  obtain d w where run: "run_ops junk ok (write_ops (to_json st')) (so_disk s) = (d, w)" by fastforce
  from run_ops_cases [OF run] show ?thesis using m u run
    by (auto simp: update_def write_atomic_def publish_def Let_def split: option.splits if_splits)
qed

section \<open>Crashes\<close>

text \<open>A disk whose state file is complete, whichever of its entries a crash brings back.\<close>

definition settled :: "Disk \<Rightarrow> bool" where
  "settled d = list_all (\<lambda>e. case e of None \<Rightarrow> True | Some f \<Rightarrow> f_synced f) (dk_path d # dk_before d)"

lemma may_read_settled:
  "settled d \<Longrightarrow> may_read d r \<longleftrightarrow> r \<in> map_option f_data ` set (dk_path d # dk_before d)"
proof -
  assume "settled d"
  have "(case e of None \<Rightarrow> r = None | Some f \<Rightarrow> if f_synced f then r = Some (f_data f) else r \<noteq> None)
      \<longleftrightarrow> r = map_option f_data e" if "e \<in> set (dk_path d # dk_before d)" for e
  proof -
    have "case e of None \<Rightarrow> True | Some f \<Rightarrow> f_synced f" using \<open>settled d\<close> that unfolding settled_def list_all_iff by blast
    then show ?thesis by (cases e) simp_all
  qed
  then show ?thesis unfolding may_read_def list_ex_iff image_iff by (intro bex_cong refl)
qed

lemma crash_point:
  assumes "settled d" "n \<le> 5"
  shows "settled (fold do_op (take n (write_ops json)) d)
    \<and> dk_path (fold do_op (take n (write_ops json)) d)
        = (if n = 5 then Some \<lparr>f_data = json, f_synced = True, f_private = True\<rparr> else dk_path d)
    \<and> dk_before (fold do_op (take n (write_ops json)) d) = (if n = 5 then dk_path d # dk_before d else dk_before d)"
proof -
  have "n \<in> {0, 1, 2, 3, 4, 5}" using assms(2) by auto
  then show ?thesis using assms(1) by (auto simp: write_ops_def settled_def)
qed

text \<open>
  C34. Should the process or the machine stop after any number of the file operations of a
  write, what is read as the state file afterwards is a document that could be read
  before, or the new one in full: never a part of a document.
\<close>

theorem crash_leaves_a_whole_document:
  assumes "settled d" "n \<le> length (write_ops json)"
    and "may_read (fold do_op (take n (write_ops json)) d) r"
  shows "may_read d r \<or> r = Some json"
  using crash_point [OF assms(1), of n json] assms
  by (auto simp: may_read_settled write_ops_def split: if_splits)

theorem crash_leaves_a_whole_document_witness:
  "may_read (fold do_op (take 5 (write_ops ''new'')) \<lparr>dk_path = Some \<lparr>f_data = ''old'', f_synced = True, f_private = True\<rparr>,
      dk_before = [], dk_tmp = None\<rparr>) (Some ''new'')
   \<and> \<not> may_read (fold do_op (take 5 (write_ops ''new'')) \<lparr>dk_path = Some \<lparr>f_data = ''old'', f_synced = True, f_private = True\<rparr>,
      dk_before = [], dk_tmp = None\<rparr>) (Some ''ne'')"
proof -
  let ?d = "\<lparr>dk_path = Some \<lparr>f_data = ''old'', f_synced = True, f_private = True\<rparr>, dk_before = [], dk_tmp = None\<rparr>"
  have "settled ?d" by (simp add: settled_def)
  moreover have "5 \<le> length (write_ops ''new'')" by (simp add: write_ops_def)
  moreover have "\<not> may_read ?d (Some ''ne'')" by (simp add: may_read_def)
  moreover have "may_read (fold do_op (take 5 (write_ops ''new'')) ?d) (Some ''new'')"
    by (simp add: may_read_def write_ops_def)
  ultimately show ?thesis using crash_leaves_a_whole_document [of ?d 5 "''new''" "Some ''ne''"] by auto
qed

section \<open>The running store\<close>

text \<open>
  What can happen to a store of the running process: changes and reloads, with the
  outcome of every file operation, and edits of the file by its operator.
\<close>

datatype StoreOp =
  Update "State \<Rightarrow> State" string "FileOp \<Rightarrow> bool"
  | Reload bool
  | EditFile "File option"

fun store_act :: "(State \<Rightarrow> string) \<Rightarrow> (string \<Rightarrow> State option) \<Rightarrow> StateStore \<Rightarrow> StoreOp \<Rightarrow> StateStore" where
  "store_act tj fj s (Update f junk ok) = fst (update tj junk ok (\<lambda>st. (f st, ())) s)"
| "store_act tj fj s (Reload read_ok) = fst (reload fj read_ok s)"
| "store_act tj fj s (EditFile e) = s\<lparr>so_disk := (so_disk s)\<lparr>dk_path := e\<rparr>\<rparr>"

definition opened :: "(string \<Rightarrow> State option) \<Rightarrow> StateStore \<Rightarrow> bool" where
  "opened fj s \<longleftrightarrow> (\<exists>dir_ok read_ok d. open_store fj dir_ok read_ok d = Inr s)"

lemma default_state_valid: "validate default_state = None"
  by (simp add: validate_def default_state_def validate_listeners_def)

lemma checked_Inr: "checked fj bs = Inr st \<Longrightarrow> validate st = None"
  by (auto simp: checked_def split: option.splits)

interpretation running_store: op_machine "opened fj" "store_act tj fj" "\<lambda>s :: StateStore. validate (so_current s) = None" for tj fj
proof unfold_locales
  fix s :: StateStore assume "opened fj s"
  then show "validate (so_current s) = None"
    by (auto simp: opened_def open_store_def wrap_def default_state_valid split: if_splits option.splits sum.splits
        dest: checked_Inr)
next
  fix s :: StateStore and x assume inv: "validate (so_current s) = None"
  then show "validate (so_current (store_act tj fj s x)) = None"
  proof (cases x)
    case (Update f junk ok)
    then show ?thesis using inv
      by (auto simp: update_def publish_def Let_def write_atomic_def split: option.splits prod.splits if_splits)
  next
    case (Reload r)
    then show ?thesis using inv
      by (auto simp: reload_def publish_def split: option.splits sum.splits dest: checked_Inr)
  qed simp
qed

text \<open>
  Whatever is changed, reloaded or edited behind its back, and whichever file
  operations fail, the document the process serves is valid at every moment.
\<close>

theorem served_document_is_always_valid:
  assumes "open_store from_json dir_ok read_ok d = Inr s"
  shows "validate (so_current (foldl (store_act to_json from_json) s ops)) = None"
  by (rule running_store.run_inv) (use assms in \<open>auto simp: opened_def\<close>)

theorem served_document_is_always_valid_witness:
  "\<exists>s. open_store (\<lambda>_. None) True True \<lparr>dk_path = None, dk_before = [], dk_tmp = None\<rparr> = Inr s
    \<and> validate (so_current (foldl (store_act (\<lambda>_. []) (\<lambda>_. None)) s
        [Update (\<lambda>_. example_config) [] (\<lambda>_. True), EditFile None, Reload True])) = None"
proof -
  let ?d = "\<lparr>dk_path = None, dk_before = [], dk_tmp = None\<rparr>"
  have "open_store (\<lambda>_. None) True True ?d = Inr (wrap False default_state ?d)" by (simp add: open_store_def)
  from served_document_is_always_valid [OF this] this show ?thesis by blast
qed

theorem update_is_all_or_nothing_witness:
  "\<exists>s'. update (\<lambda>_. ''doc'') [] (\<lambda>_. True) (\<lambda>st. (example_config, ())) (wrap False default_state \<lparr>dk_path = None, dk_before = [], dk_tmp = None\<rparr>) = (s', Inr ())
    \<and> so_current s' = example_config"
proof -
  let ?s = "wrap False default_state \<lparr>dk_path = None, dk_before = [], dk_tmp = None\<rparr>"
  obtain s' res where u: "update (\<lambda>_. ''doc'') [] (\<lambda>_. True) (\<lambda>st. (example_config, ())) ?s = (s', res)" by fastforce
  note T = update_is_all_or_nothing [OF refl u]
  then have "\<not> isl res" using example_config_valid(1) by simp
  then obtain r where "res = Inr r" by (cases res) auto
  with T u show ?thesis by auto
qed

end
