(* ===== verification/Pooler.thy ===== *)
theory Pooler
  imports Store
begin

text \<open>
  The client listeners of the process (\<open>havuz-server/src/pooler.rs\<close>): the set of bound
  sockets is kept equal to what the configuration asks for. Whether the operating system
  grants a port is the argument \<open>grant\<close>; tasks and sockets themselves are not modelled, and
  an accept loop is represented by the route it reads for each connection. The result is
  that a reconcile implements its specification port by port, so that a client that names a
  database on a bound port is served by the pool that declares the name.
\<close>

section \<open>Reconciling\<close>

record Bound =
  bd_family :: string
  bd_route :: PoolRoute
  bd_pools :: "string list"
  bd_aliases :: "(string \<times> string) list"

record Pooler =
  pl_reserved :: "u16 option"
  pl_families :: "string list"
  pl_bound :: "(u16, Bound) btree"

definition new_pooler :: "u16 option \<Rightarrow> string list \<Rightarrow> Pooler" where
  "new_pooler reserved families = \<lparr>pl_reserved = reserved, pl_families = families, pl_bound = []\<rparr>"

text \<open>The families this build serves: one for every usable entry of the registry, or a refusal to start.\<close>

definition DRIVERS :: "string list" where
  "DRIVERS = [''postgres'', ''jdbc'']"

fun build_families :: "FamilyDescriptor list \<Rightarrow> string list option" where
  "build_families [] = Some []"
| "build_families (f # fs) =
     (if fd_id f \<in> set DRIVERS then map_option ((#) (fd_id f)) (build_families fs) else None)"

definition build :: "string list option" where
  "build = (case build_families usable_families of None \<Rightarrow> None | Some fs \<Rightarrow> if fs = [] then None else Some fs)"

definition retained :: "(u16, Listener) btree \<Rightarrow> (u16, Bound) btree \<Rightarrow> (u16, Bound) btree" where
  "retained plans bound =
     filter (\<lambda>(port, b). case map_of plans port of Some plan \<Rightarrow> ln_family plan = bd_family b | None \<Rightarrow> False) bound"

text \<open>One turn of the loop over the plans; \<open>None\<close> is a panic in the constructor of a route.\<close>

definition refresh :: "Listener \<Rightarrow> Bound \<Rightarrow> Bound option" where
  "refresh plan b =
     (if bd_pools b \<noteq> ln_pools plan \<or> bd_aliases b \<noteq> ln_aliases plan
      then map_option (\<lambda>rt. b\<lparr>bd_route := rt, bd_pools := ln_pools plan, bd_aliases := ln_aliases plan\<rparr>)
             (with_aliases (ln_pools plan) (ln_aliases plan))
      else Some b)"

definition bind_new :: "Listener \<Rightarrow> Bound option" where
  "bind_new plan =
     map_option (\<lambda>rt. \<lparr>bd_family = ln_family plan, bd_route = rt, bd_pools = ln_pools plan, bd_aliases = ln_aliases plan\<rparr>)
       (with_aliases (ln_pools plan) (ln_aliases plan))"

definition reconcile_port :: "(u16 \<Rightarrow> bool) \<Rightarrow> u16 \<times> Listener \<Rightarrow> Pooler \<Rightarrow> Pooler option" where
  "reconcile_port grant = (\<lambda>(port, plan) pl.
     let put = (\<lambda>b. pl\<lparr>pl_bound := btree_insert port b (pl_bound pl)\<rparr>) in
     case map_of (pl_bound pl) port of
       Some b \<Rightarrow> map_option put (refresh plan b)
     | None \<Rightarrow>
         if pl_reserved pl = Some port then Some pl
         else if ln_family plan \<notin> set (pl_families pl) then Some pl
         else if \<not> grant port then Some pl
         else map_option put (bind_new plan))"

fun reconcile_ports :: "(u16 \<Rightarrow> bool) \<Rightarrow> (u16, Listener) btree \<Rightarrow> Pooler \<Rightarrow> Pooler option" where
  "reconcile_ports grant [] pl = Some pl"
| "reconcile_ports grant (x # xs) pl =
     (case reconcile_port grant x pl of None \<Rightarrow> None | Some pl' \<Rightarrow> reconcile_ports grant xs pl')"

definition reconcile :: "(u16 \<Rightarrow> bool) \<Rightarrow> StateStore \<Rightarrow> Pooler \<Rightarrow> Pooler option" where
  "reconcile grant store pl =
     (let plans = listeners (so_current store)
      in reconcile_ports grant plans (pl\<lparr>pl_bound := retained plans (pl_bound pl)\<rparr>))"

section \<open>The specification\<close>

text \<open>A socket whose route is the one its pool and alias lists describe.\<close>

definition in_step :: "Bound \<Rightarrow> bool" where
  "in_step b \<longleftrightarrow> with_aliases (bd_pools b) (bd_aliases b) = Some (bd_route b)"

definition pooler_ok :: "Pooler \<Rightarrow> bool" where
  "pooler_ok pl \<longleftrightarrow> btree (pl_bound pl) \<and> (\<forall>b \<in> snd ` set (pl_bound pl). in_step b)"

definition serves :: "Listener \<Rightarrow> Bound" where
  "serves plan =
     \<lparr>bd_family = ln_family plan, bd_route = \<lparr>rt_pools = ln_pools plan, rt_aliases = ln_aliases plan\<rparr>,
      bd_pools = ln_pools plan, bd_aliases = ln_aliases plan\<rparr>"

text \<open>
  What is bound afterwards: a planned port that was bound for the family already, or that
  is free to take, has a driver and is granted.
\<close>

definition wanted :: "(u16 \<Rightarrow> bool) \<Rightarrow> (u16, Listener) btree \<Rightarrow> Pooler \<Rightarrow> u16 \<Rightarrow> Bound option" where
  "wanted grant plans pl port =
     (case map_of plans port of
        None \<Rightarrow> None
      | Some plan \<Rightarrow>
          if (case map_of (pl_bound pl) port of Some b \<Rightarrow> bd_family b = ln_family plan | None \<Rightarrow> False)
             \<or> pl_reserved pl \<noteq> Some port \<and> ln_family plan \<in> set (pl_families pl) \<and> grant port
          then Some (serves plan) else None)"

lemma refresh_serves:
  assumes "ln_pools plan \<noteq> []" "in_step b" "bd_family b = ln_family plan"
  shows "refresh plan b = Some (serves plan)"
  using assms by (cases b) (auto simp: refresh_def serves_def with_aliases_def in_step_def split: if_splits)

lemma bind_new_serves: "ln_pools plan \<noteq> [] \<Longrightarrow> bind_new plan = Some (serves plan)"
  by (simp add: bind_new_def serves_def with_aliases_def)

lemma in_step_serves: "ln_pools plan \<noteq> [] \<Longrightarrow> in_step (serves plan)"
  by (simp add: in_step_def serves_def with_aliases_def)

lemma reconcile_port_map:
  assumes "pooler_ok pl" "ln_pools plan \<noteq> []"
    and "\<And>b. map_of (pl_bound pl) port = Some b \<Longrightarrow> bd_family b = ln_family plan"
  shows "\<exists>pl'. reconcile_port grant (port, plan) pl = Some pl' \<and> pooler_ok pl'
    \<and> pl_reserved pl' = pl_reserved pl \<and> pl_families pl' = pl_families pl
    \<and> map_of (pl_bound pl') = (map_of (pl_bound pl))(port := wanted grant [(port, plan)] pl port)"
proof (cases "map_of (pl_bound pl) port")
  case (Some b)
  then have "b \<in> snd ` set (pl_bound pl)" by (force dest: map_of_SomeD)
  then have "in_step b" using assms(1) unfolding pooler_ok_def by blast
  then have "refresh plan b = Some (serves plan)" using assms Some by (simp add: refresh_serves)
  moreover have "b' \<in> snd ` set (btree_insert port (serves plan) (pl_bound pl)) \<Longrightarrow> in_step b'" for b'
    using assms in_step_serves btree_values by (fastforce simp: pooler_ok_def)
  ultimately show ?thesis
    using Some assms by (auto simp: reconcile_port_def wanted_def pooler_ok_def Let_def)
next
  case None
  have "b' \<in> snd ` set (btree_insert port (serves plan) (pl_bound pl)) \<Longrightarrow> in_step b'" for b'
    using assms in_step_serves btree_values by (fastforce simp: pooler_ok_def)
  then show ?thesis
    using None assms by (auto simp: reconcile_port_def wanted_def pooler_ok_def Let_def bind_new_serves)
qed

lemma reconcile_ports_map:
  assumes "pooler_ok pl" "btree plans" "\<forall>plan \<in> snd ` set plans. ln_pools plan \<noteq> []"
    and "\<forall>port plan b. map_of plans port = Some plan \<and> map_of (pl_bound pl) port = Some b \<longrightarrow> bd_family b = ln_family plan"
  shows "\<exists>pl'. reconcile_ports grant plans pl = Some pl' \<and> pooler_ok pl'
    \<and> (\<forall>port. map_of (pl_bound pl') port =
        (if map_of plans port = None then map_of (pl_bound pl) port else wanted grant plans pl port))"
  using assms
proof (induction plans arbitrary: pl)
  case (Cons x plans)
  obtain p0 plan where x: "x = (p0, plan)" by (cases x)
  have d: "map_of plans p0 = None" "btree plans"
    using Cons.prems(2) by (auto simp: x btree_def map_of_eq_None_iff)
  have fam: "map_of (pl_bound pl) p0 = Some b \<Longrightarrow> bd_family b = ln_family plan" for b
    using Cons.prems(4) [rule_format, of p0 plan b] by (simp add: x)
  have "ln_pools plan \<noteq> []" using Cons.prems(3) by (simp add: x)
  from reconcile_port_map [where grant = grant, OF Cons.prems(1) this fam]
  obtain pl1 where pl1: "reconcile_port grant (p0, plan) pl = Some pl1" "pooler_ok pl1"
    "pl_reserved pl1 = pl_reserved pl" "pl_families pl1 = pl_families pl"
    "map_of (pl_bound pl1) = (map_of (pl_bound pl))(p0 := wanted grant [(p0, plan)] pl p0)" by blast
  have ne: "map_of plans port = Some q \<Longrightarrow> port \<noteq> p0" for port q using d(1) by auto
  have "\<exists>pl'. reconcile_ports grant plans pl1 = Some pl' \<and> pooler_ok pl'
    \<and> (\<forall>port. map_of (pl_bound pl') port =
        (if map_of plans port = None then map_of (pl_bound pl1) port else wanted grant plans pl1 port))"
  proof (rule Cons.IH [OF pl1(2) d(2)])
    show "\<forall>plan \<in> snd ` set plans. ln_pools plan \<noteq> []" using Cons.prems(3) by (simp add: x)
    have "bd_family b = ln_family q" if "map_of plans port = Some q" "map_of (pl_bound pl1) port = Some b" for port q b
      using Cons.prems(4) [rule_format, of port q b] that ne [OF that(1)] pl1(5) by (simp add: x)
    then show "\<forall>port q b. map_of plans port = Some q \<and> map_of (pl_bound pl1) port = Some b \<longrightarrow> bd_family b = ln_family q"
      by blast
  qed
  moreover have "wanted grant plans pl1 port = wanted grant (x # plans) pl port" if "map_of plans port \<noteq> None" for port
    using that ne pl1 by (auto simp: wanted_def x split: option.splits)
  moreover have "wanted grant [(p0, plan)] pl p0 = wanted grant (x # plans) pl p0" by (simp add: wanted_def x)
  ultimately show ?case using pl1 d(1) by (auto simp: x)
qed simp

lemma retained_map:
  assumes "pooler_ok pl"
  shows "pooler_ok (pl\<lparr>pl_bound := retained plans (pl_bound pl)\<rparr>)"
    and "map_of (retained plans (pl_bound pl)) port =
      (case (map_of plans port, map_of (pl_bound pl) port) of
         (Some plan, Some b) \<Rightarrow> if ln_family plan = bd_family b then Some b else None
       | _ \<Rightarrow> None)"
proof -
  have b: "btree (pl_bound pl)" using assms by (simp add: pooler_ok_def)
  show "pooler_ok (pl\<lparr>pl_bound := retained plans (pl_bound pl)\<rparr>)"
    using assms by (auto simp: pooler_ok_def retained_def btree_filter)
  show "map_of (retained plans (pl_bound pl)) port =
      (case (map_of plans port, map_of (pl_bound pl) port) of
         (Some plan, Some b) \<Rightarrow> if ln_family plan = bd_family b then Some b else None
       | _ \<Rightarrow> None)"
    unfolding retained_def map_of_filter_key [OF b] by (auto split: option.splits)
qed

lemma reconcile_wanted:
  assumes "pooler_ok pl"
  shows "\<exists>pl'. reconcile grant store pl = Some pl' \<and> pooler_ok pl'
    \<and> (\<forall>port. map_of (pl_bound pl') port = wanted grant (listeners (so_current store)) pl port)"
proof -
  let ?plans = "listeners (so_current store)"
  let ?pl = "pl\<lparr>pl_bound := retained ?plans (pl_bound pl)\<rparr>"
  have ne: "ln_pools plan \<noteq> []" if "map_of ?plans port = Some plan" for port plan
    using listener_SomeD(1,4) [OF that] by simp
  have nonempty: "\<forall>plan \<in> snd ` set ?plans. ln_pools plan \<noteq> []"
    using ne btree_lookup [OF listeners_gathered(1)] by force
  have at: "map_of (retained ?plans (pl_bound pl)) port =
      (case (map_of ?plans port, map_of (pl_bound pl) port) of
         (Some plan, Some b) \<Rightarrow> if ln_family plan = bd_family b then Some b else None
       | _ \<Rightarrow> None)" for port by (rule retained_map(2) [OF assms])
  have same: "\<forall>port plan b. map_of ?plans port = Some plan \<and> map_of (pl_bound ?pl) port = Some b \<longrightarrow> bd_family b = ln_family plan"
    using at by (auto split: option.splits if_splits)
  from reconcile_ports_map [where grant = grant and pl = ?pl, OF retained_map(1) [OF assms] listeners_gathered(1) nonempty same]
  obtain pl' where pl': "reconcile_ports grant ?plans ?pl = Some pl'" "pooler_ok pl'"
    and m: "\<forall>port. map_of (pl_bound pl') port =
        (if map_of ?plans port = None then map_of (pl_bound ?pl) port else wanted grant ?plans ?pl port)" by blast
  have "map_of (pl_bound pl') port = wanted grant ?plans pl port" for port
    using spec [OF m, of port] at [of port] by (auto simp: wanted_def split: option.splits)
  then show ?thesis using pl' unfolding reconcile_def Let_def by blast
qed

section \<open>Drivers\<close>

lemma build_drivers: "build = Some [''postgres'', ''jdbc'']"
  by code_simp

lemma usable_has_driver:
  assumes "family fid = Some f" "is_usable (fd_maturity f)"
  shows "fid \<in> set [''postgres'', ''jdbc'']"
proof -
  have "list_all (\<lambda>f. is_usable (fd_maturity f) \<longrightarrow> fd_id f \<in> set [''postgres'', ''jdbc'']) FAMILIES" by code_simp
  then show ?thesis using family_found [OF assms(1)] assms(2) unfolding list_all_iff by blast
qed

lemma plan_has_driver:
  assumes "validate st = None" "btree (st_pools st)" "map_of (listeners st) port = Some plan"
  shows "ln_family plan \<in> set [''postgres'', ''jdbc'']"
proof -
  let ?e = "hd (on_port port (enabled_pools st))"
  have "?e \<in> set (on_port port (enabled_pools st))" using listener_SomeD(1) [OF assms(3)] by simp
  then have "?e \<in> set (st_pools st)" by (simp add: in_on_port in_enabled_pools)
  then have "validate_pool (snd ?e) (fst ?e) = None" using validate_None(2) [OF assms(1)] by (metis prod.collapse)
  then obtain f where "family (pc_family (snd ?e)) = Some f" "is_usable (fd_maturity f)"
    by (auto simp: validate_pool_def is_usable_def split: option.splits if_splits)
  then show ?thesis using usable_has_driver listener_SomeD(3) [OF assms(3)] by simp
qed

text \<open>
  C26. For a valid document a reconcile never panics and leaves exactly the planned sockets:
  a planned port is bound afterwards when it was bound for that family before, or is not
  the admin's and is granted by the system; it then serves exactly the planned pools and
  aliases. A port that no enabled pool declares is closed. Adding a pool to a live port
  does not depend on whether the system would grant the port again.
\<close>

theorem reconcile_implements_the_plan:
  assumes "validate (so_current store) = None" "btree (st_pools (so_current store))" "pooler_ok pl"
    and "build = Some (pl_families pl)"
  shows "\<exists>pl'. reconcile grant store pl = Some pl' \<and> pooler_ok pl'
    \<and> (\<forall>port. map_of (pl_bound pl') port =
        (case map_of (listeners (so_current store)) port of
           None \<Rightarrow> None
         | Some plan \<Rightarrow>
             if (\<exists>b. map_of (pl_bound pl) port = Some b \<and> bd_family b = ln_family plan)
                \<or> pl_reserved pl \<noteq> Some port \<and> grant port
             then Some (serves plan) else None))"
proof -
  have "ln_family plan \<in> set (pl_families pl)" if "map_of (listeners (so_current store)) port = Some plan" for port plan
    using plan_has_driver [OF assms(1,2) that] assms(4) unfolding build_drivers option.inject by simp
  then have "wanted grant (listeners (so_current store)) pl port =
        (case map_of (listeners (so_current store)) port of
           None \<Rightarrow> None
         | Some plan \<Rightarrow>
             if (\<exists>b. map_of (pl_bound pl) port = Some b \<and> bd_family b = ln_family plan)
                \<or> pl_reserved pl \<noteq> Some port \<and> grant port
             then Some (serves plan) else None)" for port
    by (auto simp: wanted_def split: option.splits)
  then show ?thesis using reconcile_wanted [OF assms(3), of grant store] by simp
qed

definition example_running :: StateStore where
  "example_running = wrap True example_config \<lparr>dk_path = None, dk_before = [], dk_tmp = None\<rparr>"

lemma new_pooler_ok: "pooler_ok (new_pooler reserved fs)"
  by (simp add: pooler_ok_def new_pooler_def)

theorem reconcile_implements_the_plan_witness:
  "\<exists>pl' b. reconcile (\<lambda>_. True) example_running (new_pooler (Some 8080) [''postgres'', ''jdbc'']) = Some pl'
    \<and> map_of (pl_bound pl') 6432 = Some b \<and> bd_family b = ''postgres''"
proof -
  let ?pl = "new_pooler (Some 8080) [''postgres'', ''jdbc'']"
  have cur: "so_current example_running = example_config" by (simp add: example_running_def wrap_def)
  have fs: "build = Some (pl_families ?pl)" by (simp add: build_drivers new_pooler_def)
  obtain plan where plan: "map_of (listeners example_config) 6432 = Some plan" "ln_family plan = ''postgres''"
  proof -
    have "(case map_of (listeners example_config) 6432 of Some l \<Rightarrow> ln_family l = ''postgres'' | None \<Rightarrow> False)" by code_simp
    then show ?thesis using that by (auto split: option.splits)
  qed
  from reconcile_implements_the_plan [of example_running, unfolded cur, OF example_config_valid(1,2) new_pooler_ok fs, of "\<lambda>_. True"]
  obtain pl' where "reconcile (\<lambda>_. True) example_running ?pl = Some pl'"
    "map_of (pl_bound pl') 6432 = Some (serves plan)" using plan by (auto simp: new_pooler_def)
  then show ?thesis using plan by (auto simp: serves_def)
qed

text \<open>
  A port whose pools change family is closed and bound again within one pass. The closed
  socket is released only when its aborted task stops, so the system may refuse the port;
  the pass then ends with the port unbound.
\<close>

lemma family_change_can_lose_the_port:
  assumes "pooler_ok pl" "map_of (pl_bound pl) port = Some b"
    and "map_of (listeners (so_current store)) port = Some plan" "bd_family b \<noteq> ln_family plan" "\<not> grant port"
  shows "\<exists>pl'. reconcile grant store pl = Some pl' \<and> map_of (pl_bound pl') port = None"
  using reconcile_wanted [OF assms(1), of grant store] assms by (auto simp: wanted_def)

end
