(* ===== verification/Sessions.thy ===== *)
theory Sessions
  imports Btree
begin

text \<open>
  Who is connected: the process-wide client gate (\<open>havuz-control/src/lib.rs\<close>, \<open>ClientGate\<close>)
  and the registry of live sessions (\<open>havuz-control/src/sessions.rs\<close>). Every operation runs
  under the registry's lock or is one atomic update, so that the interleavings of tasks are
  sequences of operations. A session's handle keeps the receiver of its kick flag and
  leaves the registry before it is dropped: an entry in the registry can always be
  signalled. The results: the gate admits as many clients as it promises and knows how
  many are in, a user never holds more sessions than its cap, and a kick reaches exactly
  the sessions it names and stays.
\<close>

section \<open>The client gate\<close>

record ClientGate =
  g_live :: u64
  g_max :: u64

definition new_gate :: "u32 \<Rightarrow> ClientGate" where
  "new_gate m = \<lparr>g_live = 0, g_max = ucast m\<rparr>"

definition try_acquire :: "ClientGate \<Rightarrow> ClientGate option" where
  "try_acquire g = (if g_live g < g_max g then Some (g\<lparr>g_live := g_live g + 1\<rparr>) else None)"

definition drop_permit :: "ClientGate \<Rightarrow> ClientGate" where
  "drop_permit g = g\<lparr>g_live := g_live g - 1\<rparr>"

text \<open>
  The gate beside the permits it has given out. A permit is dropped by its holder, so only
  a permit that is out can be dropped.
\<close>

datatype GateOp = Connect | Disconnect

fun gate_act :: "ClientGate \<times> nat \<Rightarrow> GateOp \<Rightarrow> ClientGate \<times> nat" where
  "gate_act (g, out) Connect = (case try_acquire g of Some g' \<Rightarrow> (g', Suc out) | None \<Rightarrow> (g, out))"
| "gate_act (g, out) Disconnect = (if out = 0 then (g, out) else (drop_permit g, out - 1))"

fun gate_inv :: "ClientGate \<times> nat \<Rightarrow> bool" where
  "gate_inv (g, out) \<longleftrightarrow> unat (g_live g) = out \<and> out \<le> unat (g_max g) \<and> unat (g_max g) < 2 ^ 32"

text \<open>The gate refines a counter with a ceiling.\<close>

fun counter_act :: "nat \<times> nat \<Rightarrow> GateOp \<Rightarrow> nat \<times> nat" where
  "counter_act (n, ceiling) Connect = (if n < ceiling then n + 1 else n, ceiling)"
| "counter_act (n, ceiling) Disconnect = (n - 1, ceiling)"

definition admits :: "ClientGate \<times> nat \<Rightarrow> GateOp \<Rightarrow> bool" where
  "admits s x = (case x of Connect \<Rightarrow> try_acquire (fst s) \<noteq> None | Disconnect \<Rightarrow> True)"

definition counter_admits :: "nat \<times> nat \<Rightarrow> GateOp \<Rightarrow> bool" where
  "counter_admits c x = (case x of Connect \<Rightarrow> fst c < snd c | Disconnect \<Rightarrow> True)"

lemma new_gate_max: "unat (g_max (new_gate m)) = unat m"
proof -
  have "unat m < 2 ^ 64" using unsigned_less [of m, where ?'a = nat] by (simp add: order.strict_trans)
  then show ?thesis by (simp add: new_gate_def unsigned_ucast_eq take_bit_nat_eq_self)
qed

lemma gate_acquire:
  assumes "gate_inv (g, out)"
  shows "try_acquire g = (if out < unat (g_max g) then Some (g\<lparr>g_live := g_live g + 1\<rparr>) else None)"
    and "out < unat (g_max g) \<Longrightarrow> unat (g_live g + 1) = Suc out"
  using assms by (auto simp: try_acquire_def word_less_nat_alt unat_word_ariths)

lemma gate_drop:
  assumes "gate_inv (g, Suc out)"
  shows "unat (g_live g - 1) = out"
proof -
  have "1 \<le> g_live g" using assms by (simp add: word_le_nat_alt)
  then show ?thesis using assms by (simp add: unat_sub)
qed

interpretation gate: refinement "\<lambda>s. \<exists>m. s = (new_gate m, 0 :: nat)" gate_act gate_inv admits
  "\<lambda>s. (snd s, unat (g_max (fst s)))" counter_act counter_admits
proof unfold_locales
  fix s assume "\<exists>m. s = (new_gate m, 0 :: nat)"
  then obtain m where "s = (new_gate m, 0)" by blast
  then show "gate_inv s" using unsigned_less [of m, where ?'a = nat] by (simp add: new_gate_max) (simp add: new_gate_def)
next
  fix s x assume inv: "gate_inv s"
  obtain g out where s: "s = (g, out)" by (cases s)
  show "gate_inv (gate_act s x)" using inv gate_acquire [of g out] gate_drop [of g "out - 1"] unfolding s
    by (cases x) (auto simp: drop_permit_def)
  show "(snd (gate_act s x), unat (g_max (fst (gate_act s x)))) = counter_act (snd s, unat (g_max (fst s))) x"
    using inv gate_acquire(1) [of g out] unfolding s by (cases x) (auto simp: drop_permit_def)
  show "admits s x = counter_admits (snd s, unat (g_max (fst s))) x"
    using inv gate_acquire(1) [of g out] unfolding s by (cases x) (auto simp: admits_def counter_admits_def)
qed

text \<open>
  Through any sequence of connections and disconnections the gate behaves as a counter
  with a ceiling: it lets a client in exactly when fewer than the ceiling are in, and its
  reading is the number of clients that are.
\<close>

theorem gate_is_a_counter:
  "let s = foldl gate_act (new_gate m, 0) xs; c = foldl counter_act (0, unat m) xs in
     snd s = fst c \<and> unat (g_live (fst s)) = fst c \<and> fst c \<le> unat m
     \<and> (try_acquire (fst s) \<noteq> None \<longleftrightarrow> fst c < unat m)"
proof -
  let ?s = "foldl gate_act (new_gate m, 0) xs"
  have start: "\<exists>k. (new_gate m, 0) = (new_gate k, 0 :: nat)" by blast
  note max = new_gate_max
  have ceiling: "snd (foldl counter_act c ys) = snd c" for c ys
  proof (induction ys arbitrary: c)
    case (Cons y ys)
    have "snd (counter_act c y) = snd c" by (cases c; cases y) auto
    then show ?case using Cons by simp
  qed simp
  note R = gate.run_refines [OF start, of xs]
  have "gate_inv ?s" by (rule gate.run_inv [OF start])
  then have "unat (g_live (fst ?s)) = snd ?s" "snd ?s \<le> unat (g_max (fst ?s))" by (cases ?s; simp)+
  moreover have "snd ?s = fst (foldl counter_act (0, unat m) xs)" "unat (g_max (fst ?s)) = unat m"
    using R(1) max ceiling [of "(0, unat m)" xs] by (metis fst_conv snd_conv)+
  moreover have "try_acquire (fst ?s) \<noteq> None \<longleftrightarrow> fst (foldl counter_act (0, unat m) xs) < unat m"
    using R(2) [of Connect] max ceiling [of "(0, unat m)" xs] by (simp add: admits_def counter_admits_def)
  ultimately show ?thesis by (simp add: Let_def)
qed

section \<open>The session registry\<close>

record LiveSession =
  ls_id :: u64
  ls_user :: string
  ls_pool :: string
  ls_application :: "string option"
  ls_client_addr :: string
  ls_since_ms :: int
  ls_elapsed_us :: u64

record SessionEntry =
  se_public :: LiveSession
  se_since :: time
  se_kick :: bool

datatype TooManySessions = TooManySessions string u32

record SessionRegistry =
  sr_next_id :: u64
  sr_entries :: "(u64, SessionEntry) btree"

definition new_sessions :: SessionRegistry where
  "new_sessions = \<lparr>sr_next_id = 1, sr_entries = []\<rparr>"

definition held :: "string \<Rightarrow> (u64, SessionEntry) btree \<Rightarrow> nat" where
  "held user es = length (filter (\<lambda>(_, e). ls_user (se_public e) = user) es)"

text \<open>A session that is admitted gets an id, its handle. The times are those read from the clocks.\<close>

definition register ::
  "time \<Rightarrow> int \<Rightarrow> string \<Rightarrow> string \<Rightarrow> string option \<Rightarrow> string \<Rightarrow> u32 \<Rightarrow> SessionRegistry \<Rightarrow> SessionRegistry \<times> (TooManySessions + u64)"
where
  "register now now_ms user pool app addr limit reg =
     (if limit > 0 \<and> held user (sr_entries reg) \<ge> unat limit then (reg, Inl (TooManySessions user limit))
      else let id = sr_next_id reg in
        (\<lparr>sr_next_id = id + 1,
          sr_entries = btree_insert id
            \<lparr>se_public = \<lparr>ls_id = id, ls_user = user, ls_pool = pool, ls_application = app, ls_client_addr = addr,
                ls_since_ms = now_ms, ls_elapsed_us = 0\<rparr>,
             se_since = now, se_kick = False\<rparr> (sr_entries reg)\<rparr>, Inr id))"

definition signal :: "(SessionEntry \<Rightarrow> bool) \<Rightarrow> SessionRegistry \<Rightarrow> SessionRegistry \<times> nat" where
  "signal P reg =
     (reg\<lparr>sr_entries := map (\<lambda>(i, e). (i, if P e then e\<lparr>se_kick := True\<rparr> else e)) (sr_entries reg)\<rparr>,
      length (filter (\<lambda>(_, e). P e) (sr_entries reg)))"

definition kick_user :: "string \<Rightarrow> SessionRegistry \<Rightarrow> SessionRegistry \<times> nat" where
  "kick_user user = signal (\<lambda>e. ls_user (se_public e) = user)"

definition kick_pool :: "string \<Rightarrow> SessionRegistry \<Rightarrow> SessionRegistry \<times> nat" where
  "kick_pool pool = signal (\<lambda>e. ls_pool (se_public e) = pool)"

definition kick_session :: "u64 \<Rightarrow> SessionRegistry \<Rightarrow> SessionRegistry \<times> bool" where
  "kick_session i reg = (let (reg', n) = signal (\<lambda>e. ls_id (se_public e) = i) reg in (reg', n > 0))"

definition session_snapshot :: "time \<Rightarrow> SessionRegistry \<Rightarrow> LiveSession list" where
  "session_snapshot now reg =
     sort_key (\<lambda>s. 2 ^ 64 - unat (ls_elapsed_us s))
       (map (\<lambda>(_, e). (se_public e)\<lparr>ls_elapsed_us := word_of_nat (as_micros (now - se_since e))\<rparr>) (sr_entries reg))"

definition count_user :: "(string, nat) btree \<Rightarrow> string \<Rightarrow> (string, nat) btree" where
  "count_user m u = btree_insert u ((case map_of m u of Some n \<Rightarrow> n | None \<Rightarrow> 0) + 1) m"

definition counts_by_user :: "SessionRegistry \<Rightarrow> (string, nat) btree" where
  "counts_by_user reg = foldl count_user [] (map (\<lambda>(_, e). ls_user (se_public e)) (sr_entries reg))"

definition users_in_pool :: "string \<Rightarrow> SessionRegistry \<Rightarrow> string set" where
  "users_in_pool pool reg =
     set (map (\<lambda>(_, e). ls_user (se_public e)) (filter (\<lambda>(_, e). ls_pool (se_public e) = pool) (sr_entries reg)))"

definition deregister :: "u64 \<Rightarrow> SessionRegistry \<Rightarrow> SessionRegistry" where
  "deregister i reg = reg\<lparr>sr_entries := btree_remove i (sr_entries reg)\<rparr>"

text \<open>\<open>KickSignal\<close>: a handle's flag, or no flag.\<close>

definition is_kicked :: "u64 option \<Rightarrow> SessionRegistry \<Rightarrow> bool" where
  "is_kicked h reg =
     (case h of None \<Rightarrow> False
      | Some i \<Rightarrow> (case map_of (sr_entries reg) i of Some e \<Rightarrow> se_kick e | None \<Rightarrow> False))"

subsection \<open>Caps\<close>

lemma held_insert:
  "btree es \<Longrightarrow> held user (btree_insert i e es) \<le> held user es + (if ls_user (se_public e) = user then 1 else 0)"
  by (induction i e es rule: btree_insert.induct) (auto simp: held_def btree_def)

lemma held_remove: "held user (btree_remove i es) \<le> held user es"
  unfolding held_def btree_remove_def filter_filter by (induction es) auto

lemma held_signal:
  "(\<And>e. se_public (f e) = se_public e) \<Longrightarrow> held user (map (\<lambda>(i, e). (i, f e)) es) = held user es"
  unfolding held_def by (induction es) auto

datatype SessionOp =
  SRegister time int string string "string option" string
  | SKickUser string
  | SKickPool string
  | SKick u64
  | SDrop u64

text \<open>The cap of a user is configuration: the same for each of its sessions.\<close>

fun session_act :: "(string \<Rightarrow> u32) \<Rightarrow> SessionRegistry \<Rightarrow> SessionOp \<Rightarrow> SessionRegistry" where
  "session_act cap reg (SRegister now ms user pool app addr) = fst (register now ms user pool app addr (cap user) reg)"
| "session_act cap reg (SKickUser user) = fst (kick_user user reg)"
| "session_act cap reg (SKickPool pool) = fst (kick_pool pool reg)"
| "session_act cap reg (SKick i) = fst (kick_session i reg)"
| "session_act cap reg (SDrop i) = deregister i reg"

definition capped :: "(string \<Rightarrow> u32) \<Rightarrow> SessionRegistry \<Rightarrow> bool" where
  "capped cap reg \<longleftrightarrow> btree (sr_entries reg) \<and> (\<forall>user. cap user > 0 \<longrightarrow> held user (sr_entries reg) \<le> unat (cap user))"

lemma btree_map_snd: "btree (map (\<lambda>(i, e). (i, f e)) m) = btree m"
proof -
  have "map fst (map (\<lambda>(i, e). (i, f e)) m) = map fst m" by (induction m) auto
  then show ?thesis by (simp only: btree_def)
qed

lemma signal_capped: "capped cap reg \<Longrightarrow> capped cap (fst (signal P reg))"
  unfolding capped_def signal_def by (simp add: btree_map_snd held_signal)

lemma register_capped:
  assumes "capped cap reg"
  shows "capped cap (fst (register now ms user pool app addr (cap user) reg))"
proof -
  let ?e = "\<lparr>se_public = \<lparr>ls_id = sr_next_id reg, ls_user = user, ls_pool = pool, ls_application = app, ls_client_addr = addr,
                ls_since_ms = ms, ls_elapsed_us = 0\<rparr>, se_since = now, se_kick = False\<rparr>"
  have "held u (btree_insert (sr_next_id reg) ?e (sr_entries reg)) \<le> unat (cap u)"
    if "cap u > 0" "\<not> (cap user > 0 \<and> held user (sr_entries reg) \<ge> unat (cap user))" for u
    using held_insert [of "sr_entries reg" u "sr_next_id reg" ?e] assms that
    by (cases "u = user") (auto simp: capped_def intro: order_trans)
  then show ?thesis using assms by (auto simp: register_def capped_def Let_def)
qed

interpretation sessions: op_machine "\<lambda>reg. reg = new_sessions" "session_act cap" "capped cap" for cap
proof unfold_locales
  fix reg x assume "capped cap reg"
  then show "capped cap (session_act cap reg x)"
  proof (cases x)
    case (SDrop i)
    then show ?thesis using \<open>capped cap reg\<close> held_remove
      by (fastforce simp: capped_def deregister_def intro: order_trans)
  qed (simp_all add: register_capped signal_capped kick_user_def kick_pool_def kick_session_def case_prod_beta)
qed (simp add: new_sessions_def capped_def held_def)

text \<open>
  However clients of all users come, go and are kicked, no user with a cap ever holds
  more sessions than the cap, and a user below it is let in.
\<close>

theorem user_cap_is_kept:
  assumes "cap user > 0"
  shows "held user (sr_entries (foldl (session_act cap) new_sessions ops)) \<le> unat (cap user)
    \<and> ((\<exists>i. snd (register now ms user pool app addr (cap user) (foldl (session_act cap) new_sessions ops)) = Inr i)
        \<longleftrightarrow> held user (sr_entries (foldl (session_act cap) new_sessions ops)) < unat (cap user))"
proof -
  have "capped cap (foldl (session_act cap) new_sessions ops)" by (rule sessions.run_inv) (rule refl)
  then show ?thesis using assms by (auto simp: capped_def register_def Let_def)
qed

theorem user_cap_is_kept_witness:
  "held ''u'' (sr_entries (foldl (session_act (\<lambda>_. 1)) new_sessions
      [SRegister 0 0 ''u'' ''p'' None ''a'', SRegister 1 1 ''u'' ''p'' None ''b''])) \<le> 1"
proof -
  have "(0 :: u32) < (\<lambda>_ :: string. 1) ''u''" by simp
  from conjunct1 [OF user_cap_is_kept [OF this]] show ?thesis by (simp only: unsigned_1)
qed

subsection \<open>Kicks\<close>

definition entry_of :: "u64 \<Rightarrow> SessionRegistry \<Rightarrow> SessionEntry option" where
  "entry_of i reg = map_of (sr_entries reg) i"

lemma entry_of_signal:
  "entry_of i (fst (signal P reg)) = map_option (\<lambda>e. if P e then e\<lparr>se_kick := True\<rparr> else e) (entry_of i reg)"
proof -
  have "map_of (map (\<lambda>(i, e). (i, f e)) m) i = map_option f (map_of m i)" for m :: "(u64, SessionEntry) btree" and f
    by (induction m) auto
  then show ?thesis by (simp add: entry_of_def signal_def)
qed

lemma signal_only_kicks:
  "entry_of i (fst (signal P reg)) = Some e \<Longrightarrow> \<exists>d. entry_of i reg = Some d \<and> se_public e = se_public d"
  by (auto simp: entry_of_signal split: if_splits)

text \<open>A kick, once given, is not taken back by anything but the end of the session.\<close>

lemma kick_is_latched:
  assumes "is_kicked (Some i) reg" "btree (sr_entries reg)" "i \<noteq> sr_next_id reg" "\<forall>j. x \<noteq> SDrop j \<or> j \<noteq> i"
  shows "is_kicked (Some i) (session_act cap reg x)"
proof -
  obtain e where e: "entry_of i reg = Some e" "se_kick e"
    using assms(1) by (auto simp: is_kicked_def entry_of_def split: option.splits)
  have sig: "is_kicked (Some i) (fst (signal P reg))" for P
    using entry_of_signal [of i P reg] e by (simp add: is_kicked_def entry_of_def)
  show ?thesis
  proof (cases x)
    case (SRegister now ms user pool app addr)
    then show ?thesis using e assms by (auto simp: register_def is_kicked_def entry_of_def Let_def)
  next
    case (SDrop j)
    then show ?thesis using e assms by (auto simp: deregister_def is_kicked_def entry_of_def)
  qed (use sig in \<open>auto simp: kick_user_def kick_pool_def kick_session_def case_prod_beta\<close>)
qed

text \<open>
  Kicking a user signals exactly that user's sessions and reports how many there are;
  nothing else of any session changes.
\<close>

theorem kick_reaches_exactly_the_user:
  "snd (kick_user user reg) = held user (sr_entries reg)
   \<and> entry_of i (fst (kick_user user reg)) =
       map_option (\<lambda>e. e\<lparr>se_kick := se_kick e \<or> ls_user (se_public e) = user\<rparr>) (entry_of i reg)"
  unfolding kick_user_def entry_of_signal by (cases "entry_of i reg") (auto simp: signal_def held_def)

end
