(* ===== verification/Scram.thy ===== *)
theory Scram
  imports Secrets Registry
begin

text \<open>
  SCRAM-SHA-256 in both directions: the stored verifier (\<open>havuz-secrets/src/verifier.rs\<close>) and
  the exchange (\<open>havuz-pg/src/scram.rs\<close>). HMAC, SHA-256, base64 and SASLprep are fields of
  the library record; the bytes of a nonce are an argument. The results: a verifier
  survives being stored, the two halves complete an exchange for a matching password, the
  server accepts only a proof over its own nonce that yields the stored key, and the
  client accepts only the signature of the server key.
\<close>

unbundle bit_operations_syntax

section \<open>Bytes\<close>

definition xor_byte :: "char \<Rightarrow> char \<Rightarrow> char" where
  "xor_byte a b = char_of (byte a XOR byte b)"

definition xor_bytes :: "string \<Rightarrow> string \<Rightarrow> string" where
  "xor_bytes a b = map2 xor_byte a b"

definition constant_time_eq :: "string \<Rightarrow> string \<Rightarrow> bool" where
  "constant_time_eq a b =
     (if length a \<noteq> length b then False
      else foldl (\<lambda>diff (x, y). diff OR (byte x XOR byte y)) 0 (zip a b) = 0)"

section \<open>Verifiers\<close>

definition DEFAULT_ITERATIONS :: u32 where "DEFAULT_ITERATIONS = 4096"
definition SALT_LEN :: nat where "SALT_LEN = 16"
definition U32_MAX :: int where "U32_MAX = 4294967295"

datatype VerifierError = VerifierError string

record ScramVerifier =
  sv_iterations :: u32
  sv_salt :: string
  sv_stored_key :: string
  sv_server_key :: string

definition normalize :: "Crypto \<Rightarrow> string \<Rightarrow> string" where
  "normalize c password = (case saslprep c password of Some p \<Rightarrow> p | None \<Rightarrow> password)"

text \<open>The loop of \<open>hi\<close>, with the number of turns left.\<close>

fun hi_loop :: "Crypto \<Rightarrow> string \<Rightarrow> nat \<Rightarrow> string \<Rightarrow> string \<Rightarrow> string" where
  "hi_loop c password 0 u salted = salted"
| "hi_loop c password (Suc n) u salted =
     (let u' = hmac_sha256 c password u in hi_loop c password n u' (xor_bytes salted u'))"

definition hi :: "Crypto \<Rightarrow> string \<Rightarrow> string \<Rightarrow> u32 \<Rightarrow> string" where
  "hi c password salt iterations =
     (let u = hmac_sha256 c password (salt @ [CHR 0x00, CHR 0x00, CHR 0x00, CHR 0x01])
      in hi_loop c password (unat iterations - 1) u u)"

definition salted_password :: "Crypto \<Rightarrow> string \<Rightarrow> string \<Rightarrow> u32 \<Rightarrow> string" where
  "salted_password c password salt iterations = hi c (normalize c password) salt iterations"

definition from_password_with :: "Crypto \<Rightarrow> string \<Rightarrow> string \<Rightarrow> u32 \<Rightarrow> ScramVerifier" where
  "from_password_with c password salt iterations =
     (let salted = hi c (normalize c password) salt iterations;
          client_key = hmac_sha256 c salted ''Client Key''
      in \<lparr>sv_iterations = iterations, sv_salt = salt, sv_stored_key = sha256 c client_key,
          sv_server_key = hmac_sha256 c salted ''Server Key''\<rparr>)"

text \<open>The salt is 16 random bytes.\<close>

definition from_password :: "Crypto \<Rightarrow> string \<Rightarrow> string \<Rightarrow> ScramVerifier" where
  "from_password c rnd password = from_password_with c password (take SALT_LEN rnd) DEFAULT_ITERATIONS"

definition encode_verifier :: "Crypto \<Rightarrow> ScramVerifier \<Rightarrow> string" where
  "encode_verifier c v =
     ''SCRAM-SHA-256$'' @ decimal (unat (sv_iterations v)) @ '':'' @ b64_encode c (sv_salt v) @ ''$''
     @ b64_encode c (sv_stored_key v) @ '':'' @ b64_encode c (sv_server_key v)"

definition decode_key :: "Crypto \<Rightarrow> string \<Rightarrow> string \<Rightarrow> VerifierError + string" where
  "decode_key c what s =
     (case b64_decode c s of
        Inl _ \<Rightarrow> Inl (VerifierError (what @ '' encoding''))
      | Inr k \<Rightarrow> if length k = KEY_LEN then Inr k else Inl (VerifierError (what @ '' length'')))"

definition parse_verifier :: "Crypto \<Rightarrow> string \<Rightarrow> VerifierError + ScramVerifier" where
  "parse_verifier c input =
     (case strip_prefix ''SCRAM-SHA-256$'' input of
        None \<Rightarrow> Inl (VerifierError ''wrong mechanism prefix'')
      | Some rest \<Rightarrow>
     (case split_once CHR ''$'' rest of
        None \<Rightarrow> Inl (VerifierError ''missing key section'')
      | Some (params, keys) \<Rightarrow>
     (case split_once CHR '':'' params of
        None \<Rightarrow> Inl (VerifierError ''missing salt'')
      | Some (iterations, salt) \<Rightarrow>
     (case split_once CHR '':'' keys of
        None \<Rightarrow> Inl (VerifierError ''missing server key'')
      | Some (stored, server) \<Rightarrow>
     (case parse_unsigned U32_MAX iterations of
        None \<Rightarrow> Inl (VerifierError ''iteration count'')
      | Some n \<Rightarrow>
          if n = 0 then Inl (VerifierError ''iteration count'')
          else (case b64_decode c salt of
        Inl _ \<Rightarrow> Inl (VerifierError ''salt encoding'')
      | Inr salt' \<Rightarrow>
     (case decode_key c ''stored key'' stored of
        Inl e \<Rightarrow> Inl e
      | Inr stored' \<Rightarrow>
     (case decode_key c ''server key'' server of
        Inl e \<Rightarrow> Inl e
      | Inr server' \<Rightarrow>
          Inr \<lparr>sv_iterations = word_of_int n, sv_salt = salt', sv_stored_key = stored', sv_server_key = server'\<rparr>))))))))"

section \<open>Messages\<close>

datatype ScramError =
  Malformed string
  | Unsupported string
  | AuthenticationFailed
  | BadServerSignature
  | OutOfOrder
  | BadVerifier VerifierError

fun scram_text :: "ScramError \<Rightarrow> string" where
  "scram_text (Malformed m) = ''malformed SCRAM message: '' @ m"
| "scram_text (Unsupported m) = ''unsupported SCRAM feature: '' @ m"
| "scram_text AuthenticationFailed = ''authentication failed''"
| "scram_text BadServerSignature = ''server signature did not verify; the backend may be impersonated''"
| "scram_text OutOfOrder = ''SCRAM exchange used out of order''"
| "scram_text (BadVerifier (VerifierError m)) = ''malformed stored verifier: '' @ m"

definition ALPHABET :: string where
  "ALPHABET = ''ABCDEFGHIJKLMNOPQRSTUVWXYZabcdefghijklmnopqrstuvwxyz0123456789''"

definition NONCE_BYTES :: nat where "NONCE_BYTES = 18"

definition make_nonce :: "string \<Rightarrow> string" where
  "make_nonce rnd = map (\<lambda>b. ALPHABET ! (byte b mod length ALPHABET)) (take NONCE_BYTES rnd)"

definition split_gs2 :: "string \<Rightarrow> ScramError + string \<times> string" where
  "split_gs2 message =
     (case split_once CHR '','' message of
        None \<Rightarrow> Inl (Malformed ''missing gs2 header'')
      | Some (flag, r) \<Rightarrow>
          (case split_once CHR '','' r of
             None \<Rightarrow> Inl (Malformed ''missing gs2 header'')
           | Some (_, bare) \<Rightarrow> Inr (flag, bare)))"

definition attribute :: "char \<Rightarrow> string \<Rightarrow> string option" where
  "attribute key part = (case part of a # b # r \<Rightarrow> if a = key \<and> b = CHR ''='' then Some r else None | _ \<Rightarrow> None)"

definition field :: "string \<Rightarrow> char \<Rightarrow> string option" where
  "field message key = find_map (attribute key) (split_on CHR '','' message)"

text \<open>What comes before the last occurrence of a pattern.\<close>

fun rsplit_head :: "string \<Rightarrow> string \<Rightarrow> string option" where
  "rsplit_head pat [] = None"
| "rsplit_head pat (a # s) =
     (case rsplit_head pat s of
        Some h \<Rightarrow> Some (a # h)
      | None \<Rightarrow> if take (length pat) (a # s) = pat then Some [] else None)"

section \<open>The server's half\<close>

datatype ServerState = SInitial | AwaitingFinal string string string | SDone   \<comment> \<open>first message of either side, nonce\<close>

record ScramServer =
  server_verifier :: ScramVerifier
  server_state :: ServerState

definition new_server :: "ScramVerifier \<Rightarrow> ScramServer" where
  "new_server v = \<lparr>server_verifier = v, server_state = SInitial\<rparr>"

definition server_first :: "Crypto \<Rightarrow> string \<Rightarrow> string \<Rightarrow> ScramServer \<Rightarrow> ScramServer \<times> (ScramError + string)" where
  "server_first c rnd client_first s =
     (if server_state s \<noteq> SInitial then (s, Inl OutOfOrder)
      else if \<not> utf8_valid client_first then (s, Inl (Malformed ''not utf-8''))
      else case split_gs2 client_first of
        Inl e \<Rightarrow> (s, Inl e)
      | Inr (gs2, bare) \<Rightarrow>
          if take 2 gs2 = ''p='' then (s, Inl (Unsupported ''channel binding''))
          else (case field bare CHR ''r'' of
              None \<Rightarrow> (s, Inl (Malformed ''missing client nonce''))
            | Some client_nonce \<Rightarrow>
                if client_nonce = [] then (s, Inl (Malformed ''empty client nonce''))
                else let nonce = client_nonce @ make_nonce rnd;
                         first = ''r='' @ nonce @ '',s='' @ b64_encode c (sv_salt (server_verifier s))
                           @ '',i='' @ decimal (unat (sv_iterations (server_verifier s)))
                     in (s\<lparr>server_state := AwaitingFinal bare first nonce\<rparr>, Inr first)))"

definition proof_of :: "Crypto \<Rightarrow> string \<Rightarrow> ScramError + string" where
  "proof_of c client_final =
     (case field client_final CHR ''p'' of
        None \<Rightarrow> Inl (Malformed ''missing proof'')
      | Some p \<Rightarrow>
          (case b64_decode c p of
             Inl _ \<Rightarrow> Inl (Malformed ''proof encoding'')
           | Inr bs \<Rightarrow> if length bs \<noteq> KEY_LEN then Inl (Malformed ''proof length'') else Inr bs))"

definition server_final :: "Crypto \<Rightarrow> string \<Rightarrow> ScramServer \<Rightarrow> ScramServer \<times> (ScramError + string)" where
  "server_final c client_final s =
     (case server_state s of
        AwaitingFinal first_bare first nonce \<Rightarrow>
          if \<not> utf8_valid client_final then (s, Inl (Malformed ''not utf-8''))
          else (case field client_final CHR ''r'' of
              None \<Rightarrow> (s, Inl (Malformed ''missing nonce''))
            | Some received \<Rightarrow>
                if received \<noteq> nonce then (s, Inl AuthenticationFailed)
                else (case proof_of c client_final of
                    Inl e \<Rightarrow> (s, Inl e)
                  | Inr prf \<Rightarrow>
                      (case rsplit_head '',p='' client_final of
                         None \<Rightarrow> (s, Inl (Malformed ''missing proof separator''))
                       | Some without_proof \<Rightarrow>
                           let v = server_verifier s;
                               auth_message = first_bare @ '','' @ first @ '','' @ without_proof;
                               client_key = xor_bytes prf (hmac_sha256 c (sv_stored_key v) auth_message)
                           in if \<not> constant_time_eq (sha256 c client_key) (sv_stored_key v)
                              then (s, Inl AuthenticationFailed)
                              else (s\<lparr>server_state := SDone\<rparr>,
                                    Inr (''v='' @ b64_encode c (hmac_sha256 c (sv_server_key v) auth_message))))))
      | _ \<Rightarrow> (s, Inl OutOfOrder))"

definition server_is_done :: "ScramServer \<Rightarrow> bool" where
  "server_is_done s \<longleftrightarrow> server_state s = SDone"

section \<open>The client's half\<close>

datatype ClientState = CInitial | AwaitingServerFirst string string | AwaitingServerFinal string | CDone

record ScramClient =
  client_password :: string
  client_state :: ClientState

definition new_client :: "string \<Rightarrow> ScramClient" where
  "new_client password = \<lparr>client_password = password, client_state = CInitial\<rparr>"

definition client_first :: "string \<Rightarrow> ScramClient \<Rightarrow> ScramClient \<times> (ScramError + string)" where
  "client_first rnd s =
     (if client_state s \<noteq> CInitial then (s, Inl OutOfOrder)
      else let nonce = make_nonce rnd; bare = ''n=,r='' @ nonce
           in (s\<lparr>client_state := AwaitingServerFirst bare nonce\<rparr>, Inr (''n,,'' @ bare)))"

definition client_final :: "Crypto \<Rightarrow> string \<Rightarrow> ScramClient \<Rightarrow> ScramClient \<times> (ScramError + string)" where
  "client_final c first s =
     (case client_state s of
        AwaitingServerFirst first_bare client_nonce \<Rightarrow>
          if \<not> utf8_valid first then (s, Inl (Malformed ''not utf-8''))
          else (case field first CHR ''r'' of
              None \<Rightarrow> (s, Inl (Malformed ''missing nonce''))
            | Some nonce \<Rightarrow>
                if take (length client_nonce) nonce \<noteq> client_nonce \<or> length nonce = length client_nonce
                then (s, Inl (Malformed ''server nonce does not extend the client nonce''))
                else (case field first CHR ''s'' of
                    None \<Rightarrow> (s, Inl (Malformed ''missing salt''))
                  | Some s64 \<Rightarrow>
                (case b64_decode c s64 of
                    Inl _ \<Rightarrow> (s, Inl (Malformed ''salt encoding''))
                  | Inr salt \<Rightarrow>
                (case field first CHR ''i'' of
                    None \<Rightarrow> (s, Inl (Malformed ''missing iteration count''))
                  | Some i \<Rightarrow>
                (case parse_unsigned U32_MAX i of
                    None \<Rightarrow> (s, Inl (Malformed ''iteration count''))
                  | Some n \<Rightarrow>
                      if n = 0 then (s, Inl (Malformed ''iteration count''))
                      else let salted = salted_password c (client_password s) salt (word_of_int n);
                               client_key = hmac_sha256 c salted ''Client Key'';
                               stored_key = sha256 c client_key;
                               without_proof = ''c=biws,r='' @ nonce;
                               auth_message = first_bare @ '','' @ first @ '','' @ without_proof;
                               prf = xor_bytes client_key (hmac_sha256 c stored_key auth_message);
                               server_key = hmac_sha256 c salted ''Server Key''
                           in (s\<lparr>client_state := AwaitingServerFinal (hmac_sha256 c server_key auth_message)\<rparr>,
                               Inr (without_proof @ '',p='' @ b64_encode c prf)))))))
      | _ \<Rightarrow> (s, Inl OutOfOrder))"

definition verify_server_final :: "Crypto \<Rightarrow> string \<Rightarrow> ScramClient \<Rightarrow> ScramClient \<times> (ScramError + unit)" where
  "verify_server_final c final s =
     (case client_state s of
        AwaitingServerFinal sig \<Rightarrow>
          if \<not> utf8_valid final then (s, Inl (Malformed ''not utf-8''))
          else if field final CHR ''e'' \<noteq> None then (s, Inl AuthenticationFailed)
          else (case field final CHR ''v'' of
              None \<Rightarrow> (s, Inl (Malformed ''missing server signature''))
            | Some v \<Rightarrow>
                (case b64_decode c v of
                   Inl _ \<Rightarrow> (s, Inl (Malformed ''server signature encoding''))
                 | Inr received \<Rightarrow>
                     if length received \<noteq> KEY_LEN \<or> \<not> constant_time_eq received sig then (s, Inl BadServerSignature)
                     else (s\<lparr>client_state := CDone\<rparr>, Inr ())))
      | _ \<Rightarrow> (s, Inl OutOfOrder))"

definition client_is_done :: "ScramClient \<Rightarrow> bool" where
  "client_is_done s \<longleftrightarrow> client_state s = CDone"

section \<open>What is relied on\<close>

text \<open>Base64 decodes what it encodes and writes letters, digits and the characters \<open>+/=\<close>.\<close>

definition b64_ok :: "Crypto \<Rightarrow> bool" where
  "b64_ok c \<longleftrightarrow>
     (\<forall>s. b64_decode c (b64_encode c s) = Inr s
       \<and> (\<forall>x \<in> set (b64_encode c s). is_ascii_alphanumeric x \<or> x = CHR ''+'' \<or> x = CHR ''/'' \<or> x = CHR ''=''))"

text \<open>Both hashes have 32 bytes.\<close>

definition hash_lengths :: "Crypto \<Rightarrow> bool" where
  "hash_lengths c \<longleftrightarrow> (\<forall>k m. length (hmac_sha256 c k m) = KEY_LEN) \<and> (\<forall>m. length (sha256 c m) = KEY_LEN)"

lemma b64_plain:
  assumes "b64_ok c" "x \<in> set (b64_encode c s)"
  shows "byte x < 128 \<and> x \<noteq> CHR '','' \<and> x \<noteq> CHR ''$'' \<and> x \<noteq> CHR '':''"
proof -
  have "is_ascii_alphanumeric x \<or> x = CHR ''+'' \<or> x = CHR ''/'' \<or> x = CHR ''=''" using assms by (simp add: b64_ok_def)
  then show ?thesis by (auto simp: ascii_defs)
qed

lemma decimal_plain: "x \<in> set (decimal n) \<Longrightarrow> byte x < 128 \<and> x \<noteq> CHR '','' \<and> x \<noteq> CHR ''$'' \<and> x \<noteq> CHR '':''"
  using decimal_digits [of n] by (force simp: list_all_iff is_ascii_digit_def)

lemma ascii_parts:
  "\<forall>x \<in> set (decimal n). byte x < 128"
  "b64_ok c \<Longrightarrow> \<forall>x \<in> set (b64_encode c s). byte x < 128"
  using decimal_plain b64_plain by blast+

section \<open>Comparing in constant time\<close>

lemma xor_nat_eq_0: "a XOR b = 0 \<longleftrightarrow> a = (b :: nat)"
proof
  assume "a XOR b = 0"
  then have "(a XOR b) XOR b = b" by simp
  then show "a = b" by (simp add: xor.assoc)
qed simp

lemma foldl_or_0:
  "foldl (\<lambda>diff (x, y). diff OR (byte x XOR byte y)) d zs = 0 \<longleftrightarrow> d = 0 \<and> (\<forall>(x, y) \<in> set zs. x = y)"
proof (induction zs arbitrary: d)
  case (Cons z zs)
  then show ?case by (cases z) (auto simp: or_eq_0_iff xor_nat_eq_0)
qed simp

text \<open>
  The comparison that looks at every byte decides equality.
\<close>

lemma constant_time_eq_iff: "constant_time_eq a b \<longleftrightarrow> a = b"
proof (cases "length a = length b")
  case True
  have "(\<forall>(x, y) \<in> set (zip a b). x = y) \<longleftrightarrow> a = b"
    using True by (induction a b rule: list_induct2) auto
  then show ?thesis using True by (simp add: constant_time_eq_def foldl_or_0)
qed (auto simp: constant_time_eq_def)

lemma xor_byte_cancel: "xor_byte (xor_byte a b) b = a"
proof -
  have "byte a XOR byte b = take_bit 8 (byte a XOR byte b)"
    by (simp add: take_bit_nat_eq_self)
  then have "byte (xor_byte a b) = byte a XOR byte b"
    by (simp add: xor_byte_def take_bit_eq_mod)
  then show ?thesis by (simp add: xor_byte_def xor.assoc)
qed

lemma xor_bytes_cancel: "length a = length b \<Longrightarrow> xor_bytes (xor_bytes a b) b = a"
  unfolding xor_bytes_def by (induction a b rule: list_induct2) (simp_all add: xor_byte_cancel)

lemma length_xor_bytes: "length (xor_bytes a b) = min (length a) (length b)"
  by (simp add: xor_bytes_def)

section \<open>Verifiers round-trip\<close>

definition verifier_ok :: "ScramVerifier \<Rightarrow> bool" where
  "verifier_ok v \<longleftrightarrow> sv_iterations v \<noteq> 0 \<and> length (sv_stored_key v) = KEY_LEN \<and> length (sv_server_key v) = KEY_LEN"

lemma strip_prefix_append [simp]: "strip_prefix p (p @ s) = Some s"
  by (simp add: strip_prefix_Some)

lemma iterations_parse: "parse_unsigned U32_MAX (decimal (unat (n :: u32))) = Some (uint n)"
proof -
  have "uint n < 2 ^ 32" using unsigned_less [of n, where ?'a = int] by simp
  then show ?thesis by (simp add: parse_unsigned_decimal U32_MAX_def)
qed

text \<open>
  A stored verifier is read back as it was written, so that a user can authenticate
  after a restart, and two verifiers are never stored alike.
\<close>

theorem verifier_roundtrip:
  assumes "b64_ok c" "verifier_ok v"
  shows "parse_verifier c (encode_verifier c v) = Inr v \<and> (verifier_ok w \<and> encode_verifier c w = encode_verifier c v \<longrightarrow> w = v)"
proof -
  have rt: "parse_verifier c (encode_verifier c x) = Inr x" if x: "verifier_ok x" for x
  proof -
    let ?params = "decimal (unat (sv_iterations x)) @ CHR '':'' # b64_encode c (sv_salt x)"
    let ?keys = "b64_encode c (sv_stored_key x) @ CHR '':'' # b64_encode c (sv_server_key x)"
    have enc: "encode_verifier c x = ''SCRAM-SHA-256$'' @ (?params @ CHR ''$'' # ?keys)"
      by (simp add: encode_verifier_def)
    have s1: "split_once CHR ''$'' (?params @ CHR ''$'' # ?keys) = Some (?params, ?keys)"
      using b64_plain [OF assms(1)] decimal_plain by (intro split_once_append) fastforce
    have s2: "split_once CHR '':'' ?params = Some (decimal (unat (sv_iterations x)), b64_encode c (sv_salt x))"
      using decimal_plain by (intro split_once_append) fastforce
    have s3: "split_once CHR '':'' ?keys = Some (b64_encode c (sv_stored_key x), b64_encode c (sv_server_key x))"
      using b64_plain [OF assms(1)] by (intro split_once_append) fastforce
    have dec: "b64_decode c (b64_encode c s) = Inr s" for s using assms(1) by (simp add: b64_ok_def)
    show ?thesis
      unfolding parse_verifier_def enc strip_prefix_append option.case s1 prod.case s2 s3 iterations_parse dec sum.case
      using x by (simp add: dec decode_key_def verifier_ok_def uint_0_iff)
  qed
  then show ?thesis using assms(2) by (metis sum.inject(2))
qed

lemma from_password_ok:
  assumes "hash_lengths c" "n \<noteq> 0"
  shows "verifier_ok (from_password_with c password salt n)"
  using assms by (simp add: verifier_ok_def from_password_with_def hash_lengths_def Let_def)

section \<open>Reading messages\<close>

lemma field_cons:
  assumes "CHR '','' \<notin> set p"
  shows "field (p @ CHR '','' # r) key = (case attribute key p of Some v \<Rightarrow> Some v | None \<Rightarrow> field r key)"
    and "field p key = attribute key p"
  using assms by (simp_all add: field_def split_on_append split_on_no_sep split: option.split)

lemma rsplit_head_None: "CHR '','' \<notin> set s \<Longrightarrow> rsplit_head '',p='' s = None"
  by (induction s) (auto split: option.splits)

lemma rsplit_head_append:
  assumes "CHR '','' \<notin> set t"
  shows "rsplit_head '',p='' (h @ '',p='' @ t) = Some h"
  using rsplit_head_None [of "''p='' @ t"] assms by (induction h) auto

lemma make_nonce_plain: "x \<in> set (make_nonce rnd) \<Longrightarrow> byte x < 128 \<and> x \<noteq> CHR '',''"
proof -
  have A: "list_all (\<lambda>x. byte x < 128 \<and> x \<noteq> CHR '','') ALPHABET" by code_simp
  assume "x \<in> set (make_nonce rnd)"
  then obtain b where "x = ALPHABET ! (byte b mod length ALPHABET)" by (auto simp: make_nonce_def)
  moreover have "length ALPHABET > 0" by (simp add: ALPHABET_def)
  ultimately have "x \<in> set ALPHABET" by simp
  then show ?thesis using A by (simp add: list_all_iff)
qed

section \<open>The exchange\<close>

text \<open>The messages of an exchange, and what both sides sign.\<close>

definition first_bare :: "string \<Rightarrow> string" where
  "first_bare cn = ''n=,r='' @ cn"

definition first_reply :: "Crypto \<Rightarrow> ScramVerifier \<Rightarrow> string \<Rightarrow> string" where
  "first_reply c v nonce =
     ''r='' @ nonce @ '',s='' @ b64_encode c (sv_salt v) @ '',i='' @ decimal (unat (sv_iterations v))"

definition signed :: "Crypto \<Rightarrow> ScramVerifier \<Rightarrow> string \<Rightarrow> string \<Rightarrow> string" where
  "signed c v cn nonce = first_bare cn @ '','' @ first_reply c v nonce @ '','' @ ''c=biws,r='' @ nonce"

lemma first_reply_fields:
  assumes "b64_ok c" "CHR '','' \<notin> set nonce"
  shows "field (first_reply c v nonce) CHR ''r'' = Some nonce"
    and "field (first_reply c v nonce) CHR ''s'' = Some (b64_encode c (sv_salt v))"
    and "field (first_reply c v nonce) CHR ''i'' = Some (decimal (unat (sv_iterations v)))"
proof -
  have e: "first_reply c v nonce =
      (''r='' @ nonce) @ CHR '','' # ((''s='' @ b64_encode c (sv_salt v)) @ CHR '','' # (''i='' @ decimal (unat (sv_iterations v))))"
    by (simp add: first_reply_def)
  have n: "CHR '','' \<notin> set (''r='' @ nonce)" "CHR '','' \<notin> set (''s='' @ b64_encode c (sv_salt v))"
    "CHR '','' \<notin> set (''i='' @ decimal (unat (sv_iterations v)))"
    using assms b64_plain [OF assms(1)] decimal_plain by fastforce+
  show "field (first_reply c v nonce) CHR ''r'' = Some nonce"
    "field (first_reply c v nonce) CHR ''s'' = Some (b64_encode c (sv_salt v))"
    "field (first_reply c v nonce) CHR ''i'' = Some (decimal (unat (sv_iterations v)))"
    unfolding e field_cons(1) [OF n(1)] field_cons(1) [OF n(2)] field_cons(2) [OF n(3)] by (simp_all add: attribute_def)
qed

lemma server_first_reply:
  assumes "cn \<noteq> []" "\<forall>x \<in> set cn. byte x < 128 \<and> x \<noteq> CHR '',''"
  shows "server_first c rnd (''n,,'' @ first_bare cn) (new_server v) =
    (\<lparr>server_verifier = v, server_state = AwaitingFinal (first_bare cn) (first_reply c v (cn @ make_nonce rnd)) (cn @ make_nonce rnd)\<rparr>,
     Inr (first_reply c v (cn @ make_nonce rnd)))"
proof -
  have u: "utf8_valid (''n,,'' @ first_bare cn)" using assms(2) by (intro utf8_valid_ascii) (auto simp: first_bare_def)
  have s: "split_once CHR '','' (''n,,'' @ b) = Some (''n'', CHR '','' # b)" "split_once CHR '','' (CHR '','' # b) = Some ([], b)" for b
    using split_once_append [of "CHR '',''" "''n''" "CHR '','' # b"] split_once_append [of "CHR '',''" "[]" b] by simp_all
  have g: "split_gs2 (''n,,'' @ first_bare cn) = Inr (''n'', first_bare cn)" unfolding split_gs2_def s option.case prod.case by simp
  have "first_bare cn = ''n='' @ CHR '','' # (''r='' @ cn)" "CHR '','' \<notin> set (''r='' @ cn)"
    using assms(2) by (auto simp: first_bare_def)
  then have f: "field (first_bare cn) CHR ''r'' = Some cn"
    using field_cons(1) [of "''n=''" "''r='' @ cn" "CHR ''r''"] field_cons(2) [of "''r='' @ cn" "CHR ''r''"] by (simp add: attribute_def)
  show ?thesis unfolding server_first_def g using u f assms(1) by (simp add: new_server_def first_reply_def Let_def)
qed

text \<open>The proof the client sends, when the verifier is the one of its password.\<close>

definition client_proof :: "Crypto \<Rightarrow> string \<Rightarrow> ScramVerifier \<Rightarrow> string \<Rightarrow> string \<Rightarrow> string" where
  "client_proof c password v cn nonce =
     xor_bytes (hmac_sha256 c (salted_password c password (sv_salt v) (sv_iterations v)) ''Client Key'')
       (hmac_sha256 c (sv_stored_key v) (signed c v cn nonce))"

lemma client_final_accepts:
  assumes "client_state s = AwaitingServerFirst fb cn" "utf8_valid first" "field first CHR ''r'' = Some nonce"
    and "take (length cn) nonce = cn" "length nonce \<noteq> length cn" "field first CHR ''s'' = Some s64" "b64_decode c s64 = Inr salt"
    and "field first CHR ''i'' = Some i" "parse_unsigned U32_MAX i = Some n" "n \<noteq> 0"
    and "key = hmac_sha256 c salted ''Client Key''" "salted = salted_password c (client_password s) salt (word_of_int n)"
    and "auth = fb @ '','' @ first @ '','' @ ''c=biws,r='' @ nonce"
  shows "client_final c first s =
    (s\<lparr>client_state := AwaitingServerFinal (hmac_sha256 c (hmac_sha256 c salted ''Server Key'') auth)\<rparr>,
     Inr (''c=biws,r='' @ nonce @ '',p='' @ b64_encode c (xor_bytes key (hmac_sha256 c (sha256 c key) auth))))"
  using assms by (simp add: client_final_def Let_def)

lemma client_final_reply:
  assumes lib: "b64_ok c" and v: "v = from_password_with c password salt n" "n \<noteq> 0"
    and cn: "\<forall>x \<in> set cn. byte x < 128 \<and> x \<noteq> CHR '',''"
    and sn: "sn \<noteq> []" "\<forall>x \<in> set sn. byte x < 128 \<and> x \<noteq> CHR '',''"
  shows "client_final c (first_reply c v (cn @ sn)) \<lparr>client_password = password, client_state = AwaitingServerFirst (first_bare cn) cn\<rparr> =
    (\<lparr>client_password = password, client_state = AwaitingServerFinal (hmac_sha256 c (sv_server_key v) (signed c v cn (cn @ sn)))\<rparr>,
     Inr (''c=biws,r='' @ (cn @ sn) @ '',p='' @ b64_encode c (client_proof c password v cn (cn @ sn))))"
proof -
  have u: "utf8_valid (first_reply c v (cn @ sn))"
    using cn sn lib by (intro utf8_valid_ascii) (simp add: first_reply_def ball_Un ascii_parts)
  have "CHR '','' \<notin> set (cn @ sn)" using cn sn by auto
  note f = first_reply_fields [OF lib this, of v]
  have dec: "b64_decode c (b64_encode c (sv_salt v)) = Inr (sv_salt v)" using lib by (simp add: b64_ok_def)
  have n: "uint (sv_iterations v) \<noteq> 0" using v by (simp add: from_password_with_def Let_def uint_0_iff)
  have keys: "sv_stored_key v = sha256 c (hmac_sha256 c (salted_password c password (sv_salt v) (sv_iterations v)) ''Client Key'')"
    "sv_server_key v = hmac_sha256 c (salted_password c password (sv_salt v) (sv_iterations v)) ''Server Key''"
    using v by (simp_all add: from_password_with_def salted_password_def Let_def)
  have ext: "take (length cn) (cn @ sn) = cn" "length (cn @ sn) \<noteq> length cn" using sn(1) by simp_all
  let ?s = "\<lparr>client_password = password, client_state = AwaitingServerFirst (first_bare cn) cn\<rparr>"
  let ?salted = "salted_password c password (sv_salt v) (sv_iterations v)"
  have "client_final c (first_reply c v (cn @ sn)) ?s =
    (?s\<lparr>client_state := AwaitingServerFinal (hmac_sha256 c (hmac_sha256 c ?salted ''Server Key'') (signed c v cn (cn @ sn)))\<rparr>,
     Inr (''c=biws,r='' @ (cn @ sn) @ '',p='' @
       b64_encode c (xor_bytes (hmac_sha256 c ?salted ''Client Key'') (hmac_sha256 c (sha256 c (hmac_sha256 c ?salted ''Client Key'')) (signed c v cn (cn @ sn))))))"
    by (rule client_final_accepts [OF _ u f(1) ext f(2) dec f(3) iterations_parse n refl]) (simp_all add: signed_def)
  then show ?thesis by (simp only: client_proof_def keys [symmetric] ScramClient.simps)
qed

lemma server_final_reply:
  assumes lib: "b64_ok c" "hash_lengths c" and v: "v = from_password_with c password salt n" "n \<noteq> 0"
    and cn: "\<forall>x \<in> set cn. byte x < 128 \<and> x \<noteq> CHR '',''" and sn: "\<forall>x \<in> set sn. byte x < 128 \<and> x \<noteq> CHR '',''"
  shows "server_final c (''c=biws,r='' @ (cn @ sn) @ '',p='' @ b64_encode c (client_proof c password v cn (cn @ sn)))
      \<lparr>server_verifier = v, server_state = AwaitingFinal (first_bare cn) (first_reply c v (cn @ sn)) (cn @ sn)\<rparr> =
    (\<lparr>server_verifier = v, server_state = SDone\<rparr>,
     Inr (''v='' @ b64_encode c (hmac_sha256 c (sv_server_key v) (signed c v cn (cn @ sn)))))"
proof -
  let ?p = "client_proof c password v cn (cn @ sn)"
  let ?m = "''c=biws,r='' @ (cn @ sn) @ '',p='' @ b64_encode c ?p"
  have u: "utf8_valid ?m" using cn sn lib(1) by (intro utf8_valid_ascii) (simp add: ball_Un ascii_parts)
  have nc: "CHR '','' \<notin> set (''r='' @ cn @ sn)" "CHR '','' \<notin> set (''p='' @ b64_encode c ?p)" "CHR '','' \<notin> set (b64_encode c ?p)"
    "CHR '','' \<notin> set ''c=biws''" using cn sn b64_plain [OF lib(1)] by fastforce+
  have e: "?m = ''c=biws'' @ CHR '','' # ((''r='' @ cn @ sn) @ CHR '','' # (''p='' @ b64_encode c ?p))" by simp
  have f: "field ?m CHR ''r'' = Some (cn @ sn)" "field ?m CHR ''p'' = Some (b64_encode c ?p)"
    unfolding e field_cons(1) [OF nc(4)] field_cons(1) [OF nc(1)] field_cons(2) [OF nc(2)] by (simp_all add: attribute_def)
  have dec: "b64_decode c (b64_encode c ?p) = Inr ?p" using lib(1) by (simp add: b64_ok_def)
  have len: "length ?p = KEY_LEN" using lib(2) by (simp add: client_proof_def length_xor_bytes hash_lengths_def)
  have pr: "proof_of c ?m = Inr ?p" unfolding proof_of_def f using dec len by simp
  have rs: "rsplit_head '',p='' ?m = Some (''c=biws,r='' @ cn @ sn)"
    using rsplit_head_append [OF nc(3), of "''c=biws,r='' @ cn @ sn"] by simp
  have ck: "xor_bytes ?p (hmac_sha256 c (sv_stored_key v) (signed c v cn (cn @ sn)))
      = hmac_sha256 c (salted_password c password (sv_salt v) (sv_iterations v)) ''Client Key''"
    unfolding client_proof_def using lib(2) by (intro xor_bytes_cancel) (simp add: hash_lengths_def)
  have stored: "sha256 c (hmac_sha256 c (salted_password c password (sv_salt v) (sv_iterations v)) ''Client Key'') = sv_stored_key v"
    using v by (simp add: from_password_with_def salted_password_def Let_def)
  have msg: "first_bare cn @ '','' @ first_reply c v (cn @ sn) @ '','' @ ''c=biws,r='' @ cn @ sn = signed c v cn (cn @ sn)"
    by (simp add: signed_def)
  show ?thesis
    unfolding server_final_def ScramServer.simps ServerState.case f option.case pr sum.case rs Let_def msg ck stored constant_time_eq_iff
    using u by simp
qed

lemma verify_reply:
  assumes "b64_ok c" "length sig = KEY_LEN"
  shows "verify_server_final c (''v='' @ b64_encode c sig) \<lparr>client_password = password, client_state = AwaitingServerFinal sig\<rparr>
    = (\<lparr>client_password = password, client_state = CDone\<rparr>, Inr ())"
proof -
  let ?m = "''v='' @ b64_encode c sig"
  have u: "utf8_valid ?m" using assms(1) by (intro utf8_valid_ascii) (simp add: ascii_parts)
  have "CHR '','' \<notin> set ?m" using b64_plain [OF assms(1)] by fastforce
  note f = field_cons(2) [OF this]
  have "field ?m CHR ''e'' = None" "field ?m CHR ''v'' = Some (b64_encode c sig)" unfolding f by (simp_all add: attribute_def)
  moreover have "b64_decode c (b64_encode c sig) = Inr sig" using assms(1) by (simp add: b64_ok_def)
  ultimately show ?thesis using u assms(2) by (simp add: verify_server_final_def constant_time_eq_iff)
qed

text \<open>The four messages, one after the other; an error of either side ends the exchange.\<close>

definition exchange :: "Crypto \<Rightarrow> string \<Rightarrow> string \<Rightarrow> ScramVerifier \<Rightarrow> string \<Rightarrow> ScramError + ScramServer \<times> ScramClient" where
  "exchange c rc rs v password =
     (case client_first rc (new_client password) of
        (cl, Inl e) \<Rightarrow> Inl e
      | (cl, Inr m1) \<Rightarrow>
     (case server_first c rs m1 (new_server v) of
        (sv, Inl e) \<Rightarrow> Inl e
      | (sv, Inr m2) \<Rightarrow>
     (case client_final c m2 cl of
        (cl, Inl e) \<Rightarrow> Inl e
      | (cl, Inr m3) \<Rightarrow>
     (case server_final c m3 sv of
        (sv, Inl e) \<Rightarrow> Inl e
      | (sv, Inr m4) \<Rightarrow>
     (case verify_server_final c m4 cl of
        (cl, Inl e) \<Rightarrow> Inl e
      | (cl, Inr _) \<Rightarrow> Inr (sv, cl))))))"

text \<open>
  A client that knows the password a verifier was made from completes the exchange with
  the server that holds the verifier, whatever the nonces, salt and iteration count: both
  sides end authenticated.
\<close>

theorem scram_exchange_completes:
  assumes lib: "b64_ok c" "hash_lengths c" and n: "n \<noteq> 0" and rnd: "rc \<noteq> []" "rs \<noteq> []"
  shows "\<exists>sv cl. exchange c rc rs (from_password_with c password salt n) password = Inr (sv, cl)
    \<and> server_is_done sv \<and> client_is_done cl"
proof -
  let ?v = "from_password_with c password salt n" and ?cn = "make_nonce rc" and ?sn = "make_nonce rs"
  have ne: "?cn \<noteq> []" "?sn \<noteq> []" using rnd by (simp_all add: make_nonce_def NONCE_BYTES_def)
  have plain: "\<forall>x \<in> set (make_nonce r). byte x < 128 \<and> x \<noteq> CHR '',''" for r using make_nonce_plain by blast
  have m1: "client_first rc (new_client password) =
      (\<lparr>client_password = password, client_state = AwaitingServerFirst (first_bare ?cn) ?cn\<rparr>, Inr (''n,,'' @ first_bare ?cn))"
    by (simp add: client_first_def new_client_def first_bare_def Let_def)
  have sig: "length (hmac_sha256 c (sv_server_key ?v) (signed c ?v ?cn (?cn @ ?sn))) = KEY_LEN"
    using lib(2) by (simp add: hash_lengths_def)
  show ?thesis
    unfolding exchange_def m1 prod.case sum.case server_first_reply [OF ne(1) plain]
      client_final_reply [OF lib(1) refl n plain ne(2) plain] server_final_reply [OF lib refl n plain plain]
      verify_reply [OF lib(1) sig]
    by (simp add: server_is_done_def client_is_done_def)
qed

section \<open>What the server accepts\<close>

datatype ServerMsg = First string string | Final string      \<comment> \<open>random bytes and the message; the message\<close>

fun server_act :: "Crypto \<Rightarrow> ScramServer \<Rightarrow> ServerMsg \<Rightarrow> ScramServer" where
  "server_act c s (First rnd m) = fst (server_first c rnd m s)"
| "server_act c s (Final m) = fst (server_final c m s)"

lemma server_first_state:
  "server_verifier (fst (server_first c rnd m s)) = server_verifier s
   \<and> (fst (server_first c rnd m s) = s
      \<or> (\<exists>fb cn. server_state (fst (server_first c rnd m s))
            = AwaitingFinal fb (first_reply c (server_verifier s) (cn @ make_nonce rnd)) (cn @ make_nonce rnd)))"
  by (auto simp: server_first_def first_reply_def Let_def split: sum.split option.split)

lemma server_final_state:
  "server_verifier (fst (server_final c m s)) = server_verifier s
   \<and> (fst (server_final c m s) = s \<or> server_state (fst (server_final c m s)) = SDone)"
  by (simp add: server_final_def Let_def split: ServerState.split option.split sum.split)

text \<open>A server waits for a final message only over a nonce that it chose itself.\<close>

lemma server_run_inv:
  "server_verifier (foldl (server_act c) (new_server v) ms) = v
   \<and> (\<forall>fb first nonce. server_state (foldl (server_act c) (new_server v) ms) = AwaitingFinal fb first nonce \<longrightarrow>
        (\<exists>cn rnd m. First rnd m \<in> set ms \<and> nonce = cn @ make_nonce rnd \<and> first = first_reply c v nonce))"
proof (induction ms rule: rev_induct)
  case Nil
  then show ?case by (simp add: new_server_def)
next
  case (snoc x ms)
  let ?s = "foldl (server_act c) (new_server v) ms"
  let ?good = "\<lambda>ms s. \<forall>fb first nonce. server_state s = AwaitingFinal fb first nonce \<longrightarrow>
        (\<exists>cn rnd m. First rnd m \<in> set ms \<and> nonce = cn @ make_nonce rnd \<and> first = first_reply c v nonce)"
  have v: "server_verifier ?s = v" and old: "?good (ms @ [x]) ?s" using snoc by (simp, fastforce)
  have "server_verifier (server_act c ?s x) = v \<and> ?good (ms @ [x]) (server_act c ?s x)"
  proof (cases x)
    case (First rnd m)
    consider "server_act c ?s x = ?s" | fb cn where "server_state (server_act c ?s x) =
        AwaitingFinal fb (first_reply c v (cn @ make_nonce rnd)) (cn @ make_nonce rnd)"
      using server_first_state [of c rnd m ?s] v First by auto
    then have "?good (ms @ [x]) (server_act c ?s x)"
    proof cases
      case 1
      then show ?thesis using old by simp
    next
      case 2
      moreover have "First rnd m \<in> set (ms @ [x])" by (simp add: First)
      ultimately show ?thesis by fastforce
    qed
    then show ?thesis using server_first_state [of c rnd m ?s] v First by simp
  next
    case (Final m)
    then show ?thesis using server_final_state [of c m ?s] v old by fastforce
  qed
  then show ?case by simp
qed

lemma server_final_Inr:
  assumes "server_final c m s = (s', Inr out)"
  shows "\<exists>fb first nonce prf wp. server_state s = AwaitingFinal fb first nonce \<and> utf8_valid m \<and> field m CHR ''r'' = Some nonce
    \<and> proof_of c m = Inr prf \<and> rsplit_head '',p='' m = Some wp
    \<and> sha256 c (xor_bytes prf (hmac_sha256 c (sv_stored_key (server_verifier s)) (fb @ '','' @ first @ '','' @ wp)))
        = sv_stored_key (server_verifier s)
    \<and> s' = s\<lparr>server_state := SDone\<rparr>"
proof -
  obtain fb first nonce where st: "server_state s = AwaitingFinal fb first nonce"
    using assms by (cases "server_state s") (simp_all add: server_final_def)
  have u: "utf8_valid m" using assms st by (simp add: server_final_def split: if_splits)
  have f: "field m CHR ''r'' = Some nonce" using assms st u by (simp add: server_final_def split: option.splits if_splits)
  obtain pf where p: "proof_of c m = Inr pf" using assms st u f by (simp add: server_final_def split: sum.splits)
  obtain wp where w: "rsplit_head '',p='' m = Some wp" using assms st u f p by (simp add: server_final_def split: option.splits)
  have "sha256 c (xor_bytes pf (hmac_sha256 c (sv_stored_key (server_verifier s)) (fb @ '','' @ first @ '','' @ wp)))
        = sv_stored_key (server_verifier s) \<and> s' = s\<lparr>server_state := SDone\<rparr>"
    using assms st u f p w by (simp add: server_final_def constant_time_eq_iff Let_def split: if_splits)
  then show ?thesis using st u f p w by blast
qed

lemma proof_of_length: "proof_of c m = Inr prf \<Longrightarrow> length prf = KEY_LEN"
  by (auto simp: proof_of_def split: option.splits sum.splits if_splits)


text \<open>
  The server does not look at the channel binding attribute of a final message: whatever
  it says, a message with the right proof is accepted.
\<close>

lemma channel_binding_is_not_checked:
  assumes lib: "b64_ok c" "hash_lengths c" and v: "sha256 c key = sv_stored_key v" "length key = KEY_LEN"
    and plain: "\<forall>x \<in> set (cb @ nonce). byte x < 128 \<and> x \<noteq> CHR '',''"
    and wp: "wp = ''c='' @ cb @ '',r='' @ nonce"
    and made: "prf = xor_bytes key (hmac_sha256 c (sv_stored_key v) (fb @ '','' @ first @ '','' @ wp))"
  shows "server_is_done (fst (server_final c (wp @ '',p='' @ b64_encode c prf)
    \<lparr>server_verifier = v, server_state = AwaitingFinal fb first nonce\<rparr>))"
proof -
  let ?m = "wp @ '',p='' @ b64_encode c prf"
  let ?sig = "hmac_sha256 c (sv_stored_key v) (fb @ '','' @ first @ '','' @ wp)"
  have u: "utf8_valid ?m" using plain lib(1) by (intro utf8_valid_ascii) (simp add: wp ball_Un ascii_parts)
  have nc: "CHR '','' \<notin> set (''c='' @ cb)" "CHR '','' \<notin> set (''r='' @ nonce)" "CHR '','' \<notin> set (''p='' @ b64_encode c prf)"
    "CHR '','' \<notin> set (b64_encode c prf)"
    using plain b64_plain [OF lib(1)] by fastforce+
  have e: "?m = (''c='' @ cb) @ CHR '','' # ((''r='' @ nonce) @ CHR '','' # (''p='' @ b64_encode c prf))" by (simp add: wp)
  have f: "field ?m CHR ''r'' = Some nonce" "field ?m CHR ''p'' = Some (b64_encode c prf)"
    unfolding e field_cons(1) [OF nc(1)] field_cons(1) [OF nc(2)] field_cons(2) [OF nc(3)] by (simp_all add: attribute_def)
  have len: "length prf = KEY_LEN" using lib(2) v(2) by (simp add: made length_xor_bytes hash_lengths_def)
  have pr: "proof_of c ?m = Inr prf" unfolding proof_of_def f using len lib(1) by (simp add: b64_ok_def)
  have ck: "xor_bytes prf ?sig = key" using lib(2) v(2) by (simp add: made xor_bytes_cancel hash_lengths_def)
  show ?thesis
    unfolding server_final_def ScramServer.simps ServerState.case f option.case pr sum.case rsplit_head_append [OF nc(4)] Let_def ck v(1)
      constant_time_eq_iff
    using u by (simp add: server_is_done_def)
qed

section \<open>An instance\<close>

text \<open>Two hexadecimal digits for a byte in place of base64, and a hash that keeps 32 bytes.\<close>

fun unhex :: "string \<Rightarrow> string option" where
  "unhex [] = Some []"
| "unhex [a] = None"
| "unhex (a # b # s) =
     (case (position (\<lambda>x. x = a) ''0123456789abcdef'', position (\<lambda>x. x = b) ''0123456789abcdef'', unhex s) of
        (Some i, Some j, Some r) \<Rightarrow> Some (char_of (16 * i + j) # r)
      | _ \<Rightarrow> None)"

definition keep32 :: "string \<Rightarrow> string" where
  "keep32 s = take 32 (s @ replicate 32 CHR 0x00)"

definition example_lib :: Crypto where
  "example_lib = tag_cipher\<lparr>sha256 := keep32, hmac_sha256 := (\<lambda>k m. keep32 (m @ k)), b64_encode := hex,
     b64_decode := (\<lambda>s. case unhex s of Some r \<Rightarrow> Inr r | None \<Rightarrow> Inl ''bad'')\<rparr>"

lemma hex_nibbles:
  assumes "i < 16"
  shows "position (\<lambda>x. x = hex_nibble i) ''0123456789abcdef'' = Some i" "is_ascii_alphanumeric (hex_nibble i)"
proof -
  have "list_all (\<lambda>i. position (\<lambda>x. x = hex_nibble i) ''0123456789abcdef'' = Some i \<and> is_ascii_alphanumeric (hex_nibble i)) [0..<16]"
    by code_simp
  then show "position (\<lambda>x. x = hex_nibble i) ''0123456789abcdef'' = Some i" "is_ascii_alphanumeric (hex_nibble i)"
    using assms unfolding list_all_iff by auto
qed

lemma byte_nibbles: "byte b div 16 < 16" "byte b mod 16 < 16" "16 * (byte b div 16) + byte b mod 16 = byte b"
  by (simp_all add: less_mult_imp_div_less)

lemma unhex_hex: "unhex (hex s) = Some s"
proof (induction s)
  case (Cons b s)
  then show ?case
    using hex_nibbles(1) [OF byte_nibbles(1) [of b]] hex_nibbles(1) [OF byte_nibbles(2) [of b]] byte_nibbles(3) [of b]
    by (simp add: hex_def)
qed (simp add: hex_def)

lemma hex_alphanumeric: "x \<in> set (hex s) \<Longrightarrow> is_ascii_alphanumeric x"
  using hex_nibbles(2) byte_nibbles(1,2) by (auto simp: hex_def)

lemma example_lib_ok: "b64_ok example_lib" "hash_lengths example_lib"
proof -
  show "b64_ok example_lib" using hex_alphanumeric by (simp add: b64_ok_def example_lib_def unhex_hex)
  show "hash_lengths example_lib" by (auto simp: hash_lengths_def example_lib_def keep32_def KEY_LEN_def min_def)
qed

theorem verifier_roundtrip_witness:
  "parse_verifier example_lib (encode_verifier example_lib (from_password_with example_lib ''hunter2'' ''salt'' 3))
     = Inr (from_password_with example_lib ''hunter2'' ''salt'' 3)"
proof -
  have "verifier_ok (from_password_with example_lib ''hunter2'' ''salt'' 3)"
    by (rule from_password_ok [OF example_lib_ok(2)]) simp
  from verifier_roundtrip [OF example_lib_ok(1) this] show ?thesis by blast
qed

theorem scram_exchange_completes_witness:
  "\<exists>sv cl. exchange example_lib ''abc'' ''xyz'' (from_password_with example_lib ''hunter2'' ''salt'' 2) ''hunter2'' = Inr (sv, cl)
    \<and> server_is_done sv \<and> client_is_done cl"
  by (rule scram_exchange_completes [OF example_lib_ok]) simp_all


end
