(* ===== verification/Tls.thy ===== *)
theory Tls
  imports Rust_Str
begin

text \<open>
  TLS settings of the leg to the database (\<open>havuz-core/src/tls.rs\<close>): the five modes of
  \<open>sslmode\<close> and the client configuration each one builds. Reading files, parsing PEM and the
  trust store belong to libraries and are the fields of a record; a configuration is what it
  makes rustls verify. The result is the table of the file's header comment.
\<close>

section \<open>Modes\<close>

datatype SslMode = Disable | Prefer | Require | VerifyCa | VerifyFull

datatype TlsError =
  UnknownMode string
  | ReadCa string string       \<comment> \<open>path, what the system said\<close>
  | EmptyCa string
  | BadCa string string
  | NoPrivateKey string
  | Rustls string
  | NoProvider

fun tls_text :: "TlsError \<Rightarrow> string" where
  "tls_text (UnknownMode m) = ''unknown sslmode '' @ [CHR 0x27] @ m @ [CHR 0x27]"
| "tls_text (ReadCa path e) = ''cannot read CA bundle '' @ path @ '': '' @ e"
| "tls_text (EmptyCa path) = ''CA bundle '' @ path @ '' contains no certificates''"
| "tls_text (BadCa path e) = ''CA bundle '' @ path @ '' is malformed: '' @ e"
| "tls_text (NoPrivateKey path) = path @ '' contains no private key''"
| "tls_text (Rustls e) = ''tls configuration rejected: '' @ e"
| "tls_text NoProvider = ''no rustls crypto provider is installed''"

definition parse_mode :: "string \<Rightarrow> TlsError + SslMode" where
  "parse_mode value =
     (let v = to_ascii_lowercase (trim value) in
      if v = ''disable'' \<or> v = ''off'' then Inr Disable
      else if v = ''allow'' \<or> v = ''prefer'' then Inr Prefer
      else if v = ''require'' \<or> v = ''on'' then Inr Require
      else if v = ''verify-ca'' then Inr VerifyCa
      else if v = ''verify-full'' then Inr VerifyFull
      else Inl (UnknownMode v))"

fun ssl_mode_str :: "SslMode \<Rightarrow> string" where
  "ssl_mode_str Disable = ''disable''"
| "ssl_mode_str Prefer = ''prefer''"
| "ssl_mode_str Require = ''require''"
| "ssl_mode_str VerifyCa = ''verify-ca''"
| "ssl_mode_str VerifyFull = ''verify-full''"

definition wants_tls :: "SslMode \<Rightarrow> bool" where
  "wants_tls m \<longleftrightarrow> m \<noteq> Disable"

definition requires_tls :: "SslMode \<Rightarrow> bool" where
  "requires_tls m \<longleftrightarrow> m \<in> {Require, VerifyCa, VerifyFull}"

definition verifies_chain :: "SslMode \<Rightarrow> bool" where
  "verifies_chain m \<longleftrightarrow> m \<in> {VerifyCa, VerifyFull}"

definition verifies_hostname :: "SslMode \<Rightarrow> bool" where
  "verifies_hostname m \<longleftrightarrow> m = VerifyFull"

section \<open>Client configurations\<close>

text \<open>
  A root certificate is its bytes. \<open>FullVerification\<close> is rustls's own verifier,
  \<open>ChainOnlyVerifier\<close> and \<open>NoVerification\<close> are the two custom ones.
\<close>

datatype ClientConfig =
  FullVerification "string list"
  | ChainOnlyVerifier "string list"
  | NoVerification

record Pki =
  read_file :: "string \<Rightarrow> string + string"             \<comment> \<open>the error's text, or the bytes\<close>
  pem_certs :: "string \<Rightarrow> string + string list"
  root_add :: "string \<Rightarrow> string option"                 \<comment> \<open>why a certificate cannot be a root\<close>
  system_roots :: "string list"                       \<comment> \<open>\<open>webpki_roots\<close>\<close>
  protocol_versions :: "string option"                \<comment> \<open>why the provider has no safe default\<close>

definition load_roots :: "Pki \<Rightarrow> string option \<Rightarrow> TlsError + string list" where
  "load_roots pki ca_path =
     (case ca_path of
        None \<Rightarrow> Inr (system_roots pki)
      | Some path \<Rightarrow>
          (case read_file pki path of
             Inl e \<Rightarrow> Inl (ReadCa path e)
           | Inr bytes \<Rightarrow>
               (case pem_certs pki bytes of
                  Inl e \<Rightarrow> Inl (BadCa path e)
                | Inr certs \<Rightarrow>
                    if certs = [] then Inl (EmptyCa path)
                    else (case find_map (root_add pki) certs of
                        Some e \<Rightarrow> Inl (Rustls e)
                      | None \<Rightarrow> Inr certs))))"

definition client_config :: "Pki \<Rightarrow> SslMode \<Rightarrow> string option \<Rightarrow> TlsError + ClientConfig option" where
  "client_config pki mode ca_path =
     (if \<not> wants_tls mode then Inr None
      else if verifies_chain mode then
        (case load_roots pki ca_path of
           Inl e \<Rightarrow> Inl e
         | Inr roots \<Rightarrow>
             (case protocol_versions pki of
                Some e \<Rightarrow> Inl (Rustls e)
              | None \<Rightarrow> Inr (Some (if verifies_hostname mode then FullVerification roots else ChainOnlyVerifier roots))))
      else
        (case protocol_versions pki of Some e \<Rightarrow> Inl (Rustls e) | None \<Rightarrow> Inr (Some NoVerification)))"

text \<open>The listeners' certificate and key; a key file may hold none.\<close>

definition load_certs :: "Pki \<Rightarrow> string \<Rightarrow> TlsError + string list" where
  "load_certs pki path =
     (case read_file pki path of
        Inl e \<Rightarrow> Inl (ReadCa path e)
      | Inr pem \<Rightarrow>
          (case pem_certs pki pem of
             Inl e \<Rightarrow> Inl (BadCa path e)
           | Inr certs \<Rightarrow> if certs = [] then Inl (EmptyCa path) else Inr certs))"

definition load_key :: "(string \<Rightarrow> string + string option) \<Rightarrow> Pki \<Rightarrow> string \<Rightarrow> TlsError + string" where
  "load_key private_key pki path =
     (case read_file pki path of
        Inl e \<Rightarrow> Inl (ReadCa path e)
      | Inr pem \<Rightarrow>
          (case private_key pem of
             Inl e \<Rightarrow> Inl (BadCa path e)
           | Inr None \<Rightarrow> Inl (NoPrivateKey path)
           | Inr (Some key) \<Rightarrow> Inr key))"

section \<open>What a configuration verifies\<close>

text \<open>
  \<open>verify_server_cert\<close> of the three verifiers: \<open>chain\<close> says whether the certificate chains
  to the roots, \<open>names\<close> whether it is for the name dialled.
\<close>

fun verify_server_cert :: "(string list \<Rightarrow> bool) \<Rightarrow> bool \<Rightarrow> ClientConfig \<Rightarrow> bool" where
  "verify_server_cert chain names (FullVerification roots) \<longleftrightarrow> chain roots \<and> names"
| "verify_server_cert chain names (ChainOnlyVerifier roots) \<longleftrightarrow> chain roots"
| "verify_server_cert chain names NoVerification \<longleftrightarrow> True"

lemmas mode_defs = wants_tls_def requires_tls_def verifies_chain_def verifies_hostname_def

lemma mode_chain: "requires_tls m \<Longrightarrow> wants_tls m" "verifies_chain m \<Longrightarrow> requires_tls m" "verifies_hostname m \<Longrightarrow> verifies_chain m"
  by (auto simp: mode_defs)

text \<open>
  The configuration built for a mode verifies what the mode promises. With
  \<open>disable\<close> there is none; otherwise a server's certificate is accepted exactly when it
  chains to a trusted root, if the mode is one that verifies the chain, and is for the name
  dialled, if the mode is one that verifies the name. The roots are those of the CA file
  when one is given, which then holds at least one, and those of the system otherwise.
\<close>

theorem client_config_verifies_its_mode:
  assumes "client_config pki mode ca_path = Inr config"
  shows "case config of
      None \<Rightarrow> mode = Disable
    | Some cc \<Rightarrow> mode \<noteq> Disable \<and>
        (verify_server_cert chain names cc \<longleftrightarrow>
          (verifies_chain mode \<longrightarrow>
            (\<exists>roots. chain roots \<and> (case ca_path of
                None \<Rightarrow> roots = system_roots pki
              | Some p \<Rightarrow> roots \<noteq> [] \<and> (\<exists>bytes. read_file pki p = Inr bytes \<and> pem_certs pki bytes = Inr roots))))
          \<and> (verifies_hostname mode \<longrightarrow> names))"
  using assms
  by (cases mode)
    (auto simp: client_config_def load_roots_def mode_defs split: if_splits option.splits sum.splits)

definition example_pki :: Pki where
  "example_pki =
     \<lparr>read_file = (\<lambda>p. if p = ''/ca.pem'' then Inr ''AB'' else Inl ''no such file''),
      pem_certs = (\<lambda>bs. Inr (map (\<lambda>b. [b]) bs)), root_add = (\<lambda>_. None), system_roots = [''W''],
      protocol_versions = None\<rparr>"

theorem client_config_verifies_its_mode_witness:
  "client_config example_pki VerifyCa (Some ''/ca.pem'') = Inr (Some (ChainOnlyVerifier [''A'', ''B'']))
   \<and> verify_server_cert (\<lambda>rs. ''B'' \<in> set rs) False (ChainOnlyVerifier [''A'', ''B''])"
proof -
  have made: "client_config example_pki VerifyCa (Some ''/ca.pem'') = Inr (Some (ChainOnlyVerifier [''A'', ''B'']))"
    by (simp add: client_config_def load_roots_def mode_defs example_pki_def)
  show ?thesis
    using client_config_verifies_its_mode [OF made, of "\<lambda>rs. ''B'' \<in> set rs" False] made
    by (simp add: mode_defs example_pki_def)
qed

lemma parse_mode_names:
  "parse_mode ''disable'' = Inr Disable" "parse_mode ''prefer'' = Inr Prefer" "parse_mode ''require'' = Inr Require"
  "parse_mode ''verify-ca'' = Inr VerifyCa" "parse_mode ''verify-full'' = Inr VerifyFull"
  by code_simp+

interpretation ssl_mode: codec ssl_mode_str "\<lambda>s. case parse_mode s of Inr m \<Rightarrow> Some m | Inl _ \<Rightarrow> None" "\<lambda>_. True"
proof unfold_locales
  fix m
  show "(case parse_mode (ssl_mode_str m) of Inr m \<Rightarrow> Some m | Inl _ \<Rightarrow> None) = Some m"
    by (cases m) (simp_all add: parse_mode_names)
qed

end
