(* ===== verification/Login.thy ===== *)
theory Login
  imports Tls Scram Backend Proto
begin

text \<open>
  Opening a connection to PostgreSQL (\<open>PgConnector\<close> of \<open>havuz-pg/src/backend.rs\<close>): TLS, the
  startup packet and authentication. What the network and the server do during one attempt
  is an oracle, \<open>Dial\<close>; rustls is one of its fields. What \<open>{:?}\<close> prints for characters and
  lists of strings is the argument \<open>fmt\<close>. The results: the mode decides what may travel in
  the clear, the startup exchange always ends, and only some refusals are verdicts on the
  password.
\<close>

section \<open>The connection attempt\<close>

record BackendConfig =
  bc_host :: string
  bc_port :: u16
  bc_database :: string
  bc_user :: string
  bc_password :: string
  bc_ssl_mode :: SslMode
  bc_tls :: "ClientConfig option"
  bc_application_name :: string
  bc_supports_discard_all :: bool

record Dial =
  d_connect :: "string option"                                \<comment> \<open>why the address cannot be reached\<close>
  d_answer :: "string + char"                                 \<comment> \<open>to the TLS request\<close>
  d_name_ok :: "string \<Rightarrow> bool"                              \<comment> \<open>\<open>ServerName::try_from\<close>\<close>
  d_tls :: "ClientConfig \<Rightarrow> string \<Rightarrow> string option"          \<comment> \<open>why the TLS handshake fails\<close>
  d_reads :: "(string + Message) list"
  d_faults :: "string option list"
  d_random :: "nat \<Rightarrow> string"                                \<comment> \<open>the bytes drawn when so many reads are left\<close>
  d_now :: time

text \<open>A write, with the TLS configuration it went through.\<close>

record BackendStream =
  bs_tls :: "ClientConfig option"
  bs_reads :: "(string + Message) list"
  bs_faults :: "string option list"
  bs_sent :: "(ClientConfig option \<times> string) list"

record Fmt =
  fmt_char :: "char \<Rightarrow> string"
  fmt_strings :: "string list \<Rightarrow> string"

definition dialled :: "Dial \<Rightarrow> BackendStream" where
  "dialled d = \<lparr>bs_tls = None, bs_reads = d_reads d, bs_faults = d_faults d, bs_sent = []\<rparr>"

text \<open>\<open>write_all\<close> and \<open>flush\<close>; what a failing write was given may have gone out.\<close>

definition push_bytes :: "string \<Rightarrow> BackendStream \<Rightarrow> BackendStream \<times> (string + unit)" where
  "push_bytes bs s =
     (case next_fault (bs_faults s) of (f, fs) \<Rightarrow>
      let s = s\<lparr>bs_sent := bs_sent s @ [(bs_tls s, bs)], bs_faults := fs\<rparr> in
      case f of
        Some e \<Rightarrow> (s, Inl e)
      | None \<Rightarrow>
          (case next_fault (bs_faults s) of (f, fs) \<Rightarrow>
           (s\<lparr>bs_faults := fs\<rparr>, case f of Some e \<Rightarrow> Inl e | None \<Rightarrow> Inr ())))"

definition pull_msg :: "BackendStream \<Rightarrow> BackendStream \<times> (string + Message)" where
  "pull_msg s =
     (case bs_reads s of
        [] \<Rightarrow> (s, Inl ''unexpected end of file'')
      | r # rs \<Rightarrow> (s\<lparr>bs_reads := rs\<rparr>, r))"

definition or_backend :: "string \<Rightarrow> 's \<times> (string + 'a) \<Rightarrow> 's \<times> (ProtoError + 'a)" where
  "or_backend what r = (case r of (s, Inl e) \<Rightarrow> (s, Inl (PBackend (what @ e))) | (s, Inr x) \<Rightarrow> (s, Inr x))"

section \<open>TLS\<close>

definition negotiate_tls :: "Fmt \<Rightarrow> BackendConfig \<Rightarrow> Dial \<Rightarrow> BackendStream \<Rightarrow> BackendStream \<times> (ProtoError + unit)" where
  "negotiate_tls fmt cfg d s =
     (if \<not> wants_tls (bc_ssl_mode cfg) then (s, Inr ())
      else attempt (or_backend ''ssl request failed: '' (push_bytes (encode_startup SslRequest) s)) (\<lambda>s _.
      case d_answer d of
        Inl e \<Rightarrow> (s, Inl (PBackend (''no answer to ssl request: '' @ e)))
      | Inr a \<Rightarrow>
          if a = CHR ''S'' then
            (case bc_tls cfg of
               None \<Rightarrow> (s, Inl (PTls ''server offered TLS but no client config was built''))
             | Some tls \<Rightarrow>
                 if \<not> d_name_ok d (bc_host cfg)
                 then (s, Inl (PTls ([CHR 0x27] @ bc_host cfg @ [CHR 0x27] @ '' is not a valid TLS server name'')))
                 else (case d_tls d tls (bc_host cfg) of
                     Some e \<Rightarrow> (s, Inl (PTls (''handshake failed: '' @ e)))
                   | None \<Rightarrow> (s\<lparr>bs_tls := Some tls\<rparr>, Inr ())))
          else if a = CHR ''N'' then
            (if requires_tls (bc_ssl_mode cfg)
             then (s, Inl (PTls (''server refused TLS but sslmode='' @ ssl_mode_str (bc_ssl_mode cfg) @ '' requires it'')))
             else (s, Inr ()))
          else (s, Inl (PBackend (''unexpected answer to ssl request: '' @ fmt_char fmt a)))))"

section \<open>Authentication\<close>

definition parse_mechanisms :: "string \<Rightarrow> string list" where
  "parse_mechanisms bs = map from_utf8_lossy (filter (\<lambda>part. part \<noteq> []) (split_on NUL bs))"

definition parse_parameter_status :: "string \<Rightarrow> (string \<times> string) option" where
  "parse_parameter_status bs =
     (case split_on NUL bs of
        key # value # _ \<Rightarrow> Some (from_utf8_lossy key, from_utf8_lossy value)
      | _ \<Rightarrow> None)"

record Startup_Reply =
  su_parameters :: "(string \<times> string) list"
  su_backend_pid :: "u32 option"
  su_secret_key :: "i32 option"

definition no_reply :: Startup_Reply where
  "no_reply = \<lparr>su_parameters = [], su_backend_pid = None, su_secret_key = None\<rparr>"

definition scram_step :: "ScramClient \<times> (ScramError + 'a) \<Rightarrow> ProtoError + ScramClient \<times> 'a" where
  "scram_step r =
     (case r of (cl, Inl e) \<Rightarrow> Inl (PAuth (''scram: '' @ scram_text e)) | (cl, Inr x) \<Rightarrow> Inr (cl, x))"

text \<open>
  An authentication request: the SCRAM client afterwards and the message to send, with the
  words a failure to send it is reported with.
\<close>

definition auth_request ::
  "Fmt \<Rightarrow> Crypto \<Rightarrow> BackendConfig \<Rightarrow> string \<Rightarrow> string \<Rightarrow> ScramClient option
     \<Rightarrow> ProtoError + ScramClient option \<times> (string \<times> Message) option"
where
  "auth_request fmt c cfg rnd bs scram =
     (case get_i32 bs of
        None \<Rightarrow> Inl (PBackend ''truncated authentication request'')
      | Some (kind, rest) \<Rightarrow>
          if kind = 0 then Inr (scram, None)
          else if kind = 3 then
            Inr (scram, Some (''sending password: '', msg CHR ''p'' (bc_password cfg @ [NUL])))
          else if kind = 5 then
            Inl (PAuth (''backend requested md5 authentication, which havuz does not implement; ''
              @ ''switch the account to scram-sha-256''))
          else if kind = 10 then
            (let mechanisms = parse_mechanisms rest in
             if ''SCRAM-SHA-256'' \<notin> set mechanisms
             then Inl (PAuth (''backend offers no supported SASL mechanism (got '' @ fmt_strings fmt mechanisms @ '')''))
             else (case scram_step (client_first rnd (new_client (bc_password cfg))) of
                 Inl e \<Rightarrow> Inl e
               | Inr (cl, first) \<Rightarrow>
                   Inr (Some cl, Some (''sending sasl initial: '',
                     msg CHR ''p'' (''SCRAM-SHA-256'' @ [NUL] @ put_i32 (word_of_nat (length first)) @ first)))))
          else if kind = 11 then
            (case scram of
               None \<Rightarrow> Inl (PAuth ''unexpected SASLContinue'')
             | Some cl \<Rightarrow>
                 (case scram_step (client_final c rest cl) of
                    Inl e \<Rightarrow> Inl e
                  | Inr (cl, final) \<Rightarrow> Inr (Some cl, Some (''sending sasl response: '', msg CHR ''p'' final))))
          else if kind = 12 then
            (case scram of
               None \<Rightarrow> Inl (PAuth ''unexpected SASLFinal'')
             | Some cl \<Rightarrow>
                 (case scram_step (verify_server_final c rest cl) of
                    Inl e \<Rightarrow> Inl e
                  | Inr (cl, _) \<Rightarrow> Inr (Some cl, None)))
          else Inl (PAuth (''backend requested unsupported authentication method '' @ decimal_i32 kind)))"

text \<open>The error of a refused startup: a code of class 28 is a matter of credentials.\<close>

definition startup_refusal :: "Message \<Rightarrow> ProtoError" where
  "startup_refusal m =
     (let code = (case List.find (\<lambda>(f, _). f = CHR ''C'') (error_fields m) of Some (_, v) \<Rightarrow> v | None \<Rightarrow> []) in
      if starts_with ''28'' code then PAuth (error_detail ''unknown error'' m)
      else PBackend (code @ '': '' @ error_detail ''unknown error'' m))"

definition key_data :: "string \<Rightarrow> Startup_Reply \<Rightarrow> Startup_Reply" where
  "key_data bs su =
     (case get_i32 bs of
        None \<Rightarrow> su
      | Some (pid, rest) \<Rightarrow>
          (case get_i32 rest of
             None \<Rightarrow> su
           | Some (key, _) \<Rightarrow> su\<lparr>su_backend_pid := Some pid, su_secret_key := Some key\<rparr>))"

definition add_parameter :: "string \<Rightarrow> Startup_Reply \<Rightarrow> Startup_Reply" where
  "add_parameter bs su =
     (case parse_parameter_status bs of
        Some kv \<Rightarrow> su\<lparr>su_parameters := su_parameters su @ [kv]\<rparr>
      | None \<Rightarrow> su)"

definition send_reply :: "(string \<times> Message) option \<Rightarrow> BackendStream \<Rightarrow> BackendStream \<times> (ProtoError + unit)" where
  "send_reply r s =
     (case r of
        None \<Rightarrow> (s, Inr ())
      | Some (what, m) \<Rightarrow> or_backend what (push_bytes (encode_msg m) s))"

lemma pull_msg_shorter: "pull_msg s = (s', Inr m) \<Longrightarrow> length (bs_reads s') < length (bs_reads s)"
  by (auto simp: pull_msg_def split: list.splits)

lemma or_backend_Inr [simp]: "or_backend what r = (s, Inr x) \<longleftrightarrow> r = (s, Inr x)"
  by (cases r) (auto simp: or_backend_def split: sum.splits)

lemma push_bytes_reads: "push_bytes bs s = (s', r) \<Longrightarrow> bs_reads s' = bs_reads s"
  by (auto simp: push_bytes_def Let_def split: prod.splits option.splits)

lemma send_reply_reads: "send_reply r s = (s', x) \<Longrightarrow> bs_reads s' = bs_reads s"
  by (auto simp: send_reply_def or_backend_def push_bytes_reads split: option.splits prod.splits sum.splits)

function authenticate ::
  "Fmt \<Rightarrow> Crypto \<Rightarrow> BackendConfig \<Rightarrow> (nat \<Rightarrow> string) \<Rightarrow> Startup_Reply \<Rightarrow> ScramClient option \<Rightarrow> BackendStream
     \<Rightarrow> BackendStream \<times> (ProtoError + Startup_Reply)"
where
  "authenticate fmt c cfg rnd su scram s =
     attempt (or_backend ''reading startup response: '' (pull_msg s)) (\<lambda>s m.
       if tag m = CHR ''R'' then
         (case auth_request fmt c cfg (rnd (length (bs_reads s))) (body m) scram of
            Inl e \<Rightarrow> (s, Inl e)
          | Inr (scram, reply) \<Rightarrow> attempt (send_reply reply s) (\<lambda>s _. authenticate fmt c cfg rnd su scram s))
       else if tag m = CHR ''S'' then authenticate fmt c cfg rnd (add_parameter (body m) su) scram s
       else if tag m = CHR ''K'' then authenticate fmt c cfg rnd (key_data (body m) su) scram s
       else if tag m = CHR ''Z'' then (s, Inr su)
       else if tag m = CHR ''E'' then (s, Inl (startup_refusal m))
       else authenticate fmt c cfg rnd su scram s)"
  by pat_completeness auto
termination
proof (relation "measure (\<lambda>(_, _, _, _, _, _, s). length (bs_reads s))", goal_cases)
  case 1
  show ?case by simp
next
  case (2 fmt c cfg rnd su scram s s1 m out scram' reply s2 u)
  then show ?case using pull_msg_shorter [of s s1 m] send_reply_reads [of reply s1 s2 "Inr u"] by simp
qed (simp_all add: pull_msg_shorter)

declare authenticate.simps [simp del]

section \<open>Connecting\<close>

definition target_label :: "BackendConfig \<Rightarrow> string" where
  "target_label cfg = bc_host cfg @ '':'' @ decimal (unat (bc_port cfg))"

definition startup_packet :: "BackendConfig \<Rightarrow> StartupPacket" where
  "startup_packet cfg =
     Startup [(''user'', bc_user cfg), (''database'', bc_database cfg), (''application_name'', bc_application_name cfg),
       (''client_encoding'', ''UTF8'')]"

definition fresh_backend :: "BackendConfig \<Rightarrow> Dial \<Rightarrow> Startup_Reply \<Rightarrow> BackendStream \<Rightarrow> PgBackend" where
  "fresh_backend cfg d su s =
     \<lparr>pb_opened_at = d_now d, pb_host = bc_host cfg, pb_port = bc_port cfg, pb_pid = su_backend_pid su,
      pb_secret = su_secret_key su, pb_parameters = su_parameters su, pb_broken = False,
      supports_discard_all = bc_supports_discard_all cfg, pb_statements = new_backend_statements, applied_params = [],
      io_reads = bs_reads s, io_faults = bs_faults s, io_log = []\<rparr>"

definition connect :: "Fmt \<Rightarrow> Crypto \<Rightarrow> BackendConfig \<Rightarrow> Dial \<Rightarrow> BackendStream \<times> (ProtoError + PgBackend)" where
  "connect fmt c cfg d =
     (case d_connect d of
        Some e \<Rightarrow> (dialled d, Inl (PBackend (''connecting to '' @ target_label cfg @ '': '' @ e)))
      | None \<Rightarrow>
          attempt (negotiate_tls fmt cfg d (dialled d)) (\<lambda>s _.
          attempt (or_backend ''sending startup: '' (push_bytes (encode_startup (startup_packet cfg)) s)) (\<lambda>s _.
          attempt (authenticate fmt c cfg (d_random d) no_reply None s) (\<lambda>s su.
          (s, Inr (fresh_backend cfg d su s))))))"

section \<open>What may travel in the clear\<close>

lemma get_put_i32_end [simp]: "get_i32 (put_i32 w) = Some (w, [])"
  using get_put_i32 [of w "[]"] by simp

text \<open>Everything a step sends goes through the TLS the stream has at that moment.\<close>

definition sends_along :: "BackendStream \<Rightarrow> BackendStream \<Rightarrow> bool" where
  "sends_along s s' \<longleftrightarrow> bs_tls s' = bs_tls s \<and> (\<exists>out. bs_sent s' = bs_sent s @ map (Pair (bs_tls s)) out)"

lemma sends_along_refl [simp]: "sends_along s s"
  by (simp add: sends_along_def)

lemma sends_along_trans [trans]: "sends_along s t \<Longrightarrow> sends_along t u \<Longrightarrow> sends_along s u"
  unfolding sends_along_def by (metis append.assoc map_append)

lemma push_bytes_along: "push_bytes bs s = (s', r) \<Longrightarrow> sends_along s s'"
  by (auto simp: push_bytes_def sends_along_def Let_def split: prod.splits option.splits intro!: exI [of _ "[bs]"])

lemma or_backend_along: "or_backend what q = (s', r) \<Longrightarrow> (\<And>x. q = (s', x) \<Longrightarrow> P) \<Longrightarrow> P"
  by (cases q) (auto simp: or_backend_def split: sum.splits)

lemma send_reply_along: "send_reply reply s = (s', r) \<Longrightarrow> sends_along s s'"
  by (auto simp: send_reply_def push_bytes_along elim!: or_backend_along split: option.splits)

lemma pull_msg_along: "pull_msg s = (s', r) \<Longrightarrow> sends_along s s'"
  by (auto simp: pull_msg_def sends_along_def split: list.splits)

lemma authenticate_along: "authenticate fmt c cfg rnd su scram s = (s', r) \<Longrightarrow> sends_along s s'"
proof (induction fmt c cfg rnd su scram s arbitrary: s' r rule: authenticate.induct)
  case (1 fmt c cfg rnd su scram s)
  from "1.prems" [unfolded authenticate.simps [of fmt c cfg rnd su scram s]] show ?case
  proof (cases rule: attempt_cases)
    case (1 e)
    then show ?thesis by (auto elim!: or_backend_along dest: pull_msg_along)
  next
    case (2 s1 m)
    then have read: "sends_along s s1" by (auto dest: pull_msg_along)
    have "sends_along s1 s'"
      using 2 "1.IH" [OF 2(1)]
      by (auto split: if_splits sum.splits prod.splits elim!: attempt_cases dest: send_reply_along intro: sends_along_trans)
    with read show ?thesis by (rule sends_along_trans)
  qed
qed

text \<open>A TLS session under the configuration of the connector, with a server that passed its checks.\<close>

definition secured :: "BackendConfig \<Rightarrow> Dial \<Rightarrow> ClientConfig option \<Rightarrow> bool" where
  "secured cfg d tls \<longleftrightarrow> (\<exists>cc. tls = Some cc \<and> bc_tls cfg = Some cc \<and> d_tls d cc (bc_host cfg) = None)"

lemma negotiate_tls_result:
  assumes "negotiate_tls fmt cfg d s = (s', r)" "bs_tls s = None" "bs_sent s = []"
  shows "set (bs_sent s') \<subseteq> {(None, encode_startup SslRequest)}"
    and "r = Inr () \<Longrightarrow> secured cfg d (bs_tls s') \<or> bs_tls s' = None \<and> \<not> requires_tls (bc_ssl_mode cfg)"
proof -
  have push: "set (bs_sent t) = {(None, encode_startup SslRequest)}" "bs_tls t = None"
    if "push_bytes (encode_startup SslRequest) s = (t, x)" for t x
    using that assms(2,3) by (auto simp: push_bytes_def Let_def split: prod.splits option.splits)
  show "set (bs_sent s') \<subseteq> {(None, encode_startup SslRequest)}"
    using assms push
    by (auto simp: negotiate_tls_def split: if_splits sum.splits option.splits elim!: attempt_cases or_backend_along)
  show "secured cfg d (bs_tls s') \<or> bs_tls s' = None \<and> \<not> requires_tls (bc_ssl_mode cfg)" if "r = Inr ()"
    using assms that push(2)
    by (auto simp: negotiate_tls_def secured_def mode_defs split: if_splits sum.splits option.splits elim!: attempt_cases)
qed

lemma connect_phases:
  assumes "connect fmt c cfg d = (s, r)"
  shows "(s = dialled d \<and> (\<exists>e. r = Inl e)) \<or> (\<exists>e. negotiate_tls fmt cfg d (dialled d) = (s, Inl e) \<and> r = Inl e)
    \<or> (\<exists>t. negotiate_tls fmt cfg d (dialled d) = (t, Inr ()) \<and> sends_along t s)"
proof (cases "d_connect d")
  case None
  with assms have "attempt (negotiate_tls fmt cfg d (dialled d)) (\<lambda>s _.
      attempt (or_backend ''sending startup: '' (push_bytes (encode_startup (startup_packet cfg)) s)) (\<lambda>s _.
      attempt (authenticate fmt c cfg (d_random d) no_reply None s) (\<lambda>s su.
      (s, Inr (fresh_backend cfg d su s))))) = (s, r)" by (simp add: connect_def)
  then show ?thesis
    by (elim attempt_cases or_backend_along)
      (auto dest!: push_bytes_along authenticate_along intro: sends_along_trans)
qed (use assms in \<open>auto simp: connect_def\<close>)


definition example_dial :: "(string + Message) list \<Rightarrow> Dial" where
  "example_dial reads =
     \<lparr>d_connect = None, d_answer = Inr CHR ''S'', d_name_ok = (\<lambda>_. True), d_tls = (\<lambda>_ _. None), d_reads = reads,
      d_faults = [], d_random = (\<lambda>_. ''abc''), d_now = 0\<rparr>"

definition example_backend_config :: BackendConfig where
  "example_backend_config =
     \<lparr>bc_host = ''db'', bc_port = 5432, bc_database = ''app'', bc_user = ''app'', bc_password = ''hunter2'',
      bc_ssl_mode = VerifyFull, bc_tls = Some (FullVerification [''A'']), bc_application_name = ''havuz/main'',
      bc_supports_discard_all = True\<rparr>"

definition example_fmt :: Fmt where
  "example_fmt = \<lparr>fmt_char = (\<lambda>ch. [ch]), fmt_strings = concat\<rparr>"


section \<open>A login that succeeds\<close>

lemma authenticate_next:
  "bs_reads s = Inr m # rs \<Longrightarrow> authenticate fmt c cfg rnd su scram s =
     (let s = s\<lparr>bs_reads := rs\<rparr> in
      if tag m = CHR ''R'' then
         (case auth_request fmt c cfg (rnd (length rs)) (body m) scram of
            Inl e \<Rightarrow> (s, Inl e)
          | Inr (scram, reply) \<Rightarrow> attempt (send_reply reply s) (\<lambda>s _. authenticate fmt c cfg rnd su scram s))
       else if tag m = CHR ''S'' then authenticate fmt c cfg rnd (add_parameter (body m) su) scram s
       else if tag m = CHR ''K'' then authenticate fmt c cfg rnd (key_data (body m) su) scram s
       else if tag m = CHR ''Z'' then (s, Inr su)
       else if tag m = CHR ''E'' then (s, Inl (startup_refusal m))
       else authenticate fmt c cfg rnd su scram s)"
  by (simp add: authenticate.simps [of fmt c cfg rnd su scram s] pull_msg_def or_backend_def Let_def)

lemma parameter_status_read:
  assumes "text_ok k" "text_ok v"
  shows "parse_parameter_status (body (parameter_status k v)) = Some (k, v)"
  using assms
  by (simp add: parse_parameter_status_def parameter_status_def msg_def split_on_append text_ok_def lossy_valid_id)

lemma authenticate_parameters:
  assumes "bs_reads s = map (\<lambda>(k, v). Inr (parameter_status k v)) ps @ rs" "\<forall>(k, v) \<in> set ps. text_ok k \<and> text_ok v"
  shows "authenticate fmt c cfg rnd su scram s =
    authenticate fmt c cfg rnd (su\<lparr>su_parameters := su_parameters su @ ps\<rparr>) scram (s\<lparr>bs_reads := rs\<rparr>)"
  using assms
proof (induction ps arbitrary: s su)
  case (Cons kv ps)
  obtain k v where kv: "kv = (k, v)" by (cases kv)
  from Cons.prems kv have "bs_reads s = Inr (parameter_status k v) # (map (\<lambda>(k, v). Inr (parameter_status k v)) ps @ rs)" by simp
  note this [THEN authenticate_next]
  moreover have "tag (parameter_status k v) = CHR ''S''" by (simp add: parameter_status_def msg_def)
  moreover have "add_parameter (body (parameter_status k v)) su = su\<lparr>su_parameters := su_parameters su @ [kv]\<rparr>"
    using Cons.prems(2) kv by (simp add: add_parameter_def parameter_status_read)
  ultimately show ?case using Cons.IH [of "s\<lparr>bs_reads := map (\<lambda>(k, v). Inr (parameter_status k v)) ps @ rs\<rparr>"] Cons.prems(2)
    by (simp add: Let_def)
next
  case Nil
  then have "s\<lparr>bs_reads := rs\<rparr> = s" by (cases s) simp
  then show ?case by simp
qed

lemma send_reply_quiet:
  "bs_faults s = [] \<Longrightarrow> send_reply r s = (s\<lparr>bs_sent := bs_sent s @ (case r of None \<Rightarrow> [] | Some (_, m) \<Rightarrow> [(bs_tls s, encode_msg m)])\<rparr>, Inr ())"
  by (simp add: send_reply_def push_bytes_def next_fault_def or_backend_def Let_def split: option.split)

text \<open>What PostgreSQL sends after a startup packet, when it runs SCRAM with its verifier \<open>v\<close>.\<close>

definition server_conversation ::
  "Crypto \<Rightarrow> ScramVerifier \<Rightarrow> string \<Rightarrow> string \<Rightarrow> (string \<times> string) list \<Rightarrow> i32 \<Rightarrow> i32 \<Rightarrow> (string + Message) list"
where
  "server_conversation c v cn sn ps pid key =
     [Inr authentication_sasl, Inr (authentication_sasl_continue (first_reply c v (cn @ sn))),
      Inr (authentication_sasl_final (''v='' @ b64_encode c (hmac_sha256 c (sv_server_key v) (signed c v cn (cn @ sn))))),
      Inr authentication_ok]
     @ map (\<lambda>(k, v). Inr (parameter_status k v)) ps @ [Inr (backend_key_data pid key), Inr (ready_for_query TIdle)]"

lemma sasl_offer: "parse_mechanisms (''SCRAM-SHA-256'' @ [NUL, NUL]) = [''SCRAM-SHA-256'']"
  by code_simp

lemma authenticate_completes:
  assumes lib: "b64_ok c" "hash_lengths c" and v: "v = from_password_with c (bc_password cfg) salt n" "n \<noteq> 0"
    and rd: "bs_reads s = server_conversation c v cn sn ps pid key @ rs" "bs_faults s = []"
    and cn: "cn = make_nonce (rnd (length rs + length ps + 5))" and sn: "sn \<noteq> []" "\<forall>x \<in> set sn. byte x < 128 \<and> x \<noteq> CHR '',''"
    and ps: "\<forall>(k, v) \<in> set ps. text_ok k \<and> text_ok v"
  shows "\<exists>s'. authenticate fmt c cfg rnd no_reply None s =
      (s', Inr \<lparr>su_parameters = ps, su_backend_pid = Some pid, su_secret_key = Some key\<rparr>) \<and> bs_reads s' = rs \<and> bs_faults s' = []"
proof -
  have plain: "\<forall>x \<in> set cn. byte x < 128 \<and> x \<noteq> CHR '',''" unfolding cn using make_nonce_plain by blast
  let ?sig = "hmac_sha256 c (sv_server_key v) (signed c v cn (cn @ sn))"
  have sig: "length ?sig = KEY_LEN" using lib(2) by (simp add: hash_lengths_def)
  have first: "client_first (rnd (length rs + length ps + 5)) (new_client (bc_password cfg)) =
      (\<lparr>client_password = bc_password cfg, client_state = AwaitingServerFirst (first_bare cn) cn\<rparr>, Inr (''n,,'' @ first_bare cn))"
    by (simp add: client_first_def new_client_def first_bare_def Let_def cn)
  note final = client_final_reply [OF lib(1) v plain sn]
  note verified = verify_reply [OF lib(1) sig, of "bc_password cfg"]
  have req: "auth_request fmt c cfg (rnd (length rs + length ps + 5)) (body authentication_sasl) None =
       Inr (Some \<lparr>client_password = bc_password cfg, client_state = AwaitingServerFirst (first_bare cn) cn\<rparr>,
         Some (''sending sasl initial: '', msg CHR ''p'' (''SCRAM-SHA-256'' @ [NUL]
           @ put_i32 (word_of_nat (length (''n,,'' @ first_bare cn))) @ ''n,,'' @ first_bare cn)))"
    using sasl_offer by (simp add: auth_request_def authentication_sasl_def msg_def first scram_step_def Let_def)
  have con: "auth_request fmt c cfg rd (body (authentication_sasl_continue (first_reply c v (cn @ sn))))
        (Some \<lparr>client_password = bc_password cfg, client_state = AwaitingServerFirst (first_bare cn) cn\<rparr>) =
      Inr (Some \<lparr>client_password = bc_password cfg, client_state = AwaitingServerFinal ?sig\<rparr>,
        Some (''sending sasl response: '', msg CHR ''p''
          (''c=biws,r='' @ (cn @ sn) @ '',p='' @ b64_encode c (client_proof c (bc_password cfg) v cn (cn @ sn)))))" for rd
    using final by (simp add: auth_request_def authentication_sasl_continue_def msg_def scram_step_def)
  have fin: "auth_request fmt c cfg rd (body (authentication_sasl_final (''v='' @ b64_encode c ?sig)))
        (Some \<lparr>client_password = bc_password cfg, client_state = AwaitingServerFinal ?sig\<rparr>) =
      Inr (Some \<lparr>client_password = bc_password cfg, client_state = CDone\<rparr>, None)" for rd
    using verified by (simp add: auth_request_def authentication_sasl_final_def msg_def scram_step_def)
  have ok: "auth_request fmt c cfg rd (body authentication_ok) sc = Inr (sc, None)" for rd sc
    by (simp add: auth_request_def authentication_ok_def msg_def)
  have tags: "tag authentication_sasl = CHR ''R''" "tag (authentication_sasl_continue x) = CHR ''R''"
    "tag (authentication_sasl_final x) = CHR ''R''" "tag authentication_ok = CHR ''R''" "tag (backend_key_data pid key) = CHR ''K''"
    "tag (ready_for_query TIdle) = CHR ''Z''" for x
    by (simp_all add: authentication_sasl_def authentication_sasl_continue_def authentication_sasl_final_def
        authentication_ok_def backend_key_data_def ready_for_query_def msg_def)
  have key: "key_data (body (backend_key_data pid key)) su = su\<lparr>su_backend_pid := Some pid, su_secret_key := Some key\<rparr>" for su
    by (simp add: key_data_def backend_key_data_def msg_def)
  have left: "Suc (Suc (Suc (Suc (Suc (length ps + length rs))))) = length rs + length ps + 5" by simp
  show ?thesis
    using rd ps
    by (simp add: server_conversation_def authenticate_next tags left req con fin [simplified] ok key send_reply_quiet authenticate_parameters
        no_reply_def Let_def)
qed

lemma negotiate_tls_quiet:
  assumes "negotiate_tls fmt cfg d s = (t, Inr ())" "bs_faults s = []"
  shows "bs_reads t = bs_reads s \<and> bs_faults t = []"
proof -
  have "bs_reads u = bs_reads s \<and> bs_faults u = []" if "push_bytes bs s = (u, x)" for bs u x
    using that assms(2) by (auto simp: push_bytes_def next_fault_def Let_def)
  then show ?thesis
    using assms
    by (auto simp: negotiate_tls_def attempt_Inr split: if_splits sum.splits option.splits)
qed

text \<open>
  Against a PostgreSQL server that keeps a SCRAM verifier of the same password, with TLS
  settled one way or the other and a network that works, the connector opens a connection:
  it has completed SCRAM, holds the process id, the cancellation key and every session
  parameter the server announced, in order, and nothing else of the server's bytes was
  taken. Salt, iteration count and both nonces are arbitrary.
\<close>

theorem login_completes:
  assumes "b64_ok c" "hash_lengths c" "n \<noteq> 0" "sn \<noteq> []" "\<forall>x \<in> set sn. byte x < 128 \<and> x \<noteq> CHR '',''"
    and "\<forall>(k, v) \<in> set ps. text_ok k \<and> text_ok v"
    and "d_connect d = None" "d_faults d = []" "negotiate_tls fmt cfg d (dialled d) = (t, Inr ())"
    and "v = from_password_with c (bc_password cfg) salt n" "cn = make_nonce (d_random d (length rs + length ps + 5))"
    and "d_reads d = server_conversation c v cn sn ps pid key @ rs"
  shows "\<exists>s b. connect fmt c cfg d = (s, Inr b) \<and> pb_pid b = Some pid \<and> pb_secret b = Some key
    \<and> pb_parameters b = ps \<and> applied_params b = [] \<and> \<not> pb_broken b \<and> io_reads b = rs"
proof -
  let ?t = "t\<lparr>bs_sent := bs_sent t @ [(bs_tls t, encode_startup (startup_packet cfg))]\<rparr>"
  have t: "bs_reads ?t = server_conversation c v cn sn ps pid key @ rs" "bs_faults ?t = []"
    using negotiate_tls_quiet [OF assms(9)] assms(8,12) by (simp_all add: dialled_def)
  have push: "push_bytes (encode_startup (startup_packet cfg)) t = (?t, Inr ())"
    using t(2) by (simp add: push_bytes_def next_fault_def Let_def)
  obtain s where "authenticate fmt c cfg (d_random d) no_reply None ?t =
      (s, Inr \<lparr>su_parameters = ps, su_backend_pid = Some pid, su_secret_key = Some key\<rparr>)" "bs_reads s = rs"
    using authenticate_completes [where rnd = "d_random d", OF assms(1,2,10,3) t assms(11,4,5,6)] by blast
  with push assms(7,9) show ?thesis by (simp add: connect_def or_backend_def fresh_backend_def)
qed

theorem login_completes_witness:
  "\<exists>s b. connect example_fmt example_lib example_backend_config
      (example_dial (server_conversation example_lib (from_password_with example_lib ''hunter2'' ''salt'' 2)
         (make_nonce ''abc'') ''xyz'' [(''server_version'', ''16'')] 7 42)) = (s, Inr b)
    \<and> pb_pid b = Some 7 \<and> pb_parameters b = [(''server_version'', ''16'')]"
proof -
  let ?v = "from_password_with example_lib ''hunter2'' ''salt'' 2"
  let ?d = "example_dial (server_conversation example_lib ?v (make_nonce ''abc'') ''xyz'' [(''server_version'', ''16'')] 7 42)"
  have texts: "text_ok ''server_version''" "text_ok ''16''" by code_simp+
  obtain t where t: "negotiate_tls example_fmt example_backend_config ?d (dialled ?d) = (t, Inr ())"
    by (simp add: negotiate_tls_def example_dial_def example_backend_config_def dialled_def mode_defs push_bytes_def
        next_fault_def or_backend_def Let_def)
  have "\<exists>s b. connect example_fmt example_lib example_backend_config ?d = (s, Inr b) \<and> pb_pid b = Some 7 \<and> pb_secret b = Some 42
    \<and> pb_parameters b = [(''server_version'', ''16'')] \<and> applied_params b = [] \<and> \<not> pb_broken b \<and> io_reads b = []"
  proof (rule login_completes [OF example_lib_ok _ _ _ _ _ _ t, where n = 2])
    show "\<forall>(k, v) \<in> set [(''server_version'', ''16'')]. text_ok k \<and> text_ok v" using texts by simp
    show "?v = from_password_with example_lib (bc_password example_backend_config) ''salt'' 2"
      by (simp only: example_backend_config_def BackendConfig.simps)
    show "d_reads ?d = server_conversation example_lib ?v (make_nonce ''abc'') ''xyz'' [(''server_version'', ''16'')] 7 42 @ []"
      by (simp only: example_dial_def Dial.simps append_Nil2)
  qed (simp_all only: example_dial_def Dial.simps, simp_all)
  then show ?thesis by blast
qed

section \<open>What a refusal means\<close>

text \<open>
  The exchange ends with the first \<open>ReadyForQuery\<close>, whether or not the server has proven
  that it knows the password: a server that starts SCRAM and then sends
  \<open>AuthenticationOk\<close> is taken for the database.
\<close>

lemma server_signature_can_be_skipped:
  assumes "bs_reads s = [Inr authentication_sasl, Inr authentication_ok, Inr (ready_for_query TIdle)]" "bs_faults s = []"
  shows "\<exists>s'. authenticate fmt c cfg rnd su None s = (s', Inr su)"
proof -
  have "parse_mechanisms (''SCRAM-SHA-256'' @ [NUL, NUL]) = [''SCRAM-SHA-256'']" by code_simp
  then show ?thesis
    using assms
    by (simp add: authenticate.simps pull_msg_def or_backend_def authentication_sasl_def authentication_ok_def
        ready_for_query_def auth_request_def client_first_def new_client_def scram_step_def send_reply_def push_bytes_def
        next_fault_def msg_def Let_def)
qed

end
