(* ===== verification/Auth.thy ===== *)
theory Auth
  imports Config Scram Wire
begin

text \<open>
  Who a client is to havuz: the policy for a name that asks for a pool
  (\<open>StateAuthenticator\<close> of \<open>havuz-pg/src/family.rs\<close>, the types of \<open>havuz-pg/src/session.rs\<close>)
  and the identities the database has vouched for (\<open>havuz-pg/src/passthrough.rs\<close>). The
  database itself is the argument \<open>prober\<close>; random bytes are an argument. The interface
  the handshake uses is the locale \<open>authenticator\<close>.
\<close>

section \<open>Denials and policies\<close>

datatype AuthDenial =
  UnknownUser
  | UnknownPool string
  | NotGranted string string           \<comment> \<open>user, pool\<close>
  | Disabled
  | TooManyConnections string
  | Unverifiable string

fun denial_sqlstate :: "AuthDenial \<Rightarrow> string" where
  "denial_sqlstate (UnknownPool _) = UNDEFINED_DATABASE"
| "denial_sqlstate (TooManyConnections _) = TOO_MANY_CONNECTIONS"
| "denial_sqlstate (Unverifiable _) = CANNOT_CONNECT_NOW"
| "denial_sqlstate _ = INVALID_AUTHORIZATION"

fun client_message :: "AuthDenial \<Rightarrow> string" where
  "client_message (UnknownPool pool) = ''database '' @ [CHR 0x22] @ pool @ [CHR 0x22] @ '' does not exist''"
| "client_message (TooManyConnections scope) = ''too many connections for '' @ scope"
| "client_message (Unverifiable why) = ''cannot verify credentials against the database right now: '' @ why"
| "client_message _ = ''authentication failed''"

datatype ClientAuth =
  CScram ScramVerifier
  | CPlaintext ScramVerifier bool      \<comment> \<open>may be asked without TLS\<close>
  | CUnproven bool

definition needs_plaintext :: "ClientAuth \<Rightarrow> bool" where
  "needs_plaintext a = (case a of CScram _ \<Rightarrow> False | _ \<Rightarrow> True)"

definition allow_without_tls :: "ClientAuth \<Rightarrow> bool" where
  "allow_without_tls a = (case a of CScram _ \<Rightarrow> False | CPlaintext _ allow \<Rightarrow> allow | CUnproven allow \<Rightarrow> allow)"

text \<open>A password against a verifier, as the handshake compares them.\<close>

definition matches_verifier :: "Crypto \<Rightarrow> ScramVerifier \<Rightarrow> string \<Rightarrow> bool" where
  "matches_verifier c v password \<longleftrightarrow>
     sv_stored_key (from_password_with c password (sv_salt v) (sv_iterations v)) = sv_stored_key v"

definition fingerprint :: "Crypto \<Rightarrow> string \<Rightarrow> string" where
  "fingerprint c password = sha256 c (''havuz-backend-credential-v1'' @ password)"

section \<open>Identities the database vouched for\<close>

text \<open>Keyed by pool and user.\<close>

type_synonym EphemeralIdentities = "(string \<times> string, ScramVerifier) btree"

definition known_verifier :: "string \<Rightarrow> string \<Rightarrow> EphemeralIdentities \<Rightarrow> ScramVerifier option" where
  "known_verifier pool who ids = map_of ids (pool, who)"

definition learn :: "Crypto \<Rightarrow> string \<Rightarrow> string \<Rightarrow> string \<Rightarrow> string \<Rightarrow> EphemeralIdentities \<Rightarrow> EphemeralIdentities" where
  "learn c rnd pool who password ids = btree_insert (pool, who) (from_password c rnd password) ids"

definition retain_identities :: "string \<Rightarrow> (string \<Rightarrow> bool) \<Rightarrow> EphemeralIdentities \<Rightarrow> EphemeralIdentities" where
  "retain_identities pool keep ids = filter (\<lambda>((p, who), _). p \<noteq> pool \<or> keep who) ids"

definition forget_pool :: "string \<Rightarrow> EphemeralIdentities \<Rightarrow> EphemeralIdentities" where
  "forget_pool pool ids = filter (\<lambda>((p, _), _). p \<noteq> pool) ids"

definition identity_count :: "EphemeralIdentities \<Rightarrow> nat" where
  "identity_count ids = length ids"

section \<open>The authenticator\<close>

type_synonym Prober = "string \<Rightarrow> string \<Rightarrow> string \<Rightarrow> AuthDenial + unit"       \<comment> \<open>pool, user, password\<close>

record StateAuthenticator =
  au_state :: State                    \<comment> \<open>the document in force\<close>
  au_identities :: EphemeralIdentities
  au_prober :: "Prober option"

definition new_authenticator :: "State \<Rightarrow> StateAuthenticator" where
  "new_authenticator st = \<lparr>au_state = st, au_identities = [], au_prober = None\<rparr>"

text \<open>\<open>OnceLock::set\<close>: the first one stays.\<close>

definition attach_prober :: "Prober \<Rightarrow> StateAuthenticator \<Rightarrow> StateAuthenticator" where
  "attach_prober p au = (if au_prober au = None then au\<lparr>au_prober := Some p\<rparr> else au)"

definition passthrough_auth :: "PoolConfig \<Rightarrow> string \<Rightarrow> string \<Rightarrow> StateAuthenticator \<Rightarrow> ClientAuth" where
  "passthrough_auth pc pool who au =
     (case known_verifier pool who (au_identities au) of
        Some v \<Rightarrow> CPlaintext v (pc_allow_password_without_tls pc)
      | None \<Rightarrow> CUnproven (pc_allow_password_without_tls pc))"

definition stored_verifier :: "Crypto \<Rightarrow> MasterKey \<Rightarrow> string \<Rightarrow> State \<Rightarrow> ScramVerifier option" where
  "stored_verifier c k who st =
     (case get c k (user_verifier who) (st_secrets st) of
        Inl _ \<Rightarrow> None
      | Inr stored \<Rightarrow> (case parse_verifier c stored of Inl _ \<Rightarrow> None | Inr v \<Rightarrow> Some v))"

definition resolve_client :: "Crypto \<Rightarrow> MasterKey \<Rightarrow> StateAuthenticator \<Rightarrow> string \<Rightarrow> string \<Rightarrow> AuthDenial + ClientAuth" where
  "resolve_client c k au who pool =
     (let st = au_state au in
      case map_of (st_pools st) pool of
        None \<Rightarrow> Inl (UnknownPool pool)
      | Some pc \<Rightarrow>
          if pc_disabled pc then Inl (UnknownPool pool)
          else (case map_of (st_users st) who of
              None \<Rightarrow>
                if is_passthrough (pc_backend_auth pc) then Inr (passthrough_auth pc pool who au)
                else Inl UnknownUser
            | Some uc \<Rightarrow>
                if uc_disabled uc then Inl Disabled
                else if pool \<notin> set (uc_pools uc) then Inl (NotGranted who pool)
                else (case stored_verifier c k who st of
                    None \<Rightarrow> Inl UnknownUser
                  | Some v \<Rightarrow>
                      Inr (if is_per_user (pc_backend_auth pc) \<and> uc_own_backend_role uc
                           then CPlaintext v (pc_allow_password_without_tls pc) else CScram v))))"

definition admit ::
  "Crypto \<Rightarrow> string \<Rightarrow> StateAuthenticator \<Rightarrow> string \<Rightarrow> string \<Rightarrow> string \<Rightarrow> StateAuthenticator \<times> (AuthDenial + unit)"
where
  "admit c rnd au who pool password =
     (if \<not> (case map_of (st_pools (au_state au)) pool of
               Some pc \<Rightarrow> is_passthrough (pc_backend_auth pc) \<and> \<not> pc_disabled pc
             | None \<Rightarrow> False)
      then (au, Inl UnknownUser)
      else (case au_prober au of
          None \<Rightarrow> (au, Inl UnknownUser)
        | Some prove \<Rightarrow>
            (case prove pool who password of
               Inl e \<Rightarrow> (au, Inl e)
             | Inr _ \<Rightarrow> (au\<lparr>au_identities := learn c rnd pool who password (au_identities au)\<rparr>, Inr ()))))"

section \<open>The interface of the handshake\<close>

text \<open>
  What the handshake calls, and what it may conclude: a policy is given only to an identity
  that may use the pool, with the verifier kept for it, and an identity is admitted only
  when somebody vouched for its password.
\<close>

locale authenticator =
  fixes res :: "'a \<Rightarrow> string \<Rightarrow> string \<Rightarrow> AuthDenial + ClientAuth"
    and adm :: "'a \<Rightarrow> string \<Rightarrow> string \<Rightarrow> string \<Rightarrow> 'a \<times> (AuthDenial + unit)"
    and allowed :: "'a \<Rightarrow> string \<Rightarrow> string \<Rightarrow> bool"
    and keeps :: "'a \<Rightarrow> string \<Rightarrow> string \<Rightarrow> ScramVerifier \<Rightarrow> bool"
    and vouched :: "'a \<Rightarrow> string \<Rightarrow> string \<Rightarrow> string \<Rightarrow> bool"
  assumes res_allowed: "res a who pool = Inr p \<Longrightarrow> allowed a who pool"
    and res_scram: "res a who pool = Inr (CScram v) \<Longrightarrow> keeps a who pool v"
    and res_plaintext: "res a who pool = Inr (CPlaintext v b) \<Longrightarrow> keeps a who pool v"
    and adm_vouched: "adm a who pool password = (a', Inr ()) \<Longrightarrow> vouched a who pool password"

text \<open>The three predicates for the state store.\<close>

definition allowed_by_state :: "StateAuthenticator \<Rightarrow> string \<Rightarrow> string \<Rightarrow> bool" where
  "allowed_by_state au who pool \<longleftrightarrow>
     (\<exists>pc. map_of (st_pools (au_state au)) pool = Some pc \<and> \<not> pc_disabled pc
       \<and> (case map_of (st_users (au_state au)) who of
            Some uc \<Rightarrow> \<not> uc_disabled uc \<and> pool \<in> set (uc_pools uc)
          | None \<Rightarrow> pc_backend_auth pc = Passthrough))"

definition kept_by_state :: "Crypto \<Rightarrow> MasterKey \<Rightarrow> StateAuthenticator \<Rightarrow> string \<Rightarrow> string \<Rightarrow> ScramVerifier \<Rightarrow> bool" where
  "kept_by_state c k au who pool v \<longleftrightarrow>
     (if map_of (st_users (au_state au)) who = None then known_verifier pool who (au_identities au) = Some v
      else stored_verifier c k who (au_state au) = Some v)"

definition vouched_by_database :: "StateAuthenticator \<Rightarrow> string \<Rightarrow> string \<Rightarrow> string \<Rightarrow> bool" where
  "vouched_by_database au who pool password \<longleftrightarrow>
     (\<exists>pc prove. map_of (st_pools (au_state au)) pool = Some pc \<and> pc_backend_auth pc = Passthrough \<and> \<not> pc_disabled pc
       \<and> au_prober au = Some prove \<and> prove pool who password = Inr ())"

interpretation state_auth: authenticator "resolve_client c k" "admit c rnd" allowed_by_state "kept_by_state c k" vouched_by_database
  for c k rnd
  by unfold_locales
    (auto simp: resolve_client_def admit_def passthrough_auth_def allowed_by_state_def kept_by_state_def
      vouched_by_database_def is_passthrough_def Let_def split: option.splits if_splits sum.splits)

section \<open>Laws of the identities\<close>

lemma known_after_learn:
  "btree ids \<Longrightarrow> known_verifier p u (learn c rnd pool who password ids) =
     (if p = pool \<and> u = who then Some (from_password c rnd password) else known_verifier p u ids)"
  by (auto simp: known_verifier_def learn_def)

lemma known_after_filter:
  assumes "btree ids"
  shows "known_verifier p u (filter (\<lambda>((p, u), _). Q p u) ids) = (if Q p u then known_verifier p u ids else None)"
  using map_of_filter_key [OF assms, of "\<lambda>(p, u) _. Q p u" "(p, u)"]
  by (simp add: known_verifier_def case_prod_unfold split: option.splits)

lemmas known_after_retain = known_after_filter [where Q = "\<lambda>p u. p \<noteq> pool \<or> keep u" for pool keep, folded retain_identities_def]
lemmas known_after_forget = known_after_filter [where Q = "\<lambda>p u. p \<noteq> pool" for pool, folded forget_pool_def]

end
