(* ===== verification/Handshake.thy ===== *)
theory Handshake
  imports Auth Proto
begin

text \<open>
  The client's side of the startup exchange (\<open>ClientHandshake\<close> of \<open>havuz-pg/src/session.rs\<close>).
  The socket holds the bytes the client is going to send, then its end; writes fail where
  the list of faults says so. Accepting TLS is rustls's: a function from the bytes on the
  socket to the bytes inside the session, or an error text. What is written is logged with
  whether it went through TLS. The authenticator is any implementation of the interface of
  \<open>Auth\<close>; other sessions may change it between the two calls made to it, which is the
  argument \<open>meanwhile\<close>. The texts of I/O errors and the \<open>Debug\<close> text of a denial are
  arguments too: they only reach the log and the returned error.
\<close>

section \<open>The socket\<close>

datatype Written = Byte char | Msg Message

record 'a Client =
  cl_in :: string
  cl_encrypted :: bool
  cl_faults :: "ErrorKind option list"
  cl_out :: "(bool \<times> Written) list"
  cl_auth :: 'a

record Handshake_Env =
  he_crypto :: Crypto
  he_random :: string                        \<comment> \<open>for the nonce\<close>
  he_io_text :: "ErrorKind \<Rightarrow> string"
  he_denial_text :: "AuthDenial \<Rightarrow> string"

record 'a ClientHandshake =
  ch_resolve :: "'a \<Rightarrow> string \<Rightarrow> string \<Rightarrow> AuthDenial + ClientAuth"
  ch_admit :: "'a \<Rightarrow> string \<Rightarrow> string \<Rightarrow> string \<Rightarrow> 'a \<times> (AuthDenial + unit)"
  ch_tls :: "(string \<Rightarrow> string + string) option"
  ch_require_tls :: bool

definition new_handshake ::
  "('a \<Rightarrow> string \<Rightarrow> string \<Rightarrow> AuthDenial + ClientAuth) \<Rightarrow> ('a \<Rightarrow> string \<Rightarrow> string \<Rightarrow> string \<Rightarrow> 'a \<times> (AuthDenial + unit))
     \<Rightarrow> 'a ClientHandshake"
where
  "new_handshake res adm = \<lparr>ch_resolve = res, ch_admit = adm, ch_tls = None, ch_require_tls = False\<rparr>"

definition with_tls :: "(string \<Rightarrow> string + string) \<Rightarrow> bool \<Rightarrow> 'a ClientHandshake \<Rightarrow> 'a ClientHandshake" where
  "with_tls acceptor require ch = ch\<lparr>ch_tls := Some acceptor, ch_require_tls := require\<rparr>"

text \<open>A write with its flush.\<close>

definition put_out :: "Written \<Rightarrow> 'a Client \<Rightarrow> 'a Client \<times> (ErrorKind + unit)" where
  "put_out w s =
     (let s = s\<lparr>cl_out := cl_out s @ [(cl_encrypted s, w)]\<rparr> in
      case cl_faults s of
        [] \<Rightarrow> (s, Inr ())
      | f # fs \<Rightarrow> (s\<lparr>cl_faults := fs\<rparr>, case f of None \<Rightarrow> Inr () | Some e \<Rightarrow> Inl e))"

definition put_byte :: "char \<Rightarrow> 'a Client \<Rightarrow> 'a Client \<times> (ProtoError + unit)" where
  "put_byte b s = (case put_out (Byte b) s of (s, Inl k) \<Rightarrow> (s, Inl (PIo k)) | (s, Inr _) \<Rightarrow> (s, Inr ()))"

definition put_msg :: "Handshake_Env \<Rightarrow> Message \<Rightarrow> 'a Client \<Rightarrow> 'a Client \<times> (ProtoError + unit)" where
  "put_msg env m s =
     (case put_out (Msg m) s of
        (s, Inl k) \<Rightarrow> (s, Inl (PProtocol (protocol_text (he_io_text env k) Io)))
      | (s, Inr _) \<Rightarrow> (s, Inr ()))"

text \<open>A last word, sent without looking at the result.\<close>

definition tell :: "Message \<Rightarrow> 'a Client \<Rightarrow> 'a Client" where
  "tell m s = fst (put_out (Msg m) s)"

definition read_error :: "Handshake_Env \<Rightarrow> ProtocolError \<Rightarrow> string" where
  "read_error env e = protocol_text (he_io_text env OtherIo) e"

section \<open>TLS and the startup packet\<close>

definition upgrade :: "(string \<Rightarrow> string + string) option \<Rightarrow> 'a Client \<Rightarrow> 'a Client \<times> (ProtoError + unit)" where
  "upgrade tls s =
     (case tls of
        None \<Rightarrow> put_byte CHR ''N'' s
      | Some acceptor \<Rightarrow>
          attempt (put_byte CHR ''S'' s) (\<lambda>s _.
          if cl_encrypted s then (s, Inl (PProtocol ''duplicate SSLRequest after TLS was established''))
          else (case acceptor (cl_in s) of
              Inl e \<Rightarrow> (s, Inl (PTls (''client handshake failed: '' @ e)))
            | Inr inner \<Rightarrow> (s\<lparr>cl_in := inner, cl_encrypted := True\<rparr>, Inr ()))))"

lemma put_out_kept:
  "put_out w s = (s', r) \<Longrightarrow> cl_in s' = cl_in s \<and> cl_encrypted s' = cl_encrypted s \<and> cl_auth s' = cl_auth s
     \<and> cl_out s' = cl_out s @ [(cl_encrypted s, w)]"
  by (auto simp: put_out_def Let_def split: list.splits)

lemma put_byte_kept:
  "put_byte b s = (s', r) \<Longrightarrow> cl_in s' = cl_in s \<and> cl_encrypted s' = cl_encrypted s \<and> cl_auth s' = cl_auth s
     \<and> cl_out s' = cl_out s @ [(cl_encrypted s, Byte b)]"
  by (auto simp: put_byte_def split: prod.splits sum.splits dest!: put_out_kept)

lemma put_msg_kept:
  "put_msg env m s = (s', r) \<Longrightarrow> cl_in s' = cl_in s \<and> cl_encrypted s' = cl_encrypted s \<and> cl_auth s' = cl_auth s
     \<and> cl_out s' = cl_out s @ [(cl_encrypted s, Msg m)]"
  by (auto simp: put_msg_def split: prod.splits sum.splits dest!: put_out_kept)

lemma read_startup_shorter: "read_startup io = Inr (p, rest) \<Longrightarrow> length rest < length io"
proof -
  have get: "get_i32 s = Some (w, r) \<Longrightarrow> length s = length r + 4" for s w r
    by (cases s rule: get_i32.cases) auto
  assume "read_startup io = Inr (p, rest)"
  then show ?thesis by (auto simp: read_startup_def Let_def split: option.splits if_splits sum.splits dest!: get)
qed

lemma upgrade_progress:
  "upgrade tls s = (s', Inr ()) \<Longrightarrow>
     cl_in s' = cl_in s \<and> cl_encrypted s' = cl_encrypted s \<or> \<not> cl_encrypted s \<and> cl_encrypted s'"
  by (auto simp: upgrade_def attempt_Inr dest!: put_byte_kept split: option.splits if_splits sum.splits)

text \<open>
  The loop that waits for the real startup packet. It ends: every round takes bytes, and
  the client can enter TLS once.
\<close>

function startup_loop ::
  "Handshake_Env \<Rightarrow> (string \<Rightarrow> string + string) option \<Rightarrow> 'a Client \<Rightarrow> 'a Client \<times> (ProtoError + StartupPacket)"
where
  "startup_loop env tls s =
     (case read_startup (cl_in s) of
        Inl e \<Rightarrow> (s, Inl (PProtocol (''startup: '' @ read_error env e)))
      | Inr (p, rest) \<Rightarrow>
          (case p of
             SslRequest \<Rightarrow> attempt (upgrade tls (s\<lparr>cl_in := rest\<rparr>)) (\<lambda>s _. startup_loop env tls s)
           | GssEncRequest \<Rightarrow> attempt (put_byte CHR ''N'' (s\<lparr>cl_in := rest\<rparr>)) (\<lambda>s _. startup_loop env tls s)
           | _ \<Rightarrow> (s\<lparr>cl_in := rest\<rparr>, Inr p)))"
  by pat_completeness auto

termination
proof (relation "measures [\<lambda>(_, _, s). if cl_encrypted s then 0 else 1, \<lambda>(_, _, s). length (cl_in s)]", goal_cases)
  case (2 env tls s pr p rest s' u)
  then show ?case using read_startup_shorter upgrade_progress [of tls "s\<lparr>cl_in := rest\<rparr>" s'] by force
next
  case (3 env tls s pr p rest s' u)
  then show ?case using read_startup_shorter by (auto dest!: put_byte_kept)
qed simp

declare startup_loop.simps [simp del]

section \<open>Proving an identity\<close>

definition read_password_message :: "Handshake_Env \<Rightarrow> 'a Client \<Rightarrow> 'a Client \<times> (ProtoError + Message)" where
  "read_password_message env s =
     (case read_msg (cl_in s) of
        Inl e \<Rightarrow> (s, Inl (PProtocol (''reading auth response: '' @ read_error env e)))
      | Inr (m, rest) \<Rightarrow>
          (s\<lparr>cl_in := rest\<rparr>,
           if tag m \<noteq> CHR ''p''
           then Inl (PProtocol (''expected a password message, got '' @ [CHR 0x27] @ latin1_char (tag m) @ [CHR 0x27]))
           else Inr m))"

definition parse_sasl_initial :: "string \<Rightarrow> ProtoError + string" where
  "parse_sasl_initial bs =
     (case position (\<lambda>b. b = NUL) bs of
        None \<Rightarrow> Inl (PProtocol ''SASLInitialResponse has no mechanism name'')
      | Some nul \<Rightarrow>
          (case from_utf8 (take nul bs) of
             None \<Rightarrow> Inl (PProtocol ''mechanism is not utf-8'')
           | Some mechanism \<Rightarrow>
               if mechanism \<noteq> ''SCRAM-SHA-256''
               then Inl (PAuth (''unsupported SASL mechanism '' @ [CHR 0x27] @ mechanism @ [CHR 0x27]))
               else (case get_i32 (drop (nul + 1) bs) of
                   None \<Rightarrow> Inl (PProtocol ''SASLInitialResponse is truncated'')
                 | Some (len, rest) \<Rightarrow>
                     if len <s 0 then Inl (PProtocol ''SASLInitialResponse carries no payload'')
                     else if length rest < unat len then Inl (PProtocol ''SASLInitialResponse length exceeds the message'')
                     else Inr (take (unat len) rest))))"

definition deny :: "string \<Rightarrow> 'a Client \<Rightarrow> 'a Client \<times> (ProtoError + 'b)" where
  "deny detail s = (tell (fatal INVALID_PASSWORD ''password authentication failed'') s, Inl (PAuth detail))"

definition refuse :: "AuthDenial \<Rightarrow> string \<Rightarrow> 'a Client \<Rightarrow> 'a Client \<times> (ProtoError + 'b)" where
  "refuse denial detail s = (tell (fatal (denial_sqlstate denial) (client_message denial)) s, Inl (PAuth detail))"

definition scram :: "Handshake_Env \<Rightarrow> ScramVerifier \<Rightarrow> 'a Client \<Rightarrow> 'a Client \<times> (ProtoError + unit)" where
  "scram env v s =
     attempt (put_msg env authentication_sasl s) (\<lambda>s _.
     attempt (read_password_message env s) (\<lambda>s m.
     case parse_sasl_initial (body m) of
       Inl e \<Rightarrow> (s, Inl e)
     | Inr initial \<Rightarrow>
         (case server_first (he_crypto env) (he_random env) initial (new_server v) of
            (sv, Inl e) \<Rightarrow> deny (''scram: '' @ scram_text e) s
          | (sv, Inr first) \<Rightarrow>
     attempt (put_msg env (authentication_sasl_continue first) s) (\<lambda>s _.
     attempt (read_password_message env s) (\<lambda>s m.
         (case server_final (he_crypto env) (body m) sv of
            (sv, Inl e) \<Rightarrow> deny (''scram: '' @ scram_text e) s
          | (sv, Inr final) \<Rightarrow> put_msg env (authentication_sasl_final final) s))))))"

definition cleartext :: "Handshake_Env \<Rightarrow> ScramVerifier option \<Rightarrow> 'a Client \<Rightarrow> 'a Client \<times> (ProtoError + string)" where
  "cleartext env verifier s =
     attempt (put_msg env authentication_cleartext s) (\<lambda>s _.
     attempt (read_password_message env s) (\<lambda>s m.
     case from_utf8 (take (case position (\<lambda>b. b = NUL) (body m) of Some i \<Rightarrow> i | None \<Rightarrow> length (body m)) (body m)) of
       None \<Rightarrow> (s, Inl (PAuth ''password is not valid utf-8''))
     | Some password \<Rightarrow>
         (case verifier of
            None \<Rightarrow> (s, Inr password)
          | Some v \<Rightarrow>
              if \<not> matches_verifier (he_crypto env) v password then refuse UnknownUser ''password did not verify'' s
              else (s, Inr password))))"

section \<open>The exchange\<close>

record ClientIdentity =
  ci_user :: string
  ci_pool :: string
  ci_application_name :: "string option"
  ci_peer :: string

datatype HandshakeOutcome =
  Established ClientIdentity "(string \<times> string) list" "string option"     \<comment> \<open>identity, parameters, credential\<close>
  | Cancel i32 i32

text \<open>Which of the listener's pools the client asked for.\<close>

definition choose_pool :: "PoolRoute \<Rightarrow> StartupPacket \<Rightarrow> 'a Client \<Rightarrow> 'a Client \<times> (ProtoError + string)" where
  "choose_pool route p s =
     (case sole route of
        Some only \<Rightarrow> (s, Inr only)
      | None \<Rightarrow>
          (case database p of
             Inl e \<Rightarrow> (s, Inl (PProtocol (protocol_text [] e)))
           | Inr asked \<Rightarrow>
               (case resolve route asked of
                  Some pool \<Rightarrow> (s, Inr pool)
                | None \<Rightarrow>
                    (tell (fatal UNDEFINED_DATABASE (''no pool named '' @ [CHR 0x22] @ asked @ [CHR 0x22]
                       @ '' on this port; available here: '' @ join '', '' (reachable route))) s,
                     Inl (PNoRoute asked)))))"

text \<open>A password may be asked for: over TLS, or where the pool allows it without.\<close>

definition may_ask :: "string \<Rightarrow> ClientAuth \<Rightarrow> 'a Client \<Rightarrow> 'a Client \<times> (ProtoError + unit)" where
  "may_ask pool auth s =
     (if needs_plaintext auth \<and> \<not> cl_encrypted s \<and> \<not> allow_without_tls auth
      then (tell (fatal INVALID_AUTHORIZATION (''pool '' @ [CHR 0x22] @ pool @ [CHR 0x22]
              @ '' authenticates against the database as you, so it needs your password ''
              @ ''and will only ask for it over TLS; connect with sslmode=require or higher'')) s,
            Inl (PTls (''pool '' @ [CHR 0x27] @ pool @ [CHR 0x27] @ '' requires TLS for per-user authentication'')))
      else (s, Inr ()))"

definition prove ::
  "Handshake_Env \<Rightarrow> ('a \<Rightarrow> 'a) \<Rightarrow> 'a ClientHandshake \<Rightarrow> string \<Rightarrow> string \<Rightarrow> ClientAuth \<Rightarrow> 'a Client
     \<Rightarrow> 'a Client \<times> (ProtoError + string option)"
where
  "prove env meanwhile ch who pool auth s =
     (case auth of
        CScram v \<Rightarrow> attempt (scram env v s) (\<lambda>s _. (s, Inr None))
      | CPlaintext v _ \<Rightarrow> attempt (cleartext env (Some v) s) (\<lambda>s credential. (s, Inr (Some credential)))
      | CUnproven _ \<Rightarrow>
          attempt (cleartext env None s) (\<lambda>s credential.
          case ch_admit ch (meanwhile (cl_auth s)) who pool credential of
            (a, Inl denial) \<Rightarrow> refuse denial (he_denial_text env denial) (s\<lparr>cl_auth := a\<rparr>)
          | (a, Inr _) \<Rightarrow> (s\<lparr>cl_auth := a\<rparr>, Inr (Some credential))))"

definition startup_params :: "StartupPacket \<Rightarrow> (string \<times> string) list" where
  "startup_params p = (case p of Startup params \<Rightarrow> params | _ \<Rightarrow> [])"

definition let_in ::
  "Handshake_Env \<Rightarrow> string \<Rightarrow> StartupPacket \<Rightarrow> string \<Rightarrow> string \<Rightarrow> string option \<Rightarrow> 'a Client \<Rightarrow> 'a Client \<times> (ProtoError + HandshakeOutcome)"
where
  "let_in env peer p who pool credential s =
     attempt (put_msg env authentication_ok s) (\<lambda>s _.
       (s, Inr (Established \<lparr>ci_user = who, ci_pool = pool, ci_application_name = application_name p, ci_peer = peer\<rparr>
          (startup_params p) credential)))"

text \<open>From the startup packet of a client to the outcome.\<close>

definition establish ::
  "Handshake_Env \<Rightarrow> ('a \<Rightarrow> 'a) \<Rightarrow> 'a ClientHandshake \<Rightarrow> string \<Rightarrow> PoolRoute \<Rightarrow> StartupPacket \<Rightarrow> 'a Client
     \<Rightarrow> 'a Client \<times> (ProtoError + HandshakeOutcome)"
where
  "establish env meanwhile ch peer route p s =
     (case user p of
        Inl e \<Rightarrow> (s, Inl (PProtocol (protocol_text [] e)))
      | Inr who \<Rightarrow>
          attempt (choose_pool route p s) (\<lambda>s pool.
          case ch_resolve ch (cl_auth s) who pool of
            Inl denial \<Rightarrow> refuse denial (he_denial_text env denial) s
          | Inr auth \<Rightarrow>
              attempt (may_ask pool auth s) (\<lambda>s _.
              attempt (prove env meanwhile ch who pool auth s) (\<lambda>s credential.
              let_in env peer p who pool credential s))))"

definition run_for_pool ::
  "Handshake_Env \<Rightarrow> ('a \<Rightarrow> 'a) \<Rightarrow> 'a ClientHandshake \<Rightarrow> string \<Rightarrow> PoolRoute \<Rightarrow> 'a Client
     \<Rightarrow> 'a Client \<times> (ProtoError + HandshakeOutcome)"
where
  "run_for_pool env meanwhile ch peer route s =
     attempt (startup_loop env (ch_tls ch) s) (\<lambda>s p.
     if ch_require_tls ch \<and> \<not> cl_encrypted s
     then (tell (fatal INVALID_AUTHORIZATION ''TLS is required'') s, Inl (PTls ''client refused TLS''))
     else case p of
       CancelRequest pid key \<Rightarrow> (s, Inr (Cancel pid key))
     | _ \<Rightarrow> establish env meanwhile ch peer route p s)"

text \<open>The parameters of the backend, the key for cancellation, and the client is let in.\<close>

fun put_parameters :: "Handshake_Env \<Rightarrow> (string \<times> string) list \<Rightarrow> 'a Client \<Rightarrow> 'a Client \<times> (ProtoError + unit)" where
  "put_parameters env [] s = (s, Inr ())"
| "put_parameters env ((key, v) # ps) s =
     attempt (put_msg env (parameter_status key v) s) (\<lambda>s _. put_parameters env ps s)"

definition complete_startup ::
  "Handshake_Env \<Rightarrow> (string \<times> string) list \<Rightarrow> i32 \<Rightarrow> i32 \<Rightarrow> 'a Client \<Rightarrow> 'a Client \<times> (ProtoError + unit)"
where
  "complete_startup env parameters pid secret s =
     attempt (put_parameters env parameters s) (\<lambda>s _.
     attempt (put_msg env (backend_key_data pid secret) s) (\<lambda>s _.
     put_msg env (ready_for_query TIdle) s))"

section \<open>What is written\<close>

text \<open>A step that only writes messages of a kind and stays on the same layer.\<close>

definition writes :: "Message set \<Rightarrow> 'a Client \<Rightarrow> 'a Client \<Rightarrow> bool" where
  "writes A s s' \<longleftrightarrow> cl_encrypted s' = cl_encrypted s
     \<and> (\<exists>ms. cl_out s' = cl_out s @ map (\<lambda>m. (cl_encrypted s, Msg m)) ms \<and> set ms \<subseteq> A)"

lemma writes_refl [simp]: "writes A s s"
  by (simp add: writes_def)

lemma writes_trans: "writes A s t \<Longrightarrow> writes A t u \<Longrightarrow> writes A s u"
proof -
  assume "writes A s t" "writes A t u"
  then obtain ms ns where "cl_out t = cl_out s @ map (\<lambda>m. (cl_encrypted s, Msg m)) ms" "set ms \<subseteq> A"
    "cl_out u = cl_out t @ map (\<lambda>m. (cl_encrypted s, Msg m)) ns" "set ns \<subseteq> A" "cl_encrypted u = cl_encrypted s"
    by (auto simp: writes_def)
  then show "writes A s u" unfolding writes_def by (intro conjI exI [of _ "ms @ ns"]) auto
qed

lemma writes_mono: "writes A s t \<Longrightarrow> A \<subseteq> B \<Longrightarrow> writes B s t"
  by (auto simp: writes_def)

lemma writes_put_msg: "put_msg env m s = (s', r) \<Longrightarrow> m \<in> A \<Longrightarrow> writes A s s'"
  using put_msg_kept [of env m s s' r] by (auto simp: writes_def intro!: exI [of _ "[m]"])

lemma writes_tell: "m \<in> A \<Longrightarrow> writes A s (tell m s)"
  using put_out_kept [of "Msg m" s "fst (put_out (Msg m) s)" "snd (put_out (Msg m) s)"]
  by (auto simp: writes_def tell_def intro!: exI [of _ "[m]"])

lemma writes_read: "read_password_message env s = (s', r) \<Longrightarrow> writes A s s'"
  by (auto simp: read_password_message_def writes_def split: sum.splits)

text \<open>Messages that neither let the client in nor ask for its password.\<close>

definition harmless :: "Message set" where
  "harmless = {m. m \<noteq> authentication_ok \<and> m \<noteq> authentication_cleartext}"

lemma msg_sel [simp]: "tag (msg t b) = t" "body (msg t b) = b"
  by (simp_all add: msg_def)

lemma msg_eq [simp]: "msg t b = msg t' b' \<longleftrightarrow> t = t' \<and> b = b'"
  by (simp add: msg_def)

lemma put_i32_eq: "put_i32 a @ x = put_i32 b @ y \<longleftrightarrow> a = b \<and> x = y"
  by (metis get_put_i32 option.inject prod.inject)

lemma ok_not_cleartext [simp]: "authentication_ok \<noteq> authentication_cleartext" "authentication_cleartext \<noteq> authentication_ok"
  using put_i32_eq [of 0 "[]" 3 "[]"] by (auto simp: authentication_ok_def authentication_cleartext_def)

lemma harmless_messages [simp]:
  "fatal code text \<in> harmless" "authentication_sasl \<in> harmless"
  "authentication_sasl_continue d \<in> harmless" "authentication_sasl_final d \<in> harmless"
proof -
  have "put_i32 a @ x = put_i32 b \<longleftrightarrow> a = b \<and> x = []" for a b x using put_i32_eq [of a x b "[]"] by simp
  then show "fatal code text \<in> harmless" "authentication_sasl \<in> harmless"
    "authentication_sasl_continue d \<in> harmless" "authentication_sasl_final d \<in> harmless"
    by (auto simp: harmless_def fatal_def error_response_def authentication_ok_def authentication_cleartext_def
        authentication_sasl_def authentication_sasl_continue_def authentication_sasl_final_def)
qed

lemma attempt_writes:
  assumes "attempt q k = (s', r)" "\<And>t x. q = (t, x) \<Longrightarrow> writes A s t" "\<And>t x. q = (t, Inr x) \<Longrightarrow> k t x = (s', r) \<Longrightarrow> writes A t s'"
  shows "writes A s s'"
  using assms(1)
proof (cases rule: attempt_cases)
  case (2 t x)
  show ?thesis by (rule writes_trans [OF assms(2) [OF 2(1)] assms(3) [OF 2]])
qed (rule assms(2))

lemmas writes_intros = writes_tell [OF harmless_messages(1)] writes_put_msg writes_read

lemma tell_kept [simp]: "cl_auth (tell m s) = cl_auth s" "cl_encrypted (tell m s) = cl_encrypted s"
  by (auto simp: tell_def put_out_def Let_def split: list.splits)

lemma writes_scram: "scram env v s = (s', r) \<Longrightarrow> writes harmless s s'"
  unfolding scram_def deny_def
  by (elim attempt_writes)
    (auto intro!: writes_intros(1) intro: writes_intros elim!: attempt_writes split: sum.splits prod.splits,
     erule writes_put_msg, simp)

lemma writes_cleartext: "cleartext env v s = (s', r) \<Longrightarrow> writes (insert authentication_cleartext harmless) s s'"
  unfolding cleartext_def refuse_def
  by (elim attempt_writes)
    (auto intro!: writes_tell intro: writes_intros elim!: attempt_writes split: option.splits if_splits)

lemma writes_choose: "choose_pool route p s = (s', r) \<Longrightarrow> writes harmless s s' \<and> cl_auth s' = cl_auth s"
  unfolding choose_pool_def by (auto intro!: writes_tell split: option.splits sum.splits)

lemma choose_pool_reachable:
  "choose_pool route p s = (s', Inr pool) \<Longrightarrow> s' = s \<and>
     (case sole route of Some only \<Rightarrow> pool = only | None \<Rightarrow> \<exists>asked. database p = Inr asked \<and> resolve route asked = Some pool)"
  unfolding choose_pool_def by (auto split: option.splits sum.splits)

lemma may_ask_kept:
  "may_ask pool auth s = (s', r) \<Longrightarrow> writes harmless s s'"
  "may_ask pool auth s = (s', Inr x) \<Longrightarrow> s' = s \<and> (needs_plaintext auth \<longrightarrow> cl_encrypted s \<or> allow_without_tls auth)"
  unfolding may_ask_def by (auto intro!: writes_tell split: if_splits)

lemma writes_auth [simp]:
  "writes A s (t\<lparr>cl_auth := a\<rparr>) \<longleftrightarrow> writes A s t" "writes A (s\<lparr>cl_auth := a\<rparr>) t \<longleftrightarrow> writes A s t"
  by (simp_all add: writes_def)

lemma writes_tell_auth: "m \<in> A \<Longrightarrow> writes A s (tell m (s\<lparr>cl_auth := a\<rparr>))"
  using writes_tell [of m A "s\<lparr>cl_auth := a\<rparr>"] by simp

lemma writes_prove:
  assumes "prove env meanwhile ch who pool auth s = (s', r)"
  shows "writes (if needs_plaintext auth then insert authentication_cleartext harmless else harmless) s s'"
proof (cases auth)
  case (CUnproven allow)
  have "attempt (cleartext env None s) (\<lambda>s credential.
          case ch_admit ch (meanwhile (cl_auth s)) who pool credential of
            (a, Inl denial) \<Rightarrow> refuse denial (he_denial_text env denial) (s\<lparr>cl_auth := a\<rparr>)
          | (a, Inr _) \<Rightarrow> (s\<lparr>cl_auth := a\<rparr>, Inr (Some credential))) = (s', r)"
    using assms CUnproven by (simp add: prove_def)
  then have "writes (insert authentication_cleartext harmless) s s'"
    by (rule attempt_writes) (auto dest: writes_cleartext simp: refuse_def intro!: writes_tell_auth split: prod.splits sum.splits)
  then show ?thesis using CUnproven by (simp add: needs_plaintext_def)
qed (use assms in \<open>auto simp: prove_def needs_plaintext_def elim!: attempt_cases dest: writes_scram writes_cleartext\<close>)

text \<open>Before the startup packet only single bytes are written, and the authenticator is not asked.\<close>

definition writes_bytes :: "'a Client \<Rightarrow> 'a Client \<Rightarrow> bool" where
  "writes_bytes s s' \<longleftrightarrow> cl_auth s' = cl_auth s \<and> (\<exists>ws. cl_out s' = cl_out s @ ws \<and> snd ` set ws \<subseteq> range Byte)"

lemma writes_bytes_simps [simp]: "writes_bytes s s" "writes_bytes (s\<lparr>cl_in := i\<rparr>) t \<longleftrightarrow> writes_bytes s t"
  "writes_bytes s (t\<lparr>cl_in := i\<rparr>) \<longleftrightarrow> writes_bytes s t"
  by (simp_all add: writes_bytes_def)

lemma writes_bytes_trans: "writes_bytes s t \<Longrightarrow> writes_bytes t u \<Longrightarrow> writes_bytes s u"
  unfolding writes_bytes_def by (metis (no_types, opaque_lifting) append.assoc image_Un set_append Un_subset_iff)

lemma put_byte_bytes: "put_byte b s = (s', r) \<Longrightarrow> writes_bytes s s'"
  by (auto simp: writes_bytes_def dest!: put_byte_kept)

lemma upgrade_bytes: "upgrade tls s = (s', r) \<Longrightarrow> writes_bytes s s'"
  unfolding upgrade_def
  by (auto split: option.splits if_splits sum.splits elim!: attempt_cases dest!: put_byte_bytes simp: writes_bytes_def)

lemma startup_loop_bytes: "startup_loop env tls s = (s', r) \<Longrightarrow> writes_bytes s s'"
proof (induction env tls s arbitrary: s' r rule: startup_loop.induct)
  case (1 env tls s)
  have up: "writes_bytes s t" if "upgrade tls (s\<lparr>cl_in := rest\<rparr>) = (t, x)" for rest t x
    using upgrade_bytes [OF that] by simp
  have pb: "writes_bytes s t" if "put_byte b (s\<lparr>cl_in := rest\<rparr>) = (t, x)" for b rest t x
    using put_byte_bytes [OF that] by simp
  show ?case
  proof (cases "read_startup (cl_in s)")
    case (Inr pr)
    obtain p rest where pr: "pr = (p, rest)" by (cases pr)
    note IH = "1.IH" [OF Inr pr [symmetric]]
    show ?thesis
    proof (cases p)
      case SslRequest
      with "1.prems" Inr pr have "attempt (upgrade tls (s\<lparr>cl_in := rest\<rparr>)) (\<lambda>s _. startup_loop env tls s) = (s', r)"
        by (simp add: startup_loop.simps [of env tls s])
      then show ?thesis
        by (cases rule: attempt_cases) (auto intro: up writes_bytes_trans [OF up IH(1) [OF SslRequest]])
    next
      case GssEncRequest
      with "1.prems" Inr pr have "attempt (put_byte CHR ''N'' (s\<lparr>cl_in := rest\<rparr>)) (\<lambda>s _. startup_loop env tls s) = (s', r)"
        by (simp add: startup_loop.simps [of env tls s])
      then show ?thesis
        by (cases rule: attempt_cases) (auto intro: pb writes_bytes_trans [OF pb IH(2) [OF GssEncRequest]])
    qed (use "1.prems" Inr pr in \<open>auto simp: startup_loop.simps [of env tls s]\<close>)
  qed (use "1.prems" in \<open>auto simp: startup_loop.simps [of env tls s]\<close>)
qed

section \<open>Who gets in\<close>

text \<open>
  A run ends before a policy was found, with nothing but refusals written; or it goes on to
  prove the identity under that policy, and welcomes the client only after that.
\<close>

definition went_on ::
  "'a ClientHandshake \<Rightarrow> PoolRoute \<Rightarrow> StartupPacket \<Rightarrow> 'a Client \<Rightarrow> string \<Rightarrow> string \<Rightarrow> ClientAuth \<Rightarrow> bool"
where
  "went_on ch route p t who pool auth \<longleftrightarrow>
     user p = Inr who \<and> choose_pool route p t = (t, Inr pool) \<and> ch_resolve ch (cl_auth t) who pool = Inr auth
     \<and> (needs_plaintext auth \<longrightarrow> cl_encrypted t \<or> allow_without_tls auth)"

lemma establish_cases:
  assumes "establish env meanwhile ch peer route p t = (s', r)"
  obtains (refused) e where "writes harmless t s'" "r = Inl e"
    | (unproven) who pool auth e where "went_on ch route p t who pool auth"
        "prove env meanwhile ch who pool auth t = (s', Inl e)" "r = Inl e"
    | (welcomed) who pool auth u credential where "went_on ch route p t who pool auth"
        "prove env meanwhile ch who pool auth t = (u, Inr credential)" "let_in env peer p who pool credential u = (s', r)"
proof (cases "user p")
  case (Inr who)
  from assms [unfolded establish_def Inr sum.case] show ?thesis
  proof (cases rule: attempt_cases)
    case (2 t1 pool)
    then have t1: "t1 = t" using choose_pool_reachable by blast
    show ?thesis
    proof (cases "ch_resolve ch (cl_auth t) who pool")
      case (Inl denial)
      with 2 t1 show ?thesis by (auto simp: refuse_def intro!: refused writes_tell)
    next
      case auth: (Inr auth)
      from 2(2) [unfolded t1 auth sum.case] show ?thesis
      proof (cases rule: attempt_cases)
        case (1 e)
        show ?thesis by (rule refused [OF may_ask_kept(1) [OF 1(1)] 1(2)])
      next
        case (2 t2 x)
        with may_ask_kept(2) have t2: "t2 = t" and ask: "needs_plaintext auth \<longrightarrow> cl_encrypted t \<or> allow_without_tls auth" by blast+
        have on: "went_on ch route p t who pool auth"
          using \<open>choose_pool route p t = (t1, Inr pool)\<close> Inr auth ask t1 by (simp add: went_on_def)
        from 2(2) [unfolded t2] show ?thesis by (cases rule: attempt_cases) (fact unproven [OF on], fact welcomed [OF on])
      qed
    qed
  next
    case (1 e)
    show ?thesis by (rule refused [OF conjunct1 [OF writes_choose [OF 1(1)]] 1(2)])
  qed
next
  case (Inl e)
  with assms have "t = s'" "r = Inl (PProtocol (protocol_text [] e))" by (simp_all add: establish_def)
  then show ?thesis using refused by simp
qed

text \<open>The three ways to prove an identity.\<close>

definition scram_proves :: "Handshake_Env \<Rightarrow> ScramVerifier \<Rightarrow> bool" where
  "scram_proves env v \<longleftrightarrow>
     (\<exists>m1 m2 sv sv' first final. server_first (he_crypto env) (he_random env) m1 (new_server v) = (sv, Inr first)
       \<and> server_final (he_crypto env) m2 sv = (sv', Inr final))"

lemma scram_accepts: "scram env v s = (s', Inr ()) \<Longrightarrow> scram_proves env v"
  unfolding scram_def scram_proves_def
  by (auto simp: deny_def elim!: attempt_cases split: sum.splits prod.splits) blast

lemma cleartext_accepts: "cleartext env (Some v) s = (s', Inr password) \<Longrightarrow> matches_verifier (he_crypto env) v password"
  unfolding cleartext_def by (auto simp: attempt_Inr refuse_def split: option.splits if_splits)

lemma kept_auth_cleartext: "cleartext env v s = (s', r) \<Longrightarrow> cl_auth s' = cl_auth s"
  unfolding cleartext_def refuse_def read_password_message_def
  by (auto elim!: attempt_cases dest!: put_msg_kept split: option.splits if_splits sum.splits)

lemma prove_accepts:
  assumes "prove env meanwhile ch who pool auth s = (s', Inr credential)"
  shows "case auth of
      CScram v \<Rightarrow> credential = None \<and> scram_proves env v
    | CPlaintext v _ \<Rightarrow> \<exists>password. credential = Some password \<and> matches_verifier (he_crypto env) v password
    | CUnproven _ \<Rightarrow> \<exists>password a. credential = Some password \<and> ch_admit ch (meanwhile (cl_auth s)) who pool password = (a, Inr ())"
  using assms kept_auth_cleartext [of env None s]
  by (auto simp: prove_def refuse_def elim!: attempt_cases split: ClientAuth.splits prod.splits sum.splits
      dest: scram_accepts cleartext_accepts)

text \<open>
  A client that may use the pool and has shown it is who it says: by SCRAM or with its
  password against the verifier kept for it, or with a password somebody vouched for.
\<close>

definition proven ::
  "('a \<Rightarrow> string \<Rightarrow> string \<Rightarrow> bool) \<Rightarrow> ('a \<Rightarrow> string \<Rightarrow> string \<Rightarrow> ScramVerifier \<Rightarrow> bool) \<Rightarrow> ('a \<Rightarrow> string \<Rightarrow> string \<Rightarrow> string \<Rightarrow> bool)
     \<Rightarrow> Handshake_Env \<Rightarrow> ('a \<Rightarrow> 'a) \<Rightarrow> 'a \<Rightarrow> string \<Rightarrow> string \<Rightarrow> string option \<Rightarrow> bool"
where
  "proven allowed keeps vouched env meanwhile a who pool credential \<longleftrightarrow> allowed a who pool \<and>
     (case credential of
        None \<Rightarrow> \<exists>v. keeps a who pool v \<and> scram_proves env v
      | Some password \<Rightarrow> (\<exists>v. keeps a who pool v \<and> matches_verifier (he_crypto env) v password)
          \<or> vouched (meanwhile a) who pool password)"

definition on_route :: "PoolRoute \<Rightarrow> string \<Rightarrow> bool" where
  "on_route route pool \<longleftrightarrow> sole route = Some pool \<or> sole route = None \<and> (\<exists>asked. resolve route asked = Some pool)"

lemma went_on_route: "went_on ch route p t who pool auth \<Longrightarrow> on_route route pool"
  using choose_pool_reachable [of route p t t pool] by (auto simp: went_on_def on_route_def split: option.splits)

text \<open>
  What the handshake guarantees with any authenticator: nobody is told \<open>AuthenticationOk\<close>
  who may not use the pool or has not proven the identity.
\<close>

context authenticator
begin

lemma went_on_proven:
  assumes "went_on ch route p t who pool auth" "prove env meanwhile ch who pool auth t = (u, Inr credential)"
    and "ch_resolve ch = res" "ch_admit ch = adm"
  shows "proven allowed keeps vouched env meanwhile (cl_auth t) who pool credential"
proof -
  have ok: "res (cl_auth t) who pool = Inr auth" using assms(1,3) by (simp add: went_on_def)
  show ?thesis
    using prove_accepts [OF assms(2)] res_allowed [OF ok] ok assms(4)
      res_plaintext [of "cl_auth t" who pool] adm_vouched [of "meanwhile (cl_auth t)" who pool]
    by (cases auth) (auto simp: proven_def dest: res_scram)
qed

lemma let_in_proven:
  assumes "establish env meanwhile ch peer route p t = (s', r)" "ch_resolve ch = res" "ch_admit ch = adm"
  shows "(\<exists>who pool credential. on_route route pool \<and> proven allowed keeps vouched env meanwhile (cl_auth t) who pool credential
      \<and> (\<forall>i ps c. r = Inr (Established i ps c) \<longrightarrow> ci_user i = who \<and> ci_pool i = pool \<and> c = credential))
    \<or> (\<forall>i ps c. r \<noteq> Inr (Established i ps c)) \<and> writes (- {authentication_ok}) t s'"
  using assms(1)
proof (cases rule: establish_cases)
  case (refused e)
  have "writes (- {authentication_ok}) t s'" by (rule writes_mono [OF refused(1)]) (auto simp: harmless_def)
  with refused(2) show ?thesis by simp
next
  case (unproven who pool auth e)
  have "writes (- {authentication_ok}) t s'"
    by (rule writes_mono [OF writes_prove [OF unproven(2)]])
      (auto simp: harmless_def)
  with unproven(3) show ?thesis by simp
next
  case (welcomed who pool auth u credential)
  have "proven allowed keeps vouched env meanwhile (cl_auth t) who pool credential"
    by (rule went_on_proven [OF welcomed(1,2) assms(2,3)])
  moreover have "\<forall>i ps c. r = Inr (Established i ps c) \<longrightarrow> ci_user i = who \<and> ci_pool i = pool \<and> c = credential"
    using welcomed(3) by (auto simp: let_in_def attempt_Inr)
  ultimately show ?thesis using went_on_route [OF welcomed(1)] by blast
qed

end

section \<open>Properties\<close>

lemma run_for_pool_establish:
  assumes "run_for_pool env meanwhile ch peer route s = (s', r)"
  obtains (stopped) t where "writes_bytes s t" "writes harmless t s'" "\<forall>i ps c. r \<noteq> Inr (Established i ps c)"
    | (packet) t p where "startup_loop env (ch_tls ch) s = (t, Inr p)" "ch_require_tls ch \<longrightarrow> cl_encrypted t"
        "establish env meanwhile ch peer route p t = (s', r)"
  using assms [unfolded run_for_pool_def]
proof (cases rule: attempt_cases)
  case (1 e)
  show ?thesis by (rule stopped [OF startup_loop_bytes [OF 1(1)]]) (simp_all add: 1(2))
next
  case (2 t p)
  have stop: thesis if "writes harmless t s'" "\<forall>i ps c. r \<noteq> Inr (Established i ps c)"
    by (rule stopped [OF startup_loop_bytes [OF 2(1)] that])
  show ?thesis
  proof (cases "ch_require_tls ch \<and> \<not> cl_encrypted t")
    case True
    with 2(2) show ?thesis by (auto intro!: stop writes_tell)
  next
    case False
    with 2 show ?thesis by (cases p) (auto intro: packet stop)
  qed
qed

text \<open>The log of a client that has just connected.\<close>

definition told :: "'a Client \<Rightarrow> Message \<Rightarrow> bool" where
  "told s m \<longleftrightarrow> Msg m \<in> snd ` set (cl_out s)"

lemma told_writes_bytes: "cl_out s = [] \<Longrightarrow> writes_bytes s t \<Longrightarrow> \<not> told t m"
  by (auto simp: writes_bytes_def told_def)

lemma writes_entry:
  "writes A s t \<Longrightarrow> (e, Msg m) \<in> set (cl_out t) \<Longrightarrow> (e, Msg m) \<in> set (cl_out s) \<or> e = cl_encrypted s \<and> m \<in> A"
  by (auto simp: writes_def)

lemma told_writes: "writes A s t \<Longrightarrow> told t m \<Longrightarrow> told s m \<or> m \<in> A"
  using writes_entry [of A s t] by (fastforce simp: told_def image_iff)



section \<open>A client that gets in\<close>

lemma put_quiet:
  "cl_faults s = [] \<Longrightarrow> put_msg env m s = (s\<lparr>cl_out := cl_out s @ [(cl_encrypted s, Msg m)]\<rparr>, Inr ())"
  by (simp add: put_msg_def put_out_def Let_def)

lemma read_password_next:
  "cl_in s = encode_msg (msg CHR ''p'' b) @ rest \<Longrightarrow> length b \<le> MAX_MESSAGE_LEN \<Longrightarrow>
     read_password_message env s = (s\<lparr>cl_in := rest\<rparr>, Inr (msg CHR ''p'' b))"
  using read_encode_msg [of "msg CHR ''p'' b" rest] by (simp add: read_password_message_def msg_def)

lemma startup_loop_next:
  "cl_in s = encode_startup (Startup ps) @ rest \<Longrightarrow> startup_ok (Startup ps) \<Longrightarrow>
     startup_loop env tls s = (s\<lparr>cl_in := rest\<rparr>, Inr (Startup ps))"
  using read_encode_startup [of "Startup ps" rest] by (simp add: startup_loop.simps)

text \<open>The first SCRAM message of a client, in the envelope of SASL.\<close>

definition sasl_initial :: "string \<Rightarrow> string" where
  "sasl_initial m = ''SCRAM-SHA-256'' @ [NUL] @ put_i32 (word_of_nat (length m)) @ m"

lemma parse_sasl_initial_ok:
  assumes "length m < 2147483648"
  shows "parse_sasl_initial (sasl_initial m) = Inr m"
proof -
  have "position (\<lambda>b. b = NUL) (''SCRAM-SHA-256'' @ NUL # x) = Some 13" for x
    using position_append_hit [of "''SCRAM-SHA-256''" "\<lambda>b. b = NUL" NUL x] by simp
  moreover have "from_utf8 ''SCRAM-SHA-256'' = Some ''SCRAM-SHA-256''" by code_simp
  moreover have "\<not> (word_of_nat (length m) :: i32) <s 0" using sless_small [of "length m" 0] assms by simp
  moreover have "unat (word_of_nat (length m) :: i32) = length m" using assms by (rule unat_small)
  ultimately show ?thesis by (simp add: parse_sasl_initial_def sasl_initial_def)
qed


text \<open>
  A refusal does tell names apart: one without a record is turned away before any challenge,
  with a code of its own; one with a record is challenged, and only then refused.
\<close>

lemma refusals_tell_names_apart:
  assumes "user p = Inr who" "sole route = Some pool" "cl_faults s = []" "cl_in s = []" "cl_out s = []"
  shows "ch_resolve ch (cl_auth s) who pool = Inl UnknownUser \<Longrightarrow>
      cl_out (fst (establish env meanwhile ch peer route p s)) = [(cl_encrypted s, Msg (fatal ''28000'' ''authentication failed''))]"
    and "ch_resolve ch (cl_auth s) who pool = Inr (CScram v) \<Longrightarrow>
      cl_out (fst (establish env meanwhile ch peer route p s)) = [(cl_encrypted s, Msg authentication_sasl)]"
  using assms
  by (simp_all add: establish_def choose_pool_def refuse_def tell_def put_out_def INVALID_AUTHORIZATION_def Let_def
      may_ask_def needs_plaintext_def prove_def scram_def put_quiet read_password_message_def read_msg_def)

section \<open>Instances\<close>

definition example_handshake_env :: Handshake_Env where
  "example_handshake_env =
     \<lparr>he_crypto = example_lib, he_random = ''xyz'', he_io_text = (\<lambda>_. ''io''), he_denial_text = client_message\<rparr>"

definition example_route :: PoolRoute where
  "example_route = \<lparr>rt_pools = [''orders''], rt_aliases = []\<rparr>"

text \<open>A passthrough pool that may ask in the clear, and a database that knows one password.\<close>

definition example_authenticator :: StateAuthenticator where
  "example_authenticator =
     \<lparr>au_state = default_state\<lparr>st_pools := [(''orders'', (example_pool Transaction 6432 [])
        \<lparr>pc_backend_auth := Passthrough, pc_allow_password_without_tls := True\<rparr>)]\<rparr>,
      au_identities = [], au_prober = Some (\<lambda>_ _ password. if password = ''pw'' then Inr () else Inl UnknownUser)\<rparr>"

definition example_handshake :: "StateAuthenticator ClientHandshake" where
  "example_handshake = new_handshake (resolve_client example_lib ''key'') (admit example_lib ''salt'')"

definition example_client :: "'a \<Rightarrow> string \<Rightarrow> 'a Client" where
  "example_client a bs =
     \<lparr>cl_in = encode_startup (Startup [(''user'', ''alice'')]) @ bs, cl_encrypted = False, cl_faults = [], cl_out = [], cl_auth = a\<rparr>"

lemma example_startup: "startup_ok (Startup [(''user'', ''alice'')])"
proof -
  have "list_all param_ok [(''user'', ''alice'')]" by code_simp
  moreover have "length (encode_params [(''user'', ''alice'')]) = 11" by simp
  ultimately show ?thesis by (simp add: MAX_STARTUP_LEN_def)
qed

lemma example_passthrough_run:
  "\<exists>s' i ps. run_for_pool example_handshake_env id example_handshake ''peer'' example_route
      (example_client example_authenticator (encode_msg (msg CHR ''p'' (''pw'' @ [NUL])))) = (s', Inr (Established i ps (Some ''pw'')))
    \<and> ci_user i = ''alice'' \<and> ci_pool i = ''orders'' \<and> au_state (cl_auth s') = au_state example_authenticator
    \<and> cl_faults s' = [] \<and> cl_out s' = [(False, Msg authentication_cleartext), (False, Msg authentication_ok)]"
proof -
  let ?m = "encode_msg (msg CHR ''p'' (''pw'' @ [NUL]))"
  let ?s = "example_client example_authenticator ?m"
  have start: "startup_loop example_handshake_env (ch_tls example_handshake) ?s = (?s\<lparr>cl_in := ?m\<rparr>, Inr (Startup [(''user'', ''alice'')]))"
    by (rule startup_loop_next [OF _ example_startup]) (simp add: example_client_def)
  have policy: "resolve_client example_lib ''key'' example_authenticator ''alice'' ''orders'' = Inr (CUnproven True)"
    by (simp add: resolve_client_def example_authenticator_def default_state_def example_pool_def is_passthrough_def
        passthrough_auth_def known_verifier_def)
  have admitted: "\<exists>a. admit example_lib ''salt'' example_authenticator ''alice'' ''orders'' ''pw'' = (a, Inr ())
      \<and> au_state a = au_state example_authenticator"
    by (simp add: admit_def example_authenticator_def default_state_def example_pool_def is_passthrough_def)
  have utf8: "from_utf8 ''pw'' = Some ''pw''" by code_simp
  have nul: "position (\<lambda>b. b = NUL) (''pw'' @ [NUL]) = Some 2" by simp
  have read: "read_password_message example_handshake_env t = (t\<lparr>cl_in := []\<rparr>, Inr (msg CHR ''p'' (''pw'' @ [NUL])))"
    if "cl_in t = ?m" for t :: "StateAuthenticator Client"
    using read_password_next [of t "''pw'' @ [NUL]" "[]"] that by (simp add: MAX_MESSAGE_LEN_def)
  have "run_for_pool example_handshake_env id example_handshake ''peer'' example_route ?s =
      establish example_handshake_env id example_handshake ''peer'' example_route (Startup [(''user'', ''alice'')]) (?s\<lparr>cl_in := ?m\<rparr>)"
    by (simp only: run_for_pool_def start attempt_simps) (simp add: example_handshake_def new_handshake_def)
  moreover have "user (Startup [(''user'', ''alice'')]) = Inr ''alice''" by (simp add: user_def)
  ultimately show ?thesis
    using admitted
    by (auto simp: establish_def choose_pool_def example_route_def sole_def may_ask_def
        needs_plaintext_def allow_without_tls_def prove_def cleartext_def put_quiet read [simplified] utf8 policy let_in_def
        example_client_def example_handshake_def new_handshake_def)
qed




end
