(* ===== verification/Group.thy ===== *)
theory Group
  imports Config Login Routing
begin

text \<open>
  A configured pool with its replicas (\<open>havuz-pg/src/group.rs\<close>): one connection pool per
  target and a router above them; and the probes that keep the router informed
  (\<open>havuz-pg/src/health.rs\<close>). The health task is the interval it runs with. What the
  standard library makes of the text of a number of seconds (parsing, clamping to a day) is
  the argument \<open>lag_of\<close>.
\<close>

section \<open>Groups\<close>

record TargetPool =
  tp_connector :: BackendConfig
  tp_pool :: PoolState

record PoolGroup =
  pg_name :: string
  pg_mode :: PoolMode
  pg_primary :: TargetPool
  pg_primary_label :: string
  pg_replica_pools :: "TargetPool list"
  pg_router :: Router
  pg_health :: "duration option"                \<comment> \<open>the interval of the running task\<close>

definition target_pool :: "string \<Rightarrow> PoolLimits \<Rightarrow> BackendConfig \<Rightarrow> TargetPool" where
  "target_pool name lim connector = \<lparr>tp_connector = connector, tp_pool = new_pool name lim\<rparr>"

text \<open>The loop over the replicas: a connector that cannot be built ends it.\<close>

fun build_replicas ::
  "time \<Rightarrow> string \<Rightarrow> PoolLimits \<Rightarrow> BreakerConfig \<Rightarrow> (Target \<Rightarrow> ProtoError + BackendConfig) \<Rightarrow> Target list
     \<Rightarrow> ProtoError + TargetPool list \<times> ReplicaState list"
where
  "build_replicas now name lim brk mk [] = Inr ([], [])"
| "build_replicas now name lim brk mk (t # ts) =
     (case mk t of
        Inl e \<Rightarrow> Inl e
      | Inr connector \<Rightarrow>
          (case build_replicas now name lim brk mk ts of
             Inl e \<Rightarrow> Inl e
           | Inr (pools, states) \<Rightarrow>
               Inr (target_pool (name @ ''/'' @ address t) lim connector # pools,
                    new_replica now (address t) (t_weight t) brk # states)))"

definition build_group ::
  "time \<Rightarrow> string \<Rightarrow> PoolConfig \<Rightarrow> (Target \<Rightarrow> ProtoError + BackendConfig) \<Rightarrow> ProtoError + PoolGroup"
where
  "build_group now name pc mk =
     (case primary_target pc of
        None \<Rightarrow> Inl (PBackend (''pool '' @ [CHR 0x27] @ name @ [CHR 0x27] @ '' has no target''))
      | Some primary \<Rightarrow>
          (case mk primary of
             Inl e \<Rightarrow> Inl e
           | Inr connector \<Rightarrow>
               let brk = \<lparr>failure_threshold = max (rc_failure_threshold (pc_routing pc)) 1, success_threshold = 2,
                          cooldown = recovery_cooldown (pc_routing pc)\<rparr> in
               (case build_replicas now name (pc_limits pc) brk mk (filter (\<lambda>t. t_role t = RoleReplica) (pc_targets pc)) of
                  Inl e \<Rightarrow> Inl e
                | Inr (pools, states) \<Rightarrow>
                    Inr \<lparr>pg_name = name, pg_mode = pc_mode pc,
                         pg_primary = target_pool (name @ ''/primary'') (pc_limits pc) connector,
                         pg_primary_label = address primary, pg_replica_pools = pools,
                         pg_router = new_router (pc_routing pc) states,
                         pg_health = (if read_write_split (pc_routing pc) \<and> states \<noteq> []
                                      then Some (max (health_interval (pc_routing pc)) (secs 1)) else None)\<rparr>)))"

definition pool_for :: "Route \<Rightarrow> PoolGroup \<Rightarrow> TargetPool" where
  "pool_for route g =
     (case route of
        Primary _ \<Rightarrow> pg_primary g
      | Replica i \<Rightarrow> if i < length (pg_replica_pools g) then pg_replica_pools g ! i else pg_primary g)"

definition group_target_label :: "Route \<Rightarrow> PoolGroup \<Rightarrow> string" where
  "group_target_label route g =
     (case route of
        Primary _ \<Rightarrow> ''primary/'' @ pg_primary_label g
      | Replica i \<Rightarrow>
          if i < length (replicas (pg_router g)) then ''replica/'' @ label (replicas (pg_router g) ! i)
          else ''primary/'' @ pg_primary_label g)"

definition drain_target :: "TargetPool \<Rightarrow> TargetPool" where
  "drain_target tp = tp\<lparr>tp_pool := snd (drain (tp_pool tp))\<rparr>"

definition drain_group :: "PoolGroup \<Rightarrow> PoolGroup" where
  "drain_group g =
     g\<lparr>pg_primary := drain_target (pg_primary g), pg_replica_pools := map drain_target (pg_replica_pools g), pg_health := None\<rparr>"

definition combined_pool_snapshot :: "PoolGroup \<Rightarrow> PoolSnapshot" where
  "combined_pool_snapshot g =
     foldl (\<lambda>acc tp. snapshot_merge acc (pool_snapshot (tp_pool tp)))
       ((pool_snapshot (tp_pool (pg_primary g)))\<lparr>sn_name := pg_name g\<rparr>) (pg_replica_pools g)"

definition target_snapshots :: "PoolGroup \<Rightarrow> PoolSnapshot list" where
  "target_snapshots g = map (\<lambda>tp. pool_snapshot (tp_pool tp)) (pg_primary g # pg_replica_pools g)"

section \<open>Probes\<close>

definition RECOVERY_QUERY :: string where
  "RECOVERY_QUERY = ''SELECT pg_is_in_recovery()''"

definition LAG_QUERY :: string where
  "LAG_QUERY =
     ''SELECT CASE '' @ ''WHEN NOT pg_is_in_recovery() THEN 0 '' @ ''WHEN pg_last_wal_receive_lsn() IS NULL THEN NULL ''
     @ ''WHEN pg_wal_lsn_diff(pg_last_wal_receive_lsn(), pg_last_wal_replay_lsn()) <= 0 THEN 0 ''
     @ ''ELSE COALESCE(EXTRACT(EPOCH FROM (now() - pg_last_xact_replay_timestamp())), 0) '' @ ''END''"

text \<open>
  A probe on what \<open>acquire\<close> gave: the result, and the connection afterwards with whether it
  is to be discarded.
\<close>

definition probe_target ::
  "(ErrorKind \<Rightarrow> string) \<Rightarrow> (string \<Rightarrow> duration) \<Rightarrow> PoolError + PgBackend \<Rightarrow> ProbeResult \<times> (PgBackend \<times> bool) option"
where
  "probe_target io_text lag_of acquired =
     (case acquired of
        Inl e \<Rightarrow> (ProbeFailed (pool_error_text io_text e), None)
      | Inr b \<Rightarrow>
          (case query_scalar RECOVERY_QUERY b of
             (Inl e, b) \<Rightarrow> (ProbeFailed (proto_text io_text e), Some (b, True))
           | (Inr v, b) \<Rightarrow>
               (case v of
                  None \<Rightarrow> (Healthy False (Some 0), Some (b, False))
                | Some t \<Rightarrow>
                    if \<not> (t = ''t'' \<or> eq_ignore_ascii_case t ''true'') then (Healthy False (Some 0), Some (b, False))
                    else (case query_scalar LAG_QUERY b of
                        (Inl e, b) \<Rightarrow> (ProbeFailed (proto_text io_text e), Some (b, True))
                      | (Inr None, b) \<Rightarrow> (Healthy True None, Some (b, False))
                      | (Inr (Some seconds), b) \<Rightarrow> (Healthy True (Some (lag_of seconds)), Some (b, False))))))"

text \<open>One round of the health task over the replicas, with the result of each probe.\<close>

definition health_round :: "time \<Rightarrow> ProbeResult list \<Rightarrow> PoolGroup \<Rightarrow> PoolGroup" where
  "health_round now results g =
     (let rt = pg_router g
      in g\<lparr>pg_router := rt\<lparr>replicas := map2 (apply_to_replica now) results (replicas rt)\<rparr>\<rparr>)"

section \<open>Laws\<close>

text \<open>Every connection of a group is opened by one of these connectors.\<close>

definition connectors :: "PoolGroup \<Rightarrow> BackendConfig set" where
  "connectors g = tp_connector ` (insert (pg_primary g) (set (pg_replica_pools g)))"

lemma connectors_drain [simp]: "connectors (drain_group g) = connectors g"
  by (auto simp: connectors_def drain_group_def drain_target_def image_iff)

lemma build_replicas_result:
  "build_replicas now name lim brk mk ts = Inr (pools, states) \<Longrightarrow>
     length pools = length ts \<and> length states = length ts
     \<and> (\<forall>i < length ts. mk (ts ! i) = Inr (tp_connector (pools ! i)) \<and> label (states ! i) = address (ts ! i)
         \<and> tp_pool (pools ! i) = new_pool (name @ ''/'' @ address (ts ! i)) lim)"
proof (induction ts arbitrary: pools states)
  case (Cons t ts)
  then obtain connector ps ss where "mk t = Inr connector" "build_replicas now name lim brk mk ts = Inr (ps, ss)"
    "pools = target_pool (name @ ''/'' @ address t) lim connector # ps" "states = new_replica now (address t) (t_weight t) brk # ss"
    by (auto split: sum.splits)
  with Cons.IH show ?case by (auto simp: target_pool_def new_replica_def less_Suc_eq_0_disj)
qed simp

text \<open>
  The pools and the router of a group stay in step: a route to a replica leads to the
  pool whose connector dials the target the router calls by that name.
\<close>

lemma build_group_result:
  assumes "build_group now name pc mk = Inr g"
  shows "\<exists>primary. primary_target pc = Some primary \<and> mk primary = Inr (tp_connector (pg_primary g))
      \<and> pg_primary_label g = address primary"
    and "length (pg_replica_pools g) = length (replicas (pg_router g))"
    and "\<forall>d \<in> connectors g. \<exists>t \<in> set (pc_targets pc). mk t = Inr d"
    and "\<forall>i < length (pg_replica_pools g). \<exists>t \<in> set (pc_targets pc). t_role t = RoleReplica
      \<and> mk t = Inr (tp_connector (pool_for (Replica i) g)) \<and> label (replicas (pg_router g) ! i) = address t"
proof -
  let ?ts = "filter (\<lambda>t. t_role t = RoleReplica) (pc_targets pc)"
  from assms obtain primary connector brk pools states where
    p: "primary_target pc = Some primary" "mk primary = Inr connector"
    and r: "build_replicas now name (pc_limits pc) brk mk ?ts = Inr (pools, states)"
    and g: "tp_connector (pg_primary g) = connector" "pg_primary_label g = address primary" "pg_replica_pools g = pools"
      "replicas (pg_router g) = states"
    by (auto simp: build_group_def Let_def target_pool_def new_router_def split: option.splits sum.splits)
  note rep = build_replicas_result [OF r]
  have prim: "primary \<in> set (pc_targets pc)"
    using p(1) by (auto simp: primary_target_def split: option.splits list.splits dest: find_Some_in)
  have nth: "?ts ! i \<in> set (pc_targets pc) \<and> t_role (?ts ! i) = RoleReplica" if "i < length pools" for i
    using nth_mem [of i ?ts] that rep by auto
  show "\<exists>primary. primary_target pc = Some primary \<and> mk primary = Inr (tp_connector (pg_primary g))
      \<and> pg_primary_label g = address primary" using p g by simp
  show "length (pg_replica_pools g) = length (replicas (pg_router g))" using rep g by simp
  have pool: "mk (?ts ! i) = Inr (tp_connector (pools ! i)) \<and> label (states ! i) = address (?ts ! i)" if "i < length pools" for i
    using rep that by simp
  show "\<forall>d \<in> connectors g. \<exists>t \<in> set (pc_targets pc). mk t = Inr d"
  proof
    fix d assume "d \<in> connectors g"
    then consider "d = connector" | i where "i < length pools" "d = tp_connector (pools ! i)"
      using g by (auto simp: connectors_def in_set_conv_nth)
    then show "\<exists>t \<in> set (pc_targets pc). mk t = Inr d"
    proof cases
      case 1
      with prim p(2) show ?thesis by blast
    next
      case (2 i)
      with pool [of i] nth [of i] show ?thesis by (intro bexI [of _ "?ts ! i"]) simp_all
    qed
  qed
  show "\<forall>i < length (pg_replica_pools g). \<exists>t \<in> set (pc_targets pc). t_role t = RoleReplica
      \<and> mk t = Inr (tp_connector (pool_for (Replica i) g)) \<and> label (replicas (pg_router g) ! i) = address t"
  proof (intro allI impI)
    fix i assume "i < length (pg_replica_pools g)"
    with g pool [of i] nth [of i] show "\<exists>t \<in> set (pc_targets pc). t_role t = RoleReplica
      \<and> mk t = Inr (tp_connector (pool_for (Replica i) g)) \<and> label (replicas (pg_router g) ! i) = address t"
      by (intro bexI [of _ "?ts ! i"]) (simp_all add: pool_for_def)
  qed
qed

end
