(* ===== verification/Family.thy ===== *)
theory Family
  imports Txn Auth Sessions Group
begin

text \<open>
  The pools of the PostgreSQL family (\<open>PgFamily\<close> of \<open>havuz-pg/src/family.rs\<close>): which groups
  exist, under whose credentials their connections are opened, what a session may do, and
  how idle identities are swept away. A group that leaves the maps may still be held by
  sessions; \<open>fa_retired\<close> keeps the entries in the state in which they left. The libraries of
  \<open>Secrets\<close> and \<open>Tls\<close> are arguments, bundled with the master key.
\<close>

definition FAMILY_ID :: string where
  "FAMILY_ID = ''postgres''"

record Libs =
  li_crypto :: Crypto
  li_pki :: Pki
  li_master_key :: MasterKey

section \<open>Connectors\<close>

datatype BackendIdentity = Service | As_User string string     \<comment> \<open>name, password\<close>

definition settings_text :: "PoolConfig \<Rightarrow> string \<Rightarrow> string option" where
  "settings_text pc key = Option.bind (map_of (pc_settings pc) key) json_str"

text \<open>User, password and \<open>application_name\<close>.\<close>

definition credentials :: "Libs \<Rightarrow> string \<Rightarrow> PoolConfig \<Rightarrow> State \<Rightarrow> BackendIdentity \<Rightarrow> string \<times> string \<times> string" where
  "credentials li name pc st ident =
     (case ident of
        Service \<Rightarrow>
          (pc_backend_user pc,
           (case get (li_crypto li) (li_master_key li) (pool_backend_password name) (st_secrets st) of Inr p \<Rightarrow> p | Inl _ \<Rightarrow> []),
           ''havuz/'' @ name)
      | As_User who password \<Rightarrow> (who, password, ''havuz/'' @ name @ ''/'' @ who))"

definition connector_for ::
  "Libs \<Rightarrow> string \<Rightarrow> PoolConfig \<Rightarrow> State \<Rightarrow> BackendIdentity \<Rightarrow> Target \<Rightarrow> ProtoError + BackendConfig"
where
  "connector_for li name pc st ident target =
     (case credentials li name pc st ident of (who, password, app) \<Rightarrow>
      case (case settings_text pc ''sslmode'' of None \<Rightarrow> Inr Prefer | Some m \<Rightarrow> parse_mode m) of
        Inl e \<Rightarrow> Inl (PTls (tls_text e))
      | Inr mode \<Rightarrow>
          (case client_config (li_pki li) mode (settings_text pc ''ssl_root_cert'') of
             Inl e \<Rightarrow> Inl (PTls (tls_text e))
           | Inr tls \<Rightarrow>
               (case Option.bind (family ''postgres'')
                    (\<lambda>f. case pc_profile pc of Some i \<Rightarrow> profile_of f i | None \<Rightarrow> Some (default_profile f)) of
                  None \<Rightarrow> Inl (PBackend (''pool '' @ [CHR 0x27] @ name @ [CHR 0x27] @ '' has an unknown driver profile''))
                | Some profile \<Rightarrow>
                    Inr \<lparr>bc_host = t_host target, bc_port = t_port target, bc_database = pc_database pc, bc_user = who,
                         bc_password = password, bc_ssl_mode = mode, bc_tls = tls, bc_application_name = app,
                         bc_supports_discard_all = q_discard_all (dp_quirks profile)\<rparr>)))"

section \<open>Pools\<close>

record UserGroup =
  ug_group :: PoolGroup
  ug_fingerprint :: string

record PoolEntry =
  pe_config :: PoolConfig
  pe_shared :: PoolGroup
  pe_per_user :: "(string, UserGroup) btree"

record PgFamily =
  fa_pools :: "(string, PoolEntry) btree"
  fa_identities :: EphemeralIdentities
  fa_sweeper :: bool                            \<comment> \<open>started\<close>
  fa_retired :: "PoolEntry list"

definition new_family :: PgFamily where
  "new_family = \<lparr>fa_pools = [], fa_identities = [], fa_sweeper = False, fa_retired = []\<rparr>"

definition combined_snapshot :: "PoolEntry \<Rightarrow> PoolSnapshot" where
  "combined_snapshot e =
     foldl (\<lambda>acc (_, ug). snapshot_merge acc (combined_pool_snapshot (ug_group ug)))
       (combined_pool_snapshot (pe_shared e)) (pe_per_user e)"

definition entry_identities :: "PoolEntry \<Rightarrow> (string \<times> PoolSnapshot) list" where
  "entry_identities e = sort_key fst (map (\<lambda>(who, ug). (who, combined_pool_snapshot (ug_group ug))) (pe_per_user e))"

definition drain_user :: "UserGroup \<Rightarrow> UserGroup" where
  "drain_user ug = ug\<lparr>ug_group := drain_group (ug_group ug)\<rparr>"

definition drain_entry :: "PoolEntry \<Rightarrow> PoolEntry" where
  "drain_entry e =
     e\<lparr>pe_shared := drain_group (pe_shared e), pe_per_user := map (\<lambda>(who, ug). (who, drain_user ug)) (pe_per_user e)\<rparr>"

definition ours :: "PoolConfig \<Rightarrow> bool" where
  "ours pc \<longleftrightarrow> pc_family pc = FAMILY_ID \<and> \<not> pc_disabled pc"

text \<open>The loop that builds what is missing; it ends at the first pool that cannot be built.\<close>

fun build_missing ::
  "Libs \<Rightarrow> time \<Rightarrow> State \<Rightarrow> (string \<times> PoolConfig) list \<Rightarrow> (string, PoolEntry) btree \<Rightarrow> (string, PoolEntry) btree \<times> ProtoError option"
where
  "build_missing li now st [] pools = (pools, None)"
| "build_missing li now st ((name, pc) # rest) pools =
     (if \<not> ours pc \<or> map_of pools name \<noteq> None then build_missing li now st rest pools
      else (case build_group now name pc (connector_for li name pc st Service) of
          Inl e \<Rightarrow> (pools, Some e)
        | Inr g \<Rightarrow>
            build_missing li now st rest
              (btree_insert name \<lparr>pe_config = pc, pe_shared = g, pe_per_user = []\<rparr> pools)))"

definition is_live :: "State \<Rightarrow> string \<Rightarrow> bool" where
  "is_live st name = (case map_of (st_pools st) name of Some pc \<Rightarrow> ours pc | None \<Rightarrow> False)"

definition rebuild_pools :: "Libs \<Rightarrow> time \<Rightarrow> State \<Rightarrow> PgFamily \<Rightarrow> PgFamily \<times> (ProtoError + unit)" where
  "rebuild_pools li now st fa =
     (case build_missing li now st (st_pools st) (fa_pools fa) of
        (pools, Some e) \<Rightarrow> (fa\<lparr>fa_pools := pools\<rparr>, Inl e)
      | (pools, None) \<Rightarrow>
          let gone = filter (\<lambda>(name, _). \<not> is_live st name) pools
          in (fa\<lparr>fa_pools := filter (\<lambda>(name, _). is_live st name) pools,
                 fa_identities := foldl (\<lambda>ids (name, _). forget_pool name ids) (fa_identities fa) gone,
                 fa_retired := fa_retired fa @ map (\<lambda>(_, e). drain_entry e) gone\<rparr>,
              Inr ()))"

text \<open>The entry leaves the map as it is: its sessions go on with it.\<close>

definition reload_pool :: "Libs \<Rightarrow> time \<Rightarrow> State \<Rightarrow> string \<Rightarrow> PgFamily \<Rightarrow> PgFamily \<times> (ProtoError + unit)" where
  "reload_pool li now st name fa =
     rebuild_pools li now st
       (fa\<lparr>fa_pools := btree_remove name (fa_pools fa),
           fa_retired := fa_retired fa @ (case map_of (fa_pools fa) name of Some e \<Rightarrow> [e] | None \<Rightarrow> [])\<rparr>)"

definition pool_snapshots :: "PgFamily \<Rightarrow> PoolSnapshot list" where
  "pool_snapshots fa = sort_key sn_name (map (\<lambda>(_, e). combined_snapshot e) (fa_pools fa))"

definition backend_identities :: "PgFamily \<Rightarrow> (string \<times> string \<times> PoolSnapshot) list" where
  "backend_identities fa =
     sort_key (\<lambda>(pool, who, _). (pool, who))
       (concat (map (\<lambda>(pool, e). map (\<lambda>(who, s). (pool, who, s)) (entry_identities e)) (fa_pools fa)))"

section \<open>The connections of a client\<close>

text \<open>
  The group, and whether it was built just now. A group whose password has changed is
  drained before its successor is built, and is what stays when that fails.
\<close>

definition group_for ::
  "Libs \<Rightarrow> time \<Rightarrow> State \<Rightarrow> string \<Rightarrow> string \<Rightarrow> string option \<Rightarrow> PoolEntry \<Rightarrow> PoolEntry \<times> (ProtoError + PoolGroup \<times> bool)"
where
  "group_for li now st pool who credential e =
     (case credential of
        None \<Rightarrow>
          if is_per_user (pc_backend_auth (pe_config e)) \<and> pc_backend_user (pe_config e) = []
          then (e, Inl (PAuth (''pool '' @ [CHR 0x27] @ pool @ [CHR 0x27] @ '' has no service account: give user ''
                  @ [CHR 0x27] @ who @ [CHR 0x27] @ '' a database role of its own, or add a backend user to the pool'')))
          else (e, Inr (pe_shared e, False))
      | Some password \<Rightarrow>
          let fp = fingerprint (li_crypto li) password;
              build = (\<lambda>e. case build_group now pool (pe_config e)
                         (connector_for li pool (pe_config e) st (As_User who password)) of
                     Inl err \<Rightarrow> (e, Inl err)
                   | Inr g \<Rightarrow>
                       (e\<lparr>pe_per_user := btree_insert who \<lparr>ug_group = g, ug_fingerprint = fp\<rparr> (pe_per_user e)\<rparr>, Inr (g, True)))
          in case map_of (pe_per_user e) who of
               None \<Rightarrow> build e
             | Some existing \<Rightarrow>
                 if ug_fingerprint existing = fp then (e, Inr (ug_group existing, False))
                 else build (e\<lparr>pe_per_user := btree_insert who (drain_user existing) (pe_per_user e)\<rparr>))"

text \<open>What \<open>serve\<close> does with it: the entry of the pool, its group, and the sweeper.\<close>

definition borrow_group ::
  "Libs \<Rightarrow> time \<Rightarrow> State \<Rightarrow> string \<Rightarrow> string \<Rightarrow> string option \<Rightarrow> PgFamily \<Rightarrow> PgFamily \<times> (ProtoError + PoolGroup)"
where
  "borrow_group li now st pool who credential fa =
     (case map_of (fa_pools fa) pool of
        None \<Rightarrow> (fa, Inl (PNoRoute pool))
      | Some e \<Rightarrow>
          (case group_for li now st pool who credential e of
             (e', Inl err) \<Rightarrow> (fa\<lparr>fa_pools := btree_insert pool e' (fa_pools fa)\<rparr>, Inl err)
           | (e', Inr (g, built)) \<Rightarrow>
               (fa\<lparr>fa_pools := btree_insert pool e' (fa_pools fa), fa_sweeper := (fa_sweeper fa \<or> built)\<rparr>, Inr g)))"

section \<open>Sweeping\<close>

definition keeps_user :: "string set \<Rightarrow> string \<times> UserGroup \<Rightarrow> bool" where
  "keeps_user live h = (case h of (who, ug) \<Rightarrow> who \<in> live \<or> sn_open (combined_pool_snapshot (ug_group ug)) > 0)"

definition sweep_pool :: "SessionRegistry \<Rightarrow> PgFamily \<Rightarrow> string \<times> PoolEntry \<Rightarrow> PgFamily" where
  "sweep_pool reg fa pe =
     (case pe of (pool, e) \<Rightarrow>
      let live = users_in_pool pool reg;
          groups = filter (keeps_user live) (pe_per_user e);
          held = fst ` set groups
      in fa\<lparr>fa_pools := btree_insert pool (e\<lparr>pe_per_user := groups\<rparr>) (fa_pools fa),
            fa_identities := retain_identities pool (\<lambda>who. who \<in> live \<or> who \<in> held) (fa_identities fa)\<rparr>)"

definition sweep_idle_users :: "SessionRegistry \<Rightarrow> PgFamily \<Rightarrow> PgFamily" where
  "sweep_idle_users reg fa = foldl (sweep_pool reg) fa (fa_pools fa)"

section \<open>What a session may do\<close>

definition pool_mode :: "State \<Rightarrow> string \<Rightarrow> PoolMode" where
  "pool_mode st name = (case map_of (st_pools st) name of Some pc \<Rightarrow> pc_mode pc | None \<Rightarrow> Session)"

definition trace_level :: "State \<Rightarrow> string \<Rightarrow> TraceLevel" where
  "trace_level st name = (case map_of (st_pools st) name of Some pc \<Rightarrow> pc_trace pc | None \<Rightarrow> TraceStatements)"

record ResolvedPolicy =
  rp_read_only :: "ReadOnlyReason option"
  rp_idle_in_transaction :: duration
  rp_session_limit :: u32

definition session_policy :: "State \<Rightarrow> string \<Rightarrow> string \<Rightarrow> ResolvedPolicy" where
  "session_policy st pool who =
     (let config = map_of (st_pools st) pool;
          (user_read_only, limit) = (case map_of (st_users st) who of
              Some uc \<Rightarrow> (uc_read_only uc, uc_max_client_connections uc) | None \<Rightarrow> (False, 0))
      in \<lparr>rp_read_only = (if (case config of Some pc \<Rightarrow> pc_read_only pc | None \<Rightarrow> False) then Some RoPool
                          else if user_read_only then Some RoUser else None),
          rp_idle_in_transaction = (case config of Some pc \<Rightarrow> idle_in_transaction_timeout (pc_limits pc) | None \<Rightarrow> 0),
          rp_session_limit = limit\<rparr>)"

section \<open>Asking the database\<close>

text \<open>\<open>FamilyProber\<close>: one connection, opened and closed. \<open>alive\<close> says whether the family still exists.\<close>

definition prove_credential ::
  "Fmt \<Rightarrow> (ErrorKind \<Rightarrow> string) \<Rightarrow> bool \<Rightarrow> Libs \<Rightarrow> Dial \<Rightarrow> State \<Rightarrow> Prober"
where
  "prove_credential fmt texts alive li d st pool who password =
     (if \<not> alive then Inl (Unverifiable ''shutting down'')
      else (case map_of (st_pools st) pool of
          None \<Rightarrow> Inl (UnknownPool pool)
        | Some pc \<Rightarrow>
            (case primary_target pc of
               None \<Rightarrow> Inl (Unverifiable (''pool '' @ [CHR 0x27] @ pool @ [CHR 0x27] @ '' has no primary target''))
             | Some target \<Rightarrow>
                 (case connector_for li pool pc st (As_User who password) target of
                    Inl e \<Rightarrow> Inl (Unverifiable (proto_text texts e))
                  | Inr cfg \<Rightarrow>
                      (case connect fmt (li_crypto li) cfg d of
                         (s, Inr b) \<Rightarrow> Inr ()
                       | (s, Inl (PAuth why)) \<Rightarrow> Inl UnknownUser
                       | (s, Inl e) \<Rightarrow> Inl (Unverifiable (proto_text texts e)))))))"

section \<open>Connections are opened as whom they say\<close>

text \<open>A connector of a pool for a role: its targets, its database, and the TLS its settings ask for.\<close>

definition genuine :: "Libs \<Rightarrow> PoolConfig \<Rightarrow> string \<Rightarrow> BackendConfig \<Rightarrow> bool" where
  "genuine li pc who d \<longleftrightarrow> bc_user d = who \<and> bc_database d = pc_database pc
     \<and> client_config (li_pki li) (bc_ssl_mode d) (settings_text pc ''ssl_root_cert'') = Inr (bc_tls d)
     \<and> (\<exists>t \<in> set (pc_targets pc). bc_host d = t_host t \<and> bc_port d = t_port t)"

lemma connector_for_genuine:
  assumes "connector_for li name pc st ident t = Inr d" "t \<in> set (pc_targets pc)"
  shows "case ident of
      Service \<Rightarrow> genuine li pc (pc_backend_user pc) d
    | As_User who password \<Rightarrow> genuine li pc who d \<and> bc_password d = password"
  using assms
  by (cases ident)
    (auto simp: connector_for_def credentials_def genuine_def split: sum.splits option.splits prod.splits)

definition entry_ok :: "Libs \<Rightarrow> PoolEntry \<Rightarrow> bool" where
  "entry_ok li e \<longleftrightarrow> btree (pe_per_user e)
     \<and> (\<forall>d \<in> connectors (pe_shared e). genuine li (pe_config e) (pc_backend_user (pe_config e)) d)
     \<and> (\<forall>(who, ug) \<in> set (pe_per_user e). \<forall>d \<in> connectors (ug_group ug). genuine li (pe_config e) who d
          \<and> fingerprint (li_crypto li) (bc_password d) = ug_fingerprint ug)"

definition family_inv :: "Libs \<Rightarrow> PgFamily \<Rightarrow> bool" where
  "family_inv li fa \<longleftrightarrow> btree (fa_pools fa) \<and> (\<forall>(name, e) \<in> set (fa_pools fa). entry_ok li e)"

lemma btree_insert_subset: "set (btree_insert k v m) \<subseteq> insert (k, v) (set m)"
  by (induction k v m rule: btree_insert.induct) auto

lemma entry_ok_insert_user:
  assumes "entry_ok li e" "\<forall>d \<in> connectors (ug_group ug). genuine li (pe_config e) who d
      \<and> fingerprint (li_crypto li) (bc_password d) = ug_fingerprint ug"
  shows "entry_ok li (e\<lparr>pe_per_user := btree_insert who ug (pe_per_user e)\<rparr>)"
  using assms btree_insert_subset [of who ug "pe_per_user e"] by (fastforce simp: entry_ok_def)

lemma family_inv_insert:
  "btree pools \<Longrightarrow> \<forall>(name, e) \<in> set pools. entry_ok li e \<Longrightarrow> entry_ok li e' \<Longrightarrow>
     \<forall>(name, e) \<in> set (btree_insert name' e' pools). entry_ok li e"
  using btree_insert_subset [of name' e' pools] by fastforce

lemma build_missing_inv:
  "build_missing li now st pcs pools = (pools', r) \<Longrightarrow> btree pools \<Longrightarrow> \<forall>(name, e) \<in> set pools. entry_ok li e \<Longrightarrow>
     btree pools' \<and> (\<forall>(name, e) \<in> set pools'. entry_ok li e)"
proof (induction li now st pcs pools arbitrary: pools' r rule: build_missing.induct)
  case (2 li now st name pc rest pools)
  show ?case
  proof (cases "\<not> ours pc \<or> map_of pools name \<noteq> None")
    case True
    with 2 show ?thesis by simp
  next
    case False
    show ?thesis
    proof (cases "build_group now name pc (connector_for li name pc st Service)")
      case (Inl e)
      with 2 False show ?thesis by auto
    next
      case (Inr g)
      have new: "entry_ok li \<lparr>pe_config = pc, pe_shared = g, pe_per_user = []\<rparr>"
        using build_group_result(3) [OF Inr] connector_for_genuine [of li name pc st Service]
        by (fastforce simp: entry_ok_def)
      from 2 False Inr family_inv_insert [OF "2.prems"(2,3) new, of name] show ?thesis by simp
    qed
  qed
qed simp

lemma rebuild_pools_inv: "family_inv li fa \<Longrightarrow> family_inv li (fst (rebuild_pools li now st fa))"
  using build_missing_inv [of li now st "st_pools st" "fa_pools fa"]
  by (auto simp: family_inv_def rebuild_pools_def Let_def btree_filter split: prod.splits option.splits)

lemma reload_pool_inv: "family_inv li fa \<Longrightarrow> family_inv li (fst (reload_pool li now st name fa))"
proof -
  assume "family_inv li fa"
  then have "family_inv li (fa\<lparr>fa_pools := btree_remove name (fa_pools fa), fa_retired := r\<rparr>)" for r
    by (auto simp: family_inv_def btree_remove_def btree_filter)
  then show ?thesis unfolding reload_pool_def by (rule rebuild_pools_inv)
qed

lemma drain_user_simps [simp]: "connectors (ug_group (drain_user ug)) = connectors (ug_group ug)" "ug_fingerprint (drain_user ug) = ug_fingerprint ug"
  by (simp_all add: drain_user_def)

lemma user_connectors:
  assumes "entry_ok li e" "map_of (pe_per_user e) who = Some ug" "d \<in> connectors (ug_group ug)"
  shows "genuine li (pe_config e) who d \<and> fingerprint (li_crypto li) (bc_password d) = ug_fingerprint ug"
  using assms map_of_SomeD [OF assms(2)] by (fastforce simp: entry_ok_def)

text \<open>A group built for a user is opened as that user, with that password.\<close>

lemma build_user_group:
  assumes "build_group now pool pc (connector_for li pool pc st (As_User who password)) = Inr g" "d \<in> connectors g"
  shows "genuine li pc who d \<and> bc_password d = password"
  using build_group_result(3) [OF assms(1)] connector_for_genuine [of li pool pc st "As_User who password"] assms(2) by fastforce

text \<open>What \<open>group_for\<close> gives a client, and that it keeps its entry in order.\<close>

definition role_of :: "PoolEntry \<Rightarrow> string \<Rightarrow> string option \<Rightarrow> string" where
  "role_of e who credential = (case credential of None \<Rightarrow> pc_backend_user (pe_config e) | Some _ \<Rightarrow> who)"

lemma group_for_ok:
  assumes "entry_ok li e" "group_for li now st pool who credential e = (e', r)"
  shows "entry_ok li e' \<and> pe_config e' = pe_config e"
    and "r = Inr (g, built) \<Longrightarrow> d \<in> connectors g \<Longrightarrow> genuine li (pe_config e) (role_of e who credential) d
      \<and> (\<forall>password. credential = Some password \<longrightarrow> fingerprint (li_crypto li) (bc_password d) = fingerprint (li_crypto li) password)"
proof -
  have drained: "entry_ok li (e\<lparr>pe_per_user := btree_insert who (drain_user ug) (pe_per_user e)\<rparr>)"
    if "map_of (pe_per_user e) who = Some ug" for ug
    using user_connectors [OF assms(1) that] by (intro entry_ok_insert_user [OF assms(1)]) simp
  have built: "entry_ok li (e0\<lparr>pe_per_user := btree_insert who \<lparr>ug_group = g, ug_fingerprint = fingerprint (li_crypto li) p\<rparr> (pe_per_user e0)\<rparr>)"
    if "entry_ok li e0" "build_group now pool (pe_config e0) (connector_for li pool (pe_config e0) st (As_User who p)) = Inr g" for e0 g p
    using build_user_group [OF that(2)] by (intro entry_ok_insert_user [OF that(1)]) simp
  show "entry_ok li e' \<and> pe_config e' = pe_config e"
    using assms drained built built [OF drained]
    by (auto simp: group_for_def Let_def split: option.splits if_splits sum.splits)
  assume "r = Inr (g, built)" "d \<in> connectors g"
  then show "genuine li (pe_config e) (role_of e who credential) d
      \<and> (\<forall>password. credential = Some password \<longrightarrow> fingerprint (li_crypto li) (bc_password d) = fingerprint (li_crypto li) password)"
    using assms user_connectors [OF assms(1)] build_user_group
    by (auto simp: group_for_def role_of_def entry_ok_def Let_def split: option.splits if_splits sum.splits dest!: build_user_group)
qed

lemma borrow_group_inv: "family_inv li fa \<Longrightarrow> family_inv li (fst (borrow_group li now st pool who credential fa))"
proof (cases "map_of (fa_pools fa) pool")
  case (Some e)
  assume inv: "family_inv li fa"
  obtain e' r where g: "group_for li now st pool who credential e = (e', r)" by fastforce
  have "entry_ok li e" using inv map_of_SomeD [OF Some] by (auto simp: family_inv_def)
  then have "entry_ok li e'" using group_for_ok(1) [OF _ g] by blast
  with inv family_inv_insert [of "fa_pools fa" li e' pool] Some g show ?thesis
    by (auto simp: borrow_group_def family_inv_def split: sum.splits)
qed (simp add: borrow_group_def)

lemma entry_ok_filter: "entry_ok li e \<Longrightarrow> entry_ok li (e\<lparr>pe_per_user := filter P (pe_per_user e)\<rparr>)"
  by (auto simp: entry_ok_def btree_filter)

lemma sweep_inv: "family_inv li fa \<Longrightarrow> family_inv li (sweep_idle_users reg fa)"
proof -
  have "family_inv li fa \<Longrightarrow> \<forall>(name, e) \<in> set es. entry_ok li e \<Longrightarrow> family_inv li (foldl (sweep_pool reg) fa es)" for es
  proof (induction es arbitrary: fa)
    case (Cons pe es)
    obtain pool e where pe: "pe = (pool, e)" by (cases pe)
    have "family_inv li (sweep_pool reg fa pe)"
      using Cons.prems family_inv_insert [of "fa_pools fa" li "e\<lparr>pe_per_user := filter P (pe_per_user e)\<rparr>" pool for P] entry_ok_filter [of li e] pe
      by (simp add: sweep_pool_def family_inv_def Let_def)
    with Cons show ?case by simp
  qed simp
  moreover assume "family_inv li fa"
  ultimately show ?thesis unfolding sweep_idle_users_def by (auto simp: family_inv_def)
qed

text \<open>
  What happens to the pools: the configuration is applied, a pool is reloaded, clients
  come, idle users are swept, and traffic changes the state of the connection pools.
\<close>

datatype FamilyOp =
  Sync time State
  | ReloadPool time State string
  | Borrow time State string string "string option"
  | Sweep SessionRegistry
  | Traffic "TargetPool \<Rightarrow> PoolState"

definition work_target :: "(TargetPool \<Rightarrow> PoolState) \<Rightarrow> TargetPool \<Rightarrow> TargetPool" where
  "work_target f tp = tp\<lparr>tp_pool := f tp\<rparr>"

definition work_group :: "(TargetPool \<Rightarrow> PoolState) \<Rightarrow> PoolGroup \<Rightarrow> PoolGroup" where
  "work_group f g = g\<lparr>pg_primary := work_target f (pg_primary g), pg_replica_pools := map (work_target f) (pg_replica_pools g)\<rparr>"

definition work_entry :: "(TargetPool \<Rightarrow> PoolState) \<Rightarrow> PoolEntry \<Rightarrow> PoolEntry" where
  "work_entry f e = e\<lparr>pe_shared := work_group f (pe_shared e),
     pe_per_user := map (\<lambda>(who, ug). (who, ug\<lparr>ug_group := work_group f (ug_group ug)\<rparr>)) (pe_per_user e)\<rparr>"

fun family_act :: "Libs \<Rightarrow> PgFamily \<Rightarrow> FamilyOp \<Rightarrow> PgFamily" where
  "family_act li fa (Sync now st) = fst (rebuild_pools li now st fa)"
| "family_act li fa (ReloadPool now st name) = fst (reload_pool li now st name fa)"
| "family_act li fa (Borrow now st pool who credential) = fst (borrow_group li now st pool who credential fa)"
| "family_act li fa (Sweep reg) = sweep_idle_users reg fa"
| "family_act li fa (Traffic f) = fa\<lparr>fa_pools := map (\<lambda>(name, e). (name, work_entry f e)) (fa_pools fa)\<rparr>"

lemma connectors_work [simp]: "connectors (work_group f g) = connectors g"
  by (auto simp: connectors_def work_group_def work_target_def image_iff)

lemma entry_ok_work: "entry_ok li e \<Longrightarrow> entry_ok li (work_entry f e)"
  by (fastforce simp: entry_ok_def work_entry_def btree_map_values)

interpretation family: op_machine "\<lambda>fa. fa = new_family" "family_act li" "family_inv li" for li
proof unfold_locales
  fix fa x assume "family_inv li fa"
  then show "family_inv li (family_act li fa x)"
  proof (cases x)
    case (Traffic f)
    with \<open>family_inv li fa\<close> show ?thesis by (auto simp: family_inv_def btree_map_values intro: entry_ok_work)
  qed (simp_all add: rebuild_pools_inv reload_pool_inv borrow_group_inv sweep_inv)
qed (simp add: new_family_def family_inv_def)

text \<open>
  C9. The connections a client borrows are the ones it may have, after any history of
  configuration changes, reloads, other clients, sweeps and traffic. Without a credential
  they are opened as the service account of the pool; with one, as the client's own role and
  with a password of the same fingerprint as the client's, never one it has since changed or
  somebody else's. In both cases they lead to a target of the pool and to its database, with
  the TLS its settings ask for.
\<close>

theorem borrowed_connections_are_the_clients_own:
  assumes "fa = foldl (family_act li) new_family ops" "borrow_group li now st pool who credential fa = (fa', Inr g)"
    and "d \<in> connectors g"
  shows "\<exists>e. map_of (fa_pools fa) pool = Some e
    \<and> genuine li (pe_config e) (case credential of None \<Rightarrow> pc_backend_user (pe_config e) | Some _ \<Rightarrow> who) d
    \<and> (case credential of None \<Rightarrow> True
       | Some password \<Rightarrow> fingerprint (li_crypto li) (bc_password d) = fingerprint (li_crypto li) password)"
proof -
  have inv: "family_inv li fa" unfolding assms(1) by (rule family.run_inv) simp
  from assms(2) obtain e e' built where e: "map_of (fa_pools fa) pool = Some e"
    and g: "group_for li now st pool who credential e = (e', Inr (g, built))"
    by (auto simp: borrow_group_def split: option.splits prod.splits sum.splits)
  have "entry_ok li e" using inv map_of_SomeD [OF e] by (auto simp: family_inv_def)
  from group_for_ok(2) [OF this g refl assms(3)] e show ?thesis by (auto simp: role_of_def split: option.splits)
qed

section \<open>The pools follow the configuration\<close>

text \<open>What the entry of a pool is after the configuration was applied, given what it was before.\<close>

definition follows :: "Libs \<Rightarrow> time \<Rightarrow> State \<Rightarrow> string \<Rightarrow> PoolConfig option \<Rightarrow> PoolEntry option \<Rightarrow> PoolEntry option \<Rightarrow> bool" where
  "follows li now st name wanted before after =
     (case before of
        Some e \<Rightarrow> after = Some e
      | None \<Rightarrow>
          (case wanted of
             None \<Rightarrow> after = None
           | Some pc \<Rightarrow>
               if ours pc
               then (\<exists>g. build_group now name pc (connector_for li name pc st Service) = Inr g
                      \<and> after = Some \<lparr>pe_config = pc, pe_shared = g, pe_per_user = []\<rparr>)
               else after = None))"

lemma build_missing_follows:
  "build_missing li now st pcs pools = (pools', None) \<Longrightarrow> btree pools \<Longrightarrow> distinct (map fst pcs) \<Longrightarrow>
     follows li now st name (map_of pcs name) (map_of pools name) (map_of pools' name)"
proof (induction li now st pcs pools arbitrary: pools' rule: build_missing.induct)
  case (1 li now st pools)
  then show ?case by (auto simp: follows_def split: option.splits)
next
  case (2 li now st n pc rest pools)
  show ?case
  proof (cases "\<not> ours pc \<or> map_of pools n \<noteq> None")
    case True
    with 2 have "follows li now st name (map_of rest name) (map_of pools name) (map_of pools' name)" by simp
    moreover have "n = name \<Longrightarrow> map_of rest name = None" using 2 by (auto simp: map_of_eq_None_iff)
    ultimately show ?thesis using True by (auto simp: follows_def split: option.splits)
  next
    case False
    with "2.prems"(1) obtain g where g: "build_group now n pc (connector_for li n pc st Service) = Inr g"
      and rest: "build_missing li now st rest (btree_insert n \<lparr>pe_config = pc, pe_shared = g, pe_per_user = []\<rparr> pools) = (pools', None)"
      by (auto split: sum.splits)
    have "follows li now st name (map_of rest name)
        (map_of (btree_insert n \<lparr>pe_config = pc, pe_shared = g, pe_per_user = []\<rparr> pools) name) (map_of pools' name)"
      by (rule "2.IH"(2) [OF False g rest]) (use "2.prems" in simp_all)
    then show ?thesis using g False "2.prems"(2) by (auto simp: follows_def split: option.splits if_splits)
  qed
qed

lemma build_missing_keeps:
  "build_missing li now st pcs pools = (pools', r) \<Longrightarrow> btree pools \<Longrightarrow> map_of pools name = Some e \<Longrightarrow> map_of pools' name = Some e"
proof (induction li now st pcs pools arbitrary: pools' rule: build_missing.induct)
  case (2 li now st n pc rest pools)
  have "map_of pools n = None \<Longrightarrow> name \<noteq> n" using "2.prems"(3) by auto
  with 2 show ?case by (auto split: if_splits sum.splits)
qed simp

lemma map_of_filter_fst: "map_of (filter (\<lambda>(k, _). P k) m) k = (if P k then map_of m k else None)"
  by (induction m) auto

lemma forget_gone:
  "btree ids \<Longrightarrow> btree (foldl (\<lambda>ids (name, _). forget_pool name ids) ids gone)
     \<and> known_verifier pool who (foldl (\<lambda>ids (name, _). forget_pool name ids) ids gone) =
       (if pool \<in> fst ` set gone then None else known_verifier pool who ids)"
proof (induction gone arbitrary: ids)
  case (Cons x gone)
  obtain n e where x: "x = (n, e)" by (cases x)
  have "btree (forget_pool n ids)" using Cons.prems by (simp add: forget_pool_def btree_filter)
  from Cons.IH [OF this] known_after_forget [OF Cons.prems, of pool who n] x show ?case by auto
qed simp

text \<open>
  Applying a configuration leaves exactly the enabled PostgreSQL pools of the document.
  A pool that was there is left as it is, with its connections; one that is new is built
  from the document; one that is gone is drained, not dropped, and every identity the
  database vouched for on it is forgotten, while those of other pools are kept. A pool that
  cannot be built stops the work before anything is removed.
\<close>

theorem sync_follows_the_configuration:
  assumes "btree (st_pools st)" "btree (fa_pools fa)" "btree (fa_identities fa)" "rebuild_pools li now st fa = (fa', r)"
  shows "case r of
      Inr _ \<Rightarrow>
        (\<forall>name. (map_of (fa_pools fa') name \<noteq> None \<longleftrightarrow> is_live st name)
          \<and> (is_live st name \<longrightarrow>
               follows li now st name (map_of (st_pools st) name) (map_of (fa_pools fa) name) (map_of (fa_pools fa') name))
          \<and> (\<forall>e. map_of (fa_pools fa) name = Some e \<and> \<not> is_live st name \<longrightarrow> drain_entry e \<in> set (fa_retired fa'))
          \<and> (\<forall>who. known_verifier name who (fa_identities fa') =
               (if map_of (fa_pools fa) name \<noteq> None \<and> \<not> is_live st name then None else known_verifier name who (fa_identities fa))))
    | Inl _ \<Rightarrow>
        fa_identities fa' = fa_identities fa \<and> fa_retired fa' = fa_retired fa
        \<and> (\<forall>name e. map_of (fa_pools fa) name = Some e \<longrightarrow> map_of (fa_pools fa') name = Some e)"
proof -
  obtain pools res where b: "build_missing li now st (st_pools st) (fa_pools fa) = (pools, res)" by fastforce
  show ?thesis
  proof (cases res)
    case (Some e)
    with b assms(2,4) build_missing_keeps [OF b assms(2)] show ?thesis by (auto simp: rebuild_pools_def)
  next
    case None
    let ?gone = "filter (\<lambda>(name, _). \<not> is_live st name) pools"
    from b None assms(4) have fa': "fa_pools fa' = filter (\<lambda>(name, _). is_live st name) pools" "r = Inr ()"
      "fa_identities fa' = foldl (\<lambda>ids (name, _). forget_pool name ids) (fa_identities fa) ?gone"
      "fa_retired fa' = fa_retired fa @ map (\<lambda>(_, e). drain_entry e) ?gone"
      by (auto simp: rebuild_pools_def Let_def)
    have "distinct (map fst (st_pools st))" using assms(1) by (simp add: btree_def)
    note follow = build_missing_follows [OF b [unfolded None] assms(2) this]
    have after: "map_of (fa_pools fa') name = (if is_live st name then map_of pools name else None)" for name
      unfolding fa'(1) by (rule map_of_filter_fst)
    have live: "is_live st name \<Longrightarrow> map_of pools name \<noteq> None" for name
      using follow [of name] by (auto simp: is_live_def follows_def split: option.splits if_splits)
    have gone: "name \<in> fst ` set ?gone \<longleftrightarrow> map_of (fa_pools fa) name \<noteq> None \<and> \<not> is_live st name" for name
    proof -
      have "name \<in> fst ` set ?gone \<longleftrightarrow> map_of pools name \<noteq> None \<and> \<not> is_live st name"
        using map_of_eq_None_iff [of pools name] by force
      also have "\<dots> \<longleftrightarrow> map_of (fa_pools fa) name \<noteq> None \<and> \<not> is_live st name"
        using follow [of name] by (auto simp: is_live_def follows_def split: option.splits if_splits)
      finally show ?thesis .
    qed
    have drained: "drain_entry e \<in> set (fa_retired fa')" if "map_of (fa_pools fa) name = Some e" "\<not> is_live st name" for name e
      using map_of_SomeD [OF build_missing_keeps [OF b assms(2) that(1)]] that(2) unfolding fa'(4) by force
    show ?thesis
      using fa'(2) after live follow drained forget_gone [OF assms(3), where gone = ?gone] gone unfolding fa'(3) by simp
  qed
qed

section \<open>The sweep\<close>

definition swept :: "SessionRegistry \<Rightarrow> string \<Rightarrow> PoolEntry \<Rightarrow> PoolEntry" where
  "swept reg pool e = e\<lparr>pe_per_user := filter (keeps_user (users_in_pool pool reg)) (pe_per_user e)\<rparr>"

definition still_used :: "SessionRegistry \<Rightarrow> string \<Rightarrow> PoolEntry \<Rightarrow> string \<Rightarrow> bool" where
  "still_used reg pool e who \<longleftrightarrow> who \<in> users_in_pool pool reg \<or> who \<in> fst ` set (pe_per_user (swept reg pool e))"

lemma sweep_pool_result:
  assumes "btree (fa_pools fa)" "btree (fa_identities fa)"
  shows "btree (fa_pools (sweep_pool reg fa (pool, e)))" "btree (fa_identities (sweep_pool reg fa (pool, e)))"
    and "map_of (fa_pools (sweep_pool reg fa (pool, e))) p = (if p = pool then Some (swept reg pool e) else map_of (fa_pools fa) p)"
    and "known_verifier p who (fa_identities (sweep_pool reg fa (pool, e))) =
      (if p \<noteq> pool \<or> still_used reg pool e who then known_verifier p who (fa_identities fa) else None)"
  using assms known_after_retain [OF assms(2)]
  by (auto simp: sweep_pool_def swept_def still_used_def Let_def retain_identities_def btree_filter)

lemma sweep_result:
  assumes "btree (fa_pools fa)" "btree (fa_identities fa)" "distinct (map fst es)"
  shows "map_of (fa_pools (foldl (sweep_pool reg) fa es)) p =
      (case map_of es p of Some e \<Rightarrow> Some (swept reg p e) | None \<Rightarrow> map_of (fa_pools fa) p)
    \<and> known_verifier p who (fa_identities (foldl (sweep_pool reg) fa es)) =
      (case map_of es p of
         Some e \<Rightarrow> if still_used reg p e who then known_verifier p who (fa_identities fa) else None
       | None \<Rightarrow> known_verifier p who (fa_identities fa))"
  using assms
proof (induction es arbitrary: fa)
  case (Cons x es)
  obtain pool e where x: "x = (pool, e)" by (cases x)
  note res = sweep_pool_result [OF Cons.prems(1,2), where reg = reg and pool = pool and e = e]
  have "map_of es pool = None" using Cons.prems(3) x by (auto simp: map_of_eq_None_iff)
  with Cons.IH [OF res(1,2)] Cons.prems(3) res(3,4) x show ?case by (auto split: option.splits)
qed simp

text \<open>
  The sweep takes from every pool exactly the users that are gone: those with neither a
  live session on the pool nor an open backend connection lose their connection set. A
  password the database vouched for is remembered for just as long: it is forgotten when
  its user has neither a session on the pool nor a set of connections that was kept, and
  identities of pools that do not exist are left alone. Nothing else changes.
\<close>

theorem sweep_forgets_exactly_the_gone:
  assumes "btree (fa_pools fa)" "btree (fa_identities fa)"
    and "\<And>pool e. map_of (fa_pools fa) pool = Some e \<Longrightarrow> btree (pe_per_user e)"
  shows "map_of (fa_pools (sweep_idle_users reg fa)) pool = map_option (swept reg pool) (map_of (fa_pools fa) pool)
    \<and> (\<forall>e who. map_of (fa_pools fa) pool = Some e \<longrightarrow>
        map_of (pe_per_user (swept reg pool e)) who =
          (case map_of (pe_per_user e) who of
             None \<Rightarrow> None
           | Some ug \<Rightarrow> if who \<in> users_in_pool pool reg \<or> sn_open (combined_pool_snapshot (ug_group ug)) > 0 then Some ug else None)
        \<and> (known_verifier pool who (fa_identities (sweep_idle_users reg fa)) =
          (if who \<in> users_in_pool pool reg \<or> map_of (pe_per_user (swept reg pool e)) who \<noteq> None
           then known_verifier pool who (fa_identities fa) else None)))"
proof -
  have "distinct (map fst (fa_pools fa))" using assms(1) by (simp add: btree_def)
  note res = sweep_result [OF assms(1,2) this, where p = pool, folded sweep_idle_users_def]
  have user: "map_of (pe_per_user (swept reg pool e)) who =
      (case map_of (pe_per_user e) who of
         None \<Rightarrow> None
       | Some ug \<Rightarrow> if who \<in> users_in_pool pool reg \<or> sn_open (combined_pool_snapshot (ug_group ug)) > 0 then Some ug else None)"
    if "map_of (fa_pools fa) pool = Some e" for e who
  proof -
    have "keeps_user (users_in_pool pool reg) =
        (\<lambda>(who, ug). who \<in> users_in_pool pool reg \<or> sn_open (combined_pool_snapshot (ug_group ug)) > 0)"
      by (simp add: keeps_user_def fun_eq_iff)
    then show ?thesis
      using map_of_filter_key [OF assms(3) [OF that], of "\<lambda>who ug. who \<in> users_in_pool pool reg \<or> sn_open (combined_pool_snapshot (ug_group ug)) > 0" who]
      by (simp add: swept_def)
  qed
  have "still_used reg pool e who \<longleftrightarrow> who \<in> users_in_pool pool reg \<or> map_of (pe_per_user (swept reg pool e)) who \<noteq> None" for e who
    using map_of_eq_None_iff [of "pe_per_user (swept reg pool e)" who] by (auto simp: still_used_def)
  with res user show ?thesis by (auto split: option.splits)
qed

section \<open>What the database says\<close>

text \<open>
  The database vouches for a password only by a login as that user with that password, at
  the primary of the pool; and it is said to refuse only when the login ended in an error
  of authentication.
\<close>

lemma prove_credential_Inr:
  assumes "prove_credential fmt texts alive li d st pool who password = Inr ()"
  shows "\<exists>pc target cfg s b. map_of (st_pools st) pool = Some pc \<and> primary_target pc = Some target
    \<and> connector_for li pool pc st (As_User who password) target = Inr cfg \<and> bc_user cfg = who \<and> bc_password cfg = password
    \<and> connect fmt (li_crypto li) cfg d = (s, Inr b)"
proof -
  from assms obtain pc target cfg s b where *: "map_of (st_pools st) pool = Some pc" "primary_target pc = Some target"
    "connector_for li pool pc st (As_User who password) target = Inr cfg" "connect fmt (li_crypto li) cfg d = (s, Inr b)"
    by (auto simp: prove_credential_def split: if_splits option.splits sum.splits prod.splits ProtoError.splits)
  have "target \<in> set (pc_targets pc)"
    using *(2) by (auto simp: primary_target_def split: option.splits list.splits dest: find_Some_in)
  from connector_for_genuine [OF *(3) this] * show ?thesis by (auto simp: genuine_def)
qed

lemma prove_credential_refused:
  assumes "prove_credential fmt texts alive li d st pool who password = Inl UnknownUser"
  shows "\<exists>pc target cfg s why. map_of (st_pools st) pool = Some pc \<and> primary_target pc = Some target
    \<and> connector_for li pool pc st (As_User who password) target = Inr cfg \<and> connect fmt (li_crypto li) cfg d = (s, Inl (PAuth why))"
  using assms by (auto simp: prove_credential_def split: if_splits option.splits sum.splits prod.splits ProtoError.splits)

text \<open>
  A group that cannot be rebuilt after its password has changed stays in the map, drained.
\<close>

lemma failed_replacement_leaves_a_drained_group:
  assumes "map_of (pe_per_user e) who = Some ug" "ug_fingerprint ug \<noteq> fingerprint (li_crypto li) password" "btree (pe_per_user e)"
    and "build_group now pool (pe_config e) (connector_for li pool (pe_config e) st (As_User who password)) = Inl err"
  shows "\<exists>e'. group_for li now st pool who (Some password) e = (e', Inl err)
    \<and> map_of (pe_per_user e') who = Some (drain_user ug)"
  using assms by (simp add: group_for_def Let_def)

section \<open>Instances\<close>

definition example_libs :: Libs where
  "example_libs = \<lparr>li_crypto = example_lib, li_pki = example_pki, li_master_key = ''key''\<rparr>"

definition example_passthrough_pool :: PoolConfig where
  "example_passthrough_pool = (example_pool Transaction 6432 [])\<lparr>pc_backend_auth := Passthrough\<rparr>"

definition example_document :: State where
  "example_document = default_state\<lparr>st_pools := [(''orders'', example_passthrough_pool)]\<rparr>"

lemma postgres_profile: "\<exists>p. Option.bind (family ''postgres'') (\<lambda>f. Some (default_profile f)) = Some p"
proof -
  have "family ''postgres'' \<noteq> None" by code_simp
  then show ?thesis by auto
qed

lemma example_builds:
  "\<exists>g. build_group 0 ''orders'' example_passthrough_pool (connector_for example_libs ''orders'' example_passthrough_pool st ident) = Inr g"
proof -
  obtain p where p: "Option.bind (family ''postgres'') (\<lambda>f. Some (default_profile f)) = Some p" using postgres_profile by blast
  have "\<exists>d. connector_for example_libs ''orders'' example_passthrough_pool st ident t = Inr d" for t
    using p by (auto simp: connector_for_def example_passthrough_pool_def example_pool_def settings_text_def client_config_def
        example_libs_def example_pki_def mode_defs credentials_def split: prod.splits)
  then obtain d where "connector_for example_libs ''orders'' example_passthrough_pool st ident (new_target ''db'' 5432) = Inr d" by blast
  then show ?thesis
    by (simp add: build_group_def primary_target_def example_passthrough_pool_def example_pool_def new_target_def Let_def)
qed

lemma example_sync:
  "\<exists>g. rebuild_pools example_libs 0 example_document new_family =
     (new_family\<lparr>fa_pools := [(''orders'', \<lparr>pe_config = example_passthrough_pool, pe_shared = g, pe_per_user = []\<rparr>)]\<rparr>, Inr ())"
proof -
  obtain g where "build_group 0 ''orders'' example_passthrough_pool
      (connector_for example_libs ''orders'' example_passthrough_pool example_document Service) = Inr g" using example_builds by blast
  moreover have "ours example_passthrough_pool" by (simp add: ours_def example_passthrough_pool_def example_pool_def FAMILY_ID_def)
  ultimately show ?thesis
    by (simp add: rebuild_pools_def example_document_def default_state_def new_family_def is_live_def Let_def)
qed

theorem borrowed_connections_are_the_clients_own_witness:
  "\<exists>fa' g d. borrow_group example_libs 0 example_document ''orders'' ''alice'' (Some ''pw'')
      (foldl (family_act example_libs) new_family [Sync 0 example_document]) = (fa', Inr g)
    \<and> d \<in> connectors g \<and> bc_user d = ''alice''"
proof -
  let ?fa = "foldl (family_act example_libs) new_family [Sync 0 example_document]"
  obtain e where e: "map_of (fa_pools ?fa) ''orders'' = Some e" "pe_config e = example_passthrough_pool" "pe_per_user e = []"
    using example_sync by auto
  obtain g where "build_group 0 ''orders'' example_passthrough_pool
      (connector_for example_libs ''orders'' example_passthrough_pool example_document (As_User ''alice'' ''pw'')) = Inr g"
    using example_builds by blast
  with e obtain fa' where run: "borrow_group example_libs 0 example_document ''orders'' ''alice'' (Some ''pw'') ?fa = (fa', Inr g)"
    by (auto simp: borrow_group_def group_for_def Let_def)
  have d: "tp_connector (pg_primary g) \<in> connectors g" by (simp add: connectors_def)
  from borrowed_connections_are_the_clients_own [OF refl run d] have "bc_user (tp_connector (pg_primary g)) = ''alice''"
    by (auto simp: genuine_def)
  with run d show ?thesis by blast
qed

theorem sync_follows_the_configuration_witness:
  "\<exists>fa'. rebuild_pools example_libs 0 example_document new_family = (fa', Inr ())
    \<and> map_of (fa_pools fa') ''orders'' \<noteq> None \<and> map_of (fa_pools fa') ''reports'' = None"
proof -
  obtain fa' where run: "rebuild_pools example_libs 0 example_document new_family = (fa', Inr ())" using example_sync by blast
  have "btree (st_pools example_document)" "btree (fa_pools new_family)" "btree (fa_identities new_family)"
    by (simp_all add: example_document_def default_state_def new_family_def btree_def)
  from sync_follows_the_configuration [OF this run] have "\<forall>name. (map_of (fa_pools fa') name \<noteq> None) = is_live example_document name"
    by simp
  moreover have "is_live example_document ''orders''" "\<not> is_live example_document ''reports''"
    by (simp_all add: is_live_def example_document_def default_state_def ours_def example_passthrough_pool_def example_pool_def FAMILY_ID_def)
  ultimately show ?thesis using run by blast
qed

theorem sweep_forgets_exactly_the_gone_witness:
  "\<exists>fa v. known_verifier ''orders'' ''alice'' (fa_identities fa) = Some v
    \<and> known_verifier ''orders'' ''alice'' (fa_identities (sweep_idle_users new_sessions fa)) = None"
proof -
  obtain e where e: "map_of (fa_pools (fst (rebuild_pools example_libs 0 example_document new_family))) ''orders'' = Some e" "pe_per_user e = []"
    using example_sync by auto
  let ?fa = "new_family\<lparr>fa_pools := [(''orders'', e)], fa_identities := [((''orders'', ''alice''), from_password_with example_lib ''pw'' ''salt'' 2)]\<rparr>"
  have "btree (fa_pools ?fa)" "btree (fa_identities ?fa)" by (simp_all add: btree_def)
  moreover have "btree (pe_per_user e')" if "map_of (fa_pools ?fa) p = Some e'" for p e'
    using that e by (simp add: new_family_def split: if_splits)
  ultimately have "known_verifier ''orders'' ''alice'' (fa_identities (sweep_idle_users new_sessions ?fa)) = None"
    using sweep_forgets_exactly_the_gone [of ?fa new_sessions "''orders''"] e
    by (simp add: swept_def users_in_pool_def new_sessions_def)
  moreover have "known_verifier ''orders'' ''alice'' (fa_identities ?fa) = Some (from_password_with example_lib ''pw'' ''salt'' 2)"
    by (simp add: known_verifier_def)
  ultimately show ?thesis by blast
qed

end
