(* ===== verification/Session_Relay.thy ===== *)
theory Session_Relay
  imports Txn
begin

text \<open>
  The relay of session mode (\<open>havuz-pg/src/relay.rs\<close>): bytes go both ways unread, except that
  the client's goodbye must not reach the backend. What the select loop meets is a list of
  events, the chunks as the sockets cut them; a list that ends leaves the relay waiting. The
  results: however the client's bytes are cut, the backend gets exactly the messages before
  \<open>Terminate\<close>, and every byte of the backend reaches the client.
\<close>

definition HEADER_LEN :: nat where "HEADER_LEN = 5"
definition TAG_TERMINATE :: char where "TAG_TERMINATE = CHR ''X''"

section \<open>The scanner\<close>

text \<open>\<open>fs_partial\<close> are the first \<open>partial_len\<close> bytes of the array \<open>partial\<close>.\<close>

record FrameScanner =
  fs_remaining :: nat
  fs_partial :: string

definition new_scanner :: FrameScanner where
  "new_scanner = \<lparr>fs_remaining = 0, fs_partial = []\<rparr>"

text \<open>The declared length is signed; subtracting saturates and nothing below zero is left.\<close>

definition body_len :: "string \<Rightarrow> nat" where
  "body_len header =
     (case get_i32 (drop 1 header) of
        Some (declared, _) \<Rightarrow> nat (max 0 (max (- 2147483648) (sint declared - 4)))
      | None \<Rightarrow> 0)"

text \<open>The loop of \<open>scan\<close>, at position \<open>pos\<close> with the bytes from there on.\<close>

function scan_from :: "FrameScanner \<Rightarrow> nat \<Rightarrow> string \<Rightarrow> FrameScanner \<times> nat option" where
  "scan_from fs pos buf =
     (if buf = [] then (fs, None)
      else if fs_remaining fs > 0 then
        (let skip = min (fs_remaining fs) (length buf)
         in scan_from (fs\<lparr>fs_remaining := fs_remaining fs - skip\<rparr>) (pos + skip) (drop skip buf))
      else if fs_partial fs \<noteq> [] then
        (let want = HEADER_LEN - length (fs_partial fs); n = min want (length buf);
             header = fs_partial fs @ take n buf
         in if length header < HEADER_LEN then (fs\<lparr>fs_partial := header\<rparr>, None)
            else if hd header = TAG_TERMINATE then (fs\<lparr>fs_partial := []\<rparr>, Some 0)
            else scan_from \<lparr>fs_remaining = body_len header, fs_partial = []\<rparr> (pos + n) (drop n buf))
      else if hd buf = TAG_TERMINATE then (fs, Some pos)
      else if length buf < HEADER_LEN then (fs\<lparr>fs_partial := buf\<rparr>, None)
      else scan_from (fs\<lparr>fs_remaining := body_len (take HEADER_LEN buf)\<rparr>) (pos + HEADER_LEN) (drop HEADER_LEN buf))"
  by pat_completeness auto
termination
  by (relation "measures [\<lambda>(_, _, buf). length buf, \<lambda>(fs, _, _). length (fs_partial fs)]") (auto simp: HEADER_LEN_def)

declare scan_from.simps [simp del]

definition scan :: "FrameScanner \<Rightarrow> string \<Rightarrow> FrameScanner \<times> nat option" where
  "scan fs buf = scan_from fs 0 buf"

section \<open>The relay\<close>

text \<open>
  What the select sees next: an operator's kick, what a read of the client or the backend
  gave, with the error of writing it on if that fails.
\<close>

datatype RelayEvent =
  Kick
  | FromClient "ErrorKind + string" "ErrorKind option"
  | FromBackend "ErrorKind + string" "ErrorKind option"

record SessionRelay =
  sr_scanner :: FrameScanner
  sr_stats :: RelayStats
  sr_backend_out :: string            \<comment> \<open>written to the backend\<close>
  sr_client_out :: string             \<comment> \<open>written to the client\<close>

definition new_relay :: SessionRelay where
  "new_relay = \<lparr>sr_scanner = new_scanner, sr_stats = zero_relay_stats, sr_backend_out = [], sr_client_out = []\<rparr>"

datatype Turn = Go_On SessionRelay | Ended SessionRelay | Failed SessionRelay ErrorKind

definition give_backend :: "string \<Rightarrow> SessionRelay \<Rightarrow> SessionRelay" where
  "give_backend bs r =
     r\<lparr>sr_backend_out := sr_backend_out r @ bs,
       sr_stats := (sr_stats r)\<lparr>to_backend := to_backend (sr_stats r) + word_of_nat (length bs)\<rparr>\<rparr>"

definition give_client :: "string \<Rightarrow> SessionRelay \<Rightarrow> SessionRelay" where
  "give_client bs r =
     r\<lparr>sr_client_out := sr_client_out r @ bs,
       sr_stats := (sr_stats r)\<lparr>to_client := to_client (sr_stats r) + word_of_nat (length bs)\<rparr>\<rparr>"

definition from_client :: "string \<Rightarrow> ErrorKind option \<Rightarrow> SessionRelay \<Rightarrow> Turn" where
  "from_client chunk fault r =
     (if chunk = [] then Ended r
      else case scan (sr_scanner r) chunk of
        (fs, Some offset) \<Rightarrow>
          let r = r\<lparr>sr_scanner := fs\<rparr>;
              r' = (if offset > 0 then give_backend (take offset chunk) r else r);
              goodbye = (\<lambda>r. r\<lparr>sr_stats := (sr_stats r)\<lparr>client_terminated := True\<rparr>\<rparr>)
          in (if offset > 0 then (case fault of Some e \<Rightarrow> Failed r e | None \<Rightarrow> Ended (goodbye r')) else Ended (goodbye r))
      | (fs, None) \<Rightarrow>
          let r = r\<lparr>sr_scanner := fs\<rparr>
          in (case fault of Some e \<Rightarrow> Failed r e | None \<Rightarrow> Go_On (give_backend chunk r)))"

definition from_backend :: "string \<Rightarrow> ErrorKind option \<Rightarrow> SessionRelay \<Rightarrow> Turn" where
  "from_backend chunk fault r =
     (if chunk = [] then Ended (r\<lparr>sr_stats := (sr_stats r)\<lparr>backend_closed := True\<rparr>\<rparr>)
      else case fault of Some e \<Rightarrow> Failed r e | None \<Rightarrow> Go_On (give_client chunk r))"

definition relay_turn :: "RelayEvent \<Rightarrow> SessionRelay \<Rightarrow> Turn" where
  "relay_turn ev r =
     (case ev of
        Kick \<Rightarrow> Ended (r\<lparr>sr_stats := (sr_stats r)\<lparr>kicked := True\<rparr>\<rparr>)
      | FromClient (Inl e) _ \<Rightarrow> Failed r e
      | FromClient (Inr chunk) fault \<Rightarrow> from_client chunk fault r
      | FromBackend (Inl e) _ \<Rightarrow> Failed r e
      | FromBackend (Inr chunk) fault \<Rightarrow> from_backend chunk fault r)"

fun session_relay :: "RelayEvent list \<Rightarrow> SessionRelay \<Rightarrow> Turn" where
  "session_relay [] r = Go_On r"
| "session_relay (ev # evs) r =
     (case relay_turn ev r of
        Go_On r' \<Rightarrow> session_relay evs r'
      | Ended r' \<Rightarrow> Ended r'
      | Failed r' e \<Rightarrow> Failed r' e)"

section \<open>Byte by byte\<close>

text \<open>
  The scanner as a machine that reads one byte: \<open>None\<close> is the first byte of a goodbye. The
  scanner agrees with it, so it does not matter where the chunks are cut.
\<close>

definition scan_byte :: "FrameScanner \<Rightarrow> char \<Rightarrow> FrameScanner option" where
  "scan_byte fs b =
     (if fs_remaining fs > 0 then Some (fs\<lparr>fs_remaining := fs_remaining fs - 1\<rparr>)
      else if fs_partial fs = [] \<and> b = TAG_TERMINATE then None
      else let header = fs_partial fs @ [b] in
        if length header < HEADER_LEN then Some (fs\<lparr>fs_partial := header\<rparr>)
        else Some \<lparr>fs_remaining = body_len header, fs_partial = []\<rparr>)"

fun scan_bytes :: "FrameScanner \<Rightarrow> nat \<Rightarrow> string \<Rightarrow> FrameScanner \<times> nat option" where
  "scan_bytes fs pos [] = (fs, None)"
| "scan_bytes fs pos (b # bs) =
     (case scan_byte fs b of None \<Rightarrow> (fs, Some pos) | Some fs' \<Rightarrow> scan_bytes fs' (Suc pos) bs)"

definition scanner_ok :: "FrameScanner \<Rightarrow> bool" where
  "scanner_ok fs \<longleftrightarrow> length (fs_partial fs) < HEADER_LEN
     \<and> (fs_partial fs \<noteq> [] \<longrightarrow> fs_remaining fs = 0 \<and> hd (fs_partial fs) \<noteq> TAG_TERMINATE)"

lemma scan_bytes_append:
  "scan_bytes fs pos (a @ b) =
     (case scan_bytes fs pos a of
        (fs', Some k) \<Rightarrow> (fs', Some k)
      | (fs', None) \<Rightarrow> scan_bytes fs' (pos + length a) b)"
  by (induction fs pos a rule: scan_bytes.induct) (auto split: option.splits)

lemma scan_bytes_skip:
  "n \<le> fs_remaining fs \<Longrightarrow> n = length bs \<Longrightarrow> scan_bytes fs pos bs = (fs\<lparr>fs_remaining := fs_remaining fs - n\<rparr>, None)"
proof (induction bs arbitrary: fs pos n)
  case (Cons b bs)
  then have "scan_byte fs b = Some (fs\<lparr>fs_remaining := fs_remaining fs - 1\<rparr>)" by (simp add: scan_byte_def)
  with Cons show ?case by (cases n) auto
qed simp

text \<open>Bytes of a header, with the first of them already known not to be a goodbye.\<close>

lemma scan_bytes_header:
  assumes "fs_remaining fs = 0" "fs_partial fs = [] \<longrightarrow> bs = [] \<or> hd bs \<noteq> TAG_TERMINATE"
    and "length (fs_partial fs) + length bs \<le> HEADER_LEN" "length (fs_partial fs) < HEADER_LEN"
  shows "scan_bytes fs pos bs =
    ((if length (fs_partial fs @ bs) < HEADER_LEN then fs\<lparr>fs_partial := fs_partial fs @ bs\<rparr>
      else \<lparr>fs_remaining = body_len (fs_partial fs @ bs), fs_partial = []\<rparr>), None)"
  using assms
proof (induction bs arbitrary: fs pos)
  case Nil
  then have "fs\<lparr>fs_partial := fs_partial fs\<rparr> = fs" by simp
  with Nil show ?case by simp
next
  case (Cons b bs)
  show ?case
  proof (cases "length (fs_partial fs @ [b]) < HEADER_LEN")
    case True
    then have "scan_byte fs b = Some (fs\<lparr>fs_partial := fs_partial fs @ [b]\<rparr>)"
      using Cons.prems by (auto simp: scan_byte_def)
    with True Cons.prems Cons.IH [of "fs\<lparr>fs_partial := fs_partial fs @ [b]\<rparr>" "Suc pos"] show ?thesis by simp
  next
    case False
    with Cons.prems(3) have "length bs = 0" by (auto simp only: length_append list.size)
    moreover from False have "scan_byte fs b = Some \<lparr>fs_remaining = body_len (fs_partial fs @ [b]), fs_partial = []\<rparr>"
      using Cons.prems by (auto simp: scan_byte_def)
    ultimately show ?thesis using False by simp
  qed
qed

lemma scan_from_bytes:
  assumes "scanner_ok fs"
  shows "scan_from fs pos buf = scan_bytes fs pos buf \<and> scanner_ok (fst (scan_from fs pos buf))"
  using assms
proof (induction fs pos buf rule: scan_from.induct)
  case (1 fs pos buf)
  note unfold = scan_from.simps [of fs pos buf]
  consider (empty) "buf = []" | (body) "buf \<noteq> []" "fs_remaining fs > 0"
    | (carried) "buf \<noteq> []" "fs_remaining fs = 0" "fs_partial fs \<noteq> []"
    | (goodbye) "buf \<noteq> []" "fs_remaining fs = 0" "fs_partial fs = []" "hd buf = TAG_TERMINATE"
    | (short) "buf \<noteq> []" "fs_remaining fs = 0" "fs_partial fs = []" "hd buf \<noteq> TAG_TERMINATE" "length buf < HEADER_LEN"
    | (whole) "buf \<noteq> []" "fs_remaining fs = 0" "fs_partial fs = []" "hd buf \<noteq> TAG_TERMINATE" "HEADER_LEN \<le> length buf"
    by fastforce
  then show ?case
  proof cases
    case empty
    with 1(4) unfold show ?thesis by simp
  next
    case body
    let ?n = "min (fs_remaining fs) (length buf)" and ?fs = "fs\<lparr>fs_remaining := fs_remaining fs - min (fs_remaining fs) (length buf)\<rparr>"
    from body 1(4) have ok: "scanner_ok ?fs" by (simp add: scanner_ok_def)
    have "scan_bytes fs pos (take ?n buf @ drop ?n buf) = scan_bytes ?fs (pos + ?n) (drop ?n buf)"
      unfolding scan_bytes_append by (simp add: scan_bytes_skip [of ?n])
    with 1(1) [OF body refl ok] body show ?thesis by (auto simp: unfold Let_def)
  next
    case carried
    let ?n = "min (HEADER_LEN - length (fs_partial fs)) (length buf)"
    let ?h = "fs_partial fs @ take ?n buf"
    from 1(4) carried have fs: "length (fs_partial fs) < HEADER_LEN" "hd ?h \<noteq> TAG_TERMINATE" by (auto simp: scanner_ok_def)
    have bytes: "scan_bytes fs pos (take ?n buf) =
      ((if length ?h < HEADER_LEN then fs\<lparr>fs_partial := ?h\<rparr> else \<lparr>fs_remaining = body_len ?h, fs_partial = []\<rparr>), None)"
      using carried fs by (intro scan_bytes_header) auto
    show ?thesis
    proof (cases "length ?h < HEADER_LEN")
      case True
      then have "take ?n buf = buf" using fs by (auto simp: min_def split: if_splits)
      with True bytes carried fs 1(4) show ?thesis by (simp add: unfold Let_def scanner_ok_def)
    next
      case False
      have ok: "scanner_ok \<lparr>fs_remaining = body_len ?h, fs_partial = []\<rparr>" by (simp add: scanner_ok_def HEADER_LEN_def)
      have "scan_bytes fs pos (take ?n buf @ drop ?n buf)
          = scan_bytes \<lparr>fs_remaining = body_len ?h, fs_partial = []\<rparr> (pos + ?n) (drop ?n buf)"
        unfolding scan_bytes_append bytes if_not_P [OF False] by (simp add: min.commute min.left_commute)
      with 1(2) [OF carried(1) _ carried(3) refl refl refl False fs(2) ok] carried False fs
      show ?thesis by (auto simp: unfold Let_def)
    qed
  next
    case goodbye
    with 1(4) have "scan_from fs pos buf = (fs, Some pos)" by (simp add: unfold)
    with goodbye 1(4) show ?thesis by (cases buf) (simp_all add: scan_byte_def)
  next
    case short
    then have "scan_bytes fs pos buf = (fs\<lparr>fs_partial := buf\<rparr>, None)"
      using scan_bytes_header [of fs buf pos] by (simp add: HEADER_LEN_def)
    with short show ?thesis by (simp add: unfold scanner_ok_def)
  next
    case whole
    let ?fs = "fs\<lparr>fs_remaining := body_len (take HEADER_LEN buf)\<rparr>"
    have ok: "scanner_ok ?fs" using whole by (simp add: scanner_ok_def HEADER_LEN_def)
    have eq: "?fs = \<lparr>fs_remaining = body_len (take HEADER_LEN buf), fs_partial = []\<rparr>" using whole(3) by (cases fs) simp
    have "scan_bytes fs pos (take HEADER_LEN buf @ drop HEADER_LEN buf) = scan_bytes ?fs (pos + HEADER_LEN) (drop HEADER_LEN buf)"
      unfolding scan_bytes_append eq using whole scan_bytes_header [of fs "take HEADER_LEN buf" pos]
      by (simp add: HEADER_LEN_def)
    with 1(3) [OF whole(1) _ _ whole(4) _ ok] whole show ?thesis by (auto simp: unfold)
  qed
qed

section \<open>What reaches whom\<close>

lemma scan_bytes_shift:
  "scan_bytes fs (k + pos) bs = (let (fs', found) = scan_bytes fs pos bs in (fs', map_option ((+) k) found))"
  by (induction fs pos bs rule: scan_bytes.induct) (auto simp: Let_def split: option.splits prod.splits)

lemma scan_bytes_bound: "scan_bytes fs pos bs = (fs', Some k) \<Longrightarrow> pos \<le> k \<and> k < pos + length bs"
  by (induction fs pos bs rule: scan_bytes.induct) (fastforce split: option.splits)+

lemma body_len_encoded:
  assumes "length (body m) < 2147483644"
  shows "body_len (take HEADER_LEN (encode_msg m)) = length (body m)"
proof -
  let ?w = "word_of_nat (length (body m) + 4) :: i32"
  have "get_i32 (put_i32 ?w @ []) = Some (?w, [])" by (rule get_put_i32)
  moreover have "take HEADER_LEN (encode_msg m) = tag m # put_i32 ?w" by (simp add: encode_msg_def HEADER_LEN_def)
  moreover have "sint ?w = int (length (body m) + 4)" using assms by (intro sint_small) simp
  ultimately show ?thesis by (simp add: body_len_def del: of_nat_add)
qed

lemma scan_bytes_msg:
  assumes "tag m \<noteq> TAG_TERMINATE" "length (body m) < 2147483644"
  shows "scan_bytes new_scanner pos (encode_msg m @ rest) = scan_bytes new_scanner (pos + length (encode_msg m)) rest"
proof -
  let ?h = "take HEADER_LEN (encode_msg m)"
  have parts: "encode_msg m = ?h @ body m" by (simp add: encode_msg_def HEADER_LEN_def)
  have "scan_bytes new_scanner pos ?h = (\<lparr>fs_remaining = length (body m), fs_partial = []\<rparr>, None)"
    using scan_bytes_header [of new_scanner ?h pos] assms body_len_encoded [OF assms(2)]
    by (simp add: new_scanner_def HEADER_LEN_def encode_msg_def)
  moreover have "scan_bytes \<lparr>fs_remaining = length (body m), fs_partial = []\<rparr> p (body m) = (new_scanner, None)" for p
    by (subst scan_bytes_skip [of "length (body m)"]) (simp_all add: new_scanner_def)
  ultimately show ?thesis by (subst (1 2) parts) (simp add: scan_bytes_append add.assoc)
qed

lemma scan_bytes_messages:
  assumes "\<forall>m \<in> set ms. tag m \<noteq> TAG_TERMINATE \<and> length (body m) < 2147483644"
  shows "scan_bytes new_scanner pos (concat (map encode_msg ms) @ rest)
    = scan_bytes new_scanner (pos + length (concat (map encode_msg ms))) rest"
  using assms by (induction ms arbitrary: pos) (simp_all add: scan_bytes_msg add.assoc)

text \<open>The bytes each side sent, over the events the relay met.\<close>

fun client_sent :: "RelayEvent list \<Rightarrow> string" where
  "client_sent (FromClient (Inr chunk) _ # evs) = chunk @ client_sent evs"
| "client_sent (_ # evs) = client_sent evs"
| "client_sent [] = []"

fun backend_sent :: "RelayEvent list \<Rightarrow> string" where
  "backend_sent (FromBackend (Inr chunk) _ # evs) = chunk @ backend_sent evs"
| "backend_sent (_ # evs) = backend_sent evs"
| "backend_sent [] = []"

text \<open>Reads that give bytes and writes that succeed: neither side hangs up, nobody is kicked.\<close>

definition flowing :: "RelayEvent \<Rightarrow> bool" where
  "flowing ev = (case ev of
      FromClient (Inr chunk) None \<Rightarrow> chunk \<noteq> []
    | FromBackend (Inr chunk) None \<Rightarrow> chunk \<noteq> []
    | _ \<Rightarrow> False)"

lemma flowing_cases:
  assumes "flowing ev"
  obtains (client) chunk where "ev = FromClient (Inr chunk) None" "chunk \<noteq> []"
    | (backend) chunk where "ev = FromBackend (Inr chunk) None" "chunk \<noteq> []"
  using assms by (auto simp: flowing_def split: RelayEvent.splits sum.splits option.splits)

definition carries :: "SessionRelay \<Rightarrow> string \<Rightarrow> string \<Rightarrow> SessionRelay \<Rightarrow> bool" where
  "carries r up down r' \<longleftrightarrow> sr_backend_out r' = sr_backend_out r @ up \<and> sr_client_out r' = sr_client_out r @ down
     \<and> to_backend (sr_stats r') = to_backend (sr_stats r) + word_of_nat (length up)
     \<and> to_client (sr_stats r') = to_client (sr_stats r) + word_of_nat (length down)
     \<and> kicked (sr_stats r') = kicked (sr_stats r) \<and> backend_closed (sr_stats r') = backend_closed (sr_stats r)"

lemma carries_trans: "carries r a b s \<Longrightarrow> carries s c d t \<Longrightarrow> carries r (a @ c) (b @ d) t"
  by (simp add: carries_def algebra_simps)

text \<open>
  How the relay comes out, given where the byte machine finds the goodbye in what the client
  sends: nowhere, and everything passes both ways; or at \<open>k\<close>, and the bytes before it pass.
\<close>

definition relayed :: "SessionRelay \<Rightarrow> string \<Rightarrow> string \<Rightarrow> nat option \<Rightarrow> Turn \<Rightarrow> bool" where
  "relayed r up down found t =
     (case found of
        None \<Rightarrow> \<exists>r'. t = Go_On r' \<and> carries r up down r' \<and> client_terminated (sr_stats r') = client_terminated (sr_stats r)
      | Some k \<Rightarrow> \<exists>r' seen later. t = Ended r' \<and> down = seen @ later \<and> carries r (take k up) seen r'
          \<and> client_terminated (sr_stats r'))"

lemma relayed_step:
  assumes "carries r a b s" "client_terminated (sr_stats s) = client_terminated (sr_stats r)" "relayed s up down found t"
  shows "relayed r (a @ up) (b @ down) (map_option ((+) (length a)) found) t"
proof (cases found)
  case None
  with assms show ?thesis by (auto simp: relayed_def intro: carries_trans)
next
  case (Some k)
  with assms(3) obtain r' seen later where "t = Ended r'" "down = seen @ later" "carries s (take k up) seen r'"
    "client_terminated (sr_stats r')" by (auto simp: relayed_def)
  moreover from this have "b @ down = (b @ seen) @ later" "carries r (a @ take k up) (b @ seen) r'"
    using carries_trans [OF assms(1)] by simp_all
  ultimately show ?thesis using Some
    by (simp only: relayed_def option.case option.map take_append) (intro exI conjI, auto)
qed

text \<open>
  The relay over a flowing list of events is the byte machine over the client's bytes, put
  together whichever way they were cut.
\<close>

lemma session_relay_bytes:
  assumes "\<forall>ev \<in> set evs. flowing ev" "scanner_ok (sr_scanner r)"
  shows "relayed r (client_sent evs) (backend_sent evs) (snd (scan_bytes (sr_scanner r) 0 (client_sent evs))) (session_relay evs r)"
  using assms
proof (induction evs arbitrary: r)
  case Nil
  then show ?case by (simp add: relayed_def carries_def)
next
  case (Cons ev evs)
  then have "flowing ev" by simp
  then show ?case
  proof (cases rule: flowing_cases)
    case (backend chunk)
    let ?r = "give_client chunk r"
    have step: "session_relay (ev # evs) r = session_relay evs ?r" "sr_scanner ?r = sr_scanner r" "carries r [] chunk ?r"
      "client_terminated (sr_stats ?r) = client_terminated (sr_stats r)"
      using backend by (simp_all add: relay_turn_def from_backend_def give_client_def carries_def)
    from Cons.prems step(2) have "relayed ?r (client_sent evs) (backend_sent evs)
      (snd (scan_bytes (sr_scanner r) 0 (client_sent evs))) (session_relay evs ?r)"
      using Cons.IH [of ?r] by simp
    from relayed_step [OF step(3,4) this] backend show ?thesis
      unfolding step(1) by (simp add: option.map_ident cong: option.map_cong)
  next
    case (client chunk)
    obtain fs found where sc: "scan_bytes (sr_scanner r) 0 chunk = (fs, found)" by fastforce
    with scan_from_bytes [OF Cons.prems(2), of 0 chunk] have scan: "scan (sr_scanner r) chunk = (fs, found)" "scanner_ok fs"
      by (auto simp: scan_def)
    show ?thesis
    proof (cases found)
      case (Some k)
      with sc have k: "k < length chunk" using scan_bytes_bound by fastforce
      define r' where "r' = (if k > 0 then give_backend (take k chunk) (r\<lparr>sr_scanner := fs\<rparr>) else r\<lparr>sr_scanner := fs\<rparr>)"
      let ?r = "r'\<lparr>sr_stats := (sr_stats r')\<lparr>client_terminated := True\<rparr>\<rparr>"
      have "session_relay (ev # evs) r = Ended ?r"
        using client scan Some by (simp add: relay_turn_def from_client_def r'_def Let_def)
      moreover have "carries r (take k chunk) [] ?r" using k by (simp add: carries_def r'_def give_backend_def)
      ultimately show ?thesis using client sc Some k
        by (simp add: scan_bytes_append relayed_def) (intro exI [of _ "[]"], simp)
    next
      case None
      let ?r = "give_backend chunk (r\<lparr>sr_scanner := fs\<rparr>)"
      have step: "session_relay (ev # evs) r = session_relay evs ?r" "sr_scanner ?r = fs" "carries r chunk [] ?r"
        "client_terminated (sr_stats ?r) = client_terminated (sr_stats r)"
        using client scan None by (simp_all add: relay_turn_def from_client_def give_backend_def carries_def Let_def)
      have "snd (scan_bytes (sr_scanner r) 0 (client_sent (ev # evs)))
          = map_option ((+) (length chunk)) (snd (scan_bytes fs 0 (client_sent evs)))"
        using client sc None scan_bytes_shift [of fs "length chunk" 0 "client_sent evs"]
        by (simp add: scan_bytes_append split: prod.splits)
      moreover have "relayed ?r (client_sent evs) (backend_sent evs) (snd (scan_bytes fs 0 (client_sent evs))) (session_relay evs ?r)"
        using Cons.IH [of ?r] Cons.prems(1) scan(2) step(2) by simp
      ultimately show ?thesis using relayed_step [OF step(3,4)] step(1) client by simp
    qed
  qed
qed

text \<open>
  C10. However the sockets cut the client's bytes, and whatever the backend sends in between,
  the backend gets exactly the messages the client sent before its goodbye: not one byte of
  \<open>Terminate\<close>, which would close the connection the pool wants back, nor of anything after.
  The relay ends there, marked as terminated by the client, having counted those bytes.
\<close>

theorem goodbye_never_reaches_the_backend:
  assumes "\<forall>ev \<in> set evs. flowing ev"
    and "client_sent evs = concat (map encode_msg ms) @ encode_msg terminate_msg @ junk"
    and "\<forall>m \<in> set ms. tag m \<noteq> TAG_TERMINATE \<and> length (body m) < 2147483644"
  shows "\<exists>r. session_relay evs new_relay = Ended r \<and> sr_backend_out r = concat (map encode_msg ms)
    \<and> client_terminated (sr_stats r) \<and> \<not> backend_closed (sr_stats r) \<and> \<not> kicked (sr_stats r)
    \<and> to_backend (sr_stats r) = word_of_nat (length (concat (map encode_msg ms)))
    \<and> (\<exists>later. backend_sent evs = sr_client_out r @ later)"
proof -
  let ?ms = "concat (map encode_msg ms)"
  obtain t where "encode_msg terminate_msg = TAG_TERMINATE # t"
    by (simp add: encode_msg_def terminate_msg_def msg_def TAG_TERMINATE_def)
  then have "scan_bytes new_scanner 0 (client_sent evs) = (new_scanner, Some (length ?ms))"
    using assms(2) scan_bytes_messages [OF assms(3), of 0 "encode_msg terminate_msg @ junk"]
    by (simp add: scan_byte_def new_scanner_def)
  moreover have "sr_scanner new_relay = new_scanner" "scanner_ok (sr_scanner new_relay)"
    by (simp_all add: new_relay_def scanner_ok_def new_scanner_def HEADER_LEN_def)
  ultimately obtain r seen later where "session_relay evs new_relay = Ended r" "backend_sent evs = seen @ later"
    "carries new_relay (take (length ?ms) (client_sent evs)) seen r" "client_terminated (sr_stats r)"
    using session_relay_bytes [OF assms(1), of new_relay] by (auto simp: relayed_def)
  moreover have "take (length ?ms) (client_sent evs) = ?ms" using assms(2) by simp
  ultimately show ?thesis by (auto simp: carries_def new_relay_def zero_relay_stats_def)
qed

definition example_events :: "RelayEvent list" where
  "example_events =
     [FromClient (Inr (''Q'' @ [NUL, NUL])) None, FromBackend (Inr ''T'') None,
      FromClient (Inr ([NUL, CHR 0x06] @ ''X'' @ [NUL] @ ''X'')) None, FromBackend (Inr ''Z'') None,
      FromClient (Inr [NUL, NUL, NUL, CHR 0x04]) None]"

lemma goodbye_never_reaches_the_backend_witness:
  "\<exists>r. session_relay example_events new_relay = Ended r \<and> sr_backend_out r = encode_msg (msg (CHR ''Q'') (''X'' @ [NUL]))
    \<and> client_terminated (sr_stats r) \<and> to_backend (sr_stats r) = 7"
proof -
  have "concat (map encode_msg [msg (CHR ''Q'') (''X'' @ [NUL])]) = ''Q'' @ [NUL, NUL, NUL, CHR 0x06] @ ''X'' @ [NUL]"
    by (simp add: encode_msg_def msg_def put_i32_def Let_def char_of_def bit_0)
  moreover have "encode_msg terminate_msg = ''X'' @ [NUL, NUL, NUL, CHR 0x04]"
    by (simp add: encode_msg_def terminate_msg_def msg_def put_i32_def Let_def char_of_def bit_0)
  ultimately show ?thesis
    using goodbye_never_reaches_the_backend [of example_events "[msg (CHR ''Q'') (''X'' @ [NUL])]" "[]"]
    by (simp add: example_events_def flowing_def msg_def TAG_TERMINATE_def) blast
qed

text \<open>
  While nobody says goodbye and nothing fails the relay is transparent: what one side sent
  is what the other gets, byte for byte and in order.
\<close>

theorem relay_is_transparent:
  assumes "\<forall>ev \<in> set evs. flowing ev" "client_sent evs = concat (map encode_msg ms)"
    and "\<forall>m \<in> set ms. tag m \<noteq> TAG_TERMINATE \<and> length (body m) < 2147483644"
  shows "\<exists>r. session_relay evs new_relay = Go_On r \<and> sr_backend_out r = client_sent evs
    \<and> sr_client_out r = backend_sent evs"
proof -
  have "scan_bytes new_scanner 0 (client_sent evs) = (new_scanner, None)"
    using assms(2) scan_bytes_messages [OF assms(3), of 0 "[]"] by simp
  moreover have "sr_scanner new_relay = new_scanner" "scanner_ok (sr_scanner new_relay)"
    by (simp_all add: new_relay_def scanner_ok_def new_scanner_def HEADER_LEN_def)
  ultimately show ?thesis
    using session_relay_bytes [OF assms(1), of new_relay] by (auto simp: relayed_def carries_def new_relay_def)
qed

end
