(* ===== verification/Txn_Frame.thy ===== *)
theory Txn_Frame
  imports Txn_Safety
begin

text \<open>
  What a session in transaction mode leaves alone, on every path of the relay
  (\<open>havuz-pg/src/txn.rs\<close>), errors included: the entries of other sessions in the shared
  registries, and the number of connections, each of which is waiting in a pool, held, or
  has been given back.
\<close>

section \<open>Measures\<close>

text \<open>The registries without the session's own entries.\<close>

definition bystanders ::
  "HolderHandle \<Rightarrow> CancelKey \<Rightarrow> Relay \<Rightarrow> (u64, HolderEntry) btree \<times> (CancelKey \<rightharpoonup> CancelTarget option)"
where
  "bystanders h key r = (btree_remove (hh_id h) (hr_entries (holders r)), (entries (cancels r))(key := None))"

definition is_connection :: "'e + 'b \<Rightarrow> bool" where
  "is_connection x = (case x of Inr _ \<Rightarrow> True | Inl _ \<Rightarrow> False)"

lemma is_connection_simps [simp]: "is_connection (Inr b)" "\<not> is_connection (Inl e)"
  by (simp_all add: is_connection_def)

definition on_offer :: "(PoolError + PgBackend) list \<Rightarrow> nat" where
  "on_offer xs = length (filter is_connection xs)"

lemma on_offer_simps [simp]: "on_offer [] = 0" "on_offer (Inr b # xs) = Suc (on_offer xs)" "on_offer (Inl e # xs) = on_offer xs"
  by (simp_all add: on_offer_def)

text \<open>The connections of a session: still to come or given back, and with the one that is held.\<close>

definition loose :: "Relay \<Rightarrow> nat" where
  "loose r = on_offer (acquires r) + length (given_back r)"

definition stock :: "Relay \<Rightarrow> nat" where
  "stock r = loose r + (case held r of Some _ \<Rightarrow> 1 | None \<Rightarrow> 0)"

lemma btree_remove_insert [simp]: "btree_remove k (btree_insert k e es) = btree_remove k es"
  by (induction k e es rule: btree_insert.induct) (auto simp: btree_remove_def)

lemma btree_remove_twice [simp]: "btree_remove k (btree_remove k es) = btree_remove k es"
  by (simp add: btree_remove_def)

lemma btree_remove_unused: "map_of es k = None \<Longrightarrow> btree_remove k es = es"
  unfolding btree_remove_def by (induction es) (auto split: if_splits)

lemma retarget_others [simp]: "(entries (retarget key t reg))(key := None) = (entries reg)(key := None)"
  by (simp add: retarget_def split: option.split)

lemma holder_set_others [simp]:
  "btree_remove (hh_id h) (hr_entries (holder_set t ms h why p target pid reg)) = btree_remove (hh_id h) (hr_entries reg)"
  "btree_remove (hh_id h) (hr_entries (holder_clear (hh_id h) reg)) = btree_remove (hh_id h) (hr_entries reg)"
  by (simp_all add: holder_set_def holder_clear_def)

definition same :: "HolderHandle \<Rightarrow> CancelKey \<Rightarrow> Relay \<Rightarrow> Relay \<Rightarrow> bool" where
  "same h key r r' \<longleftrightarrow> bystanders h key r' = bystanders h key r"

section \<open>Small steps\<close>

text \<open>The session of a handle and a key: the relay reports under the one and is cancelled by the other.\<close>

locale relay_scope =
  fixes E :: Relay_Env and h :: HolderHandle and key :: CancelKey
  assumes own_holder: "holder E = Some h" and own_key: "cancel_scope (policy E) = Some key"
begin

lemma same_refl [simp]: "same h key r r"
  by (simp add: same_def)

lemma same_trans [trans]: "same h key r r' \<Longrightarrow> same h key r' r'' \<Longrightarrow> same h key r r''"
  by (simp add: same_def)

lemma same_updates [simp]:
  "same h key s (r\<lparr>held := x1\<rparr>) = same h key s r" "same h key s (r\<lparr>stats := x2\<rparr>) = same h key s r" "same h key s (r\<lparr>checkouts := x3\<rparr>) = same h key s r"
  "same h key s (r\<lparr>on_replica := x4\<rparr>) = same h key s r" "same h key s (r\<lparr>param_syncs := x5\<rparr>) = same h key s r"
  "same h key s (r\<lparr>client_statements := x6\<rparr>) = same h key s r" "same h key s (r\<lparr>routing := x7\<rparr>) = same h key s r"
  "same h key s (r\<lparr>current_route := x8\<rparr>) = same h key s r" "same h key s (r\<lparr>exchange := x9\<rparr>) = same h key s r"
  "same h key s (r\<lparr>flow := y1\<rparr>) = same h key s r" "same h key s (r\<lparr>params := y2\<rparr>) = same h key s r" "same h key s (r\<lparr>router := y3\<rparr>) = same h key s r"
  "same h key s (r\<lparr>client := y4\<rparr>) = same h key s r" "same h key s (r\<lparr>acquires := y5\<rparr>) = same h key s r" "same h key s (r\<lparr>exchanges := y6\<rparr>) = same h key s r"
  by (simp_all add: same_def bystanders_def)

lemma same_steps [simp]:
  "same h key s (Txn.tell m r) = same h key s r" "same h key s (note_result E ok r) = same h key s r" "same h key s (tick r) = same h key s r"
  "same h key s (give_back co r) = same h key s r" "same h key s (drop_held r) = same h key s r" "same h key s (retarget_to E ho r) = same h key s r"
  "same h key s (update_holder E co r) = same h key s r"
  by (simp_all add: same_def bystanders_def Txn.tell_def note_result_def tick_def give_back_def drop_held_def retarget_to_def
      retarget_cancel_def update_holder_def own_holder own_key pinned_holder_def idle_in_transaction_holder_def Let_def
      split: option.split)

lemma same_finish [simp]: "same h key s (snd (finish_exchange E e co r)) = same h key s r"
  by (simp add: finish_exchange_def Let_def split: prod.split)

lemma same_release [simp]: "same h key s (release E co r) = same h key s r"
  by (simp add: release_def Let_def)

lemma same_acquire [simp]: "same h key s (snd (acquire_from E p r)) = same h key s r"
  by (simp add: acquire_from_def split: list.split sum.split)

lemma same_carry [simp]: "same h key s (snd (carry_params E blame co r)) = same h key s r"
  by (simp add: carry_params_def Let_def split: prod.split sum.split ParamSync.split)

lemma same_acquire_route [simp]: "same h key s (snd (acquire_for_route E r)) = same h key s r"
  by (simp add: acquire_for_route_def case_prod_unfold split: sum.split Route.split)

lemma same_acquire_failed [simp]: "same h key s (snd (acquire_failed E e r)) = same h key s r"
  by (simp add: acquire_failed_def Let_def)

lemma same_borrow [simp]: "same h key s (snd (borrow E m r)) = same h key s r"
  by (simp add: borrow_def case_prod_unfold Let_def split: sum.split)

lemma same_retry [simp]: "same h key s (snd (retry_on_primary E r)) = same h key s r"
  by (simp add: retry_on_primary_def case_prod_unfold Let_def split: sum.split option.split)

lemma same_answer_failed [simp]: "same h key s (snd (answer_failed E e n co r)) = same h key s r"
  by (simp add: answer_failed_def Let_def)

lemma same_answer [simp]: "same h key s (snd (answer E co r)) = same h key s r"
  by (simp add: answer_def case_prod_unfold split: sum.split option.split)

lemma same_forward [simp]: "same h key s (snd (forward E m m' co r)) = same h key s r"
  by (simp add: forward_def case_prod_unfold Let_def split: option.split Route.split)

lemma same_exchange [simp]: "same h key s (snd (relay_exchange E m co r)) = same h key s r"
  by (simp add: relay_exchange_def case_prod_unfold Let_def split: Outgoing.split)

lemma same_refuse: "refuse_read_only E m r = Some r' \<Longrightarrow> same h key s r' = same h key s r"
  by (auto simp: refuse_read_only_def split: option.splits if_splits)

lemma same_begin [simp]: "same h key s (begin_message E m r) = same h key s r"
  by (simp add: begin_message_def own_holder case_prod_unfold Let_def split: option.split ClientIntent.split)
    (simp add: same_def bystanders_def)

lemma same_message [simp]: "same h key s (snd (relay_message E m r)) = same h key s r"
  by (simp add: relay_message_def case_prod_unfold same_refuse split: option.split Ctl.split)

lemma same_step [simp]: "same h key s (snd (relay_step E ev r)) = same h key s r"
  by (simp add: relay_step_def split: ClientEvent.split)

lemma same_loop [simp]: "same h key s (snd (relay_loop E evs r)) = same h key s r"
proof (induction evs arbitrary: r)
  case (Cons ev evs)
  have "same h key s (snd (relay_step E ev r)) = same h key s r" by simp
  with Cons show ?case by (auto simp: case_prod_unfold split: Ctl.split)
qed simp

lemma same_end [simp]: "same h key s (relay_end E r) = same h key s r"
  by (simp add: relay_end_def case_prod_unfold Let_def split: option.split)

lemma same_relay: "same h key r (snd (transaction_relay E evs r))"
  by (simp add: transaction_relay_def case_prod_unfold Let_def split: Ctl.split)

end

section \<open>No connection is lost\<close>

lemma loose_updates [simp]:
  "loose (r\<lparr>held := x1\<rparr>) = loose r" "loose (r\<lparr>stats := x2\<rparr>) = loose r" "loose (r\<lparr>checkouts := x3\<rparr>) = loose r"
  "loose (r\<lparr>on_replica := x4\<rparr>) = loose r" "loose (r\<lparr>param_syncs := x5\<rparr>) = loose r"
  "loose (r\<lparr>client_statements := x6\<rparr>) = loose r" "loose (r\<lparr>routing := x7\<rparr>) = loose r"
  "loose (r\<lparr>current_route := x8\<rparr>) = loose r" "loose (r\<lparr>exchange := x9\<rparr>) = loose r"
  "loose (r\<lparr>flow := y1\<rparr>) = loose r" "loose (r\<lparr>params := y2\<rparr>) = loose r" "loose (r\<lparr>router := y3\<rparr>) = loose r"
  "loose (r\<lparr>client := y4\<rparr>) = loose r" "loose (r\<lparr>holders := y5\<rparr>) = loose r" "loose (r\<lparr>exchanges := y6\<rparr>) = loose r"
  by (simp_all add: loose_def)

lemma loose_steps [simp]:
  "loose (Txn.tell m r) = loose r" "loose (note_result E ok r) = loose r" "loose (tick r) = loose r"
  "loose (retarget_to E ho r) = loose r" "loose (update_holder E co r) = loose r"
  "loose (give_back co r) = Suc (loose r)" "loose (drop_held r) = stock r"
  by (simp_all add: loose_def stock_def Txn.tell_def note_result_def tick_def give_back_def drop_held_def retarget_to_def
      update_holder_def Let_def split: option.split)

lemma held_steps [simp]:
  "held (Txn.tell m r) = held r" "held (note_result E ok r) = held r" "held (tick r) = held r"
  "held (retarget_to E ho r) = held r" "held (update_holder E co r) = held r"
  "held (give_back co r) = held r" "held (drop_held r) = None"
  by (simp_all add: Txn.tell_def note_result_def tick_def give_back_def drop_held_def retarget_to_def
      update_holder_def Let_def split: option.split)

lemma held_phases [simp]:
  "held (snd (acquire_from E p r)) = held r" "held (snd (carry_params E blame co r)) = held r"
  "held (snd (finish_exchange E e co r)) = held r"
  by (simp_all add: acquire_from_def carry_params_def finish_exchange_def case_prod_unfold Let_def
      split: list.split sum.split ParamSync.split)

lemma held_acquire_for_route [simp]: "held (snd (acquire_for_route E r)) = held r"
  by (simp add: acquire_for_route_def case_prod_unfold split: sum.split Route.split)

lemma loose_acquire:
  "loose r = loose (snd (acquire_from E p r)) + (case fst (acquire_from E p r) of Inr _ \<Rightarrow> 1 | Inl _ \<Rightarrow> 0)"
  by (simp add: acquire_from_def loose_def split: list.split sum.split)

lemma loose_acquire_for_route:
  "loose r = loose (snd (acquire_for_route E r)) + (case fst (acquire_for_route E r) of Inr _ \<Rightarrow> 1 | Inl _ \<Rightarrow> 0)"
proof -
  note first = loose_acquire [of r E "pool_for (router r) (current_route r)"]
  let ?r = "(note_result E False (snd (acquire_from E (pool_for (router r) (current_route r)) r)))\<lparr>current_route := Primary NoReplicaAvailable\<rparr>"
  note second = loose_acquire [of ?r E None]
  show ?thesis using first second
    by (auto simp: acquire_for_route_def case_prod_unfold split: sum.splits Route.splits)
qed

lemma loose_carry:
  "loose (snd (carry_params E blame co r)) = loose r + (case fst (carry_params E blame co r) of Inr _ \<Rightarrow> 0 | Inl _ \<Rightarrow> 1)"
  by (simp add: carry_params_def case_prod_unfold Let_def split: sum.split ParamSync.split)

lemma loose_finish [simp]: "loose (snd (finish_exchange E e co r)) = loose r"
  by (simp add: finish_exchange_def case_prod_unfold Let_def)

lemma stock_release [simp]: "stock (release E co r) = Suc (loose r)"
  by (simp add: release_def stock_def Let_def)

lemma stock_retry:
  assumes "held r = None"
  shows "stock (snd (retry_on_primary E r)) = loose r"
proof -
  let ?a = "acquire_from E None (r\<lparr>current_route := Primary NoReplicaAvailable\<rparr>)"
  note first = loose_acquire [of "r\<lparr>current_route := Primary NoReplicaAvailable\<rparr>" E None]
  show ?thesis
  proof (cases "fst ?a")
    case (Inl e)
    then show ?thesis using first assms by (simp add: retry_on_primary_def case_prod_unfold Let_def stock_def)
  next
    case (Inr co)
    define r1 where "r1 = retarget_to E (Some co) ((snd ?a)\<lparr>checkouts := checkouts (snd ?a) + 1\<rparr>)"
    have r1: "loose r = Suc (loose r1)" "held r1 = None" using first Inr assms by (simp_all add: r1_def)
    show ?thesis using Inr r1 loose_carry [of E False co r1]
      by (simp add: retry_on_primary_def case_prod_unfold Let_def r1_def [symmetric] split: sum.splits option.split)
        (simp_all add: stock_def)
  qed
qed

lemma stock_answer_failed [simp]: "stock (snd (answer_failed E e n co r)) = Suc (loose r)"
  by (simp add: answer_failed_def Let_def stock_retry) (simp add: stock_def)

lemma stock_held: "stock (r\<lparr>held := Some co\<rparr>) = Suc (loose r)"
  by (simp add: stock_def)

lemma stock_answer [simp]: "stock (snd (answer E co r)) = Suc (loose r)"
  by (simp add: answer_def case_prod_unfold stock_held split: sum.split option.split)

lemma stock_forward [simp]: "stock (snd (forward E m m' co r)) = Suc (loose r)"
  by (simp add: forward_def case_prod_unfold Let_def split: option.split Route.split) (simp add: stock_def)

lemma stock_exchange [simp]: "stock (snd (relay_exchange E m co r)) = Suc (loose r)"
  by (simp add: relay_exchange_def case_prod_unfold Let_def split: Outgoing.split) (simp add: stock_def)

lemma stock_borrow: "stock (snd (borrow E m r)) = stock r"
proof (cases "held r")
  case None
  obtain route s rt where x: "choose_route (now E r) (message_intent m (client_statements r) (read_only (policy E) \<noteq> None))
      (routing r) (router r) = (route, s, rt)" by (metis prod_cases3)
  define r1 where "r1 = (tick r)\<lparr>current_route := route, routing := s, router := rt\<rparr>"
  have r1: "loose r1 = loose r" "held r1 = None" using None by (simp_all add: r1_def)
  note first = loose_acquire_for_route [of r1 E]
  obtain y r2 where a: "acquire_for_route E r1 = (y, r2)" by force
  have r2: "held r2 = None" using held_acquire_for_route [of E r1] a r1 by simp
  show ?thesis
  proof (cases y)
    case (Inl e)
    then show ?thesis using first None r1 r2 a x
      by (simp add: borrow_def r1_def [symmetric] acquire_failed_def Let_def stock_def)
  next
    case (Inr co)
    define r3 where "r3 = r2\<lparr>checkouts := checkouts r2 + 1,
      on_replica := (case current_route r2 of Replica _ \<Rightarrow> on_replica r2 + 1 | _ \<Rightarrow> on_replica r2)\<rparr>"
    have r3: "loose r = Suc (loose r3)" "held r3 = None" using first Inr r1 r2 a by (simp_all add: r3_def)
    obtain z r4 where c: "carry_params E True co r3 = (z, r4)" by force
    have "borrow E m r = (case (z, r4) of
        (Inl e, r) \<Rightarrow> (Return e, r) | (Inr co, r) \<Rightarrow> (Go, retarget_to E (Some co) (r\<lparr>held := Some co\<rparr>)))"
      using None x a Inr c by (simp add: borrow_def r1_def r3_def Let_def)
    then show ?thesis using None r3 c loose_carry [of E True co r3] held_phases(2) [of E True co r3]
      by (simp add: stock_def split: sum.splits)
  qed
qed (simp add: borrow_def)

lemma begin_parts: "loose (begin_message E m r) = loose r" "held (begin_message E m r) = held r"
  by (simp_all add: begin_message_def case_prod_unfold Let_def split: option.split ClientIntent.split)

lemma stock_begin [simp]: "stock (begin_message E m r) = stock r"
  by (simp add: stock_def begin_parts)

lemma stock_refuse: "refuse_read_only E m r = Some r' \<Longrightarrow> stock r' = stock r"
  by (auto simp: refuse_read_only_def stock_def split: option.splits if_splits)

lemma stock_message [simp]: "stock (snd (relay_message E m r)) = stock r"
proof (cases "refuse_read_only E m r")
  case None
  note b = stock_borrow [of E m "begin_message E m r"]
  show ?thesis using b None
    by (auto simp: relay_message_def case_prod_unfold split: option.split Ctl.split) (simp_all add: stock_def)
qed (simp add: relay_message_def stock_refuse)

lemma stock_step [simp]: "stock (snd (relay_step E ev r)) = stock r"
  by (simp add: relay_step_def split: ClientEvent.split) (simp add: stock_def)

lemma stock_loop [simp]: "stock (snd (relay_loop E evs r)) = stock r"
proof (induction evs arbitrary: r)
  case (Cons ev evs)
  have "stock (snd (relay_step E ev r)) = stock r" by simp
  with Cons show ?case by (auto simp: case_prod_unfold split: Ctl.split)
qed simp

lemma relay_end_parts: "held (relay_end E r) = None" "loose (relay_end E r) = stock r"
  by (simp_all add: relay_end_def case_prod_unfold Let_def stock_def split: option.split)

text \<open>Every connection a session was lent is back when it is over, however it ended.\<close>

lemma relay_returns_everything:
  assumes "transaction_relay E evs r = (res, r')" and "held r = None"
  shows "held r' = None" and "loose r' = loose r"
proof -
  have "stock r = loose r" using assms(2) by (simp add: stock_def)
  then have stock: "stock (snd (relay_loop E evs r)) = loose r" by simp
  have "r' = snd (transaction_relay E evs r)" using assms(1) by simp
  then show "held r' = None" "loose r' = loose r" using stock
    by (simp_all add: transaction_relay_def case_prod_unfold Let_def relay_end_parts split: Ctl.split)
qed

end
