(* ===== verification/Serve.thy ===== *)
theory Serve
  imports Txn_Relay Session_Relay Handshake Family Pins
begin

text \<open>
  A client from its first byte to its last (\<open>PgFamily::serve\<close> of \<open>havuz-pg/src/family.rs\<close>): the
  handshake, the connections of its identity, the registries it is entered in, the startup
  exchange, and the relay of its pool's mode. The session runs on the registries of the
  process as it finds them; the configuration may change during the handshake. What is
  dropped when a scope is left, on every path, is written with \<open>dropping\<close>.
\<close>

section \<open>State\<close>

text \<open>What the sessions of a family share.\<close>

record Process =
  pr_state :: State                                   \<comment> \<open>the document in force\<close>
  pr_prober :: "Prober option"
  pr_family :: PgFamily
  pr_sessions :: SessionRegistry
  pr_holders :: HolderRegistry
  pr_cancels :: CancelRegistry
  pr_pins :: PinRegistry

text \<open>
  One client: its socket through the handshake, what the relay wrote to it, what the pools
  will answer it, the connections that went back to them, and the backends that were asked
  to cancel.
\<close>

record Serving =
  sv_process :: Process
  sv_client :: "StateAuthenticator Handshake.Client"
  sv_relayed :: "Message list"
  sv_pool :: "(PoolError + PgBackend) list"
  sv_returned :: "PgCheckout list"
  sv_cancelled :: "CancelTarget list"

record Serve_Env =
  en_handshake :: Handshake_Env
  en_libs :: Libs
  en_random :: string                                 \<comment> \<open>for the verifier of a learned identity\<close>
  en_acceptor :: "(string \<Rightarrow> string + string) option"
  en_require_tls :: bool
  en_digest :: "string \<Rightarrow> u8 list"

text \<open>How the wait for the first connection ends: the pool answers, the client leaves, or an operator ends it.\<close>

datatype Startup_Wait = Answered | Left "ErrorKind option" | Kicked_Out

text \<open>
  What happens to the session from outside. The chunks of a session-mode client are followed
  by the end of its stream.
\<close>

record Serve_World =
  wo_meanwhile :: "StateAuthenticator \<Rightarrow> StateAuthenticator"
  wo_now :: time
  wo_now_ms :: int
  wo_wait :: Startup_Wait
  wo_secret :: i32                                    \<comment> \<open>of the cancellation key\<close>
  wo_events :: "ClientEvent list"
  wo_faults :: "string option list"
  wo_clock :: "nat \<Rightarrow> time"
  wo_wall :: "nat \<Rightarrow> int"
  wo_chunks :: "RelayEvent list"

record ServeOutcome =
  so_authenticated :: bool
  so_pinned :: "PinReason option"
  so_exchanges :: u64
  so_to_client :: u64
  so_to_backend :: u64

definition rejected :: ServeOutcome where
  "rejected = \<lparr>so_authenticated = False, so_pinned = None, so_exchanges = 0, so_to_client = 0, so_to_backend = 0\<rparr>"

text \<open>Leaving a scope runs the drop of what it owns, whatever the result.\<close>

definition dropping :: "('s \<Rightarrow> 's) \<Rightarrow> 's \<times> 'r \<Rightarrow> 's \<times> 'r" where
  "dropping d x = (case x of (s, r) \<Rightarrow> (d s, r))"

definition on_process :: "(Process \<Rightarrow> Process) \<Rightarrow> Serving \<Rightarrow> Serving" where
  "on_process f sv = sv\<lparr>sv_process := f (sv_process sv)\<rparr>"

definition say :: "Message \<Rightarrow> Serving \<Rightarrow> Serving" where
  "say m sv = sv\<lparr>sv_client := Handshake.tell m (sv_client sv)\<rparr>"

definition put_back :: "PgCheckout \<Rightarrow> Serving \<Rightarrow> Serving" where
  "put_back co sv = sv\<lparr>sv_returned := sv_returned sv @ [co]\<rparr>"

definition in_quotes :: "string \<Rightarrow> string" where
  "in_quotes s = [CHR 0x22] @ s @ [CHR 0x22]"

section \<open>The handshake\<close>

definition family_handshake :: "Serve_Env \<Rightarrow> StateAuthenticator ClientHandshake" where
  "family_handshake E =
     (let c = li_crypto (en_libs E);
          ch = new_handshake (resolve_client c (li_master_key (en_libs E))) (admit c (en_random E))
      in case en_acceptor E of Some acceptor \<Rightarrow> with_tls acceptor (en_require_tls E) ch | None \<Rightarrow> ch)"

text \<open>The authenticator shares the document and the learned identities with the family.\<close>

definition authenticator_of :: "Process \<Rightarrow> StateAuthenticator" where
  "authenticator_of P = \<lparr>au_state = pr_state P, au_identities = fa_identities (pr_family P), au_prober = pr_prober P\<rparr>"

definition shake_hands ::
  "Serve_Env \<Rightarrow> Serve_World \<Rightarrow> string \<Rightarrow> PoolRoute \<Rightarrow> Serving \<Rightarrow> Serving \<times> (ProtoError + HandshakeOutcome)"
where
  "shake_hands E W peer route sv =
     (let P = sv_process sv; s = (sv_client sv)\<lparr>cl_auth := authenticator_of P\<rparr> in
      case run_for_pool (en_handshake E) (wo_meanwhile W) (family_handshake E) peer route s of (s, r) \<Rightarrow>
        (sv\<lparr>sv_client := s,
            sv_process := P\<lparr>pr_state := au_state (cl_auth s),
                            pr_family := (pr_family P)\<lparr>fa_identities := au_identities (cl_auth s)\<rparr>\<rparr>\<rparr>, r))"

text \<open>A cancel request: the key is the credential, and one that is not known cancels nothing.\<close>

definition serve_cancel :: "CancelKey \<Rightarrow> Serving \<Rightarrow> Serving \<times> (ProtoError + ServeOutcome)" where
  "serve_cancel key sv =
     (case lookup key (pr_cancels (sv_process sv)) of
        Some t \<Rightarrow> sv\<lparr>sv_cancelled := sv_cancelled sv @ [t]\<rparr>
      | None \<Rightarrow> sv, Inr rejected)"

section \<open>Before the session\<close>

definition find_group ::
  "Serve_Env \<Rightarrow> Serve_World \<Rightarrow> ClientIdentity \<Rightarrow> string option \<Rightarrow> Serving \<Rightarrow> Serving \<times> (ProtoError + Group.PoolGroup)"
where
  "find_group E W i credential sv =
     (let P = sv_process sv in
      if map_of (fa_pools (pr_family P)) (ci_pool i) = None
      then (say (fatal UNDEFINED_DATABASE (''pool '' @ in_quotes (ci_pool i) @ '' is not available'')) sv,
            Inl (PNoRoute (ci_pool i)))
      else (case borrow_group (en_libs E) (wo_now W) (pr_state P) (ci_pool i) (ci_user i) credential (pr_family P) of
          (fa, r) \<Rightarrow>
            let sv = on_process (\<lambda>P. P\<lparr>pr_family := fa\<rparr>) sv in
            (case r of
               Inr g \<Rightarrow> (sv, Inr g)
             | Inl e \<Rightarrow>
                 let txt = ''cannot prepare backend connections for '' @ in_quotes (ci_user i) @ '': ''
                           @ proto_text (he_io_text (en_handshake E)) e
                 in (say (fatal CANNOT_CONNECT_NOW txt) sv, Inl (PBackend txt)))))"

definition register_session ::
  "Serve_World \<Rightarrow> ClientIdentity \<Rightarrow> u32 \<Rightarrow> Serving \<Rightarrow> Serving \<times> (ProtoError + u64)"
where
  "register_session W i limit sv =
     (case register (wo_now W) (wo_now_ms W) (ci_user i) (ci_pool i) (ci_application_name i) (ci_peer i) limit
             (pr_sessions (sv_process sv)) of
        (reg, Inr sid) \<Rightarrow> (on_process (\<lambda>P. P\<lparr>pr_sessions := reg\<rparr>) sv, Inr sid)
      | (reg, Inl (TooManySessions who cap)) \<Rightarrow>
          let txt = ''too many connections for user '' @ in_quotes who @ '' (limit '' @ decimal (unat cap) @ '')''
          in (say (fatal TOO_MANY_CONNECTIONS txt) (on_process (\<lambda>P. P\<lparr>pr_sessions := reg\<rparr>) sv), Inl (PBackend txt)))"

definition drop_session :: "u64 \<Rightarrow> Serving \<Rightarrow> Serving" where
  "drop_session sid = on_process (\<lambda>P. P\<lparr>pr_sessions := deregister sid (pr_sessions P)\<rparr>)"

definition trace_context :: "ClientIdentity \<Rightarrow> TraceContext" where
  "trace_context i =
     \<lparr>tc_pool = ci_pool i, tc_user = ci_user i, tc_application = ci_application_name i, tc_client_addr = ci_peer i\<rparr>"

text \<open>The handle of the holders registry, which already shows the wait for the startup.\<close>

definition open_holder :: "Serve_World \<Rightarrow> ClientIdentity \<Rightarrow> PoolMode \<Rightarrow> Serving \<Rightarrow> HolderHandle \<times> Serving" where
  "open_holder W i mode sv =
     (case holder_session (trace_context i) mode (pr_holders (sv_process sv)) of
        (h, reg) \<Rightarrow> (h, on_process (\<lambda>P. P\<lparr>pr_holders := waiting_for_startup (wo_now W) (wo_now_ms W) h reg\<rparr>) sv))"

definition drop_holder :: "HolderHandle \<Rightarrow> Serving \<Rightarrow> Serving" where
  "drop_holder h = on_process (\<lambda>P. P\<lparr>pr_holders := drop_handle h (pr_holders P)\<rparr>)"

definition checkout_refused :: "Serve_Env \<Rightarrow> ClientIdentity \<Rightarrow> PoolError \<Rightarrow> Serving \<Rightarrow> Serving \<times> (ProtoError + 'a)" where
  "checkout_refused E i e sv =
     (let timeout = (case e of Timeout _ _ \<Rightarrow> True | _ \<Rightarrow> False);
          code = (if timeout then TOO_MANY_CONNECTIONS else CANNOT_CONNECT_NOW);
          txt = pool_error_text (he_io_text (en_handshake E)) e
                @ (if timeout then ''; '' @ timeout_hint (ci_pool i) (pr_holders (sv_process sv)) else [])
      in (say (fatal code txt) sv, Inl (PBackend txt)))"

text \<open>The first connection comes from the primary; a pool with no more answers is closed.\<close>

definition startup_checkout ::
  "Serve_Env \<Rightarrow> Serve_World \<Rightarrow> ClientIdentity \<Rightarrow> Group.PoolGroup \<Rightarrow> Serving \<Rightarrow> Serving \<times> (ProtoError + PgCheckout)"
where
  "startup_checkout E W i g sv =
     (case wo_wait W of
        Left e \<Rightarrow> (sv, Inl (PIo (case e of Some k \<Rightarrow> k | None \<Rightarrow> ConnectionAborted)))
      | Kicked_Out \<Rightarrow>
          let txt = ''terminating connection due to administrator command''
          in (say (fatal ADMIN_SHUTDOWN txt) sv, Inl (PBackend txt))
      | Answered \<Rightarrow>
          (case sv_pool sv of
             [] \<Rightarrow> checkout_refused E i (Unavailable (p_name (tp_pool (pg_primary g))) ''closed'') sv
           | Inl e # as \<Rightarrow> checkout_refused E i e (sv\<lparr>sv_pool := as\<rparr>)
           | Inr b # as \<Rightarrow> (sv\<lparr>sv_pool := as\<rparr>, Inr \<lparr>co_backend = b, co_discard = False, co_pool = None\<rparr>)))"

definition open_key :: "i32 \<Rightarrow> Serving \<Rightarrow> CancelKey \<times> Serving" where
  "open_key secret sv =
     (case scope secret (pr_cancels (sv_process sv)) of (key, reg) \<Rightarrow> (key, on_process (\<lambda>P. P\<lparr>pr_cancels := reg\<rparr>) sv))"

definition drop_key :: "CancelKey \<Rightarrow> Serving \<Rightarrow> Serving" where
  "drop_key key = on_process (\<lambda>P. P\<lparr>pr_cancels := unregister key (pr_cancels P)\<rparr>)"

section \<open>The session\<close>

text \<open>The client's own parameters, with the read-only setting on top where the configuration asks for it.\<close>

definition session_params :: "ResolvedPolicy \<Rightarrow> (string \<times> string) list \<Rightarrow> ClientParams" where
  "session_params rp sp =
     (if rp_read_only rp \<noteq> None then enforce_read_only (from_startup sp) else from_startup sp)"

definition session_env ::
  "Serve_Env \<Rightarrow> Serve_World \<Rightarrow> Group.PoolGroup \<Rightarrow> ResolvedPolicy \<Rightarrow> CancelKey \<Rightarrow> HolderHandle \<Rightarrow> Relay_Env"
where
  "session_env E W g rp key h =
     \<lparr>policy = \<lparr>read_only = rp_read_only rp, idle_in_transaction = rp_idle_in_transaction rp,
                cancel_scope = Some key\<rparr>,
      pool_group = \<lparr>Txn.PoolGroup.pg_name = Group.PoolGroup.pg_name g,
                    Txn.PoolGroup.pg_primary_label = Group.PoolGroup.pg_primary_label g\<rparr>,
      holder = Some h, digest = en_digest E, io_text = he_io_text (en_handshake E),
      clock = wo_clock W, wall_ms = wo_wall W\<rparr>"

definition session_start ::
  "Serve_World \<Rightarrow> Group.PoolGroup \<Rightarrow> PoolMode \<Rightarrow> ClientParams \<Rightarrow> Serving \<Rightarrow> Relay"
where
  "session_start W g mode ps sv =
     Txn_Relay.new_relay (new_session mode) ps (pg_router g) (pr_cancels (sv_process sv)) (pr_holders (sv_process sv))
       \<lparr>Txn.Client.cl_faults = wo_faults W, cl_log = []\<rparr> (sv_pool sv)"

text \<open>The router belongs to the group, which the family keeps.\<close>

definition keep_router :: "string \<Rightarrow> string \<Rightarrow> string option \<Rightarrow> Router \<Rightarrow> PgFamily \<Rightarrow> PgFamily" where
  "keep_router pool who credential rt fa =
     (case map_of (fa_pools fa) pool of
        None \<Rightarrow> fa
      | Some e \<Rightarrow>
          let e' = (case credential of
                None \<Rightarrow> e\<lparr>pe_shared := (pe_shared e)\<lparr>pg_router := rt\<rparr>\<rparr>
              | Some _ \<Rightarrow>
                  (case map_of (pe_per_user e) who of
                     None \<Rightarrow> e
                   | Some ug \<Rightarrow>
                       e\<lparr>pe_per_user := btree_insert who (ug\<lparr>ug_group := (ug_group ug)\<lparr>pg_router := rt\<rparr>\<rparr>) (pe_per_user e)\<rparr>))
          in fa\<lparr>fa_pools := btree_insert pool e' (fa_pools fa)\<rparr>)"

text \<open>Transaction mode: the connection of the startup goes straight back.\<close>

definition serve_shared ::
  "Serve_Env \<Rightarrow> Serve_World \<Rightarrow> ClientIdentity \<Rightarrow> string option \<Rightarrow> Group.PoolGroup \<Rightarrow> ResolvedPolicy \<Rightarrow> PoolMode \<Rightarrow> ClientParams
     \<Rightarrow> CancelKey \<Rightarrow> HolderHandle \<Rightarrow> PgCheckout \<Rightarrow> Serving \<Rightarrow> Serving \<times> (ProtoError + ServeOutcome)"
where
  "serve_shared E W i credential g rp mode ps key h co sv =
     (let sv = on_process (\<lambda>P. P\<lparr>pr_holders := holder_clear (hh_id h) (pr_holders P)\<rparr>) (put_back co sv) in
      case transaction_relay (session_env E W g rp key h) (wo_events W) (session_start W g mode ps sv) of
        (res, r) \<Rightarrow>
          let sv = on_process (\<lambda>P. P\<lparr>pr_cancels := cancels r, pr_holders := holders r,
                     pr_family := keep_router (ci_pool i) (ci_user i) credential (router r) (pr_family P)\<rparr>) sv;
              sv = sv\<lparr>sv_pool := acquires r, sv_returned := sv_returned sv @ given_back r, sv_relayed := sv_relayed sv @ cl_log (client r)\<rparr>
          in (sv, case res of
                Inl e \<Rightarrow> Inl e
              | Inr t \<Rightarrow> Inr \<lparr>so_authenticated = True, so_pinned = out_pinned t, so_exchanges = out_exchanges t,
                             so_to_client = to_client (out_stats t), so_to_backend = to_backend (out_stats t)\<rparr>))"

text \<open>\<open>session_relay_traced\<close> to its end: an error, or the statistics.\<close>

definition relay_to_end :: "RelayEvent list \<Rightarrow> ErrorKind + RelayStats" where
  "relay_to_end chunks =
     (case session_relay (chunks @ [FromClient (Inr []) None]) Session_Relay.new_relay of
        Failed r e \<Rightarrow> Inl e
      | Ended r \<Rightarrow> Inr (sr_stats r)
      | Go_On r \<Rightarrow> Inr (sr_stats r))"

text \<open>\<open>Checkout::recycle\<close> on a connection of the family.\<close>

definition recycle_checkout :: "PgCheckout \<Rightarrow> PgCheckout" where
  "recycle_checkout co =
     (case reset_backend (co_backend co) of
        (out, b) \<Rightarrow> let co = co\<lparr>co_backend := b\<rparr> in if out = Discard then discard co else co)"

text \<open>Session mode: the backend is the client's alone until it leaves.\<close>

definition serve_exclusive ::
  "Serve_Env \<Rightarrow> Serve_World \<Rightarrow> Group.PoolGroup \<Rightarrow> ClientParams \<Rightarrow> CancelKey \<Rightarrow> HolderHandle \<Rightarrow> PgCheckout \<Rightarrow> Serving
     \<Rightarrow> Serving \<times> (ProtoError + ServeOutcome)"
where
  "serve_exclusive E W g ps key h co sv =
     (case sync_params ps (co_backend co) of
        (Inl e, b) \<Rightarrow>
          (put_back (discard (co\<lparr>co_backend := b\<rparr>))
             (say (fatal CANNOT_CONNECT_NOW (proto_text (he_io_text (en_handshake E)) e)) sv), Inl e)
      | (Inr (Refused why), b) \<Rightarrow>
          let txt = ''cannot apply session parameters: '' @ why
          in (put_back (co\<lparr>co_backend := b\<rparr>) (say (fatal INVALID_PARAMETER_VALUE txt) sv), Inl (PBackend txt))
      | (Inr _, b) \<Rightarrow>
          let co = co\<lparr>co_backend := b\<rparr>;
              target = group_target_label (Primary SplitDisabled) g;
              sv = on_process (\<lambda>P. P\<lparr>
                     pr_holders := session_reserved (wo_now W) (wo_now_ms W) h target (pb_pid b) (pr_holders P),
                     pr_cancels := retarget key (cancel_target b) (pr_cancels P)\<rparr>) sv;
              result = relay_to_end (wo_chunks W);
              spoiled = (case result of Inl _ \<Rightarrow> True | Inr st \<Rightarrow> backend_closed st \<or> kicked st);
              co = recycle_checkout (if spoiled then discard co else co)
          in (put_back co sv,
              Inr \<lparr>so_authenticated = True, so_pinned = None, so_exchanges = 0,
                   so_to_client = (case result of Inl _ \<Rightarrow> 0 | Inr st \<Rightarrow> to_client st),
                   so_to_backend = (case result of Inl _ \<Rightarrow> 0 | Inr st \<Rightarrow> to_backend st)\<rparr>))"

text \<open>Only a session that could have been shared counts as pinned or clean.\<close>

definition count_pins :: "Serve_World \<Rightarrow> ClientIdentity \<Rightarrow> PoolMode \<Rightarrow> ServeOutcome \<Rightarrow> Serving \<Rightarrow> Serving" where
  "count_pins W i mode outcome sv =
     (if multiplexes mode
      then on_process (\<lambda>P. P\<lparr>pr_pins :=
             (case so_pinned outcome of
                Some pin \<Rightarrow> record_pin (wo_now W) (ci_user i) (ci_application_name i) pin (pr_pins P)
              | None \<Rightarrow> record_clean (pr_pins P))\<rparr>) sv
      else sv)"

text \<open>From the first connection on: the key, the end of the startup exchange, the relay.\<close>

definition serve_relay ::
  "Serve_Env \<Rightarrow> Serve_World \<Rightarrow> ClientIdentity \<Rightarrow> (string \<times> string) list \<Rightarrow> string option \<Rightarrow> Group.PoolGroup \<Rightarrow> ResolvedPolicy
     \<Rightarrow> PoolMode \<Rightarrow> HolderHandle \<Rightarrow> PgCheckout \<Rightarrow> Serving \<Rightarrow> Serving \<times> (ProtoError + ServeOutcome)"
where
  "serve_relay E W i sp credential g rp mode h co sv =
     (case open_key (wo_secret W) sv of (key, sv) \<Rightarrow>
      dropping (drop_key key)
        (case complete_startup (en_handshake E) (pb_parameters (co_backend co)) (fst key) (snd key) (sv_client sv) of
           (s, Inl e) \<Rightarrow> (put_back co (sv\<lparr>sv_client := s\<rparr>), Inl e)
         | (s, Inr _) \<Rightarrow>
             let sv = sv\<lparr>sv_client := s\<rparr>; ps = session_params rp sp in
             attempt (if multiplexes mode then serve_shared E W i credential g rp mode ps key h co sv
                      else serve_exclusive E W g ps key h co sv)
               (\<lambda>sv outcome. (count_pins W i mode outcome sv, Inr outcome))))"

definition serve_session ::
  "Serve_Env \<Rightarrow> Serve_World \<Rightarrow> ClientIdentity \<Rightarrow> (string \<times> string) list \<Rightarrow> string option \<Rightarrow> Serving \<Rightarrow> Serving \<times> (ProtoError + ServeOutcome)"
where
  "serve_session E W i sp credential sv =
     attempt (find_group E W i credential sv) (\<lambda>sv g.
     let rp = session_policy (pr_state (sv_process sv)) (ci_pool i) (ci_user i) in
     attempt (register_session W i (rp_session_limit rp) sv) (\<lambda>sv sid.
     dropping (drop_session sid)
       (let mode = pool_mode (pr_state (sv_process sv)) (ci_pool i) in
        case open_holder W i mode sv of (h, sv) \<Rightarrow>
        dropping (drop_holder h)
          (attempt (startup_checkout E W i g sv) (\<lambda>sv co.
           serve_relay E W i sp credential g rp mode h co sv)))))"

definition serve ::
  "Serve_Env \<Rightarrow> Serve_World \<Rightarrow> string \<Rightarrow> PoolRoute \<Rightarrow> Serving \<Rightarrow> Serving \<times> (ProtoError + ServeOutcome)"
where
  "serve E W peer route sv =
     attempt (shake_hands E W peer route sv) (\<lambda>sv outcome.
     case outcome of
       Cancel pid secret \<Rightarrow> serve_cancel (pid, secret) sv
     | Established i sp credential \<Rightarrow> serve_session E W i sp credential sv)"

section \<open>Probing\<close>

record Probe =
  po_version :: string
  po_latency_ms :: u64
  po_read_only :: bool

text \<open>
  The probe of the admin interface, on the service account: one connection of the primary,
  whose answer and latency are arguments, is looked at and given back as it is.
\<close>

definition probe_pool ::
  "(ErrorKind \<Rightarrow> string) \<Rightarrow> string \<Rightarrow> PoolError + PgBackend \<Rightarrow> u64 \<Rightarrow> PgFamily \<Rightarrow> ProtoError + Probe"
where
  "probe_pool texts name acquired latency fa =
     (case map_of (fa_pools fa) name of
        None \<Rightarrow> Inl (PNoRoute name)
      | Some e \<Rightarrow>
          if pc_backend_user (pe_config e) = []
          then Inl (PAuth (''this pool has no service account, so there is no identity to probe with: ''
                  @ ''every backend connection is opened as the client that asked for it''))
          else (case acquired of
              Inl err \<Rightarrow> Inl (PBackend (pool_error_text texts err))
            | Inr b \<Rightarrow>
                Inr \<lparr>po_version = (case find (\<lambda>(k, _). k = ''server_version'') (pb_parameters b) of
                                    Some (_, v) \<Rightarrow> v | None \<Rightarrow> ''unknown''),
                     po_latency_ms = latency,
                     po_read_only = list_ex (\<lambda>(k, v). k = ''default_transaction_read_only'' \<and> v = ''on'') (pb_parameters b)\<rparr>))"

end
