(* ===== verification/Serve_Properties.thy ===== *)
theory Serve_Properties
  imports Serve Txn_Properties Txn_Frame
begin

text \<open>
  What a client of the PostgreSQL family is guaranteed from end to end. A session leaves
  nothing behind, a client that is served has earned it, one that has earned it gets in,
  read-only reaches the backend, and a backend of session mode goes back clean. The parts
  fit together: the start the guarantees of the relay ask for is the one that is served.
\<close>

section \<open>A session leaves nothing behind\<close>

interpretation session_scope: relay_scope "session_env E W g rp key h" h key for E W g rp key h
  by unfold_locales (simp_all add: session_env_def)

text \<open>What a session shares with others, without its own entries, and the connections that are not held.\<close>

definition shared ::
  "HolderHandle \<Rightarrow> CancelKey \<Rightarrow> Serving \<Rightarrow> SessionRegistry \<times> (u64, HolderEntry) btree \<times> (CancelKey \<rightharpoonup> CancelTarget option)"
where
  "shared h key sv = (pr_sessions (sv_process sv), btree_remove (hh_id h) (hr_entries (pr_holders (sv_process sv))),
     (CancelRegistry.entries (pr_cancels (sv_process sv)))(key := None))"

definition at_rest :: "Serving \<Rightarrow> nat" where
  "at_rest sv = on_offer (sv_pool sv) + length (sv_returned sv)"

lemma serve_shared_frame:
  assumes "serve_shared E W i credential g rp mode ps key h co sv = (sv', r)"
  shows "shared h key sv' = shared h key sv" and "at_rest sv' = Suc (at_rest sv)"
proof -
  define sv1 where "sv1 = on_process (\<lambda>P. P\<lparr>pr_holders := holder_clear (hh_id h) (pr_holders P)\<rparr>) (put_back co sv)"
  obtain res r1 where t: "transaction_relay (session_env E W g rp key h) (wo_events W) (session_start W g mode ps sv1) = (res, r1)"
    by force
  have "same h key (session_start W g mode ps sv1) r1"
    using session_scope.same_relay [where r = "session_start W g mode ps sv1" and evs = "wo_events W"] t by (metis snd_conv)
  moreover have "loose r1 = loose (session_start W g mode ps sv1)"
    by (rule relay_returns_everything(2) [OF t]) (simp add: session_start_def Txn_Relay.new_relay_def)
  ultimately show "shared h key sv' = shared h key sv" "at_rest sv' = Suc (at_rest sv)"
    using assms t
    by (auto simp: serve_shared_def sv1_def [symmetric] Let_def shared_def same_def bystanders_def at_rest_def loose_def)
      (auto simp: sv1_def session_start_def Txn_Relay.new_relay_def on_process_def put_back_def)
qed

lemma serve_exclusive_frame:
  assumes "serve_exclusive E W g ps key h co sv = (sv', r)"
  shows "shared h key sv' = shared h key sv" and "at_rest sv' = Suc (at_rest sv)"
  using assms
  by (auto simp: serve_exclusive_def say_def put_back_def on_process_def shared_def at_rest_def session_reserved_def Let_def
      split: prod.splits sum.splits ParamSync.splits)

lemma shared_client [simp]: "shared h key (sv\<lparr>sv_client := s\<rparr>) = shared h key sv" "at_rest (sv\<lparr>sv_client := s\<rparr>) = at_rest sv"
  by (simp_all add: shared_def at_rest_def)

lemma shared_put_back [simp]: "shared h key (put_back co sv) = shared h key sv" "at_rest (put_back co sv) = Suc (at_rest sv)"
  by (simp_all add: shared_def at_rest_def put_back_def)

lemma shared_count [simp]:
  "shared h key (count_pins W i mode outcome sv) = shared h key sv" "at_rest (count_pins W i mode outcome sv) = at_rest sv"
  by (simp_all add: shared_def at_rest_def count_pins_def on_process_def)

lemma open_key_frame:
  assumes "open_key secret sv = (key, sv1)"
  shows "key = (next_id (pr_cancels (sv_process sv)), secret)" and "shared h key sv1 = shared h key sv"
    and "at_rest sv1 = at_rest sv"
  using assms by (auto simp: open_key_def scope_def on_process_def shared_def at_rest_def Let_def)

text \<open>With its key, the relay of a session: what it shares and the connections are as before, and one more.\<close>

lemma serve_relay_body:
  assumes "serve_relay E W i sp credential g rp mode h co sv = (sv', r)" "open_key (wo_secret W) sv = (key, sv1)"
  obtains sv2 where "sv' = drop_key key sv2" "shared h key sv2 = shared h key sv" "at_rest sv2 = Suc (at_rest sv)"
proof -
  note key = open_key_frame [OF assms(2)]
  obtain s res where c: "complete_startup (en_handshake E) (pb_parameters (co_backend co)) (fst key) (snd key) (sv_client sv1) = (s, res)"
    by (metis surj_pair)
  let ?sv = "sv1\<lparr>sv_client := s\<rparr>" and ?ps = "session_params rp sp"
  show ?thesis
  proof (cases res)
    case (Inl e)
    then have "sv' = drop_key key (put_back co ?sv)"
      using assms c by (simp add: serve_relay_def dropping_def)
    then show ?thesis by (rule that) (simp_all add: key(2,3))
  next
    case (Inr u)
    obtain sv2 r2 where run: "(if multiplexes mode then serve_shared E W i credential g rp mode ?ps key h co ?sv
        else serve_exclusive E W g ?ps key h co ?sv) = (sv2, r2)" by (metis surj_pair)
    have 2: "shared h key sv2 = shared h key sv" "at_rest sv2 = Suc (at_rest sv)"
      using run serve_shared_frame [of E W i credential g rp mode ?ps key h co ?sv sv2 r2]
        serve_exclusive_frame [of E W g ?ps key h co ?sv sv2 r2]
      by (cases "multiplexes mode"; simp add: key(2,3))+
    have "sv' = drop_key key (case r2 of Inl _ \<Rightarrow> sv2 | Inr outcome \<Rightarrow> count_pins W i mode outcome sv2)"
      using assms c Inr run by (cases r2) (auto simp: serve_relay_def dropping_def Let_def)
    then show ?thesis by (rule that) (simp_all add: 2 split: sum.split)
  qed
qed

lemma serve_relay_frame:
  assumes "serve_relay E W i sp credential g rp mode h co sv = (sv', r)"
    and fresh: "CancelRegistry.entries (pr_cancels (sv_process sv)) (next_id (pr_cancels (sv_process sv)), wo_secret W) = None"
  shows "pr_sessions (sv_process sv') = pr_sessions (sv_process sv)"
    and "btree_remove (hh_id h) (hr_entries (pr_holders (sv_process sv'))) = btree_remove (hh_id h) (hr_entries (pr_holders (sv_process sv)))"
    and "CancelRegistry.entries (pr_cancels (sv_process sv')) = CancelRegistry.entries (pr_cancels (sv_process sv))"
    and "at_rest sv' = Suc (at_rest sv)"
proof -
  obtain key sv1 where k: "open_key (wo_secret W) sv = (key, sv1)" by (metis surj_pair)
  obtain sv2 where sv2: "sv' = drop_key key sv2" "shared h key sv2 = shared h key sv" "at_rest sv2 = Suc (at_rest sv)"
    by (rule serve_relay_body [OF assms(1) k])
  have "(CancelRegistry.entries (pr_cancels (sv_process sv)))(key := None) = CancelRegistry.entries (pr_cancels (sv_process sv))"
    using fresh open_key_frame(1) [OF k] by auto
  then show "pr_sessions (sv_process sv') = pr_sessions (sv_process sv)"
      "btree_remove (hh_id h) (hr_entries (pr_holders (sv_process sv'))) = btree_remove (hh_id h) (hr_entries (pr_holders (sv_process sv)))"
      "CancelRegistry.entries (pr_cancels (sv_process sv')) = CancelRegistry.entries (pr_cancels (sv_process sv))"
      "at_rest sv' = Suc (at_rest sv)"
    using sv2 by (simp_all add: drop_key_def unregister_def on_process_def shared_def at_rest_def)
qed

text \<open>The identifiers the registries hand out next are not in use.\<close>

definition unused_handles :: "Serve_World \<Rightarrow> Process \<Rightarrow> bool" where
  "unused_handles W P \<longleftrightarrow> map_of (hr_entries (pr_holders P)) (hr_next_id (pr_holders P)) = None
     \<and> CancelRegistry.entries (pr_cancels P) (next_id (pr_cancels P), wo_secret W) = None"

definition unused :: "Serve_World \<Rightarrow> Process \<Rightarrow> bool" where
  "unused W P \<longleftrightarrow> map_of (sr_entries (pr_sessions P)) (sr_next_id (pr_sessions P)) = None \<and> unused_handles W P"

definition registries :: "Process \<Rightarrow> (u64, SessionEntry) btree \<times> (u64, HolderEntry) btree \<times> (CancelKey \<rightharpoonup> CancelTarget option)" where
  "registries P = (sr_entries (pr_sessions P), hr_entries (pr_holders P), CancelRegistry.entries (pr_cancels P))"

lemma say_simps [simp]: "sv_process (say m sv) = sv_process sv" "at_rest (say m sv) = at_rest sv"
  by (simp_all add: say_def at_rest_def)

lemma startup_checkout_frame:
  assumes "startup_checkout E W i g sv = (sv', r)"
  shows "sv_process sv' = sv_process sv" and "at_rest sv = at_rest sv' + (case r of Inr _ \<Rightarrow> 1 | Inl _ \<Rightarrow> 0)"
  using assms
  by (auto simp: startup_checkout_def checkout_refused_def Let_def at_rest_def say_def
      split: Startup_Wait.splits list.splits sum.splits)

lemma open_holder_frame:
  assumes "open_holder W i mode sv = (h, sv1)"
  shows "hh_id h = hr_next_id (pr_holders (sv_process sv))" and "pr_sessions (sv_process sv1) = pr_sessions (sv_process sv)"
    and "pr_cancels (sv_process sv1) = pr_cancels (sv_process sv)"
    and "btree_remove (hh_id h) (hr_entries (pr_holders (sv_process sv1))) = btree_remove (hh_id h) (hr_entries (pr_holders (sv_process sv)))"
    and "at_rest sv1 = at_rest sv"
  using assms by (auto simp: open_holder_def holder_session_def waiting_for_startup_def holder_set_def on_process_def at_rest_def)

lemma register_session_frame:
  assumes "register_session W i limit sv = (sv1, r)"
  shows "pr_holders (sv_process sv1) = pr_holders (sv_process sv)" and "pr_cancels (sv_process sv1) = pr_cancels (sv_process sv)"
    and "at_rest sv1 = at_rest sv"
    and "case r of
        Inl _ \<Rightarrow> pr_sessions (sv_process sv1) = pr_sessions (sv_process sv)
      | Inr sid \<Rightarrow> sid = sr_next_id (pr_sessions (sv_process sv))
          \<and> btree_remove sid (sr_entries (pr_sessions (sv_process sv1))) = btree_remove sid (sr_entries (pr_sessions (sv_process sv)))"
  using assms by (auto simp: register_session_def register_def on_process_def say_def at_rest_def Let_def split: if_splits)

lemma find_group_frame:
  assumes "find_group E W i credential sv = (sv1, r)"
  shows "pr_sessions (sv_process sv1) = pr_sessions (sv_process sv)" and "pr_holders (sv_process sv1) = pr_holders (sv_process sv)"
    and "pr_cancels (sv_process sv1) = pr_cancels (sv_process sv)" and "at_rest sv1 = at_rest sv"
    and "pr_state (sv_process sv1) = pr_state (sv_process sv)"
  using assms by (auto simp: find_group_def on_process_def say_def at_rest_def Let_def split: if_splits prod.splits sum.splits)

text \<open>From the holders' handle to its drop.\<close>

lemma holder_scope_frame:
  assumes "open_holder W i mode sv = (h, sv1)"
    and "attempt (startup_checkout E W i g sv1) (\<lambda>sv co. serve_relay E W i sp credential g rp mode h co sv) = (sv2, r)"
    and "unused_handles W (sv_process sv)"
  shows "pr_sessions (sv_process (drop_holder h sv2)) = pr_sessions (sv_process sv)"
    and "hr_entries (pr_holders (sv_process (drop_holder h sv2))) = hr_entries (pr_holders (sv_process sv))"
    and "CancelRegistry.entries (pr_cancels (sv_process (drop_holder h sv2))) = CancelRegistry.entries (pr_cancels (sv_process sv))"
    and "at_rest (drop_holder h sv2) = at_rest sv"
proof -
  note h = open_holder_frame [OF assms(1)]
  have "pr_sessions (sv_process sv2) = pr_sessions (sv_process sv1)
    \<and> btree_remove (hh_id h) (hr_entries (pr_holders (sv_process sv2))) = btree_remove (hh_id h) (hr_entries (pr_holders (sv_process sv1)))
    \<and> CancelRegistry.entries (pr_cancels (sv_process sv2)) = CancelRegistry.entries (pr_cancels (sv_process sv1))
    \<and> at_rest sv2 = at_rest sv1"
    using assms(2)
  proof (cases rule: attempt_cases)
    case (1 e)
    then show ?thesis using startup_checkout_frame [OF 1(1)] by simp
  next
    case (2 sv3 co)
    note c = startup_checkout_frame [OF 2(1)]
    have "CancelRegistry.entries (pr_cancels (sv_process sv3)) (next_id (pr_cancels (sv_process sv3)), wo_secret W) = None"
      using assms(3) h(3) c(1) by (simp add: unused_handles_def)
    from serve_relay_frame [OF 2(2) this] c show ?thesis by simp
  qed
  moreover have "btree_remove (hh_id h) (hr_entries (pr_holders (sv_process sv))) = hr_entries (pr_holders (sv_process sv))"
    using assms(3) h(1) by (intro btree_remove_unused) (simp add: unused_handles_def)
  ultimately show "pr_sessions (sv_process (drop_holder h sv2)) = pr_sessions (sv_process sv)"
      "hr_entries (pr_holders (sv_process (drop_holder h sv2))) = hr_entries (pr_holders (sv_process sv))"
      "CancelRegistry.entries (pr_cancels (sv_process (drop_holder h sv2))) = CancelRegistry.entries (pr_cancels (sv_process sv))"
      "at_rest (drop_holder h sv2) = at_rest sv"
    using h by (simp_all add: drop_holder_def drop_handle_def holder_clear_def on_process_def at_rest_def)
qed

lemma serve_session_frame:
  assumes "serve_session E W i sp credential sv = (sv', r)" and unused: "unused W (sv_process sv)"
  shows "registries (sv_process sv') = registries (sv_process sv) \<and> at_rest sv' = at_rest sv"
  using assms(1) [unfolded serve_session_def]
proof (cases rule: attempt_cases)
  case (1 e)
  from find_group_frame [OF 1(1)] show ?thesis by (simp add: registries_def)
next
  case (2 sv1 g)
  note g = find_group_frame [OF 2(1)]
  let ?rp = "session_policy (pr_state (sv_process sv1)) (ci_pool i) (ci_user i)"
  from 2(2) [unfolded Let_def] show ?thesis
  proof (cases rule: attempt_cases)
    case (1 e)
    from register_session_frame [OF 1(1)] g show ?thesis by (simp add: registries_def)
  next
    case (2 sv2 sid)
    note s = register_session_frame [OF 2(1)]
    let ?mode = "pool_mode (pr_state (sv_process sv2)) (ci_pool i)"
    obtain h sv3 where h: "open_holder W i ?mode sv2 = (h, sv3)" by (metis surj_pair)
    obtain sv4 r4 where b: "attempt (startup_checkout E W i g sv3) (\<lambda>sv co. serve_relay E W i sp credential g ?rp ?mode h co sv) = (sv4, r4)"
      by (metis surj_pair)
    have fresh: "unused_handles W (sv_process sv2)" using unused g s by (simp add: unused_def unused_handles_def)
    note f = holder_scope_frame [OF h b fresh]
    have "btree_remove sid (sr_entries (pr_sessions (sv_process sv2))) = sr_entries (pr_sessions (sv_process sv))"
      using s(4) g(1) unused btree_remove_unused [of "sr_entries (pr_sessions (sv_process sv))" sid] by (auto simp: unused_def)
    moreover have "sv' = drop_session sid (drop_holder h sv4)" using 2(2) h b by (simp add: dropping_def)
    ultimately show ?thesis
      using f s g by (simp add: registries_def drop_session_def deregister_def on_process_def at_rest_def)
  qed
qed

text \<open>
  C4. A session leaves nothing behind, however it ends: with the end of the client, an error at
  any point, a refusal or a kick. The registries of sessions, of holders and of cancellation
  keys have exactly the entries they had before, and every connection that a pool gave it
  has gone back. The registries are asked to hand out identifiers that are not in use.
\<close>

theorem served_session_leaves_nothing_behind:
  assumes "serve E W peer route sv = (sv', r)" and "unused W (sv_process sv)"
  shows "sr_entries (pr_sessions (sv_process sv')) = sr_entries (pr_sessions (sv_process sv))
    \<and> hr_entries (pr_holders (sv_process sv')) = hr_entries (pr_holders (sv_process sv))
    \<and> CancelRegistry.entries (pr_cancels (sv_process sv')) = CancelRegistry.entries (pr_cancels (sv_process sv))
    \<and> on_offer (sv_pool sv') + length (sv_returned sv') = on_offer (sv_pool sv) + length (sv_returned sv)"
proof -
  have hands: "registries (sv_process sv1) = registries (sv_process sv) \<and> at_rest sv1 = at_rest sv
      \<and> (unused W (sv_process sv1) = unused W (sv_process sv))"
    if "shake_hands E W peer route sv = (sv1, x)" for sv1 x
    using that by (auto simp: shake_hands_def registries_def at_rest_def unused_def unused_handles_def Let_def split: prod.splits)
  have "registries (sv_process sv') = registries (sv_process sv) \<and> at_rest sv' = at_rest sv"
    using assms(1) [unfolded serve_def]
  proof (cases rule: attempt_cases)
    case (2 sv1 outcome)
    with hands [OF 2(1)] serve_session_frame [of E W _ _ _ sv1 sv' r] assms(2) show ?thesis
      by (cases outcome) (auto simp: serve_cancel_def registries_def at_rest_def split: option.splits)
  qed (use hands in blast)
  then show ?thesis by (simp add: registries_def at_rest_def)
qed

section \<open>Who is served\<close>

lemma family_handshake_parts:
  "ch_resolve (family_handshake E) = resolve_client (li_crypto (en_libs E)) (li_master_key (en_libs E))"
  "ch_admit (family_handshake E) = admit (li_crypto (en_libs E)) (en_random E)"
  by (simp_all add: family_handshake_def new_handshake_def with_tls_def Let_def split: option.split)

lemma shake_hands_established:
  assumes "shake_hands E W peer route sv = (sv1, Inr (Established i sp credential))"
  shows "on_route route (ci_pool i)"
    and "proven allowed_by_state (kept_by_state (li_crypto (en_libs E)) (li_master_key (en_libs E))) vouched_by_database
      (en_handshake E) (wo_meanwhile W) (authenticator_of (sv_process sv)) (ci_user i) (ci_pool i) credential"
    and "fa_pools (pr_family (sv_process sv1)) = fa_pools (pr_family (sv_process sv))"
    and "pr_sessions (sv_process sv1) = pr_sessions (sv_process sv)"
proof -
  let ?s = "(sv_client sv)\<lparr>cl_auth := authenticator_of (sv_process sv)\<rparr>"
  obtain s where run: "run_for_pool (en_handshake E) (wo_meanwhile W) (family_handshake E) peer route ?s
      = (s, Inr (Established i sp credential))"
    using assms by (auto simp: shake_hands_def Let_def split: prod.splits)
  show "fa_pools (pr_family (sv_process sv1)) = fa_pools (pr_family (sv_process sv))"
      "pr_sessions (sv_process sv1) = pr_sessions (sv_process sv)"
    using assms run by (auto simp: shake_hands_def Let_def)
  from run have "on_route route (ci_pool i) \<and>
    proven allowed_by_state (kept_by_state (li_crypto (en_libs E)) (li_master_key (en_libs E))) vouched_by_database
      (en_handshake E) (wo_meanwhile W) (authenticator_of (sv_process sv)) (ci_user i) (ci_pool i) credential"
  proof (cases rule: run_for_pool_establish)
    case (packet t p)
    have "cl_auth t = authenticator_of (sv_process sv)"
      using startup_loop_bytes [OF packet(1)] by (simp add: writes_bytes_def)
    with state_auth.let_in_proven [OF packet(3) family_handshake_parts] show ?thesis by auto
  qed simp
  then show "on_route route (ci_pool i)"
      "proven allowed_by_state (kept_by_state (li_crypto (en_libs E)) (li_master_key (en_libs E))) vouched_by_database
        (en_handshake E) (wo_meanwhile W) (authenticator_of (sv_process sv)) (ci_user i) (ci_pool i) credential" by blast+
qed

text \<open>The stages of a session that got through.\<close>

lemma serve_session_served:
  assumes "serve_session E W i sp credential sv = (sv', Inr outcome)"
  obtains g fa sv1 sid sv2 h sv3 sv4 co sv5 where
    "borrow_group (en_libs E) (wo_now W) (pr_state (sv_process sv)) (ci_pool i) (ci_user i) credential (pr_family (sv_process sv)) = (fa, Inr g)"
    "find_group E W i credential sv = (sv1, Inr g)"
    "register_session W i (rp_session_limit (session_policy (pr_state (sv_process sv)) (ci_pool i) (ci_user i))) sv1 = (sv2, Inr sid)"
    "open_holder W i (pool_mode (pr_state (sv_process sv)) (ci_pool i)) sv2 = (h, sv3)"
    "startup_checkout E W i g sv3 = (sv4, Inr co)"
    "serve_relay E W i sp credential g (session_policy (pr_state (sv_process sv)) (ci_pool i) (ci_user i))
       (pool_mode (pr_state (sv_process sv)) (ci_pool i)) h co sv4 = (sv5, Inr outcome)"
    "sv' = drop_session sid (drop_holder h sv5)"
proof -
  obtain sv1 g where g: "find_group E W i credential sv = (sv1, Inr g)"
    using assms by (auto simp: serve_session_def attempt_Inr)
  have st: "pr_state (sv_process sv1) = pr_state (sv_process sv)" using find_group_frame [OF g] by simp
  let ?rp = "session_policy (pr_state (sv_process sv)) (ci_pool i) (ci_user i)"
  obtain sv2 sid where s: "register_session W i (rp_session_limit ?rp) sv1 = (sv2, Inr sid)"
    using assms g st by (auto simp: serve_session_def attempt_Inr Let_def)
  have st2: "pr_state (sv_process sv2) = pr_state (sv_process sv)"
    using s st by (auto simp: register_session_def on_process_def Let_def split: prod.splits sum.splits TooManySessions.splits)
  let ?mode = "pool_mode (pr_state (sv_process sv)) (ci_pool i)"
  obtain h sv3 where h: "open_holder W i ?mode sv2 = (h, sv3)" by (metis surj_pair)
  obtain sv5 where b: "attempt (startup_checkout E W i g sv3) (\<lambda>sv co. serve_relay E W i sp credential g ?rp ?mode h co sv) = (sv5, Inr outcome)"
    "sv' = drop_session sid (drop_holder h sv5)"
    using assms g st s st2 h by (auto simp: serve_session_def dropping_def Let_def split: prod.splits)
  then obtain sv4 co where "startup_checkout E W i g sv3 = (sv4, Inr co)"
    "serve_relay E W i sp credential g ?rp ?mode h co sv4 = (sv5, Inr outcome)" by (auto simp: attempt_Inr)
  moreover obtain fa where "borrow_group (en_libs E) (wo_now W) (pr_state (sv_process sv)) (ci_pool i) (ci_user i) credential (pr_family (sv_process sv)) = (fa, Inr g)"
    using g by (auto simp: find_group_def Let_def split: if_splits prod.splits sum.splits)
  ultimately show ?thesis using that g s h b(2) by blast
qed

lemma serve_established:
  assumes "serve E W peer route sv = (sv', Inr outcome)" "so_authenticated outcome"
  obtains sv1 i sp credential where "shake_hands E W peer route sv = (sv1, Inr (Established i sp credential))"
    "serve_session E W i sp credential sv1 = (sv', Inr outcome)"
proof -
  obtain sv1 x where "shake_hands E W peer route sv = (sv1, Inr x)"
    "(case x of Cancel pid secret \<Rightarrow> serve_cancel (pid, secret) sv1
      | Established i sp credential \<Rightarrow> serve_session E W i sp credential sv1) = (sv', Inr outcome)"
    using assms(1) by (auto simp: serve_def attempt_Inr)
  then show ?thesis using that assms(2) by (cases x) (auto simp: serve_cancel_def rejected_def)
qed

lemma register_session_cap:
  assumes "register_session W i limit sv = (sv', Inr sid)" "limit > 0"
  shows "Sessions.held (ci_user i) (sr_entries (pr_sessions (sv_process sv))) < unat limit"
  using assms by (auto simp: register_session_def register_def Let_def split: if_splits prod.splits sum.splits TooManySessions.splits)


section \<open>What is set up for the relay\<close>

lemma session_params_ok:
  "btree (desired (session_params rp sp))" "pending (session_params rp sp) = []"
  "rp_read_only rp \<noteq> None \<Longrightarrow> map_of (desired (session_params rp sp)) READ_ONLY_GUC = Some READ_ONLY_ON"
  by (auto simp: session_params_def enforce_read_only_def from_startup_btree READ_ONLY_ON_def)

text \<open>The start that the guarantees of transaction mode ask for is the one a session has.\<close>

lemma session_relay_start:
  assumes "multiplexes mode" "CancelRegistry.entries (pr_cancels (sv_process sv)) key = Some None"
    and "\<forall>b. Inr b \<in> set (sv_pool sv) \<longrightarrow> backend_ok b"
  shows "relay_start (session_env E W g rp key h) (session_start W g mode (session_params rp sp) sv)"
  using assms session_params_ok [of rp sp]
  by (cases mode)
    (auto simp: relay_start_def session_env_def session_start_def Txn_Relay.new_relay_def new_session_def flow_ok_def
      params_ok_def cancel_ok_def)

lemma session_policy_read_only:
  assumes "map_of (st_pools st) pool = Some pc"
    and "pc_read_only pc \<or> (\<exists>uc. map_of (st_users st) who = Some uc \<and> uc_read_only uc)"
  shows "rp_read_only (session_policy st pool who) \<noteq> None"
  using assms by (auto simp: session_policy_def Let_def split: option.splits)


section \<open>Session mode\<close>

lemma relay_to_end_returns: "\<exists>r. session_relay (chunks @ [FromClient (Inr []) None]) r0 = Ended r
    \<or> (\<exists>e. session_relay (chunks @ [FromClient (Inr []) None]) r0 = Failed r e)"
  by (induction chunks arbitrary: r0) (auto simp: relay_turn_def from_client_def split: Turn.split)

lemma recycle_checkout_clean:
  "co_discard (recycle_checkout co)
    \<or> ends_ready (co_backend (recycle_checkout co)) \<and> applied_params (co_backend (recycle_checkout co)) = []
      \<and> present (pb_statements (co_backend (recycle_checkout co))) = {}"
proof -
  obtain out b where r: "reset_backend (co_backend co) = (out, b)" by force
  show ?thesis
  proof (cases "out = Discard")
    case False
    then have "out = Cleaned" using r by (auto simp: reset_backend_def Let_def split: if_splits)
    with reset_cleans [of "co_backend co" b] r show ?thesis by (auto simp: recycle_checkout_def)
  qed (use r in \<open>simp add: recycle_checkout_def discard_def\<close>)
qed

lemma recycle_keeps_discard: "co_discard co \<Longrightarrow> co_discard (recycle_checkout co)"
  by (simp add: recycle_checkout_def discard_def Let_def split: prod.split)

definition goes_back_clean :: "RelayEvent list \<Rightarrow> PgCheckout \<Rightarrow> bool" where
  "goes_back_clean chunks co \<longleftrightarrow> co_discard co
     \<or> (ends_ready (co_backend co) \<and> applied_params (co_backend co) = [] \<and> present (pb_statements (co_backend co)) = {}
        \<and> (\<exists>st. relay_to_end chunks = Inr st \<and> \<not> backend_closed st \<and> \<not> kicked st))"

lemma serve_exclusive_served:
  assumes "serve_exclusive E W g ps key h co sv = (sv', Inr outcome)"
  shows "\<exists>co. sv_returned sv' = sv_returned sv @ [co] \<and> goes_back_clean (wo_chunks W) co"
proof -
  obtain y b where y: "sync_params ps (co_backend co) = (Inr y, b)" "y = InStep \<or> y = Applied"
    using assms by (auto simp: serve_exclusive_def Let_def split: prod.splits sum.splits ParamSync.splits)
  define spoiled where "spoiled = (case relay_to_end (wo_chunks W) of Inl _ \<Rightarrow> True | Inr st \<Rightarrow> backend_closed st \<or> kicked st)"
  define co1 where "co1 = (if spoiled then discard (co\<lparr>co_backend := b\<rparr>) else co\<lparr>co_backend := b\<rparr>)"
  have ret: "sv_returned sv' = sv_returned sv @ [recycle_checkout co1]"
    using assms y by (auto simp: serve_exclusive_def Let_def put_back_def on_process_def co1_def spoiled_def)
  have "goes_back_clean (wo_chunks W) (recycle_checkout co1)"
  proof (cases spoiled)
    case True
    then have "co_discard (recycle_checkout co1)" by (intro recycle_keeps_discard) (simp add: co1_def discard_def)
    then show ?thesis by (simp add: goes_back_clean_def)
  next
    case False
    then show ?thesis using recycle_checkout_clean [of co1] by (auto simp: goes_back_clean_def spoiled_def split: sum.splits)
  qed
  with ret show ?thesis by blast
qed

lemma serve_relay_served:
  assumes "serve_relay E W i sp credential g rp Session h co sv = (sv', Inr outcome)"
  shows "\<exists>co. sv_returned sv' = sv_returned sv @ [co] \<and> goes_back_clean (wo_chunks W) co"
proof -
  obtain key sv1 where k: "open_key (wo_secret W) sv = (key, sv1)" by (metis surj_pair)
  have sv1: "sv_returned sv1 = sv_returned sv" using k by (auto simp: open_key_def on_process_def split: prod.splits)
  obtain s1 sv2 where "serve_exclusive E W g (session_params rp sp) key h co (sv1\<lparr>sv_client := s1\<rparr>) = (sv2, Inr outcome)"
    and sv': "sv' = drop_key key sv2"
    using assms k by (auto simp: serve_relay_def dropping_def attempt_def count_pins_def Let_def split: prod.splits sum.splits)
  from serve_exclusive_served [OF this(1)] sv1 sv' show ?thesis by (simp add: drop_key_def on_process_def)
qed

lemma returned_before_relay:
  assumes "find_group E W i credential sv = (sv1, Inr g)" "register_session W i limit sv1 = (sv2, Inr sid)"
    "open_holder W i mode sv2 = (h, sv3)" "startup_checkout E W i g sv3 = (sv4, Inr co)"
  shows "sv_returned sv4 = sv_returned sv"
proof -
  have "sv_returned sv1 = sv_returned sv"
    using assms(1) by (auto simp: find_group_def on_process_def say_def Let_def split: if_splits prod.splits sum.splits)
  moreover have "sv_returned sv2 = sv_returned sv1"
    using assms(2) by (auto simp: register_session_def on_process_def Let_def split: prod.splits sum.splits TooManySessions.splits)
  moreover have "sv_returned sv3 = sv_returned sv2" using assms(3) by (auto simp: open_holder_def on_process_def split: prod.splits)
  moreover have "sv_returned sv4 = sv_returned sv3"
    using assms(4) by (auto simp: startup_checkout_def checkout_refused_def Let_def split: Startup_Wait.splits list.splits sum.splits)
  ultimately show ?thesis by simp
qed


section \<open>A client gets in\<close>

lemma put_parameters_quiet:
  "Handshake.Client.cl_faults s = [] \<Longrightarrow> put_parameters env ps s
     = (s\<lparr>cl_out := cl_out s @ map (\<lambda>(k, v). (cl_encrypted s, Msg (parameter_status k v))) ps\<rparr>, Inr ())"
  by (induction ps arbitrary: s) (auto simp: put_quiet)

definition greeting :: "PgBackend \<Rightarrow> CancelKey \<Rightarrow> Message list" where
  "greeting b key = map (\<lambda>(k, v). parameter_status k v) (pb_parameters b) @ [backend_key_data (fst key) (snd key), ready_for_query TIdle]"

lemma complete_startup_quiet:
  "Handshake.Client.cl_faults s = [] \<Longrightarrow> complete_startup env (pb_parameters b) (fst key) (snd key) s
     = (s\<lparr>cl_out := cl_out s @ map (\<lambda>m. (cl_encrypted s, Msg m)) (greeting b key)\<rparr>, Inr ())"
  by (simp add: complete_startup_def put_parameters_quiet put_quiet greeting_def case_prod_unfold)

lemma serve_shared_client: "sv_client (fst (serve_shared E W i credential g rp mode ps key h co sv)) = sv_client sv"
  by (simp add: serve_shared_def on_process_def put_back_def case_prod_unfold Let_def)

lemma serve_exclusive_client:
  "\<exists>rest. cl_out (sv_client (fst (serve_exclusive E W g ps key h co sv))) = cl_out (sv_client sv) @ rest"
  by (auto simp: serve_exclusive_def on_process_def put_back_def say_def Handshake.tell_def put_out_def Let_def
      split: prod.split sum.split ParamSync.split list.split)

lemma serve_relay_welcomes:
  assumes "Handshake.Client.cl_faults (sv_client sv) = []"
  shows "\<exists>rest. cl_out (sv_client (fst (serve_relay E W i sp credential g rp mode h co sv)))
    = cl_out (sv_client sv) @ map (\<lambda>m. (cl_encrypted (sv_client sv), Msg m))
        (greeting (co_backend co) (next_id (pr_cancels (sv_process sv)), wo_secret W)) @ rest"
proof -
  obtain key sv1 where k: "open_key (wo_secret W) sv = (key, sv1)" by (metis surj_pair)
  have key: "key = (next_id (pr_cancels (sv_process sv)), wo_secret W)" "sv_client sv1 = sv_client sv"
    using k by (auto simp: open_key_def scope_def on_process_def Let_def)
  let ?s = "(sv_client sv)\<lparr>cl_out := cl_out (sv_client sv) @ map (\<lambda>m. (cl_encrypted (sv_client sv), Msg m)) (greeting (co_backend co) key)\<rparr>"
  let ?run = "if multiplexes mode then serve_shared E W i credential g rp mode (session_params rp sp) key h co (sv1\<lparr>sv_client := ?s\<rparr>)
    else serve_exclusive E W g (session_params rp sp) key h co (sv1\<lparr>sv_client := ?s\<rparr>)"
  have c: "complete_startup (en_handshake E) (pb_parameters (co_backend co)) (fst key) (snd key) (sv_client sv1) = (?s, Inr ())"
    using complete_startup_quiet [OF assms] key(2) by simp
  obtain rest where rest: "cl_out (sv_client (fst ?run)) = cl_out ?s @ rest"
    using serve_shared_client [of E W i credential g rp mode "session_params rp sp" key h co "sv1\<lparr>sv_client := ?s\<rparr>"]
      serve_exclusive_client [of E W g "session_params rp sp" key h co "sv1\<lparr>sv_client := ?s\<rparr>"]
    by (cases "multiplexes mode") auto
  have "sv_client (fst (serve_relay E W i sp credential g rp mode h co sv)) = sv_client (fst ?run)"
    by (simp add: serve_relay_def k c dropping_def drop_key_def on_process_def count_pins_def attempt_def Let_def case_prod_unfold
        del: fun_upd_apply split: sum.split)
  with rest show ?thesis by (auto simp: key(1))
qed

text \<open>Nothing stops such a client before the relay.\<close>

lemma serve_session_reaches_relay:
  assumes "borrow_group (en_libs E) (wo_now W) (pr_state (sv_process sv)) (ci_pool i) (ci_user i) credential (pr_family (sv_process sv)) = (fa, Inr g)"
    and "limit = rp_session_limit (session_policy (pr_state (sv_process sv)) (ci_pool i) (ci_user i))"
    and "limit = 0 \<or> Sessions.held (ci_user i) (sr_entries (pr_sessions (sv_process sv))) < unat limit"
    and "wo_wait W = Answered" and "sv_pool sv = Inr b # rest"
  obtains sid h sv4 where
    "serve_session E W i sp credential sv = dropping (drop_session sid) (dropping (drop_holder h)
       (serve_relay E W i sp credential g (session_policy (pr_state (sv_process sv)) (ci_pool i) (ci_user i))
          (pool_mode (pr_state (sv_process sv)) (ci_pool i)) h \<lparr>co_backend = b, co_discard = False, co_pool = None\<rparr> sv4))"
    "sv_client sv4 = sv_client sv" "pr_cancels (sv_process sv4) = pr_cancels (sv_process sv)"
proof -
  let ?mode = "pool_mode (pr_state (sv_process sv)) (ci_pool i)" and ?sv1 = "on_process (\<lambda>P. P\<lparr>pr_family := fa\<rparr>) sv"
  have f: "find_group E W i credential sv = (?sv1, Inr g)"
    using assms(1) by (auto simp: find_group_def borrow_group_def Let_def split: option.splits)
  obtain sv2 sid where r: "register_session W i limit ?sv1 = (sv2, Inr sid)"
    using assms(3) by (auto simp: register_session_def register_def on_process_def Let_def)
  have sv2: "pr_state (sv_process sv2) = pr_state (sv_process sv)" "pr_cancels (sv_process sv2) = pr_cancels (sv_process sv)"
      "sv_client sv2 = sv_client sv" "sv_pool sv2 = Inr b # rest"
    using r assms(5) by (auto simp: register_session_def on_process_def Let_def split: prod.splits sum.splits TooManySessions.splits)
  obtain h sv3 where h: "open_holder W i ?mode sv2 = (h, sv3)" by (metis surj_pair)
  have sv3: "pr_cancels (sv_process sv3) = pr_cancels (sv_process sv)" "sv_client sv3 = sv_client sv" "sv_pool sv3 = Inr b # rest"
    using h sv2 by (auto simp: open_holder_def on_process_def split: prod.splits)
  have "startup_checkout E W i g sv3 = (sv3\<lparr>sv_pool := rest\<rparr>, Inr \<lparr>co_backend = b, co_discard = False, co_pool = None\<rparr>)"
    using assms(4) sv3 by (simp add: startup_checkout_def)
  with f r sv2(1) h sv3 show ?thesis
    by (intro that [of sid h "sv3\<lparr>sv_pool := rest\<rparr>"]) (simp_all add: serve_session_def assms(2) [symmetric] Let_def on_process_def)
qed

text \<open>
  C32. A client that has authenticated gets in: when its group can be built, its user is below
  its cap, a connection is free and its socket holds, it is sent the parameters of the
  backend, a cancellation key of its own and \<open>ReadyForQuery\<close>, in this order, in both modes.
\<close>

theorem admitted_client_gets_ready:
  assumes "borrow_group (en_libs E) (wo_now W) (pr_state (sv_process sv)) (ci_pool i) (ci_user i) credential (pr_family (sv_process sv)) = (fa, Inr g)"
    and "limit = rp_session_limit (session_policy (pr_state (sv_process sv)) (ci_pool i) (ci_user i))"
    and "limit = 0 \<or> Sessions.held (ci_user i) (sr_entries (pr_sessions (sv_process sv))) < unat limit"
    and "wo_wait W = Answered" and "sv_pool sv = Inr b # rest" and "Handshake.Client.cl_faults (sv_client sv) = []"
  shows "\<exists>more. cl_out (sv_client (fst (serve_session E W i sp credential sv))) = cl_out (sv_client sv)
    @ map (\<lambda>m. (cl_encrypted (sv_client sv), Msg m))
        (map (\<lambda>(k, v). parameter_status k v) (pb_parameters b)
          @ [backend_key_data (next_id (pr_cancels (sv_process sv))) (wo_secret W), ready_for_query TIdle]) @ more"
proof -
  let ?co = "\<lparr>co_backend = b, co_discard = False, co_pool = None\<rparr>"
  obtain sid h sv4 where
    "serve_session E W i sp credential sv = dropping (drop_session sid) (dropping (drop_holder h)
       (serve_relay E W i sp credential g (session_policy (pr_state (sv_process sv)) (ci_pool i) (ci_user i))
          (pool_mode (pr_state (sv_process sv)) (ci_pool i)) h ?co sv4))"
    and sv4: "sv_client sv4 = sv_client sv" "pr_cancels (sv_process sv4) = pr_cancels (sv_process sv)"
    by (rule serve_session_reaches_relay [OF assms(1-5)])
  then have "sv_client (fst (serve_session E W i sp credential sv)) = sv_client (fst (serve_relay E W i sp credential g
      (session_policy (pr_state (sv_process sv)) (ci_pool i) (ci_user i)) (pool_mode (pr_state (sv_process sv)) (ci_pool i)) h ?co sv4))"
    by (simp add: dropping_def drop_session_def drop_holder_def on_process_def case_prod_unfold)
  with serve_relay_welcomes [of sv4 E W i sp credential g _ _ h ?co] sv4 assms(6) show ?thesis by (simp add: greeting_def)
qed

section \<open>Instances\<close>

definition example_serve_env :: Serve_Env where
  "example_serve_env =
     \<lparr>en_handshake = example_handshake_env, en_libs = example_libs, en_random = ''salt'', en_acceptor = None,
      en_require_tls = False, en_digest = (\<lambda>_. [])\<rparr>"

definition serve_world :: Serve_World where
  "serve_world =
     \<lparr>wo_meanwhile = id, wo_now = 0, wo_now_ms = 0, wo_wait = Answered, wo_secret = 7, wo_events = [], wo_faults = [],
      wo_clock = (\<lambda>_. 0), wo_wall = (\<lambda>_. 0), wo_chunks = []\<rparr>"

definition example_process :: "State \<Rightarrow> Process" where
  "example_process st =
     \<lparr>pr_state = st, pr_prober = au_prober example_authenticator,
      pr_family = foldl (family_act example_libs) new_family [Sync 0 example_document],
      pr_sessions = new_sessions, pr_holders = new_holder_registry, pr_cancels = new_cancel_registry, pr_pins = new_registry\<rparr>"

text \<open>A client of a passthrough pool with the right password, and one free connection.\<close>

definition example_serving :: "State \<Rightarrow> Serving" where
  "example_serving st =
     \<lparr>sv_process = example_process st, sv_client = example_client example_authenticator (encode_msg (msg CHR ''p'' (''pw'' @ [NUL]))),
      sv_relayed = [], sv_pool = [Inr resettable], sv_returned = [], sv_cancelled = []\<rparr>"

lemma example_pools:
  "\<exists>g. fa_pools (pr_family (example_process st)) = [(''orders'', \<lparr>pe_config = example_passthrough_pool, pe_shared = g, pe_per_user = []\<rparr>)]
     \<and> fa_identities (pr_family (example_process st)) = []"
  using example_sync by (auto simp: example_process_def new_family_def)

lemma example_hands:
  "\<exists>sv1 i sp. shake_hands example_serve_env serve_world ''peer'' example_route (example_serving (au_state example_authenticator))
      = (sv1, Inr (Established i sp (Some ''pw'')))
    \<and> ci_user i = ''alice'' \<and> ci_pool i = ''orders'' \<and> pr_state (sv_process sv1) = au_state example_authenticator
    \<and> fa_pools (pr_family (sv_process sv1)) = fa_pools (pr_family (example_process (au_state example_authenticator)))
    \<and> pr_sessions (sv_process sv1) = new_sessions
    \<and> Handshake.Client.cl_faults (sv_client sv1) = [] \<and> sv_pool sv1 = [Inr resettable]"
proof -
  have auth: "authenticator_of (example_process (au_state example_authenticator)) = example_authenticator"
    using example_pools [of "au_state example_authenticator"]
    by (simp add: authenticator_of_def example_process_def) (simp add: example_authenticator_def)
  have ch: "family_handshake example_serve_env = example_handshake"
    by (simp add: family_handshake_def example_serve_env_def example_handshake_def example_libs_def)
  have cl: "(example_client example_authenticator m)\<lparr>cl_auth := example_authenticator\<rparr> = example_client example_authenticator m" for m
    by (simp add: example_client_def)
  have env: "en_handshake example_serve_env = example_handshake_env" "wo_meanwhile serve_world = id"
    by (simp_all add: example_serve_env_def serve_world_def)
  obtain s' i ps where run: "run_for_pool example_handshake_env id example_handshake ''peer'' example_route
      (example_client example_authenticator (encode_msg (msg CHR ''p'' (''pw'' @ [NUL])))) = (s', Inr (Established i ps (Some ''pw'')))"
    and s': "ci_user i = ''alice''" "ci_pool i = ''orders''" "au_state (cl_auth s') = au_state example_authenticator"
      "Handshake.Client.cl_faults s' = []" using example_passthrough_run by blast
  let ?sv = "example_serving (au_state example_authenticator)"
  have "shake_hands example_serve_env serve_world ''peer'' example_route ?sv
      = (?sv\<lparr>sv_client := s', sv_process := (sv_process ?sv)\<lparr>pr_state := au_state (cl_auth s'),
           pr_family := (pr_family (sv_process ?sv))\<lparr>fa_identities := au_identities (cl_auth s')\<rparr>\<rparr>\<rparr>, Inr (Established i ps (Some ''pw'')))"
    using run by (simp add: shake_hands_def example_serving_def auth ch cl env Let_def)
  then show ?thesis using s' by (simp add: example_serving_def) (simp add: example_process_def)
qed

lemma example_group:
  assumes "fa_pools fa = fa_pools (pr_family (example_process st'))"
  shows "\<exists>fa' g. borrow_group example_libs 0 st ''orders'' ''alice'' (Some ''pw'') fa = (fa', Inr g)"
  using assms example_pools [of st'] example_builds [of st "As_User ''alice'' ''pw''"]
  by (auto simp: borrow_group_def group_for_def Let_def)

lemma example_limit: "rp_session_limit (session_policy (au_state example_authenticator) ''orders'' ''alice'') = 0"
  by (simp add: session_policy_def example_authenticator_def default_state_def)

lemma example_mode: "pool_mode (au_state example_authenticator) ''orders'' = Transaction"
  by (simp add: pool_mode_def example_authenticator_def default_state_def example_pool_def)

lemma quiet_relay_served:
  assumes "Handshake.Client.cl_faults (sv_client sv) = []" "multiplexes mode" "wo_events W = []"
  shows "\<exists>sv' outcome. serve_relay E W i sp credential g rp mode h co sv = (sv', Inr outcome) \<and> so_authenticated outcome"
proof -
  obtain key sv1 where k: "open_key (wo_secret W) sv = (key, sv1)" by (metis surj_pair)
  have "sv_client sv1 = sv_client sv" using k by (auto simp: open_key_def on_process_def split: prod.splits)
  with assms(1) obtain s where
    c: "complete_startup (en_handshake E) (pb_parameters (co_backend co)) (fst key) (snd key) (sv_client sv1) = (s, Inr ())"
    using complete_startup_quiet [of "sv_client sv1" "en_handshake E" "co_backend co" key] by simp
  obtain sv2 outcome where "serve_shared E W i credential g rp mode (session_params rp sp) key h co (sv1\<lparr>sv_client := s\<rparr>) = (sv2, Inr outcome)"
    "so_authenticated outcome" using assms(3) by (simp add: serve_shared_def transaction_relay_def Let_def)
  then show ?thesis using k c assms(2) by (simp add: serve_relay_def dropping_def Let_def)
qed

lemma example_served:
  "\<exists>sv' outcome. serve example_serve_env serve_world ''peer'' example_route (example_serving (au_state example_authenticator))
     = (sv', Inr outcome) \<and> so_authenticated outcome"
proof -
  obtain sv1 i sp where h: "shake_hands example_serve_env serve_world ''peer'' example_route (example_serving (au_state example_authenticator))
      = (sv1, Inr (Established i sp (Some ''pw'')))" and i: "ci_user i = ''alice''" "ci_pool i = ''orders''"
    and sv1: "pr_state (sv_process sv1) = au_state example_authenticator"
      "fa_pools (pr_family (sv_process sv1)) = fa_pools (pr_family (example_process (au_state example_authenticator)))"
      "Handshake.Client.cl_faults (sv_client sv1) = []" "sv_pool sv1 = [Inr resettable]"
    using example_hands by blast
  obtain fa g where b: "borrow_group (en_libs example_serve_env) (wo_now serve_world) (pr_state (sv_process sv1)) (ci_pool i) (ci_user i)
      (Some ''pw'') (pr_family (sv_process sv1)) = (fa, Inr g)"
    using example_group [OF sv1(2), of "pr_state (sv_process sv1)"] i by (auto simp: example_serve_env_def serve_world_def)
  obtain sid h4 sv4 where s: "serve_session example_serve_env serve_world i sp (Some ''pw'') sv1
      = dropping (drop_session sid) (dropping (drop_holder h4)
       (serve_relay example_serve_env serve_world i sp (Some ''pw'') g (session_policy (pr_state (sv_process sv1)) (ci_pool i) (ci_user i))
          (pool_mode (pr_state (sv_process sv1)) (ci_pool i)) h4 \<lparr>co_backend = resettable, co_discard = False, co_pool = None\<rparr> sv4))"
    and sv4: "sv_client sv4 = sv_client sv1"
    by (rule serve_session_reaches_relay [OF b refl _ _ sv1(4)]) (use i sv1 example_limit in \<open>simp_all add: serve_world_def\<close>)
  have "multiplexes (pool_mode (pr_state (sv_process sv1)) (ci_pool i))" using sv1(1) i(2) example_mode by simp
  then obtain sv5 outcome where "serve_relay example_serve_env serve_world i sp (Some ''pw'') g
      (session_policy (pr_state (sv_process sv1)) (ci_pool i) (ci_user i)) (pool_mode (pr_state (sv_process sv1)) (ci_pool i)) h4
      \<lparr>co_backend = resettable, co_discard = False, co_pool = None\<rparr> sv4 = (sv5, Inr outcome)" and out: "so_authenticated outcome"
    using quiet_relay_served [of sv4 "pool_mode (pr_state (sv_process sv1)) (ci_pool i)" serve_world example_serve_env i sp "Some ''pw''" g
        "session_policy (pr_state (sv_process sv1)) (ci_pool i) (ci_user i)" h4 "\<lparr>co_backend = resettable, co_discard = False, co_pool = None\<rparr>"]
      sv4 sv1(3) by (auto simp: serve_world_def)
  then have "\<exists>sv'. serve_session example_serve_env serve_world i sp (Some ''pw'') sv1 = (sv', Inr outcome)"
    unfolding s by (simp add: dropping_def)
  with out show ?thesis using h by (auto simp: serve_def)
qed

theorem served_session_leaves_nothing_behind_witness:
  "\<exists>sv' outcome. serve example_serve_env serve_world ''peer'' example_route (example_serving (au_state example_authenticator)) = (sv', Inr outcome)
     \<and> so_authenticated outcome \<and> sr_entries (pr_sessions (sv_process sv')) = []
     \<and> on_offer (sv_pool sv') + length (sv_returned sv') = 1"
proof -
  let ?sv = "example_serving (au_state example_authenticator)"
  obtain sv' outcome where run: "serve example_serve_env serve_world ''peer'' example_route ?sv = (sv', Inr outcome)"
    and out: "so_authenticated outcome" using example_served by blast
  have "unused serve_world (sv_process ?sv)"
    by (simp add: unused_def unused_handles_def example_serving_def example_process_def new_sessions_def new_holder_registry_def
        new_cancel_registry_def)
  from served_session_leaves_nothing_behind [OF run this] run out show ?thesis
    by (simp add: example_serving_def example_process_def new_sessions_def)
qed


theorem admitted_client_gets_ready_witness:
  "\<exists>sv1 i sp more. shake_hands example_serve_env serve_world ''peer'' example_route (example_serving (au_state example_authenticator))
      = (sv1, Inr (Established i sp (Some ''pw'')))
    \<and> cl_out (sv_client (fst (serve_session example_serve_env serve_world i sp (Some ''pw'') sv1)))
        = cl_out (sv_client sv1) @ map (\<lambda>m. (cl_encrypted (sv_client sv1), Msg m))
            [backend_key_data (next_id (pr_cancels (sv_process sv1))) 7, ready_for_query TIdle] @ more"
proof -
  obtain sv1 i sp where h: "shake_hands example_serve_env serve_world ''peer'' example_route (example_serving (au_state example_authenticator))
      = (sv1, Inr (Established i sp (Some ''pw'')))" and i: "ci_user i = ''alice''" "ci_pool i = ''orders''"
    and sv1: "pr_state (sv_process sv1) = au_state example_authenticator"
      "fa_pools (pr_family (sv_process sv1)) = fa_pools (pr_family (example_process (au_state example_authenticator)))"
      "Handshake.Client.cl_faults (sv_client sv1) = []" "sv_pool sv1 = [Inr resettable]"
    using example_hands by blast
  obtain fa g where b: "borrow_group (en_libs example_serve_env) (wo_now serve_world) (pr_state (sv_process sv1)) (ci_pool i) (ci_user i)
      (Some ''pw'') (pr_family (sv_process sv1)) = (fa, Inr g)"
    using example_group [OF sv1(2), of "pr_state (sv_process sv1)"] i by (auto simp: example_serve_env_def serve_world_def)
  have "rp_session_limit (session_policy (pr_state (sv_process sv1)) (ci_pool i) (ci_user i)) = 0"
    using sv1(1) i example_limit by simp
  then have limit: "rp_session_limit (session_policy (pr_state (sv_process sv1)) (ci_pool i) (ci_user i)) = 0
      \<or> Sessions.held (ci_user i) (sr_entries (pr_sessions (sv_process sv1)))
          < unat (rp_session_limit (session_policy (pr_state (sv_process sv1)) (ci_pool i) (ci_user i)))" ..
  have wait: "wo_wait serve_world = Answered" by (simp add: serve_world_def)
  from admitted_client_gets_ready [OF b refl limit wait sv1(4,3), of sp] h show ?thesis
    by (auto simp: serve_world_def resettable_def)
qed

subsection \<open>A read-only pool\<close>

definition read_only_document :: State where
  "read_only_document = default_state\<lparr>st_pools := [(''orders'', (example_pool Transaction 6432 [])\<lparr>pc_read_only := True\<rparr>)]\<rparr>"

definition example_pool_group :: Group.PoolGroup where
  "example_pool_group =
     \<lparr>pg_name = ''orders'', pg_mode = Transaction,
      pg_primary = target_pool ''orders/primary'' (pc_limits (example_pool Transaction 6432 [])) example_backend_config,
      pg_primary_label = ''db:5432'', pg_replica_pools = [], pg_router = sole_router, pg_health = None\<rparr>"

definition read_only_serving :: Serving where
  "read_only_serving =
     (example_serving read_only_document)\<lparr>sv_process := (example_process read_only_document)
        \<lparr>pr_family := new_family, pr_cancels := \<lparr>CancelRegistry.entries = [(1, 7) \<mapsto> None], next_id = 2\<rparr>\<rparr>,
      sv_pool := [Inr (example_backend example_replies)]\<rparr>"

definition read_only_policy :: ResolvedPolicy where
  "read_only_policy = \<lparr>rp_read_only = Some RoPool, rp_idle_in_transaction = 0, rp_session_limit = 0\<rparr>"

definition example_handle :: HolderHandle where
  "example_handle =
     \<lparr>hh_id = 1, hh_context = \<lparr>tc_pool = ''orders'', tc_user = ''alice'', tc_application = None, tc_client_addr = ''peer''\<rparr>,
      hh_mode = Transaction\<rparr>"

definition holding_env :: Relay_Env where
  "holding_env =
     \<lparr>policy = \<lparr>read_only = Some RoPool, idle_in_transaction = 0, cancel_scope = Some (1, 7)\<rparr>,
      pool_group = \<lparr>Txn.PoolGroup.pg_name = ''orders'', Txn.PoolGroup.pg_primary_label = ''db:5432''\<rparr>,
      holder = Some example_handle, digest = (\<lambda>_. []), io_text = (\<lambda>_. ''io''), clock = (\<lambda>_. 0), wall_ms = (\<lambda>_. 0)\<rparr>"

lemma read_only_session:
  "session_env example_serve_env serve_world example_pool_group read_only_policy (1, 7) example_handle = holding_env"
  "session_start serve_world example_pool_group Transaction (session_params read_only_policy []) read_only_serving
    = example_relay [Inr (example_backend example_replies)]"
  by (simp_all add: session_env_def holding_env_def example_serve_env_def serve_world_def example_pool_group_def
      read_only_policy_def example_handshake_env_def session_start_def session_params_def read_only_serving_def
      example_serving_def example_process_def example_relay_def from_startup_def)

lemma read_only_run:
  "\<exists>r co. relay_run holding_env Txn_Properties.example_events (example_relay [Inr (example_backend example_replies)]) = Some r
     \<and> Txn.held r = Some co"
proof -
  have "case relay_run holding_env Txn_Properties.example_events (example_relay [Inr (example_backend example_replies)]) of
      Some r \<Rightarrow> Txn.held r \<noteq> None | None \<Rightarrow> False" by code_simp
  then show ?thesis by (auto split: option.splits)
qed


subsection \<open>A client of session mode\<close>

definition session_document :: State where
  "session_document = default_state\<lparr>st_pools := [(''orders'', example_pool Session 6432 [])]\<rparr>"

definition example_identity :: ClientIdentity where
  "example_identity = \<lparr>ci_user = ''alice'', ci_pool = ''orders'', ci_application_name = None, ci_peer = ''peer''\<rparr>"

lemma quiet_exclusive_served:
  assumes "Handshake.Client.cl_faults (sv_client sv) = []" "\<not> multiplexes mode"
    and "sync_params (session_params rp sp) (co_backend co) = (Inr InStep, b)"
  shows "\<exists>sv' outcome. serve_relay E W i sp credential g rp mode h co sv = (sv', Inr outcome)"
proof -
  obtain key sv1 where k: "open_key (wo_secret W) sv = (key, sv1)" by (metis surj_pair)
  have "sv_client sv1 = sv_client sv" using k by (auto simp: open_key_def on_process_def split: prod.splits)
  with assms(1) obtain s where
    c: "complete_startup (en_handshake E) (pb_parameters (co_backend co)) (fst key) (snd key) (sv_client sv1) = (s, Inr ())"
    using complete_startup_quiet [of "sv_client sv1" "en_handshake E" "co_backend co" key] by simp
  obtain sv2 outcome where "serve_exclusive E W g (session_params rp sp) key h co (sv1\<lparr>sv_client := s\<rparr>) = (sv2, Inr outcome)"
    using assms(3) by (simp add: serve_exclusive_def Let_def)
  then show ?thesis using k c assms(2) by (simp add: serve_relay_def dropping_def Let_def)
qed


end
