(* ===== verification/Jdbc_Rewrite.thy ===== *)
theory Jdbc_Rewrite
  imports Registry Params
begin

text \<open>
  Placeholders of the JDBC bridge (\<open>havuz-jdbc/src/rewrite.rs\<close>): PostgreSQL numbers them,
  JDBC counts question marks. The rewriting walks over the bytes of the statement; its loop
  is over the bytes that are left, and an end index of the source is a length here. The
  results: on a statement put together from lexemes exactly the placeholders become question
  marks, and binding the values in the order the rewriting gives is binding them by number.
\<close>

section \<open>The rewriting\<close>

record Rewritten =
  rw_sql :: string
  rw_highest :: nat
  rw_order :: "nat list"

abbreviation QUOTE :: char where "QUOTE \<equiv> CHR 0x27"
abbreviation DQUOTE :: char where "DQUOTE \<equiv> CHR 0x22"
abbreviation NEWLINE :: char where "NEWLINE \<equiv> CHR 0x0A"

text \<open>The length of a quoted run after its first delimiter.\<close>

fun copy_quoted :: "char \<Rightarrow> string \<Rightarrow> nat" where
  "copy_quoted d [] = 0"
| "copy_quoted d [b] = 1"
| "copy_quoted d (b # c # bs) =
     (if b = d then if c = d then 2 + copy_quoted d bs else 1
      else 1 + copy_quoted d (c # bs))"

definition copy_line_comment :: "string \<Rightarrow> nat" where
  "copy_line_comment bs = 2 + length (takeWhile (\<lambda>b. b \<noteq> NEWLINE) (drop 2 bs))"

text \<open>The length of a block comment after its opening, inside \<open>depth\<close> comments.\<close>

fun copy_block_comment :: "nat \<Rightarrow> string \<Rightarrow> nat" where
  "copy_block_comment 0 bs = 0"
| "copy_block_comment (Suc depth) [] = 0"
| "copy_block_comment (Suc depth) [b] = 1"
| "copy_block_comment (Suc depth) (b # c # bs) =
     (if b = CHR ''/'' \<and> c = CHR ''*'' then 2 + copy_block_comment (Suc (Suc depth)) bs
      else if b = CHR ''*'' \<and> c = CHR ''/'' then 2 + copy_block_comment depth bs
      else 1 + copy_block_comment (Suc depth) (c # bs))"

definition tag_char :: "char \<Rightarrow> bool" where
  "tag_char b \<longleftrightarrow> is_ascii_alphanumeric b \<or> b = CHR ''_''"

definition dollar_quote :: "string \<Rightarrow> nat option" where
  "dollar_quote bs =
     (let word = takeWhile tag_char (tl bs); i = Suc (length word) in
      if word \<noteq> [] \<and> is_ascii_digit (hd word) then None
      else if length bs \<le> i \<or> bs ! i \<noteq> CHR ''$'' then None
      else let dtag = take (Suc i) bs in
        (case find_sub dtag (drop (Suc i) bs) of
           Some j \<Rightarrow> Some (Suc i + j + length dtag)
         | None \<Rightarrow> Some (length bs)))"

definition placeholder :: "string \<Rightarrow> (nat \<times> nat) option" where
  "placeholder bs =
     (let ds = takeWhile is_ascii_digit (tl bs) in
      if ds = [] then None
      else map_option (\<lambda>n. (nat n, Suc (length ds))) (parse_unsigned U16_MAX ds))"

definition ordinary :: "char \<Rightarrow> bool" where
  "ordinary b \<longleftrightarrow> b \<notin> {QUOTE, DQUOTE, CHR ''$'', CHR ''-'', CHR ''/''}"

definition push :: "string \<Rightarrow> Rewritten \<Rightarrow> Rewritten" where
  "push s rw = rw\<lparr>rw_sql := rw_sql rw @ s\<rparr>"

definition push_slot :: "nat \<Rightarrow> Rewritten \<Rightarrow> Rewritten" where
  "push_slot number rw =
     (let rw = push ''?'' rw in
      if number \<ge> 1 then rw\<lparr>rw_highest := max (rw_highest rw) number, rw_order := rw_order rw @ [number - 1]\<rparr> else rw)"

text \<open>What one turn of the loop appends, and how many bytes it takes.\<close>

definition rewrite_turn :: "string \<Rightarrow> Rewritten \<Rightarrow> Rewritten \<times> nat" where
  "rewrite_turn bs rw =
     (let b = hd bs; copied = (\<lambda>n. (push (take n bs) rw, n)) in
      if b = QUOTE \<or> b = DQUOTE then copied (Suc (copy_quoted b (tl bs)))
      else if b = CHR ''-'' \<and> take 1 (tl bs) = ''-'' then copied (copy_line_comment bs)
      else if b = CHR ''/'' \<and> take 1 (tl bs) = ''*'' then copied (2 + copy_block_comment 1 (drop 2 bs))
      else if b = CHR ''$'' then
        (case dollar_quote bs of
           Some n \<Rightarrow> copied n
         | None \<Rightarrow>
             (case placeholder bs of
                Some (number, n) \<Rightarrow> (push_slot number rw, n)
              | None \<Rightarrow> copied 1))
      else let run = length (takeWhile ordinary bs) in copied (if run = 0 then 1 else run))"

lemma dollar_quote_pos: "dollar_quote bs = Some n \<Longrightarrow> 0 < n"
  by (cases bs) (auto simp: dollar_quote_def Let_def split: if_splits option.splits)

lemma rewrite_turn_pos: "0 < snd (rewrite_turn bs rw)"
  by (auto simp: rewrite_turn_def Let_def copy_line_comment_def placeholder_def
      split: option.splits if_splits dest: dollar_quote_pos)

function rewrite_from :: "string \<Rightarrow> Rewritten \<Rightarrow> Rewritten" where
  "rewrite_from bs rw =
     (if bs = [] then rw
      else let (rw', n) = rewrite_turn bs rw in rewrite_from (drop n bs) rw')"
  by pat_completeness auto
termination
proof (relation "measure (\<lambda>(bs, _). length bs)")
  fix bs :: string and rw rw' p n
  assume "bs \<noteq> []" "p = rewrite_turn bs rw" "(rw', n) = p"
  then show "((drop n bs, rw'), bs, rw) \<in> measure (\<lambda>(bs, _). length bs)"
    using rewrite_turn_pos [of bs rw] by (cases "rewrite_turn bs rw") (auto simp: length_greater_0_conv [symmetric] simp del: length_greater_0_conv)
qed simp

declare rewrite_from.simps [simp del]

definition to_jdbc :: "string \<Rightarrow> Rewritten" where
  "to_jdbc sql = rewrite_from sql \<lparr>rw_sql = [], rw_highest = 0, rw_order = []\<rparr>"

section \<open>Statements as lexemes\<close>

text \<open>
  What a statement is made of: literals and quoted names, shown with their quotes doubled;
  comments; dollar-quoted text; placeholders; and any other character.
\<close>

datatype Lexeme =
  Quoted char string
  | LineComment string
  | BlockComment string
  | DollarText string string
  | Param nat
  | Plain char

definition double_delimiter :: "char \<Rightarrow> string \<Rightarrow> string" where
  "double_delimiter d s = concat (map (\<lambda>c. if c = d then [d, d] else [c]) s)"

fun show_lexeme :: "Lexeme \<Rightarrow> string" where
  "show_lexeme (Quoted d s) = [d] @ double_delimiter d s @ [d]"
| "show_lexeme (LineComment s) = ''--'' @ s @ [NEWLINE]"
| "show_lexeme (BlockComment s) = ''/*'' @ s @ ''*/''"
| "show_lexeme (DollarText t s) = ''$'' @ t @ ''$'' @ s @ ''$'' @ t @ ''$''"
| "show_lexeme (Param n) = ''$'' @ decimal n"
| "show_lexeme (Plain c) = [c]"

fun show_jdbc :: "Lexeme \<Rightarrow> string" where
  "show_jdbc (Param n) = ''?''"
| "show_jdbc l = show_lexeme l"

fun slot_of :: "Lexeme \<Rightarrow> nat option" where
  "slot_of (Param n) = Some n"
| "slot_of _ = None"

text \<open>
  When a lexeme is well formed and ends where it should, given the bytes after it: a quote
  is not doubled by what follows, a number not continued; the comments inside a block comment
  nest; a dollar quote is closed by its first tag.
\<close>

inductive comment_text :: "string \<Rightarrow> bool" where
  "comment_text []"
| "c \<notin> {CHR ''/'', CHR ''*''} \<Longrightarrow> comment_text s \<Longrightarrow> comment_text (c # s)"
| "c \<in> {CHR ''/'', CHR ''*''} \<Longrightarrow> d \<notin> {CHR ''/'', CHR ''*''} \<Longrightarrow> comment_text s \<Longrightarrow> comment_text (c # d # s)"
| "comment_text s \<Longrightarrow> comment_text t \<Longrightarrow> comment_text (''/*'' @ s @ ''*/'' @ t)"

fun lexeme_ok :: "Lexeme \<Rightarrow> string \<Rightarrow> bool" where
  "lexeme_ok (Quoted d s) rest = ((d = QUOTE \<or> d = DQUOTE) \<and> take 1 rest \<noteq> [d])"
| "lexeme_ok (LineComment s) rest = (NEWLINE \<notin> set s)"
| "lexeme_ok (BlockComment s) rest = comment_text s"
| "lexeme_ok (DollarText t s) rest =
     (list_all tag_char t \<and> (t \<noteq> [] \<longrightarrow> \<not> is_ascii_digit (hd t))
      \<and> find_sub (''$'' @ t @ ''$'') (s @ ''$'' @ t @ ''$'') = Some (length s))"
| "lexeme_ok (Param n) rest = (1 \<le> n \<and> n < 65536 \<and> (rest = [] \<or> \<not> is_ascii_digit (hd rest)))"
| "lexeme_ok (Plain c) rest =
     (c \<notin> {QUOTE, DQUOTE, CHR ''$''} \<and> (c = CHR ''-'' \<longrightarrow> take 1 rest \<noteq> ''-'') \<and> (c = CHR ''/'' \<longrightarrow> take 1 rest \<noteq> ''*''))"

fun lexemes_ok :: "Lexeme list \<Rightarrow> bool" where
  "lexemes_ok [] = True"
| "lexemes_ok (l # ls) = (lexeme_ok l (concat (map show_lexeme ls)) \<and> lexemes_ok ls)"

definition add_lexeme :: "Lexeme \<Rightarrow> Rewritten \<Rightarrow> Rewritten" where
  "add_lexeme l rw = (case slot_of l of Some n \<Rightarrow> push_slot n rw | None \<Rightarrow> push (show_lexeme l) rw)"

lemma copy_quoted_doubled:
  "take 1 rest \<noteq> [d] \<Longrightarrow> copy_quoted d (double_delimiter d s @ [d] @ rest) = length (double_delimiter d s) + 1"
proof (induction s)
  case Nil
  then show ?case by (cases rest) (auto simp: double_delimiter_def)
next
  case (Cons c s)
  obtain x xs where "double_delimiter d s @ [d] @ rest = x # xs" by (cases "double_delimiter d s @ [d] @ rest") auto
  with Cons show ?case by (simp add: double_delimiter_def)
qed

lemma copy_comment_text: "comment_text s \<Longrightarrow> copy_block_comment (Suc k) (s @ rest) = length s + copy_block_comment (Suc k) rest"
proof (induction s arbitrary: k rest rule: comment_text.induct)
  case (2 c s)
  with 2(3) [of k rest] show ?case by (cases "s @ rest") auto
next
  case (3 c d s)
  with 3(4) [of k rest] show ?case by (cases "s @ rest") auto
next
  case (4 s t)
  have "copy_block_comment (Suc (Suc k)) (s @ ''*/'' @ t @ rest) = length s + copy_block_comment (Suc (Suc k)) (''*/'' @ t @ rest)"
    by (rule 4(3))
  with 4(4) [of k rest] show ?case by simp
qed simp

lemma find_sub_append: "find_sub p s = Some k \<Longrightarrow> find_sub p (s @ rest) = Some k"
proof (induction p s arbitrary: k rule: find_sub.induct)
  case (1 p)
  then show ?case by (cases rest) (auto simp: starts_with_iff split: if_splits)
next
  case (2 p c s)
  show ?case
  proof (cases "starts_with p (c # s)")
    case True
    then have "starts_with p ((c # s) @ rest)" unfolding starts_with_iff by (metis append.assoc)
    with 2(2) True show ?thesis by simp
  next
    case False
    with 2 obtain j where j: "find_sub p s = Some j" "k = Suc j" by auto
    from find_sub_Some [OF this(1)] have "length p \<le> length (c # s)" by simp
    with False have "\<not> starts_with p ((c # s) @ rest)"
      unfolding starts_with_iff by (metis append_eq_append_conv_if append_take_drop_id)
    with 2(1) [OF False j(1)] j show ?thesis by simp
  qed
qed

lemma copy_dollar_text:
  assumes "lexeme_ok (DollarText t s) rest"
  shows "dollar_quote (show_lexeme (DollarText t s) @ rest) = Some (length (show_lexeme (DollarText t s)))"
proof -
  let ?d = "''$'' @ t @ ''$''"
  have "takeWhile tag_char (t @ CHR ''$'' # s @ ?d @ rest) = t"
    using assms by (simp add: takeWhile_append2 list_all_iff tag_char_def is_ascii_alphanumeric_def ascii_defs)
  moreover have "find_sub ?d ((s @ ?d) @ rest) = Some (length s)"
    using find_sub_append [of ?d "s @ ?d" "length s" rest] assms by simp
  ultimately show ?thesis using assms by (auto simp: dollar_quote_def Let_def nth_append)
qed

lemma copy_param:
  assumes "lexeme_ok (Param n) rest"
  shows "dollar_quote (show_lexeme (Param n) @ rest) = None"
    "placeholder (show_lexeme (Param n) @ rest) = Some (n, length (show_lexeme (Param n)))"
proof -
  note digits = decimal_digits [of n]
  then obtain x xs where n: "decimal n = x # xs" "is_ascii_digit x" by (cases "decimal n") auto
  then show "dollar_quote (show_lexeme (Param n) @ rest) = None"
    by (auto simp: dollar_quote_def Let_def tag_char_def is_ascii_alphanumeric_def)
  have "takeWhile is_ascii_digit (decimal n @ rest) = decimal n"
    using assms digits by (cases rest) (auto simp: takeWhile_append list_all_iff)
  with assms digits show "placeholder (show_lexeme (Param n) @ rest) = Some (n, length (show_lexeme (Param n)))"
    by (simp add: placeholder_def Let_def parse_unsigned_decimal U16_MAX_def)
qed

lemma ordinary_run:
  assumes "ordinary c"
  shows "rewrite_from (c # bs) rw = rewrite_from bs (push [c] rw)"
proof -
  have turn: "rewrite_turn (x # xs) r = (push (takeWhile ordinary (x # xs)) r, length (takeWhile ordinary (x # xs)))"
    if "ordinary x" for x xs r
    using that by (auto simp: rewrite_turn_def Let_def ordinary_def takeWhile_eq_take [symmetric])
  have *: "rewrite_from (x # xs) r = rewrite_from (dropWhile ordinary (x # xs)) (push (takeWhile ordinary (x # xs)) r)"
    if "ordinary x" for x xs r
    by (simp add: rewrite_from.simps [of "x # xs"] turn [OF that] dropWhile_eq_drop)
  show ?thesis
  proof (cases "bs \<noteq> [] \<and> ordinary (hd bs)")
    case True
    with assms * [of c bs rw] * [of "hd bs" "tl bs" "push [c] rw"] show ?thesis by (simp add: push_def)
  next
    case False
    then have "takeWhile ordinary bs = []" "dropWhile ordinary bs = bs" by (cases bs; simp)+
    with assms * [of c bs rw] show ?thesis by simp
  qed
qed

lemma rewrite_turn_copied:
  assumes "rewrite_turn (s @ rest) rw = (push s rw, length s)" "s \<noteq> []"
  shows "rewrite_from (s @ rest) rw = rewrite_from rest (push s rw)"
  using assms by (simp add: rewrite_from.simps [of "s @ rest"])

lemma rewrite_lexeme:
  assumes "lexeme_ok l rest"
  shows "rewrite_from (show_lexeme l @ rest) rw = rewrite_from rest (add_lexeme l rw)"
proof (cases l)
  case (Quoted d s)
  let ?s = "show_lexeme l"
  have "Suc (copy_quoted d (double_delimiter d s @ [d] @ rest)) = length ?s"
    using assms Quoted copy_quoted_doubled [of rest d s] by simp
  with assms Quoted have "rewrite_turn (?s @ rest) rw = (push ?s rw, length ?s)"
    by (auto simp: rewrite_turn_def Let_def)
  from rewrite_turn_copied [OF this] Quoted show ?thesis by (simp add: add_lexeme_def)
next
  case (LineComment s)
  let ?s = "''--'' @ s"
  have "takeWhile (\<lambda>b. b \<noteq> NEWLINE) (s @ NEWLINE # rest) = s" using assms LineComment by (auto simp: takeWhile_tail)
  then have "rewrite_turn (?s @ NEWLINE # rest) rw = (push ?s rw, length ?s)"
    by (simp add: rewrite_turn_def Let_def copy_line_comment_def)
  from rewrite_turn_copied [OF this] ordinary_run [of NEWLINE rest] LineComment show ?thesis
    by (simp add: add_lexeme_def push_def ordinary_def)
next
  case (BlockComment s)
  let ?s = "show_lexeme l"
  have "2 + copy_block_comment 1 (s @ ''*/'' @ rest) = length ?s"
    using assms BlockComment copy_comment_text [of s 0 "''*/'' @ rest"] by simp
  then have "rewrite_turn (?s @ rest) rw = (push ?s rw, length ?s)"
    using BlockComment by (auto simp: rewrite_turn_def Let_def)
  from rewrite_turn_copied [OF this] BlockComment show ?thesis by (simp add: add_lexeme_def)
next
  case (DollarText t s)
  let ?s = "show_lexeme l"
  have "dollar_quote (?s @ rest) = Some (length ?s)" using copy_dollar_text [of t s rest] assms DollarText by simp
  moreover have "hd (?s @ rest) = CHR ''$''" using DollarText by simp
  ultimately have "rewrite_turn (?s @ rest) rw = (push ?s rw, length ?s)"
    by (simp add: rewrite_turn_def Let_def del: show_lexeme.simps)
  from rewrite_turn_copied [OF this] DollarText show ?thesis by (simp add: add_lexeme_def)
next
  case (Param n)
  then have "rewrite_turn (show_lexeme l @ rest) rw = (push_slot n rw, length (show_lexeme l))"
    using copy_param [of n rest] assms by (simp add: rewrite_turn_def Let_def)
  moreover have "show_lexeme l @ rest \<noteq> []" using Param by simp
  ultimately show ?thesis unfolding rewrite_from.simps [of "show_lexeme l @ rest"] using Param by (simp add: add_lexeme_def)
next
  case (Plain c)
  show ?thesis
  proof (cases "ordinary c")
    case True
    with Plain ordinary_run show ?thesis by (simp add: add_lexeme_def)
  next
    case False
    with assms Plain have "rewrite_turn ([c] @ rest) rw = (push [c] rw, length [c])"
      by (auto simp: rewrite_turn_def Let_def ordinary_def)
    from rewrite_turn_copied [OF this] Plain show ?thesis by (simp add: add_lexeme_def)
  qed
qed

lemma rewrite_lexemes:
  "lexemes_ok ls \<Longrightarrow> rewrite_from (concat (map show_lexeme ls)) rw = fold add_lexeme ls rw"
  by (induction ls arbitrary: rw) (simp_all add: rewrite_lexeme, simp add: rewrite_from.simps)

definition slots :: "Lexeme list \<Rightarrow> nat list" where
  "slots ls = List.map_filter slot_of ls"

lemma fold_add_lexeme:
  assumes "\<forall>n \<in> set (slots ls). 1 \<le> n"
  shows "fold add_lexeme ls rw =
    \<lparr>rw_sql = rw_sql rw @ concat (map show_jdbc ls), rw_highest = fold max (slots ls) (rw_highest rw),
     rw_order = rw_order rw @ map (\<lambda>n. n - 1) (slots ls)\<rparr>"
  using assms
proof (induction ls arbitrary: rw)
  case (Cons l ls)
  then show ?case
    by (cases l) (auto simp: add_lexeme_def push_slot_def push_def slots_def Let_def max.commute map_filter_simps)
qed (simp add: slots_def map_filter_simps)

section \<open>Binding\<close>

text \<open>
  What the placeholders stand for: in PostgreSQL the value with their number; for JDBC the
  next of the values that were bound.
\<close>

fun bind_numbered :: "'v list \<Rightarrow> Lexeme list \<Rightarrow> (Lexeme \<times> 'v option) list" where
  "bind_numbered vs ls = map (\<lambda>l. (l, map_option (\<lambda>n. vs ! (n - 1)) (slot_of l))) ls"

fun bind_positional :: "'v list \<Rightarrow> Lexeme list \<Rightarrow> (Lexeme \<times> 'v option) list" where
  "bind_positional vs [] = []"
| "bind_positional vs (l # ls) =
     (if slot_of l = None then (l, None) # bind_positional vs ls
      else (l, Some (hd vs)) # bind_positional (tl vs) ls)"

lemma bind_positional_slots:
  "bind_positional (map (\<lambda>n. vs ! (n - 1)) (slots ls)) ls = bind_numbered vs ls"
  by (induction ls) (auto simp: slots_def map_filter_simps split: option.splits)


definition example_lexemes :: "Lexeme list" where
  "example_lexemes =
     [Param 2, Plain CHR '','', Quoted QUOTE (''$1'' @ [QUOTE]), Plain CHR '' '', DollarText ''t'' ''$1 $'',
      BlockComment ''$1'', LineComment ''$1'', Param 1, Plain CHR ''-'', Param 2]"


text \<open>
  The number 0 is not a placeholder of PostgreSQL, and the rewriting gives it no place in the
  order; but it puts a question mark for it all the same, so that the values after it are
  bound one too early and the last question mark gets none.
\<close>

lemma zero_placeholder_shifts_the_values:
  "to_jdbc ''$0,$1'' = \<lparr>rw_sql = ''?,?'', rw_highest = 1, rw_order = [0]\<rparr>"
  by code_simp

end
