(* ===== verification/Jdbc_Types.thy ===== *)
theory Jdbc_Types
  imports Rust_Str Wire
begin

text \<open>
  Types and command tags of the JDBC bridge (\<open>havuz-jdbc/src/types.rs\<close>): what a client is
  told a column is, how a value is written for it, and what a statement that ran is called.
\<close>

section \<open>Types\<close>

datatype Encoding = Verbatim | Boolean | Bytea

record PgType =
  pt_oid :: i32
  pt_size :: i16
  pt_encoding :: Encoding

definition pg_type_new :: "i32 \<Rightarrow> i16 \<Rightarrow> PgType" where
  "pg_type_new oid width = \<lparr>pt_oid = oid, pt_size = width, pt_encoding = Verbatim\<rparr>"

definition encode_value :: "PgType \<Rightarrow> string \<Rightarrow> string" where
  "encode_value t v =
     (case pt_encoding t of
        Verbatim \<Rightarrow> v
      | Boolean \<Rightarrow> if v = ''true'' then ''t'' else if v = ''false'' then ''f'' else v
      | Bytea \<Rightarrow> [CHR 0x5C] @ ''x'' @ v)"

definition BOOL :: PgType where "BOOL = \<lparr>pt_oid = 16, pt_size = 1, pt_encoding = Boolean\<rparr>"
definition BYTEA :: PgType where "BYTEA = \<lparr>pt_oid = 17, pt_size = - 1, pt_encoding = Bytea\<rparr>"
definition INT8 :: PgType where "INT8 = pg_type_new 20 8"
definition INT2 :: PgType where "INT2 = pg_type_new 21 2"
definition INT4 :: PgType where "INT4 = pg_type_new 23 4"
definition TEXT :: PgType where "TEXT = pg_type_new 25 (- 1)"
definition JSON :: PgType where "JSON = pg_type_new 114 (- 1)"
definition XML :: PgType where "XML = pg_type_new 142 (- 1)"
definition FLOAT4 :: PgType where "FLOAT4 = pg_type_new 700 4"
definition FLOAT8 :: PgType where "FLOAT8 = pg_type_new 701 8"
definition BPCHAR :: PgType where "BPCHAR = pg_type_new 1042 (- 1)"
definition VARCHAR :: PgType where "VARCHAR = pg_type_new 1043 (- 1)"
definition DATE :: PgType where "DATE = pg_type_new 1082 4"
definition TIME :: PgType where "TIME = pg_type_new 1083 8"
definition TIMESTAMP :: PgType where "TIMESTAMP = pg_type_new 1114 8"
definition TIMESTAMPTZ :: PgType where "TIMESTAMPTZ = pg_type_new 1184 8"
definition INTERVAL :: PgType where "INTERVAL = pg_type_new 1186 16"
definition TIMETZ :: PgType where "TIMETZ = pg_type_new 1266 12"
definition NUMERIC :: PgType where "NUMERIC = pg_type_new 1700 (- 1)"
definition UUID :: PgType where "UUID = pg_type_new 2950 16"
definition JSONB :: PgType where "JSONB = pg_type_new 3802 (- 1)"

lemmas pg_type_defs =
  BOOL_def BYTEA_def INT8_def INT2_def INT4_def TEXT_def JSON_def XML_def FLOAT4_def FLOAT8_def BPCHAR_def
  VARCHAR_def DATE_def TIME_def TIMESTAMP_def TIMESTAMPTZ_def INTERVAL_def TIMETZ_def NUMERIC_def UUID_def JSONB_def
  pg_type_new_def

definition by_name :: "string \<Rightarrow> PgType option" where
  "by_name type_name =
     map_of [(''bool'', BOOL), (''boolean'', BOOL), (''bytea'', BYTEA), (''int2'', INT2), (''smallint'', INT2),
       (''int4'', INT4), (''integer'', INT4), (''serial'', INT4), (''int8'', INT8), (''bigint'', INT8),
       (''bigserial'', INT8), (''float4'', FLOAT4), (''real'', FLOAT4), (''float8'', FLOAT8),
       (''double precision'', FLOAT8), (''numeric'', NUMERIC), (''decimal'', NUMERIC), (''json'', JSON),
       (''jsonb'', JSONB), (''uuid'', UUID), (''xml'', XML), (''date'', DATE), (''time'', TIME),
       (''timetz'', TIMETZ), (''time with time zone'', TIMETZ), (''timestamp'', TIMESTAMP),
       (''timestamp without time zone'', TIMESTAMP), (''timestamptz'', TIMESTAMPTZ),
       (''timestamp with time zone'', TIMESTAMPTZ), (''interval'', INTERVAL), (''varchar'', VARCHAR),
       (''character varying'', VARCHAR), (''bpchar'', BPCHAR), (''char'', BPCHAR), (''character'', BPCHAR),
       (''text'', TEXT), (''name'', TEXT)]
       (to_ascii_lowercase (trim type_name))"

text \<open>The codes of \<open>java.sql.Types\<close>, in the order of the match.\<close>

definition by_code :: "i32 \<Rightarrow> PgType" where
  "by_code c =
     (if c \<in> {16, - 7} then BOOL
      else if c \<in> {- 6, 5} then INT2
      else if c = 4 then INT4
      else if c = - 5 then INT8
      else if c = 7 then FLOAT4
      else if c \<in> {6, 8} then FLOAT8
      else if c \<in> {2, 3} then NUMERIC
      else if c = 91 then DATE
      else if c = 92 then TIME
      else if c = 2013 then TIMETZ
      else if c = 93 then TIMESTAMP
      else if c = 2014 then TIMESTAMPTZ
      else if c \<in> {- 2, - 3, - 4, 2004} then BYTEA
      else if c = 2009 then XML
      else TEXT)"

definition discards_information :: "PgType \<Rightarrow> PgType \<Rightarrow> bool" where
  "discards_information named coded \<longleftrightarrow>
     pt_oid named = pt_oid DATE \<and> (pt_oid coded = pt_oid TIMESTAMP \<or> pt_oid coded = pt_oid TIMESTAMPTZ)
     \<or> pt_oid named = pt_oid TIME \<and> pt_oid coded = pt_oid TIMESTAMP"

definition pg_type :: "i32 \<Rightarrow> string \<Rightarrow> PgType" where
  "pg_type jdbc_type type_name =
     (let coded = by_code jdbc_type in
      case by_name type_name of
        None \<Rightarrow> coded
      | Some named \<Rightarrow> if discards_information named coded then coded else named)"

section \<open>Command tags\<close>

text \<open>The bytes before the first character that is white space or among \<open>stops\<close>.\<close>

fun before_ws :: "string \<Rightarrow> string \<Rightarrow> string" where
  "before_ws stops [] = []"
| "before_ws stops (c # s) = (if ws_len (c # s) > 0 \<or> c \<in> set stops then [] else c # before_ws stops s)"

definition leading_word :: "string \<Rightarrow> string" where
  "leading_word sql = before_ws ''(;'' (trim_start sql)"

text \<open>\<open>split_once(char::is_whitespace)\<close>, keeping the second part; without white space it is empty.\<close>

definition after_first_word :: "string \<Rightarrow> string" where
  "after_first_word s =
     (let t = trim_start s; r = drop (length (before_ws [] t)) t in drop (ws_len r) r)"

definition MODIFIERS :: "string list" where
  "MODIFIERS =
     [''TEMP'', ''TEMPORARY'', ''UNLOGGED'', ''GLOBAL'', ''LOCAL'', ''OR'', ''REPLACE'', ''IF'', ''NOT'', ''EXISTS'',
      ''MATERIALIZED'', ''RECURSIVE'', ''UNIQUE'', ''CONCURRENTLY'']"

lemma after_first_word_shorter: "leading_word s \<noteq> [] \<Longrightarrow> length (after_first_word s) < length s"
proof -
  assume a: "leading_word s \<noteq> []"
  then obtain c t where t: "trim_start s = c # t" by (cases "trim_start s") (auto simp: leading_word_def)
  with a have "before_ws [] (c # t) \<noteq> []" by (auto simp: leading_word_def split: if_splits)
  with t length_trim_start [of s] show ?thesis
    by (cases "before_ws [] (c # t)") (auto simp: after_first_word_def Let_def)
qed

function two_word_loop :: "string \<Rightarrow> string \<Rightarrow> string" where
  "two_word_loop verb rest =
     (let word = to_ascii_uppercase (leading_word rest) in
      if word = [] then verb
      else if word \<notin> set MODIFIERS then verb @ '' '' @ word
      else two_word_loop verb (after_first_word rest))"
  by pat_completeness auto
termination
  by (relation "measure (\<lambda>(_, rest). length rest)") (auto simp: after_first_word_shorter)

declare two_word_loop.simps [simp del]

definition two_word_tag :: "string \<Rightarrow> string \<Rightarrow> string" where
  "two_word_tag sql verb =
     (if verb \<notin> {''CREATE'', ''DROP'', ''ALTER''} then verb
      else two_word_loop verb (after_first_word sql))"

text \<open>\<open>update_count\<close> is an \<open>i64\<close>; a negative one says that there is none.\<close>

definition command_tag :: "string \<Rightarrow> nat \<Rightarrow> int \<Rightarrow> string" where
  "command_tag sql rows update_count =
     (let verb = to_ascii_uppercase (leading_word sql);
          affected = (if update_count \<ge> 0 then nat update_count else rows) in
      if verb \<in> {''SELECT'', ''FETCH''} then ''SELECT '' @ decimal rows
      else if verb = ''INSERT'' then ''INSERT 0 '' @ decimal affected
      else if verb \<in> {''UPDATE'', ''DELETE'', ''MERGE'', ''MOVE'', ''COPY''} then verb @ '' '' @ decimal affected
      else if verb = ''WITH'' then ''SELECT '' @ decimal rows
      else if verb = [] then ''SELECT 0''
      else two_word_tag sql verb)"

section \<open>What is kept\<close>

text \<open>A column the driver calls a timestamp is never announced as a date, whatever its type's name.\<close>

lemma timestamps_keep_their_time:
  assumes "by_code c \<in> {TIMESTAMP, TIMESTAMPTZ}"
  shows "pg_type c name \<noteq> DATE"
  using assms by (auto simp: pg_type_def Let_def discards_information_def pg_type_defs split: option.splits)

text \<open>
  A timestamp without time zone is not announced as a bare time either; one with a time zone
  is, and loses its date.
\<close>

lemma zoned_timestamp_can_lose_its_date:
  "pg_type 93 ''time'' = TIMESTAMP" "pg_type 2014 ''time'' = TIME"
  by code_simp+

text \<open>
  The words between the verb and the kind of object do not show in the tag: \<open>CREATE\<close> with
  any modifiers, in any case, is tagged by the kind that follows them.
\<close>

definition plain_word :: "string \<Rightarrow> bool" where
  "plain_word w \<longleftrightarrow> w \<noteq> [] \<and> list_all (\<lambda>c. is_ascii_alphabetic c) w"

lemma ws_len_ascii: "\<not> ws1 (byte c) \<Longrightarrow> byte c < 128 \<Longrightarrow> ws_len (c # s) = 0"
  by (auto simp: ws2_def ws3_def split: list.splits)

lemma alphabetic_ws: "is_ascii_alphabetic c \<Longrightarrow> ws_len (c # s) = 0"
  by (intro ws_len_ascii) (auto simp: ascii_defs ws1_def)

lemma plain_word_trim: "plain_word w \<Longrightarrow> trim_start (w @ s) = w @ s"
  by (cases w) (auto simp: plain_word_def simp del: ws_len.simps intro!: trim_start_id alphabetic_ws)

lemma before_ws_word:
  assumes "plain_word w" "set stops \<inter> Collect is_ascii_alphabetic = {}" "s = [] \<or> hd s = CHR '' '' \<or> hd s \<in> set stops"
  shows "before_ws stops (w @ s) = w"
proof -
  have "list_all is_ascii_alphabetic w \<Longrightarrow> before_ws stops (w @ s) = w"
  proof (induction w)
    case Nil
    with assms(3) show ?case by (cases s) (auto simp: ws1_def)
  next
    case (Cons c w)
    with alphabetic_ws [of c "w @ s"] assms(2) show ?case by (auto simp del: ws_len.simps)
  qed
  with assms(1) show ?thesis by (simp add: plain_word_def)
qed

lemma word_then_space:
  assumes "plain_word w"
  shows "leading_word (w @ CHR '' '' # s) = w" "after_first_word (w @ CHR '' '' # s) = s"
proof -
  have "is_ascii_alphabetic CHR ''('' = False" "is_ascii_alphabetic CHR '';'' = False" by (simp_all add: ascii_defs)
  with assms show "leading_word (w @ CHR '' '' # s) = w" "after_first_word (w @ CHR '' '' # s) = s"
    by (auto simp: leading_word_def after_first_word_def Let_def plain_word_trim before_ws_word ws1_def)
qed

theorem modifiers_do_not_show:
  assumes "plain_word verb" "to_ascii_uppercase verb \<in> {''CREATE'', ''DROP'', ''ALTER''}"
    and "\<forall>w \<in> set ws. plain_word w \<and> to_ascii_uppercase w \<in> set MODIFIERS"
    and "plain_word kind" "to_ascii_uppercase kind \<notin> set MODIFIERS"
  shows "command_tag (concat (map (\<lambda>w. w @ '' '') (verb # ws @ [kind])) @ s) rows n
    = to_ascii_uppercase verb @ '' '' @ to_ascii_uppercase kind"
proof -
  have "two_word_loop v (concat (map (\<lambda>w. w @ '' '') (ws @ [kind])) @ s) = v @ '' '' @ to_ascii_uppercase kind" for v
    using assms(3)
  proof (induction ws)
    case Nil
    with assms(4,5) show ?case
      by (simp add: two_word_loop.simps word_then_space Let_def) (auto simp: plain_word_def to_ascii_uppercase_def)
  next
    case (Cons w ws)
    then have "plain_word w" "to_ascii_uppercase w \<noteq> []" "to_ascii_uppercase w \<in> set MODIFIERS"
      by (auto simp: plain_word_def to_ascii_uppercase_def)
    with Cons show ?case
      by (simp add: two_word_loop.simps [of _ "w @ CHR '' '' # u" for u] word_then_space Let_def)
  qed
  with assms(1,2) show ?thesis by (auto simp: command_tag_def two_word_tag_def word_then_space Let_def plain_word_def)
qed

end
