(* ===== verification/Jdbc_Agent.thy ===== *)
theory Jdbc_Agent
  imports Registry Proto
begin

text \<open>
  The Java sidecar of the JDBC bridge (\<open>havuz-jdbc/src/agent.rs\<close>): requests go out with a
  number, answers come back in any order and are matched by it. What happens to the process
  (a line on its output, its end, a line on its error stream) and to a caller (its write
  fails, its time runs out) is a list of events; parsing a line is not modelled, an event
  carries what the line parsed to. The result: a request is answered at most once, and what
  it is answered with is what the agent sent under its number.
\<close>

section \<open>JSON values\<close>

datatype Value =
  VNull
  | VBool bool
  | VInt int
  | VFloat string
  | VString string
  | VArray "Value list"
  | VObject "(string \<times> Value) list"

fun json_get :: "string \<Rightarrow> Value \<Rightarrow> Value option" where
  "json_get k (VObject kvs) = map_of kvs k"
| "json_get k _ = None"

fun as_str :: "Value \<Rightarrow> string option" where
  "as_str (VString s) = Some s"
| "as_str _ = None"

fun as_bool :: "Value \<Rightarrow> bool option" where
  "as_bool (VBool b) = Some b"
| "as_bool _ = None"

fun as_array :: "Value \<Rightarrow> Value list option" where
  "as_array (VArray vs) = Some vs"
| "as_array _ = None"

fun as_i64 :: "Value \<Rightarrow> int option" where
  "as_i64 (VInt n) = (if - 9223372036854775808 \<le> n \<and> n < 9223372036854775808 then Some n else None)"
| "as_i64 _ = None"

fun as_u64 :: "Value \<Rightarrow> u64 option" where
  "as_u64 (VInt n) = (if 0 \<le> n \<and> n < 18446744073709551616 then Some (word_of_int n) else None)"
| "as_u64 _ = None"

section \<open>Errors\<close>

datatype AgentError =
  Database "string option" string
  | Gone string
  | TimedOut duration
  | Transport string
  | Exhausted string

text \<open>The duration is shown with \<open>{:?}\<close>; the two that occur are whole seconds.\<close>

fun agent_error_text :: "AgentError \<Rightarrow> string" where
  "agent_error_text (Database _ m) = m"
| "agent_error_text (Gone r) = ''the JDBC agent is gone: '' @ r"
| "agent_error_text (TimedOut d) = ''the JDBC agent did not answer within '' @ decimal (d div 1000000000) @ ''s''"
| "agent_error_text (Transport e) = ''cannot talk to the JDBC agent: '' @ e"
| "agent_error_text (Exhausted e) = e"

fun sql_state :: "AgentError \<Rightarrow> string" where
  "sql_state (Database st _) = (case st of Some s \<Rightarrow> if length s = 5 then s else ''XX000'' | None \<Rightarrow> ''XX000'')"
| "sql_state (TimedOut _) = ''57014''"
| "sql_state (Exhausted _) = ''53300''"
| "sql_state _ = ''08006''"

fun agent_proto_error :: "AgentError \<Rightarrow> ProtoError" where
  "agent_proto_error (Database _ m) = PBackend m"
| "agent_proto_error e = PBackend (agent_error_text e)"

definition PROTOCOL :: int where "PROTOCOL = 1"
definition STARTUP_TIMEOUT :: duration where "STARTUP_TIMEOUT = 30 * 1000000000"
definition REQUEST_TIMEOUT :: duration where "REQUEST_TIMEOUT = 300 * 1000000000"
definition STDERR_LINES :: nat where "STDERR_LINES = 20"

section \<open>Answers\<close>

fun strip_first :: "string list \<Rightarrow> string \<Rightarrow> string" where
  "strip_first [] m = m"
| "strip_first (p # ps) m = (case strip_prefix p m of Some rest \<Rightarrow> trim_start rest | None \<Rightarrow> strip_first ps m)"

definition strip_severity :: "string \<Rightarrow> string" where
  "strip_severity m = strip_first [''ERROR: '', ''FATAL: '', ''PANIC: '', ''WARNING: ''] m"

definition outcome :: "(string \<times> Value) list \<Rightarrow> AgentError + Value" where
  "outcome doc =
     (case map_of doc ''error'' of
        Some (VObject e) \<Rightarrow>
          Inl (Database (Option.bind (map_of e ''sqlState'') as_str)
            (strip_severity (case Option.bind (map_of e ''message'') as_str of
               Some m \<Rightarrow> m | None \<Rightarrow> ''the JDBC agent reported an error with no message'')))
      | _ \<Rightarrow> Inr (case map_of doc ''result'' of Some r \<Rightarrow> r | None \<Rightarrow> VObject []))"

section \<open>The agent\<close>

record Agent =
  ag_next_id :: u64
  ag_pending :: "u64 list"
  ag_dead :: "string option"
  ag_stderr :: "string list"
  ag_answers :: "(u64 \<times> (AgentError + Value)) list"     \<comment> \<open>what the callers got, by request\<close>

definition new_agent :: "string list \<Rightarrow> Agent" where
  "new_agent errs = \<lparr>ag_next_id = 1, ag_pending = [], ag_dead = None, ag_stderr = errs, ag_answers = []\<rparr>"

definition with_stderr :: "string \<Rightarrow> string list \<Rightarrow> string" where
  "with_stderr m ls = (if ls = [] then m else m @ '': '' @ join '' | '' ls)"

definition answer :: "u64 \<Rightarrow> AgentError + Value \<Rightarrow> Agent \<Rightarrow> Agent" where
  "answer i r a = a\<lparr>ag_pending := removeAll i (ag_pending a), ag_answers := ag_answers a @ [(i, r)]\<rparr>"

text \<open>
  \<open>call\<close> up to the wait: a number, an entry in the waiting map, and the request line, whose
  write may fail. The number is \<open>None\<close> when the agent is known to be gone.
\<close>

definition call_begin :: "string option \<Rightarrow> Agent \<Rightarrow> Agent \<times> u64 option" where
  "call_begin fault a =
     (case ag_dead a of
        Some why \<Rightarrow> (a, None)
      | None \<Rightarrow>
          let i = ag_next_id a; a = a\<lparr>ag_next_id := i + 1, ag_pending := i # removeAll i (ag_pending a)\<rparr> in
          (case fault of
             Some e \<Rightarrow> (answer i (Inl (Transport (with_stderr e (ag_stderr a)))) a, Some i)
           | None \<Rightarrow> (a, Some i)))"

definition call_timeout :: "u64 \<Rightarrow> Agent \<Rightarrow> Agent" where
  "call_timeout i a = (if i \<in> set (ag_pending a) then answer i (Inl (TimedOut REQUEST_TIMEOUT)) a else a)"

definition dispatch :: "Value option \<Rightarrow> Agent \<Rightarrow> Agent" where
  "dispatch line a =
     (case line of
        Some (VObject doc) \<Rightarrow>
          (case Option.bind (map_of doc ''id'') as_u64 of
             None \<Rightarrow> a
           | Some i \<Rightarrow> if i \<in> set (ag_pending a) then answer i (outcome doc) a else a)
      | _ \<Rightarrow> a)"

definition output_closed :: "Agent \<Rightarrow> Agent" where
  "output_closed a =
     (let why = with_stderr ''the JDBC agent exited'' (ag_stderr a) in
      a\<lparr>ag_dead := Some why, ag_pending := [],
        ag_answers := ag_answers a @ map (\<lambda>i. (i, Inl (Gone why))) (ag_pending a)\<rparr>)"

definition stderr_line :: "string \<Rightarrow> Agent \<Rightarrow> Agent" where
  "stderr_line l a =
     a\<lparr>ag_stderr := (if length (ag_stderr a) = STDERR_LINES then tl (ag_stderr a) else ag_stderr a) @ [l]\<rparr>"

text \<open>Waiting for the line that announces the agent; other output is skipped.\<close>

fun read_ready :: "(string + Value option) list \<Rightarrow> string + int" where
  "read_ready [] = Inl ''the agent exited before it was ready''"
| "read_ready (Inl e # _) = Inl e"
| "read_ready (Inr (Some (VObject doc)) # ls) =
     (if Option.bind (map_of doc ''ready'') as_bool = Some True
      then Inr (case Option.bind (map_of doc ''protocol'') as_i64 of Some n \<Rightarrow> n | None \<Rightarrow> 0)
      else read_ready ls)"
| "read_ready (Inr _ # ls) = read_ready ls"

text \<open>
  \<open>start\<close> up to the handshake: the process may not start, and its announcement may take too
  long (\<open>None\<close>), not come, or name another protocol.
\<close>

definition start_agent :: "string \<Rightarrow> string option \<Rightarrow> string list \<Rightarrow> (string + Value option) list option \<Rightarrow> AgentError + Agent" where
  "start_agent java spawn_error errs ls =
     (case (spawn_error, ls) of
        (Some e, _) \<Rightarrow> Inl (Transport (''cannot start '' @ [CHR 0x27] @ java @ [CHR 0x27] @ '': '' @ e
          @ ''; the JDBC bridge needs a Java runtime on PATH''))
      | (None, None) \<Rightarrow> Inl (TimedOut STARTUP_TIMEOUT)
      | (None, Some ls) \<Rightarrow>
          (case read_ready ls of
             Inl e \<Rightarrow> Inl (Transport (with_stderr e errs))
           | Inr ready \<Rightarrow>
               if ready \<noteq> PROTOCOL then Inl (Transport (''agent speaks protocol '' @ int_text ready @
                 '', this build speaks '' @ int_text PROTOCOL @ ''; rebuild agent/build.sh''))
               else Inr (new_agent errs)))"

datatype AgentOp = Call "string option" | CallTimeout u64 | Line "Value option" | OutputClosed | StderrLine string

fun agent_act :: "Agent \<Rightarrow> AgentOp \<Rightarrow> Agent" where
  "agent_act a (Call fault) = fst (call_begin fault a)"
| "agent_act a (CallTimeout i) = call_timeout i a"
| "agent_act a (Line l) = dispatch l a"
| "agent_act a OutputClosed = output_closed a"
| "agent_act a (StderrLine l) = stderr_line l a"

section \<open>One answer each, and the right one\<close>

definition calls :: "AgentOp list \<Rightarrow> nat" where
  "calls ops = length (filter (\<lambda>x. case x of Call _ \<Rightarrow> True | _ \<Rightarrow> False) ops)"

definition sent_back :: "AgentOp list \<Rightarrow> u64 \<Rightarrow> AgentError + Value \<Rightarrow> bool" where
  "sent_back ops i r \<longleftrightarrow> (\<exists>doc. Line (Some (VObject doc)) \<in> set ops
     \<and> Option.bind (map_of doc ''id'') as_u64 = Some i \<and> outcome doc = r)"

definition local_failure :: "AgentError + Value \<Rightarrow> bool" where
  "local_failure r = (case r of
      Inl (Gone _) \<Rightarrow> True | Inl (TimedOut _) \<Rightarrow> True | Inl (Transport _) \<Rightarrow> True | _ \<Rightarrow> False)"

text \<open>Numbers below the next one were given out; each is waiting or answered, never both, never twice.\<close>

definition agent_ok :: "AgentOp list \<Rightarrow> Agent \<Rightarrow> bool" where
  "agent_ok ops a \<longleftrightarrow>
     unat (ag_next_id a) \<le> Suc (calls ops)
     \<and> distinct (ag_pending a @ map fst (ag_answers a))
     \<and> (\<forall>i \<in> set (ag_pending a) \<union> fst ` set (ag_answers a). i < ag_next_id a)
     \<and> (\<forall>(i, r) \<in> set (ag_answers a). sent_back ops i r \<or> local_failure r)"

lemma answer_ok:
  assumes "agent_ok ops a" "i \<in> set (ag_pending a)" "sent_back ops i r \<or> local_failure r"
  shows "agent_ok ops (answer i r a)"
  using assms by (auto simp: agent_ok_def answer_def distinct_removeAll)

lemma agent_ok_mono: "agent_ok ops a \<Longrightarrow> agent_ok (ops @ [x]) a"
  by (fastforce simp: agent_ok_def calls_def sent_back_def)

lemma agent_act_ok:
  assumes "agent_ok ops a" "Suc (calls (ops @ [x])) < 2 ^ 64"
  shows "agent_ok (ops @ [x]) (agent_act a x)"
proof (cases x)
  case (Call fault)
  show ?thesis
  proof (cases "ag_dead a")
    case None
    let ?i = "ag_next_id a" let ?a = "a\<lparr>ag_next_id := ?i + 1, ag_pending := ?i # removeAll ?i (ag_pending a)\<rparr>"
    have small: "unat ?i < 2 ^ 64 - 1" using assms Call by (simp add: agent_ok_def calls_def)
    then have up: "unat (?i + 1) = Suc (unat ?i)" by (simp add: unat_word_ariths)
    have below: "j < ?i + 1" if "j \<le> ?i" for j using that up by (simp add: word_less_nat_alt word_le_nat_alt)
    have ok: "agent_ok (ops @ [x]) ?a"
    proof -
      from assms(1) have old: "distinct (ag_pending a @ map fst (ag_answers a))"
        "\<And>j. j \<in> set (ag_pending a) \<union> fst ` set (ag_answers a) \<Longrightarrow> j < ?i" by (auto simp: agent_ok_def)
      then have fresh: "?i \<notin> set (ag_pending a)" "?i \<notin> fst ` set (ag_answers a)" by blast+
      from agent_ok_mono [OF assms(1), of x] show ?thesis
        using old fresh below [OF order_less_imp_le [OF old(2)]] below [of ?i] up assms(1) Call
        by (simp add: agent_ok_def calls_def removeAll_id)
    qed
    show ?thesis
    proof (cases fault)
      case (Some e)
      have "agent_ok (ops @ [x]) (answer ?i (Inl (Transport (with_stderr e (ag_stderr a)))) ?a)"
        using answer_ok [OF ok] by (simp add: local_failure_def)
      with Some None Call show ?thesis by (simp add: call_begin_def Let_def)
    qed (use ok None Call in \<open>simp add: call_begin_def Let_def\<close>)
  next
    case (Some r)
    with Call assms(1) show ?thesis by (simp add: call_begin_def agent_ok_mono)
  qed
next
  case (CallTimeout i)
  with agent_ok_mono [OF assms(1), of x] show ?thesis by (simp add: call_timeout_def answer_ok local_failure_def)
next
  case (Line l)
  with agent_ok_mono [OF assms(1), of x] show ?thesis
    by (auto simp: dispatch_def sent_back_def intro!: answer_ok split: option.splits Value.splits)
next
  case OutputClosed
  with assms(1) show ?thesis
    by (fastforce simp: agent_ok_def output_closed_def Let_def calls_def sent_back_def local_failure_def comp_def)
next
  case (StderrLine l)
  with agent_ok_mono [OF assms(1), of x] show ?thesis by (simp add: stderr_line_def agent_ok_def)
qed

lemma agent_run_ok: "Suc (calls ops) < 2 ^ 64 \<Longrightarrow> agent_ok ops (foldl agent_act (new_agent errs) ops)"
proof (induction ops rule: rev_induct)
  case Nil
  then show ?case by (simp add: agent_ok_def new_agent_def)
next
  case (snoc x ops)
  then have "Suc (calls ops) < 2 ^ 64" by (simp add: calls_def split: if_splits)
  with snoc show ?case by (simp add: agent_act_ok)
qed

text \<open>
  However the agent answers, in whatever order, twice, late, under numbers nobody asked
  with, or not at all: in any history of fewer than \<open>2^64\<close> requests a request is answered at
  most once, a value reaches a caller only if the agent sent it under the number of that very
  request, and so does an error of the database. When the agent's output ends, everybody who
  is still waiting is told.
\<close>

theorem answers_reach_their_request:
  assumes "a = foldl agent_act (new_agent errs) ops" "Suc (calls ops) < 2 ^ 64"
  shows "distinct (map fst (ag_answers a)) \<and> set (ag_pending a) \<inter> fst ` set (ag_answers a) = {}
    \<and> (\<forall>i v. (i, Inr v) \<in> set (ag_answers a) \<longrightarrow> sent_back ops i (Inr v))
    \<and> (\<forall>i st m. (i, Inl (Database st m)) \<in> set (ag_answers a) \<longrightarrow> sent_back ops i (Inl (Database st m)))
    \<and> ag_pending (output_closed a) = []
    \<and> set (ag_pending a) \<subseteq> fst ` set (ag_answers (output_closed a))"
proof -
  from agent_run_ok [OF assms(2)] have "agent_ok ops a" by (simp add: assms(1))
  then have parts: "distinct (ag_pending a @ map fst (ag_answers a))"
    and sent: "\<And>i r. (i, r) \<in> set (ag_answers a) \<Longrightarrow> sent_back ops i r \<or> local_failure r" by (auto simp: agent_ok_def)
  from parts have "distinct (map fst (ag_answers a))" "set (ag_pending a) \<inter> fst ` set (ag_answers a) = {}" by auto
  moreover have "sent_back ops i r" if "(i, r) \<in> set (ag_answers a)" "\<not> local_failure r" for i r
    using sent [OF that(1)] that(2) by blast
  moreover have "ag_pending (output_closed a) = []" "set (ag_pending a) \<subseteq> fst ` set (ag_answers (output_closed a))"
    by (auto simp: output_closed_def Let_def image_Un image_image)
  ultimately show ?thesis by (simp add: local_failure_def)
qed

definition example_answer :: "int \<Rightarrow> string \<Rightarrow> Value option" where
  "example_answer i v = Some (VObject [(''id'', VInt i), (''result'', VString v)])"

lemma answers_reach_their_request_witness:
  "sent_back [Call None, Call None, Line (example_answer 2 ''b''), Line (example_answer 2 ''c''), Line (example_answer 1 ''a'')]
     2 (Inr (VString ''b''))
   \<and> ag_answers (foldl agent_act (new_agent [])
       [Call None, Call None, Line (example_answer 2 ''b''), Line (example_answer 2 ''c''), Line (example_answer 1 ''a'')])
     = [(2, Inr (VString ''b'')), (1, Inr (VString ''a''))]"
proof -
  let ?ops = "[Call None, Call None, Line (example_answer 2 ''b''), Line (example_answer 2 ''c''), Line (example_answer 1 ''a'')]"
  have "ag_answers (foldl agent_act (new_agent []) ?ops) = [(2, Inr (VString ''b'')), (1, Inr (VString ''a''))]"
    by (simp add: new_agent_def call_begin_def dispatch_def answer_def outcome_def example_answer_def)
  with answers_reach_their_request [OF refl, of ?ops "[]"] show ?thesis by (simp add: calls_def)
qed

end
