(* ===== verification/Jdbc_Session.thy ===== *)
theory Jdbc_Session
  imports Txn Session_Rules Jdbc_Rewrite Jdbc_Types Jdbc_Agent
begin

text \<open>
  A client of the JDBC bridge (\<open>havuz-jdbc/src/session.rs\<close>): both query protocols of
  PostgreSQL answered from what the agent reports, on a connection that is borrowed while
  there is work and given back between transactions. The client is what the select at the
  head of the loop sees, the agent and the pool are lists of their answers, and a log keeps
  what was done with the connections. The results are about what is given back, when, and
  what the client is told.
\<close>

section \<open>State\<close>

record Prepared =
  pr_rewritten :: Rewritten
  pr_original :: string
  pr_columns :: "FieldDescription list"
  pr_params :: nat

record Portal =
  po_statement :: string
  po_values :: "Value list"

record JdbcCheckout =
  jc_handle :: string
  jc_poisoned :: bool

text \<open>What was done with the connections: borrowed, asked for something with this reply, given back.\<close>

datatype Deed =
  Borrowed string
  | Asked string string "Value list" "AgentError + Value"          \<comment> \<open>method, SQL, parameters\<close>
  | GaveBack JdbcCheckout

record Session =
  j_held :: "JdbcCheckout option"
  j_handle :: string
  j_flow :: SessionState
  j_statements :: "string \<Rightarrow> Prepared option"
  j_portals :: "string \<Rightarrow> Portal option"
  j_failed :: bool
  j_exchanges :: u64
  j_rows :: u64
  j_holders :: HolderRegistry
  j_client :: Client
  j_replies :: "(AgentError + Value) list"
  j_acquires :: "(PoolError + string) list"
  j_log :: "Deed list"
  j_ticks :: nat

record Session_Env =
  e_rules :: SessionRules
  e_idle_in_transaction :: duration
  e_holder :: HolderHandle
  e_target :: string
  e_io_text :: "ErrorKind \<Rightarrow> string"
  e_clock :: "nat \<Rightarrow> time"
  e_wall_ms :: "nat \<Rightarrow> int"

type_synonym 'a run = "Session \<times> (ProtoError + 'a)"
type_synonym 'a agent_run = "Session \<times> (AgentError + 'a)"

section \<open>The client's socket\<close>

definition j_send :: "Message \<Rightarrow> Session \<Rightarrow> unit run" where
  "j_send m s =
     (case write_client m (j_client s) of
        (Some e, c) \<Rightarrow> (s\<lparr>j_client := c\<rparr>, Inl (PProtocol (protocol_text e Io)))
      | (None, c) \<Rightarrow>
          (case flush_client c of
             (Some e, c) \<Rightarrow> (s\<lparr>j_client := c\<rparr>, Inl (PProtocol (protocol_text e Io)))
           | (None, c) \<Rightarrow> (s\<lparr>j_client := c\<rparr>, Inr ())))"

definition j_tell :: "Message \<Rightarrow> Session \<Rightarrow> Session" where
  "j_tell m s = fst (j_send m s)"

section \<open>Holding a backend\<close>

definition report_holder :: "Session_Env \<Rightarrow> Session \<Rightarrow> Session" where
  "report_holder E s =
     (let t = e_clock E (j_ticks s); ms = e_wall_ms E (j_ticks s); h = e_holder E; reg = j_holders s in
      s\<lparr>j_ticks := Suc (j_ticks s), j_holders :=
        (if j_held s = None then holder_clear (hh_id h) reg
         else case ss_pin (j_flow s) of
            Some pin \<Rightarrow> pinned_holder t ms h pin (e_target E) None reg
          | None \<Rightarrow>
              if ss_in_transaction (j_flow s) then idle_in_transaction_holder t ms h (e_target E) None reg
              else session_reserved t ms h (e_target E) None reg)\<rparr>)"

definition deed :: "Deed \<Rightarrow> Session \<Rightarrow> Session" where
  "deed d s = s\<lparr>j_log := j_log s @ [d]\<rparr>"

definition flow_event :: "FlowEvent \<Rightarrow> Session \<Rightarrow> Session" where
  "flow_event ev s = s\<lparr>j_flow := observe (j_flow s) ev\<rparr>"

definition release_if_idle :: "Session_Env \<Rightarrow> Session \<Rightarrow> Session" where
  "release_if_idle E s =
     (if \<not> is_releasable (j_flow s) then report_holder E s
      else
        let s = (case j_held s of
            None \<Rightarrow> s
          | Some co \<Rightarrow> deed (GaveBack co) (s\<lparr>j_held := None, j_handle := [], j_flow := released (j_flow s)\<rparr>))
        in s\<lparr>j_holders := holder_clear (hh_id (e_holder E)) (j_holders s)\<rparr>)"

definition backend :: "Session_Env \<Rightarrow> Session \<Rightarrow> string agent_run" where
  "backend E s =
     (if j_held s \<noteq> None then (s, Inr (j_handle s))
      else case j_acquires s of
        Inr h # as \<Rightarrow>
          let s = deed (Borrowed h) (s\<lparr>j_acquires := as, j_handle := h, j_held := Some \<lparr>jc_handle = h, jc_poisoned = False\<rparr>\<rparr>)
          in (report_holder E s, Inr h)
      | Inl e # as \<Rightarrow> (s\<lparr>j_acquires := as\<rparr>, Inl (Exhausted (pool_error_text (e_io_text E) e)))
      | [] \<Rightarrow> (s, Inl (Exhausted (pool_error_text (e_io_text E) (Unavailable (e_target E) ''draining'')))))"

definition poison :: "Session \<Rightarrow> Session" where
  "poison s = s\<lparr>j_held := map_option (\<lambda>co. co\<lparr>jc_poisoned := True\<rparr>) (j_held s)\<rparr>"

definition observe_error :: "AgentError \<Rightarrow> Session \<Rightarrow> Session" where
  "observe_error e s = (case e of Database _ _ \<Rightarrow> s | _ \<Rightarrow> poison (flow_event Broken s))"

text \<open>One request to the agent, logged with the SQL it carries.\<close>

definition agent_call :: "string \<Rightarrow> string \<Rightarrow> Value list \<Rightarrow> Session \<Rightarrow> Value agent_run" where
  "agent_call call_name sql vs s =
     (let (r, rs) = (case j_replies s of r # rs \<Rightarrow> (r, rs) | [] \<Rightarrow> (Inl (Gone ''agent stopped''), []))
      in (deed (Asked call_name sql vs r) (s\<lparr>j_replies := rs\<rparr>), r))"

definition abandon :: "Session \<Rightarrow> Session" where
  "abandon s =
     (if j_held s = None then s
      else case agent_call ''rollback'' [] [] s of
        (s, Inl e) \<Rightarrow> flow_event Idle (poison s)
      | (s, Inr _) \<Rightarrow> flow_event Idle s)"

definition observe_statement :: "Session_Env \<Rightarrow> string \<Rightarrow> bool \<Rightarrow> Session \<Rightarrow> Session" where
  "observe_statement E sql in_transaction s =
     (let s = (if multiplexes (ss_mode (j_flow s))
               then case classify_sql (e_rules E) sql of Some pin \<Rightarrow> flow_event (MustPin pin) s | None \<Rightarrow> s
               else s)
      in flow_event (if in_transaction then InTransaction else Idle) s)"

section \<open>What the agent reports\<close>

definition in_transaction_flag :: "Value \<Rightarrow> bool" where
  "in_transaction_flag v = (Option.bind (json_get ''inTransaction'' v) as_bool = Some True)"

definition value_or :: "'a \<Rightarrow> 'a option \<Rightarrow> 'a" where
  "value_or d x = (case x of Some y \<Rightarrow> y | None \<Rightarrow> d)"

definition column_type :: "Value \<Rightarrow> PgType" where
  "column_type column =
     pg_type (word_of_int (value_or 0 (Option.bind (json_get ''jdbcType'' column) as_i64)))
       (value_or [] (Option.bind (json_get ''typeName'' column) as_str))"

definition column_types :: "Value option \<Rightarrow> PgType list" where
  "column_types columns = map column_type (value_or [] (Option.bind columns as_array))"

definition describe_fields :: "Value option \<Rightarrow> FieldDescription list" where
  "describe_fields columns =
     map (\<lambda>column. \<lparr>fd_name = value_or ''?column?'' (Option.bind (json_get ''name'' column) as_str),
         fd_type_oid = pt_oid (column_type column), fd_type_size = pt_size (column_type column), fd_type_modifier = - 1\<rparr>)
       (value_or [] (Option.bind columns as_array))"

record Outcome =
  oc_columns :: "FieldDescription list"
  oc_rows :: "string option list list"
  oc_update_count :: int
  oc_in_transaction :: bool

fun encode_cells :: "PgType list \<Rightarrow> Value list \<Rightarrow> string option list" where
  "encode_cells ts [] = []"
| "encode_cells [] (v # vs) = as_str v # encode_cells [] vs"
| "encode_cells (t # ts) (v # vs) = map_option (encode_value t) (as_str v) # encode_cells ts vs"

definition outcome_from :: "Value \<Rightarrow> Outcome" where
  "outcome_from result =
     (let encodings = column_types (json_get ''columns'' result) in
      \<lparr>oc_columns = describe_fields (json_get ''columns'' result),
       oc_rows = map (\<lambda>row. encode_cells encodings (value_or [] (as_array row)))
         (value_or [] (Option.bind (json_get ''rows'' result) as_array)),
       oc_update_count = value_or (- 1) (Option.bind (json_get ''updateCount'' result) as_i64),
       oc_in_transaction = in_transaction_flag result\<rparr>)"

section \<open>Transaction control\<close>

datatype TransactionControl = TBegin | TCommit | TRollback

definition control_words :: "string \<Rightarrow> string list" where
  "control_words sql = map to_ascii_uppercase (split_whitespace (map (\<lambda>c. if c = CHR '';'' then CHR '' '' else c) sql))"

definition control_of :: "string \<Rightarrow> TransactionControl option" where
  "control_of sql =
     (case control_words sql of
        [] \<Rightarrow> None
      | first # ws \<Rightarrow>
          let second = (case ws of [] \<Rightarrow> None | w # _ \<Rightarrow> Some w) in
          if first = ''BEGIN'' then
            (if second \<in> {None, Some ''WORK'', Some ''TRANSACTION'', Some ''ISOLATION'', Some ''READ'', Some ''DEFERRABLE'', Some ''NOT''}
             then Some TBegin else None)
          else if first = ''START'' then (if second = Some ''TRANSACTION'' then Some TBegin else None)
          else if first = ''COMMIT'' then Some TCommit
          else if first = ''END'' then (if second \<in> {None, Some ''WORK'', Some ''TRANSACTION''} then Some TCommit else None)
          else if first = ''ROLLBACK'' \<or> first = ''ABORT'' then Some TRollback
          else None)"

fun control_method :: "TransactionControl \<Rightarrow> string" where
  "control_method TBegin = ''begin''"
| "control_method TCommit = ''commit''"
| "control_method TRollback = ''rollback''"

fun control_tag :: "TransactionControl \<Rightarrow> string" where
  "control_tag TBegin = ''BEGIN''"
| "control_tag TCommit = ''COMMIT''"
| "control_tag TRollback = ''ROLLBACK''"

section \<open>Reading a message\<close>

definition body_text :: "string \<Rightarrow> string" where
  "body_text bs = from_utf8_lossy (takeWhile (\<lambda>b. b \<noteq> NUL) bs)"

definition take_cstring :: "string \<Rightarrow> string \<times> string" where
  "take_cstring bs =
     (let s = takeWhile (\<lambda>b. b \<noteq> NUL) bs in (from_utf8_lossy s, drop (Suc (length s)) bs))"

definition take_u8 :: "string \<Rightarrow> char \<times> string" where
  "take_u8 bs = (case bs of [] \<Rightarrow> (NUL, []) | b # r \<Rightarrow> (b, r))"

definition take_i16 :: "string \<Rightarrow> i16 \<times> string" where
  "take_i16 bs = (case bs of a # b # r \<Rightarrow> (word_of_nat (byte a * 256 + byte b), r) | _ \<Rightarrow> (0, []))"

definition take_i32 :: "string \<Rightarrow> i32 \<times> string" where
  "take_i32 bs = (case get_i32 bs of Some (w, r) \<Rightarrow> (w, r) | None \<Rightarrow> (- 1, []))"

definition take_bytes :: "nat \<Rightarrow> string \<Rightarrow> string \<times> string" where
  "take_bytes n bs = (take n bs, drop n bs)"

text \<open>\<open>max(0)\<close> of a signed count.\<close>

definition count_i16 :: "i16 \<Rightarrow> nat" where
  "count_i16 w = (if w <s 0 then 0 else unat w)"

fun take_i16s :: "nat \<Rightarrow> string \<Rightarrow> i16 list \<times> string" where
  "take_i16s 0 bs = ([], bs)"
| "take_i16s (Suc n) bs = (let (w, bs) = take_i16 bs; (ws, bs) = take_i16s n bs in (w # ws, bs))"

definition take_i16_list :: "string \<Rightarrow> i16 list \<times> string" where
  "take_i16_list bs = (let (n, bs) = take_i16 bs in take_i16s (count_i16 n) bs)"

definition hex_text :: "string \<Rightarrow> string" where
  "hex_text bs = concat (map (\<lambda>b. [hex_digit (byte b div 16), hex_digit (byte b mod 16)]) bs)"

definition is_binary :: "i16 list \<Rightarrow> nat \<Rightarrow> bool" where
  "is_binary formats i \<longleftrightarrow> formats = [1] \<or> i < length formats \<and> formats ! i = 1"

fun take_values :: "i16 list \<Rightarrow> nat \<Rightarrow> nat \<Rightarrow> string \<Rightarrow> Value list" where
  "take_values formats i 0 bs = []"
| "take_values formats i (Suc n) bs =
     (let (len, bs) = take_i32 bs in
      if len <s 0 then VNull # take_values formats (Suc i) n bs
      else let (v, bs) = take_bytes (unat len) bs in
        (if is_binary formats i then VObject [(''binary'', VString (hex_text v))] else VString (from_utf8_lossy v))
        # take_values formats (Suc i) n bs)"

section \<open>The operations\<close>

definition fail :: "string \<Rightarrow> string \<Rightarrow> Session \<Rightarrow> unit run" where
  "fail code text s = j_send (error_response ''ERROR'' code text) (s\<lparr>j_failed := True\<rparr>)"

definition report :: "AgentError \<Rightarrow> Session \<Rightarrow> unit run" where
  "report e s = j_send (error_response ''ERROR'' (sql_state e) (agent_error_text e)) s"

definition fail_with :: "AgentError \<Rightarrow> Session \<Rightarrow> unit run" where
  "fail_with e s = fail (sql_state e) (agent_error_text e) s"

definition ready :: "Session_Env \<Rightarrow> Session \<Rightarrow> unit run" where
  "ready E s =
     (let status = (if ss_in_transaction (j_flow s) then TInTransaction else TIdle)
      in j_send (ready_for_query status) (release_if_idle E s))"

definition sync :: "Session_Env \<Rightarrow> Session \<Rightarrow> unit run" where
  "sync E s = ready E (s\<lparr>j_failed := False\<rparr>)"

text \<open>A request on the borrowed connection; an error is noted before it is passed on.\<close>

definition ask :: "Session_Env \<Rightarrow> string \<Rightarrow> string \<Rightarrow> Value list \<Rightarrow> Session \<Rightarrow> Value agent_run" where
  "ask E call_name sql vs s =
     attempt (backend E s) (\<lambda>s _.
       case agent_call call_name sql vs s of
         (s, Inl e) \<Rightarrow> (observe_error e s, Inl e)
       | (s, Inr v) \<Rightarrow> (s, Inr v))"

definition run_sql :: "Session_Env \<Rightarrow> string \<Rightarrow> Value list \<Rightarrow> Session \<Rightarrow> Outcome agent_run" where
  "run_sql E sql vs s =
     attempt (ask E ''execute'' sql vs s) (\<lambda>s v.
       let outc = outcome_from v in (observe_statement E sql (oc_in_transaction outc) s, Inr outc))"

definition agent_describe :: "Session_Env \<Rightarrow> string \<Rightarrow> Session \<Rightarrow> (FieldDescription list \<times> nat) agent_run" where
  "agent_describe E sql s =
     attempt (ask E ''describe'' sql [] s) (\<lambda>s v.
       (s, Inr (describe_fields (json_get ''columns'' v), nat (value_or (- 1) (Option.bind (json_get ''paramCount'' v) as_i64)))))"

definition control :: "Session_Env \<Rightarrow> TransactionControl \<Rightarrow> Session \<Rightarrow> unit agent_run" where
  "control E c s =
     (if j_held s = None \<and> c \<noteq> TBegin then (flow_event Idle s, Inr ())
      else attempt (ask E (control_method c) [] [] s) (\<lambda>s v.
        (flow_event (if in_transaction_flag v then InTransaction else Idle) s, Inr ())))"

fun send_rows :: "string option list list \<Rightarrow> Session \<Rightarrow> unit run" where
  "send_rows [] s = (s, Inr ())"
| "send_rows (row # rows) s = attempt (j_send (data_row row) s) (\<lambda>s _. send_rows rows s)"

definition emit :: "string \<Rightarrow> Outcome \<Rightarrow> bool \<Rightarrow> Session \<Rightarrow> unit run" where
  "emit sql outc describe s =
     attempt (if oc_columns outc \<noteq> [] \<and> describe then j_send (row_description (oc_columns outc)) s else (s, Inr ())) (\<lambda>s _.
     attempt (send_rows (oc_rows outc) s) (\<lambda>s _.
       j_send (command_complete (command_tag sql (length (oc_rows outc)) (oc_update_count outc)))
         (s\<lparr>j_rows := j_rows s + word_of_nat (length (oc_rows outc))\<rparr>)))"

definition simple_query :: "Session_Env \<Rightarrow> string \<Rightarrow> Session \<Rightarrow> unit run" where
  "simple_query E bs s =
     (let sql = body_text bs; s = s\<lparr>j_exchanges := j_exchanges s + 1\<rparr> in
      if trim sql = [] then attempt (j_send empty_query_response s) (\<lambda>s _. ready E s)
      else case control_of sql of
        Some c \<Rightarrow>
          (case control E c s of
             (s, Inr _) \<Rightarrow> attempt (j_send (command_complete (control_tag c)) s) (\<lambda>s _. ready E s)
           | (s, Inl e) \<Rightarrow> attempt (report e s) (\<lambda>s _. ready E s))
      | None \<Rightarrow>
          (case run_sql E (rw_sql (to_jdbc sql)) [] s of
             (s, Inr outc) \<Rightarrow> attempt (emit sql outc True s) (\<lambda>s _. ready E s)
           | (s, Inl e) \<Rightarrow> attempt (report e s) (\<lambda>s _. ready E s)))"

definition parse :: "Session_Env \<Rightarrow> string \<Rightarrow> Session \<Rightarrow> unit run" where
  "parse E bs s =
     (if j_failed s then (s, Inr ())
      else
        let (name, bs) = take_cstring bs; (sql, bs) = take_cstring bs; rw = to_jdbc sql in
        case agent_describe E (rw_sql rw) s of
          (s, Inl e) \<Rightarrow> fail_with e s
        | (s, Inr (columns, np)) \<Rightarrow>
            j_send parse_complete (s\<lparr>j_statements := (j_statements s)(name \<mapsto>
              \<lparr>pr_rewritten = rw, pr_original = sql, pr_columns = columns,
               pr_params = (if np > 0 then np else rw_highest rw)\<rparr>)\<rparr>))"

text \<open>A repeated number takes its value twice; a number without a value is null.\<close>

definition arrange :: "nat list \<Rightarrow> Value list \<Rightarrow> Value list" where
  "arrange ns sent = map (\<lambda>i. if i < length sent then sent ! i else VNull) ns"

definition bind :: "string \<Rightarrow> Session \<Rightarrow> unit run" where
  "bind bs s =
     (if j_failed s then (s, Inr ())
      else
        let (portal, bs) = take_cstring bs; (statement, bs) = take_cstring bs;
            (formats, bs) = take_i16_list bs; (n, bs) = take_i16 bs;
            sent = take_values formats 0 (count_i16 n) bs in
        case j_statements s statement of
          None \<Rightarrow> fail PROTOCOL_VIOLATION (''prepared statement '' @ [DQUOTE] @ statement @ [DQUOTE] @ '' does not exist'') s
        | Some p \<Rightarrow>
            j_send bind_complete (s\<lparr>j_portals := (j_portals s)(portal \<mapsto>
              \<lparr>po_statement = statement, po_values = arrange (rw_order (pr_rewritten p)) sent\<rparr>)\<rparr>))"

definition describe :: "string \<Rightarrow> Session \<Rightarrow> unit run" where
  "describe bs s =
     (if j_failed s then (s, Inr ())
      else
        let (kind, bs) = take_u8 bs; (name, bs) = take_cstring bs;
            statement = (if kind = CHR ''S'' then j_statements s name
              else Option.bind (j_portals s name) (\<lambda>p. j_statements s (po_statement p))) in
        case statement of
          None \<Rightarrow> fail PROTOCOL_VIOLATION ([DQUOTE] @ name @ [DQUOTE] @ '' does not exist'') s
        | Some p \<Rightarrow>
            attempt (if kind = CHR ''S'' then j_send (parameter_description (replicate (pr_params p) 0)) s else (s, Inr ())) (\<lambda>s _.
              j_send (if pr_columns p = [] then no_data else row_description (pr_columns p)) s))"

definition execute :: "Session_Env \<Rightarrow> string \<Rightarrow> Session \<Rightarrow> unit run" where
  "execute E bs s =
     (if j_failed s then (s, Inr ())
      else
        let (name, bs) = take_cstring bs in
        case j_portals s name of
          None \<Rightarrow> fail PROTOCOL_VIOLATION (''portal '' @ [DQUOTE] @ name @ [DQUOTE] @ '' does not exist'') s
        | Some portal \<Rightarrow>
            (case j_statements s (po_statement portal) of
               None \<Rightarrow> fail PROTOCOL_VIOLATION (''the portal'' @ [QUOTE] @ ''s statement is gone'') s
             | Some p \<Rightarrow>
                 let s = s\<lparr>j_exchanges := j_exchanges s + 1\<rparr> in
                 (case control_of (pr_original p) of
                    Some c \<Rightarrow>
                      (case control E c s of
                         (s, Inr _) \<Rightarrow> j_send (command_complete (control_tag c)) s
                       | (s, Inl e) \<Rightarrow> fail_with e s)
                  | None \<Rightarrow>
                      (case run_sql E (rw_sql (pr_rewritten p)) (po_values portal) s of
                         (s, Inr outc) \<Rightarrow> emit (pr_original p) outc False s
                       | (s, Inl e) \<Rightarrow> fail_with e s))))"

definition close :: "string \<Rightarrow> Session \<Rightarrow> unit run" where
  "close bs s =
     (let (kind, bs) = take_u8 bs; (name, bs) = take_cstring bs in
      j_send close_complete
        (if kind = CHR ''S''
         then s\<lparr>j_statements := (j_statements s)(name := None),
                j_portals := (\<lambda>p. case j_portals s p of Some po \<Rightarrow> if po_statement po \<noteq> name then Some po else None | None \<Rightarrow> None)\<rparr>
         else s\<lparr>j_portals := (j_portals s)(name := None)\<rparr>))"

section \<open>The session\<close>

definition ticking :: "Session_Env \<Rightarrow> Session \<Rightarrow> bool" where
  "ticking E s \<longleftrightarrow> e_idle_in_transaction E \<noteq> 0 \<and> ss_in_transaction (j_flow s) \<and> j_held s \<noteq> None"

definition on_message :: "Session_Env \<Rightarrow> Message \<Rightarrow> Session \<Rightarrow> bool run" where
  "on_message E m s =
     (let go_on = (\<lambda>r. attempt r (\<lambda>s _. (s, Inr True))); t = tag m in
      if t = CHR ''Q'' then go_on (simple_query E (body m) s)
      else if t = CHR ''P'' then go_on (parse E (body m) s)
      else if t = CHR ''B'' then go_on (bind (body m) s)
      else if t = CHR ''D'' then go_on (describe (body m) s)
      else if t = CHR ''E'' then go_on (execute E (body m) s)
      else if t = CHR ''C'' then go_on (close (body m) s)
      else if t = CHR ''S'' then go_on (sync E s)
      else if t = CHR ''H'' then (s, Inr True)
      else if t = CHR ''X'' then (s, Inr False)
      else go_on (attempt (fail PROTOCOL_VIOLATION (''unsupported message '' @ [QUOTE] @ latin1_char t @ [QUOTE]) s) (\<lambda>s _. sync E s)))"

text \<open>One turn of the loop; \<open>False\<close> is a session that ends in order. The timer is armed only inside a transaction.\<close>

definition session_turn :: "Session_Env \<Rightarrow> ClientEvent \<Rightarrow> Session \<Rightarrow> bool run" where
  "session_turn E ev s =
     (case ev of
        Kicked \<Rightarrow> (j_tell (fatal ADMIN_SHUTDOWN ''terminating connection due to administrator command'') s, Inr False)
      | IdleElapsed \<Rightarrow>
          if ticking E s
          then (abandon (j_tell (fatal IDLE_IN_TRANSACTION_SESSION_TIMEOUT ''terminating connection due to idle-in-transaction timeout'') s), Inr False)
          else (s, Inr True)
      | ReadFailed \<Rightarrow> (s, Inr False)
      | Received m \<Rightarrow> on_message E m s)"

fun run_session :: "Session_Env \<Rightarrow> ClientEvent list \<Rightarrow> Session \<Rightarrow> bool run" where
  "run_session E [] s = (s, Inr True)"
| "run_session E (ev # evs) s =
     attempt (session_turn E ev s) (\<lambda>s more. if more then run_session E evs s else (s, Inr False))"

definition start_session :: "Session_Env \<Rightarrow> PoolMode \<Rightarrow> string \<Rightarrow> HolderRegistry \<Rightarrow> (AgentError + Value) list
    \<Rightarrow> (PoolError + string) list \<Rightarrow> string option list \<Rightarrow> Session" where
  "start_session E mode checkout hs rs acqs faults =
     report_holder E (release_if_idle E
       \<lparr>j_held = Some \<lparr>jc_handle = checkout, jc_poisoned = False\<rparr>, j_handle = checkout, j_flow = new_session mode,
        j_statements = (\<lambda>_. None), j_portals = (\<lambda>_. None), j_failed = False, j_exchanges = 0, j_rows = 0,
        j_holders = hs, j_client = \<lparr>cl_faults = faults, cl_log = []\<rparr>, j_replies = rs, j_acquires = acqs,
        j_log = [Borrowed checkout], j_ticks = 0\<rparr>)"

definition pin_of :: "Session \<Rightarrow> PinReason option" where
  "pin_of s = (if multiplexes (ss_mode (j_flow s)) then ss_pin (j_flow s) else None)"

section \<open>Reading the log\<close>

text \<open>
  What the log says about the connection borrowed last, from the answers of the agent alone:
  its name while it is out, whether a transaction is open on it, and whether nothing was run
  on it that the rules do not allow to be shared and nothing happened to the agent.
\<close>

fun ledger_step :: "SessionRules \<Rightarrow> string option \<times> bool \<times> bool \<Rightarrow> Deed \<Rightarrow> string option \<times> bool \<times> bool" where
  "ledger_step rules (h, txn, clean) (Borrowed h') = (Some h', False, True)"
| "ledger_step rules (h, txn, clean) (GaveBack _) = (None, False, True)"
| "ledger_step rules (h, txn, clean) (Asked call_name sql vs (Inl e)) =
     (h, txn, clean \<and> (case e of Database _ _ \<Rightarrow> True | _ \<Rightarrow> False))"
| "ledger_step rules (h, txn, clean) (Asked call_name sql vs (Inr v)) =
     (h, if call_name = ''describe'' then txn else in_transaction_flag v,
      clean \<and> (call_name = ''execute'' \<longrightarrow> classify_sql rules sql = None))"

definition ledger :: "SessionRules \<Rightarrow> Deed list \<Rightarrow> string option \<times> bool \<times> bool" where
  "ledger rules log = foldl (ledger_step rules) (None, False, True) log"

lemma ledger_snoc: "ledger rules (log @ [d]) = ledger_step rules (ledger rules log) d"
  by (simp add: ledger_def)

definition returns_ok :: "SessionRules \<Rightarrow> Deed list \<Rightarrow> bool" where
  "returns_ok rules log \<longleftrightarrow> (\<forall>pre co post. log = pre @ GaveBack co # post \<longrightarrow>
     \<not> jc_poisoned co \<and> ledger rules pre = (Some (jc_handle co), False, True))"

lemma snoc_split:
  "log @ [d] = pre @ x # post \<longleftrightarrow> (\<exists>post'. post = post' @ [d] \<and> log = pre @ x # post') \<or> post = [] \<and> d = x \<and> log = pre"
  by (cases post rule: rev_cases) auto

lemma returns_ok_snoc:
  "returns_ok rules (log @ [d]) \<longleftrightarrow> returns_ok rules log
     \<and> (\<forall>co. d = GaveBack co \<longrightarrow> \<not> jc_poisoned co \<and> ledger rules log = (Some (jc_handle co), False, True))"
  unfolding returns_ok_def snoc_split by blast

section \<open>The invariant\<close>

text \<open>The session's own state agrees with what the log says about the connection it holds.\<close>

definition agrees :: "SessionState \<Rightarrow> JdbcCheckout option \<Rightarrow> string \<Rightarrow> string option \<times> bool \<times> bool \<Rightarrow> bool" where
  "agrees fl held_co name l =
     (case l of (h, txn, clean) \<Rightarrow>
        case held_co of
          None \<Rightarrow> h = None \<and> \<not> ss_in_transaction fl
        | Some co \<Rightarrow> h = Some (jc_handle co) \<and> name = jc_handle co \<and> ss_in_transaction fl = txn
            \<and> (\<not> ss_broken fl \<longrightarrow> \<not> jc_poisoned co \<and> (multiplexes (ss_mode fl) \<and> ss_pin fl = None \<longrightarrow> clean)))"

definition j_inv :: "Session_Env \<Rightarrow> Session \<Rightarrow> bool" where
  "j_inv E s \<longleftrightarrow> agrees (j_flow s) (j_held s) (j_handle s) (ledger (e_rules E) (j_log s)) \<and> returns_ok (e_rules E) (j_log s)"

text \<open>Between two states the session has written messages, none of them \<open>ReadyForQuery\<close>.\<close>

definition quiet :: "Session \<Rightarrow> Session \<Rightarrow> bool" where
  "quiet s s' \<longleftrightarrow> ss_mode (j_flow s') = ss_mode (j_flow s)
     \<and> (\<exists>ms. cl_log (j_client s') = cl_log (j_client s) @ ms \<and> (\<forall>m \<in> set ms. tag m \<noteq> CHR ''Z''))"

lemma quiet_refl [simp]: "quiet s s"
  by (simp add: quiet_def)

lemma quiet_trans: "quiet s t \<Longrightarrow> quiet t u \<Longrightarrow> quiet s u"
  unfolding quiet_def by (metis (no_types, lifting) append.assoc Un_iff set_append)

definition keeps :: "Session_Env \<Rightarrow> Session \<Rightarrow> Session \<Rightarrow> bool" where
  "keeps E s s' \<longleftrightarrow> quiet s s' \<and> (j_inv E s \<longrightarrow> j_inv E s')"

lemma keeps_refl [simp]: "keeps E s s"
  by (simp add: keeps_def)

lemma keeps_trans: "keeps E s t \<Longrightarrow> keeps E t u \<Longrightarrow> keeps E s u"
  by (auto simp: keeps_def intro: quiet_trans)

lemma attempt_keeps:
  assumes "attempt r k = (s', y)" "keeps E s (fst r)" "\<And>t x. r = (t, Inr x) \<Longrightarrow> k t x = (s', y) \<Longrightarrow> keeps E t s'"
  shows "keeps E s s'"
  using assms(1)
proof (cases rule: attempt_cases)
  case (2 t x)
  with assms(2) assms(3) [of t x] show ?thesis by (auto intro: keeps_trans)
qed (use assms(2) in auto)

lemma j_send_result:
  assumes "j_send m s = (s', r)"
  shows "\<exists>c ms. s' = s\<lparr>j_client := c\<rparr> \<and> cl_log c = cl_log (j_client s) @ ms \<and> set ms \<subseteq> {m} \<and> (r = Inr () \<longrightarrow> ms = [m])"
  using assms
  by (auto simp: j_send_def write_client_def flush_client_def split: prod.splits option.splits)

lemma j_send_keeps: "j_send m s = (s', r) \<Longrightarrow> tag m \<noteq> CHR ''Z'' \<Longrightarrow> keeps E s s'"
  by (drule j_send_result) (auto simp: keeps_def quiet_def j_inv_def)

lemma report_holder_frame:
  "\<exists>t hs. report_holder E s = s\<lparr>j_ticks := t, j_holders := hs\<rparr>"
  unfolding report_holder_def Let_def by blast

lemma report_holder_keeps: "keeps E s (report_holder E s)"
  using report_holder_frame [of E s] by (auto simp: keeps_def quiet_def j_inv_def)

lemma release_if_idle_keeps: "keeps E s (release_if_idle E s)"
proof (cases "is_releasable (j_flow s)")
  case True
  then have free: "\<not> ss_broken (j_flow s)" "ss_pin (j_flow s) = None" "\<not> ss_in_transaction (j_flow s)" "multiplexes (ss_mode (j_flow s))"
    by (auto simp: is_releasable_def split: if_splits PoolMode.splits)
  show ?thesis
  proof (cases "j_held s")
    case None
    with True show ?thesis by (simp add: release_if_idle_def keeps_def quiet_def j_inv_def)
  next
    case (Some co)
    with True free show ?thesis
      by (auto simp: release_if_idle_def keeps_def quiet_def j_inv_def deed_def ledger_snoc returns_ok_snoc agrees_def released_def
          split: prod.splits)
  qed
qed (simp add: release_if_idle_def report_holder_keeps)

lemma backend_keeps: "backend E s = (s', r) \<Longrightarrow> keeps E s s' \<and> (\<forall>h. r = Inr h \<longrightarrow> j_held s' \<noteq> None)"
proof -
  assume b: "backend E s = (s', r)"
  show ?thesis
  proof (cases "\<exists>h as. j_held s = None \<and> j_acquires s = Inr h # as")
    case True
    then obtain h as where h: "j_held s = None" "j_acquires s = Inr h # as" by blast
    let ?t = "deed (Borrowed h) (s\<lparr>j_acquires := as, j_handle := h, j_held := Some \<lparr>jc_handle = h, jc_poisoned = False\<rparr>\<rparr>)"
    have "keeps E s ?t" using h
      by (auto simp: keeps_def quiet_def j_inv_def deed_def ledger_snoc returns_ok_snoc agrees_def split: prod.splits)
    moreover have "s' = report_holder E ?t" "r = Inr h" using b h by (simp_all add: backend_def Let_def)
    moreover have "j_held (report_holder E ?t) \<noteq> None" using report_holder_frame [of E ?t] by (auto simp: deed_def)
    ultimately show ?thesis using report_holder_keeps [of E ?t] by (auto intro: keeps_trans)
  next
    case False
    with b show ?thesis
      by (auto simp: backend_def keeps_def quiet_def j_inv_def Let_def split: if_splits list.splits sum.splits)
  qed
qed

text \<open>A request that went through leaves the log one answer ahead of the session's state.\<close>

definition answered :: "string \<Rightarrow> string \<Rightarrow> Value list \<Rightarrow> Value \<Rightarrow> Session \<Rightarrow> (AgentError + Value) list \<Rightarrow> Session" where
  "answered call_name sql vs v t rs = deed (Asked call_name sql vs (Inr v)) (t\<lparr>j_replies := rs\<rparr>)"

lemma agent_call_cases:
  obtains rs r where "agent_call call_name sql vs s = (deed (Asked call_name sql vs r) (s\<lparr>j_replies := rs\<rparr>), r)"
  by (cases "j_replies s") (auto simp: agent_call_def)

lemma ask_result:
  assumes "ask E call_name sql vs s = (s', r)"
  shows "case r of
      Inl e \<Rightarrow> keeps E s s'
    | Inr v \<Rightarrow> \<exists>t rs. keeps E s t \<and> j_held t \<noteq> None \<and> s' = answered call_name sql vs v t rs"
  using assms unfolding ask_def
proof (cases rule: attempt_cases)
  case (1 e)
  with backend_keeps [of E s s' "Inl e"] show ?thesis by simp
next
  case (2 t h)
  note t = backend_keeps [OF 2(1)]
  obtain rs a where c: "agent_call call_name sql vs t = (deed (Asked call_name sql vs a) (t\<lparr>j_replies := rs\<rparr>), a)"
    by (rule agent_call_cases)
  show ?thesis
  proof (cases a)
    case (Inl e)
    have "keeps E t (observe_error e (deed (Asked call_name sql vs (Inl e)) (t\<lparr>j_replies := rs\<rparr>)))"
      using t
      by (auto simp: keeps_def quiet_def j_inv_def deed_def ledger_snoc returns_ok_snoc agrees_def observe_error_def poison_def
          flow_event_def bump_exchanges_def split: prod.splits AgentError.splits option.splits)
    with Inl 2(2) c t show ?thesis by (auto intro: keeps_trans)
  next
    case (Inr v)
    with 2(2) c t have "r = Inr v" "keeps E s t \<and> j_held t \<noteq> None \<and> s' = answered call_name sql vs v t rs"
      by (auto simp: answered_def)
    then show ?thesis by auto
  qed
qed

lemma describe_keeps:
  assumes "agent_describe E sql s = (s', r)"
  shows "keeps E s s'"
  using assms unfolding agent_describe_def
proof (cases rule: attempt_cases)
  case (1 e)
  with ask_result [of E "''describe''" sql "[]" s s'] show "keeps E s s'" by auto
next
  case (2 u v)
  from ask_result [OF 2(1)] obtain t rs where t: "keeps E s t" "j_held t \<noteq> None" "u = answered ''describe'' sql [] v t rs" by auto
  then have "keeps E t u"
    by (auto simp: answered_def keeps_def quiet_def j_inv_def deed_def ledger_snoc returns_ok_snoc agrees_def split: prod.splits)
  with t(1) 2(2) show "keeps E s s'" by (auto intro: keeps_trans)
qed

lemma get_or_insert_not_None [simp]: "get_or_insert a b \<noteq> None"
  by (cases a) auto

lemma observe_statement_keeps:
  assumes "j_held t \<noteq> None" "u = answered ''execute'' sql vs v t rs"
  shows "keeps E t (observe_statement E sql (in_transaction_flag v) u)"
  using assms
  by (auto simp: observe_statement_def answered_def keeps_def quiet_def j_inv_def deed_def ledger_snoc returns_ok_snoc agrees_def
      flow_event_def bump_exchanges_def Let_def split: prod.splits option.splits)

lemma run_sql_keeps:
  assumes "run_sql E sql vs s = (s', r)"
  shows "keeps E s s'"
  using assms unfolding run_sql_def
proof (cases rule: attempt_cases)
  case (1 e)
  with ask_result [of E "''execute''" sql vs s s'] show "keeps E s s'" by auto
next
  case (2 u v)
  from ask_result [OF 2(1)] obtain t rs where t: "keeps E s t" "j_held t \<noteq> None" "u = answered ''execute'' sql vs v t rs" by auto
  from 2(2) observe_statement_keeps [OF t(2,3)] t(1) show "keeps E s s'"
    by (auto simp: outcome_from_def Let_def intro: keeps_trans)
qed

lemma control_keeps:
  assumes "control E c s = (s', r)"
  shows "keeps E s s'"
proof (cases "j_held s = None \<and> c \<noteq> TBegin")
  case True
  with assms show ?thesis
    by (auto simp: control_def keeps_def quiet_def j_inv_def agrees_def flow_event_def bump_exchanges_def split: prod.splits)
next
  case False
  from assms show ?thesis unfolding control_def if_not_P [OF False]
  proof (cases rule: attempt_cases)
    case (1 e)
    with ask_result [of E "control_method c" "[]" "[]" s s'] show ?thesis by auto
  next
    case (2 u v)
    from ask_result [OF 2(1)] obtain t rs where t: "keeps E s t" "j_held t \<noteq> None" "u = answered (control_method c) [] [] v t rs" by auto
    have "control_method c \<noteq> ''describe''" "control_method c \<noteq> ''execute''" by (cases c; simp)+
    with t have "keeps E t (flow_event (if in_transaction_flag v then InTransaction else Idle) u)"
      by (auto simp: answered_def keeps_def quiet_def j_inv_def deed_def ledger_snoc returns_ok_snoc agrees_def flow_event_def
          bump_exchanges_def split: prod.splits)
    with t(1) 2(2) show ?thesis by (auto intro: keeps_trans)
  qed
qed

section \<open>Every message\<close>

lemma keeps_fields [simp]:
  "keeps E s (t\<lparr>j_exchanges := n\<rparr>) = keeps E s t"
  "keeps E s (t\<lparr>j_rows := n\<rparr>) = keeps E s t"
  "keeps E s (t\<lparr>j_failed := b\<rparr>) = keeps E s t"
  "keeps E s (t\<lparr>j_statements := sts\<rparr>) = keeps E s t"
  "keeps E s (t\<lparr>j_portals := ps\<rparr>) = keeps E s t"
  "keeps E (s\<lparr>j_exchanges := n\<rparr>) t = keeps E s t"
  "keeps E (s\<lparr>j_rows := n\<rparr>) t = keeps E s t"
  "keeps E (s\<lparr>j_failed := b\<rparr>) t = keeps E s t"
  "keeps E (s\<lparr>j_statements := sts\<rparr>) t = keeps E s t"
  "keeps E (s\<lparr>j_portals := ps\<rparr>) t = keeps E s t"
  by (simp_all add: keeps_def quiet_def j_inv_def)

lemmas reply_defs =
  error_response_def row_description_def data_row_def command_complete_def empty_query_response_def parameter_description_def
  parse_complete_def bind_complete_def close_complete_def no_data_def msg_def

lemma reply_tags:
  "tag (error_response a b c) \<noteq> CHR ''Z''" "tag (row_description fds) \<noteq> CHR ''Z''" "tag (data_row vs) \<noteq> CHR ''Z''"
  "tag (command_complete t) \<noteq> CHR ''Z''" "tag empty_query_response \<noteq> CHR ''Z''" "tag (parameter_description os) \<noteq> CHR ''Z''"
  "tag parse_complete \<noteq> CHR ''Z''" "tag bind_complete \<noteq> CHR ''Z''" "tag close_complete \<noteq> CHR ''Z''" "tag no_data \<noteq> CHR ''Z''"
  by (simp_all add: reply_defs)

lemma fail_keeps: "fail code text s = (s', r) \<Longrightarrow> keeps E s s'"
  unfolding fail_def using j_send_keeps [OF _ reply_tags(1), of _ _ _ "s\<lparr>j_failed := True\<rparr>" s' r E] by simp

lemma send_rows_keeps: "send_rows rows s = (s', r) \<Longrightarrow> keeps E s s'"
proof (induction rows arbitrary: s)
  case (Cons row rows)
  from Cons.prems show ?case unfolding send_rows.simps
    by (rule attempt_keeps) (auto intro: Cons.IH j_send_keeps [OF prod.collapse [symmetric] reply_tags(3)])
qed simp

lemma emit_keeps:
  assumes "emit sql outc d s = (s', r)"
  shows "keeps E s s'"
  using assms unfolding emit_def
proof (rule attempt_keeps)
  show "keeps E s (fst (if oc_columns outc \<noteq> [] \<and> d then j_send (row_description (oc_columns outc)) s else (s, Inr ())))"
    by (auto intro: j_send_keeps [OF prod.collapse [symmetric] reply_tags(2)])
next
  fix t x
  assume "attempt (send_rows (oc_rows outc) t) (\<lambda>s _. j_send (command_complete (command_tag sql (length (oc_rows outc)) (oc_update_count outc)))
    (s\<lparr>j_rows := j_rows s + word_of_nat (length (oc_rows outc))\<rparr>)) = (s', r)"
  then show "keeps E t s'"
    by (rule attempt_keeps) (auto intro: send_rows_keeps [OF prod.collapse [symmetric]] dest: j_send_keeps [OF _ reply_tags(4), of _ _ _ _ E])
qed

text \<open>
  An exchange that is over: one \<open>ReadyForQuery\<close>, at its end, with the status the session is
  in; and nothing that could have been given back is still held.
\<close>

definition status_of :: "Session \<Rightarrow> TransactionStatus" where
  "status_of s = (if ss_in_transaction (j_flow s) then TInTransaction else TIdle)"

definition settles :: "Session_Env \<Rightarrow> Session \<Rightarrow> Session \<Rightarrow> ProtoError + unit \<Rightarrow> bool" where
  "settles E s s' r \<longleftrightarrow> (j_inv E s \<longrightarrow> j_inv E s') \<and> ss_mode (j_flow s') = ss_mode (j_flow s)
     \<and> (r = Inr () \<longrightarrow> (j_held s' = None \<or> \<not> is_releasable (j_flow s'))
          \<and> (\<exists>ms. cl_log (j_client s') = cl_log (j_client s) @ ms @ [ready_for_query (status_of s')]
              \<and> (\<forall>m \<in> set ms. tag m \<noteq> CHR ''Z'')))"

lemma keeps_settles:
  assumes "keeps E s t" "settles E t s' r"
  shows "settles E s s' r"
proof -
  from assms(1) obtain ms where ms: "cl_log (j_client t) = cl_log (j_client s) @ ms" "\<forall>m \<in> set ms. tag m \<noteq> CHR ''Z''"
    by (auto simp: keeps_def quiet_def)
  have "\<exists>ms'. cl_log (j_client s) @ ms @ ns @ [x] = cl_log (j_client s) @ ms' @ [x] \<and> (\<forall>m \<in> set ms'. tag m \<noteq> CHR ''Z'')"
    if "\<forall>m \<in> set ns. tag m \<noteq> CHR ''Z''" for ns x
    using that ms(2) by (intro exI [of _ "ms @ ns"]) auto
  with assms ms show ?thesis by (fastforce simp: settles_def keeps_def quiet_def)
qed

lemma attempt_settles:
  assumes "attempt r k = (s', y)" "keeps E s (fst r)" "\<And>t x. r = (t, Inr x) \<Longrightarrow> k t x = (s', y) \<Longrightarrow> settles E t s' y"
  shows "settles E s s' y"
  using assms(1)
proof (cases rule: attempt_cases)
  case (2 t x)
  with assms(2) assms(3) [of t x] show ?thesis by (auto intro: keeps_settles)
qed (use assms(2) in \<open>auto simp: settles_def keeps_def quiet_def\<close>)

lemma ready_settles:
  assumes "ready E s = (s', r)"
  shows "settles E s s' r"
proof -
  let ?t = "release_if_idle E s"
  let ?m = "ready_for_query (if ss_in_transaction (j_flow s) then TInTransaction else TIdle)"
  have status: "ss_in_transaction (j_flow ?t) = ss_in_transaction (j_flow s)"
    using report_holder_frame [of E s]
    by (auto simp: release_if_idle_def Let_def deed_def released_def is_releasable_def split: option.splits PoolMode.splits if_splits)
  have free: "j_held ?t = None \<or> \<not> is_releasable (j_flow ?t)"
    using report_holder_frame [of E s] by (auto simp: release_if_idle_def Let_def deed_def split: option.splits)
  from assms obtain c ms where c: "s' = ?t\<lparr>j_client := c\<rparr>" "cl_log c = cl_log (j_client ?t) @ ms" "r = Inr () \<longrightarrow> ms = [?m]"
    using j_send_result [of ?m ?t s' r] by (auto simp: ready_def Let_def)
  from c(1) free have "j_held s' = None \<or> \<not> is_releasable (j_flow s')" by simp
  with c status have "settles E ?t s' r" by (auto simp: settles_def j_inv_def status_of_def)
  with release_if_idle_keeps [of E s] show ?thesis by (rule keeps_settles)
qed

lemma sync_settles: "sync E s = (s', r) \<Longrightarrow> settles E s s' r"
  using ready_settles [of E "s\<lparr>j_failed := False\<rparr>" s' r] by (simp add: sync_def settles_def j_inv_def)

lemma sent_keeps: "tag m \<noteq> CHR ''Z'' \<Longrightarrow> keeps E s (fst (j_send m s))"
  using j_send_keeps [OF prod.collapse [symmetric]] .

lemma then_ready:
  assumes "attempt r (\<lambda>s _. ready E s) = (s', y)" "keeps E s (fst r)"
  shows "settles E s s' y"
  using assms by (rule attempt_settles) (rule ready_settles)

lemma report_keeps: "keeps E s (fst (report e s))"
  unfolding report_def by (rule sent_keeps) (rule reply_tags)

lemma simple_query_settles:
  assumes "simple_query E bs s = (s', r)"
  shows "settles E s s' r"
proof -
  let ?sql = "body_text bs" and ?s = "s\<lparr>j_exchanges := j_exchanges s + 1\<rparr>"
  have s: "keeps E s ?s" by simp
  consider (empty) "trim ?sql = []" | (control) c where "trim ?sql \<noteq> []" "control_of ?sql = Some c"
    | (sql) "trim ?sql \<noteq> []" "control_of ?sql = None" by fastforce
  then have "settles E ?s s' r"
  proof cases
    case empty
    with assms have "attempt (j_send empty_query_response ?s) (\<lambda>s _. ready E s) = (s', r)" by (simp add: simple_query_def Let_def)
    then show ?thesis by (rule then_ready) (rule sent_keeps, rule reply_tags)
  next
    case (control c)
    obtain t x where c: "control E c ?s = (t, x)" by fastforce
    with assms control have "attempt (case x of Inr _ \<Rightarrow> j_send (command_complete (control_tag c)) t | Inl e \<Rightarrow> report e t) (\<lambda>s _. ready E s) = (s', r)"
      by (simp add: simple_query_def Let_def split: sum.splits)
    then have "settles E t s' r" by (rule then_ready) (auto simp: report_keeps sent_keeps reply_tags split: sum.split)
    with control_keeps [OF c] show ?thesis by (rule keeps_settles)
  next
    case sql
    obtain t x where c: "run_sql E (rw_sql (to_jdbc ?sql)) [] ?s = (t, x)" by fastforce
    with assms sql have "attempt (case x of Inr outc \<Rightarrow> emit ?sql outc True t | Inl e \<Rightarrow> report e t) (\<lambda>s _. ready E s) = (s', r)"
      by (simp add: simple_query_def Let_def split: sum.splits)
    then have "settles E t s' r"
      by (rule then_ready) (auto intro: report_keeps emit_keeps [OF prod.collapse [symmetric]] split: sum.split)
    with run_sql_keeps [OF c] show ?thesis by (rule keeps_settles)
  qed
  with s show ?thesis by (rule keeps_settles)
qed

lemma parse_keeps: "parse E bs s = (s', r) \<Longrightarrow> keeps E s s'"
  by (auto simp: parse_def fail_with_def Let_def split: if_splits prod.splits sum.splits
      dest!: describe_keeps fail_keeps [of _ _ _ _ _ E] j_send_keeps [OF _ reply_tags(7), of _ _ _ E] intro: keeps_trans)

lemma bind_keeps: "bind bs s = (s', r) \<Longrightarrow> keeps E s s'"
  by (auto simp: bind_def Let_def split: if_splits prod.splits option.splits
      dest!: fail_keeps [of _ _ _ _ _ E] j_send_keeps [OF _ reply_tags(8), of _ _ _ E])

lemma describe_message_keeps:
  assumes "describe bs s = (s', r)"
  shows "keeps E s s'"
proof (cases "j_failed s")
  case False
  obtain kind bs' name rest where bs: "take_u8 bs = (kind, bs')" "take_cstring bs' = (name, rest)" by fastforce
  let ?st = "if kind = CHR ''S'' then j_statements s name else Option.bind (j_portals s name) (\<lambda>p. j_statements s (po_statement p))"
  show ?thesis
  proof (cases ?st)
    case None
    with assms False bs show ?thesis by (auto simp: describe_def Let_def intro: fail_keeps)
  next
    case (Some p)
    with assms False bs have "attempt (if kind = CHR ''S'' then j_send (parameter_description (replicate (pr_params p) 0)) s else (s, Inr ()))
        (\<lambda>s _. j_send (if pr_columns p = [] then no_data else row_description (pr_columns p)) s) = (s', r)"
      by (simp only: describe_def Let_def prod.case option.case if_False)
    then show ?thesis
      by (rule attempt_keeps) (auto simp: sent_keeps reply_tags dest: j_send_keeps [OF _ reply_tags(10), of _ _ _ E]
        j_send_keeps [OF _ reply_tags(2), of _ _ _ _ E] split: if_splits)
  qed
qed (use assms in \<open>simp add: describe_def\<close>)

lemma execute_keeps:
  assumes "execute E bs s = (s', r)"
  shows "keeps E s s'"
proof -
  let ?s = "s\<lparr>j_exchanges := j_exchanges s + 1\<rparr>"
  consider (failed) "s' = s" | (refused) code why where "fail code why s = (s', r)"
    | (control) c t x where "control E c ?s = (t, x)" "(case x of Inr _ \<Rightarrow> j_send (command_complete (control_tag c)) t | Inl e \<Rightarrow> fail_with e t) = (s', r)"
    | (sql) sql vs orig t x where "run_sql E sql vs ?s = (t, x)" "(case x of Inr outc \<Rightarrow> emit orig outc False t | Inl e \<Rightarrow> fail_with e t) = (s', r)"
    using assms by (auto simp: execute_def Let_def split: if_splits prod.splits option.splits sum.splits)
  then show ?thesis
  proof cases
    case refused
    then show ?thesis by (rule fail_keeps)
  next
    case control
    then have "keeps E t s'"
      by (auto simp: fail_with_def split: sum.splits dest!: fail_keeps [of _ _ _ _ _ E] j_send_keeps [OF _ reply_tags(4), of _ _ _ _ E])
    with control_keeps [OF control(1)] show ?thesis by (auto intro: keeps_trans)
  next
    case sql
    then have "keeps E t s'" by (auto simp: fail_with_def split: sum.splits dest!: fail_keeps [of _ _ _ _ _ E] emit_keeps [of _ _ _ _ _ _ E])
    with run_sql_keeps [OF sql(1)] show ?thesis by (auto intro: keeps_trans)
  qed simp
qed

lemma close_keeps: "close bs s = (s', r) \<Longrightarrow> keeps E s s'"
  by (auto simp: close_def Let_def split: if_splits prod.splits dest!: j_send_keeps [OF _ reply_tags(9), of _ _ _ E])

section \<open>The session as a whole\<close>

text \<open>The tags that end an exchange: a query, a sync, and a message that is not understood.\<close>

definition ends_exchange :: "Message \<Rightarrow> bool" where
  "ends_exchange m \<longleftrightarrow> tag m \<notin> set ''PBDECHX''"

lemma on_message_settles:
  assumes "on_message E m s = (s', r)" "ends_exchange m"
  shows "settles E s s' (map_sum id (\<lambda>_. ()) r)"
proof -
  consider (query) "tag m = CHR ''Q''" "attempt (simple_query E (body m) s) (\<lambda>s _. (s, Inr True)) = (s', r)"
    | (sync) "attempt (sync E s) (\<lambda>s _. (s, Inr True)) = (s', r)"
    | (other) why where "attempt (attempt (fail PROTOCOL_VIOLATION why s) (\<lambda>s _. sync E s)) (\<lambda>s _. (s, Inr True)) = (s', r)"
    using assms by (auto simp: on_message_def ends_exchange_def Let_def split: if_splits)
  then show ?thesis
  proof cases
    case query
    then show ?thesis by (auto elim!: attempt_cases dest!: simple_query_settles)
  next
    case sync
    then show ?thesis by (auto elim!: attempt_cases dest!: sync_settles)
  next
    case other
    have "settles E s t x" if "attempt (fail PROTOCOL_VIOLATION why s) (\<lambda>s _. sync E s) = (t, x)" for t x
      using that by (rule attempt_settles) (auto intro: fail_keeps [OF prod.collapse [symmetric]] sync_settles)
    with other show ?thesis by (auto elim!: attempt_cases [of "attempt _ _"])
  qed
qed

lemma on_message_keeps:
  assumes "on_message E m s = (s', r)" "\<not> ends_exchange m"
  shows "keeps E s s'"
  using assms
  by (auto simp: on_message_def ends_exchange_def Let_def split: if_splits elim!: attempt_cases
      intro: parse_keeps bind_keeps describe_message_keeps execute_keeps close_keeps)

lemma j_tell_fields [simp]:
  "j_log (j_tell m t) = j_log t" "j_flow (j_tell m t) = j_flow t" "j_held (j_tell m t) = j_held t" "j_handle (j_tell m t) = j_handle t"
  using j_send_result [of m t "fst (j_send m t)" "snd (j_send m t)"] by (auto simp: j_tell_def)

lemma turn_inv:
  assumes "session_turn E ev s = (s', r)" "j_inv E s"
  shows "returns_ok (e_rules E) (j_log s')" "r \<noteq> Inr False \<Longrightarrow> j_inv E s'" "ss_mode (j_flow s') = ss_mode (j_flow s)"
proof -
  have abandon: "returns_ok (e_rules E) (j_log (abandon t)) \<and> ss_mode (j_flow (abandon t)) = ss_mode (j_flow t)"
    if "returns_ok (e_rules E) (j_log t)" for t
    using that
    by (cases rule: agent_call_cases [of "''rollback''" "[]" "[]" t])
      (auto simp: abandon_def deed_def poison_def flow_event_def bump_exchanges_def returns_ok_snoc split: sum.splits prod.splits)
  have "returns_ok (e_rules E) (j_log s') \<and> (r \<noteq> Inr False \<longrightarrow> j_inv E s') \<and> ss_mode (j_flow s') = ss_mode (j_flow s)"
  proof (cases ev)
    case (Received m)
    with assms on_message_settles [of E m s s' r] on_message_keeps [of E m s s' r] show ?thesis
      by (cases "ends_exchange m") (auto simp: session_turn_def settles_def keeps_def quiet_def j_inv_def)
  next
    case IdleElapsed
    with assms abandon [of "j_tell m s" for m] show ?thesis by (auto simp: session_turn_def j_inv_def split: if_splits)
  qed (use assms in \<open>auto simp: session_turn_def j_inv_def\<close>)
  then show "returns_ok (e_rules E) (j_log s')" "r \<noteq> Inr False \<Longrightarrow> j_inv E s'" "ss_mode (j_flow s') = ss_mode (j_flow s)"
    by simp_all
qed

lemma run_session_inv:
  assumes "run_session E evs s = (s', r)" "j_inv E s"
  shows "returns_ok (e_rules E) (j_log s') \<and> (r \<noteq> Inr False \<longrightarrow> j_inv E s') \<and> ss_mode (j_flow s') = ss_mode (j_flow s)"
  using assms
proof (induction evs arbitrary: s)
  case Nil
  then show ?case by (simp add: j_inv_def)
next
  case (Cons ev evs)
  from Cons.prems(1) show ?case unfolding run_session.simps
  proof (cases rule: attempt_cases)
    case (1 e)
    with turn_inv [of E ev s s'] Cons.prems(2) show ?thesis by auto
  next
    case (2 t more)
    with turn_inv [OF 2(1) Cons.prems(2)] Cons.IH [of t] show ?thesis by (cases more) auto
  qed
qed

lemma start_inv: "j_inv E (start_session E mode h hs rs acqs faults)"
proof -
  let ?s = "\<lparr>j_held = Some \<lparr>jc_handle = h, jc_poisoned = False\<rparr>, j_handle = h, j_flow = new_session mode,
        j_statements = (\<lambda>_. None), j_portals = (\<lambda>_. None), j_failed = False, j_exchanges = 0, j_rows = 0,
        j_holders = hs, j_client = \<lparr>cl_faults = faults, cl_log = []\<rparr>, j_replies = rs, j_acquires = acqs,
        j_log = [Borrowed h], j_ticks = 0\<rparr>"
  have "j_inv E ?s" by (simp add: j_inv_def agrees_def ledger_def returns_ok_def new_session_def Cons_eq_append_conv)
  then show ?thesis unfolding start_session_def
    using release_if_idle_keeps [of E ?s] report_holder_keeps [of E "release_if_idle E ?s"] by (simp add: keeps_def)
qed



text \<open>A session that has failed answers nothing but a sync, a query or a close until then.\<close>

lemma failed_session_is_silent:
  assumes "j_failed s" "tag m \<in> set ''PBDE''"
  shows "on_message E m s = (s, Inr True)"
  using assms by (auto simp: on_message_def parse_def bind_def describe_def execute_def)

section \<open>An example\<close>

definition example_env :: Session_Env where
  "example_env =
     \<lparr>e_rules = \<lparr>reset_query = None, pins = [], shareable = [''SELECT'']\<rparr>, e_idle_in_transaction = 0,
      e_holder = \<lparr>hh_id = 1, hh_context = \<lparr>tc_pool = ''p'', tc_user = ''u'', tc_application = None, tc_client_addr = ''a''\<rparr>,
        hh_mode = Transaction\<rparr>,
      e_target = ''t'', e_io_text = (\<lambda>_. []), e_clock = (\<lambda>n. n), e_wall_ms = int\<rparr>"

definition example_session :: Session where
  "example_session = start_session example_env Transaction ''c1'' new_holder_registry
     [Inr (VObject [(''inTransaction'', VBool False)])] [Inr ''c2''] []"

definition example_query :: Message where
  "example_query = msg CHR ''Q'' (''select 1'' @ [NUL])"

definition example_log :: "Deed list" where
  "example_log =
     [Borrowed ''c1'', GaveBack \<lparr>jc_handle = ''c1'', jc_poisoned = False\<rparr>, Borrowed ''c2'',
      Asked ''execute'' ''select 1'' [] (Inr (VObject [(''inTransaction'', VBool False)]))]"

lemma example_turn:
  "j_log (fst (on_message example_env example_query example_session))
     = example_log @ [GaveBack \<lparr>jc_handle = ''c2'', jc_poisoned = False\<rparr>]"
  "snd (on_message example_env example_query example_session) = Inr True"
  by code_simp+



end
