(* ===== verification/Jdbc_Family.thy ===== *)
theory Jdbc_Family
  imports Jdbc_Agent Pool Config
begin

text \<open>
  The pools of the JDBC bridge and their connections (\<open>havuz-jdbc/src/conn.rs\<close>,
  \<open>family.rs\<close>, without \<open>serve\<close>). The Java process is outside: \<open>JvmWorld\<close> says which
  files exist, how starting an agent ends and what it answers to a request. A pool that
  leaves the map is kept, drained, in \<open>jf_retired\<close>. The results: a connection is called
  clean only after its reset ran, and the running pools are those of the configuration.
\<close>

section \<open>Connections\<close>

record JdbcConfig =
  jg_url :: string
  jg_user :: string
  jg_password :: string
  jg_driver_class :: "string option"
  jg_driver_paths :: "string list"
  jg_connect_timeout_ms :: u64
  jg_reset_query :: "string option"
  jg_label :: string

record JdbcBackend =
  jb_handle :: string
  jb_opened_at :: time
  jb_broken :: bool
  jb_server_version :: string
  jb_reset_query :: "string option"

definition is_alive :: "Agent \<Rightarrow> bool" where
  "is_alive a \<longleftrightarrow> ag_dead a = None"

definition poison_backend :: "JdbcBackend \<Rightarrow> JdbcBackend" where
  "poison_backend b = b\<lparr>jb_broken := True\<rparr>"

definition jdbc_is_broken :: "Agent \<Rightarrow> JdbcBackend \<Rightarrow> bool" where
  "jdbc_is_broken a b \<longleftrightarrow> jb_broken b \<or> \<not> is_alive a"

text \<open>A request is a method and its parameters.\<close>

type_synonym Request = "string \<times> Value"

definition reset_request :: "JdbcBackend \<Rightarrow> string \<Rightarrow> Request" where
  "reset_request b sql = (''reset'', VObject [(''session'', VString (jb_handle b)), (''sql'', VString sql)])"

definition close_request :: "JdbcBackend \<Rightarrow> Request" where
  "close_request b = (''close_session'', VObject [(''session'', VString (jb_handle b))])"

text \<open>\<open>call\<close> is the agent's answer; the last component is the request made, if any.\<close>

definition reset_jdbc :: "(Request \<Rightarrow> AgentError + Value) \<Rightarrow> JdbcBackend \<Rightarrow> ResetOutcome \<times> JdbcBackend \<times> Request list" where
  "reset_jdbc call b =
     (case jb_reset_query b of
        None \<Rightarrow> (Discard, b, [])
      | Some sql \<Rightarrow>
          (let req = reset_request b sql in
           case call req of
             Inr result \<Rightarrow>
               if (case Option.bind (json_get ''valid'' result) as_bool of Some v \<Rightarrow> v | None \<Rightarrow> True)
               then (Cleaned, b, [req])
               else (Discard, poison_backend b, [req])
           | Inl _ \<Rightarrow> (Discard, poison_backend b, [req])))"

definition nullable :: "string option \<Rightarrow> Value" where
  "nullable s = (case s of Some t \<Rightarrow> VString t | None \<Rightarrow> VNull)"

definition open_request :: "JdbcConfig \<Rightarrow> Request" where
  "open_request g =
     (''open_session'',
      VObject [(''url'', VString (jg_url g)), (''user'', VString (jg_user g)), (''password'', VString (jg_password g)),
        (''driverClass'', nullable (jg_driver_class g)), (''driverPaths'', VArray (map VString (jg_driver_paths g))),
        (''connectTimeoutMs'', VInt (uint (jg_connect_timeout_ms g)))])"

definition text_or :: "string \<Rightarrow> string \<Rightarrow> Value \<Rightarrow> string" where
  "text_or k d v = (case Option.bind (json_get k v) as_str of Some s \<Rightarrow> s | None \<Rightarrow> d)"

definition connect_jdbc :: "(Request \<Rightarrow> AgentError + Value) \<Rightarrow> time \<Rightarrow> JdbcConfig \<Rightarrow> ProtoError + JdbcBackend" where
  "connect_jdbc call now g =
     (case call (open_request g) of
        Inl e \<Rightarrow> Inl (agent_proto_error e)
      | Inr result \<Rightarrow>
          (case Option.bind (json_get ''session'' result) as_str of
             None \<Rightarrow> Inl (PBackend ''the agent opened a session without naming it'')
           | Some handle \<Rightarrow>
               Inr \<lparr>jb_handle = handle, jb_opened_at = now, jb_broken = False,
                    jb_server_version = trim (text_or ''serverName'' ''unknown'' result @ '' '' @ text_or ''serverVersion'' [] result),
                    jb_reset_query = jg_reset_query g\<rparr>))"

text \<open>One connection, opened and closed again. The requests it made come last.\<close>

definition probe_jdbc :: "(Request \<Rightarrow> AgentError + Value) \<Rightarrow> time \<Rightarrow> JdbcConfig \<Rightarrow> (ProtoError + string) \<times> Request list" where
  "probe_jdbc call now g =
     (case connect_jdbc call now g of
        Inl e \<Rightarrow> (Inl e, [open_request g])
      | Inr b \<Rightarrow> (Inr (jb_server_version b), [open_request g, close_request b]))"

record AgentCommand =
  ac_java :: string
  ac_jar :: string
  ac_options :: "string list"

definition new_command :: "string \<Rightarrow> string \<Rightarrow> AgentCommand" where
  "new_command java jar =
     \<lparr>ac_java = java, ac_jar = jar,
      ac_options = [''-XX:TieredStopAtLevel=1'', ''-XX:+UseSerialGC'', ''-Xss512k'', ''-Dfile.encoding=UTF-8'']\<rparr>"

definition default_jar :: "(string \<Rightarrow> bool) \<Rightarrow> string option" where
  "default_jar exists =
     List.find exists [''agent/build/havuz-agent.jar'', ''/usr/share/havuz/havuz-agent.jar'', ''/opt/havuz/havuz-agent.jar'']"

definition agent_command :: "(string \<Rightarrow> bool) \<Rightarrow> string option \<Rightarrow> string option \<Rightarrow> string + AgentCommand" where
  "agent_command exists jar java =
     (case (case jar of Some path \<Rightarrow> Some path | None \<Rightarrow> default_jar exists) of
        None \<Rightarrow> Inl ''no JDBC agent JAR found; build it with agent/build.sh or set the agent_jar setting''
      | Some path \<Rightarrow>
          if \<not> exists path then Inl (''the JDBC agent JAR '' @ path @ '' does not exist; build it with agent/build.sh'')
          else Inr (new_command (case java of Some j \<Rightarrow> j | None \<Rightarrow> ''java'') path))"

section \<open>Pools\<close>

record JvmWorld =
  jw_exists :: "string \<Rightarrow> bool"
  jw_start :: "AgentCommand \<Rightarrow> AgentError + Agent"
  jw_call :: "string \<Rightarrow> Request \<Rightarrow> AgentError + Value"     \<comment> \<open>the agent of a pool, by its name\<close>
  jw_now :: time
  jw_runtime :: bool                                          \<comment> \<open>called on a Tokio runtime\<close>

record JdbcPool =
  jp_name :: string
  jp_agent :: Agent
  jp_connector :: JdbcConfig
  jp_pool :: PoolState
  jp_label :: string
  jp_server_version :: string
  jp_mode :: PoolMode
  jp_rules :: SessionRules
  jp_idle_in_transaction :: duration
  jp_trace :: TraceLevel

record JdbcFamily =
  jf_pools :: "(string, JdbcPool) btree"
  jf_retired :: "JdbcPool list"                               \<comment> \<open>drained, their agents told to stop\<close>

definition new_jdbc_family :: JdbcFamily where
  "new_jdbc_family = \<lparr>jf_pools = [], jf_retired = []\<rparr>"

definition JDBC_ID :: string where
  "JDBC_ID = ''jdbc''"

definition ELLIPSIS :: string where
  "ELLIPSIS = [CHR 0xE2, CHR 0x80, CHR 0xA6]"

definition redact :: "string \<Rightarrow> string" where
  "redact url = (case Secrets.split_once CHR ''?'' url of Some (head, _) \<Rightarrow> head @ ''?'' @ ELLIPSIS | None \<Rightarrow> url)"

definition jdbc_setting :: "PoolConfig \<Rightarrow> string \<Rightarrow> string option" where
  "jdbc_setting pc key = Option.bind (map_of (pc_settings pc) key) json_str"

definition driver_paths :: "PoolConfig \<Rightarrow> string list" where
  "driver_paths pc =
     filter (\<lambda>p. p \<noteq> []) (map trim (split_on CHR '','' (or_empty (jdbc_setting pc ''driver_paths''))))"

definition quoted :: "string \<Rightarrow> string" where
  "quoted s = [CHR 0x27] @ s @ [CHR 0x27]"

definition config_for ::
  "Crypto \<Rightarrow> MasterKey \<Rightarrow> (string \<Rightarrow> bool) \<Rightarrow> string \<Rightarrow> PoolConfig \<Rightarrow> State \<Rightarrow> ProtoError + JdbcConfig"
where
  "config_for c k exists name pc st =
     (let conn = connection_of JDBC (pc_settings pc);
          password = (case get c k (pool_backend_password name) (st_secrets st) of Inr p \<Rightarrow> p | Inl _ \<Rightarrow> []);
          paths = driver_paths pc
      in if paths = [] then Inl (PBackend (''pool '' @ quoted name @
           '' has no JDBC driver JARs; vendor drivers are rarely redistributable and must be supplied''))
      else case List.find (\<lambda>p. \<not> exists p) paths of
        Some path \<Rightarrow> Inl (PBackend (''pool '' @ quoted name @ '': driver JAR '' @ path @ '' does not exist''))
      | None \<Rightarrow>
          if cn_host conn = [] then Inl (PBackend (''pool '' @ quoted name @ '' has no JDBC URL''))
          else Inr \<lparr>jg_url = cn_host conn, jg_user = cn_user conn,
               jg_password = (case cn_password conn of Some p \<Rightarrow> p | None \<Rightarrow> password),
               jg_driver_class = (case jdbc_setting pc ''driver_class'' of Some s \<Rightarrow> if s = [] then None else Some s | None \<Rightarrow> None),
               jg_driver_paths = paths,
               jg_connect_timeout_ms = word_of_nat (connect_timeout (pc_limits pc) div 1000000),
               jg_reset_query = pool_reset_query pc,
               jg_label = redact (cn_host conn)\<rparr>)"

text \<open>A pool the document validates has a profile; the \<open>expect\<close> is \<open>the\<close>.\<close>

definition build_jdbc :: "Crypto \<Rightarrow> MasterKey \<Rightarrow> JvmWorld \<Rightarrow> string \<Rightarrow> PoolConfig \<Rightarrow> State \<Rightarrow> ProtoError + JdbcPool" where
  "build_jdbc c k w name pc st =
     (case config_for c k (jw_exists w) name pc st of
        Inl e \<Rightarrow> Inl e
      | Inr g \<Rightarrow>
          (case agent_command (jw_exists w) (jdbc_setting pc ''agent_jar'') (jdbc_setting pc ''java'') of
             Inl e \<Rightarrow> Inl (PBackend e)
           | Inr cmd \<Rightarrow>
               (case jw_start w cmd of
                  Inl e \<Rightarrow> Inl (agent_proto_error e)
                | Inr a \<Rightarrow>
                    (case fst (probe_jdbc (jw_call w name) (jw_now w) g) of
                       Inl e \<Rightarrow> Inl e
                     | Inr version \<Rightarrow>
                         Inr \<lparr>jp_name = name, jp_agent = a, jp_connector = g, jp_pool = new_pool (name @ ''/jdbc'') (pc_limits pc),
                              jp_label = jg_label g, jp_server_version = version, jp_mode = pc_mode pc,
                              jp_rules = q_session (dp_quirks (the (pool_profile pc))),
                              jp_idle_in_transaction = idle_in_transaction_timeout (pc_limits pc),
                              jp_trace = pc_trace pc\<rparr>))))"

definition build_blocking :: "Crypto \<Rightarrow> MasterKey \<Rightarrow> JvmWorld \<Rightarrow> string \<Rightarrow> PoolConfig \<Rightarrow> State \<Rightarrow> ProtoError + JdbcPool" where
  "build_blocking c k w name pc st =
     (if jw_runtime w then build_jdbc c k w name pc st
      else Inl (PBackend ''building a JDBC pool requires a Tokio runtime''))"

definition jdbc_live :: "PoolConfig \<Rightarrow> bool" where
  "jdbc_live pc \<longleftrightarrow> pc_family pc = JDBC_ID \<and> \<not> pc_disabled pc"

text \<open>The loop that builds what is missing; it ends at the first pool that cannot be built.\<close>

fun build_missing_jdbc ::
  "Crypto \<Rightarrow> MasterKey \<Rightarrow> JvmWorld \<Rightarrow> State \<Rightarrow> (string \<times> PoolConfig) list \<Rightarrow> (string, JdbcPool) btree \<Rightarrow> (string, JdbcPool) btree \<times> ProtoError option"
where
  "build_missing_jdbc c k w st [] pools = (pools, None)"
| "build_missing_jdbc c k w st ((name, pc) # rest) pools =
     (if \<not> jdbc_live pc \<or> map_of pools name \<noteq> None then build_missing_jdbc c k w st rest pools
      else (case build_blocking c k w name pc st of
          Inl e \<Rightarrow> (pools, Some e)
        | Inr p \<Rightarrow> build_missing_jdbc c k w st rest (btree_insert name p pools)))"

definition wanted_jdbc :: "State \<Rightarrow> string \<Rightarrow> bool" where
  "wanted_jdbc st name = (case map_of (st_pools st) name of Some pc \<Rightarrow> jdbc_live pc | None \<Rightarrow> False)"

definition retire_jdbc :: "JdbcPool \<Rightarrow> JdbcPool" where
  "retire_jdbc p = p\<lparr>jp_pool := snd (drain (jp_pool p))\<rparr>"

definition rebuild_jdbc :: "Crypto \<Rightarrow> MasterKey \<Rightarrow> JvmWorld \<Rightarrow> State \<Rightarrow> JdbcFamily \<Rightarrow> JdbcFamily \<times> (ProtoError + unit)" where
  "rebuild_jdbc c k w st jf =
     (case build_missing_jdbc c k w st (st_pools st) (jf_pools jf) of
        (pools, Some e) \<Rightarrow> (jf\<lparr>jf_pools := pools\<rparr>, Inl e)
      | (pools, None) \<Rightarrow>
          (jf\<lparr>jf_pools := filter (\<lambda>(name, _). wanted_jdbc st name) pools,
              jf_retired := jf_retired jf @ map (\<lambda>(_, p). retire_jdbc p) (filter (\<lambda>(name, _). \<not> wanted_jdbc st name) pools)\<rparr>,
           Inr ()))"

definition reload_jdbc :: "Crypto \<Rightarrow> MasterKey \<Rightarrow> JvmWorld \<Rightarrow> State \<Rightarrow> string \<Rightarrow> JdbcFamily \<Rightarrow> JdbcFamily \<times> (ProtoError + unit)" where
  "reload_jdbc c k w st name jf =
     rebuild_jdbc c k w st
       (jf\<lparr>jf_pools := btree_remove name (jf_pools jf),
           jf_retired := jf_retired jf @ (case map_of (jf_pools jf) name of Some p \<Rightarrow> [retire_jdbc p] | None \<Rightarrow> [])\<rparr>)"

definition jdbc_pool_snapshots :: "JdbcFamily \<Rightarrow> PoolSnapshot list" where
  "jdbc_pool_snapshots jf =
     sort_key sn_name (map (\<lambda>(_, p). (pool_snapshot (jp_pool p))\<lparr>sn_name := jp_name p\<rparr>) (jf_pools jf))"

text \<open>The probe of the admin interface: a connection is taken and given back.\<close>

record ProbeReport =
  pb_version :: string
  pb_latency_ms :: u64
  pb_read_only :: bool

definition probe_pool_jdbc :: "(PoolError \<Rightarrow> string) \<Rightarrow> string \<Rightarrow> PoolError + u64 \<Rightarrow> JdbcFamily \<Rightarrow> ProtoError + ProbeReport" where
  "probe_pool_jdbc pool_text name acquired jf =
     (case map_of (jf_pools jf) name of
        None \<Rightarrow> Inl (PNoRoute name)
      | Some p \<Rightarrow>
          (case acquired of
             Inl e \<Rightarrow> Inl (PBackend (pool_text e))
           | Inr latency \<Rightarrow> Inr \<lparr>pb_version = jp_server_version p, pb_latency_ms = latency, pb_read_only = False\<rparr>))"

section \<open>A connection is clean only after its reset\<close>

lemma reset_jdbc_Cleaned:
  "reset_jdbc call b = (Cleaned, b', reqs) \<longleftrightarrow>
     b' = b \<and> (\<exists>sql result. jb_reset_query b = Some sql \<and> reqs = [reset_request b sql] \<and> call (reset_request b sql) = Inr result
       \<and> Option.bind (json_get ''valid'' result) as_bool \<noteq> Some False)"
  by (auto simp: reset_jdbc_def Let_def split: option.splits sum.splits if_splits)

lemma reset_jdbc_not_clean:
  assumes "reset_jdbc call b = (r, b', reqs)"
  shows "r \<noteq> AlreadyClean \<and> (r = Discard \<longrightarrow> jb_reset_query b = None \<or> jb_broken b')"
  using assms by (auto simp: reset_jdbc_def poison_backend_def Let_def split: option.splits sum.splits if_splits)

section \<open>Labels\<close>

text \<open>What follows the question mark of a URL is not in its label.\<close>

lemma redact_query: "CHR ''?'' \<notin> set host \<Longrightarrow> redact (host @ CHR ''?'' # query) = host @ ''?'' @ ELLIPSIS"
  by (simp add: redact_def split_once_append)

text \<open>A credential that a dialect writes elsewhere in the URL stays in the label.\<close>

lemma redact_keeps_inline_credentials:
  "redact ''jdbc:oracle:thin:scott/tiger@db:1521'' = ''jdbc:oracle:thin:scott/tiger@db:1521''"
  by code_simp

section \<open>The pools follow the configuration\<close>

fun asks_jdbc :: "(string \<times> PoolConfig) list \<Rightarrow> string \<Rightarrow> bool" where
  "asks_jdbc [] n = False"
| "asks_jdbc ((name, pc) # rest) n \<longleftrightarrow> (n = name \<and> jdbc_live pc) \<or> asks_jdbc rest n"

lemma asks_jdbc_map_of: "btree pcs \<Longrightarrow> asks_jdbc pcs n \<longleftrightarrow> (case map_of pcs n of Some pc \<Rightarrow> jdbc_live pc | None \<Rightarrow> False)"
proof -
  have "asks_jdbc pcs n \<longleftrightarrow> (\<exists>pc. (n, pc) \<in> set pcs \<and> jdbc_live pc)" by (induction pcs n rule: asks_jdbc.induct) auto
  then show "btree pcs \<Longrightarrow> ?thesis" by (auto simp: btree_lookup [symmetric] split: option.splits)
qed

lemma build_missing_jdbc_result:
  "build_missing_jdbc c k w st pcs pools = (pools', r) \<Longrightarrow> btree pools \<Longrightarrow>
     btree pools' \<and> (map_of pools n = Some p \<longrightarrow> map_of pools' n = Some p)
     \<and> (\<not> asks_jdbc pcs n \<longrightarrow> map_of pools' n = map_of pools n)
     \<and> (r = None \<longrightarrow> asks_jdbc pcs n \<longrightarrow> map_of pools' n \<noteq> None)"
proof (induction c k w st pcs pools arbitrary: pools' p rule: build_missing_jdbc.induct)
  case (2 c k w st name pc rest pools)
  show ?case
  proof (cases "\<not> jdbc_live pc \<or> map_of pools name \<noteq> None")
    case True
    with "2.prems" have "build_missing_jdbc c k w st rest pools = (pools', r)" by simp
    note IH = "2.IH"(1) [OF True this "2.prems"(2)]
    then show ?thesis using True by (cases "map_of pools n") auto
  next
    case False
    show ?thesis
    proof (cases "build_blocking c k w name pc st")
      case (Inl e)
      with False "2.prems" show ?thesis by auto
    next
      case (Inr q)
      with False "2.prems" have "build_missing_jdbc c k w st rest (btree_insert name q pools) = (pools', r)" by simp
      note IH = "2.IH"(2) [OF False Inr this btree_insert [OF "2.prems"(2)]]
      show ?thesis using IH [of p] IH [of q] False "2.prems"(2) by (cases "n = name") auto
    qed
  qed
qed simp

lemma build_missing_jdbc_nothing:
  "(\<And>n. asks_jdbc pcs n \<Longrightarrow> map_of pools n \<noteq> None) \<Longrightarrow> build_missing_jdbc c k w st pcs pools = (pools, None)"
  by (induction pcs) auto

lemma rebuild_jdbc_result:
  assumes "btree (st_pools st)" "btree (jf_pools jf)" "rebuild_jdbc c k w st jf = (jf', r)"
  shows "btree (jf_pools jf')"
    and "r = Inr u \<Longrightarrow> map_of (jf_pools jf') n \<noteq> None \<longleftrightarrow> wanted_jdbc st n"
    and "r = Inr u \<Longrightarrow> rebuild_jdbc c k w st jf' = (jf', Inr ())"
    and "r = Inl e \<or> wanted_jdbc st n \<Longrightarrow> map_of (jf_pools jf) n = Some p \<Longrightarrow> map_of (jf_pools jf') n = Some p"
proof -
  obtain pools res where b: "build_missing_jdbc c k w st (st_pools st) (jf_pools jf) = (pools, res)" by fastforce
  note built = build_missing_jdbc_result [OF b assms(2)]
  have asks: "asks_jdbc (st_pools st) m = wanted_jdbc st m" for m
    using asks_jdbc_map_of [OF assms(1)] by (simp add: wanted_jdbc_def)
  have none: "map_of (filter (\<lambda>(name, _). wanted_jdbc st name) pools) m = (if wanted_jdbc st m then map_of pools m else None)" for m
    by (induction pools) auto
  show "btree (jf_pools jf')" using assms(3) b built by (auto simp: rebuild_jdbc_def btree_filter split: option.splits)
  show "map_of (jf_pools jf') n = Some p" if "r = Inl e \<or> wanted_jdbc st n" "map_of (jf_pools jf) n = Some p"
    using that assms(3) b built [of n p] by (auto simp: rebuild_jdbc_def none split: option.splits)
  assume r: "r = Inr u"
  with assms(3) b have ok: "res = None" "jf_pools jf' = filter (\<lambda>(name, _). wanted_jdbc st name) pools"
    by (auto simp: rebuild_jdbc_def split: option.splits)
  show live: "map_of (jf_pools jf') n \<noteq> None \<longleftrightarrow> wanted_jdbc st n" for n
    using built [of n] ok asks by (simp add: none)
  have "build_missing_jdbc c k w st (st_pools st) (jf_pools jf') = (jf_pools jf', None)"
    by (rule build_missing_jdbc_nothing) (use live asks in blast)
  moreover have "filter (\<lambda>(name, _). wanted_jdbc st name) (jf_pools jf') = jf_pools jf'"
    "filter (\<lambda>(name, _). \<not> wanted_jdbc st name) (jf_pools jf') = []"
    unfolding ok(2) by (auto simp: filter_empty_conv)
  ultimately show "rebuild_jdbc c k w st jf' = (jf', Inr ())" by (simp add: rebuild_jdbc_def)
qed

end
