(* ===== verification/Jdbc_Frame.thy ===== *)
theory Jdbc_Frame
  imports Jdbc_Session Txn_Frame
begin

text \<open>
  What a session of the JDBC bridge leaves alone, on every path (\<open>havuz-jdbc/src/session.rs\<close>):
  the entries of other sessions in the registry of holders, and the number of connections.
\<close>

definition gave_back :: "Deed \<Rightarrow> bool" where
  "gave_back d = (case d of GaveBack _ \<Rightarrow> True | _ \<Rightarrow> False)"

text \<open>The holders of others, and the connections: still to come, given back, held.\<close>

definition j_frame :: "Session_Env \<Rightarrow> Session \<Rightarrow> (u64, HolderEntry) btree \<times> nat" where
  "j_frame E s =
     (btree_remove (hh_id (e_holder E)) (hr_entries (j_holders s)),
      length (filter is_connection (j_acquires s)) + length (filter gave_back (j_log s))
        + (case j_held s of Some _ \<Rightarrow> 1 | None \<Rightarrow> 0))"

lemma attempt_frame [simp]: "(\<And>t x. f (fst (k t x)) = f t) \<Longrightarrow> f (fst (attempt r k)) = f (fst r)"
  by (simp add: attempt_def split: prod.split sum.split)

lemma j_frame_updates [simp]:
  "j_frame E (s\<lparr>j_handle := x1\<rparr>) = j_frame E s" "j_frame E (s\<lparr>j_flow := x2\<rparr>) = j_frame E s"
  "j_frame E (s\<lparr>j_statements := x3\<rparr>) = j_frame E s" "j_frame E (s\<lparr>j_portals := x4\<rparr>) = j_frame E s"
  "j_frame E (s\<lparr>j_failed := x5\<rparr>) = j_frame E s" "j_frame E (s\<lparr>j_exchanges := x6\<rparr>) = j_frame E s"
  "j_frame E (s\<lparr>j_rows := x7\<rparr>) = j_frame E s" "j_frame E (s\<lparr>j_client := x8\<rparr>) = j_frame E s"
  "j_frame E (s\<lparr>j_replies := x9\<rparr>) = j_frame E s" "j_frame E (s\<lparr>j_ticks := y1\<rparr>) = j_frame E s"
  by (simp_all add: j_frame_def)

lemma j_frame_send [simp]: "j_frame E (fst (j_send m s)) = j_frame E s"
  by (simp add: j_send_def split: prod.split option.split)

lemma j_frame_tell [simp]: "j_frame E (j_tell m s) = j_frame E s"
  by (simp add: j_tell_def)

lemma j_frame_report [simp]: "j_frame E (report_holder E s) = j_frame E s"
  by (simp add: report_holder_def j_frame_def pinned_holder_def idle_in_transaction_holder_def session_reserved_def Let_def
      split: option.split)

lemma j_frame_flow [simp]: "j_frame E (flow_event ev s) = j_frame E s"
  by (simp add: flow_event_def)

lemma j_frame_release [simp]: "j_frame E (release_if_idle E s) = j_frame E s"
  by (simp add: release_if_idle_def Let_def split: option.split) (simp add: j_frame_def deed_def gave_back_def)

lemma j_frame_backend [simp]: "j_frame E (fst (backend E s)) = j_frame E s"
  by (simp add: backend_def Let_def split: list.split sum.split) (simp add: j_frame_def deed_def gave_back_def)

lemma j_frame_poison [simp]: "j_frame E (poison s) = j_frame E s"
  by (cases "j_held s") (simp_all add: poison_def j_frame_def)

lemma j_frame_error [simp]: "j_frame E (observe_error e s) = j_frame E s"
  by (simp add: observe_error_def split: AgentError.split)

lemma j_frame_call [simp]: "j_frame E (fst (agent_call call_name sql vs s)) = j_frame E s"
  by (simp add: agent_call_def j_frame_def deed_def gave_back_def case_prod_unfold Let_def split: list.split)

lemma j_frame_abandon [simp]: "j_frame E (abandon s) = j_frame E s"
  by (simp add: abandon_def case_prod_unfold split: sum.split)

lemma j_frame_observe [simp]: "j_frame E (observe_statement E' sql t s) = j_frame E s"
  by (simp add: observe_statement_def Let_def split: option.split)

lemma j_frame_ask [simp]: "j_frame E (fst (ask E call_name sql vs s)) = j_frame E s"
  by (simp add: ask_def case_prod_unfold split: sum.split)

lemma j_frame_run_sql [simp]: "j_frame E (fst (run_sql E sql vs s)) = j_frame E s"
  by (simp add: run_sql_def Let_def)

lemma j_frame_describe_agent [simp]: "j_frame E (fst (agent_describe E sql s)) = j_frame E s"
  by (simp add: agent_describe_def)

lemma j_frame_control [simp]: "j_frame E (fst (control E c s)) = j_frame E s"
  by (simp add: control_def)

lemma j_frame_rows [simp]: "j_frame E (fst (send_rows rows s)) = j_frame E s"
  by (induction rows arbitrary: s) simp_all

lemma j_frame_emit [simp]: "j_frame E (fst (emit sql outc d s)) = j_frame E s"
  by (simp add: emit_def)

lemma j_frame_answers [simp]:
  "j_frame E (fst (fail code txt s)) = j_frame E s" "j_frame E (fst (report e s)) = j_frame E s"
  "j_frame E (fst (fail_with e s)) = j_frame E s" "j_frame E (fst (ready E s)) = j_frame E s" "j_frame E (fst (sync E s)) = j_frame E s"
  by (simp_all add: fail_def report_def fail_with_def ready_def sync_def Let_def)

lemma j_frame_simple_query [simp]: "j_frame E (fst (simple_query E bs s)) = j_frame E s"
  by (simp add: simple_query_def case_prod_unfold Let_def split: option.split sum.split)

lemma j_frame_extended [simp]:
  "j_frame E (fst (parse E bs s)) = j_frame E s" "j_frame E (fst (bind bs s)) = j_frame E s"
  "j_frame E (fst (describe bs s)) = j_frame E s" "j_frame E (fst (execute E bs s)) = j_frame E s"
  "j_frame E (fst (close bs s)) = j_frame E s"
  by (simp_all add: parse_def bind_def describe_def execute_def close_def case_prod_unfold Let_def split: option.split sum.split)

lemma j_frame_message [simp]: "j_frame E (fst (on_message E m s)) = j_frame E s"
  by (simp add: on_message_def Let_def)

lemma j_frame_turn [simp]: "j_frame E (fst (session_turn E ev s)) = j_frame E s"
  by (simp add: session_turn_def split: ClientEvent.split)

lemma j_frame_run [simp]: "j_frame E (fst (run_session E evs s)) = j_frame E s"
  by (induction evs arbitrary: s) simp_all

end
