(* ===== verification/Jdbc_Serve.thy ===== *)
theory Jdbc_Serve
  imports Serve_Properties Jdbc_Frame Jdbc_Family
begin

text \<open>
  A client of the JDBC bridge from its first byte to its last (\<open>JdbcFamily::serve\<close> of
  \<open>havuz-jdbc/src/family.rs\<close>): the handshake, the pool, the registries, the first connection,
  the session, and the reset of the connection it ends with. The results: a session leaves
  nothing behind, and the connection it ends with goes back closed or reset.
\<close>

section \<open>State\<close>

record Jdbc_Serving =
  js_state :: State
  js_identities :: EphemeralIdentities
  js_family :: JdbcFamily
  js_sessions :: SessionRegistry
  js_holders :: HolderRegistry
  js_pins :: PinRegistry
  js_client :: "StateAuthenticator Handshake.Client"
  js_relayed :: "Message list"
  js_pool :: "(PoolError + string) list"
  js_log :: "Deed list"

record Jdbc_World =
  jo_meanwhile :: "StateAuthenticator \<Rightarrow> StateAuthenticator"
  jo_now :: time
  jo_now_ms :: int
  jo_events :: "ClientEvent list"
  jo_replies :: "(AgentError + Value) list"
  jo_faults :: "string option list"
  jo_clock :: "nat \<Rightarrow> time"
  jo_wall :: "nat \<Rightarrow> int"

definition jdbc_handshake :: "Serve_Env \<Rightarrow> StateAuthenticator ClientHandshake" where
  "jdbc_handshake E =
     (let c = li_crypto (en_libs E)
      in new_handshake (resolve_client c (li_master_key (en_libs E))) (admit c (en_random E)))"

definition j_say :: "Message \<Rightarrow> Jdbc_Serving \<Rightarrow> Jdbc_Serving" where
  "j_say m sv = sv\<lparr>js_client := Handshake.tell m (js_client sv)\<rparr>"

section \<open>Before the session\<close>

text \<open>The authenticator of the bridge has no prober.\<close>

definition jdbc_shake_hands ::
  "Serve_Env \<Rightarrow> Jdbc_World \<Rightarrow> string \<Rightarrow> PoolRoute \<Rightarrow> Jdbc_Serving \<Rightarrow> Jdbc_Serving \<times> (ProtoError + HandshakeOutcome)"
where
  "jdbc_shake_hands E W peer route sv =
     (let au = \<lparr>au_state = js_state sv, au_identities = js_identities sv, au_prober = None\<rparr> in
      case run_for_pool (en_handshake E) (jo_meanwhile W) (jdbc_handshake E) peer route ((js_client sv)\<lparr>cl_auth := au\<rparr>) of
        (s, r) \<Rightarrow> (sv\<lparr>js_client := s, js_state := au_state (cl_auth s), js_identities := au_identities (cl_auth s)\<rparr>, r))"

definition find_jdbc_pool :: "ClientIdentity \<Rightarrow> Jdbc_Serving \<Rightarrow> Jdbc_Serving \<times> (ProtoError + JdbcPool)" where
  "find_jdbc_pool i sv =
     (case map_of (jf_pools (js_family sv)) (ci_pool i) of
        Some p \<Rightarrow> (sv, Inr p)
      | None \<Rightarrow>
          (j_say (fatal UNDEFINED_DATABASE (''pool '' @ in_quotes (ci_pool i) @ '' is not available'')) sv,
           Inl (PNoRoute (ci_pool i))))"

definition register_jdbc_session :: "Jdbc_World \<Rightarrow> ClientIdentity \<Rightarrow> Jdbc_Serving \<Rightarrow> Jdbc_Serving \<times> (ProtoError + u64)" where
  "register_jdbc_session W i sv =
     (let limit = (case map_of (st_users (js_state sv)) (ci_user i) of Some uc \<Rightarrow> uc_max_client_connections uc | None \<Rightarrow> 0) in
      case register (jo_now W) (jo_now_ms W) (ci_user i) (ci_pool i) (ci_application_name i) (ci_peer i) limit (js_sessions sv) of
        (reg, Inr sid) \<Rightarrow> (sv\<lparr>js_sessions := reg\<rparr>, Inr sid)
      | (reg, Inl (TooManySessions who cap)) \<Rightarrow>
          let txt = ''too many connections for user '' @ in_quotes who @ '' (limit '' @ decimal (unat cap) @ '')''
          in (j_say (fatal TOO_MANY_CONNECTIONS txt) (sv\<lparr>js_sessions := reg\<rparr>), Inl (PBackend txt)))"

definition drop_jdbc_session :: "u64 \<Rightarrow> Jdbc_Serving \<Rightarrow> Jdbc_Serving" where
  "drop_jdbc_session sid sv = sv\<lparr>js_sessions := deregister sid (js_sessions sv)\<rparr>"

definition open_jdbc_holder :: "Jdbc_World \<Rightarrow> ClientIdentity \<Rightarrow> PoolMode \<Rightarrow> Jdbc_Serving \<Rightarrow> HolderHandle \<times> Jdbc_Serving" where
  "open_jdbc_holder W i mode sv =
     (case holder_session (trace_context i) mode (js_holders sv) of
        (h, reg) \<Rightarrow> (h, sv\<lparr>js_holders := waiting_for_startup (jo_now W) (jo_now_ms W) h reg\<rparr>))"

definition drop_jdbc_holder :: "HolderHandle \<Rightarrow> Jdbc_Serving \<Rightarrow> Jdbc_Serving" where
  "drop_jdbc_holder h sv = sv\<lparr>js_holders := drop_handle h (js_holders sv)\<rparr>"

text \<open>Every refusal of the pool is told as too many connections; a pool with no more answers is draining.\<close>

definition jdbc_checkout :: "Serve_Env \<Rightarrow> JdbcPool \<Rightarrow> Jdbc_Serving \<Rightarrow> Jdbc_Serving \<times> (ProtoError + string)" where
  "jdbc_checkout E p sv =
     (let refuse = (\<lambda>e sv. let txt = pool_error_text (he_io_text (en_handshake E)) e
            in (j_say (fatal TOO_MANY_CONNECTIONS txt) sv, Inl (PBackend txt)))
      in case js_pool sv of
           [] \<Rightarrow> refuse (Unavailable (jp_name p) ''draining'') sv
         | Inl e # as \<Rightarrow> refuse e (sv\<lparr>js_pool := as\<rparr>)
         | Inr handle # as \<Rightarrow> (sv\<lparr>js_pool := as\<rparr>, Inr handle))"

definition startup_parameters :: "string \<Rightarrow> (string \<times> string) list" where
  "startup_parameters server_version =
     [(''server_version'', ''16.0 (havuz jdbc bridge; '' @ server_version @ '')''), (''server_encoding'', ''UTF8''),
      (''client_encoding'', ''UTF8''), (''DateStyle'', ''ISO, MDY''), (''integer_datetimes'', ''on''),
      (''standard_conforming_strings'', ''on''), (''TimeZone'', ''UTC'')]"

section \<open>The session\<close>

definition jdbc_session_env :: "Serve_Env \<Rightarrow> Jdbc_World \<Rightarrow> JdbcPool \<Rightarrow> HolderHandle \<Rightarrow> Session_Env" where
  "jdbc_session_env E W p h =
     \<lparr>e_rules = jp_rules p, e_idle_in_transaction = (if multiplexes (jp_mode p) then jp_idle_in_transaction p else 0),
      e_holder = h, e_target = jp_label p, e_io_text = he_io_text (en_handshake E), e_clock = jo_clock W, e_wall_ms = jo_wall W\<rparr>"

text \<open>
  \<open>Checkout::recycle\<close> on what the session still holds: a reset that is not configured, is
  refused or fails leaves a connection that is closed.
\<close>

definition recycle_jdbc :: "string option \<Rightarrow> JdbcCheckout \<Rightarrow> Session \<Rightarrow> Session" where
  "recycle_jdbc rq co s =
     (case rq of
        None \<Rightarrow> deed (GaveBack (co\<lparr>jc_poisoned := True\<rparr>)) s
      | Some sql \<Rightarrow>
          (case agent_call ''reset'' sql [] s of
             (s, Inr result) \<Rightarrow>
               if (case Option.bind (json_get ''valid'' result) as_bool of Some v \<Rightarrow> v | None \<Rightarrow> True)
               then deed (GaveBack co) s else deed (GaveBack (co\<lparr>jc_poisoned := True\<rparr>)) s
           | (s, Inl _) \<Rightarrow> deed (GaveBack (co\<lparr>jc_poisoned := True\<rparr>)) s))"

definition finish_jdbc :: "string option \<Rightarrow> bool \<Rightarrow> Session \<Rightarrow> Session" where
  "finish_jdbc rq spoiled s =
     (case j_held s of
        None \<Rightarrow> s
      | Some co \<Rightarrow> recycle_jdbc rq (if spoiled then co\<lparr>jc_poisoned := True\<rparr> else co) (s\<lparr>j_held := None\<rparr>))"

definition count_jdbc_pins :: "Jdbc_World \<Rightarrow> ClientIdentity \<Rightarrow> PoolMode \<Rightarrow> PinReason option \<Rightarrow> Jdbc_Serving \<Rightarrow> Jdbc_Serving" where
  "count_jdbc_pins W i mode pinned sv =
     (if multiplexes mode
      then sv\<lparr>js_pins := (case pinned of
             Some pin \<Rightarrow> record_pin (jo_now W) (ci_user i) (ci_application_name i) pin (js_pins sv)
           | None \<Rightarrow> record_clean (js_pins sv))\<rparr>
      else sv)"

definition serve_jdbc_session ::
  "Serve_Env \<Rightarrow> Jdbc_World \<Rightarrow> ClientIdentity \<Rightarrow> JdbcPool \<Rightarrow> HolderHandle \<Rightarrow> string \<Rightarrow> Jdbc_Serving \<Rightarrow> Jdbc_Serving \<times> (ProtoError + ServeOutcome)"
where
  "serve_jdbc_session E W i p h handle sv =
     (case complete_startup (en_handshake E) (startup_parameters (jp_server_version p)) 0 0 (js_client sv) of
        (s, Inl e) \<Rightarrow>
          (sv\<lparr>js_client := s, js_log := js_log sv @ [Borrowed handle, GaveBack \<lparr>jc_handle = handle, jc_poisoned = False\<rparr>]\<rparr>, Inl e)
      | (s, Inr _) \<Rightarrow>
          (let E' = jdbc_session_env E W p h;
               started = start_session E' (jp_mode p) handle (js_holders sv) (jo_replies W) (js_pool sv) (jo_faults W)
           in case run_session E' (jo_events W) started of (ended, result) \<Rightarrow>
             let spoiled = (case result of Inl _ \<Rightarrow> True | Inr _ \<Rightarrow> False);
                 done_with = finish_jdbc (jg_reset_query (jp_connector p)) spoiled ended;
                 sv = sv\<lparr>js_client := s, js_pool := j_acquires done_with, js_log := js_log sv @ j_log done_with,
                         js_relayed := js_relayed sv @ cl_log (j_client done_with),
                         js_holders := holder_clear (hh_id h) (j_holders done_with)\<rparr>;
                 sv = count_jdbc_pins W i (jp_mode p) (pin_of ended) sv
             in (sv, case result of
                   Inl e \<Rightarrow> Inl e
                 | Inr _ \<Rightarrow> Inr \<lparr>so_authenticated = True, so_pinned = pin_of ended, so_exchanges = j_exchanges ended,
                                so_to_client = 0, so_to_backend = 0\<rparr>)))"

definition serve_jdbc_client ::
  "Serve_Env \<Rightarrow> Jdbc_World \<Rightarrow> ClientIdentity \<Rightarrow> Jdbc_Serving \<Rightarrow> Jdbc_Serving \<times> (ProtoError + ServeOutcome)"
where
  "serve_jdbc_client E W i sv =
     attempt (find_jdbc_pool i sv) (\<lambda>sv p.
     attempt (register_jdbc_session W i sv) (\<lambda>sv sid.
     dropping (drop_jdbc_session sid)
       (case open_jdbc_holder W i (jp_mode p) sv of (h, sv) \<Rightarrow>
        dropping (drop_jdbc_holder h)
          (attempt (jdbc_checkout E p sv) (\<lambda>sv handle. serve_jdbc_session E W i p h handle sv)))))"

text \<open>A cancel request is turned away: there is no way to interrupt a statement over JDBC.\<close>

definition serve_jdbc ::
  "Serve_Env \<Rightarrow> Jdbc_World \<Rightarrow> string \<Rightarrow> PoolRoute \<Rightarrow> Jdbc_Serving \<Rightarrow> Jdbc_Serving \<times> (ProtoError + ServeOutcome)"
where
  "serve_jdbc E W peer route sv =
     attempt (jdbc_shake_hands E W peer route sv) (\<lambda>sv outcome.
     case outcome of
       Cancel _ _ \<Rightarrow> (sv, Inr rejected)
     | Established i _ _ \<Rightarrow> serve_jdbc_client E W i sv)"

section \<open>A session leaves nothing behind\<close>

definition js_rest :: "Jdbc_Serving \<Rightarrow> nat" where
  "js_rest sv = length (filter is_connection (js_pool sv)) + length (filter gave_back (js_log sv))"

lemma recycle_jdbc_parts:
  "j_holders (recycle_jdbc rq co s) = j_holders s" "j_acquires (recycle_jdbc rq co s) = j_acquires s"
  "j_held (recycle_jdbc rq co s) = j_held s"
  "length (filter gave_back (j_log (recycle_jdbc rq co s))) = Suc (length (filter gave_back (j_log s)))"
  by (simp_all add: recycle_jdbc_def agent_call_def deed_def gave_back_def case_prod_unfold Let_def
      split: option.split sum.split list.split)

lemma finish_jdbc_frame:
  "j_held (finish_jdbc rq spoiled s) = None" "j_frame E (finish_jdbc rq spoiled s) = j_frame E s"
  by (simp_all add: finish_jdbc_def j_frame_def recycle_jdbc_parts split: option.split)

lemma start_session_frame:
  "j_frame E (start_session E mode handle hs rs acqs faults)
    = (btree_remove (hh_id (e_holder E)) (hr_entries hs), Suc (length (filter is_connection acqs)))"
  by (simp add: start_session_def) (simp add: j_frame_def gave_back_def)

lemma serve_jdbc_session_frame:
  assumes "serve_jdbc_session E W i p h handle sv = (sv', r)"
  shows "js_sessions sv' = js_sessions sv"
    and "btree_remove (hh_id h) (hr_entries (js_holders sv')) = btree_remove (hh_id h) (hr_entries (js_holders sv))"
    and "js_rest sv' = Suc (js_rest sv)"
proof -
  obtain s res where c: "complete_startup (en_handshake E) (startup_parameters (jp_server_version p)) 0 0 (js_client sv) = (s, res)"
    by (metis surj_pair)
  have "js_sessions sv' = js_sessions sv
    \<and> btree_remove (hh_id h) (hr_entries (js_holders sv')) = btree_remove (hh_id h) (hr_entries (js_holders sv))
    \<and> js_rest sv' = Suc (js_rest sv)"
  proof (cases res)
    case (Inl e)
    with assms c show ?thesis by (auto simp: serve_jdbc_session_def js_rest_def gave_back_def)
  next
    case (Inr u)
    let ?E = "jdbc_session_env E W p h"
    let ?start = "start_session ?E (jp_mode p) handle (js_holders sv) (jo_replies W) (js_pool sv) (jo_faults W)"
    obtain ended result where run: "run_session ?E (jo_events W) ?start = (ended, result)" by (metis surj_pair)
    define last where "last = finish_jdbc (jg_reset_query (jp_connector p)) (case result of Inl _ \<Rightarrow> True | Inr _ \<Rightarrow> False) ended"
    have frame: "j_frame ?E last = j_frame ?E ?start" "j_held last = None"
      using j_frame_run [of ?E "jo_events W" ?start] run by (simp_all add: last_def finish_jdbc_frame)
    have h: "e_holder ?E = h" by (simp add: jdbc_session_env_def)
    have parts: "btree_remove (hh_id h) (hr_entries (j_holders last)) = btree_remove (hh_id h) (hr_entries (js_holders sv))"
      "length (filter is_connection (j_acquires last)) + length (filter gave_back (j_log last)) = Suc (length (filter is_connection (js_pool sv)))"
      using frame by (simp_all add: start_session_frame h) (simp_all add: j_frame_def h)
    show ?thesis using assms c Inr run parts
      by (auto simp: serve_jdbc_session_def last_def [symmetric] count_jdbc_pins_def js_rest_def Let_def)
  qed
  then show "js_sessions sv' = js_sessions sv"
      "btree_remove (hh_id h) (hr_entries (js_holders sv')) = btree_remove (hh_id h) (hr_entries (js_holders sv))"
      "js_rest sv' = Suc (js_rest sv)" by blast+
qed

lemma jdbc_checkout_frame:
  assumes "jdbc_checkout E p sv = (sv', r)"
  shows "js_sessions sv' = js_sessions sv" and "js_holders sv' = js_holders sv"
    and "js_rest sv = js_rest sv' + (case r of Inr _ \<Rightarrow> 1 | Inl _ \<Rightarrow> 0)"
  using assms by (auto simp: jdbc_checkout_def j_say_def js_rest_def Let_def split: list.splits sum.splits)

lemma serve_jdbc_client_frame:
  assumes "serve_jdbc_client E W i sv = (sv', r)"
    and "map_of (sr_entries (js_sessions sv)) (sr_next_id (js_sessions sv)) = None"
    and "map_of (hr_entries (js_holders sv)) (hr_next_id (js_holders sv)) = None"
  shows "sr_entries (js_sessions sv') = sr_entries (js_sessions sv) \<and> hr_entries (js_holders sv') = hr_entries (js_holders sv)
    \<and> js_rest sv' = js_rest sv"
  using assms(1) [unfolded serve_jdbc_client_def]
proof (cases rule: attempt_cases)
  case (1 e)
  then show ?thesis by (auto simp: find_jdbc_pool_def j_say_def js_rest_def split: option.splits)
next
  case (2 sv1 p)
  then have "sv1 = sv" by (auto simp: find_jdbc_pool_def split: option.splits)
  from 2(2) [unfolded this] show ?thesis
  proof (cases rule: attempt_cases)
    case (1 e)
    then show ?thesis by (auto simp: register_jdbc_session_def register_def j_say_def js_rest_def Let_def split: if_splits)
  next
    case (2 sv2 sid)
    have sid: "sid = sr_next_id (js_sessions sv)" "js_holders sv2 = js_holders sv" "js_rest sv2 = js_rest sv"
      "btree_remove sid (sr_entries (js_sessions sv2)) = btree_remove sid (sr_entries (js_sessions sv))"
      using 2(1) by (auto simp: register_jdbc_session_def register_def js_rest_def Let_def split: if_splits)
    obtain h sv3 where h: "open_jdbc_holder W i (jp_mode p) sv2 = (h, sv3)" by (metis surj_pair)
    have sv3: "hh_id h = hr_next_id (js_holders sv)" "js_sessions sv3 = js_sessions sv2" "js_rest sv3 = js_rest sv2"
      "btree_remove (hh_id h) (hr_entries (js_holders sv3)) = btree_remove (hh_id h) (hr_entries (js_holders sv))"
      using h sid(2) by (auto simp: open_jdbc_holder_def holder_session_def waiting_for_startup_def holder_set_def js_rest_def)
    obtain sv4 r4 where b: "attempt (jdbc_checkout E p sv3) (\<lambda>sv handle. serve_jdbc_session E W i p h handle sv) = (sv4, r4)"
      by (metis surj_pair)
    then have sv4: "js_sessions sv4 = js_sessions sv3 \<and> js_rest sv4 = js_rest sv3
      \<and> btree_remove (hh_id h) (hr_entries (js_holders sv4)) = btree_remove (hh_id h) (hr_entries (js_holders sv3))"
    proof (cases rule: attempt_cases)
      case (1 e)
      then show ?thesis using jdbc_checkout_frame [OF 1(1)] by simp
    next
      case (2 sv5 handle)
      then show ?thesis using jdbc_checkout_frame [OF 2(1)] serve_jdbc_session_frame [OF 2(2)] by simp
    qed
    have "sv' = drop_jdbc_session sid (drop_jdbc_holder h sv4)" using 2(2) h b by (simp add: dropping_def)
    then show ?thesis
      using sv4 sv3 sid assms(2,3) btree_remove_unused [of "sr_entries (js_sessions sv)" sid]
        btree_remove_unused [of "hr_entries (js_holders sv)" "hh_id h"]
      by (simp add: drop_jdbc_session_def drop_jdbc_holder_def deregister_def drop_handle_def holder_clear_def js_rest_def)
  qed
qed

text \<open>
  C14. A session of the bridge leaves nothing behind, however it ends: the registries of sessions
  and of holders have exactly the entries they had before, and every connection that the
  pool gave it has gone back.
\<close>

theorem jdbc_session_leaves_nothing_behind:
  assumes "serve_jdbc E W peer route sv = (sv', r)"
    and "map_of (sr_entries (js_sessions sv)) (sr_next_id (js_sessions sv)) = None"
    and "map_of (hr_entries (js_holders sv)) (hr_next_id (js_holders sv)) = None"
  shows "sr_entries (js_sessions sv') = sr_entries (js_sessions sv) \<and> hr_entries (js_holders sv') = hr_entries (js_holders sv)
    \<and> length (filter is_connection (js_pool sv')) + length (filter gave_back (js_log sv'))
        = length (filter is_connection (js_pool sv)) + length (filter gave_back (js_log sv))"
  using assms(1) [unfolded serve_jdbc_def]
proof (cases rule: attempt_cases)
  case (1 e)
  then show ?thesis by (auto simp: jdbc_shake_hands_def Let_def split: prod.splits)
next
  case (2 sv1 outcome)
  then have sv1: "js_sessions sv1 = js_sessions sv" "js_holders sv1 = js_holders sv" "js_rest sv1 = js_rest sv"
    by (auto simp: jdbc_shake_hands_def js_rest_def Let_def split: prod.splits)
  from 2(2) show ?thesis
  proof (cases outcome)
    case (Established i sp credential)
    with 2(2) serve_jdbc_client_frame [of E W i sv1 sv' r] sv1 assms(2,3) show ?thesis by (simp add: js_rest_def)
  qed (use sv1 in \<open>auto simp: js_rest_def\<close>)
qed

section \<open>The last connection\<close>

definition back_clean :: "string option \<Rightarrow> JdbcCheckout \<Rightarrow> Deed list \<Rightarrow> bool" where
  "back_clean rq co log \<longleftrightarrow> (\<exists>front co'. log = front @ [GaveBack co'] \<and> (jc_poisoned co'
     \<or> co' = co \<and> (\<exists>rest sql v. front = rest @ [Asked ''reset'' sql [] (Inr v)] \<and> rq = Some sql
          \<and> Option.bind (json_get ''valid'' v) as_bool \<noteq> Some False)))"

lemma back_clean_append: "back_clean rq co log \<Longrightarrow> back_clean rq co (front @ log)"
  by (force simp: back_clean_def)

lemma back_clean_recycle: "back_clean rq co (j_log (recycle_jdbc rq co s))"
proof (cases rq)
  case None
  then show ?thesis by (auto simp: recycle_jdbc_def back_clean_def deed_def)
next
  case (Some sql)
  obtain rs r where call: "agent_call ''reset'' sql [] s = (deed (Asked ''reset'' sql [] r) (s\<lparr>j_replies := rs\<rparr>), r)"
    by (rule agent_call_cases)
  show ?thesis using Some call
    by (cases r) (auto simp: recycle_jdbc_def back_clean_def deed_def split: option.splits)
qed

text \<open>
  C15. The connection a session of the bridge still holds at its end goes back closed, or after
  the reset statement of its pool was run and the agent found the connection valid; it is
  closed in any case when the session ended with an error.
\<close>

theorem jdbc_session_ends_clean:
  assumes "serve_jdbc_session E W i p h handle sv = (sv', r)"
    and "complete_startup (en_handshake E) (startup_parameters (jp_server_version p)) 0 0 (js_client sv) = (s, Inr ())"
    and "run_session (jdbc_session_env E W p h) (jo_events W)
          (start_session (jdbc_session_env E W p h) (jp_mode p) handle (js_holders sv) (jo_replies W) (js_pool sv) (jo_faults W)) = (ended, result)"
    and "j_held ended = Some co"
  shows "\<exists>front co'. js_log sv' = front @ [GaveBack co'] \<and> (jc_poisoned co'
     \<or> co' = co \<and> result \<in> range Inr \<and> (\<exists>rest sql v. front = rest @ [Asked ''reset'' sql [] (Inr v)]
          \<and> jg_reset_query (jp_connector p) = Some sql \<and> Option.bind (json_get ''valid'' v) as_bool \<noteq> Some False))"
proof -
  let ?rq = "jg_reset_query (jp_connector p)"
  let ?co = "if (case result of Inl _ \<Rightarrow> True | Inr _ \<Rightarrow> False) then co\<lparr>jc_poisoned := True\<rparr> else co"
  have "js_log sv' = js_log sv @ j_log (recycle_jdbc ?rq ?co (ended\<lparr>j_held := None\<rparr>))"
    using assms by (auto simp: serve_jdbc_session_def finish_jdbc_def count_jdbc_pins_def Let_def)
  then have "back_clean ?rq ?co (js_log sv')" by (simp add: back_clean_append back_clean_recycle)
  then show ?thesis by (cases result) (auto simp: back_clean_def)
qed

section \<open>Instances\<close>

definition example_jdbc_pool :: JdbcPool where
  "example_jdbc_pool =
     \<lparr>jp_name = ''orders'', jp_agent = new_agent [],
      jp_connector = \<lparr>jg_url = ''jdbc:h2:mem:'', jg_user = ''app'', jg_password = ''pw'', jg_driver_class = None, jg_driver_paths = [],
        jg_connect_timeout_ms = 5, jg_reset_query = Some ''RESET'', jg_label = ''h2''\<rparr>,
      jp_pool = new_pool ''orders/jdbc'' (pc_limits (example_pool Session 6432 [])), jp_label = ''h2'', jp_server_version = ''2'',
      jp_mode = Session, jp_rules = \<lparr>reset_query = Some ''RESET'', pins = [], shareable = []\<rparr>, jp_idle_in_transaction = 0,
      jp_trace = TraceStatements\<rparr>"

definition jdbc_world :: Jdbc_World where
  "jdbc_world =
     \<lparr>jo_meanwhile = id, jo_now = 0, jo_now_ms = 0, jo_events = [], jo_replies = [Inr (VObject [(''valid'', VBool True)])],
      jo_faults = [], jo_clock = (\<lambda>n. n), jo_wall = int\<rparr>"

text \<open>A client whose password the authenticator has seen accepted before, and one free connection.\<close>

definition jdbc_serving :: Jdbc_Serving where
  "jdbc_serving =
     \<lparr>js_state = au_state example_authenticator,
      js_identities = [((''orders'', ''alice''), from_password example_lib ''salt'' ''pw'')],
      js_family = \<lparr>jf_pools = [(''orders'', example_jdbc_pool)], jf_retired = []\<rparr>, js_sessions = new_sessions,
      js_holders = new_holder_registry, js_pins = new_registry,
      js_client = example_client example_authenticator (encode_msg (msg CHR ''p'' (''pw'' @ [NUL]))),
      js_relayed = [], js_pool = [Inr ''c1''], js_log = []\<rparr>"

lemma jdbc_hands:
  "\<exists>sv1 i sp. jdbc_shake_hands example_serve_env jdbc_world ''peer'' example_route jdbc_serving = (sv1, Inr (Established i sp (Some ''pw'')))
    \<and> ci_user i = ''alice'' \<and> ci_pool i = ''orders'' \<and> js_state sv1 = js_state jdbc_serving \<and> js_family sv1 = js_family jdbc_serving
    \<and> js_sessions sv1 = new_sessions \<and> js_holders sv1 = new_holder_registry \<and> js_pool sv1 = [Inr ''c1''] \<and> js_log sv1 = []
    \<and> Handshake.Client.cl_faults (js_client sv1) = []"
proof -
  let ?m = "encode_msg (msg CHR ''p'' (''pw'' @ [NUL]))"
  let ?au = "\<lparr>au_state = au_state example_authenticator,
    au_identities = [((''orders'', ''alice''), from_password example_lib ''salt'' ''pw'')], au_prober = None\<rparr>"
  let ?s = "example_client ?au ?m" and ?v = "from_password example_lib ''salt'' ''pw''"
  have ch: "jdbc_handshake example_serve_env = example_handshake"
    by (simp add: jdbc_handshake_def example_serve_env_def example_handshake_def example_libs_def)
  have start: "startup_loop example_handshake_env (ch_tls example_handshake) ?s = (?s\<lparr>cl_in := ?m\<rparr>, Inr (Startup [(''user'', ''alice'')]))"
    by (rule startup_loop_next [OF _ example_startup]) (simp add: example_client_def)
  have policy: "resolve_client example_lib ''key'' ?au ''alice'' ''orders'' = Inr (CPlaintext ?v True)"
    by (simp add: resolve_client_def example_authenticator_def default_state_def example_pool_def is_passthrough_def
        passthrough_auth_def known_verifier_def)
  have fits: "matches_verifier example_lib ?v ''pw''"
    by (simp add: matches_verifier_def from_password_def from_password_with_def Let_def)
  have utf8: "from_utf8 ''pw'' = Some ''pw''" by code_simp
  have read: "read_password_message example_handshake_env t = (t\<lparr>cl_in := []\<rparr>, Inr (msg CHR ''p'' (''pw'' @ [NUL])))"
    if "cl_in t = ?m" for t :: "StateAuthenticator Handshake.Client"
    using read_password_next [of t "''pw'' @ [NUL]" "[]"] that by (simp add: MAX_MESSAGE_LEN_def)
  have crypto: "he_crypto example_handshake_env = example_lib" by (simp add: example_handshake_env_def)
  have "run_for_pool example_handshake_env id example_handshake ''peer'' example_route ?s =
      establish example_handshake_env id example_handshake ''peer'' example_route (Startup [(''user'', ''alice'')]) (?s\<lparr>cl_in := ?m\<rparr>)"
    by (simp only: run_for_pool_def start attempt_simps) (simp add: example_handshake_def new_handshake_def)
  moreover have "user (Startup [(''user'', ''alice'')]) = Inr ''alice''" by (simp add: user_def)
  ultimately have "\<exists>s' i ps. run_for_pool example_handshake_env id example_handshake ''peer'' example_route ?s
      = (s', Inr (Established i ps (Some ''pw''))) \<and> ci_user i = ''alice'' \<and> ci_pool i = ''orders''
      \<and> cl_auth s' = ?au \<and> Handshake.Client.cl_faults s' = []"
    by (simp add: establish_def choose_pool_def example_route_def sole_def may_ask_def
        needs_plaintext_def allow_without_tls_def prove_def cleartext_def put_quiet read [simplified] utf8 policy let_in_def
        example_client_def example_handshake_def new_handshake_def fits crypto)
  then obtain s' i ps where run: "run_for_pool example_handshake_env id example_handshake ''peer'' example_route ?s
      = (s', Inr (Established i ps (Some ''pw'')))" and s': "ci_user i = ''alice''" "ci_pool i = ''orders''" "cl_auth s' = ?au"
      "Handshake.Client.cl_faults s' = []" by blast
  have env: "en_handshake example_serve_env = example_handshake_env" "jo_meanwhile jdbc_world = id"
    "(js_client jdbc_serving)\<lparr>cl_auth := ?au\<rparr> = ?s"
    "\<lparr>au_state = js_state jdbc_serving, au_identities = js_identities jdbc_serving, au_prober = None\<rparr> = ?au"
    by (simp_all add: example_serve_env_def jdbc_world_def jdbc_serving_def example_client_def)
  have "jdbc_shake_hands example_serve_env jdbc_world ''peer'' example_route jdbc_serving
      = (jdbc_serving\<lparr>js_client := s', js_state := au_state (cl_auth s'), js_identities := au_identities (cl_auth s')\<rparr>,
         Inr (Established i ps (Some ''pw'')))"
    using run by (simp add: jdbc_shake_hands_def ch env Let_def)
  then show ?thesis using s' by (simp add: jdbc_serving_def)
qed

lemma jdbc_startup_quiet:
  "Handshake.Client.cl_faults s = [] \<Longrightarrow> \<exists>s'. complete_startup env ps pid secret s = (s', Inr ())"
  by (simp add: complete_startup_def put_parameters_quiet put_quiet)

lemma jdbc_session_served:
  assumes "Handshake.Client.cl_faults (js_client sv) = []" "jo_events W = []"
  shows "\<exists>sv' outcome. serve_jdbc_session E W i p h handle sv = (sv', Inr outcome) \<and> so_authenticated outcome"
proof -
  obtain s' where "complete_startup (en_handshake E) (startup_parameters (jp_server_version p)) 0 0 (js_client sv) = (s', Inr ())"
    using jdbc_startup_quiet [OF assms(1)] by blast
  then show ?thesis using assms(2) by (simp add: serve_jdbc_session_def Let_def)
qed

lemma jdbc_served:
  "\<exists>sv' outcome. serve_jdbc example_serve_env jdbc_world ''peer'' example_route jdbc_serving = (sv', Inr outcome) \<and> so_authenticated outcome"
proof -
  obtain sv1 i sp where h: "jdbc_shake_hands example_serve_env jdbc_world ''peer'' example_route jdbc_serving
      = (sv1, Inr (Established i sp (Some ''pw'')))"
    and i: "ci_user i = ''alice''" "ci_pool i = ''orders''" and sv1: "js_state sv1 = js_state jdbc_serving" "js_family sv1 = js_family jdbc_serving"
      "js_pool sv1 = [Inr ''c1'']" "Handshake.Client.cl_faults (js_client sv1) = []"
    using jdbc_hands by blast
  have p: "find_jdbc_pool i sv1 = (sv1, Inr example_jdbc_pool)" using i sv1(2) by (simp add: find_jdbc_pool_def jdbc_serving_def)
  obtain sid sv2 where r: "register_jdbc_session jdbc_world i sv1 = (sv2, Inr sid)" and sv2: "js_pool sv2 = [Inr ''c1'']" "js_client sv2 = js_client sv1"
    using i sv1(1,3) by (simp add: register_jdbc_session_def register_def jdbc_serving_def example_authenticator_def default_state_def Let_def)
  obtain hd sv3 where o: "open_jdbc_holder jdbc_world i (jp_mode example_jdbc_pool) sv2 = (hd, sv3)" by (metis surj_pair)
  have sv3: "js_pool sv3 = [Inr ''c1'']" "js_client sv3 = js_client sv1" using o sv2 by (auto simp: open_jdbc_holder_def split: prod.splits)
  have c: "jdbc_checkout example_serve_env example_jdbc_pool sv3 = (sv3\<lparr>js_pool := []\<rparr>, Inr ''c1'')" using sv3 by (simp add: jdbc_checkout_def Let_def)
  obtain sv4 outcome where "serve_jdbc_session example_serve_env jdbc_world i example_jdbc_pool hd ''c1'' (sv3\<lparr>js_pool := []\<rparr>) = (sv4, Inr outcome)"
    "so_authenticated outcome"
    using jdbc_session_served [of "sv3\<lparr>js_pool := []\<rparr>" jdbc_world example_serve_env i example_jdbc_pool hd "''c1''"] sv3 sv1(4)
    by (auto simp: jdbc_world_def)
  then show ?thesis using h p r o c by (simp add: serve_jdbc_def serve_jdbc_client_def dropping_def)
qed

theorem jdbc_session_leaves_nothing_behind_witness:
  "\<exists>sv' outcome. serve_jdbc example_serve_env jdbc_world ''peer'' example_route jdbc_serving = (sv', Inr outcome) \<and> so_authenticated outcome
     \<and> sr_entries (js_sessions sv') = [] \<and> length (filter is_connection (js_pool sv')) + length (filter gave_back (js_log sv')) = 1"
proof -
  obtain sv' outcome where run: "serve_jdbc example_serve_env jdbc_world ''peer'' example_route jdbc_serving = (sv', Inr outcome)"
    and out: "so_authenticated outcome" using jdbc_served by blast
  have "map_of (sr_entries (js_sessions jdbc_serving)) (sr_next_id (js_sessions jdbc_serving)) = None"
    "map_of (hr_entries (js_holders jdbc_serving)) (hr_next_id (js_holders jdbc_serving)) = None"
    by (simp_all add: jdbc_serving_def new_sessions_def new_holder_registry_def)
  from jdbc_session_leaves_nothing_behind [OF run this] run out show ?thesis
    by (simp add: jdbc_serving_def new_sessions_def)
qed

theorem jdbc_session_ends_clean_witness:
  "\<exists>sv' r front co'. serve_jdbc_session example_serve_env jdbc_world example_identity example_jdbc_pool example_handle ''c1'' jdbc_serving = (sv', r)
     \<and> js_log sv' = front @ [GaveBack co']"
proof -
  let ?E = "jdbc_session_env example_serve_env jdbc_world example_jdbc_pool example_handle"
  let ?start = "start_session ?E (jp_mode example_jdbc_pool) ''c1'' (js_holders jdbc_serving) (jo_replies jdbc_world) (js_pool jdbc_serving)
    (jo_faults jdbc_world)"
  obtain sv' r where run: "serve_jdbc_session example_serve_env jdbc_world example_identity example_jdbc_pool example_handle ''c1'' jdbc_serving
      = (sv', r)" by (metis surj_pair)
  have "Handshake.Client.cl_faults (js_client jdbc_serving) = []" by (simp add: jdbc_serving_def example_client_def)
  then obtain s where s: "complete_startup (en_handshake example_serve_env) (startup_parameters (jp_server_version example_jdbc_pool)) 0 0
      (js_client jdbc_serving) = (s, Inr ())" using jdbc_startup_quiet by blast
  have ended: "run_session ?E (jo_events jdbc_world) ?start = (?start, Inr True)" by (simp add: jdbc_world_def)
  have "j_held ?start = Some \<lparr>jc_handle = ''c1'', jc_poisoned = False\<rparr>"
    by (simp add: start_session_def release_if_idle_def report_holder_def is_releasable_def new_session_def example_jdbc_pool_def Let_def)
  from jdbc_session_ends_clean [OF run s ended this] run show ?thesis by blast
qed

end
