(* ===== verification/Control.thy ===== *)
theory Control
  imports Family Jdbc_Family
begin

text \<open>
  The families of a process behind one interface (\<open>ControlPlane\<close> and \<open>FamilySet\<close> of
  \<open>havuz-control/src/lib.rs\<close>). The contract of the trait is the locale \<open>control_plane\<close>: after
  a sync a family runs exactly its own enabled pools, a second sync changes nothing, and a
  sync that fails drops nothing. Both families meet it, and so does the trait object that
  is one of them; what a sync of all families gives is proved once from the contract.
\<close>

section \<open>The set of families\<close>

text \<open>
  \<open>sync_all\<close>, over the methods of the trait object: it stops at the first family that fails,
  and the error names it.
\<close>

fun sync_all ::
  "(ErrorKind \<Rightarrow> string) \<Rightarrow> ('f \<Rightarrow> string) \<Rightarrow> ('f \<Rightarrow> 'f \<times> (ProtoError + unit)) \<Rightarrow> 'f list \<Rightarrow> 'f list \<times> (ProtoError + unit)"
where
  "sync_all itext id_of sync [] = ([], Inr ())"
| "sync_all itext id_of sync (f # fs) =
     (case sync f of
        (f', Inl e) \<Rightarrow> (f' # fs, Inl (PBackend (''family '' @ quoted (id_of f) @ '': '' @ proto_text itext e)))
      | (f', Inr _) \<Rightarrow> (case sync_all itext id_of sync fs of (fs', r) \<Rightarrow> (f' # fs', r)))"

definition family_get :: "('f \<Rightarrow> string) \<Rightarrow> string \<Rightarrow> 'f list \<Rightarrow> 'f option" where
  "family_get id_of fid fs = List.find (\<lambda>f. id_of f = fid) fs"

definition for_pool :: "('f \<Rightarrow> string) \<Rightarrow> State \<Rightarrow> string \<Rightarrow> 'f list \<Rightarrow> 'f option" where
  "for_pool id_of st pool fs = Option.bind (map_of (st_pools st) pool) (\<lambda>pc. family_get id_of (pc_family pc) fs)"

definition all_snapshots :: "('f \<Rightarrow> PoolSnapshot list) \<Rightarrow> 'f list \<Rightarrow> PoolSnapshot list" where
  "all_snapshots snaps fs = sort_key sn_name (concat (map snaps fs))"

definition all_identities :: "('f \<Rightarrow> (string \<times> string \<times> PoolSnapshot) list) \<Rightarrow> 'f list \<Rightarrow> (string \<times> string \<times> PoolSnapshot) list" where
  "all_identities idents fs = sort_key (\<lambda>(pool, who, _). (pool, who)) (concat (map idents fs))"

text \<open>\<open>families.get(\&family)\<close> followed by a call on it: the one found is replaced by its new state.\<close>

fun on_family :: "('f \<Rightarrow> string) \<Rightarrow> string \<Rightarrow> ('f \<Rightarrow> 'f \<times> 'r) \<Rightarrow> 'f list \<Rightarrow> 'f list \<times> 'r option" where
  "on_family id_of fid act [] = ([], None)"
| "on_family id_of fid act (f # fs) =
     (if id_of f = fid then (case act f of (f', r) \<Rightarrow> (f' # fs, Some r))
      else (case on_family id_of fid act fs of (fs', r) \<Rightarrow> (f # fs', r)))"

section \<open>The contract of a family\<close>

definition owned :: "string \<Rightarrow> State \<Rightarrow> string \<Rightarrow> bool" where
  "owned fid st n = (case map_of (st_pools st) n of Some pc \<Rightarrow> pc_family pc = fid \<and> \<not> pc_disabled pc | None \<Rightarrow> False)"

locale control_plane =
  fixes id_of :: "'f \<Rightarrow> string"
    and sync :: "State \<Rightarrow> 'f \<Rightarrow> 'f \<times> (ProtoError + unit)"
    and running :: "'f \<Rightarrow> string \<Rightarrow> bool"
    and wf :: "'f \<Rightarrow> bool"
  assumes sync_id: "sync st f = (f', r) \<Longrightarrow> id_of f' = id_of f"
    and sync_wf: "btree (st_pools st) \<Longrightarrow> wf f \<Longrightarrow> sync st f = (f', r) \<Longrightarrow> wf f'"
    and sync_done: "btree (st_pools st) \<Longrightarrow> wf f \<Longrightarrow> sync st f = (f', Inr u) \<Longrightarrow> running f' n \<longleftrightarrow> owned (id_of f) st n"
    and sync_again: "btree (st_pools st) \<Longrightarrow> wf f \<Longrightarrow> sync st f = (f', Inr u) \<Longrightarrow> sync st f' = (f', Inr ())"
    and sync_failed: "btree (st_pools st) \<Longrightarrow> wf f \<Longrightarrow> sync st f = (f', Inl e) \<Longrightarrow> running f n \<Longrightarrow> running f' n"
begin

lemma sync_all_ids:
  "sync_all itext id_of (sync st) fs = (fs', r) \<Longrightarrow> map id_of fs' = map id_of fs"
  by (induction fs arbitrary: fs' r) (auto dest: sync_id split: prod.splits sum.splits)

lemma sync_all_wf:
  "sync_all itext id_of (sync st) fs = (fs', r) \<Longrightarrow> btree (st_pools st) \<Longrightarrow> list_all wf fs \<Longrightarrow> list_all wf fs'"
  by (induction fs arbitrary: fs' r) (auto dest: sync_wf split: prod.splits sum.splits)

lemma sync_all_done:
  "sync_all itext id_of (sync st) fs = (fs', Inr u) \<Longrightarrow> btree (st_pools st) \<Longrightarrow> list_all wf fs \<Longrightarrow> f' \<in> set fs' \<Longrightarrow>
     running f' n \<longleftrightarrow> owned (id_of f') st n"
  by (induction fs arbitrary: fs') (auto simp: sync_id sync_done split: prod.splits sum.splits)

lemma sync_all_again:
  "sync_all itext id_of (sync st) fs = (fs', Inr u) \<Longrightarrow> btree (st_pools st) \<Longrightarrow> list_all wf fs \<Longrightarrow>
     sync_all itext id_of (sync st) fs' = (fs', Inr ())"
  by (induction fs arbitrary: fs') (auto dest: sync_again split: prod.splits sum.splits)

lemma some_runs_iff:
  assumes "sync_all itext id_of (sync st) fs = (fs', Inr u)" "btree (st_pools st)" "list_all wf fs"
  shows "(\<exists>f \<in> set fs'. running f n) \<longleftrightarrow> (\<exists>fid \<in> set (map id_of fs). owned fid st n)"
proof -
  have "(\<exists>f \<in> set fs'. running f n) \<longleftrightarrow> (\<exists>f \<in> set fs'. owned (id_of f) st n)"
    using sync_all_done [OF assms] by blast
  also have "\<dots> \<longleftrightarrow> (\<exists>fid \<in> set (map id_of fs'). owned fid st n)" by auto
  finally show ?thesis by (simp only: sync_all_ids [OF assms(1)])
qed

end

lemma owned_unique: "owned fid st n \<Longrightarrow> owned gid st n \<Longrightarrow> fid = gid"
  by (auto simp: owned_def split: option.splits)

section \<open>The PostgreSQL family meets it\<close>

lemma build_missing_none:
  "(\<And>n pc. (n, pc) \<in> set pcs \<Longrightarrow> ours pc \<Longrightarrow> map_of pools n \<noteq> None) \<Longrightarrow> build_missing li now st pcs pools = (pools, None)"
proof (induction pcs)
  case (Cons e pcs)
  have "build_missing li now st pcs pools = (pools, None)" by (rule Cons.IH) (use Cons.prems in auto)
  moreover have "\<not> ours (snd e) \<or> map_of pools (fst e) \<noteq> None" using Cons.prems [of "fst e" "snd e"] by auto
  ultimately show ?case by (cases e) auto
qed simp
lemma is_live_owned: "is_live st n \<longleftrightarrow> owned FAMILY_ID st n"
  by (auto simp: is_live_def owned_def ours_def split: option.splits)

lemma build_missing_btree: "build_missing li now st pcs pools = (pools', r) \<Longrightarrow> btree pools \<Longrightarrow> btree pools'"
  by (induction li now st pcs pools arbitrary: pools' rule: build_missing.induct) (auto split: if_splits sum.splits)

lemma rebuild_pools_result:
  assumes "btree (st_pools st)" "btree (fa_pools fa)" "rebuild_pools li now st fa = (fa', r)"
  shows "btree (fa_pools fa')"
    and "r = Inr u \<Longrightarrow> map_of (fa_pools fa') n \<noteq> None \<longleftrightarrow> is_live st n"
    and "r = Inr u \<Longrightarrow> rebuild_pools li now st fa' = (fa', Inr ())"
    and "r = Inl e \<or> is_live st n \<Longrightarrow> map_of (fa_pools fa) n = Some p \<Longrightarrow> map_of (fa_pools fa') n = Some p"
proof -
  obtain pools res where b: "build_missing li now st (st_pools st) (fa_pools fa) = (pools, res)" by fastforce
  note kept = build_missing_keeps [OF b assms(2)]
  show "btree (fa_pools fa')"
    using assms(3) b build_missing_btree [OF b assms(2)]
    by (auto simp: rebuild_pools_def btree_filter Let_def split: option.splits)
  show "map_of (fa_pools fa') n = Some p" if "r = Inl e \<or> is_live st n" "map_of (fa_pools fa) n = Some p"
    using that assms(3) b kept by (auto simp: rebuild_pools_def map_of_filter_fst Let_def split: option.splits)
  assume "r = Inr u"
  with assms(3) b have ok: "res = None" "fa_pools fa' = filter (\<lambda>(name, _). is_live st name) pools"
    by (auto simp: rebuild_pools_def Let_def split: option.splits)
  have "distinct (map fst (st_pools st))" using assms(1) by (simp add: btree_def)
  note follow = build_missing_follows [OF b [unfolded ok(1)] assms(2) this]
  show live: "map_of (fa_pools fa') n \<noteq> None \<longleftrightarrow> is_live st n" for n
    using follow [of n] unfolding ok(2) map_of_filter_fst
    by (auto simp: is_live_def follows_def split: option.splits if_splits)
  have "build_missing li now st (st_pools st) (fa_pools fa') = (fa_pools fa', None)"
  proof (rule build_missing_none)
    fix m pc assume "(m, pc) \<in> set (st_pools st)" "ours pc"
    then have "is_live st m" using btree_lookup [OF assms(1), of m pc] by (simp add: is_live_def)
    then show "map_of (fa_pools fa') m \<noteq> None" using live by blast
  qed
  moreover have "filter (\<lambda>(name, _). is_live st name) (fa_pools fa') = fa_pools fa'"
    "filter (\<lambda>(name, _). \<not> is_live st name) (fa_pools fa') = []"
    unfolding ok(2) by (auto simp: filter_empty_conv)
  ultimately show "rebuild_pools li now st fa' = (fa', Inr ())" by (simp add: rebuild_pools_def)
qed

interpretation pg_plane: control_plane "\<lambda>_. FAMILY_ID" "rebuild_pools li now" "\<lambda>fa n. map_of (fa_pools fa) n \<noteq> None"
  "\<lambda>fa. btree (fa_pools fa)" for li now
  by unfold_locales (blast dest: rebuild_pools_result [unfolded is_live_owned])+

section \<open>The JDBC family meets it\<close>

lemma wanted_jdbc_owned: "wanted_jdbc st n \<longleftrightarrow> owned JDBC_ID st n"
  by (auto simp: wanted_jdbc_def owned_def jdbc_live_def split: option.splits)

interpretation jdbc_plane: control_plane "\<lambda>_. JDBC_ID" "rebuild_jdbc c k w" "\<lambda>jf n. map_of (jf_pools jf) n \<noteq> None"
  "\<lambda>jf. btree (jf_pools jf)" for c k w
  by unfold_locales (blast dest: rebuild_jdbc_result [unfolded wanted_jdbc_owned])+

section \<open>The families of this build\<close>

text \<open>A trait object is one of the two families; a method call is a case distinction.\<close>

datatype DynFamily = PgDyn PgFamily | JdbcDyn JdbcFamily

record World =
  wo_libs :: Libs
  wo_now :: time
  wo_jvm :: JvmWorld
  wo_io_text :: "ErrorKind \<Rightarrow> string"

fun descriptor_id :: "DynFamily \<Rightarrow> string" where
  "descriptor_id (PgDyn _) = FAMILY_ID"
| "descriptor_id (JdbcDyn _) = JDBC_ID"

fun sync_pools :: "World \<Rightarrow> State \<Rightarrow> DynFamily \<Rightarrow> DynFamily \<times> (ProtoError + unit)" where
  "sync_pools w st (PgDyn fa) = (case rebuild_pools (wo_libs w) (wo_now w) st fa of (fa', r) \<Rightarrow> (PgDyn fa', r))"
| "sync_pools w st (JdbcDyn jf) =
     (case rebuild_jdbc (li_crypto (wo_libs w)) (li_master_key (wo_libs w)) (wo_jvm w) st jf of (jf', r) \<Rightarrow> (JdbcDyn jf', r))"

fun reload_dyn :: "World \<Rightarrow> State \<Rightarrow> string \<Rightarrow> DynFamily \<Rightarrow> DynFamily \<times> (ProtoError + unit)" where
  "reload_dyn w st name (PgDyn fa) = (case reload_pool (wo_libs w) (wo_now w) st name fa of (fa', r) \<Rightarrow> (PgDyn fa', r))"
| "reload_dyn w st name (JdbcDyn jf) =
     (case reload_jdbc (li_crypto (wo_libs w)) (li_master_key (wo_libs w)) (wo_jvm w) st name jf of (jf', r) \<Rightarrow> (JdbcDyn jf', r))"

fun dyn_snapshots :: "DynFamily \<Rightarrow> PoolSnapshot list" where
  "dyn_snapshots (PgDyn fa) = pool_snapshots fa"
| "dyn_snapshots (JdbcDyn jf) = jdbc_pool_snapshots jf"

fun dyn_runs :: "DynFamily \<Rightarrow> string \<Rightarrow> bool" where
  "dyn_runs (PgDyn fa) n \<longleftrightarrow> map_of (fa_pools fa) n \<noteq> None"
| "dyn_runs (JdbcDyn jf) n \<longleftrightarrow> map_of (jf_pools jf) n \<noteq> None"

fun dyn_wf :: "DynFamily \<Rightarrow> bool" where
  "dyn_wf (PgDyn fa) = btree (fa_pools fa)"
| "dyn_wf (JdbcDyn jf) = btree (jf_pools jf)"

text \<open>\<open>build_one\<close>, and \<open>build\<close> over the usable families of the registry.\<close>

definition build_one :: "FamilyDescriptor \<Rightarrow> string + DynFamily" where
  "build_one d =
     (if fd_id d = FAMILY_ID then Inr (PgDyn new_family)
      else if fd_id d = JDBC_ID then Inr (JdbcDyn new_jdbc_family)
      else Inl (''family '' @ quoted (fd_id d) @ '' is usable in the registry but no driver is compiled into this build; ''
        @ ''either add the driver or set its maturity back to `planned`''))"

fun collect_built :: "FamilyDescriptor list \<Rightarrow> string + DynFamily list" where
  "collect_built [] = Inr []"
| "collect_built (d # ds) =
     (case build_one d of
        Inl e \<Rightarrow> Inl e
      | Inr f \<Rightarrow> (case collect_built ds of Inl e \<Rightarrow> Inl e | Inr fs \<Rightarrow> Inr (f # fs)))"

definition build_all :: "string + DynFamily list" where
  "build_all =
     (case collect_built usable_families of
        Inl e \<Rightarrow> Inl e
      | Inr fs \<Rightarrow> if fs = [] then Inl ''no protocol family is compiled into this build'' else Inr fs)"

definition sync_families :: "World \<Rightarrow> State \<Rightarrow> DynFamily list \<Rightarrow> DynFamily list \<times> (ProtoError + unit)" where
  "sync_families w st fs = sync_all (wo_io_text w) descriptor_id (sync_pools w st) fs"

text \<open>The certificate pair of the configuration, and what the families are given.\<close>

record ServerTls =
  tl_cert :: "string option"
  tl_key :: "string option"
  tl_require_client_cert :: bool

definition tls_is_enabled :: "ServerTls \<Rightarrow> bool" where
  "tls_is_enabled t \<longleftrightarrow> tl_cert t \<noteq> None \<and> tl_key t \<noteq> None"

record ClientTls =
  ct_acceptor :: "(string \<times> string) option"                 \<comment> \<open>the files it was loaded from\<close>
  ct_require :: bool

definition client_tls :: "(string \<Rightarrow> string \<Rightarrow> string option) \<Rightarrow> ServerTls \<Rightarrow> string + ClientTls" where
  "client_tls load_error t =
     (case (tl_cert t, tl_key t) of
        (Some cert, Some key) \<Rightarrow>
          (case load_error cert key of
             Some e \<Rightarrow> Inl (''loading client TLS material from '' @ cert @ '' and '' @ key @ '': '' @ e)
           | None \<Rightarrow> Inr \<lparr>ct_acceptor = Some (cert, key), ct_require = tl_require_client_cert t\<rparr>)
      | _ \<Rightarrow> Inr \<lparr>ct_acceptor = None, ct_require = False\<rparr>)"

section \<open>Every enabled pool runs, in the family it names\<close>

lemma build_all_both: "build_all = Inr [PgDyn new_family, JdbcDyn new_jdbc_family]"
  by code_simp

interpretation dyn_plane: control_plane descriptor_id "sync_pools w" dyn_runs dyn_wf for w
proof (unfold_locales, goal_cases)
  case (1 st f f' r)
  then show ?case by (cases f) (auto split: prod.splits)
next
  case (2 st f f' r)
  then show ?case by (cases f) (auto dest: pg_plane.sync_wf jdbc_plane.sync_wf split: prod.splits)
next
  case (3 st f f' u n)
  then show ?case by (cases f) (auto simp: pg_plane.sync_done jdbc_plane.sync_done simp del: not_None_eq split: prod.splits)
next
  case (4 st f f' u)
  then show ?case by (cases f) (auto dest: pg_plane.sync_again jdbc_plane.sync_again split: prod.splits)
next
  case (5 st f f' e n)
  then show ?case by (cases f) (auto dest: pg_plane.sync_failed jdbc_plane.sync_failed split: prod.splits)
qed

lemma usable_ids:
  assumes "family fid = Some f" "fd_maturity f \<noteq> Planned"
  shows "fid = FAMILY_ID \<or> fid = JDBC_ID"
proof -
  have "list_all (\<lambda>f. fd_maturity f = Planned \<or> fd_id f = FAMILY_ID \<or> fd_id f = JDBC_ID) FAMILIES" by code_simp
  then show ?thesis using family_found [OF assms(1)] assms(2) by (auto simp: list_all_iff)
qed

lemma valid_pool_family:
  assumes "validate st = None" "btree (st_pools st)" "map_of (st_pools st) n = Some pc"
  shows "pc_family pc = FAMILY_ID \<or> pc_family pc = JDBC_ID"
proof -
  have "validate_pool pc n = None" using validate_None(2) [OF assms(1)] map_of_SomeD [OF assms(3)] by blast
  then show ?thesis by (auto simp: validate_pool_def dest: usable_ids split: option.splits if_splits)
qed

lemma synced_runs:
  assumes "sync_families w st fs = (fs', Inr u)" "list_all dyn_wf fs" "set (map descriptor_id fs) = {FAMILY_ID, JDBC_ID}"
    and "validate st = None" "btree (st_pools st)"
  shows "(\<exists>f \<in> set fs'. dyn_runs f n) \<longleftrightarrow> (\<exists>pc. map_of (st_pools st) n = Some pc \<and> \<not> pc_disabled pc)"
  using dyn_plane.some_runs_iff [OF assms(1) [unfolded sync_families_def] assms(5,2), of n] valid_pool_family [OF assms(4,5), of n]
  unfolding assms(3) by (auto simp: owned_def split: option.splits)

text \<open>
  The families this build is made of cover the registry: after a sync of all of them
  under a valid document, every enabled pool runs in the family it names and in no other,
  a pool that is not in the document or is disabled runs nowhere, and a second sync
  changes nothing.
\<close>

theorem every_enabled_pool_runs_in_its_family:
  assumes "build_all = Inr built" "map descriptor_id fs = map descriptor_id built" "list_all dyn_wf fs"
    and "validate st = None" "btree (st_pools st)" "sync_families w st fs = (fs', Inr ())"
  shows "((\<exists>f \<in> set fs'. dyn_runs f n) \<longleftrightarrow> (\<exists>pc. map_of (st_pools st) n = Some pc \<and> \<not> pc_disabled pc))
    \<and> (\<forall>f \<in> set fs'. dyn_runs f n \<longrightarrow> (\<exists>pc. map_of (st_pools st) n = Some pc \<and> pc_family pc = descriptor_id f))
    \<and> sync_families w st fs' = (fs', Inr ())"
proof (intro conjI ballI impI)
  note sync = assms(6) [unfolded sync_families_def] assms(5,3)
  have "built = [PgDyn new_family, JdbcDyn new_jdbc_family]" using assms(1) by (simp add: build_all_both)
  then have ids: "set (map descriptor_id fs) = {FAMILY_ID, JDBC_ID}" unfolding assms(2) by simp
  show "(\<exists>f \<in> set fs'. dyn_runs f n) \<longleftrightarrow> (\<exists>pc. map_of (st_pools st) n = Some pc \<and> \<not> pc_disabled pc)"
    by (rule synced_runs [OF assms(6,3) ids assms(4,5)])
  show "sync_families w st fs' = (fs', Inr ())"
    unfolding sync_families_def by (rule dyn_plane.sync_all_again [OF sync])
  fix f assume "f \<in> set fs'" "dyn_runs f n"
  with dyn_plane.sync_all_done [OF sync, of f n] show "\<exists>pc. map_of (st_pools st) n = Some pc \<and> pc_family pc = descriptor_id f"
    by (auto simp: owned_def split: option.splits)
qed

section \<open>An instance\<close>

definition example_jvm :: JvmWorld where
  "example_jvm = \<lparr>jw_exists = (\<lambda>_. False), jw_start = (\<lambda>_. Inl (Gone [])), jw_call = (\<lambda>_ _. Inl (Gone [])), jw_now = 0, jw_runtime = True\<rparr>"

definition example_world :: World where
  "example_world = \<lparr>wo_libs = example_libs, wo_now = 0, wo_jvm = example_jvm, wo_io_text = (\<lambda>_. [])\<rparr>"

lemma example_document_ok: "validate example_document = None" "btree (st_pools example_document)"
proof -
  show "btree (st_pools example_document)" by (simp add: example_document_def btree_def)
  have "validate_pool example_passthrough_pool ''orders'' = None" "is_valid_name ''orders''" by code_simp+
  then show "validate example_document = None"
    by (simp add: validate_def validate_listeners_def example_document_def default_state_def STATE_VERSION_def
        example_passthrough_pool_def example_pool_def)
qed

lemma example_sync_families:
  "\<exists>fs'. sync_families example_world example_document [PgDyn new_family, JdbcDyn new_jdbc_family] = (fs', Inr ())"
proof -
  obtain fa' where "rebuild_pools example_libs 0 example_document new_family = (fa', Inr ())" using example_sync by blast
  moreover have "rebuild_jdbc c k w example_document new_jdbc_family = (new_jdbc_family, Inr ())" for c k w
    by (simp add: rebuild_jdbc_def example_document_def example_passthrough_pool_def example_pool_def jdbc_live_def JDBC_ID_def
        new_jdbc_family_def)
  ultimately show ?thesis by (simp add: sync_families_def example_world_def)
qed

theorem every_enabled_pool_runs_in_its_family_witness:
  "\<exists>fs'. sync_families example_world example_document [PgDyn new_family, JdbcDyn new_jdbc_family] = (fs', Inr ())
    \<and> (\<exists>f \<in> set fs'. dyn_runs f ''orders'') \<and> \<not> (\<exists>f \<in> set fs'. dyn_runs f ''reports'')"
proof -
  obtain fs' where sync: "sync_families example_world example_document [PgDyn new_family, JdbcDyn new_jdbc_family] = (fs', Inr ())"
    using example_sync_families by blast
  have "list_all dyn_wf [PgDyn new_family, JdbcDyn new_jdbc_family]" by (simp add: new_family_def new_jdbc_family_def)
  note T = every_enabled_pool_runs_in_its_family [OF build_all_both refl this example_document_ok sync]
  have "map_of (st_pools example_document) ''orders'' = Some example_passthrough_pool" "\<not> pc_disabled example_passthrough_pool"
    "map_of (st_pools example_document) ''reports'' = None"
    by (simp_all add: example_document_def default_state_def example_passthrough_pool_def example_pool_def)
  then have "(\<exists>f \<in> set fs'. dyn_runs f ''orders'')" "\<not> (\<exists>f \<in> set fs'. dyn_runs f ''reports'')"
    using conjunct1 [OF T [of "''orders''"]] conjunct1 [OF T [of "''reports''"]] by (blast, simp)
  with sync show ?thesis by blast
qed

end
