(* ===== verification/Admin.thy ===== *)
theory Admin
  imports Store Control Pins
begin

text \<open>
  The administration interface (\<open>havuz-admin/src\<close>: \<open>auth.rs\<close>, \<open>error.rs\<close>, \<open>state.rs\<close> and the
  handlers of \<open>routes.rs\<close> that change something): every handler takes the shared state and
  the decoded body and gives the new state and an answer. A request body is a record, an
  absent field is \<open>None\<close>. The libraries and the outcomes of file operations are the fields
  of \<open>AdminEnv\<close>. The descriptions, which nothing reads, are left out.
\<close>

section \<open>Errors\<close>

datatype ApiError =
  ABadRequest string
  | ANotFound string
  | AConflict string
  | AUnauthorized
  | AInternal string

fun api_status :: "ApiError \<Rightarrow> nat" where
  "api_status (ABadRequest _) = 400"
| "api_status (ANotFound _) = 404"
| "api_status (AConflict _) = 409"
| "api_status AUnauthorized = 401"
| "api_status (AInternal _) = 500"

fun api_code :: "ApiError \<Rightarrow> string" where
  "api_code (ABadRequest _) = ''bad_request''"
| "api_code (ANotFound _) = ''not_found''"
| "api_code (AConflict _) = ''conflict''"
| "api_code AUnauthorized = ''unauthorized''"
| "api_code (AInternal _) = ''internal''"

fun api_text :: "ApiError \<Rightarrow> string" where
  "api_text (ABadRequest m) = m"
| "api_text (ANotFound what) = what @ '' not found''"
| "api_text (AConflict what) = what @ '' already exists''"
| "api_text AUnauthorized = ''unauthorized''"
| "api_text (AInternal m) = m"

definition num :: "'a::len word \<Rightarrow> string" where
  "num n = decimal (unat n)"

fun state_error_text :: "StateError \<Rightarrow> string" where
  "state_error_text (UnsupportedVersion found expected) =
     ''state file version '' @ num found @ '' is newer than this build understands ('' @ num expected @ '')''"
| "state_error_text (BadPoolName p) = ''pool '' @ quoted p @ '' is not a valid name; use letters, digits, '' @ quoted ''_'' @ '' and '' @ quoted ''-''"
| "state_error_text (BadUserName u) = ''user '' @ quoted u @ '' is not a valid name; use letters, digits, '' @ quoted ''_'' @ '' and '' @ quoted ''-''"
| "state_error_text (UnknownFamily p f) = ''pool '' @ quoted p @ '' references unknown database family '' @ quoted f"
| "state_error_text (UnknownProfile p f d) =
     ''pool '' @ quoted p @ '' references unknown driver profile '' @ quoted d @ '' of family '' @ quoted f"
| "state_error_text (FamilyNotImplemented p f) = ''pool '' @ quoted p @ '' uses family '' @ quoted f @ '' which has no driver yet''"
| "state_error_text (PoolModeUnsupported p f m offered) =
     ''pool '' @ quoted p @ '' requests '' @ m @ '' mode, which family '' @ quoted f @ '' does not support; it offers '' @ offered"
| "state_error_text (PoolModeTooAggressive p d m mx) =
     ''pool '' @ quoted p @ '' requests '' @ m @ '' mode, but profile '' @ quoted d @ '' only supports up to '' @ mx"
| "state_error_text (NoTargets p) = ''pool '' @ quoted p @ '' has no targets''"
| "state_error_text (MinIdleAboveMax p mn mx) =
     ''pool '' @ quoted p @ '': min_idle ('' @ num mn @ '') cannot exceed max_size ('' @ num mx @ '')''"
| "state_error_text (ZeroMaxSize p) = ''pool '' @ quoted p @ '': max_size must be at least 1''"
| "state_error_text (ZeroListenPort p) = ''pool '' @ quoted p @ '': listen_port must be between 1 and 65535''"
| "state_error_text (MixedFamiliesOnPort a fa b fb port) =
     ''pools '' @ quoted a @ '' ('' @ fa @ '') and '' @ quoted b @ '' ('' @ fb @ '') share listen port '' @ num port
       @ '', but a listener can only speak one protocol''"
| "state_error_text (BadAliasName p x) =
     ''pool '' @ quoted p @ '': alias '' @ quoted x @ '' is not a valid name; use letters, digits, '' @ quoted ''_'' @ '' and '' @ quoted ''-''"
| "state_error_text (AliasIsOwnPool p x) =
     ''pool '' @ quoted p @ '' lists its own name '' @ quoted x @ '' as an alias; a pool is always reachable by its name''"
| "state_error_text (RoutableNameCollides n port a b) =
     ''pools '' @ quoted a @ '' and '' @ quoted b @ '' share listen port '' @ num port @ '' and both answer to '' @ quoted n
       @ ''; a client sends one database name and must reach one pool''"
| "state_error_text (PerUserWarmup p) =
     ''pool '' @ quoted p @ '' authenticates per user, so min_idle must be 0: havuz cannot warm a connection ''
       @ ''for a user whose password it does not hold''"
| "state_error_text (PerUserSplitWithoutProbe p) =
     ''pool '' @ quoted p @ '' authenticates per user and enables read/write split, which needs a service ''
       @ ''account to measure replica lag with; set a backend user and password''"
| "state_error_text (UnknownPoolGrant u p) = ''user '' @ quoted u @ '' is granted unknown pool '' @ quoted p"
| "state_error_text (NoGrants u) = ''user '' @ quoted u @ '' has no pool grants and could never connect''"

fun field_error_text :: "FieldError \<Rightarrow> string" where
  "field_error_text (FMissing f) = quoted f @ '' is required''"
| "field_error_text (WrongType f expected) = quoted f @ '' must be a '' @ expected"
| "field_error_text (OutOfRange f mn mx got) =
     quoted f @ '' must be between '' @ int_text mn @ '' and '' @ int_text mx @ '', got '' @ int_text got"
| "field_error_text (NotAllowed f got) = quoted f @ '' does not accept the value '' @ quoted got"
| "field_error_text (BadDuration f got) = quoted f @ '' is not a valid duration: '' @ quoted got"

fun registry_error_text :: "RegistryError \<Rightarrow> string" where
  "registry_error_text (RUnknownFamily f) = ''unknown database family '' @ quoted f"
| "registry_error_text (RUnknownProfile f p) = ''family '' @ quoted f @ '' has no driver profile '' @ quoted p"
| "registry_error_text (RNotImplemented f) = ''family '' @ quoted f @ '' is not implemented yet''"
| "registry_error_text (RUnsupportedPoolMode f m) = ''pool mode '' @ quoted m @ '' is not supported by '' @ quoted f"

text \<open>The texts of input/output errors come from the system.\<close>

definition api_of_store :: "(StoreFailure \<Rightarrow> string) \<Rightarrow> StoreFailure \<Rightarrow> ApiError" where
  "api_of_store txt e = (case e of SInvalid inner \<Rightarrow> ABadRequest (state_error_text inner) | _ \<Rightarrow> AInternal (txt e))"

section \<open>State\<close>

record AdminState =
  ad_store :: StateStore
  ad_families :: "DynFamily list"
  ad_sessions :: SessionRegistry
  ad_pins :: PinRegistry
  ad_reserved_port :: "u16 option"
  ad_client_tls :: bool
  ad_token :: "string option"

record AdminEnv =
  ae_world :: World                          \<comment> \<open>libraries, clock and the Java side of the families\<close>
  ae_to_json :: "State \<Rightarrow> string"
  ae_junk :: string
  ae_file_ok :: "FileOp \<Rightarrow> bool"
  ae_nonce :: string                         \<comment> \<open>the random bytes of a seal\<close>
  ae_salt :: string                          \<comment> \<open>the random bytes of a verifier\<close>
  ae_store_text :: "StoreFailure \<Rightarrow> string"

datatype AdminAuth = NoAuth | Bearer string             \<comment> \<open>the name of the variable\<close>

definition token_from :: "(string \<Rightarrow> string option) \<Rightarrow> AdminAuth \<Rightarrow> string option" where
  "token_from environment auth =
     (case auth of
        NoAuth \<Rightarrow> None
      | Bearer var \<Rightarrow> (case environment var of Some t \<Rightarrow> if t = [] then None else Some t | None \<Rightarrow> None))"

definition doc :: "AdminState \<Rightarrow> State" where
  "doc s = so_current (ad_store s)"

definition crypto :: "AdminEnv \<Rightarrow> Crypto" where
  "crypto env = li_crypto (wo_libs (ae_world env))"

definition master_key :: "AdminEnv \<Rightarrow> MasterKey" where
  "master_key env = li_master_key (wo_libs (ae_world env))"

text \<open>\<open>state.store.update(..).await?\<close>.\<close>

definition change :: "AdminEnv \<Rightarrow> (State \<Rightarrow> State \<times> 'a) \<Rightarrow> AdminState \<Rightarrow> AdminState \<times> (ApiError + 'a)" where
  "change env f s =
     (case update (ae_to_json env) (ae_junk env) (ae_file_ok env) f (ad_store s) of
        (st, Inl e) \<Rightarrow> (s\<lparr>ad_store := st\<rparr>, Inl (api_of_store (ae_store_text env) e))
      | (st, Inr r) \<Rightarrow> (s\<lparr>ad_store := st\<rparr>, Inr r))"

text \<open>\<open>state.families.sync_all().map_err(..)?\<close>.\<close>

definition sync_now :: "AdminEnv \<Rightarrow> AdminState \<Rightarrow> AdminState \<times> (ApiError + unit)" where
  "sync_now env s =
     (case sync_families (ae_world env) (doc s) (ad_families s) of
        (fs, Inl e) \<Rightarrow> (s\<lparr>ad_families := fs\<rparr>, Inl (AInternal (proto_text (wo_io_text (ae_world env)) e)))
      | (fs, Inr _) \<Rightarrow> (s\<lparr>ad_families := fs\<rparr>, Inr ()))"

text \<open>\<open>let _ = s.secrets.put(..)\<close>: a failed seal leaves the store as it is.\<close>

definition put_secret :: "AdminEnv \<Rightarrow> SecretRef \<Rightarrow> string \<Rightarrow> State \<Rightarrow> State" where
  "put_secret env r plaintext st =
     (case put (crypto env) (master_key env) (ae_nonce env) r plaintext (st_secrets st) of
        Inl _ \<Rightarrow> st
      | Inr store \<Rightarrow> st\<lparr>st_secrets := store\<rparr>)"

section \<open>The token\<close>

datatype Method = GET | HEAD | POST | PUT | PATCH | DELETE | OtherMethod string

definition is_public :: "Method \<Rightarrow> string \<Rightarrow> bool" where
  "is_public m path \<longleftrightarrow>
     path = ''/healthz'' \<or> path = ''/readyz''
     \<or> (m = GET \<or> m = HEAD)
       \<and> \<not> (path = ''/api'' \<or> starts_with ''/api/'' path \<or> path = ''/metrics'')"

text \<open>\<open>authorization\<close> is the header as text, \<open>None\<close> when it is missing or not text.\<close>

definition require_token ::
  "string option \<Rightarrow> Method \<Rightarrow> string \<Rightarrow> string option \<Rightarrow> ('s \<Rightarrow> 's \<times> (ApiError + 'r)) \<Rightarrow> 's \<Rightarrow> 's \<times> (ApiError + 'r)"
where
  "require_token token m path authorization run s =
     (case token of
        None \<Rightarrow> run s
      | Some expected \<Rightarrow>
          if is_public m path then run s
          else (case Option.bind authorization (strip_prefix ''Bearer '') of
              Some presented \<Rightarrow> if constant_time_eq presented expected then run s else (s, Inl AUnauthorized)
            | None \<Rightarrow> (s, Inl AUnauthorized)))"

section \<open>Pools\<close>

record PoolView =
  pv_name :: string
  pv_config :: PoolConfig
  pv_has_backend_password :: bool
  pv_replica_count :: nat
  pv_backend_ceiling :: "u32 option"
  pv_runtime :: "PoolSnapshot option"

definition pool_view :: "string \<Rightarrow> PoolConfig \<Rightarrow> State \<Rightarrow> PoolSnapshot option \<Rightarrow> PoolView" where
  "pool_view name pc st runtime =
     \<lparr>pv_name = name, pv_config = pc,
      pv_has_backend_password = (map_of (st_secrets st) (pool_backend_password name) \<noteq> None),
      pv_replica_count = length (replica_targets pc), pv_backend_ceiling = backend_ceiling pc, pv_runtime = runtime\<rparr>"

definition snapshots_now :: "AdminState \<Rightarrow> PoolSnapshot list" where
  "snapshots_now s = all_snapshots dyn_snapshots (ad_families s)"

definition pool_text :: "string \<Rightarrow> string" where
  "pool_text name = ''pool '' @ quoted name"

definition user_text :: "string \<Rightarrow> string" where
  "user_text name = ''user '' @ quoted name"

definition get_pool :: "string \<Rightarrow> AdminState \<Rightarrow> ApiError + PoolView" where
  "get_pool name s =
     (case map_of (st_pools (doc s)) name of
        None \<Rightarrow> Inl (ANotFound (pool_text name))
      | Some pc \<Rightarrow> Inr (pool_view name pc (doc s) (List.find (\<lambda>sn. sn_name sn = name) (snapshots_now s))))"

definition list_pools :: "AdminState \<Rightarrow> PoolView list \<times> Warning list" where
  "list_pools s =
     (let snaps = foldl (\<lambda>m sn. btree_insert (sn_name sn) sn m) [] (snapshots_now s) in
      (map (\<lambda>(name, pc). pool_view name pc (doc s) (map_of snaps name)) (st_pools (doc s)), warnings (doc s)))"

definition check_listen_port :: "AdminState \<Rightarrow> string \<Rightarrow> u16 \<Rightarrow> string \<Rightarrow> ApiError + unit" where
  "check_listen_port s pool port fid =
     (if port = 0 then Inl (ABadRequest ''listen_port must be between 1 and 65535'')
      else if ad_reserved_port s = Some port then Inl (ABadRequest (''port '' @ num port @ '' is the admin listener''))
      else case List.find (\<lambda>(name, pc). name \<noteq> pool \<and> pc_listen_port pc = port \<and> pc_family pc \<noteq> fid) (st_pools (doc s)) of
        Some (owner, pc) \<Rightarrow>
          Inl (ABadRequest (''port '' @ num port @ '' already serves pool '' @ quoted owner @ '' of family '' @ quoted (pc_family pc)
            @ ''; a listener speaks one protocol''))
      | None \<Rightarrow> Inr ())"

record CreatePool =
  cp_name :: string
  cp_family :: string
  cp_profile :: "string option"
  cp_mode :: "PoolMode option"
  cp_targets :: "Target list option"
  cp_listen_port :: u16
  cp_aliases :: "string list"
  cp_backend_auth :: BackendAuth
  cp_allow_password_without_tls :: bool
  cp_read_only :: bool
  cp_trace :: TraceLevel
  cp_limits :: "PoolLimits option"
  cp_settings :: "(string, Json) btree"
  cp_routing :: "RoutingConfig option"

text \<open>The loop over the declared fields, credentials being optional where clients bring their own.\<close>

definition relaxed :: "bool \<Rightarrow> ConfigField \<Rightarrow> ConfigField" where
  "relaxed credentials_optional f =
     (if credentials_optional \<and> (cf_role f = Some RUser \<or> cf_role f = Some RPassword) then optional f else f)"

fun check_fields :: "bool \<Rightarrow> (string, Json) btree \<Rightarrow> ConfigField list \<Rightarrow> FieldError option" where
  "check_fields credentials_optional settings [] = None"
| "check_fields credentials_optional settings (f # fs) =
     (case validate_field (relaxed credentials_optional f) (map_of settings (cf_name f)) of
        Some e \<Rightarrow> Some e
      | None \<Rightarrow> check_fields credentials_optional settings fs)"

definition value_or_else :: "'a \<Rightarrow> 'a option \<Rightarrow> 'a" where
  "value_or_else d v = (case v of Some x \<Rightarrow> x | None \<Rightarrow> d)"

text \<open>The pool a valid body describes, with the secret settings taken out, and the password.\<close>

definition pool_of_body :: "CreatePool \<Rightarrow> FamilyDescriptor \<Rightarrow> DriverProfile \<Rightarrow> PoolConfig \<times> string option" where
  "pool_of_body b f d =
     (let conn = connection_of f (cp_settings b) in
      (\<lparr>pc_family = fd_id f, pc_profile = Some (dp_id d), pc_mode = value_or_else (fd_default_pool_mode f) (cp_mode b),
        pc_targets = (case cp_targets b of Some (t # ts) \<Rightarrow> t # ts | _ \<Rightarrow> [new_target (cn_host conn) (cn_port conn)]),
        pc_backend_user = cn_user conn, pc_database = cn_database conn, pc_listen_port = cp_listen_port b,
        pc_aliases = cp_aliases b, pc_limits = value_or_else default_limits (cp_limits b),
        pc_settings = foldl (\<lambda>settings secret. btree_remove secret settings) (cp_settings b) (secret_fields f),
        pc_routing = value_or_else default_routing (cp_routing b), pc_backend_auth = cp_backend_auth b,
        pc_allow_password_without_tls = cp_allow_password_without_tls b, pc_read_only = cp_read_only b,
        pc_trace = cp_trace b, pc_disabled = False\<rparr>,
       cn_password conn))"

definition insert_pool :: "AdminEnv \<Rightarrow> string \<Rightarrow> PoolConfig \<Rightarrow> string option \<Rightarrow> State \<Rightarrow> State \<times> bool" where
  "insert_pool env name pc password st =
     (if map_of (st_pools st) name \<noteq> None then (st, False)
      else
        (let st = (case password of Some p \<Rightarrow> put_secret env (pool_backend_password name) p st | None \<Rightarrow> st)
         in (st\<lparr>st_pools := btree_insert name pc (st_pools st)\<rparr>, True)))"

text \<open>The checks in front of a creation: the family, its profile, the pool and the password.\<close>

definition check_create :: "AdminState \<Rightarrow> CreatePool \<Rightarrow> ApiError + PoolConfig \<times> string option" where
  "check_create s b =
     (case check_listen_port s (cp_name b) (cp_listen_port b) (cp_family b) of
        Inl e \<Rightarrow> Inl e
      | Inr _ \<Rightarrow>
          if is_per_user (cp_backend_auth b) \<and> \<not> ad_client_tls s \<and> \<not> cp_allow_password_without_tls b
          then Inl (ABadRequest (''backend_auth = '' @ auth_as_str (cp_backend_auth b)
            @ '' asks clients for their password, so it needs client-facing TLS; set server.tls.cert and server.tls.key and restart, ''
            @ ''or accept the risk with allow_password_without_tls''))
          else (case resolve_profile (cp_family b) (cp_profile b) of
              Inl e \<Rightarrow> Inl (ABadRequest (registry_error_text e))
            | Inr (f, d) \<Rightarrow>
                if cp_read_only b \<and> \<not> cap_read_only_sessions (fd_capabilities f)
                then Inl (ABadRequest (''family '' @ quoted (fd_id f)
                  @ '' cannot hold a session read-only; take the write privileges away in the database instead''))
                else if is_per_user (cp_backend_auth b) \<and> \<not> cap_per_user_auth (fd_capabilities f)
                then Inl (ABadRequest (''family '' @ quoted (fd_id f)
                  @ '' cannot open backend connections as the connecting client; use a shared service account''))
                else (case check_fields (is_per_user (cp_backend_auth b)) (cp_settings b) (fd_config_fields f) of
                    Some e \<Rightarrow> Inl (ABadRequest (field_error_text e))
                  | None \<Rightarrow>
                      (case List.find (\<lambda>(key, _). key \<notin> cf_name ` set (fd_config_fields f)) (cp_settings b) of
                         Some (unknown, _) \<Rightarrow> Inl (ABadRequest (''unknown setting '' @ quoted unknown @ '' for family '' @ quoted (fd_id f)))
                       | None \<Rightarrow> Inr (pool_of_body b f d)))))"

text \<open>The pool was just inserted, so the \<open>expect\<close> of the answer does not fire.\<close>

definition create_pool :: "AdminEnv \<Rightarrow> CreatePool \<Rightarrow> AdminState \<Rightarrow> AdminState \<times> (ApiError + PoolView)" where
  "create_pool env b s =
     (case check_create s b of
        Inl e \<Rightarrow> (s, Inl e)
      | Inr (pc, password) \<Rightarrow>
          (case change env (insert_pool env (cp_name b) pc password) s of
             (s, Inl e) \<Rightarrow> (s, Inl e)
           | (s, Inr created) \<Rightarrow>
               if \<not> created then (s, Inl (AConflict (pool_text (cp_name b))))
               else (case sync_now env s of
                   (s, Inl e) \<Rightarrow> (s, Inl e)
                 | (s, Inr _) \<Rightarrow>
                     (s, Inr (pool_view (cp_name b) (the (map_of (st_pools (doc s)) (cp_name b))) (doc s) None)))))"

record UpdatePool =
  up_mode :: "PoolMode option"
  up_max_size :: "u32 option"
  up_max_client_connections :: "u32 option"
  up_listen_port :: "u16 option"
  up_aliases :: "string list option"
  up_trace :: "TraceLevel option"
  up_allow_password_without_tls :: "bool option"
  up_read_only :: "bool option"
  up_idle_in_transaction_timeout :: "duration option"

definition patch_pool :: "UpdatePool \<Rightarrow> PoolConfig \<Rightarrow> PoolConfig" where
  "patch_pool b pc =
     pc\<lparr>pc_mode := value_or_else (pc_mode pc) (up_mode b),
        pc_limits := (pc_limits pc)
          \<lparr>max_size := value_or_else (max_size (pc_limits pc)) (up_max_size b),
           max_client_connections := value_or_else (max_client_connections (pc_limits pc)) (up_max_client_connections b),
           idle_in_transaction_timeout := value_or_else (idle_in_transaction_timeout (pc_limits pc)) (up_idle_in_transaction_timeout b)\<rparr>,
        pc_listen_port := value_or_else (pc_listen_port pc) (up_listen_port b),
        pc_aliases := value_or_else (pc_aliases pc) (up_aliases b),
        pc_trace := value_or_else (pc_trace pc) (up_trace b),
        pc_allow_password_without_tls := value_or_else (pc_allow_password_without_tls pc) (up_allow_password_without_tls b),
        pc_read_only := value_or_else (pc_read_only pc) (up_read_only b)\<rparr>"

text \<open>\<open>get_mut\<close> on the pools, and whether there was one.\<close>

definition edit_pool :: "(PoolConfig \<Rightarrow> PoolConfig) \<Rightarrow> string \<Rightarrow> State \<Rightarrow> State \<times> bool" where
  "edit_pool f name st =
     (case map_of (st_pools st) name of
        Some pc \<Rightarrow> (st\<lparr>st_pools := btree_insert name (f pc) (st_pools st)\<rparr>, True)
      | None \<Rightarrow> (st, False))"

definition check_update :: "string \<Rightarrow> UpdatePool \<Rightarrow> PoolConfig \<Rightarrow> AdminState \<Rightarrow> ApiError + unit" where
  "check_update name b existing s =
     (case (case up_listen_port b of Some port \<Rightarrow> check_listen_port s name port (pc_family existing) | None \<Rightarrow> Inr ()) of
        Inl e \<Rightarrow> Inl e
      | Inr _ \<Rightarrow>
          if up_read_only b = Some True
             \<and> \<not> (case family (pc_family existing) of Some f \<Rightarrow> cap_read_only_sessions (fd_capabilities f) | None \<Rightarrow> False)
          then Inl (ABadRequest (''family '' @ quoted (pc_family existing)
            @ '' cannot hold a session read-only; take the write privileges away in the database instead''))
          else if up_allow_password_without_tls b = Some False \<and> is_per_user (pc_backend_auth existing) \<and> \<not> ad_client_tls s
          then Inl (ABadRequest (pool_text name
            @ '' authenticates clients against the database as themselves and this process has no ''
            @ ''client-facing TLS, so every client would be refused; set server.tls.cert and server.tls.key and restart first''))
          else Inr ())"

definition reload_now :: "AdminEnv \<Rightarrow> string \<Rightarrow> string \<Rightarrow> AdminState \<Rightarrow> AdminState \<times> (ApiError + unit)" where
  "reload_now env fid name s =
     (case on_family descriptor_id fid (reload_dyn (ae_world env) (doc s) name) (ad_families s) of
        (fs, None) \<Rightarrow> (s\<lparr>ad_families := fs\<rparr>, Inl (AInternal (''no driver for family '' @ quoted fid)))
      | (fs, Some (Inl e)) \<Rightarrow> (s\<lparr>ad_families := fs\<rparr>, Inl (AInternal (proto_text (wo_io_text (ae_world env)) e)))
      | (fs, Some (Inr _)) \<Rightarrow> (s\<lparr>ad_families := fs\<rparr>, Inr ()))"

definition update_pool :: "AdminEnv \<Rightarrow> string \<Rightarrow> UpdatePool \<Rightarrow> AdminState \<Rightarrow> AdminState \<times> (ApiError + PoolView)" where
  "update_pool env name b s =
     (case map_of (st_pools (doc s)) name of
        None \<Rightarrow> (s, Inl (ANotFound (pool_text name)))
      | Some existing \<Rightarrow>
          (case check_update name b existing s of
             Inl e \<Rightarrow> (s, Inl e)
           | Inr _ \<Rightarrow>
               (case change env (edit_pool (patch_pool b) name) s of
                  (s, Inl e) \<Rightarrow> (s, Inl e)
                | (s, Inr found) \<Rightarrow>
                    if \<not> found then (s, Inl (ANotFound (pool_text name)))
                    else (case reload_now env (pc_family existing) name s of
                        (s, Inl e) \<Rightarrow> (s, Inl e)
                      | (s, Inr _) \<Rightarrow> (s, get_pool name s)))))"

definition drop_pool :: "string \<Rightarrow> State \<Rightarrow> State \<times> bool" where
  "drop_pool name st =
     (let pools = btree_remove name (st_pools st);
          users = filter (\<lambda>(_, u). uc_pools u \<noteq> [])
            (map (\<lambda>(n, u). (n, u\<lparr>uc_pools := filter (\<lambda>p. p \<noteq> name) (uc_pools u)\<rparr>)) (st_users st))
      in (st\<lparr>st_pools := pools, st_users := users, st_secrets := fst (retain_owners ''pool'' (map fst pools) (st_secrets st))\<rparr>,
          map_of (st_pools st) name \<noteq> None))"

definition delete_pool :: "AdminEnv \<Rightarrow> string \<Rightarrow> AdminState \<Rightarrow> AdminState \<times> (ApiError + unit)" where
  "delete_pool env name s =
     (case change env (drop_pool name) s of
        (s, Inl e) \<Rightarrow> (s, Inl e)
      | (s, Inr removed) \<Rightarrow> if \<not> removed then (s, Inl (ANotFound (pool_text name))) else sync_now env s)"

definition set_disabled :: "AdminEnv \<Rightarrow> string \<Rightarrow> bool \<Rightarrow> AdminState \<Rightarrow> AdminState \<times> (ApiError + unit)" where
  "set_disabled env name disabled s =
     (case (if disabled then Inr ()
            else case map_of (st_pools (doc s)) name of
                None \<Rightarrow> Inl (ANotFound (pool_text name))
              | Some pc \<Rightarrow> check_listen_port s name (pc_listen_port pc) (pc_family pc)) of
        Inl e \<Rightarrow> (s, Inl e)
      | Inr _ \<Rightarrow>
          (case change env (edit_pool (\<lambda>pc. pc\<lparr>pc_disabled := disabled\<rparr>) name) s of
             (s, Inl e) \<Rightarrow> (s, Inl e)
           | (s, Inr found) \<Rightarrow> if \<not> found then (s, Inl (ANotFound (pool_text name))) else sync_now env s))"

definition pause_pool :: "AdminEnv \<Rightarrow> string \<Rightarrow> AdminState \<Rightarrow> AdminState \<times> (ApiError + unit)" where
  "pause_pool env name s = set_disabled env name True s"

definition resume_pool :: "AdminEnv \<Rightarrow> string \<Rightarrow> AdminState \<Rightarrow> AdminState \<times> (ApiError + unit)" where
  "resume_pool env name s = set_disabled env name False s"

text \<open>How many sessions were signalled is the answer.\<close>

definition kick_pool_sessions :: "string \<Rightarrow> AdminState \<Rightarrow> AdminState \<times> (ApiError + nat)" where
  "kick_pool_sessions name s =
     (if map_of (st_pools (doc s)) name = None then (s, Inl (ANotFound (pool_text name)))
      else (case kick_pool name (ad_sessions s) of (reg, n) \<Rightarrow> (s\<lparr>ad_sessions := reg\<rparr>, Inr n)))"

definition drain_pool :: "string \<Rightarrow> AdminState \<Rightarrow> AdminState \<times> (ApiError + string)" where
  "drain_pool name s =
     (s, if map_of (st_pools (doc s)) name = None then Inl (ANotFound (pool_text name)) else Inr ''draining'')"

section \<open>Users and sessions\<close>

record CreateUser =
  cu_name :: string
  cu_password :: string
  cu_pools :: "string list"
  cu_max_client_connections :: u32
  cu_own_backend_role :: bool
  cu_read_only :: bool

definition make_verifier :: "AdminEnv \<Rightarrow> string \<Rightarrow> string" where
  "make_verifier env password = encode_verifier (crypto env) (from_password (crypto env) (ae_salt env) password)"

definition insert_user :: "AdminEnv \<Rightarrow> string \<Rightarrow> UserConfig \<Rightarrow> string \<Rightarrow> State \<Rightarrow> State \<times> bool" where
  "insert_user env name uc verifier st =
     (if map_of (st_users st) name \<noteq> None then (st, False)
      else (let st = put_secret env (user_verifier name) verifier st
            in (st\<lparr>st_users := btree_insert name uc (st_users st)\<rparr>, True)))"

definition create_user :: "AdminEnv \<Rightarrow> CreateUser \<Rightarrow> AdminState \<Rightarrow> AdminState \<times> (ApiError + string)" where
  "create_user env b s =
     (if cu_password b = [] then (s, Inl (ABadRequest ''password must not be empty''))
      else
        (let uc = \<lparr>uc_pools = cu_pools b, uc_max_client_connections = cu_max_client_connections b,
                   uc_own_backend_role = cu_own_backend_role b, uc_read_only = cu_read_only b, uc_disabled = False\<rparr>
         in case change env (insert_user env (cu_name b) uc (make_verifier env (cu_password b))) s of
              (s, Inl e) \<Rightarrow> (s, Inl e)
            | (s, Inr created) \<Rightarrow> if created then (s, Inr (cu_name b)) else (s, Inl (AConflict (user_text (cu_name b))))))"

record UpdateUser =
  uu_pools :: "string list option"
  uu_max_client_connections :: "u32 option"
  uu_own_backend_role :: "bool option"
  uu_read_only :: "bool option"
  uu_disabled :: "bool option"
  uu_password :: "string option"
  uu_kick :: bool

definition patch_user :: "UpdateUser \<Rightarrow> UserConfig \<Rightarrow> UserConfig" where
  "patch_user b u =
     u\<lparr>uc_pools := value_or_else (uc_pools u) (uu_pools b),
       uc_max_client_connections := value_or_else (uc_max_client_connections u) (uu_max_client_connections b),
       uc_own_backend_role := value_or_else (uc_own_backend_role u) (uu_own_backend_role b),
       uc_read_only := value_or_else (uc_read_only u) (uu_read_only b),
       uc_disabled := value_or_else (uc_disabled u) (uu_disabled b)\<rparr>"

definition edit_user :: "AdminEnv \<Rightarrow> UpdateUser \<Rightarrow> string option \<Rightarrow> string \<Rightarrow> State \<Rightarrow> State \<times> bool" where
  "edit_user env b verifier name st =
     (case map_of (st_users st) name of
        None \<Rightarrow> (st, False)
      | Some u \<Rightarrow>
          (let st = st\<lparr>st_users := btree_insert name (patch_user b u) (st_users st)\<rparr>
           in (case verifier of Some v \<Rightarrow> put_secret env (user_verifier name) v st | None \<Rightarrow> st, True)))"

definition update_user :: "AdminEnv \<Rightarrow> string \<Rightarrow> UpdateUser \<Rightarrow> AdminState \<Rightarrow> AdminState \<times> (ApiError + nat)" where
  "update_user env name b s =
     (if uu_password b = Some [] then (s, Inl (ABadRequest ''password must not be empty''))
      else if uu_pools b = Some [] then (s, Inl (ABadRequest ''a user needs at least one pool grant; delete the user instead''))
      else (case change env (edit_user env b (map_option (make_verifier env) (uu_password b)) name) s of
          (s, Inl e) \<Rightarrow> (s, Inl e)
        | (s, Inr found) \<Rightarrow>
            if \<not> found then (s, Inl (ANotFound (user_text name)))
            else if uu_kick b then (case kick_user name (ad_sessions s) of (reg, n) \<Rightarrow> (s\<lparr>ad_sessions := reg\<rparr>, Inr n))
            else (s, Inr 0)))"

definition drop_user :: "string \<Rightarrow> State \<Rightarrow> State \<times> bool" where
  "drop_user name st =
     (let users = btree_remove name (st_users st)
      in (st\<lparr>st_users := users, st_secrets := fst (retain_owners ''user'' (map fst users) (st_secrets st))\<rparr>,
          map_of (st_users st) name \<noteq> None))"

definition delete_user :: "AdminEnv \<Rightarrow> string \<Rightarrow> AdminState \<Rightarrow> AdminState \<times> (ApiError + unit)" where
  "delete_user env name s =
     (case change env (drop_user name) s of
        (s, Inl e) \<Rightarrow> (s, Inl e)
      | (s, Inr removed) \<Rightarrow> if removed then (s, Inr ()) else (s, Inl (ANotFound (user_text name))))"

definition kick_user_sessions :: "string \<Rightarrow> AdminState \<Rightarrow> AdminState \<times> (ApiError + nat)" where
  "kick_user_sessions name s =
     (if map_of (st_users (doc s)) name = None then (s, Inl (ANotFound (user_text name)))
      else (case kick_user name (ad_sessions s) of (reg, n) \<Rightarrow> (s\<lparr>ad_sessions := reg\<rparr>, Inr n)))"

definition kick_one_session :: "u64 \<Rightarrow> AdminState \<Rightarrow> AdminState \<times> (ApiError + unit)" where
  "kick_one_session i s =
     (case kick_session i (ad_sessions s) of
        (reg, ok) \<Rightarrow> (s\<lparr>ad_sessions := reg\<rparr>, if ok then Inr () else Inl (ANotFound (''session '' @ quoted (num i)))))"

record UserView =
  uv_name :: string
  uv_user :: UserConfig
  uv_has_password :: bool
  uv_live_sessions :: nat

definition list_users :: "AdminState \<Rightarrow> UserView list" where
  "list_users s =
     map (\<lambda>(name, u). \<lparr>uv_name = name, uv_user = u,
            uv_has_password = (map_of (st_secrets (doc s)) (user_verifier name) \<noteq> None),
            uv_live_sessions = value_or_else 0 (map_of (counts_by_user (ad_sessions s)) name)\<rparr>) (st_users (doc s))"

definition reset_pins :: "AdminState \<Rightarrow> AdminState" where
  "reset_pins s = s\<lparr>ad_pins := reset_registry (ad_pins s)\<rparr>"

section \<open>Requests\<close>

text \<open>
  The requests that change something and where the router puts them. \<open>enc\<close> writes a name as
  a segment of a path.
\<close>

datatype AdminRequest =
  RCreatePool CreatePool
  | RUpdatePool string UpdatePool
  | RDeletePool string
  | RPausePool string
  | RResumePool string
  | RDrainPool string
  | RKickPool string
  | RCreateUser CreateUser
  | RUpdateUser string UpdateUser
  | RDeleteUser string
  | RKickUser string
  | RKickSession u64
  | RResetPins

datatype Answer = APool PoolView | AText string | ACount nat | ADone

fun request_line :: "(string \<Rightarrow> string) \<Rightarrow> AdminRequest \<Rightarrow> Method \<times> string" where
  "request_line enc (RCreatePool _) = (POST, ''/api/v1/pools'')"
| "request_line enc (RUpdatePool n _) = (PATCH, ''/api/v1/pools/'' @ enc n)"
| "request_line enc (RDeletePool n) = (DELETE, ''/api/v1/pools/'' @ enc n)"
| "request_line enc (RPausePool n) = (POST, ''/api/v1/pools/'' @ enc n @ ''/pause'')"
| "request_line enc (RResumePool n) = (POST, ''/api/v1/pools/'' @ enc n @ ''/resume'')"
| "request_line enc (RDrainPool n) = (POST, ''/api/v1/pools/'' @ enc n @ ''/drain'')"
| "request_line enc (RKickPool n) = (POST, ''/api/v1/pools/'' @ enc n @ ''/kick'')"
| "request_line enc (RCreateUser _) = (POST, ''/api/v1/users'')"
| "request_line enc (RUpdateUser n _) = (PATCH, ''/api/v1/users/'' @ enc n)"
| "request_line enc (RDeleteUser n) = (DELETE, ''/api/v1/users/'' @ enc n)"
| "request_line enc (RKickUser n) = (POST, ''/api/v1/users/'' @ enc n @ ''/kick'')"
| "request_line enc (RKickSession i) = (POST, ''/api/v1/sessions/'' @ num i @ ''/kick'')"
| "request_line enc RResetPins = (DELETE, ''/api/v1/pins'')"

definition answer_with :: "('a \<Rightarrow> Answer) \<Rightarrow> AdminState \<times> (ApiError + 'a) \<Rightarrow> AdminState \<times> (ApiError + Answer)" where
  "answer_with f r = (case r of (s, Inl e) \<Rightarrow> (s, Inl e) | (s, Inr x) \<Rightarrow> (s, Inr (f x)))"

fun handle :: "AdminEnv \<Rightarrow> AdminRequest \<Rightarrow> AdminState \<Rightarrow> AdminState \<times> (ApiError + Answer)" where
  "handle env (RCreatePool b) s = answer_with APool (create_pool env b s)"
| "handle env (RUpdatePool n b) s = answer_with APool (update_pool env n b s)"
| "handle env (RDeletePool n) s = answer_with (\<lambda>_. AText n) (delete_pool env n s)"
| "handle env (RPausePool n) s = answer_with (\<lambda>_. AText ''paused'') (pause_pool env n s)"
| "handle env (RResumePool n) s = answer_with (\<lambda>_. AText ''active'') (resume_pool env n s)"
| "handle env (RDrainPool n) s = answer_with AText (drain_pool n s)"
| "handle env (RKickPool n) s = answer_with ACount (kick_pool_sessions n s)"
| "handle env (RCreateUser b) s = answer_with AText (create_user env b s)"
| "handle env (RUpdateUser n b) s = answer_with ACount (update_user env n b s)"
| "handle env (RDeleteUser n) s = answer_with (\<lambda>_. AText n) (delete_user env n s)"
| "handle env (RKickUser n) s = answer_with ACount (kick_user_sessions n s)"
| "handle env (RKickSession i) s = answer_with (\<lambda>_. ADone) (kick_one_session i s)"
| "handle env RResetPins s = (reset_pins s, Inr ADone)"

definition serve_admin ::
  "AdminEnv \<Rightarrow> (string \<Rightarrow> string) \<Rightarrow> AdminRequest \<Rightarrow> string option \<Rightarrow> AdminState \<Rightarrow> AdminState \<times> (ApiError + Answer)"
where
  "serve_admin env enc req authorization s =
     (case request_line enc req of (m, path) \<Rightarrow> require_token (ad_token s) m path authorization (handle env req) s)"

end
