(* ===== verification/Admin_Properties.thy ===== *)
theory Admin_Properties
  imports Admin
begin

text \<open>
  What a request to the administration interface does: none is served without the token,
  one that is refused changes no configuration, the documents and families stay well-formed
  over any sequence of requests, and what a request reports is in force: the pools that
  should run do, a created user can authenticate, a disabled one cannot.
\<close>

section \<open>The token\<close>

lemma request_not_public: "request_line enc req = (m, path) \<Longrightarrow> \<not> is_public m path"
  by (cases req) (auto simp: is_public_def starts_with_iff)

text \<open>
  With a token configured, a request that changes something is handled when it presents
  exactly that token and is refused otherwise, and a refused request changes nothing.
\<close>

lemma admin_requires_the_token:
  assumes "ad_token s = Some token"
  shows "serve_admin env enc req authorization s =
    (if authorization = Some (''Bearer '' @ token) then handle env req s else (s, Inl AUnauthorized))"
proof -
  let ?presented = "Option.bind authorization (strip_prefix ''Bearer '')"
  obtain m path where line: "request_line enc req = (m, path)" by fastforce
  have iff: "?presented = Some token \<longleftrightarrow> authorization = Some (''Bearer '' @ token)"
    by (cases authorization) (simp_all only: Option.bind.simps strip_prefix_Some option.inject option.distinct)
  have "serve_admin env enc req authorization s =
      (case ?presented of Some p \<Rightarrow> if p = token then handle env req s else (s, Inl AUnauthorized) | None \<Rightarrow> (s, Inl AUnauthorized))"
    using assms request_not_public [OF line]
    by (simp only: serve_admin_def require_token_def line prod.case option.case if_False constant_time_eq_iff)
  also have "\<dots> = (if ?presented = Some token then handle env req s else (s, Inl AUnauthorized))"
    by (cases ?presented) simp_all
  finally show ?thesis by (simp only: iff)
qed

section \<open>What a change does\<close>

lemma change_cases:
  assumes "change env f s = (s', r)"
  shows "\<exists>st. s' = s\<lparr>ad_store := st\<rparr>"
    and "r = Inl e \<Longrightarrow> doc s' = doc s"
    and "r = Inr x \<Longrightarrow> f (doc s) = (doc s', x) \<and> validate (doc s') = None"
  using assms
  by (auto simp: change_def update_def doc_def publish_def Let_def split: sum.splits option.splits prod.splits if_splits)

lemma sync_now_cases:
  assumes "sync_now env s = (s', r)"
  shows "\<exists>fs res. sync_families (ae_world env) (doc s) (ad_families s) = (fs, res) \<and> s' = s\<lparr>ad_families := fs\<rparr>
      \<and> (case res of Inr _ \<Rightarrow> r = Inr () | Inl _ \<Rightarrow> \<exists>m. r = Inl (AInternal m))"
  using assms by (auto simp: sync_now_def split: sum.splits prod.splits)

lemma doc_simps [simp]:
  "doc (s\<lparr>ad_families := fs\<rparr>) = doc s" "doc (s\<lparr>ad_sessions := reg\<rparr>) = doc s" "doc (s\<lparr>ad_pins := pr\<rparr>) = doc s"
  by (simp_all add: doc_def)

section \<open>The invariant\<close>

definition doc_wf :: "State \<Rightarrow> bool" where
  "doc_wf st \<longleftrightarrow> btree (st_pools st) \<and> btree (st_users st) \<and> btree (st_secrets st)"

definition admin_inv :: "AdminState \<Rightarrow> bool" where
  "admin_inv s \<longleftrightarrow> validate (doc s) = None \<and> doc_wf (doc s) \<and> list_all dyn_wf (ad_families s)
     \<and> map descriptor_id (ad_families s) = [FAMILY_ID, JDBC_ID]"

lemma put_secret_simps [simp]:
  "st_pools (put_secret env r p st) = st_pools st" "st_users (put_secret env r p st) = st_users st"
  "btree (st_secrets st) \<Longrightarrow> btree (st_secrets (put_secret env r p st))"
  by (auto simp: put_secret_def put_def split: sum.splits)

lemma edits_keep_doc_wf:
  assumes "doc_wf st"
  shows "doc_wf (fst (insert_pool env n pc pw st))" "doc_wf (fst (edit_pool g n st))" "doc_wf (fst (drop_pool n st))"
    "doc_wf (fst (insert_user env n uc v st))" "doc_wf (fst (edit_user env b w n st))" "doc_wf (fst (drop_user n st))"
  using assms
  by (auto simp: doc_wf_def insert_pool_def edit_pool_def drop_pool_def insert_user_def edit_user_def drop_user_def
      retain_owners_def btree_filter btree_map_values Let_def split: option.splits)

lemma change_inv:
  assumes "admin_inv s" "change env f s = (s', r)" "\<And>st. doc_wf st \<Longrightarrow> doc_wf (fst (f st))"
  shows "admin_inv s'"
proof -
  from change_cases(1) [OF assms(2)] obtain st where s': "s' = s\<lparr>ad_store := st\<rparr>" by blast
  show ?thesis
  proof (cases r)
    case (Inl e)
    with change_cases(2) [OF assms(2)] have "doc s' = doc s" by blast
    with assms(1) s' show ?thesis by (simp add: admin_inv_def)
  next
    case (Inr x)
    with change_cases(3) [OF assms(2)] have "f (doc s) = (doc s', x)" "validate (doc s') = None" by auto
    moreover then have "doc_wf (doc s')" using assms(1) assms(3) [of "doc s"] by (simp add: admin_inv_def)
    ultimately show ?thesis using assms(1) s' by (simp add: admin_inv_def)
  qed
qed

lemma sync_now_inv:
  assumes "admin_inv s" "sync_now env s = (s', r)"
  shows "admin_inv s'"
proof -
  obtain fs res where sync: "sync_families (ae_world env) (doc s) (ad_families s) = (fs, res)" and s': "s' = s\<lparr>ad_families := fs\<rparr>"
    using sync_now_cases [OF assms(2)] by blast
  note all = sync [unfolded sync_families_def]
  have "list_all dyn_wf fs" "map descriptor_id fs = map descriptor_id (ad_families s)"
    using dyn_plane.sync_all_wf [OF all] dyn_plane.sync_all_ids [OF all] assms(1) by (auto simp: admin_inv_def doc_wf_def)
  then show ?thesis using assms(1) s' by (simp add: admin_inv_def)
qed

lemma reload_dyn_wf:
  assumes "btree (st_pools st)" "dyn_wf f" "reload_dyn w st name f = (f', r)"
  shows "dyn_wf f' \<and> descriptor_id f' = descriptor_id f"
  using assms(2,3)
  by (cases f) (auto simp: reload_pool_def reload_jdbc_def split: prod.splits
      dest!: rebuild_pools_result(1) [OF assms(1), rotated] rebuild_jdbc_result(1) [OF assms(1), rotated])

lemma on_family_keeps:
  assumes "on_family descriptor_id fid act fs = (fs', r)" "list_all dyn_wf fs"
    and "\<And>f f' x. dyn_wf f \<Longrightarrow> act f = (f', x) \<Longrightarrow> dyn_wf f' \<and> descriptor_id f' = descriptor_id f"
  shows "list_all dyn_wf fs' \<and> map descriptor_id fs' = map descriptor_id fs"
  using assms(1,2)
proof (induction fs arbitrary: fs')
  case (Cons f fs)
  then show ?case using assms(3) [of f] by (auto split: prod.splits if_splits)
qed simp

lemma reload_now_inv:
  assumes "admin_inv s" "reload_now env fid name s = (s', r)"
  shows "admin_inv s'"
proof -
  obtain fs res where fs: "on_family descriptor_id fid (reload_dyn (ae_world env) (doc s) name) (ad_families s) = (fs, res)" by fastforce
  then have s': "s' = s\<lparr>ad_families := fs\<rparr>" using assms(2) by (auto simp: reload_now_def split: option.splits sum.splits)
  have "btree (st_pools (doc s))" "list_all dyn_wf (ad_families s)" using assms(1) by (auto simp: admin_inv_def doc_wf_def)
  with on_family_keeps [OF fs] reload_dyn_wf have "list_all dyn_wf fs \<and> map descriptor_id fs = map descriptor_id (ad_families s)" by blast
  then show ?thesis using assms(1) s' by (simp add: admin_inv_def)
qed

lemma kick_inv [simp]: "admin_inv (s\<lparr>ad_sessions := reg\<rparr>) = admin_inv s" "admin_inv (s\<lparr>ad_pins := pr\<rparr>) = admin_inv s"
  by (simp_all add: admin_inv_def)

lemmas handler_defs = create_pool_def update_pool_def delete_pool_def pause_pool_def resume_pool_def set_disabled_def
  drain_pool_def kick_pool_sessions_def create_user_def update_user_def delete_user_def kick_user_sessions_def
  kick_one_session_def reset_pins_def answer_with_def

lemma handle_inv: "admin_inv s \<Longrightarrow> admin_inv (fst (handle env req s))"
  by (cases req)
    (auto simp: handler_defs Let_def split: sum.splits prod.splits option.splits if_splits
      dest!: sync_now_inv [rotated] reload_now_inv [rotated] change_inv [rotated, OF _ edits_keep_doc_wf(1)]
        change_inv [rotated, OF _ edits_keep_doc_wf(2)] change_inv [rotated, OF _ edits_keep_doc_wf(3)]
        change_inv [rotated, OF _ edits_keep_doc_wf(4)] change_inv [rotated, OF _ edits_keep_doc_wf(5)]
        change_inv [rotated, OF _ edits_keep_doc_wf(6)])

lemma handle_keeps_token: "ad_token (fst (handle env req s)) = ad_token s"
proof -
  have c: "ad_token t' = ad_token t" if "change env f t = (t', r)" for t t' f and r :: "ApiError + bool"
    using change_cases(1) [OF that] by auto
  have "ad_token t' = ad_token t" if "sync_now env t = (t', r)" for t t' r
    using sync_now_cases [OF that] by auto
  moreover have "ad_token t' = ad_token t" if "reload_now env fid n t = (t', r)" for t t' r fid n
    using that by (auto simp: reload_now_def split: prod.splits sum.splits option.splits)
  ultimately show ?thesis using c
    by (cases req) (auto simp: handler_defs Let_def split: sum.splits prod.splits option.splits if_splits)
qed

section \<open>Refusals\<close>

text \<open>Nothing of the configuration differs, but for secrets that belong to nobody.\<close>

definition kept :: "AdminState \<Rightarrow> AdminState \<Rightarrow> bool" where
  "kept s s' \<longleftrightarrow>
     st_pools (doc s') = st_pools (doc s) \<and> st_users (doc s') = st_users (doc s)
     \<and> ad_families s' = ad_families s \<and> ad_sessions s' = ad_sessions s \<and> ad_pins s' = ad_pins s
     \<and> (\<forall>n \<in> fst ` set (st_pools (doc s)).
          map_of (st_secrets (doc s')) (pool_backend_password n) = map_of (st_secrets (doc s)) (pool_backend_password n))
     \<and> (\<forall>n \<in> fst ` set (st_users (doc s)).
          map_of (st_secrets (doc s')) (user_verifier n) = map_of (st_secrets (doc s)) (user_verifier n))"

lemma kept_refl [simp]: "kept s s"
  by (simp add: kept_def)

lemma change_refused: "change env f s = (s', Inl e) \<Longrightarrow> kept s s'"
  using change_cases(1,2) [of env f s s' "Inl e"] by (auto simp: kept_def)

lemma change_without_effect:
  assumes "change env f s = (s', Inr False)"
    and "\<And>st. f (doc s) = (st, False) \<Longrightarrow> st_pools st = st_pools (doc s) \<and> st_users st = st_users (doc s)
      \<and> (\<forall>n \<in> fst ` set (st_pools (doc s)). map_of (st_secrets st) (pool_backend_password n) = map_of (st_secrets (doc s)) (pool_backend_password n))
      \<and> (\<forall>n \<in> fst ` set (st_users (doc s)). map_of (st_secrets st) (user_verifier n) = map_of (st_secrets (doc s)) (user_verifier n))"
  shows "kept s s'"
  using change_cases(1) [OF assms(1)] change_cases(3) [OF assms(1) refl] assms(2) [of "doc s'"] by (auto simp: kept_def)

lemma retain_owners_lookup:
  assumes "btree store"
  shows "map_of (fst (retain_owners kind live store)) (k, owner, fld) =
    (if k \<noteq> kind \<or> owner \<in> set live then map_of store (k, owner, fld) else None)"
  using map_of_filter_key [OF assms, of "\<lambda>(k, owner, _) _. k \<noteq> kind \<or> owner \<in> set live" "(k, owner, fld)"]
  by (auto simp: retain_owners_def Let_def case_prod_unfold split: option.splits)

lemma btree_remove_absent: "map_of m k = None \<Longrightarrow> btree_remove k m = m"
  by (auto simp: btree_remove_def map_of_eq_None_iff filter_id_conv)

lemma valid_grants:
  assumes "validate st = None" "(n, u) \<in> set (st_users st)"
  shows "uc_pools u \<noteq> []" "p \<in> set (uc_pools u) \<Longrightarrow> map_of (st_pools st) p \<noteq> None"
  using validate_None(3) [OF assms] by (auto simp: validate_user_def find_map_None split: if_splits)

lemma drop_pool_missing:
  assumes "validate st = None" "doc_wf st" "drop_pool name st = (st', False)"
  shows "st_pools st' = st_pools st" "st_users st' = st_users st"
    "k \<noteq> ''pool'' \<or> owner \<in> fst ` set (st_pools st) \<Longrightarrow> map_of (st_secrets st') (k, owner, fld) = map_of (st_secrets st) (k, owner, fld)"
proof -
  have none: "map_of (st_pools st) name = None" using assms(3) by (auto simp: drop_pool_def Let_def)
  have same: "filter (\<lambda>p. p \<noteq> name) (uc_pools u) = uc_pools u \<and> uc_pools u \<noteq> []" if "(n, u) \<in> set (st_users st)" for n u
  proof -
    have "name \<notin> set (uc_pools u)" using valid_grants(2) [OF assms(1) that, of name] none by blast
    then show ?thesis using valid_grants(1) [OF assms(1) that] by (auto simp: filter_id_conv)
  qed
  have "map (\<lambda>(n, u). (n, u\<lparr>uc_pools := filter (\<lambda>p. p \<noteq> name) (uc_pools u)\<rparr>)) (st_users st) = st_users st"
    by (rule map_idI) (use same in auto)
  moreover have "filter (\<lambda>(_, u). uc_pools u \<noteq> []) (st_users st) = st_users st"
    using same by (auto simp: filter_id_conv)
  ultimately have st': "st' = st\<lparr>st_secrets := fst (retain_owners ''pool'' (map fst (st_pools st)) (st_secrets st))\<rparr>"
    using assms(3) none by (auto simp: drop_pool_def Let_def btree_remove_absent)
  then show "st_pools st' = st_pools st" "st_users st' = st_users st" by simp_all
  show "map_of (st_secrets st') (k, owner, fld) = map_of (st_secrets st) (k, owner, fld)"
    if "k \<noteq> ''pool'' \<or> owner \<in> fst ` set (st_pools st)"
    using that assms(2) by (auto simp: st' doc_wf_def retain_owners_lookup)
qed

lemma drop_user_missing:
  assumes "doc_wf st" "drop_user name st = (st', False)"
  shows "st_pools st' = st_pools st" "st_users st' = st_users st"
    "k \<noteq> ''user'' \<or> owner \<in> fst ` set (st_users st) \<Longrightarrow> map_of (st_secrets st') (k, owner, fld) = map_of (st_secrets st) (k, owner, fld)"
proof -
  have st': "st' = st\<lparr>st_secrets := fst (retain_owners ''user'' (map fst (st_users st)) (st_secrets st))\<rparr>"
    using assms(2) by (auto simp: drop_user_def Let_def btree_remove_absent)
  then show "st_pools st' = st_pools st" "st_users st' = st_users st" by simp_all
  show "map_of (st_secrets st') (k, owner, fld) = map_of (st_secrets st) (k, owner, fld)"
    if "k \<noteq> ''user'' \<or> owner \<in> fst ` set (st_users st)"
    using that assms(1) by (simp add: st' doc_wf_def retain_owners_lookup)
qed

lemma change_drop_refused:
  assumes "admin_inv s"
  shows "change env (drop_pool name) s = (s', Inr False) \<Longrightarrow> kept s s'"
    and "change env (drop_user name) s = (s', Inr False) \<Longrightarrow> kept s s'"
proof -
  have ok: "validate (doc s) = None" "doc_wf (doc s)" using assms by (auto simp: admin_inv_def)
  show "kept s s'" if "change env (drop_pool name) s = (s', Inr False)"
    by (rule change_without_effect [OF that]) (use drop_pool_missing [OF ok] in \<open>auto simp: pool_backend_password_def user_verifier_def\<close>)
  show "kept s s'" if "change env (drop_user name) s = (s', Inr False)"
    by (rule change_without_effect [OF that]) (use drop_user_missing [OF ok(2)] in \<open>auto simp: pool_backend_password_def user_verifier_def\<close>)
qed

lemma change_edit_refused:
  "change env (insert_pool env n pc pw) s = (s', Inr False) \<Longrightarrow> kept s s'"
  "change env (edit_pool g n) s = (s', Inr False) \<Longrightarrow> kept s s'"
  "change env (insert_user env n uc v) s = (s', Inr False) \<Longrightarrow> kept s s'"
  "change env (edit_user env b w n) s = (s', Inr False) \<Longrightarrow> kept s s'"
  by (erule change_without_effect;
      auto simp: insert_pool_def edit_pool_def insert_user_def edit_user_def Let_def split: if_splits option.splits)+

lemma internal_errors:
  "sync_now env s = (s', Inl e) \<Longrightarrow> \<exists>m. e = AInternal m"
  "reload_now env fid name s = (s', Inl e) \<Longrightarrow> \<exists>m. e = AInternal m"
  by (auto simp: sync_now_def reload_now_def split: prod.splits sum.splits option.splits)

lemma reload_now_doc: "reload_now env fid name s = (s', r) \<Longrightarrow> doc s' = doc s"
  by (auto simp: reload_now_def split: prod.splits sum.splits option.splits)

lemma kick_session_missing: "kick_session i reg = (reg', False) \<Longrightarrow> reg' = reg"
proof -
  assume "kick_session i reg = (reg', False)"
  then have "reg' = reg\<lparr>sr_entries := map (\<lambda>(j, e). (j, if ls_id (se_public e) = i then e\<lparr>se_kick := True\<rparr> else e)) (sr_entries reg)\<rparr>"
    and "filter (\<lambda>(_, e). ls_id (se_public e) = i) (sr_entries reg) = []"
    by (auto simp: kick_session_def signal_def)
  moreover from this(2) have "map (\<lambda>(j, e). (j, if ls_id (se_public e) = i then e\<lparr>se_kick := True\<rparr> else e)) (sr_entries reg) = sr_entries reg"
    by (intro map_idI) (auto simp: filter_empty_conv)
  ultimately show "reg' = reg" by simp
qed

text \<open>The answer to an update reads the pool back, which is there.\<close>

lemma updated_pool_found:
  assumes "doc_wf (doc s)" "change env (edit_pool g name) s = (s\<^sub>1, Inr True)" "reload_now env fid name s\<^sub>1 = (s\<^sub>2, r)"
  shows "get_pool name s\<^sub>2 \<noteq> Inl e"
proof -
  have "edit_pool g name (doc s) = (doc s\<^sub>2, True)"
    using change_cases(3) [OF assms(2) refl] reload_now_doc [OF assms(3)] by simp
  then have "\<exists>pc. st_pools (doc s\<^sub>2) = btree_insert name (g pc) (st_pools (doc s))"
    by (auto simp: edit_pool_def dest!: sym [of _ "doc s\<^sub>2"] split: option.splits)
  then show ?thesis using assms(1) by (auto simp: get_pool_def doc_wf_def)
qed

text \<open>
  C18. A request that is refused (the answer is an error other than an internal one)
  changes no configuration: the pools, the users, the secrets of every pool and user, the
  running families, the live sessions and the pins are as they were.
\<close>

theorem refused_request_changes_no_configuration:
  assumes "admin_inv s" "handle env req s = (s', Inl e)" "\<And>m. e \<noteq> AInternal m"
  shows "kept s s'"
proof -
  note refused = change_refused change_drop_refused [OF assms(1)] change_edit_refused
  have "\<not> sync_now env t = (t', Inl e)" "\<not> reload_now env fid n t = (t', Inl e)" for t t' fid n
    using internal_errors assms(3) by blast+
  moreover have "doc_wf (doc s)" using assms(1) by (simp add: admin_inv_def)
  ultimately show ?thesis using assms(2)
    by (cases req)
      (auto simp: handler_defs Let_def split: sum.splits prod.splits option.splits if_splits
        dest: refused updated_pool_found kick_session_missing)
qed

section \<open>Runs\<close>

text \<open>The families as they were built, before or after their first sync.\<close>

definition started :: "AdminState \<Rightarrow> bool" where
  "started s \<longleftrightarrow> validate (doc s) = None \<and> doc_wf (doc s)
     \<and> (\<exists>fs. build_all = Inr fs
          \<and> (ad_families s = fs \<or> (\<exists>w. sync_families w (doc s) fs = (ad_families s, Inr ()))))"

lemma started_inv: "started s \<Longrightarrow> admin_inv s"
proof -
  let ?fs = "[PgDyn new_family, JdbcDyn new_jdbc_family]"
  assume s: "started s"
  have wf: "list_all dyn_wf ?fs" by (simp add: new_family_def new_jdbc_family_def)
  have b: "btree (st_pools (doc s))" using s by (simp add: started_def doc_wf_def)
  consider "ad_families s = ?fs" | w where "sync_families w (doc s) ?fs = (ad_families s, Inr ())"
    using s by (auto simp: started_def build_all_both)
  then have "list_all dyn_wf (ad_families s) \<and> map descriptor_id (ad_families s) = map descriptor_id ?fs"
  proof cases
    case 2
    note all = 2 [unfolded sync_families_def]
    show ?thesis using dyn_plane.sync_all_wf [OF all b wf] dyn_plane.sync_all_ids [OF all] by blast
  qed (use wf in simp)
  then show "admin_inv s" using s by (simp add: started_def admin_inv_def)
qed

interpretation admin: op_machine started "\<lambda>s (env, req). fst (handle env req s)" admin_inv
  by unfold_locales (auto simp: started_inv handle_inv)

text \<open>The requests served one after another, each with what its environment did.\<close>

definition admin_run :: "AdminState \<Rightarrow> (AdminEnv \<times> AdminRequest) list \<Rightarrow> AdminState" where
  "admin_run s reqs = foldl (\<lambda>s (env, req). fst (handle env req s)) s reqs"

lemma admin_run_inv: "started s \<Longrightarrow> admin_inv (admin_run s reqs)"
  unfolding admin_run_def by (rule admin.run_inv)

lemma admin_run_token: "ad_token (admin_run s reqs) = ad_token s"
proof -
  have "ad_token (foldl (\<lambda>s (env, req). fst (handle env req s)) s reqs) = ad_token s"
    by (induction reqs arbitrary: s) (auto simp: handle_keeps_token)
  then show ?thesis by (simp add: admin_run_def)
qed

section \<open>Pools that run\<close>

definition runs :: "AdminState \<Rightarrow> string \<Rightarrow> bool" where
  "runs s n \<longleftrightarrow> (\<exists>f \<in> set (ad_families s). dyn_runs f n)"

definition enabled :: "AdminState \<Rightarrow> string \<Rightarrow> bool" where
  "enabled s n \<longleftrightarrow> (\<exists>pc. map_of (st_pools (doc s)) n = Some pc \<and> \<not> pc_disabled pc)"

lemma sync_now_runs:
  assumes "admin_inv s" "sync_now env s = (s', Inr u)"
  shows "runs s' n \<longleftrightarrow> enabled s' n" "doc s' = doc s"
proof -
  obtain fs v where sync: "sync_families (ae_world env) (doc s) (ad_families s) = (fs, Inr v)" and s': "s' = s\<lparr>ad_families := fs\<rparr>"
    using assms(2) by (auto simp: sync_now_def split: sum.splits prod.splits)
  show "doc s' = doc s" by (simp add: s')
  have "set (map descriptor_id (ad_families s)) = {FAMILY_ID, JDBC_ID}" using assms(1) by (simp add: admin_inv_def)
  then show "runs s' n \<longleftrightarrow> enabled s' n"
    using synced_runs [OF sync _ _] assms(1) by (simp add: s' runs_def enabled_def admin_inv_def doc_wf_def)
qed

text \<open>What a pool request leaves in the document.\<close>

fun pool_outcome :: "AdminRequest \<Rightarrow> (string \<times> (PoolConfig option \<Rightarrow> bool)) option" where
  "pool_outcome (RCreatePool b) = Some (cp_name b, \<lambda>e. \<exists>pc. e = Some pc \<and> \<not> pc_disabled pc)"
| "pool_outcome (RResumePool n) = Some (n, \<lambda>e. \<exists>pc. e = Some pc \<and> \<not> pc_disabled pc)"
| "pool_outcome (RPausePool n) = Some (n, \<lambda>e. \<exists>pc. e = Some pc \<and> pc_disabled pc)"
| "pool_outcome (RDeletePool n) = Some (n, \<lambda>e. e = None)"
| "pool_outcome _ = None"

lemma pool_change_result:
  assumes "doc_wf st"
  shows "insert_pool env n pc pw st = (st', True) \<Longrightarrow> map_of (st_pools st') = (map_of (st_pools st))(n \<mapsto> pc)"
    and "edit_pool g n st = (st', True) \<Longrightarrow> \<exists>pc. map_of (st_pools st) n = Some pc \<and> map_of (st_pools st') = (map_of (st_pools st))(n \<mapsto> g pc)"
    and "drop_pool n st = (st', x) \<Longrightarrow> map_of (st_pools st') = (map_of (st_pools st))(n := None)"
  using assms
  by (auto simp: doc_wf_def insert_pool_def edit_pool_def drop_pool_def Let_def split: option.splits if_splits)

lemma check_create_enabled: "check_create s b = Inr (pc, pw) \<Longrightarrow> \<not> pc_disabled pc"
  by (auto simp: check_create_def pool_of_body_def Let_def split: sum.splits if_splits option.splits prod.splits)

lemma pool_request_steps:
  assumes "admin_inv t" "handle env req t = (t', Inr a)" "pool_outcome req = Some (name, P)"
  obtains u g where "admin_inv u" "sync_now env u = (t', Inr ())" "map_of (st_pools (doc u)) = (map_of (st_pools (doc t)))(name := g)" "P g"
proof -
  have wf: "doc_wf (doc t)" using assms(1) by (simp add: admin_inv_def)
  note edit = change_inv [OF assms(1)] change_cases(3) pool_change_result [OF wf]
  consider b where "req = RCreatePool b" | n where "req = RDeletePool n" | n where "req = RPausePool n" | n where "req = RResumePool n"
    using assms(3) by (cases req) auto
  then show thesis
  proof cases
    case (1 b)
    with assms(2) obtain pc pw u where c: "check_create t b = Inr (pc, pw)"
      "change env (insert_pool env (cp_name b) pc pw) t = (u, Inr True)" "sync_now env u = (t', Inr ())"
      by (auto simp: handler_defs split: sum.splits prod.splits if_splits)
    show ?thesis
      using that [OF edit(1) [OF c(2) edits_keep_doc_wf(1)] c(3), of "Some pc"] edit(2) [OF c(2) refl] edit(3) check_create_enabled [OF c(1)]
        assms(3) 1 by auto
  next
    case (2 n)
    with assms(2) obtain u where c: "change env (drop_pool n) t = (u, Inr True)" "sync_now env u = (t', Inr ())"
      by (auto simp: handler_defs split: sum.splits prod.splits if_splits)
    show ?thesis
      using that [OF edit(1) [OF c(1) edits_keep_doc_wf(3)] c(2), of None] edit(2) [OF c(1) refl] edit(5) assms(3) 2 by auto
  next
    case (3 n)
    with assms(2) obtain u where c: "change env (edit_pool (\<lambda>pc. pc\<lparr>pc_disabled := True\<rparr>) n) t = (u, Inr True)" "sync_now env u = (t', Inr ())"
      by (auto simp: handler_defs split: sum.splits prod.splits if_splits)
    from edit(4) edit(2) [OF c(1) refl] obtain pc where "map_of (st_pools (doc u)) = (map_of (st_pools (doc t)))(n \<mapsto> pc\<lparr>pc_disabled := True\<rparr>)"
      by blast
    with that [OF edit(1) [OF c(1) edits_keep_doc_wf(2)] c(2)] assms(3) 3 show ?thesis by auto
  next
    case (4 n)
    with assms(2) obtain u where c: "change env (edit_pool (\<lambda>pc. pc\<lparr>pc_disabled := False\<rparr>) n) t = (u, Inr True)" "sync_now env u = (t', Inr ())"
      by (auto simp: handler_defs split: sum.splits prod.splits if_splits)
    from edit(4) edit(2) [OF c(1) refl] obtain pc where "map_of (st_pools (doc u)) = (map_of (st_pools (doc t)))(n \<mapsto> pc\<lparr>pc_disabled := False\<rparr>)"
      by blast
    with that [OF edit(1) [OF c(1) edits_keep_doc_wf(2)] c(2)] assms(3) 4 show ?thesis by auto
  qed
qed


section \<open>Users\<close>

text \<open>A seal that always succeeds, and opens: what the libraries promise.\<close>

definition seals :: "Crypto \<Rightarrow> bool" where
  "seals c \<longleftrightarrow> aead_opens c \<and> (\<forall>k n a m. aes_encrypt c k n a m \<noteq> None)"

lemma put_secret_get:
  assumes "seals (crypto env)" "length (ae_nonce env) = NONCE_LEN" "utf8_valid p" "btree (st_secrets st)"
  shows "get (crypto env) (master_key env) r (st_secrets (put_secret env r p st)) = Inr p"
proof -
  obtain ct where "seal (crypto env) (master_key env) (ae_nonce env) p (as_key r) = Inr (ct, ae_nonce env)"
  proof -
    obtain ct where "aes_encrypt (crypto env) (master_key env) (ae_nonce env) (as_key r) p = Some ct"
      using assms(1) unfolding seals_def by blast
    then show thesis using that by (simp add: seal_def)
  qed
  with get_sealed [of "crypto env" "master_key env" "ae_nonce env" p r ct "ae_nonce env"] assms show ?thesis
    by (simp add: put_secret_def put_def seals_def)
qed

lemma encoded_verifier_utf8: "b64_ok c \<Longrightarrow> utf8_valid (encode_verifier c v)"
  using ascii_parts by (intro utf8_valid_ascii) (auto simp: encode_verifier_def)

lemma stored_verifier_made:
  assumes "seals (crypto env)" "b64_ok (crypto env)" "hash_lengths (crypto env)" "length (ae_nonce env) = NONCE_LEN" "btree (st_secrets st)"
    and "st_secrets st' = st_secrets (put_secret env (user_verifier name) (make_verifier env password) st)"
  shows "stored_verifier (crypto env) (master_key env) name st' = Some (from_password (crypto env) (ae_salt env) password)"
proof -
  have "verifier_ok (from_password (crypto env) (ae_salt env) password)"
    unfolding from_password_def by (rule from_password_ok [OF assms(3)]) (simp add: DEFAULT_ITERATIONS_def)
  then show ?thesis
    using put_secret_get [OF assms(1,4) encoded_verifier_utf8 [OF assms(2)] assms(5)] verifier_roundtrip [OF assms(2)]
    by (simp add: stored_verifier_def make_verifier_def assms(6))
qed

lemma user_change_result:
  assumes "doc_wf st"
  shows "insert_user env n uc v st = (st', True) \<Longrightarrow>
      map_of (st_users st') n = Some uc \<and> st_secrets st' = st_secrets (put_secret env (user_verifier n) v st)"
    and "edit_user env b w n st = (st', True) \<Longrightarrow>
      \<exists>u. map_of (st_users st) n = Some u \<and> map_of (st_users st') n = Some (patch_user b u)"
  using assms by (auto simp: doc_wf_def insert_user_def edit_user_def Let_def split: if_splits option.splits)

text \<open>
  C19. A user that was created can authenticate: for every enabled pool it was granted, the
  next handshake resolves its name to the verifier of the password it was created with, as
  a SCRAM exchange, or by a password in the clear where the pool opens connections as the
  user.
\<close>

theorem created_user_can_authenticate:
  assumes "seals (crypto env)" "b64_ok (crypto env)" "hash_lengths (crypto env)" "length (ae_nonce env) = NONCE_LEN"
    and "admin_inv s" "handle env (RCreateUser b) s = (s', Inr a)"
    and "pool \<in> set (cu_pools b)" "map_of (st_pools (doc s')) pool = Some pc" "\<not> pc_disabled pc" "au_state au = doc s'"
  shows "resolve_client (crypto env) (master_key env) au (cu_name b) pool =
    Inr (let v = from_password (crypto env) (ae_salt env) (cu_password b) in
         if is_per_user (pc_backend_auth pc) \<and> cu_own_backend_role b
         then CPlaintext v (pc_allow_password_without_tls pc) else CScram v)"
proof -
  let ?uc = "\<lparr>uc_pools = cu_pools b, uc_max_client_connections = cu_max_client_connections b,
    uc_own_backend_role = cu_own_backend_role b, uc_read_only = cu_read_only b, uc_disabled = False\<rparr>"
  have wf: "doc_wf (doc s)" using assms(5) by (simp add: admin_inv_def)
  define f where "f = insert_user env (cu_name b) ?uc (make_verifier env (cu_password b))"
  from assms(6) have "change env f s = (s', Inr True)"
    by (auto simp: create_user_def answer_with_def f_def Let_def split: sum.splits prod.splits if_splits)
  then have "insert_user env (cu_name b) ?uc (make_verifier env (cu_password b)) (doc s) = (doc s', True)"
    using change_cases(3) [of env f s s' "Inr True" True] by (simp add: f_def)
  note result = user_change_result(1) [OF wf this]
  have "stored_verifier (crypto env) (master_key env) (cu_name b) (doc s') = Some (from_password (crypto env) (ae_salt env) (cu_password b))"
    by (rule stored_verifier_made [OF assms(1-4) _ conjunct2 [OF result]]) (use wf in \<open>simp add: doc_wf_def\<close>)
  then show ?thesis
    using assms(7-10) conjunct1 [OF result] by (simp add: resolve_client_def Let_def)
qed

text \<open>
  C20. A user that was disabled is refused by the next handshake on every pool, whatever
  identities the database has vouched for, and when the same request asked for it each of
  the user's live sessions has been told to end, and no other session.
\<close>

theorem disabled_user_is_out:
  assumes "admin_inv s" "handle env (RUpdateUser name b) s = (s', Inr a)" "uu_disabled b = Some True" "au_state au = doc s'"
  shows "isl (resolve_client c k au name pool)
    \<and> (entry_of i (ad_sessions s') =
        (if uu_kick b then map_option (\<lambda>e. e\<lparr>se_kick := se_kick e \<or> ls_user (se_public e) = name\<rparr>) (entry_of i (ad_sessions s))
         else entry_of i (ad_sessions s)))"
proof -
  let ?f = "edit_user env b (map_option (make_verifier env) (uu_password b)) name"
  from assms(2) obtain u where u: "change env ?f s = (u, Inr True)"
    "s' = (if uu_kick b then u\<lparr>ad_sessions := fst (kick_user name (ad_sessions u))\<rparr> else u)"
    by (auto simp: handler_defs Let_def split: sum.splits prod.splits if_splits)
  obtain st where "u = s\<lparr>ad_store := st\<rparr>" using change_cases(1) [OF u(1)] by blast
  then have sessions: "ad_sessions u = ad_sessions s" and d: "doc s' = doc u" using u(2) by simp_all
  have "edit_user env b (map_option (make_verifier env) (uu_password b)) name (doc s) = (doc u, True)"
    using change_cases(3) [OF u(1) refl] by simp
  then obtain uc where "map_of (st_users (doc s')) name = Some (patch_user b uc)"
    using user_change_result(2) assms(1) d unfolding admin_inv_def by metis
  moreover have "uc_disabled (patch_user b uc)" using assms(3) by (simp add: patch_user_def value_or_else_def)
  ultimately have "isl (resolve_client c k au name pool)"
    using assms(4) by (auto simp: resolve_client_def Let_def split: option.splits)
  moreover have "entry_of i (fst (kick_user name reg)) =
      map_option (\<lambda>e. e\<lparr>se_kick := se_kick e \<or> ls_user (se_public e) = name\<rparr>) (entry_of i reg)" for reg
    using kick_reaches_exactly_the_user by blast
  ultimately show ?thesis using u(2) sessions by simp
qed

section \<open>Credentials of pools\<close>

lemma map_of_remove_all:
  "map_of (foldl (\<lambda>m k. btree_remove k m) m ks) k = (if k \<in> set ks then None else map_of m k)"
  by (induction ks arbitrary: m) auto

lemma check_create_body:
  assumes "check_create s b = Inr (pc, pw)"
  obtains f d where "family (cp_family b) = Some f" "pool_of_body b f d = (pc, pw)"
proof -
  obtain f d where "resolve_profile (cp_family b) (cp_profile b) = Inr (f, d)" "pool_of_body b f d = (pc, pw)"
    using assms by (auto simp: check_create_def split: sum.splits if_splits option.splits prod.splits)
  moreover from this(1) have "family (cp_family b) = Some f"
    by (auto simp: resolve_profile_def split: option.splits if_splits)
  ultimately show thesis using that by blast
qed

lemma insert_pool_secrets:
  assumes "insert_pool env n pc pw st = (st', True)"
  shows "st_secrets st' = (case pw of Some p \<Rightarrow> st_secrets (put_secret env (pool_backend_password n) p st) | None \<Rightarrow> st_secrets st)"
  using assms by (auto simp: insert_pool_def Let_def split: if_splits option.splits)

text \<open>
  C21. A pool that was created is in the document without any of the settings its family
  declares secret, and the password the settings carried can be opened from the sealed
  store under the name of the pool; a pool never shows more than whether there is one.
\<close>

theorem created_pool_keeps_its_password_sealed:
  assumes "seals (crypto env)" "length (ae_nonce env) = NONCE_LEN" "admin_inv s"
    and "handle env (RCreatePool b) s = (s', Inr a)" "family (cp_family b) = Some f"
  shows "\<exists>pc. map_of (st_pools (doc s')) (cp_name b) = Some pc
    \<and> (\<forall>k \<in> set (secret_fields f). map_of (pc_settings pc) k = None)
    \<and> (\<forall>p. cn_password (connection_of f (cp_settings b)) = Some p \<and> utf8_valid p \<longrightarrow>
         get (crypto env) (master_key env) (pool_backend_password (cp_name b)) (st_secrets (doc s')) = Inr p)"
proof -
  have wf: "doc_wf (doc s)" using assms(3) by (simp add: admin_inv_def)
  from assms(4) obtain pc pw u where c: "check_create s b = Inr (pc, pw)"
    "change env (insert_pool env (cp_name b) pc pw) s = (u, Inr True)" "sync_now env u = (s', Inr ())"
    by (auto simp: create_pool_def answer_with_def split: sum.splits prod.splits if_splits)
  obtain st where "s' = u\<lparr>ad_families := st\<rparr>" using sync_now_cases [OF c(3)] by blast
  then have d: "doc s' = doc u" by simp
  have ins: "insert_pool env (cp_name b) pc pw (doc s) = (doc s', True)" using change_cases(3) [OF c(2) refl] d by simp
  obtain d' where pb: "pool_of_body b f d' = (pc, pw)" using check_create_body [OF c(1)] assms(5) by force
  then have body: "pc = fst (pool_of_body b f d')" "pw = cn_password (connection_of f (cp_settings b))"
    by (simp_all add: pool_of_body_def Let_def)
  have "map_of (st_pools (doc s')) (cp_name b) = Some pc" using pool_change_result(1) [OF wf ins] by simp
  moreover have "map_of (pc_settings pc) k = None" if "k \<in> set (secret_fields f)" for k
    using that by (simp add: body(1) pool_of_body_def map_of_remove_all Let_def)
  moreover have "get (crypto env) (master_key env) (pool_backend_password (cp_name b)) (st_secrets (doc s')) = Inr p"
    if "pw = Some p" "utf8_valid p" for p
    using put_secret_get [OF assms(1,2) that(2)] wf insert_pool_secrets [OF ins] that(1) by (simp add: doc_wf_def)
  ultimately show ?thesis using body(2) by blast
qed

section \<open>What requests leave undone\<close>

text \<open>A pool that cannot be built is in the document all the same, and the request fails.\<close>

lemma unbuildable_pool_stays:
  assumes "check_create s b = Inr (pc, pw)" "change env (insert_pool env (cp_name b) pc pw) s = (u, Inr True)" "doc_wf (doc s)"
    and "sync_families (ae_world env) (doc u) (ad_families u) = (fs, Inl e)"
  shows "\<exists>m. create_pool env b s = (u\<lparr>ad_families := fs\<rparr>, Inl (AInternal m))
    \<and> map_of (st_pools (doc (u\<lparr>ad_families := fs\<rparr>))) (cp_name b) = Some pc"
  using assms change_cases(3) [OF assms(2) refl] pool_change_result(1) [OF assms(3)]
  by (auto simp: create_pool_def sync_now_def)

text \<open>A pool that is asked to drain answers so and goes on as before.\<close>

lemma drain_request_changes_nothing:
  "handle env (RDrainPool n) s =
     (s, if map_of (st_pools (doc s)) n = None then Inl (ANotFound (pool_text n)) else Inr (AText ''draining''))"
  by (simp add: drain_pool_def answer_with_def)

text \<open>
  Deleting a pool removes the users it leaves without a grant and keeps their verifiers,
  whatever they are.
\<close>

lemma deleted_pool_leaves_verifiers:
  "doc_wf st \<Longrightarrow> map_of (st_secrets (fst (drop_pool n st))) (user_verifier who) = map_of (st_secrets st) (user_verifier who)"
  by (simp add: drop_pool_def doc_wf_def retain_owners_lookup user_verifier_def Let_def)

section \<open>Instances\<close>

definition example_admin_env :: AdminEnv where
  "example_admin_env =
     \<lparr>ae_world = example_world, ae_to_json = (\<lambda>_. []), ae_junk = [], ae_file_ok = (\<lambda>_. True),
      ae_nonce = replicate 12 CHR ''n'', ae_salt = ''salt'', ae_store_text = (\<lambda>_. [])\<rparr>"

definition example_admin :: AdminState where
  "example_admin =
     \<lparr>ad_store = wrap True example_document \<lparr>dk_path = None, dk_before = [], dk_tmp = None\<rparr>,
      ad_families = [PgDyn new_family, JdbcDyn new_jdbc_family], ad_sessions = new_sessions, ad_pins = new_registry,
      ad_reserved_port = None, ad_client_tls = True, ad_token = Some ''t0ken''\<rparr>"

lemma example_admin_simps [simp]:
  "doc example_admin = example_document" "so_ephemeral (ad_store example_admin)" "ad_token example_admin = Some ''t0ken''"
  "ad_families example_admin = [PgDyn new_family, JdbcDyn new_jdbc_family]"
  by (simp_all add: doc_def example_admin_def wrap_def)

lemma example_doc_wf: "doc_wf example_document"
  using example_document_ok by (simp add: doc_wf_def) (simp add: example_document_def default_state_def)

lemma example_admin_started: "started example_admin"
  using example_document_ok example_doc_wf by (simp add: started_def build_all_both)

lemma change_ephemeral:
  assumes "so_ephemeral (ad_store s)" "f (doc s) = (st, x)" "validate st = None"
  shows "\<exists>s'. change env f s = (s', Inr x) \<and> doc s' = st \<and> ad_families s' = ad_families s"
  using assms by (auto simp: change_def update_def doc_def publish_def Let_def)

lemma refused_example:
  "\<exists>s'. handle example_admin_env (RDeletePool ''nope'') example_admin = (s', Inl (ANotFound (pool_text ''nope'')))"
proof -
  have "drop_pool ''nope'' example_document = (example_document, False)"
    by (simp add: drop_pool_def example_document_def default_state_def btree_remove_def retain_owners_def)
  with change_ephemeral [of example_admin "drop_pool ''nope''" example_document False example_admin_env] example_document_ok(1)
  obtain s' where "change example_admin_env (drop_pool ''nope'') example_admin = (s', Inr False)"
    by auto
  then show ?thesis by (simp add: delete_pool_def answer_with_def)
qed

theorem refused_request_changes_no_configuration_witness:
  "\<exists>s'. handle example_admin_env (RDeletePool ''nope'') example_admin = (s', Inl (ANotFound (pool_text ''nope''))) \<and> kept example_admin s'"
proof -
  obtain s' where s': "handle example_admin_env (RDeletePool ''nope'') example_admin = (s', Inl (ANotFound (pool_text ''nope'')))"
    using refused_example by blast
  from refused_request_changes_no_configuration [OF started_inv [OF example_admin_started] s'] s' show ?thesis by blast
qed

subsection \<open>Pausing a pool\<close>

definition paused_document :: State where
  "paused_document = example_document\<lparr>st_pools := [(''orders'', example_passthrough_pool\<lparr>pc_disabled := True\<rparr>)]\<rparr>"

lemma paused_document_valid: "validate paused_document = None"
proof -
  have "validate_pool (example_passthrough_pool\<lparr>pc_disabled := True\<rparr>) ''orders'' = None" "is_valid_name ''orders''" by code_simp+
  then show ?thesis
    by (simp add: validate_def validate_listeners_def paused_document_def example_document_def default_state_def STATE_VERSION_def
        example_passthrough_pool_def example_pool_def)
qed

lemma paused_sync:
  "sync_families w paused_document [PgDyn new_family, JdbcDyn new_jdbc_family] = ([PgDyn new_family, JdbcDyn new_jdbc_family], Inr ())"
  by (simp add: sync_families_def rebuild_pools_def rebuild_jdbc_def paused_document_def ours_def jdbc_live_def
      new_family_def new_jdbc_family_def)


subsection \<open>Users\<close>

lemma validate_other_users:
  assumes "validate st = None" "st_version st' = st_version st" "st_pools st' = st_pools st"
    and "\<And>n u. (n, u) \<in> set (st_users st') \<Longrightarrow> validate_user st n u = None"
  shows "validate st' = None"
proof -
  have "validate_user st' = validate_user st" "validate_listeners st' = validate_listeners st"
    unfolding validate_user_def validate_listeners_def assms(3) by (rule refl)+
  moreover have "find_map (\<lambda>(n, u). validate_user st n u) (st_users st') = None"
    using assms(4) by (auto simp: find_map_None)
  ultimately show ?thesis using assms(1-3) by (auto simp: validate_def find_map_None split: if_splits)
qed

definition example_user :: CreateUser where
  "example_user =
     \<lparr>cu_name = ''alice'', cu_password = ''hunter2'', cu_pools = [''orders''], cu_max_client_connections = 0,
      cu_own_backend_role = False, cu_read_only = False\<rparr>"

lemma alice_valid: "uc_pools u = [''orders''] \<Longrightarrow> validate_user example_document ''alice'' u = None"
proof -
  have "is_valid_name ''alice''" by code_simp
  then show "uc_pools u = [''orders''] \<Longrightarrow> ?thesis" by (simp add: validate_user_def example_document_def)
qed

lemma example_seals: "seals (crypto example_admin_env)" "b64_ok (crypto example_admin_env)" "hash_lengths (crypto example_admin_env)"
  "length (ae_nonce example_admin_env) = NONCE_LEN"
  using tag_cipher_ok example_lib_ok
  by (simp_all add: seals_def crypto_def example_admin_env_def example_world_def example_libs_def aead_opens_def NONCE_LEN_def)
    (simp_all add: example_lib_def tag_cipher_def)

lemma put_secret_version [simp]: "st_version (put_secret env r p st) = st_version st"
  by (simp add: put_secret_def split: sum.splits)

theorem created_user_can_authenticate_witness:
  "\<exists>s'. handle example_admin_env (RCreateUser example_user) example_admin = (s', Inr (AText ''alice''))
    \<and> resolve_client (crypto example_admin_env) (master_key example_admin_env) (new_authenticator (doc s')) ''alice'' ''orders''
      = Inr (CScram (from_password (crypto example_admin_env) ''salt'' ''hunter2''))"
proof -
  define uc where "uc = \<lparr>uc_pools = [''orders''], uc_max_client_connections = 0, uc_own_backend_role = False, uc_read_only = False,
    uc_disabled = False\<rparr>"
  define f where "f = insert_user example_admin_env ''alice'' uc (make_verifier example_admin_env ''hunter2'')"
  obtain st where f: "f example_document = (st, True)" and st: "st_version st = st_version example_document"
    "st_pools st = st_pools example_document" "st_users st = [(''alice'', uc)]"
    by (simp add: f_def insert_user_def example_document_def default_state_def Let_def)
  have "validate st = None"
    by (rule validate_other_users [OF example_document_ok(1) st(1,2)]) (auto simp: st(3) alice_valid uc_def)
  with change_ephemeral [of example_admin f st True example_admin_env] f
  obtain s' where s': "change example_admin_env f example_admin = (s', Inr True)" "doc s' = st" by auto
  then have run: "handle example_admin_env (RCreateUser example_user) example_admin = (s', Inr (AText ''alice''))"
    by (simp add: create_user_def answer_with_def example_user_def f_def uc_def)
  have pc: "map_of (st_pools (doc s')) ''orders'' = Some example_passthrough_pool" "\<not> pc_disabled example_passthrough_pool"
    by (simp_all add: s'(2) st(2) example_document_def example_passthrough_pool_def example_pool_def)
  have "''orders'' \<in> set (cu_pools example_user)" "au_state (new_authenticator (doc s')) = doc s'"
    by (simp_all add: example_user_def new_authenticator_def)
  from created_user_can_authenticate [OF example_seals started_inv [OF example_admin_started] run this(1) pc this(2)] run
  show ?thesis by (simp add: example_user_def example_admin_env_def)
qed

definition example_revocation :: UpdateUser where
  "example_revocation =
     \<lparr>uu_pools = None, uu_max_client_connections = None, uu_own_backend_role = None, uu_read_only = None,
      uu_disabled = Some True, uu_password = None, uu_kick = True\<rparr>"

definition example_staff :: AdminState where
  "example_staff =
     example_admin\<lparr>ad_store := (ad_store example_admin)\<lparr>so_current := example_document\<lparr>st_users := [(''alice'', new_user [''orders''])]\<rparr>\<rparr>\<rparr>"

lemma example_staff_simps [simp]:
  "doc example_staff = example_document\<lparr>st_users := [(''alice'', new_user [''orders''])]\<rparr>" "so_ephemeral (ad_store example_staff)"
  "ad_families example_staff = [PgDyn new_family, JdbcDyn new_jdbc_family]"
  by (simp_all add: example_staff_def doc_def)

lemma example_staff_inv: "admin_inv example_staff"
proof -
  have "validate (doc example_staff) = None"
    by (rule validate_other_users [OF example_document_ok(1)]) (auto simp: alice_valid new_user_def)
  then show ?thesis using example_doc_wf by (simp add: admin_inv_def doc_wf_def new_family_def new_jdbc_family_def btree_def)
qed

theorem disabled_user_is_out_witness:
  "\<exists>s' n. handle example_admin_env (RUpdateUser ''alice'' example_revocation) example_staff = (s', Inr (ACount n))
    \<and> isl (resolve_client example_lib ''key'' (new_authenticator (doc s')) ''alice'' ''orders'')"
proof -
  define f where "f = edit_user example_admin_env example_revocation None ''alice''"
  define st where "st = example_document\<lparr>st_users := [(''alice'', patch_user example_revocation (new_user [''orders'']))]\<rparr>"
  have f: "f (doc example_staff) = (st, True)" by (simp add: f_def st_def edit_user_def)
  have "validate st = None"
    by (rule validate_other_users [OF example_document_ok(1)])
      (auto simp: st_def alice_valid new_user_def patch_user_def example_revocation_def value_or_else_def)
  with change_ephemeral [of example_staff f st True example_admin_env] f
  obtain u where u: "change example_admin_env f example_staff = (u, Inr True)" by auto
  obtain reg n where "kick_user ''alice'' (ad_sessions u) = (reg, n)" by fastforce
  with u have run: "handle example_admin_env (RUpdateUser ''alice'' example_revocation) example_staff
      = (u\<lparr>ad_sessions := reg\<rparr>, Inr (ACount n))"
    by (simp add: update_user_def answer_with_def example_revocation_def f_def)
  have "uu_disabled example_revocation = Some True" "au_state (new_authenticator (doc (u\<lparr>ad_sessions := reg\<rparr>))) = doc (u\<lparr>ad_sessions := reg\<rparr>)"
    by (simp_all add: example_revocation_def new_authenticator_def)
  from disabled_user_is_out [OF example_staff_inv run this] run show ?thesis by blast
qed

subsection \<open>Creating a pool\<close>

definition example_body :: CreatePool where
  "example_body =
     \<lparr>cp_name = ''sales'', cp_family = ''postgres'', cp_profile = None, cp_mode = None, cp_targets = Some [new_target ''db'' 5432],
      cp_listen_port = 6433, cp_aliases = [], cp_backend_auth = Shared, cp_allow_password_without_tls = False, cp_read_only = False,
      cp_trace = TraceStatements, cp_limits = Some (pc_limits example_passthrough_pool),
      cp_settings = [(''database'', JString ''orders''), (''host'', JString ''db''), (''password'', JString ''hunter2''), (''username'', JString ''app'')],
      cp_routing = Some (pc_routing example_passthrough_pool)\<rparr>"

definition example_created :: PoolConfig where
  "example_created =
     (example_pool Transaction 6433 [])\<lparr>pc_profile := Some ''postgres'',
       pc_settings := [(''database'', JString ''orders''), (''host'', JString ''db''), (''username'', JString ''app'')]\<rparr>"

definition example_blank :: AdminState where
  "example_blank = example_admin\<lparr>ad_store := (ad_store example_admin)\<lparr>so_current := default_state\<rparr>\<rparr>"

lemma example_blank_simps [simp]:
  "doc example_blank = default_state" "so_ephemeral (ad_store example_blank)"
  "ad_families example_blank = [PgDyn new_family, JdbcDyn new_jdbc_family]" "ad_reserved_port example_blank = None"
  by (simp_all add: example_blank_def doc_def) (simp add: example_admin_def)

lemma postgres_found: "family ''postgres'' = Some POSTGRES"
  by (simp add: family_def FAMILIES_def POSTGRES_def)

lemma example_connection:
  "cn_user (connection_of POSTGRES (cp_settings example_body)) = ''app''"
  "cn_database (connection_of POSTGRES (cp_settings example_body)) = ''orders''"
  "cn_password (connection_of POSTGRES (cp_settings example_body)) = Some ''hunter2''"
  "secret_fields POSTGRES = [''password'']"
  by (simp_all add: connection_of_def role_text_def field_for_def POSTGRES_def POSTGRES_FIELDS_def text_field_def password_field_def
      example_body_def or_empty_def secret_fields_def Let_def)

lemma example_pool_of_body: "pool_of_body example_body POSTGRES (default_profile POSTGRES) = (example_created, Some ''hunter2'')"
proof -
  have "fd_id POSTGRES = ''postgres''" "dp_id (default_profile POSTGRES) = ''postgres''" "fd_default_pool_mode POSTGRES = Transaction"
    by (simp_all add: POSTGRES_def POSTGRES_PROFILES_def default_profile_def)
  then show ?thesis
    unfolding pool_of_body_def Let_def example_connection
    by (simp add: example_body_def example_created_def example_pool_def example_passthrough_pool_def value_or_else_def btree_remove_def)
qed

lemma example_check: "check_create example_blank example_body = Inr (example_created, Some ''hunter2'')"
proof -
  have "check_listen_port example_blank (cp_name example_body) (cp_listen_port example_body) (cp_family example_body) = Inr ()"
    by (simp add: check_listen_port_def example_body_def default_state_def)
  moreover have "resolve_profile (cp_family example_body) (cp_profile example_body) = Inr (POSTGRES, default_profile POSTGRES)"
    by (simp add: example_body_def resolve_profile_def postgres_found) (simp add: POSTGRES_def is_usable_def)
  moreover have "check_fields False (cp_settings example_body) (fd_config_fields POSTGRES) = None" by code_simp
  moreover have "List.find (\<lambda>(key, _). key \<notin> cf_name ` set (fd_config_fields POSTGRES)) (cp_settings example_body) = None"
    by (simp add: example_body_def POSTGRES_def POSTGRES_FIELDS_def text_field_def password_field_def)
  moreover have "cp_backend_auth example_body = Shared" "\<not> cp_read_only example_body" by (simp_all add: example_body_def)
  ultimately show ?thesis by (simp add: check_create_def example_pool_of_body)
qed

lemma example_created_builds:
  "\<exists>g. build_group 0 ''sales'' example_created (connector_for example_libs ''sales'' example_created st ident) = Inr g"
proof -
  have "profile_of POSTGRES ''postgres'' \<noteq> None" by (simp add: profile_of_def POSTGRES_def POSTGRES_PROFILES_def)
  then have "\<exists>d. connector_for example_libs ''sales'' example_created st ident t = Inr d" for t
    by (auto simp: connector_for_def example_created_def example_pool_def settings_text_def client_config_def postgres_found
        example_libs_def example_pki_def mode_defs credentials_def split: prod.splits)
  then obtain d where "connector_for example_libs ''sales'' example_created st ident (new_target ''db'' 5432) = Inr d" by blast
  then show ?thesis
    by (simp add: build_group_def primary_target_def example_created_def example_pool_def new_target_def Let_def)
qed

lemma created_sync:
  assumes "st_pools st = [(''sales'', example_created)]"
  shows "\<exists>fs. sync_families example_world st [PgDyn new_family, JdbcDyn new_jdbc_family] = (fs, Inr ())"
proof -
  obtain g where "build_group 0 ''sales'' example_created (connector_for example_libs ''sales'' example_created st Service) = Inr g"
    using example_created_builds by blast
  then have "\<exists>fa'. rebuild_pools example_libs 0 st new_family = (fa', Inr ())"
    by (simp add: rebuild_pools_def assms ours_def new_family_def Let_def)
  then show ?thesis
    by (auto simp: sync_families_def example_world_def rebuild_jdbc_def assms jdbc_live_def new_jdbc_family_def example_created_def
        example_pool_def JDBC_ID_def)
qed

theorem created_pool_keeps_its_password_sealed_witness:
  "\<exists>s' v. handle example_admin_env (RCreatePool example_body) example_blank = (s', Inr (APool v))
    \<and> get (crypto example_admin_env) (master_key example_admin_env) (pool_backend_password ''sales'') (st_secrets (doc s')) = Inr ''hunter2''"
proof -
  define f where "f = insert_pool example_admin_env ''sales'' example_created (Some ''hunter2'')"
  obtain st where f: "f default_state = (st, True)" and st: "st_version st = STATE_VERSION"
    "st_pools st = [(''sales'', example_created)]" "st_users st = []"
    by (simp add: f_def insert_pool_def default_state_def Let_def)
  have "validate_pool example_created ''sales'' = None" "is_valid_name ''sales''" by code_simp+
  then have "validate st = None"
    unfolding validate_def validate_listeners_def st by (simp add: example_created_def example_pool_def)
  with change_ephemeral [of example_blank f st True example_admin_env] f
  obtain u where u: "change example_admin_env f example_blank = (u, Inr True)" "doc u = st"
    "ad_families u = [PgDyn new_family, JdbcDyn new_jdbc_family]" by auto
  obtain fs where "sync_families example_world st [PgDyn new_family, JdbcDyn new_jdbc_family] = (fs, Inr ())"
    using created_sync [OF st(2)] by blast
  then have "sync_now example_admin_env u = (u\<lparr>ad_families := fs\<rparr>, Inr ())"
    using u by (simp add: sync_now_def example_admin_env_def)
  moreover have "cp_name example_body = ''sales''" "cp_family example_body = ''postgres''" by (simp_all add: example_body_def)
  moreover note u(1) [unfolded f_def]
  ultimately obtain s' v where run: "handle example_admin_env (RCreatePool example_body) example_blank = (s', Inr (APool v))"
    by (simp add: create_pool_def answer_with_def example_check)
  have inv: "admin_inv example_blank"
    using default_state_valid by (simp add: admin_inv_def doc_wf_def new_family_def new_jdbc_family_def) (simp add: default_state_def)
  have "family (cp_family example_body) = Some POSTGRES" using \<open>cp_family example_body = ''postgres''\<close> by (simp add: postgres_found)
  moreover have "utf8_valid ''hunter2''" by (simp add: utf8_valid_ascii)
  ultimately show ?thesis
    using created_pool_keeps_its_password_sealed [OF example_seals(1,4) inv run] example_connection(3) run
      \<open>cp_name example_body = ''sales''\<close> by auto
qed

end
