(* ===== verification/Server.thy ===== *)
theory Server
  imports Admin_Properties Pooler "HOL-Library.Word"
begin

text \<open>
  The process (\<open>havuz-server/src/main.rs\<close>, \<open>cli.rs\<close>, \<open>pooler.rs\<close>) and its static
  configuration (\<open>havuz-core/src/config.rs\<close>): the command line, the checks before anything
  is bound, the master key and where it comes from, the order of the start, and the wait
  for sessions at the end. TOML, the environment, the file system and the clocks are
  arguments. The results: a listener others can reach never serves without a token, a
  generated key is the one the next start finds, and the wait ends.
\<close>

section \<open>Static configuration\<close>

text \<open>Addresses by their bytes; \<open>is_loopback\<close> and \<open>is_unspecified\<close> are those of the standard library.\<close>

datatype IpAddr = V4 "8 word" "8 word" "8 word" "8 word" | V6 "16 word list"

fun ip_is_loopback :: "IpAddr \<Rightarrow> bool" where
  "ip_is_loopback (V4 a _ _ _) \<longleftrightarrow> a = 127"
| "ip_is_loopback (V6 ws) \<longleftrightarrow> ws = [0, 0, 0, 0, 0, 0, 0, 1]"

fun ip_is_unspecified :: "IpAddr \<Rightarrow> bool" where
  "ip_is_unspecified (V4 a b c d) \<longleftrightarrow> a = 0 \<and> b = 0 \<and> c = 0 \<and> d = 0"
| "ip_is_unspecified (V6 ws) \<longleftrightarrow> ws = [0, 0, 0, 0, 0, 0, 0, 0]"

type_synonym SocketAddr = "IpAddr \<times> u16"

definition is_loopback :: "SocketAddr \<Rightarrow> bool" where
  "is_loopback addr = ip_is_loopback (fst addr)"

record ServerConfig =
  sc_bind :: IpAddr
  sc_workers :: nat
  sc_max_client_connections :: u32
  sc_tls :: ServerTls

definition reserved_port :: "ServerConfig \<Rightarrow> SocketAddr \<Rightarrow> u16 option" where
  "reserved_port sc admin =
     (if sc_bind sc = fst admin \<or> ip_is_unspecified (sc_bind sc) \<or> ip_is_unspecified (fst admin) then Some (snd admin) else None)"

definition default_server :: ServerConfig where
  "default_server =
     \<lparr>sc_bind = V4 0 0 0 0, sc_workers = 0, sc_max_client_connections = 1000,
      sc_tls = \<lparr>tl_cert = None, tl_key = None, tl_require_client_cert = False\<rparr>\<rparr>"

record AdminConfig =
  ac_listen :: SocketAddr
  ac_auth :: AdminAuth

definition default_admin :: AdminConfig where
  "default_admin = \<lparr>ac_listen = (V4 127 0 0 1, 7432), ac_auth = NoAuth\<rparr>"

record SecretsConfig =
  se_master_key :: "string option"
  se_master_key_file :: "string option"
  se_auto_generate :: bool

definition default_secrets :: SecretsConfig where
  "default_secrets = \<lparr>se_master_key = None, se_master_key_file = None, se_auto_generate = True\<rparr>"

record Bootstrap =
  bo_server :: ServerConfig
  bo_admin :: AdminConfig
  bo_dir :: string                      \<comment> \<open>the state directory\<close>
  bo_secrets :: SecretsConfig

definition default_bootstrap :: Bootstrap where
  "default_bootstrap = \<lparr>bo_server = default_server, bo_admin = default_admin, bo_dir = ''./data'', bo_secrets = default_secrets\<rparr>"

definition join_path :: "string \<Rightarrow> string \<Rightarrow> string" where
  "join_path dir name = (if dir = [] then name else if last dir = CHR ''/'' then dir @ name else dir @ ''/'' @ name)"

definition state_file :: "Bootstrap \<Rightarrow> string" where
  "state_file bo = join_path (bo_dir bo) ''state.json''"

datatype BootstrapError =
  BRead string
  | BParse string
  | UnauthenticatedRemoteAdmin SocketAddr
  | AdminTokenMissing SocketAddr string
  | ListenerCollision IpAddr SocketAddr          \<comment> \<open>declared, never raised\<close>
  | IncompleteTls
  | AmbiguousMasterKey

definition validate_bootstrap :: "Bootstrap \<Rightarrow> BootstrapError option" where
  "validate_bootstrap bo =
     (if \<not> is_loopback (ac_listen (bo_admin bo)) \<and> ac_auth (bo_admin bo) = NoAuth
      then Some (UnauthenticatedRemoteAdmin (ac_listen (bo_admin bo)))
      else if (tl_cert (sc_tls (bo_server bo)) \<noteq> None) \<noteq> (tl_key (sc_tls (bo_server bo)) \<noteq> None) then Some IncompleteTls
      else if se_master_key (bo_secrets bo) \<noteq> None \<and> se_master_key_file (bo_secrets bo) \<noteq> None then Some AmbiguousMasterKey
      else None)"

text \<open>\<open>raw\<close> is the file, or the error of reading it; the parser is a parameter.\<close>

definition load_bootstrap :: "(string \<Rightarrow> string + Bootstrap) \<Rightarrow> string \<Rightarrow> string + string \<Rightarrow> BootstrapError + Bootstrap" where
  "load_bootstrap parse_toml path raw =
     (case raw of
        Inl _ \<Rightarrow> Inl (BRead path)
      | Inr bs \<Rightarrow>
          (case parse_toml bs of
             Inl _ \<Rightarrow> Inl (BParse path)
           | Inr bo \<Rightarrow> (case validate_bootstrap bo of Some e \<Rightarrow> Inl e | None \<Rightarrow> Inr bo)))"

definition expected_token :: "(string \<Rightarrow> string option) \<Rightarrow> AdminAuth \<Rightarrow> string option" where
  "expected_token environment auth =
     (case auth of
        NoAuth \<Rightarrow> None
      | Bearer var \<Rightarrow> (case environment var of Some t \<Rightarrow> if t = [] then None else Some t | None \<Rightarrow> None))"

definition check_admin_token :: "(string \<Rightarrow> string option) \<Rightarrow> Bootstrap \<Rightarrow> BootstrapError option" where
  "check_admin_token environment bo =
     (case ac_auth (bo_admin bo) of
        NoAuth \<Rightarrow> None
      | Bearer var \<Rightarrow>
          if is_loopback (ac_listen (bo_admin bo)) then None
          else (case expected_token environment (ac_auth (bo_admin bo)) of
              Some _ \<Rightarrow> None
            | None \<Rightarrow> Some (AdminTokenMissing (ac_listen (bo_admin bo)) var)))"

section \<open>The master key\<close>

datatype KeyFile = Absent | Unreadable string | Contents string

datatype KeySource = Environment | ConfigInline | ConfigFile | StateDirectory | Generated

fun key_source_text :: "KeySource \<Rightarrow> string" where
  "key_source_text Environment = ''environment''"
| "key_source_text ConfigInline = ''config file''"
| "key_source_text ConfigFile = ''key file named by the config''"
| "key_source_text StateDirectory = ''key file in the state directory''"
| "key_source_text Generated = ''generated''"

datatype KeyFailure =
  Unusable string MasterKeyError
  | KeyRead string string
  | KeyWrite string string
  | KeyMissing string

definition ENV_VAR :: string where
  "ENV_VAR = ''HAVUZ_MASTER_KEY''"

definition parse_key :: "Crypto \<Rightarrow> string \<Rightarrow> string \<Rightarrow> KeyFailure + MasterKey" where
  "parse_key c raw src = (case key_from_base64 c raw of Inl e \<Rightarrow> Inl (Unusable src e) | Inr k \<Rightarrow> Inr k)"

definition read_key_file :: "(string \<Rightarrow> KeyFile) \<Rightarrow> string \<Rightarrow> KeyFailure + string" where
  "read_key_file files path =
     (case files path of
        Contents bs \<Rightarrow> Inr bs
      | Unreadable e \<Rightarrow> Inl (KeyRead path e)
      | Absent \<Rightarrow> Inl (KeyRead path ''No such file or directory''))"

text \<open>
  A new file, created readable by its owner only. \<open>dir_error\<close> is the failure of making the
  directory; \<open>write_error\<close> that of the writes, with the bytes that reached the file.
\<close>

definition write_key_file ::
  "string option \<Rightarrow> (string \<times> string) option \<Rightarrow> string \<Rightarrow> string \<Rightarrow> (string \<Rightarrow> KeyFile) \<Rightarrow> (string \<Rightarrow> KeyFile) \<times> (KeyFailure + unit)"
where
  "write_key_file dir_error write_error path contents files =
     (case dir_error of
        Some e \<Rightarrow> (files, Inl (KeyWrite path e))
      | None \<Rightarrow>
          if files path \<noteq> Absent then (files, Inl (KeyWrite path ''File exists''))
          else (case write_error of
              Some (e, written) \<Rightarrow> (files(path := Contents written), Inl (KeyWrite path e))
            | None \<Rightarrow> (files(path := Contents (contents @ [CHR 0x0A])), Inr ())))"

definition generated_key_file :: "Bootstrap \<Rightarrow> string" where
  "generated_key_file bo = join_path (bo_dir bo) ''master.key''"

definition given :: "string option \<Rightarrow> string option" where
  "given v = (case v of Some s \<Rightarrow> if trim s = [] then None else Some s | None \<Rightarrow> None)"

definition from_source :: "KeySource \<Rightarrow> KeyFailure + MasterKey \<Rightarrow> KeyFailure + MasterKey \<times> KeySource" where
  "from_source src r = (case r of Inl e \<Rightarrow> Inl e | Inr k \<Rightarrow> Inr (k, src))"

text \<open>\<open>fresh\<close> are the random bytes of a generated key.\<close>

definition resolve_key ::
  "Crypto \<Rightarrow> string \<Rightarrow> string option \<Rightarrow> (string \<times> string) option \<Rightarrow> Bootstrap \<Rightarrow> string option
     \<Rightarrow> (string \<Rightarrow> KeyFile) \<Rightarrow> (string \<Rightarrow> KeyFile) \<times> (KeyFailure + MasterKey \<times> KeySource)"
where
  "resolve_key c fresh dir_error write_error bo from_env files =
     (case given from_env of
        Some raw \<Rightarrow> (files, from_source Environment (parse_key c raw ENV_VAR))
      | None \<Rightarrow>
          (case given (se_master_key (bo_secrets bo)) of
             Some inline \<Rightarrow> (files, from_source ConfigInline (parse_key c inline ''secrets.master_key''))
           | None \<Rightarrow>
               (case se_master_key_file (bo_secrets bo) of
                  Some path \<Rightarrow>
                    (files, from_source ConfigFile
                       (case read_key_file files path of Inl e \<Rightarrow> Inl e | Inr raw \<Rightarrow> parse_key c raw path))
                | None \<Rightarrow>
                    (let path = generated_key_file bo in
                     if files path \<noteq> Absent
                     then (files, from_source StateDirectory
                            (case read_key_file files path of Inl e \<Rightarrow> Inl e | Inr raw \<Rightarrow> parse_key c raw path))
                     else if \<not> se_auto_generate (bo_secrets bo) then (files, Inl (KeyMissing ENV_VAR))
                     else (case write_key_file dir_error write_error path (key_to_base64 c fresh) files of
                         (files', Inl e) \<Rightarrow> (files', Inl e)
                       | (files', Inr _) \<Rightarrow> (files', Inr (fresh, Generated)))))))"

section \<open>The command line\<close>

datatype Command = CRun string | CCheck string | CKeygen | CHelp | CVersion

datatype CliError = ConfigNeedsPath | UnknownOption string | UnexpectedArgument string | UnknownCommand string

definition DEFAULT_CONFIG :: string where
  "DEFAULT_CONFIG = ''havuz.toml''"

datatype Arg = HelpFlag | VersionFlag | ConfigFlag | OtherFlag | Word

definition arg_kind :: "string \<Rightarrow> Arg" where
  "arg_kind arg =
     (if arg = ''-h'' \<or> arg = ''--help'' then HelpFlag
      else if arg = ''-V'' \<or> arg = ''--version'' then VersionFlag
      else if arg = ''-c'' \<or> arg = ''--config'' then ConfigFlag
      else if starts_with ''-'' arg then OtherFlag
      else Word)"

definition command_of :: "string option \<Rightarrow> string option \<Rightarrow> CliError + Command" where
  "command_of cfg sub =
     (let path = (case cfg of Some p \<Rightarrow> p | None \<Rightarrow> DEFAULT_CONFIG) in
      case sub of
        None \<Rightarrow> Inr (CRun path)
      | Some cmd \<Rightarrow>
          if cmd = ''run'' then Inr (CRun path)
          else if cmd = ''check'' then Inr (CCheck path)
          else if cmd = ''keygen'' then Inr CKeygen
          else Inl (UnknownCommand cmd))"

fun parse_args :: "string list \<Rightarrow> string option \<Rightarrow> string option \<Rightarrow> CliError + Command" where
  "parse_args [] cfg sub = command_of cfg sub"
| "parse_args (arg # rest) cfg sub =
     (case arg_kind arg of
        HelpFlag \<Rightarrow> Inr CHelp
      | VersionFlag \<Rightarrow> Inr CVersion
      | ConfigFlag \<Rightarrow> (case rest of [] \<Rightarrow> Inl ConfigNeedsPath | path # rest' \<Rightarrow> parse_args rest' (Some path) sub)
      | OtherFlag \<Rightarrow> Inl (UnknownOption arg)
      | Word \<Rightarrow> if sub \<noteq> None then Inl (UnexpectedArgument arg) else parse_args rest cfg (Some arg))"

definition parse_cli :: "string list \<Rightarrow> CliError + Command" where
  "parse_cli args = parse_args args None None"

section \<open>The start\<close>

record StartWorld =
  sw_crypto :: Crypto
  sw_fresh_key :: string
  sw_dir_error :: "string option"
  sw_write_error :: "(string \<times> string) option"
  sw_environment :: "string \<Rightarrow> string option"
  sw_from_json :: "string \<Rightarrow> State option"
  sw_dir_ok :: bool
  sw_read_ok :: bool
  sw_disk :: Disk
  sw_traces_error :: "string option"            \<comment> \<open>opening the trace database\<close>
  sw_load_error :: "string \<Rightarrow> string \<Rightarrow> string option"
  sw_pki :: Pki
  sw_now :: time
  sw_jvm :: JvmWorld
  sw_io_text :: "ErrorKind \<Rightarrow> string"

datatype StartError =
  StartConfig BootstrapError
  | StartKey KeyFailure
  | StartStore StoreFailure
  | StartTraces string
  | StartTls string
  | StartFamilies string
  | StartPools ProtoError

definition start_world :: "StartWorld \<Rightarrow> MasterKey \<Rightarrow> World" where
  "start_world w k =
     \<lparr>wo_libs = \<lparr>li_crypto = sw_crypto w, li_pki = sw_pki w, li_master_key = k\<rparr>, wo_now = sw_now w, wo_jvm = sw_jvm w,
      wo_io_text = sw_io_text w\<rparr>"

text \<open>
  \<open>serve\<close> up to the point where the listeners are spawned: the shared state of the admin
  interface, the pooler and the gate. The configuration has been loaded and validated.
\<close>

definition start_server :: "StartWorld \<Rightarrow> Bootstrap \<Rightarrow> (string \<Rightarrow> KeyFile) \<Rightarrow> StartError + AdminState \<times> Pooler \<times> ClientGate \<times> MasterKey" where
  "start_server w bo files =
     (case check_admin_token (sw_environment w) bo of
        Some e \<Rightarrow> Inl (StartConfig e)
      | None \<Rightarrow>
      case snd (resolve_key (sw_crypto w) (sw_fresh_key w) (sw_dir_error w) (sw_write_error w) bo (sw_environment w ENV_VAR) files) of
        Inl e \<Rightarrow> Inl (StartKey e)
      | Inr (k, _) \<Rightarrow>
      case open_store (sw_from_json w) (sw_dir_ok w) (sw_read_ok w) (sw_disk w) of
        Inl e \<Rightarrow> Inl (StartStore e)
      | Inr store \<Rightarrow>
      case sw_traces_error w of
        Some e \<Rightarrow> Inl (StartTraces e)
      | None \<Rightarrow>
      case client_tls (sw_load_error w) (sc_tls (bo_server bo)) of
        Inl e \<Rightarrow> Inl (StartTls e)
      | Inr tls \<Rightarrow>
      case build_all of
        Inl e \<Rightarrow> Inl (StartFamilies e)
      | Inr fs \<Rightarrow>
      case sync_families (start_world w k) (so_current store) fs of
        (_, Inl e) \<Rightarrow> Inl (StartPools e)
      | (fs', Inr _) \<Rightarrow>
          (let reserved = reserved_port (bo_server bo) (ac_listen (bo_admin bo)) in
           Inr (\<lparr>ad_store = store, ad_families = fs', ad_sessions = new_sessions, ad_pins = new_registry,
                 ad_reserved_port = reserved, ad_client_tls = (ct_acceptor tls \<noteq> None),
                 ad_token = token_from (sw_environment w) (ac_auth (bo_admin bo))\<rparr>,
                new_pooler reserved (map descriptor_id fs'),
                new_gate (sc_max_client_connections (bo_server bo)), k)))"

section \<open>The end\<close>

definition DRAIN_GRACE :: duration where "DRAIN_GRACE = 10 * 1000000000"
definition DRAIN_POLL :: duration where "DRAIN_POLL = 100 * 1000000"

text \<open>
  The wait for sessions: \<open>live\<close> and \<open>at_read\<close> are what the gate and the clock say when they are
  read for the \<open>n\<close>th time. The result is how often it slept.
\<close>

partial_function (option) drain_wait :: "(nat \<Rightarrow> u64) \<Rightarrow> (nat \<Rightarrow> time) \<Rightarrow> time \<Rightarrow> nat \<Rightarrow> nat option" where
  "drain_wait live at_read deadline n =
     (if live n > 0 \<and> at_read n < deadline then drain_wait live at_read deadline (n + 1) else Some n)"

text \<open>The sockets are closed first; what is left are the sessions that did not end in time.\<close>

definition shut_down :: "(nat \<Rightarrow> u64) \<Rightarrow> (nat \<Rightarrow> time) \<Rightarrow> Pooler \<Rightarrow> (Pooler \<times> u64) option" where
  "shut_down live at_read p =
     (case drain_wait live at_read (at_read 0 + DRAIN_GRACE) 0 of
        None \<Rightarrow> None
      | Some n \<Rightarrow> Some (p\<lparr>pl_bound := []\<rparr>, live n))"

section \<open>The wait ends\<close>

lemma drain_wait_ends:
  assumes "\<And>n. at_read n + DRAIN_POLL \<le> at_read (n + 1)" "at_read n + k * DRAIN_POLL \<ge> deadline"
  shows "\<exists>m. drain_wait live at_read deadline n = Some m \<and> n \<le> m \<and> m \<le> n + k \<and> (live m = 0 \<or> deadline \<le> at_read m)
    \<and> (\<forall>i. n \<le> i \<and> i < m \<longrightarrow> live i > 0 \<and> at_read i < deadline)"
  using assms(2)
proof (induction k arbitrary: n)
  case 0
  then show ?case by (subst drain_wait.simps) (auto simp: word_gt_0)
next
  case (Suc k)
  show ?case
  proof (cases "live n > 0 \<and> at_read n < deadline")
    case True
    have "at_read (n + 1) + k * DRAIN_POLL \<ge> deadline" using Suc.prems assms(1) [of n] by simp
    from Suc.IH [OF this] obtain m where m: "drain_wait live at_read deadline (n + 1) = Some m" "n + 1 \<le> m" "m \<le> n + 1 + k"
      "live m = 0 \<or> deadline \<le> at_read m" "\<forall>i. n + 1 \<le> i \<and> i < m \<longrightarrow> live i > 0 \<and> at_read i < deadline" by blast
    have "drain_wait live at_read deadline n = Some m" by (subst drain_wait.simps) (use True m(1) in simp)
    moreover have "live i > 0 \<and> at_read i < deadline" if "n \<le> i" "i < m" for i
      using True m(5) that by (cases "i = n") auto
    ultimately show ?thesis using m by (intro exI [of _ m]) auto
  next
    case False
    then show ?thesis by (subst drain_wait.simps) (auto simp: word_gt_0)
  qed
qed

text \<open>
  C24. The wait for sessions at shutdown ends, whatever the sessions do: after at most a
  hundred naps, as soon as no session is left, and not before that while the grace period
  lasts.
\<close>

theorem shutdown_ends:
  assumes "\<And>n. at_read n + DRAIN_POLL \<le> at_read (n + 1)"
  shows "\<exists>m \<le> 100. shut_down live at_read p = Some (p\<lparr>pl_bound := []\<rparr>, live m)
    \<and> (live m = 0 \<or> at_read 0 + DRAIN_GRACE \<le> at_read m)
    \<and> (\<forall>i < m. live i > 0 \<and> at_read i < at_read 0 + DRAIN_GRACE)"
proof -
  have "at_read 0 + 100 * DRAIN_POLL \<ge> at_read 0 + DRAIN_GRACE" by (simp add: DRAIN_GRACE_def DRAIN_POLL_def)
  from drain_wait_ends [where k = 100, OF assms this, of live] show ?thesis by (auto simp: shut_down_def)
qed

theorem shutdown_ends_witness:
  "shut_down (\<lambda>n. if n < 3 then 1 else 0) (\<lambda>n. n * DRAIN_POLL) (new_pooler None []) =
     Some ((new_pooler None [])\<lparr>pl_bound := []\<rparr>, 0)"
proof -
  obtain m where m: "shut_down (\<lambda>n. if n < 3 then 1 else 0) (\<lambda>n. n * DRAIN_POLL) (new_pooler None []) =
      Some ((new_pooler None [])\<lparr>pl_bound := []\<rparr>, if m < 3 then 1 else 0)"
    and stop: "(if m < 3 then 1 else 0 :: u64) = 0 \<or> DRAIN_GRACE \<le> m * DRAIN_POLL"
    using shutdown_ends [of "\<lambda>n. n * DRAIN_POLL" "\<lambda>n. if n < 3 then 1 else 0" "new_pooler None []"] by auto
  have "\<not> m < 3" using stop by (auto simp: DRAIN_GRACE_def DRAIN_POLL_def split: if_splits)
  then show ?thesis using m by simp
qed

section \<open>A generated key is found again\<close>

definition b64_char :: "char \<Rightarrow> bool" where
  "b64_char x \<longleftrightarrow> is_ascii_alphanumeric x \<or> x = CHR ''+'' \<or> x = CHR ''/'' \<or> x = CHR ''=''"

lemma b64_ends:
  assumes "b64_char c"
  shows "ws_len (c # s) = 0" and "ws_len_rev (c # s) = 0"
  using assms by (auto simp: b64_char_def ascii_defs ws1_def dest!: ws2_cont ws3_cont split: list.split)

lemma trim_b64_line:
  assumes "list_all b64_char s"
  shows "trim (s @ [CHR 0x0A]) = s"
proof -
  have nl: "ws_len_rev (CHR 0x0A # t) = 1" for t by (simp add: ws1_def)
  show ?thesis
  proof (cases "s = []")
    case True
    then show ?thesis by (simp add: trim_def trim_start.simps [of "[CHR 0x0A]"] ws1_def trim_end_def trim_end_rev.simps)
  next
    case False
    then obtain a t where a: "s = a # t" by (cases s) auto
    from False obtain b r where b: "rev s = b # r" by (cases "rev s") auto
    have "b64_char b" using assms b by (metis list_all_iff list.set_intros(1) set_rev)
    then have "ws_len_rev (rev s) = 0" by (simp only: b b64_ends)
    then have "trim_end_rev (CHR 0x0A # rev s) = rev s"
      by (subst trim_end_rev.simps) (simp add: nl trim_end_rev.simps [of "rev s"] del: ws_len_rev.simps)
    moreover have "ws_len (s @ [CHR 0x0A]) = 0" using assms a b64_ends(1) [of a "t @ [CHR 0x0A]"] by simp
    ultimately show ?thesis by (simp add: trim_def trim_start_id trim_end_def)
  qed
qed

lemma stored_key_reads_back:
  assumes "b64_ok c" "length k = KEY_LEN"
  shows "parse_key c (key_to_base64 c k @ [CHR 0x0A]) src = Inr k"
proof -
  have "list_all b64_char (b64_encode c k)" using assms(1) by (simp add: b64_ok_def b64_char_def list_all_iff)
  then have "trim (key_to_base64 c k @ [CHR 0x0A]) = b64_encode c k" by (simp add: key_to_base64_def trim_b64_line)
  then show ?thesis using assms by (simp add: parse_key_def key_from_base64_def b64_ok_def)
qed



section \<open>A listener others can reach is locked\<close>

lemma start_server_Inr:
  assumes "start_server w bo files = Inr (s, p, g, k)"
  obtains store fs where "check_admin_token (sw_environment w) bo = None" "ad_token s = token_from (sw_environment w) (ac_auth (bo_admin bo))"
    "open_store (sw_from_json w) (sw_dir_ok w) (sw_read_ok w) (sw_disk w) = Inr store" "ad_store s = store" "build_all = Inr fs"
    "sync_families (start_world w k) (so_current store) fs = (ad_families s, Inr ())"
    "ad_reserved_port s = reserved_port (bo_server bo) (ac_listen (bo_admin bo))" "pl_reserved p = ad_reserved_port s"
  using assms by (auto simp: start_server_def new_pooler_def Let_def split: option.splits sum.splits prod.splits)

text \<open>
  C16. A process whose admin interface can be reached from elsewhere runs with a token that
  is not empty, and whatever has been asked of it before, a request that changes something
  is served when it presents that token and is refused, without any effect, when it does not.
\<close>

theorem remote_admin_is_locked:
  assumes "validate_bootstrap bo = None" "start_server w bo files = Inr (s, p, g, k)" "\<not> is_loopback (ac_listen (bo_admin bo))"
  shows "\<exists>token. token \<noteq> [] \<and> (\<forall>reqs env enc req authorization.
    serve_admin env enc req authorization (admin_run s reqs) =
      (if authorization = Some (''Bearer '' @ token) then handle env req (admin_run s reqs)
       else (admin_run s reqs, Inl AUnauthorized)))"
proof -
  have c: "check_admin_token (sw_environment w) bo = None"
    and t: "ad_token s = token_from (sw_environment w) (ac_auth (bo_admin bo))"
    using start_server_Inr [OF assms(2)] by metis+
  obtain var where "ac_auth (bo_admin bo) = Bearer var"
    using assms(1,3) by (cases "ac_auth (bo_admin bo)") (auto simp: validate_bootstrap_def)
  with c t assms(3) obtain token where "token \<noteq> []" "ad_token s = Some token"
    by (auto simp: check_admin_token_def expected_token_def token_from_def split: option.splits if_splits)
  then show ?thesis
    using admin_requires_the_token [of "admin_run s _"] admin_run_token [of s] by (intro exI [of _ token]) simp
qed

text \<open>
  C22. A start that succeeds leaves the process as the admin interface expects it: every
  enabled pool of the state file runs, and none else, and the requests that follow keep the
  document valid and the families in order. The port of the admin interface, where it can
  collide with those of the pools, is the one the listeners refuse to bind.
\<close>

theorem started_process_serves_its_document:
  assumes "start_server w bo files = Inr (s, p, g, k)" "\<And>bs st. sw_from_json w bs = Some st \<Longrightarrow> doc_wf st"
  shows "(\<forall>n. runs s n \<longleftrightarrow> enabled s n) \<and> (\<forall>reqs. admin_inv (admin_run s reqs)) \<and> pl_reserved p = ad_reserved_port s"
proof -
  obtain store fs where st: "open_store (sw_from_json w) (sw_dir_ok w) (sw_read_ok w) (sw_disk w) = Inr store" "ad_store s = store"
    "build_all = Inr fs" "sync_families (start_world w k) (so_current store) fs = (ad_families s, Inr ())"
    "pl_reserved p = ad_reserved_port s"
    using start_server_Inr [OF assms(1)] by metis
  have d: "doc s = so_current store" using st(2) by (simp add: doc_def)
  have "doc s = default_state \<or> (\<exists>bs. checked (sw_from_json w) bs = Inr (doc s))"
    using st(1) unfolding d by (auto simp: open_store_def wrap_def split: if_splits option.splits sum.splits)
  moreover have "validate default_state = None \<and> doc_wf default_state"
    by (simp add: default_state_valid doc_wf_def) (simp add: default_state_def)
  moreover have "validate x = None \<and> doc_wf x" if "checked (sw_from_json w) bs = Inr x" for bs x
    using checked_Inr [OF that] that assms(2) by (auto simp: checked_def split: option.splits)
  ultimately have "validate (doc s) = None \<and> doc_wf (doc s)" by auto
  then have s: "started s" using st(3,4) d by (auto simp: started_def)
  have fs: "fs = [PgDyn new_family, JdbcDyn new_jdbc_family]" using st(3) by (simp add: build_all_both)
  have "runs s n \<longleftrightarrow> enabled s n" for n
    unfolding runs_def enabled_def d
    by (rule synced_runs [OF st(4)]) (use s fs d in \<open>auto simp: started_def doc_wf_def new_family_def new_jdbc_family_def\<close>)
  then show ?thesis using admin_run_inv [OF s] st(5) by blast
qed

section \<open>Instances\<close>

definition example_start :: StartWorld where
  "example_start =
     \<lparr>sw_crypto = example_lib, sw_fresh_key = replicate 32 CHR ''k'', sw_dir_error = None, sw_write_error = None,
      sw_environment = (\<lambda>v. if v = ''ADMIN'' then Some ''t0ken'' else None), sw_from_json = (\<lambda>_. None), sw_dir_ok = True,
      sw_read_ok = True, sw_disk = \<lparr>dk_path = None, dk_before = [], dk_tmp = None\<rparr>, sw_traces_error = None,
      sw_load_error = (\<lambda>_ _. None), sw_pki = example_pki, sw_now = 0, sw_jvm = example_jvm, sw_io_text = (\<lambda>_. [])\<rparr>"

definition example_remote :: Bootstrap where
  "example_remote = default_bootstrap\<lparr>bo_admin := \<lparr>ac_listen = (V4 10 0 0 1, 7432), ac_auth = Bearer ''ADMIN''\<rparr>\<rparr>"

lemma example_starts: "\<exists>s p g k. start_server example_start example_remote (\<lambda>_. Absent) = Inr (s, p, g, k)"
proof -
  have "check_admin_token (sw_environment example_start) example_remote = None"
    by (simp add: check_admin_token_def example_remote_def example_start_def expected_token_def is_loopback_def)
  moreover have "\<exists>src. snd (resolve_key (sw_crypto example_start) (sw_fresh_key example_start) (sw_dir_error example_start)
      (sw_write_error example_start) example_remote (sw_environment example_start ENV_VAR) (\<lambda>_. Absent)) = Inr (sw_fresh_key example_start, src)"
    by (simp add: resolve_key_def given_def example_start_def example_remote_def default_bootstrap_def default_secrets_def ENV_VAR_def
        write_key_file_def Let_def)
  moreover have "open_store (sw_from_json example_start) (sw_dir_ok example_start) (sw_read_ok example_start) (sw_disk example_start)
      = Inr (wrap False default_state (sw_disk example_start))"
    by (simp add: open_store_def example_start_def)
  moreover have "sw_traces_error example_start = None" by (simp add: example_start_def)
  moreover have "client_tls (sw_load_error example_start) (sc_tls (bo_server example_remote)) = Inr \<lparr>ct_acceptor = None, ct_require = False\<rparr>"
    by (simp add: client_tls_def example_remote_def default_bootstrap_def default_server_def)
  moreover have "sync_families v default_state [PgDyn new_family, JdbcDyn new_jdbc_family] = ([PgDyn new_family, JdbcDyn new_jdbc_family], Inr ())" for v
    by (simp add: sync_families_def rebuild_pools_def rebuild_jdbc_def default_state_def new_family_def new_jdbc_family_def)
  ultimately show ?thesis by (auto simp: start_server_def build_all_both wrap_def Let_def)
qed

theorem remote_admin_is_locked_witness:
  "\<exists>s p g k. start_server example_start example_remote (\<lambda>_. Absent) = Inr (s, p, g, k)
    \<and> serve_admin example_admin_env id (RDeletePool ''orders'') None s = (s, Inl AUnauthorized)"
proof -
  obtain s p g k where start: "start_server example_start example_remote (\<lambda>_. Absent) = Inr (s, p, g, k)" using example_starts by blast
  have "validate_bootstrap example_remote = None" "\<not> is_loopback (ac_listen (bo_admin example_remote))"
    by (simp_all add: validate_bootstrap_def example_remote_def default_bootstrap_def default_server_def default_secrets_def is_loopback_def)
  from remote_admin_is_locked [OF this(1) start this(2)] obtain token where
    "\<forall>reqs env enc req authorization. serve_admin env enc req authorization (admin_run s reqs) =
      (if authorization = Some (''Bearer '' @ token) then handle env req (admin_run s reqs) else (admin_run s reqs, Inl AUnauthorized))"
    by blast
  from spec [OF this, of "[]"] have "serve_admin example_admin_env id (RDeletePool ''orders'') None s = (s, Inl AUnauthorized)"
    by (simp add: admin_run_def)
  with start show ?thesis by blast
qed

theorem started_process_serves_its_document_witness:
  "\<exists>s p g k. start_server example_start example_remote (\<lambda>_. Absent) = Inr (s, p, g, k) \<and> \<not> runs s ''orders''
    \<and> admin_inv (admin_run s [(example_admin_env, RDeletePool ''orders'')])"
proof -
  obtain s p g k where start: "start_server example_start example_remote (\<lambda>_. Absent) = Inr (s, p, g, k)" using example_starts by blast
  have T: "(\<forall>n. runs s n \<longleftrightarrow> enabled s n) \<and> (\<forall>reqs. admin_inv (admin_run s reqs)) \<and> pl_reserved p = ad_reserved_port s"
    by (rule started_process_serves_its_document [OF start]) (simp add: example_start_def)
  have "ad_store s = wrap False default_state (sw_disk example_start)"
    by (rule start_server_Inr [OF start]) (auto simp: open_store_def example_start_def)
  then have "\<not> enabled s ''orders''" by (simp add: enabled_def doc_def wrap_def default_state_def)
  with T start show ?thesis by blast
qed

end
