(* ===== verification/Spec2Isabelle.thy ===== *)
theory Spec2Isabelle
  imports Flow Session_Rules Pins Wire Proto Counters Pool Pool_Concurrent Breaker
    Sql_Scan Params Classify Prepared Routing Cancel
    Txn_Properties Registry Secrets Config Store Pooler Sessions Scram
    Tls Login Auth Handshake Group Family Session_Relay
    Txn_Frame Serve Serve_Properties
    Jdbc_Rewrite Jdbc_Types Jdbc_Agent Jdbc_Session Jdbc_Family Jdbc_Frame Jdbc_Serve
    Control Admin Admin_Properties Server
begin

text \<open>
  \<^bold>\<open>A verification of havuz.\<close> havuz is a connection pooler: clients speak the PostgreSQL protocol
  to it, and it serves them on a bounded number of connections to PostgreSQL, or, through a
  Java sidecar, to any database with a JDBC driver. This development models its Rust
  workspace, the crates under \<open>src/crates\<close>, as executable definitions and proves what makes
  each part, and the parts together, correct.

  \<^bold>\<open>The parts and how they interact.\<close> The server process reads its static configuration,
  resolves the master key, opens the state store and the sealed secrets, builds one family
  per database protocol, and starts the listeners and the administration interface. An
  administrator's request changes the configuration document in the store; the families
  then build, replace and retire their pools, and the listeners their sockets, until both
  agree with the document. A client that connects passes the gate of the process, the
  startup exchange and the authentication against the document, and is then relayed: in
  session mode on one connection until it leaves, in transaction mode on a connection that
  is borrowed for a statement or a transaction and given back as soon as nothing of the
  client's is left on it. What may be left is decided by the classifier of statements, the
  tracked session parameters, the prepared statements and the flow state. Connections come
  from the pool engine, one pool per target, each behind a circuit breaker; reads may go to
  replicas.

  \<^bold>\<open>Shared theories.\<close>
  \<^item> \<open>Prelude\<close>: machine integers, saturating operations, collections of rewrite rules, and the
    interfaces used throughout: \<open>machine\<close> (a step relation with an invariant), \<open>op_machine\<close>
    (the same for a set of total operations, a sublocale of the first), \<open>refinement\<close> (an
    \<open>op_machine\<close> with an abstract one it simulates) and \<open>codec\<close> (a round trip).
  \<^item> \<open>Rust_Str\<close>, \<open>Utf8\<close>, \<open>Btree\<close>: strings as lists of bytes with the functions of the
    standard library, the decoder of UTF-8, and \<open>BTreeMap\<close> as a list in key order.

  \<^bold>\<open>The pool engine\<close> (\<open>havuz-pool\<close>).
  \<^item> \<open>Counters\<close>, \<open>Pool\<close>: \<open>counters.rs\<close> and \<open>pool.rs\<close>, each stretch of an operation between two
    awaits a definition on the record of the pool. \<open>Pool_Concurrent\<close> runs any number of tasks
    over these stretches as an inductive step relation, with cancelled waits and breaking
    connections; its invariant gives that no more than \<open>max_size\<close> connections are ever open
    or opening, that a connection is in one place, and that permits are conserved.
  \<^item> \<open>Breaker\<close>: \<open>breaker.rs\<close>, with the race on the transition from open to half-open as a step
    relation of its own.

  \<^bold>\<open>The vocabulary of a session\<close> (\<open>havuz-proto\<close>, \<open>havuz-registry\<close>).
  \<^item> \<open>Flow\<close>: \<open>flow.rs\<close>, when a backend may be given back, characterised by the history of the
    session. \<open>Proto\<close>: the errors and what a client is told of them. \<open>Pins\<close>: the registry of
    pinned sessions.
  \<^item> \<open>Session_Rules\<close>: the statement rules of a product and their longest match. \<open>Registry\<close>: the
    families, products and profiles as data, the validation of fields, the resolution of a
    product.

  \<^bold>\<open>The PostgreSQL family\<close> (\<open>havuz-pg\<close>, \<open>havuz-control/src/holders.rs\<close>).
  \<^item> \<open>Wire\<close>: \<open>protocol.rs\<close>. A reader is a function from bytes to a result and the rest of the
    input; framing is exact in both directions.
  \<^item> \<open>Sql_Scan\<close>, \<open>Classify\<close>, \<open>Params\<close>: the lexical scans of \<open>classify.rs\<close>, what a message pins
    and where it may be routed, the parameters that are tracked and replayed, and the
    statements a read-only client is refused.
  \<^item> \<open>Prepared\<close>, \<open>Routing\<close>, \<open>Cancel\<close>, \<open>Holders\<close>, \<open>Backend\<close>: the files of the same names. The
    statement cache is bounded and first-in first-out; a replica is used only where that is
    safe; keys of cancellation follow the backend.
  \<^item> \<open>Txn\<close>, \<open>Txn_Relay\<close>: the relay of transaction mode (\<open>txn.rs\<close>), its helpers over the theories
    above and then its loop, cut at the phases of the source. \<open>Txn_Statements\<close> and
    \<open>Txn_Safety\<close> hold the invariant of the loop; \<open>Txn_Properties\<close> reads off the guarantees: an
    idle client holds nothing, a backend goes back only when it is ready or closed, a held
    backend carries the client's parameters, a statement is bound only where it was parsed,
    and a session that ends leaves nothing behind.
  \<^item> \<open>Session_Relay\<close>: the relay of session mode (\<open>relay.rs\<close>), which must recognise \<open>Terminate\<close>
    however the bytes are cut into reads.
  \<^item> \<open>Scram\<close>, \<open>Tls\<close>, \<open>Login\<close>: both sides of SCRAM-SHA-256 (\<open>scram.rs\<close>, \<open>verifier.rs\<close>), the modes of TLS
    (\<open>havuz-core/src/tls.rs\<close>), and the opening of a connection to the database (\<open>backend.rs\<close>).
  \<^item> \<open>Auth\<close>, \<open>Handshake\<close>: the policy for a name that asks for a pool, as a locale
    \<open>authenticator\<close> with its interpretation, and the startup exchange with a client over it
    (\<open>session.rs\<close>, \<open>family.rs\<close>). Success is sent only to an identity that has proven its
    password and is entitled to the pool, and such a client does get in.
  \<^item> \<open>Group\<close>, \<open>Family\<close>: the pools of a configured pool and its replicas (\<open>group.rs\<close>), and the
    family that builds, reloads and sweeps them (\<open>family.rs\<close>); a client borrows connections of
    the service account or of its own role, never of another client.
  \<^item> \<open>Serve\<close>: \<open>PgFamily::serve\<close>, a client from its first byte to its last: the handshake, its
    group, the registries, the first connection and the relay of its pool's mode, with the
    drops of each scope. \<open>Serve_Properties\<close> has the guarantees from end to end; \<open>Txn_Frame\<close> shows
    for them that the relay touches no other session's entries and loses no connection.

  \<^bold>\<open>The JDBC family\<close> (\<open>havuz-jdbc\<close>).
  \<^item> \<open>Jdbc_Rewrite\<close>, \<open>Jdbc_Types\<close>: placeholders, and the types, values and command tags.
  \<^item> \<open>Jdbc_Agent\<close>: requests and answers of the sidecar. \<open>Jdbc_Session\<close>: a client's session over
    it. \<open>Jdbc_Family\<close>: connections and pools. \<open>Jdbc_Serve\<close>: \<open>JdbcFamily::serve\<close>, a client of the
    bridge from end to end, with \<open>Jdbc_Frame\<close> for what a session leaves alone.

  \<^bold>\<open>Configuration and secrets\<close> (\<open>havuz-core\<close>, \<open>havuz-secrets\<close>).
  \<^item> \<open>Config\<close>: \<open>state.rs\<close>, the document and its validation with every error; what a valid
    document guarantees to its readers. \<open>Store\<close>: \<open>store.rs\<close>, changes that are all or nothing,
    with crashes between the file operations.
  \<^item> \<open>Secrets\<close>: master keys and the sealed store.

  \<^bold>\<open>The process\<close> (\<open>havuz-control\<close>, \<open>havuz-admin\<close>, \<open>havuz-server\<close>).
  \<^item> \<open>Sessions\<close>: the client gate, proved a refinement of a counter, and the live sessions.
    \<open>Pooler\<close>: the listeners (\<open>pooler.rs\<close>), whose reconcile implements the planned ports.
  \<^item> \<open>Control\<close>: both families behind the interface \<open>control_plane\<close>, a locale with an
    interpretation for each of them and for the value that is one of the two.
  \<^item> \<open>Admin\<close>, \<open>Admin_Properties\<close>: the handlers that change something, as operations on one
    record of the store, the secrets, the families and the sessions, and what a request
    guarantees after any history of requests.
  \<^item> \<open>Server\<close>: the static configuration (\<open>config.rs\<close>), the master key, the command line, the
    order of the start, and the wait at shutdown.

  \<^bold>\<open>How state and operations correspond.\<close> A struct is a \<open>record\<close> with the fields of the source, an enum
  a \<open>datatype\<close> with its variants, a method a definition of the same name that takes and
  returns the record; a name that clashes carries a suffix. \<open>Result\<close> is a sum with the
  error on the left, and each early return is a branch. \<open>u8\<close> to \<open>u64\<close> are words where
  arithmetic can wrap or is saturated by the source, and numbers elsewhere. Data behind a
  lock is a field of the record that owns it; where tasks interleave (the pool, the breaker,
  cancellation, live sessions) a step is one critical section.

  \<^bold>\<open>Parameters and oracles.\<close> Cryptographic primitives, the parsing and checking of certificates, JSON and
  TOML, the resolution of names and the JVM come from outside the repository and are
  arguments of the definitions that use them, with what is assumed of them as hypotheses
  where a theorem needs it, and a concrete instance in its witness. Clocks and random bytes are
  arguments. What the network, the pools seen by a session and the sidecar do is a list of
  answers the model consumes, so a theorem for all lists is a theorem for all behaviours;
  an empty list is the closed connection. A loop over a connection is therefore a recursion
  over what arrives and needs no fuel. The wait at shutdown is a \<open>partial_function\<close>, which is
  proved to return after at most a hundred naps.

  \<^bold>\<open>Not modelled.\<close>
  \<^item> Other sessions while one client is served: \<open>serve\<close> of both families runs against registries
    that no other session changes meanwhile; the registries, the pool and cancellation are
    verified for any interleaving of their operations.
  \<^item> The store of traces (\<open>trace.rs\<close>, a database file behind a library), the spans and observers
    of traced statements, metrics, target reports, the form schema and files of the dashboard,
    and the handlers that only show them: they observe and decide nothing.
  \<^item> Sockets, signals, the accept loops and the HTTP server: input and output of libraries.
    Requests to the administration interface are served one at a time.
  \<^item> Display texts (labels, descriptions, log lines) and the floating point ratio \<open>fan_in\<close>.
  \<^item> The Java agent and the web interface, which are not Rust, and the test doubles.
\<close>

end
